(* ===== verification/Xeibe_Prelude.thy ===== *)
theory Xeibe_Prelude
  imports Main "HOL-Library.Word" "HOL-Library.Char_ord"
begin

text \<open>
  The prelude of the development: the types that stand for Rust's \<open>[u8]\<close> and \<open>str\<close>, the
  functions of Rust's standard library on slices and strings that the modelled code calls, and
  the generic lemmas and fact collections the components share.

  A byte is an Isabelle \<open>char\<close> (256 values), so \<open>[u8]\<close>, \<open>Vec<u8>\<close>, \<open>str\<close>
  and \<open>String\<close> are all \<open>char list\<close>; a \<open>str\<close> is one whose bytes are UTF-8.
  Indices and lengths (\<open>usize\<close>, \<open>u64\<close>) are \<open>nat\<close> where the code only counts what it
  has read; where a width matters a component uses \<open>'n word\<close> or writes the saturation out.
\<close>

named_theorems bytes_simps \<open>facts on byte slices used to evaluate and to reason\<close>
named_theorems merge_laws \<open>laws of the operations that combine statistics\<close>

type_synonym bytes = "char list"

subsection \<open>Bytes\<close>

definition byte_val :: "char \<Rightarrow> nat" where
  "byte_val c = of_char c"

definition is_ascii_digit :: "char \<Rightarrow> bool" where
  "is_ascii_digit c \<longleftrightarrow> 48 \<le> byte_val c \<and> byte_val c \<le> 57"

text \<open>\<open>u8::is_ascii_whitespace\<close>: space, tab, line feed, form feed, carriage return.\<close>

definition is_ascii_whitespace :: "char \<Rightarrow> bool" where
  "is_ascii_whitespace c \<longleftrightarrow> byte_val c \<in> {32, 9, 10, 12, 13}"

definition to_ascii_lowercase :: "char \<Rightarrow> char" where
  "to_ascii_lowercase c =
     (if 65 \<le> byte_val c \<and> byte_val c \<le> 90 then char_of (byte_val c + 32) else c)"

definition lowercase :: "bytes \<Rightarrow> bytes" where
  "lowercase s = map to_ascii_lowercase s"

definition eq_ignore_ascii_case :: "bytes \<Rightarrow> bytes \<Rightarrow> bool" where
  "eq_ignore_ascii_case a b \<longleftrightarrow> lowercase a = lowercase b"

definition quote_char :: char where
  "quote_char = CHR 0x22"

definition apos_char :: char where
  "apos_char = CHR 0x27"

lemmas byte_class_defs [bytes_simps] =
  byte_val_def is_ascii_digit_def is_ascii_whitespace_def to_ascii_lowercase_def
  lowercase_def eq_ignore_ascii_case_def quote_char_def apos_char_def

subsection \<open>Slices\<close>

text \<open>\<open>&xs[a..b]\<close>, for \<open>a \<le> b \<le> xs.len()\<close>.\<close>

definition slice :: "nat \<Rightarrow> nat \<Rightarrow> 'a list \<Rightarrow> 'a list" where
  "slice a b xs = take (b - a) (drop a xs)"

text \<open>\<open>xs.iter().position(p)\<close>.\<close>

fun first_index :: "('a \<Rightarrow> bool) \<Rightarrow> 'a list \<Rightarrow> nat option" where
  "first_index p [] = None"
| "first_index p (x # xs) = (if p x then Some 0 else map_option Suc (first_index p xs))"

text \<open>\<open>xs.strip_prefix(p)\<close> and \<open>xs.starts_with(p)\<close>.\<close>

fun strip_prefix :: "'a list \<Rightarrow> 'a list \<Rightarrow> 'a list option" where
  "strip_prefix [] xs = Some xs"
| "strip_prefix (p # ps) [] = None"
| "strip_prefix (p # ps) (x # xs) = (if p = x then strip_prefix ps xs else None)"

definition starts_with :: "'a list \<Rightarrow> 'a list \<Rightarrow> bool" where
  "starts_with p xs \<longleftrightarrow> strip_prefix p xs \<noteq> None"

definition strip_suffix :: "'a list \<Rightarrow> 'a list \<Rightarrow> 'a list option" where
  "strip_suffix p xs = map_option rev (strip_prefix (rev p) (rev xs))"

text \<open>The first index at which \<open>pat\<close> occurs: \<open>xs.windows(n).position(|w| w == pat)\<close>,
  \<open>str::find\<close>.\<close>

fun find_sub :: "'a list \<Rightarrow> 'a list \<Rightarrow> nat option" where
  "find_sub pat [] = (if pat = [] then Some 0 else None)"
| "find_sub pat (x # xs) =
     (if starts_with pat (x # xs) then Some 0 else map_option Suc (find_sub pat xs))"

definition contains_sub :: "'a list \<Rightarrow> 'a list \<Rightarrow> bool" where
  "contains_sub pat xs \<longleftrightarrow> find_sub pat xs \<noteq> None"

text \<open>\<open>s.split_once(c)\<close>: at the first \<open>c\<close>, which is left out.\<close>

definition split_once :: "'a \<Rightarrow> 'a list \<Rightarrow> ('a list \<times> 'a list) option" where
  "split_once c s =
     map_option (\<lambda>i. (take i s, drop (Suc i) s)) (first_index (\<lambda>x. x = c) s)"

text \<open>\<open>s.split(c)\<close>: the pieces between the separators, at least one.\<close>

fun split_on :: "'a \<Rightarrow> 'a list \<Rightarrow> 'a list list" where
  "split_on c [] = [[]]"
| "split_on c (x # xs) =
     (if x = c then [] # split_on c xs
      else (case split_on c xs of [] \<Rightarrow> [[x]] | w # ws \<Rightarrow> (x # w) # ws))"

definition trim_start_matches :: "('a \<Rightarrow> bool) \<Rightarrow> 'a list \<Rightarrow> 'a list" where
  "trim_start_matches p s = dropWhile p s"

definition trim_end_matches :: "('a \<Rightarrow> bool) \<Rightarrow> 'a list \<Rightarrow> 'a list" where
  "trim_end_matches p s = rev (dropWhile p (rev s))"

definition trim_ascii :: "bytes \<Rightarrow> bytes" where
  "trim_ascii s = trim_end_matches is_ascii_whitespace (trim_start_matches is_ascii_whitespace s)"

text \<open>The UTF-8 forms of the characters with the Unicode property White_Space.\<close>

definition whitespace_chars :: "bytes list" where
  "whitespace_chars =
     [[CHR 0x09], [CHR 0x0A], [CHR 0x0B], [CHR 0x0C], [CHR 0x0D], [CHR 0x20],
      [CHR 0xC2, CHR 0x85], [CHR 0xC2, CHR 0xA0], [CHR 0xE1, CHR 0x9A, CHR 0x80],
      [CHR 0xE2, CHR 0x80, CHR 0x80], [CHR 0xE2, CHR 0x80, CHR 0x81], [CHR 0xE2, CHR 0x80, CHR 0x82],
      [CHR 0xE2, CHR 0x80, CHR 0x83], [CHR 0xE2, CHR 0x80, CHR 0x84], [CHR 0xE2, CHR 0x80, CHR 0x85],
      [CHR 0xE2, CHR 0x80, CHR 0x86], [CHR 0xE2, CHR 0x80, CHR 0x87], [CHR 0xE2, CHR 0x80, CHR 0x88],
      [CHR 0xE2, CHR 0x80, CHR 0x89], [CHR 0xE2, CHR 0x80, CHR 0x8A], [CHR 0xE2, CHR 0x80, CHR 0xA8],
      [CHR 0xE2, CHR 0x80, CHR 0xA9], [CHR 0xE2, CHR 0x80, CHR 0xAF], [CHR 0xE2, CHR 0x81, CHR 0x9F],
      [CHR 0xE3, CHR 0x80, CHR 0x80]]"

function trim_with :: "bytes list \<Rightarrow> bytes \<Rightarrow> bytes" where
  "trim_with ws s =
     (case find (\<lambda>w. w \<noteq> [] \<and> starts_with w s) ws of
        None \<Rightarrow> s
      | Some w \<Rightarrow> trim_with ws (drop (length w) s))"
  by pat_completeness auto
termination
proof (relation "measure (\<lambda>(_, s). length s)")
  fix ws s w
  assume "find (\<lambda>w. w \<noteq> [] \<and> starts_with w s) ws = Some (w :: bytes)"
  then have "w \<noteq> []" "starts_with w s" by (auto simp: find_Some_iff)
  then have "s \<noteq> []" by (cases w; cases s) (auto simp: starts_with_def)
  with \<open>w \<noteq> []\<close> show "((ws, drop (length w) s), ws, s) \<in> measure (\<lambda>(_, s). length s)"
    by simp
qed simp

declare trim_with.simps [simp del]

text \<open>\<open>str::trim\<close>.\<close>

definition trim :: "bytes \<Rightarrow> bytes" where
  "trim s =
     rev (trim_with (map rev whitespace_chars) (rev (trim_with whitespace_chars s)))"

text \<open>\<open>str::split_ascii_whitespace\<close>: the non-empty words.\<close>

fun split_words :: "bytes \<Rightarrow> bytes \<Rightarrow> bytes list" where
  "split_words w [] = (if w = [] then [] else [rev w])"
| "split_words w (c # cs) =
     (if is_ascii_whitespace c
      then (if w = [] then split_words [] cs else rev w # split_words [] cs)
      else split_words (c # w) cs)"

definition split_ascii_whitespace :: "bytes \<Rightarrow> bytes list" where
  "split_ascii_whitespace s = split_words [] s"

text \<open>\<open>[..].join(sep)\<close>.\<close>

fun join_with :: "'a list \<Rightarrow> 'a list list \<Rightarrow> 'a list" where
  "join_with sep [] = []"
| "join_with sep [w] = w"
| "join_with sep (w # ws) = w @ sep @ join_with sep ws"

subsection \<open>Decimal digits\<close>

text \<open>\<open>n.to_string()\<close> for an unsigned integer.\<close>

fun show_nat :: "nat \<Rightarrow> bytes" where
  "show_nat n = (if n < 10 then [char_of (48 + n)] else show_nat (n div 10) @ [char_of (48 + n mod 10)])"

declare show_nat.simps [simp del]

definition show_int :: "int \<Rightarrow> bytes" where
  "show_int i = (if i < 0 then CHR ''-'' # show_nat (nat (- i)) else show_nat (nat i))"

definition digit_val :: "char \<Rightarrow> nat" where
  "digit_val c = byte_val c - 48"

text \<open>The value of a run of decimal digits.\<close>

definition digits_val :: "bytes \<Rightarrow> nat" where
  "digits_val s = foldl (\<lambda>n c. 10 * n + digit_val c) 0 s"


subsection \<open>UTF-8\<close>

definition is_continuation :: "char \<Rightarrow> bool" where
  "is_continuation c \<longleftrightarrow> 128 \<le> byte_val c \<and> byte_val c \<le> 191"

text \<open>\<open>std::str::from_utf8(..).is_ok()\<close>: the well-formed sequences of the Unicode standard
  (no overlong forms, no surrogates, nothing above U+10FFFF).\<close>

fun utf8_valid :: "bytes \<Rightarrow> bool" where
  "utf8_valid [] = True"
| "utf8_valid (a # s) =
     (let v = byte_val a in
      if v \<le> 127 then utf8_valid s
      else if 194 \<le> v \<and> v \<le> 223 then
        (case s of b # s' \<Rightarrow> is_continuation b \<and> utf8_valid s' | _ \<Rightarrow> False)
      else if 224 \<le> v \<and> v \<le> 239 then
        (case s of b # c # s' \<Rightarrow>
           (if v = 224 then 160 \<le> byte_val b \<and> byte_val b \<le> 191
            else if v = 237 then 128 \<le> byte_val b \<and> byte_val b \<le> 159
            else is_continuation b) \<and> is_continuation c \<and> utf8_valid s' | _ \<Rightarrow> False)
      else if 240 \<le> v \<and> v \<le> 244 then
        (case s of b # c # d # s' \<Rightarrow>
           (if v = 240 then 144 \<le> byte_val b \<and> byte_val b \<le> 191
            else if v = 244 then 128 \<le> byte_val b \<and> byte_val b \<le> 143
            else is_continuation b) \<and> is_continuation c \<and> is_continuation d \<and> utf8_valid s'
         | _ \<Rightarrow> False)
      else False)"

text \<open>\<open>s.chars().count()\<close>.\<close>

definition char_count :: "bytes \<Rightarrow> nat" where
  "char_count s = length (filter (\<lambda>c. \<not> is_continuation c) s)"

subsection \<open>Results and state\<close>

text \<open>
  A method \<open>fn f(&mut self, ..) -> Result<A, E>\<close> is a function to \<open>('e + 'a) \<times> 's\<close>: the
  result and the state it leaves, on the error path too. \<open>and_then\<close> is Rust's \<open>?\<close>.
\<close>

type_synonym ('e, 'a, 's) outcome = "('e + 'a) \<times> 's"

definition and_then ::
  "('e, 'a, 's) outcome \<Rightarrow> ('a \<Rightarrow> 's \<Rightarrow> ('e, 'b, 's) outcome) \<Rightarrow> ('e, 'b, 's) outcome" where
  "and_then r f = (case r of (Inl e, s) \<Rightarrow> (Inl e, s) | (Inr x, s) \<Rightarrow> f x s)"

lemma and_then_simps [simp]:
  "and_then (Inl e, s) f = (Inl e, s)"
  "and_then (Inr x, s) f = f x s"
  by (simp_all add: and_then_def)

lemma and_then_cong [fundef_cong]:
  "r = r' \<Longrightarrow> (\<And>x s. r' = (Inr x, s) \<Longrightarrow> f x s = g x s) \<Longrightarrow> and_then r f = and_then r' g"
  by (auto simp: and_then_def split: prod.splits sum.splits)

lemma and_then_Inr:
  "and_then r f = (Inr y, t) \<longleftrightarrow> (\<exists>x s. r = (Inr x, s) \<and> f x s = (Inr y, t))"
  by (auto simp: and_then_def split: prod.splits sum.splits)

text \<open>A call that must succeed and one that may fail, without state.\<close>

fun then_result :: "'e + 'a \<Rightarrow> ('a \<Rightarrow> 'e + 'b) \<Rightarrow> 'e + 'b" where
  "then_result (Inl e) f = Inl e"
| "then_result (Inr x) f = f x"

lemma then_result_cong [fundef_cong]:
  "r = r' \<Longrightarrow> (\<And>x. r' = Inr x \<Longrightarrow> f x = g x) \<Longrightarrow> then_result r f = then_result r' g"
  by (cases r') auto

lemma then_result_Inr:
  "then_result r f = Inr y \<longleftrightarrow> (\<exists>x. r = Inr x \<and> f x = Inr y)"
  by (cases r) auto

subsection \<open>Generic lemmas\<close>

lemma first_index_Some_iff:
  "first_index p xs = Some i \<longleftrightarrow> i < length xs \<and> p (xs ! i) \<and> (\<forall>j < i. \<not> p (xs ! j))"
proof (induction xs arbitrary: i)
  case Nil
  then show ?case by simp
next
  case (Cons x xs)
  show ?case
  proof (cases i)
    case 0
    then show ?thesis by simp
  next
    case (Suc k)
    then show ?thesis
      using Cons.IH [of k] by (auto simp: less_Suc_eq_0_disj)
  qed
qed

lemma first_index_None_iff: "first_index p xs = None \<longleftrightarrow> (\<forall>x \<in> set xs. \<not> p x)"
  by (induction xs) auto

lemma first_index_append:
  "first_index p (xs @ ys) =
     (case first_index p xs of Some i \<Rightarrow> Some i
      | None \<Rightarrow> map_option (\<lambda>i. length xs + i) (first_index p ys))"
proof (induction xs)
  case Nil
  show ?case by (cases "first_index p ys") simp_all
next
  case (Cons x xs)
  then show ?case
    by (cases "first_index p xs"; cases "first_index p ys") simp_all
qed

lemma strip_prefix_Some_iff: "strip_prefix p xs = Some ys \<longleftrightarrow> xs = p @ ys"
  by (induction p xs rule: strip_prefix.induct) auto

lemma starts_with_iff: "starts_with p xs \<longleftrightarrow> take (length p) xs = p"
proof -
  have "starts_with p xs \<longleftrightarrow> (\<exists>ys. xs = p @ ys)"
    by (simp add: starts_with_def strip_prefix_Some_iff)
  then show ?thesis
    by (metis append_eq_conv_conj append_take_drop_id)
qed

lemma starts_with_append [simp]: "starts_with p (p @ xs)"
  by (simp add: starts_with_iff)

lemma find_sub_Some_iff:
  "find_sub pat xs = Some i \<longleftrightarrow>
     i \<le> length xs \<and> starts_with pat (drop i xs) \<and> (\<forall>j < i. \<not> starts_with pat (drop j xs))"
proof (induction xs arbitrary: i)
  case Nil
  then show ?case by (auto simp: starts_with_iff)
next
  case (Cons x xs)
  show ?case
  proof (cases i)
    case 0
    then show ?thesis by simp
  next
    case (Suc k)
    then show ?thesis
      using Cons.IH [of k] by (auto simp: less_Suc_eq_0_disj)
  qed
qed

lemma find_sub_None_iff:
  "find_sub pat xs = None \<longleftrightarrow> (\<forall>j \<le> length xs. \<not> starts_with pat (drop j xs))"
proof (induction xs)
  case Nil
  then show ?case by (auto simp: starts_with_iff)
next
  case (Cons x xs)
  have split: "(\<forall>j \<le> length (x # xs). P j) \<longleftrightarrow> P 0 \<and> (\<forall>j \<le> length xs. P (Suc j))" for P
    by (metis Suc_le_mono le0 length_Cons not0_implies_Suc)
  show ?case
    unfolding split using Cons by auto
qed

lemma length_slice [simp]: "b \<le> length xs \<Longrightarrow> length (slice a b xs) = b - a"
  by (simp add: slice_def)

lemma slice_append_left: "b \<le> length xs \<Longrightarrow> slice a b (xs @ ys) = slice a b xs"
  by (cases "a \<le> length xs") (simp_all add: slice_def)

lemma slice_drop: "slice a b (drop k xs) = slice (k + a) (k + b) xs"
  by (simp add: slice_def add.commute)

lemma nth_slice: "a + i < b \<Longrightarrow> b \<le> length xs \<Longrightarrow> slice a b xs ! i = xs ! (a + i)"
  by (simp add: slice_def)

lemma split_once_Some_iff:
  "split_once c s = Some (a, b) \<longleftrightarrow> s = a @ c # b \<and> c \<notin> set a"
proof
  assume "split_once c s = Some (a, b)"
  then obtain i where i: "first_index (\<lambda>x. x = c) s = Some i" and ab: "a = take i s" "b = drop (Suc i) s"
    by (auto simp: split_once_def)
  from i have "i < length s" "s ! i = c" "\<forall>j < i. s ! j \<noteq> c"
    by (auto simp: first_index_Some_iff)
  then show "s = a @ c # b \<and> c \<notin> set a"
    using ab by (auto simp: in_set_conv_nth id_take_nth_drop)
next
  assume "s = a @ c # b \<and> c \<notin> set a"
  then have s: "s = a @ c # b" and c: "c \<notin> set a" by auto
  from c have "first_index (\<lambda>x. x = c) a = None"
    by (auto simp: first_index_None_iff)
  then show "split_once c s = Some (a, b)"
    by (simp add: split_once_def s first_index_append)
qed

lemma split_once_None_iff: "split_once c s = None \<longleftrightarrow> c \<notin> set s"
  by (auto simp: split_once_def first_index_None_iff)

lemma split_on_single: "c \<notin> set s \<Longrightarrow> split_on c s = [s]"
  by (induction s) auto

lemma split_on_append: "split_on c (a @ c # b) = split_on c a @ split_on c b"
proof (induction a)
  case (Cons x a)
  have "split_on c a \<noteq> []" by (cases a) (auto split: list.splits)
  then show ?case using Cons by (auto split: list.splits)
qed simp

lemma join_with_cons: "ws \<noteq> [] \<Longrightarrow> join_with sep (w # ws) = w @ sep @ join_with sep ws"
  by (cases ws) simp_all

lemma split_on_join: "ws \<noteq> [] \<Longrightarrow> list_all (\<lambda>w. c \<notin> set w) ws \<Longrightarrow> split_on c (join_with [c] ws) = ws"
proof (induction ws)
  case (Cons w ws)
  then show ?case
    by (cases ws) (simp_all add: split_on_single split_on_append join_with_cons)
qed simp

subsection \<open>Decimal text of integers\<close>

lemma digits_val_append: "digits_val (s @ [c]) = 10 * digits_val s + digit_val c"
  by (simp add: digits_val_def)

lemma byte_digit: "k < 10 \<Longrightarrow> byte_val (char_of (48 + k)) = 48 + k"
  by (simp add: byte_val_def)

lemma digit_char: "k < 10 \<Longrightarrow> is_ascii_digit (char_of (48 + k))" "k < 10 \<Longrightarrow> digit_val (char_of (48 + k)) = k"
  by (simp_all add: is_ascii_digit_def digit_val_def byte_digit)

lemma show_nat_digits: "list_all is_ascii_digit (show_nat n)" "show_nat n \<noteq> []"
proof -
  have "list_all is_ascii_digit (show_nat n) \<and> show_nat n \<noteq> []"
  proof (induction n rule: show_nat.induct)
    case (1 n)
    then show ?case by (subst (1 2) show_nat.simps) (auto simp: digit_char)
  qed
  then show "list_all is_ascii_digit (show_nat n)" "show_nat n \<noteq> []" by simp_all
qed

lemma digits_val_show_nat: "digits_val (show_nat n) = n"
proof (induction n rule: show_nat.induct)
  case (1 n)
  show ?case
  proof (cases "n < 10")
    case True
    then show ?thesis by (subst show_nat.simps) (simp add: digits_val_def digit_char)
  next
    case False
    then show ?thesis using 1 by (subst show_nat.simps) (simp add: digits_val_append digit_char)
  qed
qed

lemma show_nat_no_leading_zero: "1 < length (show_nat n) \<Longrightarrow> hd (show_nat n) \<noteq> CHR ''0''"
proof (induction n rule: show_nat.induct)
  case (1 n)
  show ?case
  proof (cases "n < 10")
    case True
    then show ?thesis using 1(2) by (subst (asm) show_nat.simps) simp
  next
    case False
    then have e: "show_nat n = show_nat (n div 10) @ [char_of (48 + n mod 10)]" by (subst show_nat.simps) simp
    show ?thesis
    proof (cases "n div 10 < 10")
      case True
      then have s: "show_nat (n div 10) = [char_of (48 + n div 10)]" by (subst show_nat.simps) simp
      have "0 < n div 10" using False by auto
      then have "byte_val (char_of (48 + n div 10)) \<noteq> 48" using byte_digit [OF True] by simp
      moreover have "byte_val CHR ''0'' = 48" by (simp add: byte_val_def)
      ultimately have "char_of (48 + n div 10) \<noteq> CHR ''0''" by metis
      then show ?thesis unfolding e s by simp
    next
      case big: False
      then have "1 < length (show_nat (n div 10))"
        using show_nat_digits(2) [of "n div 10 div 10"] by (subst show_nat.simps) simp
      then show ?thesis using 1(1) False show_nat_digits(2) unfolding e by simp
    qed
  qed
qed

lemma digit_not:
  "is_ascii_digit c \<Longrightarrow> c \<noteq> CHR ''-''" "is_ascii_digit c \<Longrightarrow> c \<noteq> CHR ''+''" "is_ascii_digit c \<Longrightarrow> c \<noteq> CHR ''.''"
  "is_ascii_digit c \<Longrightarrow> c \<noteq> CHR ''e''" "is_ascii_digit c \<Longrightarrow> c \<noteq> CHR ''E''" "is_ascii_digit c \<Longrightarrow> c \<noteq> CHR '':''"
  by (auto simp: is_ascii_digit_def byte_val_def)

end
