(* ===== verification/Names.thy ===== *)
theory Names
  imports Xeibe_Prelude
begin

text \<open>
  Qualified names and namespace scopes (\<open>crates/xeibe-core/src/qname.rs\<close>,
  \<open>crates/xeibe-core/src/namespace.rs\<close>). \<open>qname\<close> is \<open>QName\<close>,
  \<open>namespace_context\<close> is \<open>NamespaceContext\<close>. An \<open>Arc<str>\<close> is the string: the code
  never compares these pointers. The interface of a namespace scope (declare a prefix, look a
  prefix up) is the locale \<open>namespace_scope\<close>; the context provides it here, and the
  splitter's stack of declarations provides it in \<open>Splitter\<close>.
\<close>

subsection \<open>Qualified names\<close>

record qname =
  qns :: "bytes option"
  qlocal :: bytes

definition mk_qname :: "bytes option \<Rightarrow> bytes \<Rightarrow> qname" where
  "mk_qname n l = \<lparr>qns = n, qlocal = l\<rparr>"

definition NS_GML :: bytes where "NS_GML = ''http://www.opengis.net/gml''"
definition NS_GML_32 :: bytes where "NS_GML_32 = ''http://www.opengis.net/gml/3.2''"
definition NS_GML_33 :: "bytes list" where
  "NS_GML_33 =
     [''http://www.opengis.net/gml/3.3/ce'', ''http://www.opengis.net/gml/3.3/tin'',
      ''http://www.opengis.net/gml/3.3/rgrid'', ''http://www.opengis.net/gml/3.3/xbt'',
      ''http://www.opengis.net/gml/3.3/lr'', ''http://www.opengis.net/gml/3.3/lrtr'',
      ''http://www.opengis.net/gml/3.3/lro'', ''http://www.opengis.net/gml/3.3/lrov'',
      ''http://www.opengis.net/gml/3.3/exr'']"
definition NS_XLINK :: bytes where "NS_XLINK = ''http://www.w3.org/1999/xlink''"
definition NS_XSI :: bytes where "NS_XSI = ''http://www.w3.org/2001/XMLSchema-instance''"
definition NS_WFS :: bytes where "NS_WFS = ''http://www.opengis.net/wfs''"
definition NS_WFS_20 :: bytes where "NS_WFS_20 = ''http://www.opengis.net/wfs/2.0''"
definition NS_FME :: bytes where "NS_FME = ''http://www.safe.com/gml/fme''"

lemmas ns_defs =
  NS_GML_def NS_GML_32_def NS_GML_33_def NS_XLINK_def NS_XSI_def NS_WFS_def NS_WFS_20_def NS_FME_def

definition is_gml :: "qname \<Rightarrow> bool" where
  "is_gml q \<longleftrightarrow> qns q = Some NS_GML \<or> qns q = Some NS_GML_32"

definition is_gml_named :: "qname \<Rightarrow> bytes \<Rightarrow> bool" where
  "is_gml_named q l \<longleftrightarrow> is_gml q \<and> qlocal q = l"

definition is_gml_33 :: "qname \<Rightarrow> bool" where
  "is_gml_33 q \<longleftrightarrow> (case qns q of None \<Rightarrow> False | Some n \<Rightarrow> n \<in> set NS_GML_33)"

definition to_clark :: "qname \<Rightarrow> bytes" where
  "to_clark q = (case qns q of
     Some n \<Rightarrow> ''{'' @ n @ ''}'' @ qlocal q
   | None \<Rightarrow> qlocal q)"

subsection \<open>Namespace contexts\<close>

record namespace_context =
  ctx_bindings :: "(bytes option \<times> bytes) list"

definition new_context :: namespace_context where
  "new_context = \<lparr>ctx_bindings = []\<rparr>"

fun declare_binding ::
  "bytes option \<Rightarrow> bytes \<Rightarrow> (bytes option \<times> bytes) list \<Rightarrow> (bytes option \<times> bytes) list" where
  "declare_binding p u [] = [(p, u)]"
| "declare_binding p u ((q, v) # bs) = (if q = p then (q, u) # bs else (q, v) # declare_binding p u bs)"

definition declare_ns :: "bytes option \<Rightarrow> bytes \<Rightarrow> namespace_context \<Rightarrow> namespace_context" where
  "declare_ns p u c = c\<lparr>ctx_bindings := declare_binding p u (ctx_bindings c)\<rparr>"

definition resolve_prefix :: "namespace_context \<Rightarrow> bytes option \<Rightarrow> bytes option" where
  "resolve_prefix c p =
     (case find (\<lambda>(q, _). q = p) (ctx_bindings c) of
        None \<Rightarrow> None
      | Some (_, u) \<Rightarrow> if u \<noteq> [] \<or> p \<noteq> None then Some u else None)"

definition resolve_name :: "namespace_context \<Rightarrow> bytes \<Rightarrow> qname option" where
  "resolve_name c s =
     (case split_once (CHR '':'') s of
        Some (p, l) \<Rightarrow>
          (case resolve_prefix c (Some p) of
             None \<Rightarrow> None
           | Some u \<Rightarrow> Some (mk_qname (Some u) l))
      | None \<Rightarrow> Some (mk_qname (resolve_prefix c None) s))"

definition context_is_empty :: "namespace_context \<Rightarrow> bool" where
  "context_is_empty c \<longleftrightarrow> ctx_bindings c = []"

definition declares_uri :: "namespace_context \<Rightarrow> bytes \<Rightarrow> bool" where
  "declares_uri c u \<longleftrightarrow> (\<exists>b \<in> set (ctx_bindings c). snd b = u)"

definition escape_char :: "char \<Rightarrow> bytes" where
  "escape_char c =
     (if c = CHR ''&'' then ''&amp;''
      else if c = CHR ''<'' then ''&lt;''
      else if c = quote_char then ''&quot;''
      else [c])"

definition xmlns_attribute :: "bytes option \<times> bytes \<Rightarrow> bytes" where
  "xmlns_attribute b =
     (case fst b of Some p \<Rightarrow> '' xmlns:'' @ p | None \<Rightarrow> '' xmlns'')
     @ [CHR ''='', quote_char] @ concat (map escape_char (snd b)) @ [quote_char]"

definition to_xmlns_attributes :: "namespace_context \<Rightarrow> bytes" where
  "to_xmlns_attributes c = concat (map xmlns_attribute (ctx_bindings c))"

subsection \<open>The interface of a namespace scope\<close>

text \<open>
  What the users of a scope rely on: a declaration binds its prefix and no other, over any
  earlier binding of the prefix. The client lemmas say what a run of declarations leaves.
\<close>

locale namespace_scope =
  fixes no_scope :: 'c
    and declare_in :: "bytes option \<Rightarrow> bytes \<Rightarrow> 'c \<Rightarrow> 'c"
    and binding_in :: "'c \<Rightarrow> bytes option \<Rightarrow> bytes option"
  assumes binding_none: "binding_in no_scope p = None"
    and binding_declare:
      "binding_in (declare_in p u c) q = (if q = p then Some u else binding_in c q)"
begin

definition declare_all :: "(bytes option \<times> bytes) list \<Rightarrow> 'c \<Rightarrow> 'c" where
  "declare_all bs c = fold (\<lambda>(p, u). declare_in p u) bs c"

lemma binding_declare_all:
  "binding_in (declare_all bs c) q =
     (case map_of (rev bs) q of Some u \<Rightarrow> Some u | None \<Rightarrow> binding_in c q)"
  unfolding declare_all_def
proof (induction bs arbitrary: c)
  case Nil
  then show ?case by simp
next
  case (Cons b bs)
  obtain p u where b: "b = (p, u)" by (cases b)
  show ?case
    by (simp add: Cons.IH b binding_declare map_add_def split: option.splits)
qed

lemma binding_declare_all_last: "binding_in (declare_all bs no_scope) q = map_of (rev bs) q"
  by (simp add: binding_declare_all binding_none split: option.splits)

end

definition context_binding :: "namespace_context \<Rightarrow> bytes option \<Rightarrow> bytes option" where
  "context_binding c p = map_option snd (find (\<lambda>(q, _). q = p) (ctx_bindings c))"

lemma find_declare_binding:
  "map_option snd (find (\<lambda>(q, _). q = r) (declare_binding p u bs)) =
     (if r = p then Some u else map_option snd (find (\<lambda>(q, _). q = r) bs))"
  by (induction bs) auto

interpretation context_scope: namespace_scope new_context declare_ns context_binding
  by unfold_locales
    (simp_all add: context_binding_def new_context_def declare_ns_def find_declare_binding)

lemma resolve_prefix_binding:
  "resolve_prefix c p =
     (case context_binding c p of
        None \<Rightarrow> None
      | Some u \<Rightarrow> if u \<noteq> [] \<or> p \<noteq> None then Some u else None)"
  by (auto simp: resolve_prefix_def context_binding_def split: option.splits prod.splits)

text \<open>Each prefix appears once: the representation invariant of \<open>NamespaceContext\<close>.\<close>

definition context_ok :: "namespace_context \<Rightarrow> bool" where
  "context_ok c \<longleftrightarrow> distinct (map fst (ctx_bindings c))"

lemma set_declare_binding: "fst ` set (declare_binding p u bs) = insert p (fst ` set bs)"
  by (induction p u bs rule: declare_binding.induct) (simp_all add: insert_commute)

lemma distinct_declare_binding:
  "distinct (map fst bs) \<Longrightarrow> distinct (map fst (declare_binding p u bs))"
proof (induction bs)
  case Nil
  then show ?case by simp
next
  case (Cons b bs)
  obtain q v where b: "b = (q, v)" by (cases b)
  from Cons show ?case
    using set_declare_binding [of p u bs] by (auto simp: b)
qed

lemma context_ok_new: "context_ok new_context"
  by (simp add: context_ok_def new_context_def)

lemma context_ok_declare: "context_ok c \<Longrightarrow> context_ok (declare_ns p u c)"
  by (simp add: context_ok_def declare_ns_def distinct_declare_binding)

lemma context_ok_declare_all: "context_ok c \<Longrightarrow> context_ok (context_scope.declare_all bs c)"
  unfolding context_scope.declare_all_def
  by (induction bs arbitrary: c) (auto simp: context_ok_declare)

lemma find_eq_map_of:
  "map_option snd (find (\<lambda>(q, _). q = p) bs) = map_of bs p"
  by (induction bs) auto

lemma context_binding_map_of: "context_binding c p = map_of (ctx_bindings c) p"
  by (simp add: context_binding_def find_eq_map_of)

end
