(* ===== verification/Versions.thy ===== *)
theory Versions
  imports Names
begin

text \<open>
  GML versions (\<open>crates/xeibe-core/src/version.rs\<close>): the evidence a scan collects
  (\<open>VersionHints\<close>) and the guess made from it (\<open>detect\<close>), with the readers of
  \<open>xsi:schemaLocation\<close>, the WFS output format and the WFS version. The order on
  \<open>GmlVersion\<close> is the derived one (declaration order), as an instance of \<open>linorder\<close>.
\<close>

datatype gml_version = V2 | V3_0 | V3_1 | V3_2 | V3_3

datatype dialect = Gml2 | Gml3

fun version_rank :: "gml_version \<Rightarrow> nat" where
  "version_rank V2 = 0"
| "version_rank V3_0 = 1"
| "version_rank V3_1 = 2"
| "version_rank V3_2 = 3"
| "version_rank V3_3 = 4"

lemma version_rank_inj: "version_rank a = version_rank b \<longleftrightarrow> a = b"
  by (cases a; cases b) simp_all

instantiation gml_version :: linorder
begin

definition less_eq_gml_version :: "gml_version \<Rightarrow> gml_version \<Rightarrow> bool" where
  "less_eq_gml_version a b \<longleftrightarrow> version_rank a \<le> version_rank b"

definition less_gml_version :: "gml_version \<Rightarrow> gml_version \<Rightarrow> bool" where
  "less_gml_version a b \<longleftrightarrow> version_rank a < version_rank b"

instance
  by intro_classes (auto simp: less_eq_gml_version_def less_gml_version_def version_rank_inj)

end

record version_hints =
  gml_namespace :: "bytes option"
  schema_location :: "bytes option"
  wfs_version :: "bytes option"
  output_format :: "bytes option"
  gml_33 :: bool
  saw_gml2_elements :: bool
  saw_gml3_elements :: bool
  saw_poslist_dimension :: bool

definition version_prefix :: "bytes \<Rightarrow> gml_version option" where
  "version_prefix text =
     (let t = trim_start_matches (\<lambda>c. c = quote_char \<or> c = apos_char) text in
      if starts_with ''3.3'' t then Some V3_3
      else if starts_with ''3.2'' t then Some V3_2
      else if starts_with ''3.1'' t then Some V3_1
      else if starts_with ''3.0'' t then Some V3_0
      else if starts_with ''3'' t then Some V3_1
      else if starts_with ''2'' t then Some V2
      else None)"

text \<open>\<open>s.split_once(pat)\<close> for a string pattern: what follows the first occurrence.\<close>

definition after_sub :: "bytes \<Rightarrow> bytes \<Rightarrow> bytes option" where
  "after_sub pat s = map_option (\<lambda>i. drop (i + length pat) s) (find_sub pat s)"

definition url_version :: "bytes \<Rightarrow> gml_version option" where
  "url_version url = Option.bind (after_sub ''/gml/'' url) version_prefix"

text \<open>\<open>iter.max()\<close> of an iterator: \<open>None\<close> when it is empty.\<close>

definition iter_max :: "'a::linorder list \<Rightarrow> 'a option" where
  "iter_max xs = (case xs of [] \<Rightarrow> None | x # ys \<Rightarrow> Some (foldl max x ys))"

definition from_schema_location :: "bytes \<Rightarrow> gml_version option" where
  "from_schema_location location =
     iter_max (List.map_filter url_version (split_ascii_whitespace location))"

text \<open>\<open>format.match_indices(marker)\<close> up to the first hit of \<open>find_map\<close>: the text after
  each occurrence is tried from left to right; the occurrences do not overlap.\<close>

function first_match :: "bytes \<Rightarrow> bytes \<Rightarrow> gml_version option" where
  "first_match marker s =
     (case after_sub marker s of
        None \<Rightarrow> None
      | Some rest \<Rightarrow>
          (case version_prefix rest of
             Some v \<Rightarrow> Some v
           | None \<Rightarrow> if length rest < length s then first_match marker rest else None))"
  by pat_completeness auto
termination
  by (relation "measure (\<lambda>(_, s). length s)") auto

declare first_match.simps [simp del]

fun first_marker :: "bytes list \<Rightarrow> bytes \<Rightarrow> gml_version option" where
  "first_marker [] s = None"
| "first_marker (m # ms) s =
     (case first_match m s of Some v \<Rightarrow> Some v | None \<Rightarrow> first_marker ms s)"

definition from_output_format :: "bytes \<Rightarrow> gml_version option" where
  "from_output_format format =
     first_marker [''gml/'', ''version='', ''gml''] (lowercase format)"

definition from_wfs_version :: "bytes \<Rightarrow> gml_version option" where
  "from_wfs_version version =
     (let v = trim version in
      if starts_with ''1.0'' v then Some V2
      else if starts_with ''1.1'' v then Some V3_1
      else if starts_with ''2.'' v then Some V3_2
      else None)"

definition stated_version :: "version_hints \<Rightarrow> gml_version option" where
  "stated_version h =
     (case Option.bind (schema_location h) from_schema_location of
        Some v \<Rightarrow> Some v
      | None \<Rightarrow> Option.bind (output_format h) from_output_format)"

definition detect :: "version_hints \<Rightarrow> gml_version option" where
  "detect h =
     (if gml_33 h then Some V3_3
      else
        let stated = stated_version h in
        if gml_namespace h = Some NS_GML_32
        then Some (if stated = Some V3_3 then V3_3 else V3_2)
        else case stated of
          Some v \<Rightarrow> Some v
        | None \<Rightarrow>
            (case Option.bind (wfs_version h) from_wfs_version of
               Some v \<Rightarrow> Some v
             | None \<Rightarrow>
                 if saw_gml3_elements h
                 then Some (if saw_poslist_dimension h then V3_0 else V3_1)
                 else if saw_gml2_elements h then Some V2
                 else None))"

subsection \<open>Properties\<close>

lemma foldl_max_ge: "(x::'a::linorder) \<le> foldl max x ys \<and> (\<forall>y \<in> set ys. y \<le> foldl max x ys)"
proof (induction ys arbitrary: x)
  case Nil
  then show ?case by simp
next
  case (Cons z zs)
  from Cons.IH [of "max x z"] show ?case by auto
qed

lemma foldl_max_in: "foldl max x ys \<in> insert (x::'a::linorder) (set ys)"
proof (induction ys arbitrary: x)
  case Nil
  then show ?case by simp
next
  case (Cons z zs)
  from Cons.IH [of "max x z"] show ?case by (auto simp: max_def)
qed

lemma iter_max_Some:
  "iter_max xs = Some m \<longleftrightarrow> m \<in> set xs \<and> (\<forall>x \<in> set xs. x \<le> m)"
proof (cases xs)
  case Nil
  then show ?thesis by (simp add: iter_max_def)
next
  case (Cons y ys)
  show ?thesis
    using foldl_max_ge [of y ys] foldl_max_in [of y ys]
    by (auto simp: iter_max_def Cons intro: order.antisym)
qed

text \<open>
  C39. The version read from an \<open>xsi:schemaLocation\<close> is the highest one among the GML schema
  URLs it lists: it is the version of one of them, and no other has a higher one.
\<close>

theorem from_schema_location_highest:
  "from_schema_location s = Some v \<longleftrightarrow>
     (\<exists>u \<in> set (split_ascii_whitespace s). url_version u = Some v) \<and>
     (\<forall>u \<in> set (split_ascii_whitespace s). \<forall>w. url_version u = Some w \<longrightarrow> w \<le> v)"
  unfolding from_schema_location_def iter_max_Some
  by (force simp: List.map_filter_def)

lemma from_schema_location_highest_witness:
  "from_schema_location ''a/gml/3.1 b/gml/3.2 c'' = Some V3_2"
  unfolding from_schema_location_highest
  by (simp add: split_ascii_whitespace_def is_ascii_whitespace_def byte_val_def url_version_def
      after_sub_def starts_with_def version_prefix_def trim_start_matches_def byte_class_defs less_eq_gml_version_def)

text \<open>
  A document in the GML 3.2 namespace is read as GML 3.2, or as 3.3 when it says so; never as
  an older version, whatever the rest of the evidence.
\<close>

theorem detect_32_namespace:
  "gml_namespace h = Some NS_GML_32 \<Longrightarrow> detect h \<in> {Some V3_2, Some V3_3}"
  by (simp add: detect_def Let_def)


lemma detect_32_namespace_witness:
  "detect \<lparr>gml_namespace = Some NS_GML_32, schema_location = None, wfs_version = Some ''1.0.0'',
     output_format = None, gml_33 = False, saw_gml2_elements = True, saw_gml3_elements = False,
     saw_poslist_dimension = False\<rparr> \<in> {Some V3_2, Some V3_3}"
  by (rule detect_32_namespace) simp

end
