(* ===== verification/Splitter.thy ===== *)
theory Splitter
  imports Names
begin

text \<open>
  The feature splitter (\<open>crates/xeibe-core/src/splitter.rs\<close>, with the chunk types of
  \<open>chunk.rs\<close>, \<open>location.rs\<close> and \<open>error.rs\<close>): the state of \<open>FeatureSplitter\<close>, its byte
  scanner over a read-ahead buffer, the state machine that finds features, and the iterator of
  chunks. This theory holds the definitions; \<open>Splitter_Scan\<close> and the theories after it hold
  the proofs.

  \<^item> The reader \<open>R: Read\<close> is the list of what its \<open>read\<close> calls return; past the end of
    the list it returns \<open>Ok(0)\<close>.
  \<^item> \<open>memchr\<close>, \<open>memmem\<close> and \<open>quick_xml::escape::unescape\<close> are third-party code:
    parameters in the record \<open>byte_ext\<close>, with their documented behaviour in \<open>ext_ok\<close>.
  \<^item> An \<open>Arc\<close> whose pointer the code compares carries the number of its allocation.
  \<^item> Stream offsets and counters (\<open>u64\<close>) are \<open>nat\<close>: they count bytes and features read.
\<close>

subsection \<open>Third-party functions\<close>

record byte_ext =
  memchr :: "char \<Rightarrow> bytes \<Rightarrow> nat option"
  memchr3 :: "char \<Rightarrow> char \<Rightarrow> char \<Rightarrow> bytes \<Rightarrow> nat option"
  memmem_find :: "bytes \<Rightarrow> bytes \<Rightarrow> nat option"
  xml_unescape :: "bytes \<Rightarrow> bytes option"

text \<open>The documented behaviour of the search functions: the first match, if any.
  \<open>xml_unescape\<close> is unconstrained.\<close>

definition ext_ok :: "byte_ext \<Rightarrow> bool" where
  "ext_ok x \<longleftrightarrow>
     (\<forall>b h. memchr x b h = first_index (\<lambda>c. c = b) h) \<and>
     (\<forall>a b c h. memchr3 x a b c h = first_index (\<lambda>d. d = a \<or> d = b \<or> d = c) h) \<and>
     (\<forall>h p. memmem_find x h p = find_sub p h)"

subsection \<open>Data\<close>

datatype 'a arc = Arc (arc_id: nat) (arc_val: 'a)

definition ptr_eq :: "'a arc \<Rightarrow> 'a arc \<Rightarrow> bool" where
  "ptr_eq a b \<longleftrightarrow> arc_id a = arc_id b"

record location =
  loc_source :: nat
  loc_byte_offset :: nat
  loc_feature_seq :: "nat option"
  loc_gml_id :: "bytes option"

datatype attr_error = No_Value bytes | Unquoted_Value bytes | Unterminated_Value bytes

datatype xml_message =
    Content_After_Root
  | Unexpected_End
  | Unexpected_End_In_Markup
  | Unexpected_End_In_Start_Tag
  | Unsupported_Declaration
  | Invalid_Utf8_In_Start_Tag
  | Bad_Attributes attr_error
  | Undeclared_Prefix bytes
  | End_Without_Start
  | End_Mismatch bytes bytes

datatype error =
    Io_Error nat
  | Xml_Error location xml_message
  | Dtd_Not_Supported location
  | No_Features nat

record raw_element =
  re_source :: nat
  re_byte_offset :: nat
  re_bytes :: bytes
  re_namespaces :: "namespace_context arc"

record feature_offset =
  in_chunk :: nat
  in_stream :: nat

record feature_chunk =
  fc_source :: nat
  fc_seq :: nat
  fc_byte_offset :: nat
  fc_bytes :: bytes
  fc_namespaces :: "namespace_context arc"
  fc_first_feature_seq :: nat
  fc_features :: nat
  fc_feature_offsets :: "feature_offset list"
  fc_collection_bounded_by :: "raw_element arc option"

text \<open>\<open>offsets.partition_point(|o| o.in_chunk <= position)\<close> on the sorted offsets, then the
  offset in the stream.\<close>

fun partition_point :: "('a \<Rightarrow> bool) \<Rightarrow> 'a list \<Rightarrow> nat" where
  "partition_point p [] = 0"
| "partition_point p (x # xs) = (if p x then Suc (partition_point p xs) else 0)"

definition stream_offset :: "feature_offset list \<Rightarrow> nat \<Rightarrow> nat \<Rightarrow> nat" where
  "stream_offset offsets base position =
     (case partition_point (\<lambda>off. in_chunk off \<le> position) offsets of
        0 \<Rightarrow> base + position
      | Suc i \<Rightarrow> in_stream (offsets ! i) + (position - in_chunk (offsets ! i)))"

definition chunk_stream_offset :: "feature_chunk \<Rightarrow> nat \<Rightarrow> nat" where
  "chunk_stream_offset c position =
     stream_offset (fc_feature_offsets c) (fc_byte_offset c) position"

datatype member_rule = One_Per_Element qname | Many_Per_Element qname

fun rule_element :: "member_rule \<Rightarrow> qname" where
  "rule_element (One_Per_Element q) = q"
| "rule_element (Many_Per_Element q) = q"

definition builtin_rules :: "member_rule list" where
  "builtin_rules =
     [One_Per_Element (mk_qname (Some NS_GML_32) ''featureMember''),
      One_Per_Element (mk_qname (Some NS_GML) ''featureMember''),
      Many_Per_Element (mk_qname (Some NS_GML_32) ''featureMembers''),
      Many_Per_Element (mk_qname (Some NS_GML) ''featureMembers''),
      One_Per_Element (mk_qname (Some NS_WFS_20) ''member'')]"

record splitter_options =
  target_chunk_bytes :: nat
  member_rules :: "member_rule list"
  allow_single_feature_root :: bool
  layers :: "qname list option"

definition default_options :: splitter_options where
  "default_options =
     \<lparr>target_chunk_bytes = 2097152, member_rules = builtin_rules,
      allow_single_feature_root = False, layers = None\<rparr>"

definition layer_wanted :: "qname list \<Rightarrow> qname \<Rightarrow> bool" where
  "layer_wanted ls name \<longleftrightarrow>
     (\<exists>l \<in> set ls. l = name \<or> (qns l = None \<and> qlocal l = qlocal name))"

record document_header =
  hd_root :: qname
  hd_namespaces :: namespace_context
  hd_schema_location :: "bytes option"
  hd_wfs_attributes :: "(qname \<times> bytes) list"
  hd_fme_produced :: bool

definition WFS_ATTRIBUTES :: "bytes list" where
  "WFS_ATTRIBUTES =
     [''numberMatched'', ''numberReturned'', ''numberOfFeatures'', ''next'', ''previous'',
      ''timeStamp'']"

text \<open>\<open>Feature depth emit start bounded_by\<close>.\<close>

datatype mode = Prolog | Outside | Feature nat bool nat bool | Epilog

record frame =
  fr_raw_name :: bytes
  fr_members :: bool
  fr_has_child :: bool
  fr_bindings_before :: nat
  fr_bounded_by :: "raw_element arc option"

text \<open>\<open>KStart name_end empty_tag\<close>.\<close>

datatype kind = KStart nat bool | KEnd | KOther

record markup =
  m_kind :: kind
  m_start :: nat
  m_end :: nat

datatype read_result = Read_Ok bytes | Read_Interrupted | Read_Err nat

type_synonym bindings = "(bytes option \<times> bytes) list"

text \<open>\<open>sp_next_arc\<close> numbers the allocations; the scratch buffers \<open>block\<close> and \<open>tag\<close>,
  which hold nothing between calls, have no field.\<close>

record splitter =
  sp_reader :: "read_result list"
  sp_source :: nat
  sp_options :: splitter_options
  sp_header :: "document_header option"
  sp_next_seq :: nat
  sp_buf :: bytes
  sp_pos :: nat
  sp_base :: nat
  sp_eof :: bool
  sp_mode :: mode
  sp_stack :: "frame list"
  sp_bindings :: bindings
  sp_bindings_generation :: nat
  sp_context :: "namespace_context arc"
  sp_context_generation :: nat
  sp_saw_container :: bool
  sp_root_candidate :: "nat option"
  sp_root_feature :: bool
  sp_referenced_members :: nat
  sp_chunk :: bytes
  sp_chunk_context :: "namespace_context arc"
  sp_chunk_offset :: nat
  sp_chunk_first_feature :: nat
  sp_chunk_features :: "feature_offset list"
  sp_chunk_bounded_by :: "raw_element arc option"
  sp_features_emitted :: nat
  sp_ready :: "feature_chunk list"
  sp_finished :: bool
  sp_feature_name :: bytes
  sp_names :: "bytes \<rightharpoonup> qname option"
  sp_names_generation :: nat
  sp_next_arc :: nat

definition new_splitter :: "read_result list \<Rightarrow> nat \<Rightarrow> splitter_options \<Rightarrow> splitter" where
  "new_splitter reader source options =
     (let context = Arc 0 new_context in
      \<lparr>sp_reader = reader, sp_source = source, sp_options = options, sp_header = None,
       sp_next_seq = 0, sp_buf = [], sp_pos = 0, sp_base = 0, sp_eof = False,
       sp_mode = Prolog, sp_stack = [], sp_bindings = [], sp_bindings_generation = 0,
       sp_context = context, sp_context_generation = 0, sp_saw_container = False,
       sp_root_candidate = None, sp_root_feature = False, sp_referenced_members = 0,
       sp_chunk = [], sp_chunk_context = context, sp_chunk_offset = 0,
       sp_chunk_first_feature = 0, sp_chunk_features = [], sp_chunk_bounded_by = None,
       sp_features_emitted = 0, sp_ready = [], sp_finished = False, sp_feature_name = [],
       sp_names = Map.empty, sp_names_generation = 0, sp_next_arc = 1\<rparr>)"

definition location_at :: "splitter \<Rightarrow> nat \<Rightarrow> location" where
  "location_at s i =
     \<lparr>loc_source = sp_source s, loc_byte_offset = sp_base s + i, loc_feature_seq = None,
      loc_gml_id = None\<rparr>"

definition xml_error :: "splitter \<Rightarrow> nat \<Rightarrow> xml_message \<Rightarrow> error" where
  "xml_error s i message = Xml_Error (location_at s i) message"

subsection \<open>Names and attributes\<close>

definition is_bounded_by :: "qname \<Rightarrow> bool" where
  "is_bounded_by q \<longleftrightarrow>
     qlocal q = ''boundedBy'' \<and>
     qns q \<in> {Some NS_GML, Some NS_GML_32, Some NS_WFS, Some NS_WFS_20}"

definition is_collection :: "qname \<Rightarrow> bool" where
  "is_collection q \<longleftrightarrow>
     (if qns q = Some NS_GML \<or> qns q = Some NS_GML_32 then qlocal q = ''FeatureCollection''
      else if qns q = Some NS_WFS \<or> qns q = Some NS_WFS_20
      then qlocal q \<in> {''FeatureCollection'', ''SimpleFeatureCollection'', ''additionalObjects''}
      else False)"

function parse_attributes :: "bytes \<Rightarrow> attr_error + (bytes \<times> bytes) list" where
  "parse_attributes s =
     (let s0 = dropWhile is_ascii_whitespace s in
      if s0 = [] then Inr []
      else
        let key = takeWhile (\<lambda>c. c \<noteq> CHR ''='' \<and> \<not> is_ascii_whitespace c) s0;
            s1 = dropWhile is_ascii_whitespace (drop (length key) s0)
        in case s1 of
             [] \<Rightarrow> Inl (No_Value key)
           | e # s2 \<Rightarrow>
               if e \<noteq> CHR ''='' then Inl (No_Value key)
               else (case dropWhile is_ascii_whitespace s2 of
                 [] \<Rightarrow> Inl (Unquoted_Value key)
               | q # s3 \<Rightarrow>
                   if q \<noteq> quote_char \<and> q \<noteq> apos_char then Inl (Unquoted_Value key)
                   else
                     let value = takeWhile (\<lambda>c. c \<noteq> q) s3 in
                     (case drop (length value) s3 of
                        [] \<Rightarrow> Inl (Unterminated_Value key)
                      | _ # s5 \<Rightarrow>
                          then_result (parse_attributes s5)
                            (\<lambda>rest. Inr ((key, value) # rest)))))"
  by pat_completeness auto
termination
proof (relation "measure length", goal_cases)
  case 1
  show ?case by simp
next
  case (2 s s0 key s1 e s2 q s3 v d s5)
  have a: "length s0 \<le> length s"
    unfolding 2(1) by (simp add: length_dropWhile_le)
  have b: "length (e # s2) \<le> length s0"
    unfolding 2(5) [symmetric] 2(4) using length_dropWhile_le [of is_ascii_whitespace "drop (length key) s0"] by simp
  have c: "length (q # s3) \<le> length s2"
    unfolding 2(7) [symmetric] by (simp add: length_dropWhile_le)
  have d: "length (d # s5) \<le> length s3"
    unfolding 2(10) [symmetric] by simp
  from a b c d show ?case by simp
qed

declare parse_attributes.simps [simp del]

definition unescape :: "byte_ext \<Rightarrow> bytes \<Rightarrow> bytes" where
  "unescape x value = (case xml_unescape x value of Some v \<Rightarrow> v | None \<Rightarrow> value)"

definition XML_NAMESPACE :: bytes where
  "XML_NAMESPACE = ''http://www.w3.org/XML/1998/namespace''"

text \<open>The innermost declaration of a prefix: the last of the list.\<close>

definition innermost :: "bindings \<Rightarrow> bytes option \<Rightarrow> bytes option" where
  "innermost bs p = map_option snd (find (\<lambda>(q, _). q = p) (rev bs))"

definition resolve_in :: "bindings \<Rightarrow> bytes \<Rightarrow> bool \<Rightarrow> qname option" where
  "resolve_in bs raw element =
     (let (prefix, l) =
        (case split_once (CHR '':'') raw of Some (p, l) \<Rightarrow> (Some p, l) | None \<Rightarrow> (None, raw))
      in if prefix = Some ''xml'' then Some (mk_qname (Some XML_NAMESPACE) l)
         else if prefix = None \<and> \<not> element then Some (mk_qname None l)
         else case innermost bs prefix of
                Some u \<Rightarrow>
                  if u \<noteq> [] then Some (mk_qname (Some u) l)
                  else if prefix = None then Some (mk_qname None l) else None
              | None \<Rightarrow> if prefix = None then Some (mk_qname None l) else None)"

definition resolve_element :: "bytes \<Rightarrow> splitter \<Rightarrow> qname option \<times> splitter" where
  "resolve_element raw s =
     (let s1 = (if sp_names_generation s \<noteq> sp_bindings_generation s
                then s\<lparr>sp_names := Map.empty, sp_names_generation := sp_bindings_generation s\<rparr>
                else s)
      in case sp_names s1 raw of
           Some name \<Rightarrow> (name, s1)
         | None \<Rightarrow>
             let name = resolve_in (sp_bindings s1) raw True
             in (name, s1\<lparr>sp_names := (sp_names s1)(raw \<mapsto> name)\<rparr>))"

definition context_of :: "bindings \<Rightarrow> namespace_context" where
  "context_of bs = fold (\<lambda>(p, u). declare_ns p u) bs new_context"

definition current_context :: "splitter \<Rightarrow> namespace_context arc \<times> splitter" where
  "current_context s =
     (if sp_context_generation s \<noteq> sp_bindings_generation s
      then
        let context = context_of (sp_bindings s);
            s1 = (if arc_val (sp_context s) \<noteq> context
                  then s\<lparr>sp_context := Arc (sp_next_arc s) context, sp_next_arc := Suc (sp_next_arc s)\<rparr>
                  else s);
            s2 = s1\<lparr>sp_context_generation := sp_bindings_generation s1\<rparr>
        in (sp_context s2, s2)
      else (sp_context s, s))"


subsection \<open>The read-ahead buffer\<close>

text \<open>The first position the buffer must keep (\<open>compact\<close>): the unread part, the feature being
  copied, a root that may still be a feature.\<close>

definition keep_from :: "splitter \<Rightarrow> nat" where
  "keep_from s =
     (let keep = sp_pos s;
          keep = (case sp_mode s of
                    Feature _ True start _ \<Rightarrow> min keep (start - sp_base s) | _ \<Rightarrow> keep)
      in case sp_root_candidate s of Some start \<Rightarrow> min keep (start - sp_base s) | None \<Rightarrow> keep)"

definition compact :: "splitter \<Rightarrow> splitter" where
  "compact s =
     (let keep = keep_from s in
      if keep = 0 then s
      else s\<lparr>sp_buf := drop keep (sp_buf s), sp_pos := sp_pos s - keep,
             sp_base := sp_base s + keep\<rparr>)"

text \<open>One \<open>read\<close> of the reader, repeated while it is interrupted.\<close>

fun read_block :: "read_result list \<Rightarrow> (nat + bytes) \<times> read_result list" where
  "read_block [] = (Inr [], [])"
| "read_block (Read_Ok bs # r) = (Inr bs, r)"
| "read_block (Read_Interrupted # r) = read_block r"
| "read_block (Read_Err e # r) = (Inl e, r)"

definition fill :: "splitter \<Rightarrow> (error, bool, splitter) outcome" where
  "fill s =
     (if sp_eof s then (Inr False, s)
      else
        let s1 = compact s in
        case read_block (sp_reader s1) of
          (Inl e, r) \<Rightarrow> (Inl (Io_Error e), s1\<lparr>sp_reader := r\<rparr>)
        | (Inr bs, r) \<Rightarrow>
            (Inr (bs \<noteq> []), s1\<lparr>sp_reader := r, sp_buf := sp_buf s1 @ bs, sp_eof := (bs = [])\<rparr>))"

text \<open>What is left to read, as a measure for the loops: every successful \<open>fill\<close> and every
  byte consumed makes it smaller.\<close>

fun read_size :: "read_result \<Rightarrow> nat" where
  "read_size (Read_Ok bs) = Suc (length bs)"
| "read_size Read_Interrupted = 1"
| "read_size (Read_Err e) = 1"

definition input_left :: "splitter \<Rightarrow> nat" where
  "input_left s = (length (sp_buf s) - sp_pos s) + sum_list (map read_size (sp_reader s))"

lemma keep_from_le: "keep_from s \<le> sp_pos s"
  by (auto simp: keep_from_def Let_def split: mode.splits bool.splits option.splits)

lemma compact_simps [simp]:
  "sp_reader (compact s) = sp_reader s"
  "length (sp_buf (compact s)) - sp_pos (compact s) = length (sp_buf s) - sp_pos s"
  using keep_from_le [of s] by (auto simp: compact_def Let_def)

lemma read_block_size:
  "read_block r = (Inr bs, r') \<Longrightarrow>
     sum_list (map read_size r') + length bs \<le> sum_list (map read_size r) \<and>
     (bs \<noteq> [] \<longrightarrow> sum_list (map read_size r') + length bs < sum_list (map read_size r))"
  by (induction r rule: read_block.induct) auto

lemma fill_input_left:
  assumes "fill s = (Inr b, s')"
  shows "input_left s' \<le> input_left s \<and> (b \<longrightarrow> input_left s' < input_left s)"
proof (cases "sp_eof s")
  case True
  with assms show ?thesis by (auto simp: fill_def)
next
  case False
  with assms obtain bs r where r: "read_block (sp_reader s) = (Inr bs, r)" "b = (bs \<noteq> [])"
      and s': "s' = (compact s)\<lparr>sp_reader := r, sp_buf := sp_buf (compact s) @ bs, sp_eof := (bs = [])\<rparr>"
    by (auto simp: fill_def Let_def split: prod.splits sum.splits)
  have "length (sp_buf (compact s)) + length bs - sp_pos (compact s)
      \<le> length (sp_buf s) - sp_pos s + length bs"
    using compact_simps(2) [of s] by linarith
  with read_block_size [OF r(1)] show ?thesis
    unfolding s' input_left_def r(2) by auto
qed

subsection \<open>Byte scanning\<close>

text \<open>\<open>need(n)\<close>: make sure \<open>buf[pos..pos + n]\<close> is available.\<close>

function need :: "nat \<Rightarrow> splitter \<Rightarrow> (error, unit, splitter) outcome" where
  "need n s =
     (if length (sp_buf s) - sp_pos s < n
      then and_then (fill s) (\<lambda>more s.
             if more then need n s
             else (Inl (xml_error s (sp_pos s) Unexpected_End_In_Markup), s))
      else (Inr (), s))"
  by pat_completeness auto
termination
  by (relation "measure (\<lambda>(n, s). input_left s)") (auto dest: fill_input_left)

text \<open>\<open>find(from, pattern)\<close>: the offset from \<open>pos\<close> of the first \<open>pattern\<close> at or after
  \<open>pos + from\<close>; what was searched is not searched again after a read.\<close>

definition search :: "byte_ext \<Rightarrow> bytes \<Rightarrow> bytes \<Rightarrow> nat option" where
  "search x pattern haystack =
     (case pattern of [b] \<Rightarrow> memchr x b haystack | _ \<Rightarrow> memmem_find x haystack pattern)"

function find_from :: "byte_ext \<Rightarrow> bytes \<Rightarrow> nat \<Rightarrow> splitter \<Rightarrow> (error, nat, splitter) outcome" where
  "find_from x pattern from s =
     (case search x pattern (drop (sp_pos s + from) (sp_buf s)) of
        Some i \<Rightarrow> (Inr (from + i), s)
      | None \<Rightarrow>
          let from = max ((length (sp_buf s) - sp_pos s) - (length pattern - 1)) from in
          and_then (fill s) (\<lambda>more s.
            if more then find_from x pattern from s
            else (Inl (xml_error s (sp_pos s) Unexpected_End_In_Markup), s)))"
  by pat_completeness auto
termination
  by (relation "measure (\<lambda>(x, p, f, s). input_left s)") (auto dest: fill_input_left)

definition name_stop :: "char \<Rightarrow> bool" where
  "name_stop b \<longleftrightarrow> is_ascii_whitespace b \<or> b = CHR ''/'' \<or> b = CHR ''>''"

text \<open>The first loop of \<open>scan_start_tag\<close>: where the name ends.\<close>

function scan_name :: "nat \<Rightarrow> splitter \<Rightarrow> (error, nat, splitter) outcome" where
  "scan_name i s =
     (let tag = drop (sp_pos s) (sp_buf s) in
      case first_index name_stop (drop i tag) of
        Some j \<Rightarrow> (Inr (i + j), s)
      | None \<Rightarrow>
          and_then (fill s) (\<lambda>more s.
            if more then scan_name (length tag) s
            else (Inl (xml_error s (sp_pos s) Unexpected_End_In_Start_Tag), s)))"
  by pat_completeness auto
termination
  by (relation "measure (\<lambda>(i, s). input_left s)") (auto dest: fill_input_left)

text \<open>The inner loop over what is in the buffer: the closing \<open>>\<close>, or the quote that is open and
  where to go on.\<close>

function scan_quotes ::
  "byte_ext \<Rightarrow> char option \<Rightarrow> nat \<Rightarrow> bytes \<Rightarrow> (char option \<times> nat) + nat" where
  "scan_quotes x quote i tag =
     (if i < length tag then
        (case (case quote of
                 Some q \<Rightarrow> memchr x q (drop i tag)
               | None \<Rightarrow> memchr3 x (CHR ''>'') quote_char apos_char (drop i tag)) of
           None \<Rightarrow> Inl (quote, length tag)
         | Some j \<Rightarrow>
             (case quote of
                None \<Rightarrow>
                  if tag ! (i + j) = CHR ''>'' then Inr (i + j)
                  else scan_quotes x (Some (tag ! (i + j))) (Suc (i + j)) tag
              | Some q \<Rightarrow> scan_quotes x None (Suc (i + j)) tag))
      else Inl (quote, i))"
  by pat_completeness auto
termination
  by (relation "measure (\<lambda>(x, q, i, tag). length tag - i)") auto

function scan_close ::
  "byte_ext \<Rightarrow> char option \<Rightarrow> nat \<Rightarrow> splitter \<Rightarrow> (error, nat, splitter) outcome" where
  "scan_close x quote i s =
     (case scan_quotes x quote i (drop (sp_pos s) (sp_buf s)) of
        Inr close \<Rightarrow> (Inr close, s)
      | Inl (quote, i) \<Rightarrow>
          and_then (fill s) (\<lambda>more s.
            if more then scan_close x quote i s
            else (Inl (xml_error s (sp_pos s) Unexpected_End_In_Start_Tag), s)))"
  by pat_completeness auto
termination
  by (relation "measure (\<lambda>(x, q, i, s). input_left s)") (auto dest: fill_input_left)

declare need.simps [simp del] find_from.simps [simp del] scan_name.simps [simp del]
  scan_quotes.simps [simp del] scan_close.simps [simp del]

definition scan_start_tag :: "byte_ext \<Rightarrow> splitter \<Rightarrow> (error, nat \<times> nat, splitter) outcome" where
  "scan_start_tag x s =
     and_then (scan_name 1 s) (\<lambda>name_end s.
     and_then (scan_close x None name_end s) (\<lambda>close s. (Inr (close, name_end), s)))"

text \<open>The first loop of \<open>next_markup\<close>: skip text up to the next \<open><\<close>.\<close>

function skip_text :: "byte_ext \<Rightarrow> splitter \<Rightarrow> (error, bool, splitter) outcome" where
  "skip_text x s =
     (case memchr x (CHR ''<'') (drop (sp_pos s) (sp_buf s)) of
        Some i \<Rightarrow> (Inr True, s\<lparr>sp_pos := sp_pos s + i\<rparr>)
      | None \<Rightarrow>
          and_then (fill (s\<lparr>sp_pos := length (sp_buf s)\<rparr>)) (\<lambda>more s.
            if more then skip_text x s else (Inr False, s)))"
  by pat_completeness auto
termination
proof (relation "measure (\<lambda>(x, s). input_left s)", goal_cases)
  case 1
  show ?case by simp
next
  case (2 x s b s')
  then show ?case
    using fill_input_left [of "s\<lparr>sp_pos := length (sp_buf s)\<rparr>" b s']
    by (auto simp: input_left_def)
qed

declare skip_text.simps [simp del]

definition scan_declaration :: "byte_ext \<Rightarrow> splitter \<Rightarrow> (error, kind \<times> nat, splitter) outcome" where
  "scan_declaration x s =
     and_then (need 4 s) (\<lambda>_ s.
       if slice (sp_pos s + 2) (sp_pos s + 4) (sp_buf s) = ''--''
       then and_then (find_from x ''-->'' 4 s) (\<lambda>i s. (Inr (KOther, i + 3), s))
       else and_then (need 9 s) (\<lambda>_ s.
         let head = slice (sp_pos s) (sp_pos s + 9) (sp_buf s) in
         if head = ''<![CDATA[''
         then and_then (find_from x '']]>'' 9 s) (\<lambda>i s. (Inr (KOther, i + 3), s))
         else if head = ''<!DOCTYPE''
         then (Inl (Dtd_Not_Supported (location_at s (sp_pos s))), s)
         else (Inl (xml_error s (sp_pos s) Unsupported_Declaration), s)))"

text \<open>The kind and length of the markup whose \<open><\<close> is at \<open>pos\<close>.\<close>

definition scan_markup :: "byte_ext \<Rightarrow> splitter \<Rightarrow> (error, kind \<times> nat, splitter) outcome" where
  "scan_markup x s =
     and_then (need 2 s) (\<lambda>_ s.
       let c = sp_buf s ! (sp_pos s + 1) in
       if c = CHR ''/'' then and_then (find_from x ''>'' 2 s) (\<lambda>i s. (Inr (KEnd, i + 1), s))
       else if c = CHR ''?'' then and_then (find_from x ''?>'' 2 s) (\<lambda>i s. (Inr (KOther, i + 2), s))
       else if c = CHR ''!'' then scan_declaration x s
       else and_then (scan_start_tag x s) (\<lambda>(close, name_end) s.
         (Inr (KStart (sp_pos s + name_end) (sp_buf s ! (sp_pos s + close - 1) = CHR ''/''),
               close + 1), s)))"

definition next_markup :: "byte_ext \<Rightarrow> splitter \<Rightarrow> (error, markup option, splitter) outcome" where
  "next_markup x s =
     and_then (skip_text x s) (\<lambda>found s.
       if \<not> found then (Inr None, s)
       else and_then (scan_markup x s) (\<lambda>(kind, len) s.
         let start = sp_pos s; s1 = s\<lparr>sp_pos := start + len\<rparr>
         in (Inr (Some \<lparr>m_kind = kind, m_start = start, m_end = sp_pos s1\<rparr>), s1)))"

text \<open>Whether the tag at \<open>pos\<close> is named like the feature; \<open>name_at\<close> is where its name
  starts.\<close>

definition named_like_feature :: "nat \<Rightarrow> splitter \<Rightarrow> bool" where
  "named_like_feature name_at s =
     (let at = sp_pos s + name_at;
          n = length (sp_feature_name s);
          after = sp_buf s ! (at + n)
      in (is_ascii_whitespace after \<or> after = CHR ''>'' \<or> (name_at = 1 \<and> after = CHR ''/'')) \<and>
         slice at (at + n) (sp_buf s) = sp_feature_name s)"

lemma need_input_left:
  "need n s = (Inr u, s') \<Longrightarrow> input_left s' \<le> input_left s \<and> n \<le> length (sp_buf s') - sp_pos s'"
proof (induction n s rule: need.induct)
  case (1 n s)
  show ?case
  proof (cases "length (sp_buf s) - sp_pos s < n")
    case True
    with "1.prems" obtain t where t: "fill s = (Inr True, t)" "need n t = (Inr u, s')"
      by (subst (asm) need.simps) (auto simp: and_then_Inr split: if_splits)
    with "1.IH" [OF True t(1)] fill_input_left [OF t(1)] show ?thesis by simp
  next
    case False
    with "1.prems" show ?thesis by (simp add: need.simps)
  qed
qed

function next_feature_markup ::
  "byte_ext \<Rightarrow> splitter \<Rightarrow> (error, markup option, splitter) outcome" where
  "next_feature_markup x s =
     (case memchr x (CHR ''<'') (drop (sp_pos s) (sp_buf s)) of
        None \<Rightarrow>
          and_then (fill (s\<lparr>sp_pos := length (sp_buf s)\<rparr>)) (\<lambda>more s.
            if more then next_feature_markup x s else (Inr None, s))
      | Some i \<Rightarrow>
          and_then (need 2 (s\<lparr>sp_pos := sp_pos s + i\<rparr>)) (\<lambda>_ s.
            let c = sp_buf s ! (sp_pos s + 1) in
            if c = CHR ''!'' \<or> c = CHR ''?'' then next_markup x s
            else
              let name_at = (if c = CHR ''/'' then 2 else 1) in
              and_then (need (name_at + length (sp_feature_name s) + 1) s) (\<lambda>_ s.
                if named_like_feature name_at s then next_markup x s
                else next_feature_markup x (s\<lparr>sp_pos := sp_pos s + 1\<rparr>))))"
  by pat_completeness auto
termination
proof (relation "measure (\<lambda>(x, s). input_left s)", goal_cases)
  case 1
  show ?case by simp
next
  case (2 x s b s')
  then show ?case
    using fill_input_left [of "s\<lparr>sp_pos := length (sp_buf s)\<rparr>" b s']
    by (auto simp: input_left_def)
next
  case (3 x s i u s1 c name_at v s2)
  then have "input_left s1 \<le> input_left (s\<lparr>sp_pos := sp_pos s + i\<rparr>)"
    and "input_left s2 \<le> input_left s1" "0 < length (sp_buf s2) - sp_pos s2"
    by (auto dest: need_input_left)
  moreover have "input_left (s\<lparr>sp_pos := sp_pos s + i\<rparr>) \<le> input_left s"
    by (auto simp: input_left_def)
  ultimately show ?case by (auto simp: input_left_def)
qed

declare next_feature_markup.simps [simp del]


subsection \<open>Chunks\<close>

definition flush_chunk :: "splitter \<Rightarrow> splitter" where
  "flush_chunk s =
     (if sp_chunk s = [] then s
      else s\<lparr>sp_chunk := [], sp_chunk_features := [],
             sp_ready := sp_ready s @
               [\<lparr>fc_source = sp_source s, fc_seq = sp_next_seq s,
                 fc_byte_offset = sp_chunk_offset s, fc_bytes = sp_chunk s,
                 fc_namespaces = sp_chunk_context s,
                 fc_first_feature_seq = sp_chunk_first_feature s,
                 fc_features = sp_features_emitted s - sp_chunk_first_feature s,
                 fc_feature_offsets = sp_chunk_features s,
                 fc_collection_bounded_by = sp_chunk_bounded_by s\<rparr>],
             sp_next_seq := sp_next_seq s + 1\<rparr>)"

text \<open>The \<open>boundedBy\<close> of the innermost open collection that has one. The stack's top is its
  last frame.\<close>

definition collection_bounded_by :: "splitter \<Rightarrow> raw_element arc option" where
  "collection_bounded_by s =
     (case find (\<lambda>f. fr_bounded_by f \<noteq> None) (rev (sp_stack s)) of
        Some f \<Rightarrow> fr_bounded_by f
      | None \<Rightarrow> None)"

definition same_bounds :: "raw_element arc option \<Rightarrow> raw_element arc option \<Rightarrow> bool" where
  "same_bounds a b =
     (case (a, b) of
        (Some a, Some b) \<Rightarrow> ptr_eq a b
      | (a, b) \<Rightarrow> a = None \<and> b = None)"

definition begin_feature :: "nat \<Rightarrow> splitter \<Rightarrow> splitter" where
  "begin_feature start s =
     (let (context, s1) = current_context s;
          s2 = (if sp_chunk s1 \<noteq> [] \<and>
                   (\<not> ptr_eq context (sp_chunk_context s1) \<or>
                    \<not> same_bounds (collection_bounded_by s1) (sp_chunk_bounded_by s1))
                then flush_chunk s1 else s1)
      in if sp_chunk s2 = []
         then s2\<lparr>sp_chunk_bounded_by := collection_bounded_by s2, sp_chunk_context := context,
                 sp_chunk_offset := start, sp_chunk_first_feature := sp_features_emitted s2\<rparr>
         else s2)"

definition end_feature :: "bool \<Rightarrow> nat \<Rightarrow> nat \<Rightarrow> splitter \<Rightarrow> splitter" where
  "end_feature emit start end_at s =
     (if \<not> emit then s
      else
        let from = start - sp_base s;
            s1 = s\<lparr>sp_chunk_features :=
                     sp_chunk_features s @ [\<lparr>in_chunk = length (sp_chunk s), in_stream = start\<rparr>],
                   sp_chunk := sp_chunk s @ slice from end_at (sp_buf s),
                   sp_features_emitted := sp_features_emitted s + 1\<rparr>
        in if target_chunk_bytes (sp_options s1) \<le> length (sp_chunk s1)
           then flush_chunk s1 else s1)"

text \<open>Replace the top frame.\<close>

definition map_top :: "(frame \<Rightarrow> frame) \<Rightarrow> splitter \<Rightarrow> splitter" where
  "map_top f s =
     (if sp_stack s = [] then s
      else s\<lparr>sp_stack := butlast (sp_stack s) @ [f (last (sp_stack s))]\<rparr>)"

definition end_bounded_by :: "nat \<Rightarrow> nat \<Rightarrow> splitter \<Rightarrow> splitter" where
  "end_bounded_by start end_at s =
     (let from = start - sp_base s;
          bs = slice from end_at (sp_buf s);
          (context, s1) = current_context s;
          element = \<lparr>re_source = sp_source s1, re_byte_offset = start, re_bytes = bs,
                     re_namespaces = context\<rparr>
      in if sp_stack s1 = [] then s1
         else map_top (\<lambda>f. f\<lparr>fr_bounded_by := Some (Arc (sp_next_arc s1) element)\<rparr>)
                (s1\<lparr>sp_next_arc := Suc (sp_next_arc s1)\<rparr>))"

subsection \<open>The state machine outside features\<close>

definition enter_feature :: "bytes \<Rightarrow> splitter \<Rightarrow> splitter" where
  "enter_feature raw_name s = s\<lparr>sp_feature_name := raw_name\<rparr>"

definition end_root :: "nat \<Rightarrow> splitter \<Rightarrow> splitter" where
  "end_root end_at s =
     (let s1 = s\<lparr>sp_mode := Epilog\<rparr> in
      case sp_root_candidate s1 of
        None \<Rightarrow> s1
      | Some start \<Rightarrow>
          let s2 = s1\<lparr>sp_root_candidate := None, sp_root_feature := True\<rparr>;
              emit = (case (layers (sp_options s2), map_option hd_root (sp_header s2)) of
                        (Some ls, Some root) \<Rightarrow> layer_wanted ls root
                      | _ \<Rightarrow> True);
              s3 = (if emit then begin_feature start s2 else s2)
          in end_feature emit start end_at s3)"

definition is_xmlns_key :: "bytes \<Rightarrow> bool" where
  "is_xmlns_key key \<longleftrightarrow>
     starts_with ''xmlns'' key \<and> (length key = 5 \<or> key ! 5 = CHR '':'')"

definition header_attribute ::
  "byte_ext \<Rightarrow> bindings \<Rightarrow> bytes \<times> bytes \<Rightarrow>
   bytes option \<times> (qname \<times> bytes) list \<Rightarrow> bytes option \<times> (qname \<times> bytes) list" where
  "header_attribute x bs attr acc =
     (let (key, value) = attr; (schema_location, wfs_attributes) = acc in
      if is_xmlns_key key then acc
      else if split_once (CHR '':'') key \<noteq> None
      then (if resolve_in bs key False = Some (mk_qname (Some NS_XSI) ''schemaLocation'')
            then (Some (unescape x value), wfs_attributes) else acc)
      else if key \<in> set WFS_ATTRIBUTES
      then (schema_location, wfs_attributes @ [(mk_qname None key, unescape x value)])
      else acc)"

definition read_header ::
  "byte_ext \<Rightarrow> qname \<Rightarrow> (bytes \<times> bytes) list \<Rightarrow> nat \<Rightarrow> splitter \<Rightarrow> splitter" where
  "read_header x root attributes bindings_before s =
     (let namespaces = context_of (drop bindings_before (sp_bindings s));
          (schema_location, wfs_attributes) =
            fold (header_attribute x (sp_bindings s)) attributes (None, [])
      in s\<lparr>sp_header := Some
             \<lparr>hd_root = root, hd_namespaces = namespaces, hd_schema_location = schema_location,
              hd_wfs_attributes = wfs_attributes,
              hd_fme_produced = declares_uri namespaces NS_FME\<rparr>\<rparr>)"

text \<open>The prefix an attribute declares, if it is a namespace declaration.\<close>

definition declared_prefix :: "bytes \<Rightarrow> bytes option option" where
  "declared_prefix key =
     (if key = ''xmlns'' then Some None else map_option Some (strip_prefix ''xmlns:'' key))"

definition declarations :: "byte_ext \<Rightarrow> (bytes \<times> bytes) list \<Rightarrow> bindings" where
  "declarations x attributes =
     List.map_filter
       (\<lambda>(key, value). map_option (\<lambda>p. (p, unescape x value)) (declared_prefix key)) attributes"

definition push_declarations :: "byte_ext \<Rightarrow> (bytes \<times> bytes) list \<Rightarrow> splitter \<Rightarrow> splitter" where
  "push_declarations x attributes s =
     (let new = declarations x attributes in
      if new = [] then s
      else s\<lparr>sp_bindings := sp_bindings s @ new,
             sp_bindings_generation := sp_bindings_generation s + 1\<rparr>)"

definition undo_declarations :: "bool \<Rightarrow> nat \<Rightarrow> splitter \<Rightarrow> splitter" where
  "undo_declarations declared bindings_before s =
     (if declared
      then s\<lparr>sp_bindings := take bindings_before (sp_bindings s),
             sp_bindings_generation := sp_bindings_generation s + 1\<rparr>
      else s)"

text \<open>A start tag of a feature (lines 431 to 460).\<close>

definition start_feature ::
  "qname \<Rightarrow> bytes \<Rightarrow> markup \<Rightarrow> bool \<Rightarrow> nat \<Rightarrow> bool \<Rightarrow> nat \<Rightarrow> splitter \<Rightarrow> splitter" where
  "start_feature name raw_name m empty_tag start declared bindings_before s =
     (let s1 = map_top (\<lambda>f. f\<lparr>fr_has_child := True\<rparr>)
                 (undo_declarations declared bindings_before s);
          emit = (case layers (sp_options s1) of None \<Rightarrow> True | Some ls \<Rightarrow> layer_wanted ls name);
          s2 = (if emit then begin_feature start s1 else s1)
      in if empty_tag then end_feature emit start (m_end m) s2
         else (enter_feature raw_name s2)\<lparr>sp_mode := Feature 1 emit start False\<rparr>)"

text \<open>A start tag of a collection's \<open>boundedBy\<close>.\<close>

definition start_bounded_by ::
  "bytes \<Rightarrow> bool \<Rightarrow> nat \<Rightarrow> bool \<Rightarrow> nat \<Rightarrow> splitter \<Rightarrow> splitter" where
  "start_bounded_by raw_name empty_tag start declared bindings_before s =
     (let s1 = undo_declarations declared bindings_before s
      in if empty_tag then s1
         else (enter_feature raw_name s1)\<lparr>sp_mode := Feature 1 True start True\<rparr>)"

text \<open>Any other start tag outside features: a container, or an element around one.\<close>

definition start_container ::
  "qname \<Rightarrow> bytes \<Rightarrow> markup \<Rightarrow> bool \<Rightarrow> nat \<Rightarrow> bool \<Rightarrow> bool \<Rightarrow> nat \<Rightarrow> splitter \<Rightarrow> splitter" where
  "start_container name raw_name m empty_tag start is_root declared bindings_before s =
     (let members = (\<exists>rule \<in> set (member_rules (sp_options s)). rule_element rule = name);
          s1 = (if members \<or> is_collection name
                then s\<lparr>sp_saw_container := True, sp_root_candidate := None\<rparr>
                else if is_root \<and> allow_single_feature_root (sp_options s)
                then s\<lparr>sp_root_candidate := Some start\<rparr>
                else s);
          s2 = map_top (\<lambda>f. f\<lparr>fr_has_child := True\<rparr>) s1
      in if empty_tag then
           let s3 = undo_declarations declared bindings_before s2;
               s4 = (if members then s3\<lparr>sp_referenced_members := sp_referenced_members s3 + 1\<rparr>
                     else s3)
           in if is_root then end_root (m_end m) s4 else s4
         else s2\<lparr>sp_stack := sp_stack s2 @
                   [\<lparr>fr_raw_name = raw_name, fr_members = members, fr_has_child = False,
                     fr_bindings_before = bindings_before, fr_bounded_by = None\<rparr>]\<rparr>)"

text \<open>\<open>tag\<close> is the text between \<open><\<close> and \<open>>\<close> (or \<open>/>\<close>).\<close>

definition start_tag ::
  "byte_ext \<Rightarrow> markup \<Rightarrow> bytes \<Rightarrow> nat \<Rightarrow> bool \<Rightarrow> splitter \<Rightarrow> (error, unit, splitter) outcome" where
  "start_tag x m tag name_len empty_tag s =
     (if \<not> utf8_valid tag then (Inl (xml_error s (m_start m) Invalid_Utf8_In_Start_Tag), s)
      else
        let raw_name = take name_len tag in
        case parse_attributes (drop name_len tag) of
          Inl message \<Rightarrow> (Inl (xml_error s (m_start m) (Bad_Attributes message)), s)
        | Inr attributes \<Rightarrow>
            let bindings_before = length (sp_bindings s);
                s1 = push_declarations x attributes s;
                declared = (bindings_before < length (sp_bindings s1));
                (resolved, s2) = resolve_element raw_name s1
            in case resolved of
                 None \<Rightarrow> (Inl (xml_error s2 (m_start m) (Undeclared_Prefix raw_name)), s2)
               | Some name \<Rightarrow>
                   let start = sp_base s2 + m_start m;
                       is_root = (sp_mode s2 = Prolog);
                       s3 = (if is_root
                             then (read_header x name attributes bindings_before s2)\<lparr>sp_mode := Outside\<rparr>
                             else s2);
                       parent_has_members = (sp_stack s3 \<noteq> [] \<and> fr_members (last (sp_stack s3)))
                   in (Inr (),
                       if parent_has_members \<and> \<not> is_collection name
                       then start_feature name raw_name m empty_tag start declared bindings_before s3
                       else if \<not> is_root \<and> is_bounded_by name
                       then start_bounded_by raw_name empty_tag start declared bindings_before s3
                       else start_container name raw_name m empty_tag start is_root declared
                              bindings_before s3))"

definition start_outside ::
  "byte_ext \<Rightarrow> markup \<Rightarrow> nat \<Rightarrow> bool \<Rightarrow> splitter \<Rightarrow> (error, unit, splitter) outcome" where
  "start_outside x m name_end empty_tag s =
     (let tag_end = (if empty_tag then m_end m - 2 else m_end m - 1);
          tag = slice (m_start m + 1) tag_end (sp_buf s)
      in start_tag x m tag (name_end - m_start m - 1) empty_tag s)"

definition end_outside :: "markup \<Rightarrow> splitter \<Rightarrow> (error, unit, splitter) outcome" where
  "end_outside m s =
     (let name = trim_ascii (slice (m_start m + 2) (m_end m - 1) (sp_buf s)) in
      if sp_stack s = [] then (Inl (xml_error s (m_start m) End_Without_Start), s)
      else
        let frame = last (sp_stack s);
            s1 = s\<lparr>sp_stack := butlast (sp_stack s)\<rparr>
        in if fr_raw_name frame \<noteq> name
           then (Inl (xml_error s1 (m_start m) (End_Mismatch name (fr_raw_name frame))), s1)
           else
             let s2 = (if fr_members frame \<and> \<not> fr_has_child frame
                       then s1\<lparr>sp_referenced_members := sp_referenced_members s1 + 1\<rparr> else s1);
                 s3 = undo_declarations (fr_bindings_before frame < length (sp_bindings s2))
                        (fr_bindings_before frame) s2
             in (Inr (), if sp_stack s3 = [] then end_root (m_end m) s3 else s3))"

subsection \<open>Steps and the iterator\<close>

definition finish :: "splitter \<Rightarrow> (error, unit, splitter) outcome" where
  "finish s =
     (let s1 = s\<lparr>sp_finished := True\<rparr> in
      if sp_mode s1 \<noteq> Epilog \<and> sp_mode s1 \<noteq> Prolog
      then (Inl (xml_error s1 (length (sp_buf s1)) Unexpected_End), s1)
      else
        let s2 = flush_chunk s1 in
        if \<not> sp_saw_container s2 \<and> \<not> sp_root_feature s2
        then (Inl (No_Features (sp_source s2)), s2)
        else (Inr (), s2))"

definition step_feature ::
  "markup \<Rightarrow> nat \<Rightarrow> bool \<Rightarrow> nat \<Rightarrow> bool \<Rightarrow> splitter \<Rightarrow> splitter" where
  "step_feature m depth emit start bounded_by s =
     (case m_kind m of
        KStart _ empty_tag \<Rightarrow>
          if \<not> empty_tag then s\<lparr>sp_mode := Feature (depth + 1) emit start bounded_by\<rparr> else s
      | KEnd \<Rightarrow>
          if depth = 1
          then (let s1 = s\<lparr>sp_mode := Outside\<rparr> in
                if bounded_by then end_bounded_by start (m_end m) s1
                else end_feature emit start (m_end m) s1)
          else s\<lparr>sp_mode := Feature (depth - 1) emit start bounded_by\<rparr>
      | KOther \<Rightarrow> s)"

definition step_markup :: "byte_ext \<Rightarrow> markup \<Rightarrow> splitter \<Rightarrow> (error, unit, splitter) outcome" where
  "step_markup x m s =
     (case sp_mode s of
        Feature depth emit start bounded_by \<Rightarrow> (Inr (), step_feature m depth emit start bounded_by s)
      | Epilog \<Rightarrow>
          if m_kind m \<noteq> KOther then (Inl (xml_error s (m_start m) Content_After_Root), s)
          else (Inr (), s)
      | _ \<Rightarrow>
          (case m_kind m of
             KStart name_end empty_tag \<Rightarrow> start_outside x m name_end empty_tag s
           | KEnd \<Rightarrow> end_outside m s
           | KOther \<Rightarrow> (Inr (), s)))"

definition in_feature :: "mode \<Rightarrow> bool" where
  "in_feature md = (case md of Feature _ _ _ _ \<Rightarrow> True | _ \<Rightarrow> False)"

definition step :: "byte_ext \<Rightarrow> splitter \<Rightarrow> (error, unit, splitter) outcome" where
  "step x s =
     and_then (if in_feature (sp_mode s) then next_feature_markup x s else next_markup x s)
       (\<lambda>found s. case found of
          None \<Rightarrow> finish s
        | Some m \<Rightarrow> step_markup x m s)"

end
