(* ===== verification/Splitter_Scan.thy ===== *)
theory Splitter_Scan
  imports Splitter
begin

text \<open>
  The byte scanner of the splitter does not depend on how the input arrives. For a document
  \<open>S\<close>, \<open>whole S s\<close> is the state with all of \<open>S\<close> in the buffer and nothing left to read;
  \<open>in_step S s\<close> says that the buffer of \<open>s\<close> and what its reader still delivers are the part
  of \<open>S\<close> from \<open>base\<close> on, and that what must be kept is still there. \<open>refines\<close> relates what an
  operation does to \<open>s\<close> with what it does to \<open>whole S s\<close>; each scanning function refines
  itself, which is the refinement of the buffered scanner by the scanner over a whole document.
\<close>

subsection \<open>What a reader delivers\<close>

fun stream_of :: "read_result list \<Rightarrow> bytes" where
  "stream_of [] = []"
| "stream_of (Read_Ok bs # r) = (if bs = [] then [] else bs @ stream_of r)"
| "stream_of (Read_Interrupted # r) = stream_of r"
| "stream_of (Read_Err e # r) = []"

text \<open>No error comes before the end of the stream.\<close>

fun error_free :: "read_result list \<Rightarrow> bool" where
  "error_free [] = True"
| "error_free (Read_Ok bs # r) = (bs = [] \<or> error_free r)"
| "error_free (Read_Interrupted # r) = error_free r"
| "error_free (Read_Err e # r) = False"

lemma read_block_stream:
  assumes "error_free r"
  shows "\<exists>bs r'. read_block r = (Inr bs, r') \<and> stream_of r = bs @ (if bs = [] then [] else stream_of r') \<and>
           (bs \<noteq> [] \<longrightarrow> error_free r')"
  using assms by (induction r rule: read_block.induct) auto

subsection \<open>The state over the whole document\<close>

definition whole :: "bytes \<Rightarrow> splitter \<Rightarrow> splitter" where
  "whole S s = s\<lparr>sp_reader := [], sp_buf := S, sp_pos := sp_base s + sp_pos s, sp_base := 0,
                 sp_eof := True\<rparr>"

definition pending :: "splitter \<Rightarrow> bytes" where
  "pending s = (if sp_eof s then [] else stream_of (sp_reader s))"

text \<open>The offsets \<open>compact\<close> has to keep.\<close>

definition kept :: "splitter \<Rightarrow> nat set" where
  "kept s =
     (case sp_mode s of Feature _ True start _ \<Rightarrow> {start} | _ \<Rightarrow> {}) \<union> set_option (sp_root_candidate s)"

definition in_step :: "bytes \<Rightarrow> splitter \<Rightarrow> bool" where
  "in_step S s \<longleftrightarrow>
     sp_base s \<le> length S \<and> drop (sp_base s) S = sp_buf s @ pending s \<and>
     sp_pos s \<le> length (sp_buf s) \<and> (\<not> sp_eof s \<longrightarrow> error_free (sp_reader s)) \<and>
     (\<forall>start \<in> kept s. sp_base s \<le> start \<and> start \<le> sp_base s + sp_pos s)"

lemma whole_simps [simp]:
  "sp_reader (whole S s) = []" "sp_buf (whole S s) = S"
  "sp_pos (whole S s) = sp_base s + sp_pos s" "sp_base (whole S s) = 0" "sp_eof (whole S s)"
  "sp_source (whole S s) = sp_source s" "sp_options (whole S s) = sp_options s"
  "sp_header (whole S s) = sp_header s" "sp_next_seq (whole S s) = sp_next_seq s"
  "sp_mode (whole S s) = sp_mode s" "sp_stack (whole S s) = sp_stack s"
  "sp_bindings (whole S s) = sp_bindings s"
  "sp_bindings_generation (whole S s) = sp_bindings_generation s"
  "sp_context (whole S s) = sp_context s"
  "sp_context_generation (whole S s) = sp_context_generation s"
  "sp_saw_container (whole S s) = sp_saw_container s"
  "sp_root_candidate (whole S s) = sp_root_candidate s"
  "sp_root_feature (whole S s) = sp_root_feature s"
  "sp_referenced_members (whole S s) = sp_referenced_members s"
  "sp_chunk (whole S s) = sp_chunk s" "sp_chunk_context (whole S s) = sp_chunk_context s"
  "sp_chunk_offset (whole S s) = sp_chunk_offset s"
  "sp_chunk_first_feature (whole S s) = sp_chunk_first_feature s"
  "sp_chunk_features (whole S s) = sp_chunk_features s"
  "sp_chunk_bounded_by (whole S s) = sp_chunk_bounded_by s"
  "sp_features_emitted (whole S s) = sp_features_emitted s"
  "sp_ready (whole S s) = sp_ready s" "sp_finished (whole S s) = sp_finished s"
  "sp_feature_name (whole S s) = sp_feature_name s" "sp_names (whole S s) = sp_names s"
  "sp_names_generation (whole S s) = sp_names_generation s"
  "sp_next_arc (whole S s) = sp_next_arc s"
  by (simp_all add: whole_def)

lemma fill_whole [simp]: "fill (whole S s) = (Inr False, whole S s)"
  by (simp add: fill_def)

lemma location_whole [simp]: "location_at (whole S s) (sp_base s + i) = location_at s i"
  by (simp add: location_at_def)

lemma xml_error_whole [simp]: "xml_error (whole S s) (sp_base s + i) m = xml_error s i m"
  by (simp add: xml_error_def)

lemma whole_eq_pos: "whole S t = whole S s \<Longrightarrow> sp_base t + sp_pos t = sp_base s + sp_pos s"
  by (metis whole_simps(3))

lemma whole_eq_error:
  assumes "whole S t = whole S s"
  shows "xml_error t (sp_pos t) m = xml_error s (sp_pos s) m"
    and "location_at t (sp_pos t) = location_at s (sp_pos s)"
    and "xml_error (whole S s) (sp_base s + sp_pos s) m = xml_error t (sp_pos t) m"
  using whole_eq_pos [OF assms] assms xml_error_whole location_whole by metis+

text \<open>The unread part of the document and the part of it that is in the buffer.\<close>

abbreviation unread :: "bytes \<Rightarrow> splitter \<Rightarrow> bytes" where
  "unread S s \<equiv> drop (sp_base s + sp_pos s) S"

abbreviation avail :: "splitter \<Rightarrow> nat" where
  "avail s \<equiv> length (sp_buf s) - sp_pos s"

lemma unread_eq:
  assumes "in_step S s"
  shows "unread S s = drop (sp_pos s) (sp_buf s) @ pending s"
proof -
  have "unread S s = drop (sp_pos s) (drop (sp_base s) S)"
    by (simp add: add.commute)
  with assms show ?thesis by (simp add: in_step_def)
qed

lemma buffered_eq:
  assumes "in_step S s"
  shows "drop (sp_pos s) (sp_buf s) = take (avail s) (unread S s)"
  using unread_eq [OF assms] by simp

lemma avail_le: "in_step S s \<Longrightarrow> avail s \<le> length (unread S s)"
  using unread_eq [of S s] by simp

lemma whole_compact: "whole S (compact s) = whole S s"
  using keep_from_le [of s] by (simp add: whole_def compact_def Let_def)

lemma kept_compact: "kept (compact s) = kept s"
  by (simp add: kept_def compact_def Let_def split: mode.splits)

lemma keep_from_kept:
  "start \<in> kept s \<Longrightarrow> sp_base s \<le> start \<Longrightarrow> keep_from s \<le> start - sp_base s"
  by (auto simp: kept_def keep_from_def Let_def split: mode.splits bool.splits option.splits)

lemma in_step_compact:
  assumes "in_step S s"
  shows "in_step S (compact s)"
proof (cases "keep_from s = 0")
  case True
  then show ?thesis using assms by (simp add: compact_def Let_def)
next
  case False
  let ?k = "keep_from s"
  have k: "?k \<le> sp_pos s" "?k \<le> length (sp_buf s)"
    using keep_from_le [of s] assms by (auto simp: in_step_def)
  have "drop (sp_base s + ?k) S = drop ?k (drop (sp_base s) S)"
    by (simp add: add.commute)
  also have "\<dots> = drop ?k (sp_buf s) @ pending s"
    using assms k by (simp add: in_step_def)
  finally have d: "drop (sp_base s + ?k) S = drop ?k (sp_buf s) @ pending s" .
  have "length (sp_buf s) \<le> length (drop (sp_base s) S)"
    using assms by (simp add: in_step_def)
  moreover have "sp_base s \<le> length S" using assms by (simp add: in_step_def)
  ultimately have b: "sp_base s + ?k \<le> length S"
    using k(2) by simp
  have kept: "sp_base s + ?k \<le> start \<and> start \<le> sp_base s + sp_pos s" if "start \<in> kept s" for start
    using keep_from_kept [OF that] assms that by (auto simp: in_step_def)
  have c: "sp_buf (compact s) = drop ?k (sp_buf s)" "sp_pos (compact s) = sp_pos s - ?k"
      "sp_base (compact s) = sp_base s + ?k" "sp_eof (compact s) = sp_eof s"
    using False by (simp_all add: compact_def Let_def)
  have pend: "pending (compact s) = pending s" by (simp add: pending_def c)
  have err: "\<not> sp_eof s \<longrightarrow> error_free (sp_reader s)" using assms by (simp add: in_step_def)
  show ?thesis
    unfolding in_step_def kept_compact c pend compact_simps
  proof (intro conjI ballI impI)
    have "sp_pos s \<le> length (sp_buf s)" using assms by (simp add: in_step_def)
    then show "sp_pos s - ?k \<le> length (drop ?k (sp_buf s))" by simp
    show "start \<le> sp_base s + ?k + (sp_pos s - ?k)" if "start \<in> kept s" for start
      using kept [OF that] k by simp
    show "sp_base s + ?k \<le> start" if "start \<in> kept s" for start
      using kept [OF that] by simp
    show "error_free (sp_reader s)" if "\<not> sp_eof s" using err that by simp
  qed (rule b, rule d)
qed

lemma fill_refines:
  assumes "in_step S s"
  obtains b s' where "fill s = (Inr b, s')" "in_step S s'" "whole S s' = whole S s"
    and "avail s \<le> avail s'" and "b = (avail s < avail s')"
    and "\<not> b \<longrightarrow> avail s' = length (unread S s)" and "\<not> b \<longrightarrow> avail s = length (unread S s)"
proof (cases "sp_eof s")
  case True
  then have f: "fill s = (Inr False, s)" by (simp add: fill_def)
  have a: "avail s = length (unread S s)"
    using unread_eq [OF assms] True by (simp add: pending_def)
  show ?thesis
    by (rule that [OF f assms]) (simp_all add: a)
next
  case False
  let ?c = "compact s"
  have c: "in_step S ?c" by (rule in_step_compact [OF assms])
  have "error_free (sp_reader s)" using assms False by (simp add: in_step_def)
  then obtain bs r where r: "read_block (sp_reader s) = (Inr bs, r)"
      "stream_of (sp_reader s) = bs @ (if bs = [] then [] else stream_of r)"
      "bs \<noteq> [] \<longrightarrow> error_free r"
    using read_block_stream by blast
  let ?t = "?c\<lparr>sp_reader := r, sp_buf := sp_buf ?c @ bs, sp_eof := (bs = [])\<rparr>"
  have f: "fill s = (Inr (bs \<noteq> []), ?t)"
    using False r by (simp add: fill_def Let_def)
  have eof: "sp_eof ?c = sp_eof s" by (simp add: compact_def Let_def)
  have p: "pending ?c = bs @ pending ?t"
    using r False eof by (simp add: pending_def)
  have k: "kept ?t = kept ?c" by (simp add: kept_def split: mode.splits)
  have t: "in_step S ?t"
    using c p r(3) unfolding in_step_def k by auto
  have w: "whole S ?t = whole S s"
    using whole_compact [of S s] by (simp add: whole_def)
  have u: "unread S ?t = unread S s"
    using w by (metis whole_simps(3))
  have pos: "sp_pos ?c \<le> length (sp_buf ?c)" using c by (simp add: in_step_def)
  then have "avail ?t = avail ?c + length bs" by (simp del: compact_simps)
  then have a: "avail ?t = avail s + length bs" by (simp only: compact_simps(2))
  have e: "bs = [] \<longrightarrow> avail ?t = length (unread S s)"
  proof
    assume "bs = []"
    then have "pending ?t = []" by (simp add: pending_def)
    then have "unread S ?t = drop (sp_pos ?t) (sp_buf ?t)"
      using unread_eq [OF t] by (simp only: append_Nil2)
    then have "length (unread S ?t) = avail ?t" by (simp only: length_drop)
    then show "avail ?t = length (unread S s)" by (simp only: u)
  qed
  show ?thesis
    by (rule that [OF f t w]) (use a e in auto)
qed


subsection \<open>Refinement of one outcome by another\<close>

definition refines ::
  "bytes \<Rightarrow> (splitter \<Rightarrow> 'a \<Rightarrow> 'b \<Rightarrow> bool) \<Rightarrow>
   (error, 'a, splitter) outcome \<Rightarrow> (error, 'b, splitter) outcome \<Rightarrow> bool" where
  "refines S R r w \<longleftrightarrow>
     in_step S (snd r) \<and> snd w = whole S (snd r) \<and>
     (case (fst r, fst w) of
        (Inl e, Inl e') \<Rightarrow> e = e'
      | (Inr a, Inr b) \<Rightarrow> R (snd r) a b
      | _ \<Rightarrow> False)"

lemma refines_Inr [simp]:
  "refines S R (Inr a, s) (Inr b, t) \<longleftrightarrow> in_step S s \<and> t = whole S s \<and> R s a b"
  by (simp add: refines_def)

lemma refines_Inl [simp]:
  "refines S R (Inl e, s) (Inl e', t) \<longleftrightarrow> in_step S s \<and> t = whole S s \<and> e = e'"
  by (simp add: refines_def)

lemma refines_and_then:
  assumes "refines S R r w"
    and "\<And>a b s. in_step S s \<Longrightarrow> r = (Inr a, s) \<Longrightarrow> R s a b \<Longrightarrow> refines S Q (f a s) (g b (whole S s))"
  shows "refines S Q (and_then r f) (and_then w g)"
  using assms
  by (cases r; cases w; cases "fst r"; cases "fst w") (auto simp: refines_def)

lemma refines_mono:
  "refines S R r w \<Longrightarrow> (\<And>s a b. R s a b \<Longrightarrow> Q s a b) \<Longrightarrow> refines S Q r w"
  unfolding refines_def by (auto split: sum.splits)

text \<open>Equal results.\<close>

abbreviation same :: "splitter \<Rightarrow> 'a \<Rightarrow> 'a \<Rightarrow> bool" where
  "same s a b \<equiv> a = b"

subsection \<open>The scanning functions refine themselves\<close>

lemma need_refines:
  assumes "in_step S s"
  shows "refines S (\<lambda>s _ _. n \<le> avail s) (need n s) (need n (whole S s))"
  using assms
proof (induction n s rule: need.induct)
  case (1 n s)
  obtain b s' where f: "fill s = (Inr b, s')" "in_step S s'" "whole S s' = whole S s"
      "\<not> b \<longrightarrow> avail s = length (unread S s)" "\<not> b \<longrightarrow> avail s' = length (unread S s)"
    using fill_refines [OF "1.prems"] by metis
  have w: "length (sp_buf (whole S s)) - sp_pos (whole S s) = length (unread S s)"
    by simp
  show ?case
  proof (cases "avail s < n")
    case True
    show ?thesis
    proof (cases b)
      case True
      have "refines S (\<lambda>s _ _. n \<le> avail s) (need n s') (need n (whole S s'))"
        by (rule "1.IH" [OF \<open>avail s < n\<close> f(1) True f(2)])
      then show ?thesis
        using \<open>avail s < n\<close> True f by (simp add: need.simps [of n s])
    next
      case False
      then have "length (unread S s) < n" using \<open>avail s < n\<close> f(4) by simp
      then have "need n (whole S s) = (Inl (xml_error s' (sp_pos s') Unexpected_End_In_Markup), whole S s)"
        using w by (simp add: need.simps [of n "whole S s"] whole_eq_error [OF f(3)])
      then show ?thesis
        using \<open>avail s < n\<close> False f by (simp add: need.simps [of n s])
    qed
  next
    case False
    have "\<not> length (unread S s) < n" using avail_le [OF "1.prems"] False by simp
    then show ?thesis
      using False "1.prems" w by (simp add: need.simps)
  qed
qed

lemma search_eq:
  assumes "ext_ok x" "pattern \<noteq> []"
  shows "search x pattern haystack = find_sub pattern haystack"
proof (cases "\<exists>b. pattern = [b]")
  case True
  then obtain b where b: "pattern = [b]" by blast
  have "first_index (\<lambda>c. c = b) haystack = find_sub [b] haystack"
    by (induction haystack) (auto simp: starts_with_def)
  then show ?thesis using assms by (simp add: search_def b ext_ok_def)
next
  case False
  then show ?thesis
    using assms by (auto simp: search_def ext_ok_def split: list.splits)
qed

text \<open>No match in the first \<open>n\<close> bytes: the search may go on where a match that crosses the
  border could begin.\<close>

lemma find_sub_resume:
  assumes none: "find_sub pat (drop from (take n v)) = None" and "from \<le> n" "n \<le> length v" "pat \<noteq> []"
    and m: "m = max (n - (length pat - 1)) from"
  shows "map_option ((+) from) (find_sub pat (drop from v)) = map_option ((+) m) (find_sub pat (drop m v))"
proof -
  have fm: "from \<le> m" "m \<le> n" using assms by auto
  have early: "\<not> starts_with pat (drop j v)" if "from \<le> j" "j < m" for j
  proof
    assume a: "starts_with pat (drop j v)"
    have "j < n - (length pat - 1)" using that m by auto
    then have jn: "j + length pat \<le> n" using \<open>pat \<noteq> []\<close> by (cases pat) auto
    have "starts_with pat (drop j (take n v))"
      using a jn by (auto simp: starts_with_iff drop_take min_def)
    then have "starts_with pat (drop (j - from) (drop from (take n v)))"
      using that by simp
    moreover have "j - from \<le> length (drop from (take n v))"
      using jn \<open>n \<le> length v\<close> by simp
    ultimately show False using none by (simp add: find_sub_None_iff)
  qed
  show ?thesis
  proof (cases "find_sub pat (drop m v)")
    case None
    have "\<not> starts_with pat (drop j (drop from v))" if "j \<le> length (drop from v)" for j
    proof (cases "from + j < m")
      case True
      then show ?thesis using early [of "from + j"] by (simp add: add.commute)
    next
      case False
      then have "drop j (drop from v) = drop (from + j - m) (drop m v)"
        by (simp add: add.commute)
      moreover have "from + j - m \<le> length (drop m v)"
        using that False \<open>from \<le> n\<close> \<open>n \<le> length v\<close> by auto
      ultimately show ?thesis using None by (simp add: find_sub_None_iff)
    qed
    then have "find_sub pat (drop from v) = None" by (simp add: find_sub_None_iff)
    then show ?thesis using None by simp
  next
    case (Some i)
    then have i: "i \<le> length (drop m v)" "starts_with pat (drop i (drop m v))"
        "\<forall>j < i. \<not> starts_with pat (drop j (drop m v))"
      by (auto simp: find_sub_Some_iff)
    have "find_sub pat (drop from v) = Some (m - from + i)"
      unfolding find_sub_Some_iff
    proof (intro conjI allI impI)
      show "m - from + i \<le> length (drop from v)" using i(1) fm \<open>n \<le> length v\<close> by auto
      show "starts_with pat (drop (m - from + i) (drop from v))"
        using i(2) fm by (simp add: add.commute add.left_commute)
      show "\<not> starts_with pat (drop j (drop from v))" if "j < m - from + i" for j
      proof (cases "from + j < m")
        case True
        then show ?thesis using early [of "from + j"] by (simp add: add.commute)
      next
        case False
        then have "drop j (drop from v) = drop (from + j - m) (drop m v)"
          by (simp add: add.commute)
        moreover have "from + j - m < i" using that False fm by auto
        ultimately show ?thesis using i(3) by simp
      qed
    qed
    then show ?thesis using Some fm by simp
  qed
qed


lemma starts_with_append_iff:
  "length pat \<le> length xs \<Longrightarrow> starts_with pat (xs @ ys) \<longleftrightarrow> starts_with pat xs"
  by (simp add: starts_with_iff)

lemma find_sub_length: "find_sub pat xs = Some i \<Longrightarrow> i + length pat \<le> length xs"
  by (auto simp: find_sub_Some_iff starts_with_def strip_prefix_Some_iff)
    (metis Nat.le_diff_conv2 add.commute le_add1 length_append length_drop)

lemma find_sub_append: "find_sub pat xs = Some i \<Longrightarrow> find_sub pat (xs @ ys) = Some i"
proof (induction xs arbitrary: i)
  case Nil
  then show ?case by (cases ys) (auto simp: starts_with_def split: if_splits)
next
  case (Cons x xs)
  have "length pat \<le> length (x # xs)" using find_sub_length [OF Cons.prems] by simp
  then have "starts_with pat (x # xs @ ys) \<longleftrightarrow> starts_with pat (x # xs)"
    using starts_with_append_iff [of pat "x # xs" ys] by simp
  with Cons show ?case by (auto split: if_splits)
qed

lemma find_sub_take: "find_sub pat (take k xs) = Some i \<Longrightarrow> find_sub pat xs = Some i"
  using find_sub_append [of pat "take k xs" i "drop k xs"] by simp

lemma find_from_whole:
  assumes "ext_ok x" "pat \<noteq> []"
  shows "find_from x pat k (whole S s) =
     (case map_option ((+) k) (find_sub pat (drop k (unread S s))) of
        Some i \<Rightarrow> (Inr i, whole S s)
      | None \<Rightarrow> (Inl (xml_error s (sp_pos s) Unexpected_End_In_Markup), whole S s))"
  by (subst find_from.simps)
    (simp add: search_eq assms Let_def add.commute add.left_commute split: option.splits)

lemma find_from_refines:
  assumes "ext_ok x" "pat \<noteq> []" "in_step S s" "k \<le> avail s"
  shows "refines S (\<lambda>s a b. a = b \<and> k \<le> a \<and> a + length pat \<le> avail s \<and>
             starts_with pat (drop a (unread S s)))
           (find_from x pat k s) (find_from x pat k (whole S s))"
  using assms
proof (induction x pat k s rule: find_from.induct)
  case (1 x pat k s)
  let ?m = "max (avail s - (length pat - 1)) k"
  obtain b s' where f: "fill s = (Inr b, s')" "in_step S s'" "whole S s' = whole S s"
      "avail s \<le> avail s'" "\<not> b \<longrightarrow> avail s = length (unread S s)"
    using fill_refines [OF "1.prems"(3)] by metis
  have buf: "drop (sp_pos s + k) (sp_buf s) = drop k (take (avail s) (unread S s))"
    unfolding buffered_eq [OF "1.prems"(3), symmetric] by (simp add: add.commute)
  note eqs = find_from_whole [OF "1.prems"(1,2)] search_eq [OF "1.prems"(1,2)]
  show ?case
  proof (cases "find_sub pat (drop k (take (avail s) (unread S s)))")
    case (Some i)
    then have "find_sub pat (drop k (unread S s)) = Some i"
      unfolding drop_take by (rule find_sub_take)
    then have w: "find_from x pat k (whole S s) = (Inr (k + i), whole S s)"
      unfolding eqs by simp
    have st: "find_from x pat k s = (Inr (k + i), s)"
      by (subst find_from.simps) (simp only: buf eqs Some option.case)
    have "k + i + length pat \<le> avail s"
      using find_sub_length [OF Some] avail_le [OF "1.prems"(3)] "1.prems"(4) by simp
    moreover have "starts_with pat (drop (k + i) (unread S s))"
      using \<open>find_sub pat (drop k (unread S s)) = Some i\<close>
      unfolding find_sub_Some_iff by (simp add: add.commute add.left_commute)
    ultimately show ?thesis
      unfolding w st by (simp only: refines_Inr "1.prems"(3) le_add1 simp_thms)
  next
    case None
    have "map_option ((+) k) (find_sub pat (drop k (unread S s))) =
        map_option ((+) ?m) (find_sub pat (drop ?m (unread S s)))"
      by (rule find_sub_resume [OF None "1.prems"(4) avail_le [OF "1.prems"(3)] "1.prems"(2) refl])
    then have w: "find_from x pat k (whole S s) = find_from x pat ?m (whole S s)"
      unfolding eqs by simp
    have st: "find_from x pat k s =
        and_then (fill s) (\<lambda>more s.
            if more then find_from x pat ?m s
            else (Inl (xml_error s (sp_pos s) Unexpected_End_In_Markup), s))"
      by (subst find_from.simps) (simp only: buf eqs None option.case Let_def)
    show ?thesis
    proof (cases b)
      case True
      have "refines S (\<lambda>s a b. a = b \<and> ?m \<le> a \<and> a + length pat \<le> avail s \<and>
             starts_with pat (drop a (unread S s)))
           (find_from x pat ?m s') (find_from x pat ?m (whole S s'))"
      proof (rule "1.IH" [OF _ refl f(1) True "1.prems"(1,2) f(2)])
        show "search x pat (drop (sp_pos s + k) (sp_buf s)) = None"
          using None by (simp add: buf eqs)
        show "?m \<le> avail s'" using f(4) "1.prems"(4) by simp
      qed
      then have "refines S (\<lambda>t a b. a = b \<and> k \<le> a \<and> a + length pat \<le> avail t \<and>
             starts_with pat (drop a (unread S t)))
           (find_from x pat ?m s') (find_from x pat ?m (whole S s'))"
        by (rule refines_mono) simp
      then show ?thesis using True f(1,3) by (simp add: st w)
    next
      case False
      with None f(5) have "find_sub pat (drop k (unread S s)) = None" by simp
      then show ?thesis
        using False f by (simp add: st eqs whole_eq_error [OF f(3)])
    qed
  qed
qed

lemma first_index_resume:
  assumes none: "first_index p (drop i (take n v)) = None" and "i \<le> n" "n \<le> length v"
  shows "map_option ((+) i) (first_index p (drop i v)) = map_option ((+) n) (first_index p (drop n v))"
proof -
  have "drop i v = drop i (take n v) @ drop n v"
    using \<open>i \<le> n\<close> append_take_drop_id [of "n - i" "drop i v"] by (simp add: drop_take)
  then show ?thesis
    using none \<open>i \<le> n\<close> \<open>n \<le> length v\<close>
    by (simp add: first_index_append option.map_comp o_def add.assoc [symmetric])
qed

lemma first_index_take: "first_index p (take k xs) = Some i \<Longrightarrow> first_index p xs = Some i"
  using first_index_append [of p "take k xs" "drop k xs"] by simp

lemma scan_name_whole:
  "scan_name i (whole S s) =
     (case map_option ((+) i) (first_index name_stop (drop i (unread S s))) of
        Some j \<Rightarrow> (Inr j, whole S s)
      | None \<Rightarrow> (Inl (xml_error s (sp_pos s) Unexpected_End_In_Start_Tag), whole S s))"
  by (subst scan_name.simps)
    (simp add: Let_def add.commute add.left_commute split: option.splits)

lemma scan_name_refines:
  assumes "in_step S s" "i \<le> avail s"
  shows "refines S (\<lambda>s a b. a = b \<and> i \<le> a \<and> a < avail s \<and> name_stop (unread S s ! a))
           (scan_name i s) (scan_name i (whole S s))"
  using assms
proof (induction i s rule: scan_name.induct)
  case (1 i s)
  obtain b s' where f: "fill s = (Inr b, s')" "in_step S s'" "whole S s' = whole S s"
      "avail s \<le> avail s'" "\<not> b \<longrightarrow> avail s = length (unread S s)"
    using fill_refines [OF "1.prems"(1)] by metis
  have tag: "drop (sp_pos s) (sp_buf s) = take (avail s) (unread S s)"
    by (rule buffered_eq [OF "1.prems"(1)])
  show ?case
  proof (cases "first_index name_stop (drop i (take (avail s) (unread S s)))")
    case (Some j)
    then have j: "first_index name_stop (drop i (unread S s)) = Some j"
      unfolding drop_take by (rule first_index_take)
    have w: "scan_name i (whole S s) = (Inr (i + j), whole S s)"
      unfolding scan_name_whole j by simp
    have st: "scan_name i s = (Inr (i + j), s)"
      by (subst scan_name.simps) (simp only: tag Some option.case Let_def)
    have "i + j < avail s" "name_stop (unread S s ! (i + j))"
      using Some "1.prems"(2) avail_le [OF "1.prems"(1)] by (auto simp: first_index_Some_iff)
    then show ?thesis
      unfolding w st by (simp only: refines_Inr "1.prems"(1) le_add1 simp_thms)
  next
    case None
    have "map_option ((+) i) (first_index name_stop (drop i (unread S s))) =
        map_option ((+) (avail s)) (first_index name_stop (drop (avail s) (unread S s)))"
      by (rule first_index_resume [OF None "1.prems"(2) avail_le [OF "1.prems"(1)]])
    then have w: "scan_name i (whole S s) = scan_name (avail s) (whole S s)"
      unfolding scan_name_whole by simp
    have None': "first_index name_stop (drop i (drop (sp_pos s) (sp_buf s))) = None"
      unfolding tag by (rule None)
    have st: "scan_name i s =
        and_then (fill s) (\<lambda>more s'.
            if more then scan_name (avail s) s'
            else (Inl (xml_error s' (sp_pos s') Unexpected_End_In_Start_Tag), s'))"
      by (subst scan_name.simps) (simp only: None' option.case Let_def length_drop)
    show ?thesis
    proof (cases b)
      case True
      have "refines S (\<lambda>s a b. a = b \<and> avail s0 \<le> a \<and> a < avail s \<and> name_stop (unread S s ! a)) (scan_name (avail s0) s') (scan_name (avail s0) (whole S s'))"
        if "s0 = s" for s0
        unfolding that
        using "1.IH" [OF refl _ f(1) True f(2)] None f(4) unfolding tag [symmetric] length_drop by blast
      then have "refines S (\<lambda>t a b. a = b \<and> i \<le> a \<and> a < avail t \<and> name_stop (unread S t ! a)) (scan_name (avail s) s') (scan_name (avail s) (whole S s'))"
        using "1.prems"(2) unfolding refines_def by (fastforce split: sum.splits)
      then show ?thesis using True f(1,3) by (simp add: st w)
    next
      case False
      with None f(5) have "first_index name_stop (drop i (unread S s)) = None" by simp
      then show ?thesis
        using False f unfolding scan_name_whole by (simp add: st whole_eq_error [OF f(3)])
    qed
  qed
qed

definition quote_stop :: "char option \<Rightarrow> char \<Rightarrow> bool" where
  "quote_stop q c = (case q of
     Some q \<Rightarrow> c = q | None \<Rightarrow> c = CHR ''>'' \<or> c = quote_char \<or> c = apos_char)"

lemma scan_quotes_step:
  assumes "ext_ok x"
  shows "scan_quotes x q i tag =
     (case map_option ((+) i) (first_index (quote_stop q) (drop i tag)) of
        None \<Rightarrow> Inl (q, max i (length tag))
      | Some k \<Rightarrow>
          (case q of
             None \<Rightarrow> if tag ! k = CHR ''>'' then Inr k else scan_quotes x (Some (tag ! k)) (Suc k) tag
           | Some _ \<Rightarrow> scan_quotes x None (Suc k) tag))"
proof (cases "i < length tag")
  case True
  have "(case q of Some q \<Rightarrow> memchr x q (drop i tag)
          | None \<Rightarrow> memchr3 x (CHR ''>'') quote_char apos_char (drop i tag))
      = first_index (quote_stop q) (drop i tag)"
    using assms by (cases q) (simp_all add: ext_ok_def quote_stop_def [abs_def])
  with True show ?thesis
    by (subst scan_quotes.simps)
      (simp only: if_True, auto simp: max_def split: option.splits)
next
  case False
  then show ?thesis by (subst scan_quotes.simps) simp
qed

lemma scan_quotes_resume:
  assumes "ext_ok x" "i \<le> n" "n \<le> length v"
  shows "(case scan_quotes x q i (take n v) of
            Inr c \<Rightarrow> scan_quotes x q i v = Inr c \<and> i \<le> c \<and> c < n \<and> v ! c = CHR ''>''
          | Inl (q', i') \<Rightarrow> i' = n \<and> scan_quotes x q i v = scan_quotes x q' i' v)"
  using assms
proof (induction "n - i" arbitrary: q i rule: less_induct)
  case less
  note step = scan_quotes_step [OF less.prems(1)]
  show ?case
  proof (cases "first_index (quote_stop q) (drop i (take n v))")
    case None
    have "map_option ((+) i) (first_index (quote_stop q) (drop i v)) =
        map_option ((+) n) (first_index (quote_stop q) (drop n v))"
      by (rule first_index_resume [OF None less.prems(2,3)])
    moreover have "max i (length v) = max n (length v)" using less.prems by simp
    ultimately have "scan_quotes x q i v = scan_quotes x q n v"
      unfolding step [of q i v] step [of q n v] by (simp only:)
    moreover have "scan_quotes x q i (take n v) = Inl (q, n)"
      using less.prems by (subst step) (simp add: None max_def del: drop_take)
    ultimately show ?thesis by simp
  next
    case (Some j)
    then have j: "first_index (quote_stop q) (drop i v) = Some j"
      unfolding drop_take by (rule first_index_take)
    have b: "i + j < n"
      using Some less.prems by (auto simp: first_index_Some_iff)
    have ih: "case scan_quotes x q' (Suc (i + j)) (take n v) of
            Inr c \<Rightarrow> scan_quotes x q' (Suc (i + j)) v = Inr c \<and> Suc (i + j) \<le> c \<and> c < n \<and>
              v ! c = CHR ''>''
          | Inl (q'', i') \<Rightarrow> i' = n \<and> scan_quotes x q' (Suc (i + j)) v = scan_quotes x q'' i' v" for q'
      using less.hyps [of "Suc (i + j)" q'] less.prems b by simp
    have t: "take n v ! (i + j) = v ! (i + j)" using b by simp
    have e: "scan_quotes x q i w =
       (case q of
             None \<Rightarrow> if w ! (i + j) = CHR ''>'' then Inr (i + j)
                     else scan_quotes x (Some (w ! (i + j))) (Suc (i + j)) w
           | Some _ \<Rightarrow> scan_quotes x None (Suc (i + j)) w)"
      if "first_index (quote_stop q) (drop i w) = Some j" for w
      using step [of q i w] by (simp only: that option.map option.case)
    show ?thesis
      unfolding e [OF Some] e [OF j] t
      using ih b by (cases q) (fastforce split: sum.splits)+
  qed
qed

lemma scan_close_unfold:
  "scan_close x q i s =
     (case scan_quotes x q i (drop (sp_pos s) (sp_buf s)) of
        Inr close \<Rightarrow> (Inr close, s)
      | Inl (q', i') \<Rightarrow>
          and_then (fill s) (\<lambda>more s.
            if more then scan_close x q' i' s
            else (Inl (xml_error s (sp_pos s) Unexpected_End_In_Start_Tag), s)))"
  by (rule scan_close.simps)

lemma scan_close_whole:
  "scan_close x q i (whole S s) =
     (case scan_quotes x q i (unread S s) of
        Inr c \<Rightarrow> (Inr c, whole S s)
      | Inl _ \<Rightarrow> (Inl (xml_error s (sp_pos s) Unexpected_End_In_Start_Tag), whole S s))"
  by (subst scan_close_unfold) (simp split: sum.splits prod.splits)

lemma scan_close_refines:
  assumes "ext_ok x" "in_step S s" "i \<le> avail s"
  shows "refines S (\<lambda>s a b. a = b \<and> i \<le> a \<and> a < avail s \<and> unread S s ! a = CHR ''>'')
           (scan_close x q i s) (scan_close x q i (whole S s))"
  using assms
proof (induction x q i s rule: scan_close.induct)
  case (1 x q i s)
  obtain b s' where f: "fill s = (Inr b, s')" "in_step S s'" "whole S s' = whole S s"
      "avail s \<le> avail s'" "\<not> b \<longrightarrow> avail s = length (unread S s)"
    using fill_refines [OF "1.prems"(2)] by metis
  have tag: "drop (sp_pos s) (sp_buf s) = take (avail s) (unread S s)"
    by (rule buffered_eq [OF "1.prems"(2)])
  note resume = scan_quotes_resume [OF "1.prems"(1,3) avail_le [OF "1.prems"(2)], of q]
  show ?case
  proof (cases "scan_quotes x q i (take (avail s) (unread S s))")
    case (Inr c)
    then have r: "scan_quotes x q i (unread S s) = Inr c" "i \<le> c" "c < avail s"
        "unread S s ! c = CHR ''>''"
      using resume by simp_all
    have w: "scan_close x q i (whole S s) = (Inr c, whole S s)"
      unfolding scan_close_whole r by simp
    have st: "scan_close x q i s = (Inr c, s)"
      by (subst scan_close_unfold) (simp only: tag Inr sum.case)
    show ?thesis
      unfolding w st using r by (simp only: refines_Inr "1.prems" simp_thms)
  next
    case (Inl p)
    obtain q' i' where p: "p = (q', i')" by (cases p)
    have r: "i' = avail s" "scan_quotes x q i (unread S s) = scan_quotes x q' i' (unread S s)"
      using resume by (simp_all add: Inl p)
    have w: "scan_close x q i (whole S s) = scan_close x q' i' (whole S s)"
      unfolding scan_close_whole r(2) by (rule refl)
    have none: "scan_quotes x q i (drop (sp_pos s) (sp_buf s)) = Inl (q', i')"
      unfolding tag Inl p by (rule refl)
    have st: "scan_close x q i s =
        and_then (fill s) (\<lambda>more s.
            if more then scan_close x q' i' s
            else (Inl (xml_error s (sp_pos s) Unexpected_End_In_Start_Tag), s))"
      by (subst scan_close_unfold) (simp only: none sum.case prod.case)
    show ?thesis
    proof (cases b)
      case True
      have "refines S (\<lambda>s a b. a = b \<and> i' \<le> a \<and> a < avail s \<and> unread S s ! a = CHR ''>'')
          (scan_close x q' i' s') (scan_close x q' i' (whole S s'))"
        by (rule "1.IH" [OF none refl f(1) True "1.prems"(1) f(2)]) (use r(1) f(4) in simp)
      then have "refines S (\<lambda>t a b. a = b \<and> i \<le> a \<and> a < avail t \<and> unread S t ! a = CHR ''>'')
          (scan_close x q' i' s') (scan_close x q' i' (whole S s'))"
        using "1.prems"(3) r(1) unfolding refines_def by (fastforce split: sum.splits)
      then show ?thesis using True f(1,3) by (simp add: st w)
    next
      case False
      with f(5) resume Inl p have "take (avail s) (unread S s) = unread S s" by simp
      then have "scan_quotes x q i (unread S s) = Inl p" using Inl by simp
      then have "scan_close x q i (whole S s) =
          (Inl (xml_error s (sp_pos s) Unexpected_End_In_Start_Tag), whole S s)"
        unfolding scan_close_whole by simp
      then show ?thesis
        using False f by (simp add: st whole_eq_error [OF f(3)])
    qed
  qed
qed

end
