(* ===== verification/Splitter_Markup.thy ===== *)
theory Splitter_Markup
  imports Splitter_Scan
begin

text \<open>
  Markup does not depend on how the input arrives: \<open>scan_start_tag\<close>, \<open>scan_markup\<close>,
  \<open>next_markup\<close> and \<open>next_feature_markup\<close> of \<open>splitter.rs\<close> refine themselves over the
  whole document, the markup they find is well formed (\<open>markup_ok\<close>: the slices the state
  machine takes are in range), and each one consumes input.
\<close>

text \<open>The unread position moves on.\<close>

definition advance :: "nat \<Rightarrow> splitter \<Rightarrow> splitter" where
  "advance k s = s\<lparr>sp_pos := sp_pos s + k\<rparr>"

lemma advance_simps [simp]:
  "sp_pos (advance k s) = sp_pos s + k" "sp_buf (advance k s) = sp_buf s"
  "sp_base (advance k s) = sp_base s" "sp_feature_name (advance k s) = sp_feature_name s"
  "sp_mode (advance k s) = sp_mode s"
  by (simp_all add: advance_def)

lemma kept_advance [simp]: "kept (advance k s) = kept s"
  by (simp add: kept_def advance_def)

lemma whole_advance: "whole S (advance k s) = advance k (whole S s)"
  by (simp add: whole_def advance_def)

lemma in_step_advance:
  assumes "in_step S s" "k \<le> avail s"
  shows "in_step S (advance k s)"
  using assms unfolding in_step_def kept_advance
  by (auto simp: advance_def pending_def)

lemma in_step_drop: "in_step S s \<Longrightarrow> drop (sp_base s) S = sp_buf s @ pending s"
  by (simp add: in_step_def)

lemma in_step_base: "in_step S s \<Longrightarrow> sp_base s \<le> length S"
  by (simp add: in_step_def)

lemma in_step_bounds:
  assumes "in_step S s"
  shows "sp_base s + length (sp_buf s) \<le> length S" "sp_pos s \<le> length (sp_buf s)"
    "sp_base s + sp_pos s \<le> length S"
proof -
  show a: "sp_base s + length (sp_buf s) \<le> length S"
    using arg_cong [OF in_step_drop [OF assms], of length] in_step_base [OF assms] by simp
  show b: "sp_pos s \<le> length (sp_buf s)" using assms by (simp add: in_step_def)
  from a b show "sp_base s + sp_pos s \<le> length S" by simp
qed

lemma in_step_nth:
  assumes "in_step S s" "i < avail s"
  shows "sp_buf s ! (sp_pos s + i) = S ! (sp_base s + sp_pos s + i)"
proof -
  have "S ! (sp_base s + sp_pos s + i) = drop (sp_base s) S ! (sp_pos s + i)"
    using in_step_base [OF assms(1)] by (simp add: add.assoc)
  also have "\<dots> = sp_buf s ! (sp_pos s + i)"
    unfolding in_step_drop [OF assms(1)] using assms(2) less_diff_conv by (simp add: nth_append)
  finally show ?thesis by simp
qed

lemma in_step_slice:
  assumes "in_step S s" "b \<le> length (sp_buf s)"
  shows "slice (sp_base s + a) (sp_base s + b) S = slice a b (sp_buf s)"
proof -
  have "slice (sp_base s + a) (sp_base s + b) S = slice a b (drop (sp_base s) S)"
    by (simp add: slice_drop)
  also have "\<dots> = slice a b (sp_buf s @ pending s)"
    using assms by (simp only: in_step_def)
  finally show ?thesis
    using assms by (simp add: slice_append_left)
qed

lemma in_step_slice_pos:
  assumes "in_step S s" "b \<le> avail s" "a \<le> b"
  shows "slice (sp_base s + sp_pos s + a) (sp_base s + sp_pos s + b) S =
         slice (sp_pos s + a) (sp_pos s + b) (sp_buf s)"
  using in_step_slice [of S s "sp_pos s + b" "sp_pos s + a"] assms
  by (cases "b = 0") (simp_all add: add.assoc slice_def in_step_def)

lemma whole_eq_unread: "whole S t = whole S s \<Longrightarrow> unread S t = unread S s"
  by (rule arg_cong [where f = "\<lambda>n. drop n S", OF whole_eq_pos])

lemma first_index_drop_first:
  assumes "first_index p (drop i v) = Some k" "i \<le> j" "j < i + k"
  shows "\<not> p (v ! j)"
proof -
  have "i \<le> length v" "j - i < k" using assms by (auto simp: first_index_Some_iff)
  then have "drop i v ! (j - i) = v ! j" using assms by simp
  then show ?thesis
    using assms(1) \<open>j - i < k\<close> unfolding first_index_Some_iff by metis
qed

lemma scan_name_first:
  assumes "in_step S s" "i \<le> avail s" "scan_name i s = (Inr a, t)" "i \<le> j" "j < a"
  shows "\<not> name_stop (unread S t ! j)"
proof -
  have r: "fst (scan_name i (whole S s)) = Inr a" "whole S t = snd (scan_name i (whole S s))"
    using scan_name_refines [OF assms(1,2)] unfolding assms(3) refines_def
    by (auto split: sum.splits)
  obtain k where k: "first_index name_stop (drop i (unread S s)) = Some k" "a = i + k"
      "whole S t = whole S s"
    using r unfolding scan_name_whole
    by (cases "first_index name_stop (drop i (unread S s))") simp_all
  have "j < i + k" using assms(5) k(2) by simp
  from first_index_drop_first [OF k(1) assms(4) this] show ?thesis
    unfolding whole_eq_unread [OF k(3)] .
qed

lemma scan_start_tag_refines:
  assumes "ext_ok x" "in_step S s" "1 \<le> avail s"
  shows "refines S (\<lambda>s a b. a = b \<and> 1 \<le> snd a \<and> snd a \<le> fst a \<and> fst a < avail s \<and>
             unread S s ! fst a = CHR ''>'' \<and> name_stop (unread S s ! snd a) \<and>
             (\<forall>i. 1 \<le> i \<and> i < snd a \<longrightarrow> \<not> name_stop (unread S s ! i)))
           (scan_start_tag x s) (scan_start_tag x (whole S s))"
  unfolding scan_start_tag_def
proof (rule refines_and_then [OF scan_name_refines [OF assms(2,3)]], goal_cases)
  case (1 e e' s1)
  have first: "\<forall>i. 1 \<le> i \<and> i < e \<longrightarrow> \<not> name_stop (unread S s1 ! i)"
    using scan_name_first [OF assms(2,3) 1(2)] by blast
  have e: "e' = e" "1 \<le> e" "e \<le> avail s1" "name_stop (unread S s1 ! e)" using 1 by auto
  show ?case
    unfolding e(1)
  proof (rule refines_and_then [OF scan_close_refines [OF assms(1) 1(1) e(3)]], goal_cases)
    case (1 c c' s2)
    have "whole S s2 = whole S s1"
    proof -
      have "refines S (\<lambda>_ _ _. True) (scan_close x None e s1) (scan_close x None e (whole S s1))"
        by (rule refines_mono [OF scan_close_refines [OF assms(1) \<open>in_step S s1\<close> e(3)]]) simp
      then show ?thesis
        unfolding 1(2) refines_def scan_close_whole by (auto split: sum.splits)
    qed
    then have u: "unread S s2 = unread S s1" by (rule whole_eq_unread)
    show ?case
      using 1 e first unfolding u [symmetric] by (simp only: refines_Inr fst_conv snd_conv) blast
  qed
qed

text \<open>\<open>skip_text\<close> moves to the next \<open><\<close> or to the end.\<close>

lemma skip_text_whole:
  assumes "ext_ok x" "sp_base s + sp_pos s \<le> length S"
  shows "skip_text x (whole S s) =
     (case first_index (\<lambda>c. c = CHR ''<'') (unread S s) of
        Some i \<Rightarrow> (Inr True, whole S (advance i s))
      | None \<Rightarrow> (Inr False, (whole S s)\<lparr>sp_pos := length S\<rparr>))"
proof -
  have "memchr x (CHR ''<'') (drop (sp_pos (whole S s)) (sp_buf (whole S s))) =
      first_index (\<lambda>c. c = CHR ''<'') (unread S s)"
    using assms by (simp add: ext_ok_def)
  moreover have "fill (whole S s\<lparr>sp_pos := length (sp_buf (whole S s))\<rparr>) = (Inr False, (whole S s)\<lparr>sp_pos := length S\<rparr>)"
    by (simp add: fill_def)
  ultimately show ?thesis
    by (subst skip_text.simps) (simp add: advance_def whole_def split: option.splits)
qed

text \<open>The end of the document: nothing is left beyond the buffer.\<close>

lemma at_end:
  assumes "in_step S s" "whole S s = whole S t" "avail s = length (unread S t)"
  shows "sp_base s + length (sp_buf s) = length S"
proof -
  have "length (unread S t) = length S - (sp_base s + sp_pos s)"
    using whole_eq_pos [OF assms(2)] by simp
  then show ?thesis using assms(3) in_step_bounds [OF assms(1)] by simp
qed

lemma skip_text_refines:
  assumes "ext_ok x" "in_step S s"
  shows "refines S (\<lambda>s a b. a = b \<and> (a \<longrightarrow> 1 \<le> avail s \<and> unread S s ! 0 = CHR ''<'') \<and>
             (\<not> a \<longrightarrow> sp_base s + length (sp_buf s) = length S))
           (skip_text x s) (skip_text x (whole S s))"
  using assms
proof (induction x s rule: skip_text.induct)
  case (1 x s)
  let ?lt = "\<lambda>c. c = CHR ''<''"
  let ?t = "advance (avail s) s"
  have t: "in_step S ?t" by (rule in_step_advance [OF "1.prems"(2)]) simp
  have p: "sp_pos s \<le> length (sp_buf s)" using "1.prems"(2) by (simp add: in_step_def)
  then have at: "avail ?t = 0" and eq: "s\<lparr>sp_pos := length (sp_buf s)\<rparr> = ?t"
    by (simp_all add: advance_def)
  obtain b s' where f: "fill ?t = (Inr b, s')" "in_step S s'" "whole S s' = whole S ?t"
      "avail ?t \<le> avail s'" "\<not> b \<longrightarrow> avail ?t = length (unread S ?t)"
      "\<not> b \<longrightarrow> avail s' = length (unread S ?t)"
    using fill_refines [OF t] by metis
  note bound = in_step_bounds(3)
  note whole_s = skip_text_whole [OF "1.prems"(1) bound [OF "1.prems"(2)]]
  note whole_t = skip_text_whole [OF "1.prems"(1) bound [OF t]]
  have tag: "drop (sp_pos s) (sp_buf s) = take (avail s) (unread S s)"
    by (rule buffered_eq [OF "1.prems"(2)])
  have m: "memchr x (CHR ''<'') (drop (sp_pos s) (sp_buf s)) = first_index ?lt (take (avail s) (unread S s))"
    using "1.prems"(1) unfolding tag ext_ok_def by blast
  show ?case
  proof (cases "first_index ?lt (take (avail s) (unread S s))")
    case (Some i)
    then have j: "first_index ?lt (unread S s) = Some i" by (rule first_index_take)
    have i: "i < avail s" "unread S s ! i = CHR ''<''"
      using Some avail_le [OF "1.prems"(2)] by (auto simp: first_index_Some_iff)
    have st: "skip_text x s = (Inr True, advance i s)"
      by (subst skip_text.simps) (simp only: m Some option.case advance_def)
    have w: "skip_text x (whole S s) = (Inr True, whole S (advance i s))"
      unfolding whole_s j by simp
    have "unread S (advance i s) ! 0 = unread S s ! i"
      using i(1) avail_le [OF "1.prems"(2)] by (simp add: add.assoc)
    moreover have "1 \<le> avail (advance i s)" using i by simp
    ultimately show ?thesis
      unfolding st w using i in_step_advance [OF "1.prems"(2), of i] by (simp only: refines_Inr) simp
  next
    case None
    have none: "first_index ?lt (drop 0 (take (avail s) (unread S s))) = None" using None by simp
    have u: "unread S ?t = drop (avail s) (unread S s)" by (simp only: advance_simps drop_drop ac_simps)
    have "map_option ((+) 0) (first_index ?lt (drop 0 (unread S s))) =
        map_option ((+) (avail s)) (first_index ?lt (unread S ?t))"
      unfolding u by (rule first_index_resume [OF none _ avail_le [OF "1.prems"(2)]]) simp
    then have fi: "first_index ?lt (unread S s) = map_option ((+) (avail s)) (first_index ?lt (unread S ?t))"
      by (cases "first_index ?lt (unread S s)") simp_all
    have adv: "whole S (advance (avail s + i) s) = whole S (advance i ?t)" for i
      by (simp add: advance_def add.assoc)
    have e: "(whole S ?t)\<lparr>sp_pos := length S\<rparr> = (whole S s)\<lparr>sp_pos := length S\<rparr>"
      by (simp add: whole_advance advance_def)
    have w: "skip_text x (whole S s) = skip_text x (whole S ?t)"
      unfolding whole_s whole_t fi e using adv by (cases "first_index ?lt (unread S ?t)") simp_all
    have st: "skip_text x s =
        and_then (fill ?t) (\<lambda>more s. if more then skip_text x s else (Inr False, s))"
      by (subst skip_text.simps) (simp only: m None option.case eq)
    show ?thesis
    proof (cases b)
      case True
      have "refines S (\<lambda>s a b. a = b \<and> (a \<longrightarrow> 1 \<le> avail s \<and> unread S s ! 0 = CHR ''<'') \<and>
             (\<not> a \<longrightarrow> sp_base s + length (sp_buf s) = length S))
          (skip_text x s') (skip_text x (whole S s'))"
        by (rule "1.IH" [OF _ _ True "1.prems"(1) f(2)]) (simp_all only: m None eq f(1))
      then show ?thesis using True f(1,3) by (simp add: st w)
    next
      case False
      then have "unread S ?t = []" using f(5) at by simp
      then have "skip_text x (whole S ?t) = (Inr False, (whole S ?t)\<lparr>sp_pos := length S\<rparr>)"
        unfolding whole_t by simp
      moreover have "(whole S ?t)\<lparr>sp_pos := length S\<rparr> = whole S ?t"
        using \<open>unread S ?t = []\<close> bound [OF t] by (simp add: whole_def)
      moreover have "sp_base s' + length (sp_buf s') = length S"
        by (rule at_end [OF f(2,3)]) (use False f(6) \<open>unread S ?t = []\<close> in simp)
      ultimately show ?thesis
        using False f(1,2,3) by (simp add: st w)
    qed
  qed
qed

text \<open>Offsets into the buffer become offsets into the document.\<close>

fun shift_kind :: "nat \<Rightarrow> kind \<Rightarrow> kind" where
  "shift_kind n (KStart name_end empty_tag) = KStart (n + name_end) empty_tag"
| "shift_kind n KEnd = KEnd"
| "shift_kind n KOther = KOther"

definition shift_markup :: "nat \<Rightarrow> markup \<Rightarrow> markup" where
  "shift_markup n m =
     \<lparr>m_kind = shift_kind n (m_kind m), m_start = n + m_start m, m_end = n + m_end m\<rparr>"

lemma shift_markup_simps [simp]:
  "m_kind (shift_markup n m) = shift_kind n (m_kind m)" "m_start (shift_markup n m) = n + m_start m"
  "m_end (shift_markup n m) = n + m_end m"
  by (simp_all add: shift_markup_def)

text \<open>
  What the scanner finds at \<open>start\<close> of the bytes \<open>bs\<close>: the markup runs from a \<open><\<close> to a \<open>></\<close>,
  and the pieces of a tag that the state machine cuts out are inside it.
\<close>

definition markup_ok :: "bytes \<Rightarrow> markup \<Rightarrow> bool" where
  "markup_ok bs m \<longleftrightarrow>
     m_start m < m_end m \<and> m_end m \<le> length bs \<and>
     bs ! m_start m = CHR ''<'' \<and> bs ! (m_end m - 1) = CHR ''>'' \<and>
     (case m_kind m of
        KStart name_end empty_tag \<Rightarrow>
          m_start m < name_end \<and> name_end \<le> (if empty_tag then m_end m - 2 else m_end m - 1) \<and>
          name_stop (bs ! name_end) \<and>
          (\<forall>i. m_start m < i \<and> i < name_end \<longrightarrow> \<not> name_stop (bs ! i)) \<and>
          empty_tag = (bs ! (m_end m - 2) = CHR ''/'')
      | KEnd \<Rightarrow> m_start m + 3 \<le> m_end m
      | KOther \<Rightarrow> True)"

definition rel_scan :: "bytes \<Rightarrow> splitter \<Rightarrow> kind \<times> nat \<Rightarrow> kind \<times> nat \<Rightarrow> bool" where
  "rel_scan S s a b \<longleftrightarrow>
     fst b = shift_kind (sp_base s) (fst a) \<and> snd b = snd a \<and> snd a \<le> avail s \<and>
     markup_ok S \<lparr>m_kind = fst b, m_start = sp_base s + sp_pos s,
                   m_end = sp_base s + sp_pos s + snd b\<rparr>"

lemma refines_Inr_eq:
  "w = (Inr b, whole S s) \<Longrightarrow> r = (Inr a, s) \<Longrightarrow> in_step S s \<Longrightarrow> R s a b \<Longrightarrow> refines S R r w"
  by simp

lemma starts_with_last:
  assumes "starts_with pat (drop a u)" "pat \<noteq> []" "a + length pat \<le> length u"
  shows "u ! (a + length pat - 1) = last pat"
proof -
  have "take (length pat) (drop a u) = pat" using assms(1) by (simp add: starts_with_iff)
  then have "last pat = take (length pat) (drop a u) ! (length pat - 1)"
    using assms(2) by (simp add: last_conv_nth)
  also have "\<dots> = u ! (a + (length pat - 1))"
    using assms(2,3) by (cases pat) simp_all
  finally show ?thesis using assms(2) by (cases pat) simp_all
qed

lemma unread_nth: "sp_base s + sp_pos s \<le> length S \<Longrightarrow> unread S s ! i = S ! (sp_base s + sp_pos s + i)"
  by simp

text \<open>Markup that ends at the first \<open>pat\<close>, for a \<open>pat\<close> that ends in \<open>></\<close>.\<close>

lemma find_end_refines:
  assumes "ext_ok x" "in_step S s" "k \<le> avail s" "0 < k" "unread S s ! 0 = CHR ''<''"
    and "pat \<noteq> []" "last pat = CHR ''>''" "n = length pat"
    and "K = KOther \<or> K = KEnd \<and> 2 \<le> k"
  shows "refines S (rel_scan S)
           (and_then (find_from x pat k s) (\<lambda>i s. (Inr (K, i + n), s)))
           (and_then (find_from x pat k (whole S s)) (\<lambda>i s. (Inr (K, i + n), s)))"
proof (rule refines_and_then [OF find_from_refines [OF assms(1,6,2,3)]], goal_cases)
  case (1 a b t)
  have "refines S (\<lambda>t a b. True) (find_from x pat k s) (find_from x pat k (whole S s))"
    by (rule refines_mono [OF find_from_refines [OF assms(1,6,2,3)]]) simp
  then have "whole S t = whole S s"
    unfolding 1(2) refines_def find_from_whole [OF assms(1,6)]
    by (auto split: option.splits sum.splits)
  then have p: "sp_base t + sp_pos t = sp_base s + sp_pos s" by (rule whole_eq_pos)
  note bt = in_step_bounds [OF 1(1)]
  have len: "a + n \<le> avail t" "k \<le> a" using 1(3) assms(8) by auto
  have "starts_with pat (drop a (unread S t))" using 1(3) by blast
  moreover have "a + length pat \<le> length (unread S t)"
    using 1(3) avail_le [OF 1(1)] order.trans by blast
  ultimately have "unread S t ! (a + n - 1) = CHR ''>''"
    using starts_with_last assms(6,7,8) by metis
  moreover have "0 < n" using assms(6,8) by simp
  ultimately have e: "S ! (sp_base t + sp_pos t + (a + n) - 1) = CHR ''>''"
    using unread_nth [OF bt(3)] assms(4) by (simp add: add.assoc)
  have lt: "S ! (sp_base t + sp_pos t) = CHR ''<''"
    using assms(5) unread_nth [OF in_step_bounds(3) [OF assms(2)], of 0] unfolding p by simp
  have "sp_base t + sp_pos t + (a + n) \<le> length S" using len(1) bt by simp
  moreover have "shift_kind j K = K" for j using assms(9) by auto
  ultimately have "rel_scan S t (K, a + n) (K, a + n)"
    using e lt len(2) assms(4,9) \<open>0 < n\<close> len(1)
    unfolding rel_scan_def markup_ok_def by (auto split: kind.splits)
  then show ?case using 1 by simp
qed

lemma refines_keeps:
  "refines S R r w \<Longrightarrow> snd w = whole S s \<Longrightarrow> refines S (\<lambda>t a b. R t a b \<and> whole S t = whole S s) r w"
  unfolding refines_def by (auto split: sum.splits)

lemma need_whole: "snd (need n (whole S s)) = whole S s"
  by (subst need.simps) simp

text \<open>A state with the same position in the document, where a \<open><\<close> is next.\<close>

definition at_lt :: "bytes \<Rightarrow> splitter \<Rightarrow> bool" where
  "at_lt S s \<longleftrightarrow> in_step S s \<and> 1 \<le> avail s \<and> unread S s ! 0 = CHR ''<''"

lemma at_lt_whole:
  assumes "at_lt S s" "whole S t = whole S s" "in_step S t" "1 \<le> avail t"
  shows "at_lt S t"
  using assms(1,3,4) unfolding at_lt_def whole_eq_unread [OF assms(2)] by (simp only: simp_thms)

lemma refines_mono_in_step:
  "refines S R r w \<Longrightarrow> (\<And>s a b. in_step S s \<Longrightarrow> R s a b \<Longrightarrow> Q s a b) \<Longrightarrow> refines S Q r w"
  unfolding refines_def by (auto split: sum.splits)

lemma need_at_lt:
  assumes "at_lt S s" "1 \<le> n"
  shows "refines S (\<lambda>t _ _. n \<le> avail t \<and> at_lt S t \<and> whole S t = whole S s) (need n s) (need n (whole S s))"
proof -
  have s: "in_step S s" "unread S s ! 0 = CHR ''<''" using assms by (simp_all only: at_lt_def)
  have "refines S (\<lambda>t _ _. n \<le> avail t \<and> whole S t = whole S s) (need n s) (need n (whole S s))"
    by (rule refines_keeps [OF need_refines [OF s(1)] need_whole])
  then show ?thesis
    by (rule refines_mono_in_step) (use at_lt_whole [OF assms(1)] assms(2) order.trans in blast)
qed

lemma at_lt_find_end:
  assumes "ext_ok x" "at_lt S s" "k \<le> avail s" "0 < k"
    and "pat \<noteq> []" "last pat = CHR ''>''" "n = length pat"
    and "K = KOther \<or> K = KEnd \<and> 2 \<le> k"
  shows "refines S (rel_scan S)
           (and_then (find_from x pat k s) (\<lambda>i s. (Inr (K, i + n), s)))
           (and_then (find_from x pat k (whole S s)) (\<lambda>i s. (Inr (K, i + n), s)))"
  using assms unfolding at_lt_def by (intro find_end_refines) auto

lemma whole_slice:
  assumes "in_step S s" "b \<le> avail s" "a \<le> b"
  shows "slice (sp_pos (whole S s) + a) (sp_pos (whole S s) + b) (sp_buf (whole S s)) =
         slice (sp_pos s + a) (sp_pos s + b) (sp_buf s)"
  using in_step_slice_pos [OF assms] by simp

lemma whole_nth:
  assumes "in_step S s" "i < avail s"
  shows "sp_buf (whole S s) ! (sp_pos (whole S s) + i) = sp_buf s ! (sp_pos s + i)"
  using in_step_nth [OF assms] by simp

lemma whole_location: "location_at (whole S s) (sp_pos (whole S s)) = location_at s (sp_pos s)"
  by simp

lemma whole_xml_error: "xml_error (whole S s) (sp_pos (whole S s)) m = xml_error s (sp_pos s) m"
  by simp

lemma scan_declaration_refines:
  assumes "ext_ok x" "at_lt S s"
  shows "refines S (rel_scan S) (scan_declaration x s) (scan_declaration x (whole S s))"
  unfolding scan_declaration_def
proof (rule refines_and_then [OF need_at_lt [OF assms(2)]], goal_cases)
  case 1
  show ?case by simp
next
  case (2 _ _ s1)
  then have s1: "in_step S s1" "4 \<le> avail s1" "at_lt S s1" by simp_all
  have sl: "slice (sp_pos (whole S s1) + 2) (sp_pos (whole S s1) + 4) (sp_buf (whole S s1)) =
      slice (sp_pos s1 + 2) (sp_pos s1 + 4) (sp_buf s1)"
    by (rule whole_slice [OF s1(1,2)]) simp
  show ?case
  proof (cases "slice (sp_pos s1 + 2) (sp_pos s1 + 4) (sp_buf s1) = ''--''")
    case True
    have "refines S (rel_scan S)
        (and_then (find_from x ''-->'' 4 s1) (\<lambda>i s. (Inr (KOther, i + 3), s)))
        (and_then (find_from x ''-->'' 4 (whole S s1)) (\<lambda>i s. (Inr (KOther, i + 3), s)))"
      by (rule at_lt_find_end [OF assms(1) s1(3,2)]) simp_all
    then show ?thesis unfolding sl using True by (simp only: if_True refl)
  next
    case False
    have "refines S (rel_scan S)
       (and_then (need 9 s1) (\<lambda>_ s.
         let head = slice (sp_pos s) (sp_pos s + 9) (sp_buf s) in
         if head = ''<![CDATA[''
         then and_then (find_from x '']]>'' 9 s) (\<lambda>i s. (Inr (KOther, i + 3), s))
         else if head = ''<!DOCTYPE''
         then (Inl (Dtd_Not_Supported (location_at s (sp_pos s))), s)
         else (Inl (xml_error s (sp_pos s) Unsupported_Declaration), s)))
       (and_then (need 9 (whole S s1)) (\<lambda>_ s.
         let head = slice (sp_pos s) (sp_pos s + 9) (sp_buf s) in
         if head = ''<![CDATA[''
         then and_then (find_from x '']]>'' 9 s) (\<lambda>i s. (Inr (KOther, i + 3), s))
         else if head = ''<!DOCTYPE''
         then (Inl (Dtd_Not_Supported (location_at s (sp_pos s))), s)
         else (Inl (xml_error s (sp_pos s) Unsupported_Declaration), s)))"
    proof (rule refines_and_then [OF need_at_lt [OF s1(3)]], goal_cases)
      case 1
      show ?case by simp
    next
      case (2 _ _ s2)
      then have s2: "in_step S s2" "9 \<le> avail s2" "at_lt S s2" by simp_all
      have sl: "slice (sp_pos (whole S s2)) (sp_pos (whole S s2) + 9) (sp_buf (whole S s2)) =
          slice (sp_pos s2) (sp_pos s2 + 9) (sp_buf s2)"
        using whole_slice [OF s2(1,2), of 0] by simp
      have cdata: "refines S (rel_scan S)
          (and_then (find_from x '']]>'' 9 s2) (\<lambda>i s. (Inr (KOther, i + 3), s)))
          (and_then (find_from x '']]>'' 9 (whole S s2)) (\<lambda>i s. (Inr (KOther, i + 3), s)))"
        by (rule at_lt_find_end [OF assms(1) s2(3,2)]) simp_all
      show ?case
        unfolding Let_def sl whole_location whole_xml_error using cdata s2(1) by simp
    qed
    then show ?thesis unfolding sl using False by (simp only: if_False)
  qed
qed

lemma markup_ok_start:
  assumes "1 \<le> e" "e \<le> c" "P + c < length S" "S ! (P + c) = CHR ''>''" "S ! P = CHR ''<''"
    and "name_stop (S ! (P + e))" "\<forall>i. 1 \<le> i \<and> i < e \<longrightarrow> \<not> name_stop (S ! (P + i))"
    and ee: "ee = (S ! (P + c - 1) = CHR ''/'')"
  shows "markup_ok S \<lparr>m_kind = KStart (P + e) ee, m_start = P, m_end = P + (c + 1)\<rparr>"
proof -
  have "P + e \<le> P + c - 1" if ee
  proof (rule ccontr)
    assume n: "\<not> P + e \<le> P + c - 1"
    have sl: "S ! (P + c - 1) = CHR ''/''" using that ee by simp
    show False
    proof (cases "c = 1")
      case True
      then show False using sl assms(5) by simp
    next
      case False
      then have "1 \<le> c - 1" "c - 1 < e" using n assms by simp_all
      then have "\<not> name_stop (S ! (P + (c - 1)))" using assms(7) by blast
      moreover have "P + (c - 1) = P + c - 1" using assms(1,2) by simp
      ultimately show False using sl by (simp add: name_stop_def)
    qed
  qed
  moreover have "\<not> name_stop (S ! i)" if "P < i" "i < P + e" for i
    using assms(7) [rule_format, of "i - P"] that by (simp add: Suc_le_eq less_diff_conv2)
  moreover have "P + (c + 1) - 2 = P + c - 1" by simp
  ultimately show ?thesis
    using assms(1-6) ee unfolding markup_ok_def by simp
qed

lemma start_tag_refines:
  assumes "ext_ok x" "at_lt S s"
  shows "refines S (rel_scan S)
    (and_then (scan_start_tag x s) (\<lambda>(close, name_end) s.
         (Inr (KStart (sp_pos s + name_end) (sp_buf s ! (sp_pos s + close - 1) = CHR ''/''),
               close + 1), s)))
    (and_then (scan_start_tag x (whole S s)) (\<lambda>(close, name_end) s.
         (Inr (KStart (sp_pos s + name_end) (sp_buf s ! (sp_pos s + close - 1) = CHR ''/''),
               close + 1), s)))"
proof -
  have s: "in_step S s" "1 \<le> avail s" using assms(2) by (simp_all add: at_lt_def)
  have keep: "snd (scan_start_tag x (whole S s)) = whole S s"
    unfolding scan_start_tag_def scan_name_whole
    by (cases "first_index name_stop (drop 1 (unread S s))")
      (auto simp: scan_close_whole split: sum.splits)
  show ?thesis
  proof (rule refines_and_then [OF refines_keeps [OF scan_start_tag_refines [OF assms(1) s] keep]], goal_cases)
    case (1 a b t)
    obtain c e where a: "a = (c, e)" by (cases a)
    have b: "b = (c, e)" using 1(3) a by simp
    note bt = in_step_bounds [OF 1(1)]
    note un = unread_nth [OF bt(3)]
    have f: "1 \<le> e" "e \<le> c" "c < avail t" "S ! (sp_base t + sp_pos t + c) = CHR ''>''"
      "name_stop (S ! (sp_base t + sp_pos t + e))"
      "\<forall>i. 1 \<le> i \<and> i < e \<longrightarrow> \<not> name_stop (S ! (sp_base t + sp_pos t + i))"
      using 1(3) unfolding a un fst_conv snd_conv by auto
    have lt: "S ! (sp_base t + sp_pos t) = CHR ''<''"
      using assms(2) un [of 0] whole_eq_unread [of S t s] 1(3) by (simp add: at_lt_def)
    have nth: "sp_buf t ! (sp_pos t + c - 1) = S ! (sp_base t + sp_pos t + c - 1)"
      using in_step_nth [OF 1(1), of "c - 1"] f(1-3) by simp
    let ?e = "S ! (sp_base t + sp_pos t + c - 1) = CHR ''/''"
    have "markup_ok S \<lparr>m_kind = KStart (sp_base t + sp_pos t + e) ?e, m_start = sp_base t + sp_pos t,
        m_end = sp_base t + sp_pos t + (c + 1)\<rparr>"
      using f(3) bt by (intro markup_ok_start [OF f(1,2) _ f(4) lt f(5,6) refl]) simp
    then have "rel_scan S t (KStart (sp_pos t + e) ?e, c + 1) (KStart (sp_base t + sp_pos t + e) ?e, c + 1)"
      using f(3) unfolding rel_scan_def by (simp add: add.assoc)
    then show ?case
      unfolding a b prod.case nth whole_simps
      by (simp only: refines_Inr 1(1) simp_thms add.assoc)
  qed
qed

lemma scan_markup_refines:
  assumes "ext_ok x" "at_lt S s"
  shows "refines S (rel_scan S) (scan_markup x s) (scan_markup x (whole S s))"
  unfolding scan_markup_def
proof (rule refines_and_then [OF need_at_lt [OF assms(2)]], goal_cases)
  case 1
  show ?case by simp
next
  case (2 _ _ t)
  then have t: "in_step S t" "2 \<le> avail t" "at_lt S t" by simp_all
  have n: "sp_buf (whole S t) ! (sp_pos (whole S t) + 1) = sp_buf t ! (sp_pos t + 1)"
    by (rule whole_nth [OF t(1)]) (use t(2) in simp)
  have close: "refines S (rel_scan S)
      (and_then (find_from x ''>'' 2 t) (\<lambda>i s. (Inr (KEnd, i + 1), s)))
      (and_then (find_from x ''>'' 2 (whole S t)) (\<lambda>i s. (Inr (KEnd, i + 1), s)))"
    by (rule at_lt_find_end [OF assms(1) t(3,2)]) simp_all
  have pi: "refines S (rel_scan S)
      (and_then (find_from x ''?>'' 2 t) (\<lambda>i s. (Inr (KOther, i + 2), s)))
      (and_then (find_from x ''?>'' 2 (whole S t)) (\<lambda>i s. (Inr (KOther, i + 2), s)))"
    by (rule at_lt_find_end [OF assms(1) t(3,2)]) simp_all
  show ?case
    unfolding n Let_def
    using close pi scan_declaration_refines [OF assms(1) t(3)] start_tag_refines [OF assms(1) t(3)]
    by (simp only: split: if_split) blast
qed

text \<open>The markup found, at its offsets in the document; the position is after it.\<close>

definition rel_markup :: "bytes \<Rightarrow> splitter \<Rightarrow> markup option \<Rightarrow> markup option \<Rightarrow> bool" where
  "rel_markup S s a b \<longleftrightarrow>
     b = map_option (shift_markup (sp_base s)) a \<and>
     (case a of
        Some m \<Rightarrow> m_end m = sp_pos s \<and> markup_ok S (shift_markup (sp_base s) m) \<and>
                  (\<forall>start \<in> kept s. start \<le> sp_base s + m_start m)
      | None \<Rightarrow> sp_base s + length (sp_buf s) = length S)"

lemma next_markup_refines:
  assumes "ext_ok x" "in_step S s"
  shows "refines S (rel_markup S) (next_markup x s) (next_markup x (whole S s))"
  unfolding next_markup_def
proof (rule refines_and_then [OF skip_text_refines [OF assms]], goal_cases)
  case (1 found found' t)
  then have eq: "found' = found" by simp
  show ?case
  proof (cases found)
    case False
    then have "sp_base t + length (sp_buf t) = length S" using 1(3) by blast
    then show ?thesis using False 1(1) eq by (simp add: rel_markup_def)
  next
    case True
    then have t: "at_lt S t" using 1 by (simp only: at_lt_def simp_thms)
    have "refines S (rel_markup S)
        (and_then (scan_markup x t) (\<lambda>(kind, len) s.
         let start = sp_pos s; s1 = s\<lparr>sp_pos := start + len\<rparr>
         in (Inr (Some \<lparr>m_kind = kind, m_start = start, m_end = sp_pos s1\<rparr>), s1)))
        (and_then (scan_markup x (whole S t)) (\<lambda>(kind, len) s.
         let start = sp_pos s; s1 = s\<lparr>sp_pos := start + len\<rparr>
         in (Inr (Some \<lparr>m_kind = kind, m_start = start, m_end = sp_pos s1\<rparr>), s1)))"
    proof (rule refines_and_then [OF scan_markup_refines [OF assms(1) t]], goal_cases)
      case (1 a b u)
      obtain kind len where a: "a = (kind, len)" by (cases a)
      have b: "b = (shift_kind (sp_base u) kind, len)"
        using 1(3) unfolding rel_scan_def a by (cases b) simp
      have r: "len \<le> avail u" "markup_ok S \<lparr>m_kind = shift_kind (sp_base u) kind,
          m_start = sp_base u + sp_pos u, m_end = sp_base u + sp_pos u + len\<rparr>"
        using 1(3) unfolding rel_scan_def a b by simp_all
      have k: "\<forall>start \<in> kept u. start \<le> sp_base u + sp_pos u"
        using 1(1) by (simp add: in_step_def)
      let ?m = "\<lparr>m_kind = kind, m_start = sp_pos u, m_end = sp_pos u + len\<rparr>"
      have "rel_markup S (advance len u) (Some ?m) (Some (shift_markup (sp_base u) ?m))"
        using r k unfolding rel_markup_def by (simp add: shift_markup_def add.assoc)
      moreover have "\<lparr>m_kind = shift_kind (sp_base u) kind, m_start = sp_base u + sp_pos u,
          m_end = sp_base u + sp_pos u + len\<rparr> = shift_markup (sp_base u) ?m"
        by (simp add: shift_markup_def)
      moreover have "u\<lparr>sp_pos := sp_pos u + len\<rparr> = advance len u"
        "whole S u\<lparr>sp_pos := sp_base u + sp_pos u + len\<rparr> = whole S (advance len u)"
        by (simp_all add: advance_def whole_def)
      ultimately show ?case
        using in_step_advance [OF 1(1) r(1)] by (simp add: a b Let_def shift_markup_def add.assoc)
    qed
    then show ?thesis using True eq by simp
  qed
qed

subsection \<open>The input left to read\<close>

definition grows :: "splitter \<Rightarrow> splitter \<Rightarrow> bool" where
  "grows s t \<longleftrightarrow> input_left t \<le> input_left s \<and> avail s \<le> avail t"

lemma grows_refl [simp]: "grows s s"
  by (simp add: grows_def)

lemma grows_trans [trans]: "grows s t \<Longrightarrow> grows t u \<Longrightarrow> grows s u"
  by (simp add: grows_def)

lemma fill_grows:
  assumes "fill s = (Inr b, t)"
  shows "grows s t"
proof -
  have "avail s \<le> avail t"
  proof (cases "sp_eof s")
    case True
    then show ?thesis using assms by (simp add: fill_def)
  next
    case False
    then obtain bs r where t: "t = (compact s)\<lparr>sp_reader := r, sp_buf := sp_buf (compact s) @ bs, sp_eof := (bs = [])\<rparr>"
      using assms by (auto simp: fill_def Let_def split: prod.splits sum.splits)
    have "avail (compact s) \<le> avail t" unfolding t by (simp del: compact_simps)
    then show ?thesis using compact_simps(2) [of s] by (simp only:)
  qed
  then show ?thesis using fill_input_left [OF assms] by (simp add: grows_def)
qed

text \<open>A loop that fills and goes on only grows what is available.\<close>

lemma fill_loop_grows:
  assumes "and_then (fill s) (\<lambda>more s. if more then f s else (Inl (err s), s)) = (Inr a, t)"
    and "\<And>s'. fill s = (Inr True, s') \<Longrightarrow> f s' = (Inr a, t) \<Longrightarrow> grows s' t"
  shows "grows s t"
proof -
  obtain s' where s': "fill s = (Inr True, s')" "f s' = (Inr a, t)"
    using assms(1) by (auto simp: and_then_Inr split: if_splits)
  show ?thesis
    by (rule grows_trans [OF fill_grows [OF s'(1)] assms(2) [OF s']])
qed

lemma need_grows: "need n s = (Inr u, t) \<Longrightarrow> grows s t \<and> n \<le> avail t"
proof (induction n s rule: need.induct)
  case (1 n s)
  show ?case
  proof (cases "avail s < n")
    case True
    then obtain s' where s': "fill s = (Inr True, s')" "need n s' = (Inr u, t)"
      using "1.prems" by (subst (asm) need.simps) (auto simp: and_then_Inr split: if_splits)
    from "1.IH" [OF True s'(1) TrueI s'(2)] grows_trans [OF fill_grows [OF s'(1)]]
    show ?thesis by blast
  next
    case False
    with "1.prems" show ?thesis by (simp add: need.simps)
  qed
qed

lemma find_from_grows: "find_from x pat k s = (Inr i, t) \<Longrightarrow> grows s t"
proof (induction x pat k s rule: find_from.induct)
  case (1 x pat k s)
  show ?case
  proof (cases "search x pat (drop (sp_pos s + k) (sp_buf s))")
    case (Some j)
    then show ?thesis using "1.prems" by (subst (asm) find_from.simps) (simp add: Let_def)
  next
    case None
    show ?thesis
      by (rule fill_loop_grows [OF "1.prems" [unfolded find_from.simps [of x pat k s] None option.case Let_def]])
        (rule "1.IH" [OF None refl _ TrueI])
  qed
qed

lemma scan_name_grows: "scan_name i s = (Inr a, t) \<Longrightarrow> grows s t"
proof (induction i s rule: scan_name.induct)
  case (1 i s)
  show ?case
  proof (cases "first_index name_stop (drop i (drop (sp_pos s) (sp_buf s)))")
    case (Some j)
    then show ?thesis
      using "1.prems" unfolding scan_name.simps [of i s] Let_def Some option.case by simp
  next
    case None
    show ?thesis
      by (rule fill_loop_grows [OF "1.prems" [unfolded scan_name.simps [of i s] Let_def None option.case]])
        (rule "1.IH" [OF refl None _ TrueI])
  qed
qed

lemma scan_close_grows: "scan_close x q i s = (Inr a, t) \<Longrightarrow> grows s t"
proof (induction x q i s rule: scan_close.induct)
  case (1 x q i s)
  show ?case
  proof (cases "scan_quotes x q i (drop (sp_pos s) (sp_buf s))")
    case (Inr j)
    then show ?thesis
      using "1.prems" unfolding scan_close_unfold [of x q i s] Inr sum.case by simp
  next
    case (Inl p)
    obtain q' i' where p: "p = (q', i')" by (cases p)
    show ?thesis
      by (rule fill_loop_grows [OF "1.prems" [unfolded scan_close_unfold [of x q i s] Inl p sum.case prod.case]])
        (rule "1.IH" [OF Inl p [symmetric] _ TrueI])
  qed
qed

lemma scan_markup_grows:
  assumes "scan_markup x s = (Inr (kind, len), t)"
  shows "grows s t \<and> 1 \<le> avail t \<and> 1 \<le> len"
  using assms
  by (auto simp: scan_markup_def scan_declaration_def scan_start_tag_def and_then_Inr Let_def
      split: if_splits prod.splits
      dest!: need_grows find_from_grows scan_name_grows scan_close_grows)
    (auto simp: grows_def)

lemma skip_text_left: "skip_text x s = (Inr b, t) \<Longrightarrow> input_left t \<le> input_left s"
proof (induction x s rule: skip_text.induct)
  case (1 x s)
  show ?case
  proof (cases "memchr x (CHR ''<'') (drop (sp_pos s) (sp_buf s))")
    case (Some i)
    then show ?thesis
      using "1.prems" unfolding skip_text.simps [of x s] Some option.case
      by (auto simp: input_left_def)
  next
    case None
    obtain more s' where s': "fill (s\<lparr>sp_pos := length (sp_buf s)\<rparr>) = (Inr more, s')"
        "if more then skip_text x s' = (Inr b, t) else t = s'"
      using "1.prems" unfolding skip_text.simps [of x s] None option.case
      by (auto simp: and_then_Inr split: if_splits)
    have "input_left s' \<le> input_left (s\<lparr>sp_pos := length (sp_buf s)\<rparr>)"
      using fill_input_left [OF s'(1)] by simp
    also have "\<dots> \<le> input_left s" by (simp add: input_left_def)
    finally have "input_left s' \<le> input_left s" .
    moreover have "input_left t \<le> input_left s'"
      using "1.IH" [OF None s'(1)] s'(2) by (cases more) auto
    ultimately show ?thesis by simp
  qed
qed

lemma next_markup_left:
  assumes "next_markup x s = (Inr (Some m), t)"
  shows "input_left t < input_left s"
proof -
  obtain s1 kind len s2 where s: "skip_text x s = (Inr True, s1)"
      "scan_markup x s1 = (Inr (kind, len), s2)" "t = s2\<lparr>sp_pos := sp_pos s2 + len\<rparr>"
    using assms by (auto simp: next_markup_def and_then_Inr Let_def split: if_splits prod.splits)
  have "input_left s2 \<le> input_left s"
    using skip_text_left [OF s(1)] scan_markup_grows [OF s(2)] by (simp add: grows_def)
  moreover have "input_left t < input_left s2"
    using scan_markup_grows [OF s(2)] unfolding s(3) input_left_def by auto
  ultimately show ?thesis by simp
qed

lemma next_feature_markup_left:
  "next_feature_markup x s = (Inr (Some m), t) \<Longrightarrow> input_left t < input_left s"
proof (induction x s rule: next_feature_markup.induct)
  case (1 x s)
  show ?case
  proof (cases "memchr x (CHR ''<'') (drop (sp_pos s) (sp_buf s))")
    case None
    let ?t = "s\<lparr>sp_pos := length (sp_buf s)\<rparr>"
    obtain s' where s': "fill ?t = (Inr True, s')"
        "next_feature_markup x s' = (Inr (Some m), t)"
      using "1.prems" unfolding next_feature_markup.simps [of x s] None option.case
      by (auto simp: and_then_Inr split: if_splits)
    have "input_left s' \<le> input_left ?t" using fill_input_left [OF s'(1)] by simp
    also have "\<dots> \<le> input_left s" by (simp add: input_left_def)
    finally show ?thesis using "1.IH"(1) [OF None s'(1) TrueI s'(2)] by simp
  next
    case (Some i)
    let ?t = "s\<lparr>sp_pos := sp_pos s + i\<rparr>"
    have t: "input_left ?t \<le> input_left s" by (auto simp: input_left_def)
    obtain u s1 where s1: "need 2 ?t = (Inr u, s1)" "grows ?t s1"
      using "1.prems" unfolding next_feature_markup.simps [of x s] Some option.case
      by (auto simp: and_then_Inr dest: need_grows)
    let ?c = "sp_buf s1 ! (sp_pos s1 + 1)"
    let ?n = "if ?c = CHR ''/'' then 2 else 1"
    have left: "input_left s1 \<le> input_left s" using s1(2) t by (simp add: grows_def)
    show ?thesis
    proof (cases "?c = CHR ''!'' \<or> ?c = CHR ''?''")
      case True
      then have "next_markup x s1 = (Inr (Some m), t)"
        using "1.prems" unfolding next_feature_markup.simps [of x s] Some option.case s1(1)
        by (auto simp: Let_def)
      then show ?thesis using next_markup_left left by fastforce
    next
      case False
      obtain v s2 where s2: "need (?n + length (sp_feature_name s1) + 1) s1 = (Inr v, s2)"
          "if named_like_feature ?n s2 then next_markup x s2 = (Inr (Some m), t)
           else next_feature_markup x (s2\<lparr>sp_pos := sp_pos s2 + 1\<rparr>) = (Inr (Some m), t)"
        using "1.prems" False unfolding next_feature_markup.simps [of x s] Some option.case s1(1)
        by (auto simp: Let_def and_then_Inr split: if_splits)
      have l2: "input_left s2 \<le> input_left s" using need_grows [OF s2(1)] left by (simp add: grows_def)
      show ?thesis
      proof (cases "named_like_feature ?n s2")
        case True
        then have "next_markup x s2 = (Inr (Some m), t)" using s2(2) by (simp only: if_True)
        then show ?thesis using next_markup_left l2 by fastforce
      next
        case n: False
        let ?u = "s2\<lparr>sp_pos := sp_pos s2 + 1\<rparr>"
        have "next_feature_markup x ?u = (Inr (Some m), t)" using s2(2) n by (simp only: if_False)
        then have "input_left t < input_left ?u"
          by (rule "1.IH"(2) [OF Some s1(1) refl False refl s2(1) n])
        also have "\<dots> \<le> input_left s2" by (simp add: input_left_def)
        finally show ?thesis using l2 by simp
      qed
    qed
  qed
qed

text \<open>What \<open>next_feature_markup\<close> does at a \<open><\<close>.\<close>

definition feature_markup_at :: "byte_ext \<Rightarrow> splitter \<Rightarrow> (error, markup option, splitter) outcome" where
  "feature_markup_at x s =
     and_then (need 2 s) (\<lambda>_ s.
            let c = sp_buf s ! (sp_pos s + 1) in
            if c = CHR ''!'' \<or> c = CHR ''?'' then next_markup x s
            else
              let name_at = (if c = CHR ''/'' then 2 else 1) in
              and_then (need (name_at + length (sp_feature_name s) + 1) s) (\<lambda>_ s.
                if named_like_feature name_at s then next_markup x s
                else next_feature_markup x (advance 1 s)))"

lemma next_feature_markup_unfold:
  "next_feature_markup x s =
     (case memchr x (CHR ''<'') (drop (sp_pos s) (sp_buf s)) of
        None \<Rightarrow>
          and_then (fill (s\<lparr>sp_pos := length (sp_buf s)\<rparr>)) (\<lambda>more s.
            if more then next_feature_markup x s else (Inr None, s))
      | Some i \<Rightarrow> feature_markup_at x (advance i s))"
  unfolding feature_markup_at_def advance_def by (rule next_feature_markup.simps)

lemma next_feature_markup_whole:
  assumes "ext_ok x"
  shows "next_feature_markup x (whole S s) =
     (case first_index (\<lambda>c. c = CHR ''<'') (unread S s) of
        Some i \<Rightarrow> feature_markup_at x (whole S (advance i s))
      | None \<Rightarrow> (Inr None, (whole S s)\<lparr>sp_pos := length S\<rparr>))"
proof -
  have m: "memchr x (CHR ''<'') (drop (sp_pos (whole S s)) (sp_buf (whole S s))) =
      first_index (\<lambda>c. c = CHR ''<'') (unread S s)"
    using assms by (simp add: ext_ok_def)
  have "fill (whole S s\<lparr>sp_pos := length (sp_buf (whole S s))\<rparr>) = (Inr False, (whole S s)\<lparr>sp_pos := length S\<rparr>)"
    by (simp add: fill_def)
  then show ?thesis
    unfolding next_feature_markup_unfold [of x "whole S s"] m whole_advance
    by (simp split: option.splits)
qed

lemma named_like_feature_whole:
  assumes "in_step S s" "k + length (sp_feature_name s) + 1 \<le> avail s"
  shows "named_like_feature k (whole S s) = named_like_feature k s"
proof -
  let ?n = "length (sp_feature_name s)"
  have n: "S ! (sp_base s + sp_pos s + k + ?n) = sp_buf s ! (sp_pos s + k + ?n)"
    using in_step_nth [OF assms(1), of "k + ?n"] assms(2) by (simp add: add.assoc)
  have sl: "slice (sp_base s + sp_pos s + k) (sp_base s + sp_pos s + k + ?n) S =
      slice (sp_pos s + k) (sp_pos s + k + ?n) (sp_buf s)"
    using in_step_slice_pos [OF assms(1), of "k + ?n" k] assms(2) by (simp add: add.assoc)
  show ?thesis
    unfolding named_like_feature_def Let_def whole_simps n sl by (rule refl)
qed

lemma next_feature_markup_refines:
  assumes "ext_ok x" "in_step S s"
  shows "refines S (rel_markup S) (next_feature_markup x s) (next_feature_markup x (whole S s))"
  using assms
proof (induction x s rule: next_feature_markup.induct)
  case (1 x s)
  let ?lt = "\<lambda>c. c = CHR ''<''"
  have p: "sp_pos s \<le> length (sp_buf s)" using "1.prems"(2) by (simp add: in_step_def)
  have tag: "drop (sp_pos s) (sp_buf s) = take (avail s) (unread S s)"
    by (rule buffered_eq [OF "1.prems"(2)])
  have m: "memchr x (CHR ''<'') (drop (sp_pos s) (sp_buf s)) = first_index ?lt (take (avail s) (unread S s))"
    using "1.prems"(1) unfolding tag ext_ok_def by blast
  note wh = next_feature_markup_whole [OF "1.prems"(1)]
  show ?case
  proof (cases "first_index ?lt (take (avail s) (unread S s))")
    case (Some i)
    then have j: "first_index ?lt (unread S s) = Some i" by (rule first_index_take)
    have i: "i < avail s" "unread S s ! i = CHR ''<''"
      using Some avail_le [OF "1.prems"(2)] by (auto simp: first_index_Some_iff)
    have m': "memchr x (CHR ''<'') (drop (sp_pos s) (sp_buf s)) = Some i" unfolding m by (rule Some)
    have st: "next_feature_markup x s = feature_markup_at x (advance i s)"
      unfolding next_feature_markup_unfold [of x s] m' option.case ..
    have w: "next_feature_markup x (whole S s) = feature_markup_at x (whole S (advance i s))"
      unfolding wh j by simp
    have adv: "in_step S (advance i s)" using in_step_advance [OF "1.prems"(2)] i(1) by simp
    have adv': "advance i s = s\<lparr>sp_pos := sp_pos s + i\<rparr>" by (simp add: advance_def)
    note n2 = need_refines [OF adv, of 2]
    show ?thesis
      unfolding st w feature_markup_at_def
    proof (rule refines_and_then [OF n2], goal_cases)
      case (1 u u' t)
      have at: "in_step S t" "2 \<le> avail t" by (rule 1(1), rule 1(3))
      let ?c = "sp_buf t ! (sp_pos t + 1)"
      let ?n = "if ?c = CHR ''/'' then 2 else (1::nat)"
      have c: "sp_buf (whole S t) ! (sp_pos (whole S t) + 1) = ?c"
        by (rule whole_nth [OF at(1)]) (use at(2) in simp)
      show ?case
      proof (cases "?c = CHR ''!'' \<or> ?c = CHR ''?''")
        case True
        then show ?thesis
          unfolding Let_def c using next_markup_refines [OF "1.prems"(1) at(1)] by simp
      next
        case False
        have fn: "sp_feature_name (whole S t) = sp_feature_name t" by simp
        note n3 = need_refines [OF at(1), of "?n + length (sp_feature_name t) + 1"]
        have "refines S (rel_markup S)
            (and_then (need (?n + length (sp_feature_name t) + 1) t)
              (\<lambda>_ s. if named_like_feature ?n s then next_markup x s else next_feature_markup x (advance 1 s)))
            (and_then (need (?n + length (sp_feature_name t) + 1) (whole S t))
              (\<lambda>_ s. if named_like_feature ?n s then next_markup x s else next_feature_markup x (advance 1 s)))"
        proof (rule refines_and_then [OF refines_keeps [OF n3 need_whole]], goal_cases)
          case (1 v v' r)
          have "sp_feature_name r = sp_feature_name t"
            using 1(3) by (metis whole_simps)
          then have av: "?n + length (sp_feature_name r) + 1 \<le> avail r" using 1(3) by simp
          have nl: "named_like_feature ?n (whole S r) = named_like_feature ?n r"
            by (rule named_like_feature_whole [OF 1(1) av])
          show ?case
          proof (cases "named_like_feature ?n r")
            case True
            then show ?thesis
              unfolding nl using next_markup_refines [OF "1.prems"(1) 1(1)] by (simp only: if_True)
          next
            case nf: False
            have "1 \<le> avail r" using av by simp
            then have "in_step S (advance 1 r)" by (rule in_step_advance [OF 1(1)])
            then have r: "in_step S (r\<lparr>sp_pos := sp_pos r + 1\<rparr>)" by (simp only: advance_def)
            have "refines S (rel_markup S) (next_feature_markup x (r\<lparr>sp_pos := sp_pos r + 1\<rparr>))
                (next_feature_markup x (whole S (r\<lparr>sp_pos := sp_pos r + 1\<rparr>)))"
              by (rule "1.IH"(2) [OF m' _ refl False refl 1(2) nf "1.prems"(1) r])
                (use \<open>need 2 (advance i s) = (Inr u, t)\<close> adv' in simp)
            then show ?thesis
              unfolding nl using nf by (simp only: if_False advance_def [symmetric] whole_advance)
          qed
        qed
        then show ?thesis
          unfolding Let_def c fn using False by (simp only: if_False)
      qed
    qed
  next
    case None
    let ?t = "advance (avail s) s"
    have t: "in_step S ?t" by (rule in_step_advance [OF "1.prems"(2)]) simp
    have at: "avail ?t = 0" and eq: "s\<lparr>sp_pos := length (sp_buf s)\<rparr> = ?t"
      using p by (simp_all add: advance_def)
    obtain b s' where f: "fill ?t = (Inr b, s')" "in_step S s'" "whole S s' = whole S ?t"
        "avail ?t \<le> avail s'" "\<not> b \<longrightarrow> avail ?t = length (unread S ?t)"
        "\<not> b \<longrightarrow> avail s' = length (unread S ?t)"
      using fill_refines [OF t] by metis
    have none: "first_index ?lt (drop 0 (take (avail s) (unread S s))) = None" using None by simp
    have u: "unread S ?t = drop (avail s) (unread S s)"
      by (simp only: advance_simps drop_drop ac_simps)
    have "map_option ((+) 0) (first_index ?lt (drop 0 (unread S s))) =
        map_option ((+) (avail s)) (first_index ?lt (unread S ?t))"
      unfolding u by (rule first_index_resume [OF none _ avail_le [OF "1.prems"(2)]]) simp
    then have fi: "first_index ?lt (unread S s) = map_option ((+) (avail s)) (first_index ?lt (unread S ?t))"
      by (cases "first_index ?lt (unread S s)") simp_all
    have adv: "whole S (advance (avail s + i) s) = whole S (advance i ?t)" for i
      by (simp add: advance_def add.assoc)
    have e: "(whole S ?t)\<lparr>sp_pos := length S\<rparr> = (whole S s)\<lparr>sp_pos := length S\<rparr>"
      by (simp add: whole_advance advance_def)
    have w: "next_feature_markup x (whole S s) = next_feature_markup x (whole S ?t)"
      unfolding wh fi e using adv by (cases "first_index ?lt (unread S ?t)") simp_all
    have m': "memchr x (CHR ''<'') (drop (sp_pos s) (sp_buf s)) = None" unfolding m by (rule None)
    have st: "next_feature_markup x s =
        and_then (fill ?t) (\<lambda>more s. if more then next_feature_markup x s else (Inr None, s))"
      unfolding next_feature_markup_unfold [of x s] m' option.case eq ..
    show ?thesis
    proof (cases b)
      case True
      have "refines S (rel_markup S) (next_feature_markup x s') (next_feature_markup x (whole S s'))"
        by (rule "1.IH"(1) [OF m' _ True "1.prems"(1) f(2)]) (simp only: eq f(1))
      then show ?thesis using True f(1,3) by (simp add: st w)
    next
      case False
      then have "unread S ?t = []" using f(5) at by simp
      then have "next_feature_markup x (whole S ?t) = (Inr None, (whole S ?t)\<lparr>sp_pos := length S\<rparr>)"
        unfolding wh by simp
      moreover have "(whole S ?t)\<lparr>sp_pos := length S\<rparr> = whole S ?t"
        using \<open>unread S ?t = []\<close> in_step_bounds(3) [OF t] by (simp add: whole_def)
      moreover have "sp_base s' + length (sp_buf s') = length S"
        by (rule at_end [OF f(2,3)]) (use False f(6) \<open>unread S ?t = []\<close> in simp)
      ultimately show ?thesis
        using False f(1,2,3) by (simp add: st w rel_markup_def)
    qed
  qed
qed

end
