(* ===== verification/Splitter_Machine.thy ===== *)
theory Splitter_Machine
  imports Splitter_Markup
begin

text \<open>
  The state machine of the splitter (\<open>step\<close> of \<open>splitter.rs\<close> and what it calls) over the
  whole document: each operation leaves the scanner's part of the state alone (\<open>scan_part\<close>,
  collection \<open>keeps\<close>), the scanner leaves the state machine's part alone (\<open>machine\<close>), and
  each operation does the same to \<open>whole S s\<close> as to \<open>s\<close> (collection \<open>commutes\<close>). Together
  with \<open>Splitter_Markup\<close> this gives \<open>step_refines\<close>.
\<close>

text \<open>The part of the state the scanner owns; the state machine leaves it alone.\<close>

definition scan_part :: "splitter \<Rightarrow> read_result list \<times> bytes \<times> nat \<times> nat \<times> bool \<times> nat \<times> splitter_options" where
  "scan_part s = (sp_reader s, sp_buf s, sp_pos s, sp_base s, sp_eof s, sp_source s, sp_options s)"

lemma scan_part_eqD:
  assumes "scan_part t = scan_part s"
  shows "sp_reader t = sp_reader s" "sp_buf t = sp_buf s" "sp_pos t = sp_pos s"
    "sp_base t = sp_base s" "sp_eof t = sp_eof s" "sp_source t = sp_source s" "sp_options t = sp_options s"
  using assms by (simp_all add: scan_part_def)

named_theorems keeps \<open>what an operation of the state machine leaves alone\<close>
named_theorems commutes \<open>an operation of the state machine over the whole document\<close>

lemma flush_chunk_keeps [keeps]:
  "scan_part (flush_chunk s) = scan_part s" "sp_mode (flush_chunk s) = sp_mode s"
  "sp_root_candidate (flush_chunk s) = sp_root_candidate s"
  by (simp_all add: flush_chunk_def scan_part_def)

lemma flush_chunk_commutes [commutes]: "flush_chunk (whole S s) = whole S (flush_chunk s)"
  by (simp add: flush_chunk_def whole_def)

lemma current_context_keeps [keeps]:
  "scan_part (snd (current_context s)) = scan_part s" "sp_mode (snd (current_context s)) = sp_mode s"
  "sp_root_candidate (snd (current_context s)) = sp_root_candidate s"
  by (simp_all add: current_context_def scan_part_def Let_def)

lemma current_context_commutes [commutes]:
  "current_context (whole S s) = (fst (current_context s), whole S (snd (current_context s)))"
  by (simp add: current_context_def whole_def Let_def)

lemma collection_bounded_by_commutes [commutes]:
  "collection_bounded_by (whole S s) = collection_bounded_by s"
  by (simp add: collection_bounded_by_def)

lemma begin_feature_keeps [keeps]:
  "scan_part (begin_feature start s) = scan_part s" "sp_mode (begin_feature start s) = sp_mode s"
  "sp_root_candidate (begin_feature start s) = sp_root_candidate s"
  using flush_chunk_keeps [of "snd (current_context s)"] current_context_keeps [of s]
  by (auto simp: begin_feature_def Let_def scan_part_def split: prod.splits)

lemma begin_feature_commutes [commutes]: "begin_feature start (whole S s) = whole S (begin_feature start s)"
proof -
  obtain c t where c: "current_context s = (c, t)" by (cases "current_context s")
  show ?thesis
    by (simp add: begin_feature_def c commutes Let_def) (simp add: whole_def)?
qed

lemma map_top_keeps [keeps]:
  "scan_part (map_top f s) = scan_part s" "sp_mode (map_top f s) = sp_mode s"
  "sp_root_candidate (map_top f s) = sp_root_candidate s"
  by (simp_all add: map_top_def scan_part_def)

lemma map_top_commutes [commutes]: "map_top f (whole S s) = whole S (map_top f s)"
  by (simp add: map_top_def whole_def)

lemma enter_feature_keeps [keeps]:
  "scan_part (enter_feature r s) = scan_part s" "sp_mode (enter_feature r s) = sp_mode s"
  "sp_root_candidate (enter_feature r s) = sp_root_candidate s"
  by (simp_all add: enter_feature_def scan_part_def)

lemma enter_feature_commutes [commutes]: "enter_feature r (whole S s) = whole S (enter_feature r s)"
  by (simp add: enter_feature_def whole_def)

lemma undo_declarations_keeps [keeps]:
  "scan_part (undo_declarations d b s) = scan_part s" "sp_mode (undo_declarations d b s) = sp_mode s"
  "sp_root_candidate (undo_declarations d b s) = sp_root_candidate s"
  by (simp_all add: undo_declarations_def scan_part_def)

lemma undo_declarations_commutes [commutes]:
  "undo_declarations d b (whole S s) = whole S (undo_declarations d b s)"
  by (simp add: undo_declarations_def whole_def)

lemma push_declarations_keeps [keeps]:
  "scan_part (push_declarations x as s) = scan_part s" "sp_mode (push_declarations x as s) = sp_mode s"
  "sp_root_candidate (push_declarations x as s) = sp_root_candidate s"
  by (simp_all add: push_declarations_def scan_part_def Let_def)

lemma push_declarations_commutes [commutes]:
  "push_declarations x as (whole S s) = whole S (push_declarations x as s)"
  by (simp add: push_declarations_def whole_def Let_def)

lemma resolve_element_keeps [keeps]:
  "scan_part (snd (resolve_element raw s)) = scan_part s" "sp_mode (snd (resolve_element raw s)) = sp_mode s"
  "sp_root_candidate (snd (resolve_element raw s)) = sp_root_candidate s"
  by (simp_all add: resolve_element_def scan_part_def Let_def split: option.splits)

lemma resolve_element_commutes [commutes]:
  "resolve_element raw (whole S s) = (fst (resolve_element raw s), whole S (snd (resolve_element raw s)))"
  by (simp add: resolve_element_def whole_def Let_def split: option.splits)

lemma read_header_keeps [keeps]:
  "scan_part (read_header x r as b s) = scan_part s" "sp_mode (read_header x r as b s) = sp_mode s"
  "sp_root_candidate (read_header x r as b s) = sp_root_candidate s"
  by (simp_all add: read_header_def scan_part_def Let_def split: prod.splits)

lemma read_header_commutes [commutes]:
  "read_header x r as b (whole S s) = whole S (read_header x r as b s)"
  by (simp add: read_header_def whole_def Let_def split: prod.splits)

text \<open>Copying from the buffer is copying from the document.\<close>

definition in_doc :: "bytes \<Rightarrow> splitter \<Rightarrow> bool" where
  "in_doc S s \<longleftrightarrow> sp_base s \<le> length S \<and> drop (sp_base s) S = sp_buf s @ pending s"

lemma in_step_doc: "in_step S s \<Longrightarrow> in_doc S s"
  by (simp add: in_step_def in_doc_def)

lemma in_doc_cong: "scan_part t = scan_part s \<Longrightarrow> in_doc S t = in_doc S s"
  unfolding in_doc_def pending_def by (simp add: scan_part_def)

lemma in_doc_slice:
  assumes "in_doc S s" "b \<le> length (sp_buf s)"
  shows "slice (sp_base s + a) (sp_base s + b) S = slice a b (sp_buf s)"
proof -
  have d: "drop (sp_base s) S = sp_buf s @ pending s" using assms(1) by (simp add: in_doc_def)
  have "slice (sp_base s + a) (sp_base s + b) S = slice a b (drop (sp_base s) S)"
    by (simp add: slice_drop)
  also have "\<dots> = slice a b (sp_buf s)"
    unfolding d by (rule slice_append_left [OF assms(2)])
  finally show ?thesis .
qed

lemma whole_copy:
  assumes "in_doc S s" "sp_base s \<le> start" "end_at \<le> length (sp_buf s)"
  shows "slice start (sp_base s + end_at) S = slice (start - sp_base s) end_at (sp_buf s)"
  using in_doc_slice [OF assms(1,3), of "start - sp_base s"] assms(2) by simp

lemma end_feature_keeps [keeps]:
  "scan_part (end_feature e start end_at s) = scan_part s" "sp_mode (end_feature e start end_at s) = sp_mode s"
  "sp_root_candidate (end_feature e start end_at s) = sp_root_candidate s"
  by (simp_all add: end_feature_def Let_def keeps scan_part_def flush_chunk_def)

lemma end_feature_commutes:
  assumes "in_doc S s" "e \<longrightarrow> sp_base s \<le> start" "end_at \<le> length (sp_buf s)"
  shows "end_feature e start (sp_base s + end_at) (whole S s) = whole S (end_feature e start end_at s)"
proof (cases e)
  case True
  then have "slice start (sp_base s + end_at) S = slice (start - sp_base s) end_at (sp_buf s)"
    using whole_copy assms by simp
  with True show ?thesis
    by (simp add: end_feature_def Let_def flush_chunk_def whole_def)
next
  case False
  then show ?thesis by (simp add: end_feature_def)
qed

lemma end_bounded_by_keeps [keeps]:
  "scan_part (end_bounded_by start end_at s) = scan_part s" "sp_mode (end_bounded_by start end_at s) = sp_mode s"
  "sp_root_candidate (end_bounded_by start end_at s) = sp_root_candidate s"
proof -
  obtain c t where c: "current_context s = (c, t)" by (cases "current_context s")
  have t: "scan_part t = scan_part s" "sp_mode t = sp_mode s" "sp_root_candidate t = sp_root_candidate s"
    using current_context_keeps [of s] by (simp_all add: c)
  show "scan_part (end_bounded_by start end_at s) = scan_part s" "sp_mode (end_bounded_by start end_at s) = sp_mode s"
    "sp_root_candidate (end_bounded_by start end_at s) = sp_root_candidate s"
    using t by (simp_all add: end_bounded_by_def c Let_def map_top_def scan_part_def)
qed

lemma end_bounded_by_commutes:
  assumes "in_doc S s" "sp_base s \<le> start" "end_at \<le> length (sp_buf s)"
  shows "end_bounded_by start (sp_base s + end_at) (whole S s) = whole S (end_bounded_by start end_at s)"
proof -
  obtain c t where c: "current_context s = (c, t)" by (cases "current_context s")
  have "slice start (sp_base s + end_at) S = slice (start - sp_base s) end_at (sp_buf s)"
    using whole_copy assms by simp
  then show ?thesis
    by (simp add: end_bounded_by_def c current_context_commutes Let_def map_top_def commutes)
qed

lemma whole_updates [commutes]:
  "(whole S s)\<lparr>sp_mode := md\<rparr> = whole S (s\<lparr>sp_mode := md\<rparr>)"
  "(whole S s)\<lparr>sp_root_candidate := rc\<rparr> = whole S (s\<lparr>sp_root_candidate := rc\<rparr>)"
  "(whole S s)\<lparr>sp_root_feature := rf\<rparr> = whole S (s\<lparr>sp_root_feature := rf\<rparr>)"
  "(whole S s)\<lparr>sp_saw_container := sc\<rparr> = whole S (s\<lparr>sp_saw_container := sc\<rparr>)"
  "(whole S s)\<lparr>sp_referenced_members := rm\<rparr> = whole S (s\<lparr>sp_referenced_members := rm\<rparr>)"
  "(whole S s)\<lparr>sp_stack := st\<rparr> = whole S (s\<lparr>sp_stack := st\<rparr>)"
  "(whole S s)\<lparr>sp_finished := fi\<rparr> = whole S (s\<lparr>sp_finished := fi\<rparr>)"
  "(whole S s)\<lparr>sp_ready := rd\<rparr> = whole S (s\<lparr>sp_ready := rd\<rparr>)"
  by (simp_all add: whole_def)

lemma updates_keep [keeps]:
  "scan_part (s\<lparr>sp_mode := md\<rparr>) = scan_part s"
  "scan_part (s\<lparr>sp_root_candidate := rc\<rparr>) = scan_part s"
  "scan_part (s\<lparr>sp_root_feature := rf\<rparr>) = scan_part s"
  "scan_part (s\<lparr>sp_saw_container := sc\<rparr>) = scan_part s"
  "scan_part (s\<lparr>sp_referenced_members := rm\<rparr>) = scan_part s"
  "scan_part (s\<lparr>sp_stack := st\<rparr>) = scan_part s"
  "scan_part (s\<lparr>sp_finished := fi\<rparr>) = scan_part s"
  "scan_part (s\<lparr>sp_ready := rd\<rparr>) = scan_part s"
  by (simp_all add: scan_part_def)

lemma kept_sub:
  assumes "sp_mode t = sp_mode s \<or> (case sp_mode t of Feature _ _ st _ \<Rightarrow> st = start | _ \<Rightarrow> True)"
    and "sp_root_candidate t \<in> {sp_root_candidate s, None, Some start}"
  shows "kept t \<subseteq> insert start (kept s)"
  using assms by (auto simp: kept_def in_feature_def split: mode.splits bool.splits)

lemma end_root_keeps [keeps]:
  "scan_part (end_root end_at s) = scan_part s" "sp_mode (end_root end_at s) = Epilog"
  "sp_root_candidate (end_root end_at s) = None"
  by (simp_all add: end_root_def Let_def keeps split: option.splits)

lemma end_root_commutes:
  assumes "in_doc S s" "\<forall>start \<in> set_option (sp_root_candidate s). sp_base s \<le> start"
    and "end_at \<le> length (sp_buf s)"
  shows "end_root (sp_base s + end_at) (whole S s) = whole S (end_root end_at s)"
proof (cases "sp_root_candidate s")
  case None
  then show ?thesis by (simp add: end_root_def commutes)
next
  case (Some start)
  define s2 where "s2 = s\<lparr>sp_mode := Epilog, sp_root_candidate := None, sp_root_feature := True\<rparr>"
  define emit where "emit = (case (layers (sp_options s2), map_option hd_root (sp_header s2)) of
                        (Some ls, Some root) \<Rightarrow> layer_wanted ls root | _ \<Rightarrow> True)"
  define s3 where "s3 = (if emit then begin_feature start s2 else s2)"
  have k: "scan_part s3 = scan_part s" by (simp add: s3_def s2_def keeps)
  note k' = scan_part_eqD [OF k]
  have w3: "(if emit then begin_feature start (whole S s2) else whole S s2) = whole S s3"
    by (simp add: s3_def commutes)
  have l: "end_root end_at s = end_feature emit start end_at s3"
    by (simp add: end_root_def Some Let_def s2_def emit_def s3_def cong: option.case_cong)
  have r: "end_root (sp_base s + end_at) (whole S s) = end_feature emit start (sp_base s + end_at) (whole S s3)"
    unfolding w3 [symmetric] by (simp add: end_root_def Some Let_def s2_def emit_def commutes cong: option.case_cong)
  have "end_feature emit start (sp_base s3 + end_at) (whole S s3) = whole S (end_feature emit start end_at s3)"
    by (rule end_feature_commutes) (use assms Some in_doc_cong [OF k] k' in auto)
  then show ?thesis
    unfolding l r k'(4) .
qed

lemma start_feature_keeps:
  "scan_part (start_feature name raw m e start d b s) = scan_part s"
  "kept (start_feature name raw m e start d b s) \<subseteq> insert start (kept s)"
  by (simp_all add: start_feature_def Let_def keeps)
    (intro conjI impI kept_sub; simp add: keeps)

lemma start_feature_commutes:
  assumes "in_doc S s" "sp_base s \<le> start" "m_end m \<le> length (sp_buf s)"
  shows "start_feature name raw (shift_markup (sp_base s) m) e start d b (whole S s) =
         whole S (start_feature name raw m e start d b s)"
proof -
  define s1 where "s1 = map_top (\<lambda>f. f\<lparr>fr_has_child := True\<rparr>) (undo_declarations d b s)"
  define emit where "emit = (case layers (sp_options s1) of None \<Rightarrow> True | Some ls \<Rightarrow> layer_wanted ls name)"
  define s2 where "s2 = (if emit then begin_feature start s1 else s1)"
  have k: "scan_part s2 = scan_part s" by (simp add: s2_def s1_def keeps)
  note k' = scan_part_eqD [OF k]
  have w: "map_top (\<lambda>f. f\<lparr>fr_has_child := True\<rparr>) (undo_declarations d b (whole S s)) = whole S s1"
    by (simp add: s1_def commutes)
  have w2: "(if emit then begin_feature start (whole S s1) else whole S s1) = whole S s2"
    by (simp add: s2_def commutes)
  have ef: "end_feature emit start (sp_base s + m_end m) (whole S s2) = whole S (end_feature emit start (m_end m) s2)"
    unfolding k'(4) [symmetric]
    by (rule end_feature_commutes) (use assms in_doc_cong [OF k] k' in auto)
  have l: "start_feature name raw m e start d b s =
      (if e then end_feature emit start (m_end m) s2
       else (enter_feature raw s2)\<lparr>sp_mode := Feature 1 emit start False\<rparr>)"
    by (simp add: start_feature_def Let_def s1_def [symmetric] emit_def [symmetric] s2_def [symmetric])
  have r: "start_feature name raw (shift_markup (sp_base s) m) e start d b (whole S s) =
      (if e then end_feature emit start (sp_base s + m_end m) (whole S s2)
       else (enter_feature raw (whole S s2))\<lparr>sp_mode := Feature 1 emit start False\<rparr>)"
    unfolding start_feature_def Let_def w
    by (simp add: emit_def [symmetric] w2)
  show ?thesis
    unfolding l r by (simp add: ef commutes)
qed

lemma start_bounded_by_keeps:
  "scan_part (start_bounded_by raw e start d b s) = scan_part s"
  "kept (start_bounded_by raw e start d b s) \<subseteq> insert start (kept s)"
  by (simp_all add: start_bounded_by_def Let_def keeps)
    (intro conjI impI kept_sub; simp add: keeps)

lemma start_bounded_by_commutes [commutes]:
  "start_bounded_by raw e start d b (whole S s) = whole S (start_bounded_by raw e start d b s)"
  by (simp add: start_bounded_by_def Let_def commutes)

text \<open>\<open>start_container\<close> up to the empty-element case.\<close>

definition container_found :: "qname \<Rightarrow> nat \<Rightarrow> bool \<Rightarrow> splitter \<Rightarrow> splitter" where
  "container_found name start is_root s =
     map_top (\<lambda>f. f\<lparr>fr_has_child := True\<rparr>)
       (if (\<exists>rule \<in> set (member_rules (sp_options s)). rule_element rule = name) \<or> is_collection name
        then s\<lparr>sp_saw_container := True, sp_root_candidate := None\<rparr>
        else if is_root \<and> allow_single_feature_root (sp_options s)
        then s\<lparr>sp_root_candidate := Some start\<rparr> else s)"

lemma container_found_keeps:
  "scan_part (container_found name start is_root s) = scan_part s"
  "sp_mode (container_found name start is_root s) = sp_mode s"
  "sp_root_candidate (container_found name start is_root s) \<in> {sp_root_candidate s, None, Some start}"
  by (simp_all add: container_found_def keeps)

lemma container_found_commutes:
  "container_found name start is_root (whole S s) = whole S (container_found name start is_root s)"
  by (simp add: container_found_def commutes)

lemma start_container_eq:
  "start_container name raw m e start is_root d b s =
     (let members = (\<exists>rule \<in> set (member_rules (sp_options s)). rule_element rule = name);
          s2 = container_found name start is_root s
      in if e then
           let s3 = undo_declarations d b s2;
               s4 = (if members then s3\<lparr>sp_referenced_members := sp_referenced_members s3 + 1\<rparr>
                     else s3)
           in if is_root then end_root (m_end m) s4 else s4
         else s2\<lparr>sp_stack := sp_stack s2 @
                   [\<lparr>fr_raw_name = raw, fr_members = members, fr_has_child = False,
                     fr_bindings_before = b, fr_bounded_by = None\<rparr>]\<rparr>)"
  unfolding start_container_def container_found_def Let_def by (rule refl)

lemma start_container_keeps:
  "scan_part (start_container name raw m e start is_root d b s) = scan_part s"
  "kept (start_container name raw m e start is_root d b s) \<subseteq> insert start (kept s)"
  using container_found_keeps(3) [of name start is_root s]
  by (simp_all add: start_container_eq Let_def keeps container_found_keeps)
    (intro conjI impI kept_sub; simp add: keeps container_found_keeps)

lemma start_container_commutes:
  assumes "in_doc S s" "sp_base s \<le> start" "\<forall>k \<in> set_option (sp_root_candidate s). sp_base s \<le> k"
    and "m_end m \<le> length (sp_buf s)"
  shows "start_container name raw (shift_markup (sp_base s) m) e start is_root d b (whole S s) =
         whole S (start_container name raw m e start is_root d b s)"
proof -
  define s2 where "s2 = container_found name start is_root s"
  define s3 where "s3 = undo_declarations d b s2"
  define members where "members = (\<exists>rule \<in> set (member_rules (sp_options s)). rule_element rule = name)"
  define s4 where "s4 = (if members then s3\<lparr>sp_referenced_members := sp_referenced_members s3 + 1\<rparr> else s3)"
  have k: "scan_part s4 = scan_part s"
    by (simp add: s4_def s3_def s2_def keeps container_found_keeps)
  note k' = scan_part_eqD [OF k]
  have "sp_root_candidate s4 \<in> {sp_root_candidate s, None, Some start}"
    using container_found_keeps(3) [of name start is_root s]
    by (simp add: s4_def s3_def s2_def keeps)
  then have er: "end_root (sp_base s4 + m_end m) (whole S s4) = whole S (end_root (m_end m) s4)"
    by (intro end_root_commutes) (use assms in_doc_cong [OF k] k' in auto)
  have w4: "(if members then (whole S s3)\<lparr>sp_referenced_members := sp_referenced_members s3 + 1\<rparr>
             else whole S s3) = whole S s4"
    by (simp add: s4_def commutes)
  have w3: "undo_declarations d b (whole S s2) = whole S s3" by (simp add: s3_def commutes)
  have w2: "container_found name start is_root (whole S s) = whole S s2"
    by (simp add: s2_def container_found_commutes)
  show ?thesis
    unfolding start_container_eq Let_def w2 w3 whole_simps members_def [symmetric]
      s2_def [symmetric] s3_def [symmetric] w4 s4_def [symmetric] shift_markup_simps
    using er by (simp add: commutes k'(4))
qed

abbreviation on_state :: "('s \<Rightarrow> 't) \<Rightarrow> 'r \<times> 's \<Rightarrow> 'r \<times> 't" where
  "on_state f \<equiv> map_prod id f"

lemma xml_error_keeps:
  assumes "scan_part t = scan_part s"
  shows "xml_error (whole S t) (sp_base s + i) m = xml_error t i m"
  using scan_part_eqD [OF assms] by (simp add: xml_error_def location_at_def)

text \<open>What holds of the state before a step of the state machine on the markup \<open>m\<close>.\<close>

definition step_pre :: "bytes \<Rightarrow> markup \<Rightarrow> splitter \<Rightarrow> bool" where
  "step_pre S m s \<longleftrightarrow>
     in_doc S s \<and> m_end m \<le> length (sp_buf s) \<and> m_start m \<le> m_end m \<and> (\<forall>k \<in> kept s. sp_base s \<le> k)"

lemma step_pre_cong:
  assumes "step_pre S m s" "scan_part t = scan_part s" "kept t \<subseteq> kept s"
  shows "step_pre S m t"
  using assms in_doc_cong [OF assms(2)] scan_part_eqD [OF assms(2)] unfolding step_pre_def by auto

lemma kept_eqI:
  "sp_mode t = sp_mode s \<Longrightarrow> sp_root_candidate t = sp_root_candidate s \<Longrightarrow> kept t = kept s"
  by (simp add: kept_def)

text \<open>The state \<open>start_tag\<close> has when it has resolved the name, and what it does then.\<close>

definition tag_resolved ::
  "byte_ext \<Rightarrow> markup \<Rightarrow> qname \<Rightarrow> bytes \<Rightarrow> (bytes \<times> bytes) list \<Rightarrow> nat \<Rightarrow> bool \<Rightarrow> bool \<Rightarrow>
   splitter \<Rightarrow> splitter" where
  "tag_resolved x m name raw attributes before declared empty_tag s2 =
     (let start = sp_base s2 + m_start m;
          is_root = (sp_mode s2 = Prolog);
          s3 = (if is_root then (read_header x name attributes before s2)\<lparr>sp_mode := Outside\<rparr> else s2)
      in if (sp_stack s3 \<noteq> [] \<and> fr_members (last (sp_stack s3))) \<and> \<not> is_collection name
         then start_feature name raw m empty_tag start declared before s3
         else if \<not> is_root \<and> is_bounded_by name
         then start_bounded_by raw empty_tag start declared before s3
         else start_container name raw m empty_tag start is_root declared before s3)"

lemma start_tag_eq:
  "start_tag x m tag n empty_tag s =
     (if \<not> utf8_valid tag then (Inl (xml_error s (m_start m) Invalid_Utf8_In_Start_Tag), s)
      else
        case parse_attributes (drop n tag) of
          Inl message \<Rightarrow> (Inl (xml_error s (m_start m) (Bad_Attributes message)), s)
        | Inr attributes \<Rightarrow>
            let before = length (sp_bindings s);
                s1 = push_declarations x attributes s;
                declared = (before < length (sp_bindings s1));
                (resolved, s2) = resolve_element (take n tag) s1
            in case resolved of
                 None \<Rightarrow> (Inl (xml_error s2 (m_start m) (Undeclared_Prefix (take n tag))), s2)
               | Some name \<Rightarrow>
                   (Inr (), tag_resolved x m name (take n tag) attributes before declared empty_tag s2))"
  unfolding start_tag_def tag_resolved_def Let_def by (rule refl)

lemma tag_resolved_keeps:
  "scan_part (tag_resolved x m name raw attributes before declared e s) = scan_part s"
  "kept (tag_resolved x m name raw attributes before declared e s) \<subseteq> insert (sp_base s + m_start m) (kept s)"
proof -
  define s3 where "s3 = (if sp_mode s = Prolog then (read_header x name attributes before s)\<lparr>sp_mode := Outside\<rparr> else s)"
  have k: "scan_part s3 = scan_part s" by (simp add: s3_def keeps)
  have kk: "kept s3 = kept s" by (simp add: s3_def kept_def keeps)
  show "scan_part (tag_resolved x m name raw attributes before declared e s) = scan_part s"
    unfolding tag_resolved_def Let_def s3_def [symmetric]
    by (simp add: k start_feature_keeps start_bounded_by_keeps start_container_keeps)
  show "kept (tag_resolved x m name raw attributes before declared e s) \<subseteq> insert (sp_base s + m_start m) (kept s)"
    unfolding tag_resolved_def Let_def s3_def [symmetric] kk [symmetric]
    by (simp add: start_feature_keeps start_bounded_by_keeps start_container_keeps)
qed

lemma tag_resolved_commutes:
  assumes "step_pre S m s"
  shows "tag_resolved x (shift_markup (sp_base s) m) name raw attributes before declared e (whole S s) =
         whole S (tag_resolved x m name raw attributes before declared e s)"
proof -
  define s3 where "s3 = (if sp_mode s = Prolog then (read_header x name attributes before s)\<lparr>sp_mode := Outside\<rparr> else s)"
  have k: "scan_part s3 = scan_part s" by (simp add: s3_def keeps)
  note k' = scan_part_eqD [OF k]
  have kk: "kept s3 = kept s" by (simp add: s3_def kept_def keeps)
  have w3: "(if sp_mode s = Prolog then (read_header x name attributes before (whole S s))\<lparr>sp_mode := Outside\<rparr>
             else whole S s) = whole S s3"
    by (simp add: s3_def commutes)
  have pre: "in_doc S s3" "sp_base s3 \<le> sp_base s + m_start m" "m_end m \<le> length (sp_buf s3)"
    "\<forall>k \<in> set_option (sp_root_candidate s3). sp_base s3 \<le> k"
    using assms in_doc_cong [OF k] k' kk unfolding step_pre_def kept_def by auto
  show ?thesis
    unfolding tag_resolved_def Let_def whole_simps shift_markup_simps w3 s3_def [symmetric]
    using start_feature_commutes [OF pre(1-3)] start_container_commutes [OF pre(1,2,4,3)]
    by (simp add: start_bounded_by_commutes k'(4))
qed

lemma resolved_keeps:
  assumes "resolve_element raw (push_declarations x as s) = (r, s2)"
  shows "scan_part s2 = scan_part s" "kept s2 = kept s"
proof -
  have k: "scan_part s2 = scan_part (push_declarations x as s)"
    "sp_mode s2 = sp_mode (push_declarations x as s)"
    "sp_root_candidate s2 = sp_root_candidate (push_declarations x as s)"
    using resolve_element_keeps [of raw "push_declarations x as s"] by (simp_all add: assms)
  then show "scan_part s2 = scan_part s" by (simp add: keeps)
  from k(2,3) show "kept s2 = kept s" by (intro kept_eqI) (simp_all add: keeps)
qed

lemma start_tag_keeps:
  "scan_part (snd (start_tag x m tag n e s)) = scan_part s"
  "kept (snd (start_tag x m tag n e s)) \<subseteq> insert (sp_base s + m_start m) (kept s)"
proof -
  have "scan_part (snd (start_tag x m tag n e s)) = scan_part s \<and>
      kept (snd (start_tag x m tag n e s)) \<subseteq> insert (sp_base s + m_start m) (kept s)"
  proof (cases "utf8_valid tag")
    case False
    then show ?thesis by (auto simp: start_tag_eq)
  next
    case True
    show ?thesis
    proof (cases "parse_attributes (drop n tag)")
      case (Inl message)
      then show ?thesis using True by (auto simp: start_tag_eq)
    next
      case (Inr as)
      define s1 where "s1 = push_declarations x as s"
      obtain r s2 where r: "resolve_element (take n tag) s1 = (r, s2)" by (cases "resolve_element (take n tag) s1")
      have k: "scan_part s2 = scan_part s" "kept s2 = kept s"
        using resolved_keeps [OF r [unfolded s1_def]] by simp_all
      note tr = tag_resolved_keeps [of x m _ "take n tag" as _ _ e s2]
      show ?thesis
        using True Inr r k tr scan_part_eqD(4) [OF k(1)]
        by (auto simp: start_tag_eq Let_def s1_def [symmetric] split: option.splits)
    qed
  qed
  then show "scan_part (snd (start_tag x m tag n e s)) = scan_part s"
    "kept (snd (start_tag x m tag n e s)) \<subseteq> insert (sp_base s + m_start m) (kept s)" by simp_all
qed

lemma start_tag_commutes:
  assumes "step_pre S m s"
  shows "start_tag x (shift_markup (sp_base s) m) tag n e (whole S s) =
         on_state (whole S) (start_tag x m tag n e s)"
proof (cases "utf8_valid tag")
  case False
  then show ?thesis by (simp add: start_tag_eq)
next
  case True
  show ?thesis
  proof (cases "parse_attributes (drop n tag)")
    case (Inl message)
    then show ?thesis using True by (simp add: start_tag_eq)
  next
    case (Inr as)
    define s1 where "s1 = push_declarations x as s"
    obtain r s2 where r: "resolve_element (take n tag) s1 = (r, s2)" by (cases "resolve_element (take n tag) s1")
    have rw: "resolve_element (take n tag) (whole S s1) = (r, whole S s2)"
      by (simp add: resolve_element_commutes r)
    have k: "scan_part s2 = scan_part s" "kept s2 = kept s"
      using resolved_keeps [OF r [unfolded s1_def]] by simp_all
    have pre: "step_pre S m s2" by (rule step_pre_cong [OF assms k(1)]) (simp add: k(2))
    have b: "sp_base s2 = sp_base s" by (rule scan_part_eqD(4) [OF k(1)])
    show ?thesis
      using True Inr r rw tag_resolved_commutes [OF pre, of x] xml_error_keeps [OF k(1)]
      by (simp add: start_tag_eq Let_def push_declarations_commutes s1_def [symmetric] b split: option.splits)
  qed
qed

lemma end_outside_keeps:
  "scan_part (snd (end_outside m s)) = scan_part s" "kept (snd (end_outside m s)) \<subseteq> kept s"
  by (simp_all add: end_outside_def Let_def keeps)
    (auto simp: kept_def keeps)

lemma end_outside_commutes:
  assumes "step_pre S m s" "m_start m + 3 \<le> m_end m"
  shows "end_outside (shift_markup (sp_base s) m) (whole S s) = on_state (whole S) (end_outside m s)"
proof -
  have sl: "slice (sp_base s + m_start m + 2) (sp_base s + m_end m - 1) S =
      slice (m_start m + 2) (m_end m - 1) (sp_buf s)"
  proof -
    have "m_end m - 1 \<le> length (sp_buf s)" "in_doc S s" using assms by (auto simp: step_pre_def)
    then show ?thesis
      using in_doc_slice [of S s "m_end m - 1" "m_start m + 2"] assms(2) by (simp add: add.assoc)
  qed
  define f where "f = last (sp_stack s)"
  define s1 where "s1 = s\<lparr>sp_stack := butlast (sp_stack s)\<rparr>"
  define s2 where "s2 = (if fr_members f \<and> \<not> fr_has_child f
      then s1\<lparr>sp_referenced_members := sp_referenced_members s1 + 1\<rparr> else s1)"
  define s3 where "s3 = undo_declarations (fr_bindings_before f < length (sp_bindings s2)) (fr_bindings_before f) s2"
  have k: "scan_part s1 = scan_part s" "scan_part s3 = scan_part s" "kept s3 = kept s"
    by (auto simp: s3_def s2_def s1_def keeps kept_def)
  have w1: "(whole S s)\<lparr>sp_stack := butlast (sp_stack s)\<rparr> = whole S s1" by (simp add: s1_def commutes)
  have w2: "(if fr_members f \<and> \<not> fr_has_child f
      then (whole S s1)\<lparr>sp_referenced_members := sp_referenced_members s1 + 1\<rparr> else whole S s1) = whole S s2"
    by (simp add: s2_def commutes)
  have w3: "undo_declarations (fr_bindings_before f < length (sp_bindings s2)) (fr_bindings_before f) (whole S s2) = whole S s3"
    by (simp add: s3_def commutes)
  have pre: "step_pre S m s3" by (rule step_pre_cong [OF assms(1) k(2)]) (simp add: k(3))
  have er: "end_root (sp_base s + m_end m) (whole S s3) = whole S (end_root (m_end m) s3)"
    unfolding scan_part_eqD(4) [OF k(2), symmetric]
    by (rule end_root_commutes) (use pre in \<open>auto simp: step_pre_def kept_def\<close>)
  show ?thesis
    unfolding end_outside_def Let_def whole_simps shift_markup_simps sl f_def [symmetric]
      w1 s1_def [symmetric] w2 s2_def [symmetric] w3 s3_def [symmetric]
    using er xml_error_keeps [OF k(1)] xml_error_keeps [OF refl, of S s] by simp
qed

lemma start_outside_keeps:
  "scan_part (snd (start_outside x m n e s)) = scan_part s"
  "kept (snd (start_outside x m n e s)) \<subseteq> insert (sp_base s + m_start m) (kept s)"
  by (simp_all add: start_outside_def Let_def start_tag_keeps)

lemma start_outside_commutes:
  assumes "step_pre S m s" "m_start m < n" "n \<le> (if e then m_end m - 2 else m_end m - 1)"
  shows "start_outside x (shift_markup (sp_base s) m) (sp_base s + n) e (whole S s) =
         on_state (whole S) (start_outside x m n e s)"
proof -
  let ?t = "if e then m_end m - 2 else m_end m - 1"
  have t: "(if e then sp_base s + m_end m - 2 else sp_base s + m_end m - 1) = sp_base s + ?t"
    using assms(2,3) by (auto split: if_splits)
  have sl: "slice (sp_base s + m_start m + 1) (sp_base s + ?t) S = slice (m_start m + 1) ?t (sp_buf s)"
    using in_doc_slice [of S s ?t "m_start m + 1"] assms(1)
    by (auto simp: step_pre_def add.assoc)
  have n: "sp_base s + n - (sp_base s + m_start m) - 1 = n - m_start m - 1" by simp
  show ?thesis
    unfolding start_outside_def Let_def whole_simps shift_markup_simps t sl n
    by (rule start_tag_commutes [OF assms(1)])
qed

lemma step_feature_keeps:
  assumes "sp_mode s = Feature d e start b"
  shows "scan_part (step_feature m d e start b s) = scan_part s"
    "kept (step_feature m d e start b s) \<subseteq> kept s"
  using assms
  by (simp_all add: step_feature_def Let_def keeps split: kind.splits)
    (auto simp: kept_def keeps split: bool.splits)

lemma step_feature_commutes:
  assumes "step_pre S m s" "sp_mode s = Feature d e start b" "b \<longrightarrow> e"
  shows "step_feature (shift_markup (sp_base s) m) d e start b (whole S s) =
         whole S (step_feature m d e start b s)"
proof -
  let ?t = "s\<lparr>sp_mode := Outside\<rparr>"
  have "e \<longrightarrow> sp_base s \<le> start" using assms by (auto simp: step_pre_def kept_def)
  then have "end_feature e start (sp_base s + m_end m) (whole S ?t) = whole S (end_feature e start (m_end m) ?t)"
    "b \<longrightarrow> end_bounded_by start (sp_base s + m_end m) (whole S ?t) = whole S (end_bounded_by start (m_end m) ?t)"
    using assms end_feature_commutes [of S ?t e start "m_end m"] end_bounded_by_commutes [of S ?t start "m_end m"]
      in_doc_cong [of ?t s S] updates_keep(1) [of Outside s]
    by (auto simp: step_pre_def)
  then show ?thesis
    by (cases "m_kind m") (auto simp: step_feature_def commutes Let_def)
qed

lemma step_markup_keeps:
  "scan_part (snd (step_markup x m s)) = scan_part s"
  "kept (snd (step_markup x m s)) \<subseteq> insert (sp_base s + m_start m) (kept s)"
proof -
  note k = step_feature_keeps [of s] end_outside_keeps [of m s] start_outside_keeps [of x m _ _ s]
  show "scan_part (snd (step_markup x m s)) = scan_part s"
    using k(1,3,5) by (auto simp: step_markup_def split: mode.splits kind.splits)
  show "kept (snd (step_markup x m s)) \<subseteq> insert (sp_base s + m_start m) (kept s)"
    using k(2,4,6) by (simp add: step_markup_def subset_insertI2 subset_insertI split: mode.splits kind.splits)
qed

text \<open>A \<open>boundedBy\<close> is always copied.\<close>

definition mode_ok :: "mode \<Rightarrow> bool" where
  "mode_ok md \<longleftrightarrow> (case md of Feature depth emit _ bounded_by \<Rightarrow> 1 \<le> depth \<and> (bounded_by \<longrightarrow> emit) | _ \<Rightarrow> True)"

lemma step_markup_commutes:
  assumes "step_pre S m s" "markup_ok S (shift_markup (sp_base s) m)" "mode_ok (sp_mode s)"
  shows "step_markup x (shift_markup (sp_base s) m) (whole S s) = on_state (whole S) (step_markup x m s)"
proof (cases "m_kind m")
  case (KStart n e)
  have n: "m_start m < n" "n \<le> (if e then m_end m - 2 else m_end m - 1)"
    using assms(2) unfolding markup_ok_def by (auto simp: KStart split: if_splits)
  show ?thesis
    using step_feature_commutes [OF assms(1)] start_outside_commutes [OF assms(1) n] assms(3)
      xml_error_keeps [OF refl, of S s]
    by (auto simp: step_markup_def KStart mode_ok_def split: mode.splits)
next
  case KEnd
  have n: "m_start m + 3 \<le> m_end m" using assms(2) by (simp add: markup_ok_def KEnd)
  show ?thesis
    using step_feature_commutes [OF assms(1)] end_outside_commutes [OF assms(1) n] assms(3)
      xml_error_keeps [OF refl, of S s]
    by (auto simp: step_markup_def KEnd mode_ok_def split: mode.splits)
next
  case KOther
  show ?thesis
    using step_feature_commutes [OF assms(1)] assms(3)
    by (auto simp: step_markup_def KOther mode_ok_def split: mode.splits)
qed

lemma in_step_keeps:
  assumes "in_step S s" "scan_part t = scan_part s"
    and "\<forall>k \<in> kept t. sp_base s \<le> k \<and> k \<le> sp_base s + sp_pos s"
  shows "in_step S t"
proof -
  have "in_doc S t" using in_doc_cong [OF assms(2)] in_step_doc [OF assms(1)] by simp
  then show ?thesis
    using assms scan_part_eqD [OF assms(2)] unfolding in_step_def in_doc_def by simp
qed

lemma start_tag_mode:
  assumes "mode_ok (sp_mode s)"
  shows "mode_ok (sp_mode (snd (start_tag x m tag n e s)))"
proof (cases "utf8_valid tag \<and> (\<exists>as. parse_attributes (drop n tag) = Inr as)")
  case False
  then show ?thesis using assms by (auto simp: start_tag_eq split: sum.splits)
next
  case True
  then obtain as where as: "parse_attributes (drop n tag) = Inr as" by blast
  obtain r s2 where r: "resolve_element (take n tag) (push_declarations x as s) = (r, s2)"
    by (cases "resolve_element (take n tag) (push_declarations x as s)")
  have "sp_mode s2 = sp_mode s"
    using resolve_element_keeps(2) [of "take n tag" "push_declarations x as s"]
    by (simp add: r) (simp add: keeps)
  then have ok: "mode_ok (sp_mode s2)" using assms by simp
  have "mode_ok (sp_mode (tag_resolved x m name raw attributes before declared e s2))"
    for name raw attributes before declared
    using ok by (auto simp: tag_resolved_def Let_def start_feature_def start_bounded_by_def
        start_container_eq keeps container_found_keeps mode_ok_def)
  then show ?thesis
    using True as r ok by (auto simp: start_tag_eq Let_def split: option.splits)
qed

lemma step_markup_mode:
  assumes "mode_ok (sp_mode s)"
  shows "mode_ok (sp_mode (snd (step_markup x m s)))"
proof -
  have "mode_ok (sp_mode (step_feature m d e st b s))" if "sp_mode s = Feature d e st b" for d e st b
    using assms that by (auto simp: step_feature_def mode_ok_def Let_def keeps split: kind.splits)
  moreover have "mode_ok (sp_mode (snd (start_outside x m n e s)))" for n e
    by (simp add: start_outside_def Let_def start_tag_mode assms)
  moreover have "mode_ok (sp_mode (snd (end_outside m s)))"
    using assms by (auto simp: end_outside_def Let_def keeps) (auto simp: mode_ok_def)
  ultimately show ?thesis
    using assms by (simp add: step_markup_def mode_ok_def [of Epilog] mode_ok_def [of Prolog]
      mode_ok_def [of Outside] split: mode.splits kind.splits)
qed

lemma finish_keeps:
  "scan_part (snd (finish s)) = scan_part s" "kept (snd (finish s)) = kept s"
  "sp_mode (snd (finish s)) = sp_mode s" "sp_finished (snd (finish s))"
  by (auto simp: finish_def Let_def keeps kept_def) (auto simp: flush_chunk_def)

text \<open>The states the splitter goes through on the document \<open>S\<close>.\<close>

definition running :: "bytes \<Rightarrow> splitter \<Rightarrow> bool" where
  "running S s \<longleftrightarrow> in_step S s \<and> mode_ok (sp_mode s)"

text \<open>The part of the state the state machine owns; the scanner leaves it alone.\<close>

definition machine :: "splitter \<Rightarrow> splitter" where
  "machine s = s\<lparr>sp_reader := [], sp_buf := [], sp_pos := 0, sp_base := 0, sp_eof := False\<rparr>"

lemma machine_eq_mode: "machine t = machine s \<Longrightarrow> sp_mode t = sp_mode s"
  by (drule arg_cong [where f = sp_mode]) (simp add: machine_def)

lemma machine_pos [simp]: "machine (s\<lparr>sp_pos := p\<rparr>) = machine s" "machine (advance k s) = machine s"
  by (simp_all add: machine_def advance_def)

lemma machine_fill [simp]: "machine (snd (fill s)) = machine s"
  by (auto simp: fill_def Let_def compact_def machine_def split: prod.splits sum.splits)

lemma machine_and_then:
  "machine (snd r) = machine s \<Longrightarrow> (\<And>a t. r = (Inr a, t) \<Longrightarrow> machine (snd (f a t)) = machine t) \<Longrightarrow>
     machine (snd (and_then r f)) = machine s"
  by (cases r; cases "fst r") auto

lemma machine_need: "machine (snd (need n s)) = machine s"
proof (induction n s rule: need.induct)
  case (1 n s)
  then show ?case
    by (subst need.simps) (auto intro!: machine_and_then)
qed

lemma machine_find_from: "machine (snd (find_from x p k s)) = machine s"
proof (induction x p k s rule: find_from.induct)
  case (1 x p k s)
  then show ?case
    by (subst find_from.simps) (auto intro!: machine_and_then simp: Let_def split: option.splits)
qed

lemma machine_scan_name: "machine (snd (scan_name i s)) = machine s"
proof (induction i s rule: scan_name.induct)
  case (1 i s)
  then show ?case
    by (subst scan_name.simps) (auto intro!: machine_and_then simp: Let_def split: option.splits)
qed

lemma machine_scan_close: "machine (snd (scan_close x q i s)) = machine s"
proof (induction x q i s rule: scan_close.induct)
  case (1 x q i s)
  then show ?case
    by (subst scan_close_unfold) (auto intro!: machine_and_then simp: Let_def split: sum.splits)
qed

lemma machine_skip_text: "machine (snd (skip_text x s)) = machine s"
proof (induction x s rule: skip_text.induct)
  case (1 x s)
  then show ?case
    by (subst skip_text.simps)
      (auto intro!: machine_and_then simp: Let_def machine_fill [of "s\<lparr>sp_pos := p\<rparr>" for p, simplified] split: option.splits)
qed

lemma machine_scan_markup: "machine (snd (scan_markup x s)) = machine s"
  unfolding scan_markup_def scan_declaration_def scan_start_tag_def
  by (auto intro!: machine_and_then machine_need machine_find_from machine_scan_name machine_scan_close
      simp: Let_def)

lemma machine_next_markup: "machine (snd (next_markup x s)) = machine s"
  unfolding next_markup_def
  by (auto intro!: machine_and_then machine_skip_text machine_scan_markup simp: Let_def)

lemma machine_next_feature_markup: "machine (snd (next_feature_markup x s)) = machine s"
proof (induction x s rule: next_feature_markup.induct)
  case (1 x s)
  show ?case
  proof (cases "memchr x (CHR ''<'') (drop (sp_pos s) (sp_buf s))")
    case None
    show ?thesis
      unfolding next_feature_markup_unfold [of x s] None option.case
      by (rule machine_and_then) (auto intro: "1.IH"(1) [OF None] simp: machine_fill [of "s\<lparr>sp_pos := p\<rparr>" for p, simplified])
  next
    case (Some i)
    have n2: "machine (snd (need 2 (advance i s))) = machine s" using machine_need [of 2 "advance i s"] by simp
    show ?thesis
      unfolding next_feature_markup_unfold [of x s] Some option.case feature_markup_at_def
    proof (rule machine_and_then [OF n2], goal_cases)
      case (1 u t)
      then have nt: "need 2 (s\<lparr>sp_pos := sp_pos s + i\<rparr>) = (Inr u, t)" by (simp add: advance_def)
      show ?case
        unfolding Let_def
        using "1.IH"(2) [OF Some nt refl _ refl]
        by (auto intro!: machine_and_then machine_next_markup machine_need simp: advance_def)
    qed
  qed
qed

lemma step_refines:
  assumes "ext_ok x" "running S s"
  shows "refines S (\<lambda>t _ _. mode_ok (sp_mode t)) (step x s) (step x (whole S s))"
proof -
  have s: "in_step S s" "mode_ok (sp_mode s)" using assms(2) by (simp_all add: running_def)
  have "refines S (\<lambda>t a b. rel_markup S t a b \<and> mode_ok (sp_mode t))
      (if in_feature (sp_mode s) then next_feature_markup x s else next_markup x s)
      (if in_feature (sp_mode s) then next_feature_markup x (whole S s) else next_markup x (whole S s))"
  proof -
    have "mode_ok (sp_mode (snd (next_markup x s)))" "mode_ok (sp_mode (snd (next_feature_markup x s)))"
      using machine_eq_mode [OF machine_next_markup [of x s]] s(2)
        machine_eq_mode [OF machine_next_feature_markup [of x s]] by simp_all
    then show ?thesis
      using next_markup_refines [OF assms(1) s(1)] next_feature_markup_refines [OF assms(1) s(1)]
      by (auto simp: refines_def split: sum.splits)
  qed
  then show ?thesis
    unfolding step_def whole_simps
  proof (rule refines_and_then, goal_cases)
    case (1 a b t)
    then have t: "in_step S t" "rel_markup S t a b" "mode_ok (sp_mode t)" by simp_all
    show ?case
    proof (cases a)
      case None
      then have n: "b = None" "sp_base t + length (sp_buf t) = length S"
        using t(2) by (simp_all add: rel_markup_def)
      have e: "xml_error (whole S (t\<lparr>sp_finished := True\<rparr>)) (length S) msg =
          xml_error (t\<lparr>sp_finished := True\<rparr>) (length (sp_buf t)) msg" for msg
        using n(2) by (simp add: xml_error_def location_at_def)
      have w: "finish (whole S t) = on_state (whole S) (finish t)"
        by (simp add: finish_def Let_def e commutes)
      have "in_step S (snd (finish t))"
        by (rule in_step_keeps [OF t(1) finish_keeps(1)])
          (use t(1) in \<open>simp add: finish_keeps in_step_def\<close>)
      then show ?thesis
        using t(3) finish_keeps(3) [of t] unfolding None n(1) option.case w refines_def
        by (simp split: sum.splits)
    next
      case (Some m)
      have b: "b = Some (shift_markup (sp_base t) m)" and m: "m_end m = sp_pos t"
        "markup_ok S (shift_markup (sp_base t) m)"
        using t(2) by (simp_all add: rel_markup_def Some)
      have pre: "step_pre S m t"
        using in_step_doc [OF t(1)] t(1) m unfolding step_pre_def in_step_def markup_ok_def by auto
      have w: "step_markup x (shift_markup (sp_base t) m) (whole S t) = on_state (whole S) (step_markup x m t)"
        by (rule step_markup_commutes [OF pre m(2) t(3)])
      have "in_step S (snd (step_markup x m t))"
        using t(1) pre m(1) step_markup_keeps(2) [of x m t]
        by (intro in_step_keeps [OF t(1) step_markup_keeps(1)])
          (auto simp: in_step_def step_pre_def)
      then show ?thesis
        using step_markup_mode [OF t(3), of x m] unfolding Some b option.case w refines_def
        by (simp split: sum.splits)
    qed
  qed
qed

end
