(* ===== verification/Splitter_Run.thy ===== *)
theory Splitter_Run
  imports Splitter_Machine
begin

text \<open>
  The iterator of the splitter (\<open>header\<close> and \<open>Iterator::next\<close> of \<open>splitter.rs\<close>) and the
  theorem that what it delivers depends on the bytes of the document alone: not on how the reader
  cuts them into blocks, nor on the reads that were interrupted. \<open>next_chunk\<close>,
  \<open>read_to_header\<close> and \<open>split_all\<close> are total: every step that does not finish the iterator
  makes \<open>input_left\<close> smaller.
\<close>

subsection \<open>The iterator\<close>

lemma step_left:
  assumes "step x s = (Inr u, t)" "\<not> sp_finished t"
  shows "input_left t < input_left s"
proof -
  obtain found s1 where f: "(if in_feature (sp_mode s) then next_feature_markup x s else next_markup x s) = (Inr found, s1)"
      "(case found of None \<Rightarrow> finish s1 | Some m \<Rightarrow> step_markup x m s1) = (Inr u, t)"
    using assms(1) by (auto simp: step_def and_then_Inr)
  show ?thesis
  proof (cases found)
    case None
    then show ?thesis using f(2) assms(2) finish_keeps(4) [of s1] by simp
  next
    case (Some m)
    then have "input_left s1 < input_left s"
      using f(1) next_markup_left next_feature_markup_left by (auto split: if_splits)
    moreover have "scan_part t = scan_part s1"
      using f(2) step_markup_keeps(1) [of x m s1] by (simp add: Some)
    ultimately show ?thesis using scan_part_eqD unfolding input_left_def by metis
  qed
qed

text \<open>\<open>next()\<close>: \<open>None\<close> is \<open>Inr None\<close>, \<open>Some(Ok(c))\<close> is \<open>Inr (Some c)\<close>, \<open>Some(Err(e))\<close>
  is \<open>Inl e\<close>.\<close>

function next_chunk :: "byte_ext \<Rightarrow> splitter \<Rightarrow> (error, feature_chunk option, splitter) outcome" where
  "next_chunk x s =
     (case sp_ready s of
        c # cs \<Rightarrow> (Inr (Some c), s\<lparr>sp_ready := cs\<rparr>)
      | [] \<Rightarrow>
          if sp_finished s then (Inr None, s)
          else (case step x s of
                  (Inl e, s) \<Rightarrow> (Inl e, s\<lparr>sp_finished := True, sp_ready := []\<rparr>)
                | (Inr _, s) \<Rightarrow> next_chunk x s))"
  by pat_completeness auto
termination
proof (relation "measure (\<lambda>(x, s). if sp_finished s then 0 else Suc (input_left s))", goal_cases)
  case 1
  show ?case by simp
next
  case (2 x s r t u)
  then show ?case using step_left [of x s u t] by auto
qed

declare next_chunk.simps [simp del]

text \<open>\<open>header()\<close>.\<close>

function read_to_header :: "byte_ext \<Rightarrow> splitter \<Rightarrow> (error, document_header, splitter) outcome" where
  "read_to_header x s =
     (case sp_header s of
        Some h \<Rightarrow> (Inr h, s)
      | None \<Rightarrow>
          if sp_finished s then (Inl (No_Features (sp_source s)), s)
          else (case step x s of
                  (Inl e, s) \<Rightarrow> (Inl e, s\<lparr>sp_finished := True\<rparr>)
                | (Inr _, s) \<Rightarrow> read_to_header x s))"
  by pat_completeness auto
termination
proof (relation "measure (\<lambda>(x, s). if sp_finished s then 0 else Suc (input_left s))", goal_cases)
  case 1
  show ?case by simp
next
  case (2 x s r t u)
  then show ?case using step_left [of x s u t] by auto
qed

declare read_to_header.simps [simp del]

definition steps_left :: "splitter \<Rightarrow> nat" where
  "steps_left s = (if sp_finished s then 0 else Suc (input_left s))"

lemma next_chunk_left:
  "next_chunk x s = (Inr (Some c), t) \<Longrightarrow>
     steps_left t < steps_left s \<or> steps_left t = steps_left s \<and> length (sp_ready t) < length (sp_ready s)"
proof (induction x s rule: next_chunk.induct)
  case (1 x s)
  show ?case
  proof (cases "sp_ready s")
    case (Cons d cs)
    then show ?thesis
      using "1.prems" by (subst (asm) next_chunk.simps) (auto simp: steps_left_def input_left_def)
  next
    case Nil
    have nf: "\<not> sp_finished s"
      using "1.prems" Nil by (subst (asm) next_chunk.simps) (auto split: if_splits)
    obtain u s1 where s1: "step x s = (Inr u, s1)" "next_chunk x s1 = (Inr (Some c), t)"
      using "1.prems" Nil nf
      by (subst (asm) next_chunk.simps) (auto split: prod.splits sum.splits)
    have "steps_left s1 < steps_left s"
      using nf step_left [OF s1(1)] by (auto simp: steps_left_def)
    then show ?thesis using "1.IH" [OF Nil nf s1(1) [symmetric] refl s1(2)] by auto
  qed
qed

text \<open>What the iterator delivers until it is exhausted or fails, and the state after it
  (\<open>splitter.by_ref().collect()\<close>).\<close>

function split_all :: "byte_ext \<Rightarrow> splitter \<Rightarrow> (feature_chunk list \<times> error option) \<times> splitter" where
  "split_all x s =
     (case next_chunk x s of
        (Inl e, t) \<Rightarrow> (([], Some e), t)
      | (Inr None, t) \<Rightarrow> (([], None), t)
      | (Inr (Some c), t) \<Rightarrow>
          (case split_all x t of ((cs, e), u) \<Rightarrow> ((c # cs, e), u)))"
  by pat_completeness auto
termination
proof (relation "inv_image (less_than <*lex*> less_than) (\<lambda>(x, s). (steps_left s, length (sp_ready s)))", goal_cases)
  case 1
  show ?case by auto
next
  case (2 x s r t a c)
  then show ?case using next_chunk_left [of x s c t] by auto
qed

declare split_all.simps [simp del]

subsection \<open>The iterator over the whole document\<close>

lemma refines_running:
  assumes "running S s" "ext_ok x"
  shows "refines S (\<lambda>t _ _. running S t) (step x s) (step x (whole S s))"
  by (rule refines_mono_in_step [OF step_refines [OF assms(2,1)]]) (simp add: running_def)

lemma running_ready [simp]:
  "running S (s\<lparr>sp_ready := r\<rparr>) = running S s" "running S (s\<lparr>sp_finished := f\<rparr>) = running S s"
  "running S (s\<lparr>sp_finished := f, sp_ready := r\<rparr>) = running S s"
  by (simp_all add: running_def in_step_def kept_def pending_def)

definition run_rel :: "bytes \<Rightarrow> 'a \<times> splitter \<Rightarrow> 'a \<times> splitter \<Rightarrow> bool" where
  "run_rel S r w \<longleftrightarrow> fst w = fst r \<and> snd w = whole S (snd r)"

lemma step_running:
  assumes "running S s" "ext_ok x"
  shows "fst (step x (whole S s)) = fst (step x s) \<and> snd (step x (whole S s)) = whole S (snd (step x s))"
    and "fst (step x s) = Inr () \<Longrightarrow> running S (snd (step x s))"
  using refines_running [OF assms] unfolding refines_def by (auto split: sum.splits)

lemma next_chunk_run:
  assumes "running S s" "ext_ok x"
  shows "run_rel S (next_chunk x s) (next_chunk x (whole S s)) \<and>
         (\<forall>c. fst (next_chunk x s) = Inr (Some c) \<longrightarrow> running S (snd (next_chunk x s)))"
  using assms
proof (induction x s rule: next_chunk.induct)
  case (1 x s)
  show ?case
  proof (cases "sp_ready s")
    case (Cons d cs)
    then show ?thesis
      using "1.prems" by (simp add: next_chunk.simps [of x s] next_chunk.simps [of x "whole S s"] run_rel_def commutes)
  next
    case Nil
    show ?thesis
    proof (cases "sp_finished s")
      case True
      then show ?thesis
        using Nil by (simp add: next_chunk.simps [of x s] next_chunk.simps [of x "whole S s"] run_rel_def)
    next
      case False
      obtain r t where st: "step x s = (r, t)" by (cases "step x s")
      have w: "step x (whole S s) = (r, whole S t)"
        using step_running(1) [OF "1.prems"] by (cases "step x (whole S s)") (simp add: st)
      show ?thesis
      proof (cases r)
        case (Inl e)
        then show ?thesis
          using Nil False
          by (simp add: next_chunk.simps [of x s] next_chunk.simps [of x "whole S s"] st w run_rel_def commutes)
      next
        case (Inr u)
        have "running S t" using step_running(2) [OF "1.prems"] by (simp add: st Inr)
        from "1.IH" [OF Nil False st [symmetric, unfolded Inr] refl this "1.prems"(2)] show ?thesis
          using Nil False
          by (simp add: next_chunk.simps [of x s] next_chunk.simps [of x "whole S s"] st w Inr)
      qed
    qed
  qed
qed

lemma split_all_run:
  assumes "running S s" "ext_ok x"
  shows "run_rel S (split_all x s) (split_all x (whole S s))"
  using assms
proof (induction x s rule: split_all.induct)
  case (1 x s)
  obtain r t where n: "next_chunk x s = (r, t)" by (cases "next_chunk x s")
  have w: "next_chunk x (whole S s) = (r, whole S t)"
    using next_chunk_run [OF "1.prems"] by (cases "next_chunk x (whole S s)") (simp add: n run_rel_def)
  show ?case
  proof (cases "\<exists>c. r = Inr (Some c)")
    case True
    then obtain c where c: "r = Inr (Some c)" by blast
    have "running S t" using next_chunk_run [OF "1.prems"] by (simp add: n c)
    note IH = "1.IH" [OF n [symmetric, unfolded c] refl refl this "1.prems"(2)]
    obtain cs e u where t: "split_all x t = ((cs, e), u)" by (metis prod.exhaust)
    then have "split_all x (whole S t) = ((cs, e), whole S u)"
      using IH by (cases "split_all x (whole S t)") (simp add: run_rel_def)
    with t show ?thesis
      by (simp add: split_all.simps [of x s] split_all.simps [of x "whole S s"] n w c run_rel_def)
  next
    case False
    then show ?thesis
      by (auto simp: split_all.simps [of x s] split_all.simps [of x "whole S s"] n w run_rel_def
          split: sum.splits option.splits)
  qed
qed

lemma read_to_header_run:
  assumes "running S s" "ext_ok x"
  shows "run_rel S (read_to_header x s) (read_to_header x (whole S s))"
  using assms
proof (induction x s rule: read_to_header.induct)
  case (1 x s)
  show ?case
  proof (cases "sp_header s")
    case (Some h)
    then show ?thesis
      by (simp add: read_to_header.simps [of x s] read_to_header.simps [of x "whole S s"] run_rel_def)
  next
    case None
    show ?thesis
    proof (cases "sp_finished s")
      case True
      then show ?thesis
        using None by (simp add: read_to_header.simps [of x s] read_to_header.simps [of x "whole S s"] run_rel_def)
    next
      case False
      obtain r t where st: "step x s = (r, t)" by (cases "step x s")
      have w: "step x (whole S s) = (r, whole S t)"
        using step_running(1) [OF "1.prems"] by (cases "step x (whole S s)") (simp add: st)
      show ?thesis
      proof (cases r)
        case (Inl e)
        then show ?thesis
          using None False
          by (simp add: read_to_header.simps [of x s] read_to_header.simps [of x "whole S s"] st w run_rel_def commutes)
      next
        case (Inr u)
        have "running S t" using step_running(2) [OF "1.prems"] by (simp add: st Inr)
        from "1.IH" [OF None False st [symmetric, unfolded Inr] refl this "1.prems"(2)] show ?thesis
          using None False
          by (simp add: read_to_header.simps [of x s] read_to_header.simps [of x "whole S s"] st w Inr)
      qed
    qed
  qed
qed

lemma running_new:
  assumes "error_free r"
  shows "running (stream_of r) (new_splitter r source options)"
  using assms by (simp add: running_def in_step_def pending_def kept_def mode_ok_def new_splitter_def Let_def)

lemma whole_new:
  "whole S (new_splitter r source options) = whole S (new_splitter r' source options)"
  by (simp add: whole_def new_splitter_def Let_def)

text \<open>A concrete instance of the third-party functions.\<close>

definition std_ext :: byte_ext where
  "std_ext = \<lparr>memchr = \<lambda>b. first_index (\<lambda>c. c = b),
              memchr3 = \<lambda>a b c. first_index (\<lambda>d. d = a \<or> d = b \<or> d = c),
              memmem_find = \<lambda>h p. find_sub p h, xml_unescape = \<lambda>v. Some v\<rparr>"

lemma ext_ok_std: "ext_ok std_ext"
  by (simp add: ext_ok_def std_ext_def)


subsection \<open>A run on a concrete document\<close>

text \<open>The document \<open><a/>\<close> as a single feature: one step reads the root, the next ends the input.\<close>

definition single_root :: splitter_options where
  "single_root = default_options\<lparr>allow_single_feature_root := True, member_rules := []\<rparr>"

abbreviation splitter_a :: splitter where
  "splitter_a \<equiv> new_splitter [Read_Ok ''<a/>''] 0 single_root"

definition splitter_a_read :: splitter where
  "splitter_a_read = splitter_a\<lparr>sp_reader := [], sp_buf := ''<a/>'', sp_pos := 4, sp_mode := Epilog,
     sp_header := Some \<lparr>hd_root = mk_qname None ''a'', hd_namespaces = new_context,
       hd_schema_location = None, hd_wfs_attributes = [], hd_fme_produced = False\<rparr>,
     sp_root_feature := True, sp_chunk := ''<a/>'',
     sp_chunk_features := [\<lparr>in_chunk = 0, in_stream = 0\<rparr>], sp_features_emitted := 1,
     sp_names := [''a'' \<mapsto> Some (mk_qname None ''a'')]\<rparr>"

definition chunk_a :: feature_chunk where
  "chunk_a =
     \<lparr>fc_source = 0, fc_seq = 0, fc_byte_offset = 0, fc_bytes = ''<a/>'',
      fc_namespaces = Arc 0 new_context, fc_first_feature_seq = 0, fc_features = 1,
      fc_feature_offsets = [\<lparr>in_chunk = 0, in_stream = 0\<rparr>], fc_collection_bounded_by = None\<rparr>"

lemma skip_text_a: "skip_text std_ext splitter_a = (Inr True, splitter_a\<lparr>sp_reader := [], sp_buf := ''<a/>''\<rparr>)"
  by (simp add: skip_text.simps fill_def compact_def keep_from_def Let_def new_splitter_def std_ext_def)

lemma scan_markup_a:
  "scan_markup std_ext (splitter_a\<lparr>sp_reader := [], sp_buf := ''<a/>''\<rparr>) =
     (Inr (KStart 2 True, 4), splitter_a\<lparr>sp_reader := [], sp_buf := ''<a/>''\<rparr>)"
  by (simp add: scan_markup_def need.simps scan_start_tag_def scan_name.simps scan_close.simps
      scan_quotes.simps name_stop_def byte_class_defs Let_def new_splitter_def std_ext_def)

lemma next_markup_a:
  "next_markup std_ext splitter_a =
     (Inr (Some \<lparr>m_kind = KStart 2 True, m_start = 0, m_end = 4\<rparr>),
      splitter_a\<lparr>sp_reader := [], sp_buf := ''<a/>'', sp_pos := 4\<rparr>)"
  by (simp add: next_markup_def skip_text_a scan_markup_a Let_def) (simp add: new_splitter_def Let_def)

lemma step_a: "step std_ext splitter_a = (Inr (), splitter_a_read)"
proof -
  have md: "sp_mode splitter_a = Prolog" by (simp add: new_splitter_def Let_def)
  show ?thesis
    unfolding step_def md in_feature_def mode.case if_False next_markup_a and_then_simps option.case
    by (simp add: splitter_a_read_def new_splitter_def Let_def step_markup_def start_outside_def slice_def
        start_tag_def byte_val_def parse_attributes.simps push_declarations_def declarations_def
        List.map_filter_def resolve_element_def resolve_in_def split_once_def innermost_def read_header_def
        start_container_def is_collection_def is_bounded_by_def mk_qname_def map_top_def
        undo_declarations_def end_root_def begin_feature_def current_context_def end_feature_def
        context_of_def declares_uri_def new_context_def collection_bounded_by_def single_root_def
        default_options_def std_ext_def)
qed

lemma step_a_end:
  "step std_ext splitter_a_read =
     (Inr (), flush_chunk (splitter_a_read\<lparr>sp_eof := True, sp_finished := True, sp_buf := [], sp_pos := 0, sp_base := 4\<rparr>))"
  by (simp add: splitter_a_read_def step_def in_feature_def next_markup_def skip_text.simps fill_def
      compact_def keep_from_def finish_def flush_chunk_def std_ext_def new_splitter_def Let_def)

lemma split_all_a: "fst (split_all std_ext splitter_a) = ([chunk_a], None)"
proof -
  define s2 where "s2 = flush_chunk (splitter_a_read\<lparr>sp_eof := True, sp_finished := True, sp_buf := [], sp_pos := 0, sp_base := 4\<rparr>)"
  have r: "sp_ready splitter_a = []" "\<not> sp_finished splitter_a" "sp_ready splitter_a_read = []"
    "\<not> sp_finished splitter_a_read" "sp_ready s2 = [chunk_a]" "sp_finished s2"
    by (simp_all add: s2_def flush_chunk_def chunk_a_def splitter_a_read_def new_splitter_def Let_def)
  have n: "next_chunk std_ext splitter_a = (Inr (Some chunk_a), s2\<lparr>sp_ready := []\<rparr>)"
    using r by (simp add: next_chunk.simps step_a step_a_end s2_def [symmetric])
  have "next_chunk std_ext (s2\<lparr>sp_ready := []\<rparr>) = (Inr None, s2\<lparr>sp_ready := []\<rparr>)"
    using r by (simp add: next_chunk.simps)
  then have "split_all std_ext (s2\<lparr>sp_ready := []\<rparr>) = (([], None), s2\<lparr>sp_ready := []\<rparr>)"
    by (simp add: split_all.simps)
  then show ?thesis by (simp add: split_all.simps [of std_ext splitter_a] n)
qed

subsection \<open>Properties\<close>

lemma split_all_whole:
  assumes "ext_ok x" "error_free r"
  shows "fst (split_all x (whole (stream_of r) (new_splitter r' source options))) =
           fst (split_all x (new_splitter r source options))"
    "machine (snd (split_all x (whole (stream_of r) (new_splitter r' source options)))) =
       machine (snd (split_all x (new_splitter r source options)))"
  using split_all_run [OF running_new [OF assms(2)] assms(1), of source options]
  unfolding whole_new [of "stream_of r" r source options r'] run_rel_def
  by (simp_all add: machine_def whole_def)

text \<open>
  C1. The chunks, the error and every counter the splitter ends with depend on the bytes of the
  document, not on how the reader delivers them: two readers that report no error and deliver the
  same bytes, in blocks of any sizes and with any interrupted reads, give the same result.
\<close>

theorem split_all_independent:
  assumes "ext_ok x" "error_free r" "error_free r'" "stream_of r = stream_of r'"
  shows "fst (split_all x (new_splitter r source options)) =
           fst (split_all x (new_splitter r' source options)) \<and>
         machine (snd (split_all x (new_splitter r source options))) =
           machine (snd (split_all x (new_splitter r' source options)))"
  using split_all_whole [OF assms(1,2), of r source options]
    split_all_whole [OF assms(1,3), of r source options] unfolding assms(4) by metis

lemma split_all_independent_witness:
  "fst (split_all std_ext
      (new_splitter [Read_Ok ''<'', Read_Interrupted, Read_Ok ''a/>'', Read_Ok []] 0 single_root)) =
     ([chunk_a], None)"
  using split_all_independent [OF ext_ok_std, of "[Read_Ok ''<a/>'']"
      "[Read_Ok ''<'', Read_Interrupted, Read_Ok ''a/>'', Read_Ok []]" 0 single_root]
  by (simp add: split_all_a)

text \<open>
  C19. The same holds for the document header: \<open>header()\<close> returns the same header or the same
  error, however the bytes of the document arrive.
\<close>

theorem header_independent:
  assumes "ext_ok x" "error_free r" "error_free r'" "stream_of r = stream_of r'"
  shows "fst (read_to_header x (new_splitter r source options)) =
           fst (read_to_header x (new_splitter r' source options))"
  using read_to_header_run [OF running_new [OF assms(2)] assms(1), of source options]
    read_to_header_run [OF running_new [OF assms(3)] assms(1), of source options]
  unfolding run_rel_def assms(4) whole_new [of "stream_of r'" r source options r'] by metis

lemma header_independent_witness:
  "fst (read_to_header std_ext (new_splitter [Read_Ok ''<a/>''] 0 default_options)) =
     fst (read_to_header std_ext (new_splitter (map (\<lambda>c. Read_Ok [c]) ''<a/>'') 0 default_options))"
  by (rule header_independent [OF ext_ok_std]) simp_all

end
