(* ===== verification/Splitter_Elements.thy ===== *)
theory Splitter_Elements
  imports Splitter_Run
begin

text \<open>
  The elements of a document, from its bytes alone: tags and the markup that is not a tag
  (\<open>is_start_tag\<close>, \<open>is_end_tag\<close>, \<open>is_other_markup\<close>), and the texts that are one element, from a start
  tag to the end tag that closes it (\<open>feature_element\<close>, \<open>root_element\<close>). The scanner finds this markup,
  and \<open>open_ok\<close> is the invariant that the splitter knows in every state what is open in front of its
  position: the depth of a feature and the stack are those of the document.
\<close>

subsection \<open>Markup\<close>

text \<open>Where the \<open>></\<close> is that closes a start tag: the first one outside quotes.\<close>

fun tag_end :: "char option \<Rightarrow> bytes \<Rightarrow> nat option" where
  "tag_end q [] = None"
| "tag_end None (c # s) =
     (if c = CHR ''>'' then Some 0
      else map_option Suc (tag_end (if c = quote_char \<or> c = apos_char then Some c else None) s))"
| "tag_end (Some q) (c # s) = map_option Suc (tag_end (if c = q then None else Some q) s)"

text \<open>A start tag of the name \<open>n\<close>, empty or not.\<close>

definition is_start_tag :: "bytes \<Rightarrow> bool \<Rightarrow> bytes \<Rightarrow> bool" where
  "is_start_tag n empty_tag m \<longleftrightarrow>
     (\<exists>r. m = CHR ''<'' # n @ r \<and> r \<noteq> [] \<and> hd (n @ r) \<notin> {CHR ''/'', CHR ''!'', CHR ''?''} \<and>
        \<not> list_ex name_stop n \<and> name_stop (hd r) \<and> tag_end None r = Some (length r - 1)) \<and>
     empty_tag = (m ! (length m - 2) = CHR ''/'')"

text \<open>\<open>closes pat t\<close>: after \<open>t\<close> comes the first \<open>pat\<close>.\<close>

definition closes :: "bytes \<Rightarrow> bytes \<Rightarrow> bool" where
  "closes pat t \<longleftrightarrow> find_sub pat (t @ pat) = Some (length t)"

definition delimited :: "bytes \<Rightarrow> bytes \<Rightarrow> bytes \<Rightarrow> bool" where
  "delimited opening closing m \<longleftrightarrow> (\<exists>t. m = opening @ t @ closing \<and> closes closing t)"

text \<open>An end tag, with what its name may be taken to be, and the markup that is not a tag.\<close>

definition is_end_tag :: "(bytes \<Rightarrow> bool) \<Rightarrow> bytes \<Rightarrow> bool" where
  "is_end_tag named m \<longleftrightarrow> (\<exists>t. m = ''</'' @ t @ ''>'' \<and> closes ''>'' t \<and> named t)"

definition is_other_markup :: "bytes \<Rightarrow> bool" where
  "is_other_markup m \<longleftrightarrow>
     delimited ''<!--'' ''-->'' m \<or> delimited ''<![CDATA['' '']]>'' m \<or> delimited ''<?'' ''?>'' m"

definition markup_text :: "bytes \<Rightarrow> markup \<Rightarrow> bool" where
  "markup_text S m \<longleftrightarrow>
     (let w = slice (m_start m) (m_end m) S in
      case m_kind m of
        KStart name_end empty_tag \<Rightarrow> is_start_tag (slice (m_start m + 1) name_end S) empty_tag w
      | KEnd \<Rightarrow> is_end_tag (\<lambda>t. True) w
      | KOther \<Rightarrow> is_other_markup w)"

subsection \<open>The scanner finds markup\<close>

lemma tag_end_jump:
  "tag_end q s =
     (case first_index (quote_stop q) s of
        None \<Rightarrow> None
      | Some j \<Rightarrow>
          (if q = None \<and> s ! j = CHR ''>'' then Some j
           else map_option ((+) (Suc j)) (tag_end (if q = None then Some (s ! j) else None) (drop (Suc j) s))))"
proof (induction s arbitrary: q)
  case (Cons c s)
  have m: "map_option Suc (map_option ((+) k) z) = map_option ((+) (Suc k)) z" for k z by (cases z) simp_all
  have one: "(+) (Suc 0) = Suc" by (simp add: fun_eq_iff)
  show ?case
    using Cons.IH [of q] by (cases q) (auto simp: quote_stop_def m one split: option.splits)
qed simp

lemma tag_end_take: "tag_end q s = Some k \<Longrightarrow> tag_end q (take (Suc k) s) = Some k"
  by (induction q s arbitrary: k rule: tag_end.induct) (auto split: if_splits)

lemma tag_end_bounds: "tag_end q s = Some k \<Longrightarrow> k < length s"
  by (induction q s arbitrary: k rule: tag_end.induct) (auto split: if_splits)

lemma scan_quotes_tag_end:
  assumes "ext_ok x" "scan_quotes x q i tag = Inr c"
  shows "i \<le> c \<and> tag_end q (drop i tag) = Some (c - i)"
  using assms(2)
proof (induction "length tag - i" arbitrary: q i rule: less_induct)
  case less
  note step = scan_quotes_step [OF assms(1), of q i tag]
  obtain j where j: "first_index (quote_stop q) (drop i tag) = Some j"
    using less.prems unfolding step by (auto split: option.splits)
  have jl: "i + j < length tag" using j by (auto simp: first_index_Some_iff)
  have nth: "drop i tag ! j = tag ! (i + j)" using jl by simp
  let ?q = "if q = None then Some (tag ! (i + j)) else None"
  show ?case
  proof (cases "q = None \<and> tag ! (i + j) = CHR ''>''")
    case True
    then show ?thesis using less.prems j nth unfolding step by (subst tag_end_jump) simp
  next
    case False
    then have "scan_quotes x ?q (Suc (i + j)) tag = Inr c"
      using less.prems j unfolding step by (cases q) simp_all
    from less.hyps [OF _ this] jl have ih: "Suc (i + j) \<le> c" "tag_end ?q (drop (Suc (i + j)) tag) = Some (c - Suc (i + j))"
      by auto
    have "drop (Suc j) (drop i tag) = drop (Suc (i + j)) tag" by (simp add: add.commute)
    then show ?thesis using False j nth ih by (subst tag_end_jump) (auto simp del: drop_drop)
  qed
qed

lemma find_sub_closes:
  assumes "find_sub pat u = Some i"
  shows "closes pat (take i u)" "take (i + length pat) u = take i u @ pat"
proof -
  have i: "i \<le> length u" "take (length pat) (drop i u) = pat" "\<And>j. j < i \<Longrightarrow> \<not> starts_with pat (drop j u)"
    using assms by (auto simp: find_sub_Some_iff starts_with_iff)
  show t: "take (i + length pat) u = take i u @ pat" using i(2) by (simp add: take_add)
  have "\<not> starts_with pat (drop j (take i u @ pat))" if j: "j < i" for j
  proof
    assume "starts_with pat (drop j (take i u @ pat))"
    then have "take (length pat) (drop j (take (i + length pat) u)) = pat" by (simp add: starts_with_iff t)
    then have "take (length pat) (drop j u) = pat" using j by (simp add: drop_take min_def split: if_splits)
    then show False using i(3) [OF j] by (simp add: starts_with_iff)
  qed
  then show "closes pat (take i u)"
    using i(1) by (auto simp: closes_def find_sub_Some_iff starts_with_iff)
qed

lemma delimited_find:
  assumes "take k u = opening" "length opening = k" "find_sub pat (drop k u) = Some i" "n = k + i + length pat"
  shows "delimited opening pat (take n u)"
proof -
  have "take n u = take k u @ take (i + length pat) (drop k u)"
    unfolding assms(4) by (simp add: take_add add.assoc)
  then show ?thesis
    using find_sub_closes [OF assms(3)] assms(1) by (auto simp: delimited_def)
qed

lemma need_whole_Inr:
  "need n (whole S s) = (Inr u, w) \<Longrightarrow> n \<le> length (unread S s) \<and> w = whole S s"
  by (subst (asm) need.simps) (auto simp: and_then_Inr split: if_splits)

lemma find_from_whole_Inr:
  assumes "ext_ok x" "pat \<noteq> []" "find_from x pat k (whole S s) = (Inr i, w)"
  shows "\<exists>j. find_sub pat (drop k (unread S s)) = Some j \<and> i = k + j \<and> w = whole S s"
  using assms(3) unfolding find_from_whole [OF assms(1,2)] by (auto split: option.splits)

lemma scan_start_tag_text:
  assumes "ext_ok x" "scan_start_tag x (whole S s) = (Inr (c, e), w)" "unread S s = CHR ''<'' # u"
    and "u \<noteq> []" "hd u \<notin> {CHR ''/'', CHR ''!'', CHR ''?''}"
  shows "w = whole S s" "c < length (unread S s)" "1 \<le> c"
    "is_start_tag (slice 1 e (unread S s)) (unread S s ! (c - 1) = CHR ''/'') (take (c + 1) (unread S s))"
proof -
  let ?U = "unread S s"
  obtain j where j: "first_index name_stop u = Some j" "e = Suc j" "w = whole S s" "scan_close x None e (whole S s) = (Inr c, w)"
    using assms(2,3) unfolding scan_start_tag_def scan_name_whole
    by (auto simp: and_then_Inr scan_close_whole split: option.splits sum.splits)
  show "w = whole S s" by (rule j(3))
  have "scan_quotes x None e ?U = Inr c" using j(4) unfolding scan_close_whole by (auto split: sum.splits)
  from scan_quotes_tag_end [OF assms(1) this]
  have te: "e \<le> c" "tag_end None (drop e ?U) = Some (c - e)" by auto
  have jl: "j < length u" "name_stop (u ! j)" "\<And>i. i < j \<Longrightarrow> \<not> name_stop (u ! i)"
    using j(1) by (auto simp: first_index_Some_iff)
  have cl: "c < length ?U" using tag_end_bounds [OF te(2)] te(1) by (simp add: assms(3))
  then show "c < length ?U" .
  show "1 \<le> c" using te(1) j(2) by simp
  define n where "n = take j u"
  define r where "r = take (Suc (c - e)) (drop j u)"
  have t: "take (c + 1) ?U = CHR ''<'' # n @ r"
    using te(1) j(2) take_add [of j "c - j" u] by (auto simp: assms(3) n_def r_def Suc_diff_Suc)
  have sl: "slice 1 e ?U = n" by (simp add: slice_def assms(3) j(2) n_def)
  have te': "tag_end None (drop j u) = Some (c - e)" using te(2) by (simp add: assms(3) j(2))
  have "Suc (c - e) \<le> length (drop j u)" using tag_end_bounds [OF te'] by simp
  then have lr: "length r = Suc (c - e)" by (simp add: r_def)
  then have r: "r \<noteq> []" by auto
  have "tag_end None r = Some (length r - 1)" using tag_end_take [OF te'] lr by (simp add: r_def)
  moreover have "name_stop (hd r)" using jl r by (auto simp: r_def hd_drop_conv_nth)
  moreover have "\<not> list_ex name_stop n" using jl(1,3) by (auto simp: list_ex_iff n_def in_set_conv_nth)
  moreover have "hd (n @ r) = hd u" using r jl(1) by (cases j; cases u) (auto simp: n_def r_def)
  moreover have "(CHR ''<'' # n @ r) ! (length n + length r - 1) = ?U ! (c - 1)"
  proof -
    have "length (take (c + 1) ?U) = c + 1" using cl by simp
    then have "length n + length r = c" unfolding t by simp
    then show ?thesis using nth_take [of "c - 1" "c + 1" ?U] unfolding t by simp
  qed
  ultimately show "is_start_tag (slice 1 e ?U) (?U ! (c - 1) = CHR ''/'') (take (c + 1) ?U)"
    unfolding is_start_tag_def sl using assms(5) t r by (intro conjI exI [of _ r]) simp_all
qed

lemma scan_markup_text:
  assumes "ext_ok x" "sp_base s + sp_pos s < length S" "S ! (sp_base s + sp_pos s) = CHR ''<''"
    and "scan_markup x (whole S s) = (Inr (k, len), w)"
  shows "markup_text S \<lparr>m_kind = k, m_start = sp_base s + sp_pos s, m_end = sp_base s + sp_pos s + len\<rparr>" "w = whole S s"
proof -
  let ?p = "sp_base s + sp_pos s"
  let ?U = "unread S s"
  have sl: "slice (?p + a) (?p + b) S = slice a b ?U" for a b by (simp add: slice_drop)
  have nth: "S ! (?p + i) = ?U ! i" for i using assms(2) by simp
  have len: "2 \<le> length ?U"
    using assms(4) by (auto simp: scan_markup_def and_then_Inr dest!: need_whole_Inr)
  obtain c v where U: "?U = CHR ''<'' # c # v"
    using len assms(2,3) nth [of 0] by (cases ?U; cases "tl ?U") auto
  have m: "(if c = CHR ''/'' then and_then (find_from x ''>'' 2 (whole S s)) (\<lambda>i s. (Inr (KEnd, i + 1), s))
       else if c = CHR ''?'' then and_then (find_from x ''?>'' 2 (whole S s)) (\<lambda>i s. (Inr (KOther, i + 2), s))
       else if c = CHR ''!'' then scan_declaration x (whole S s)
       else and_then (scan_start_tag x (whole S s)) (\<lambda>(close, name_end) s.
         (Inr (KStart (sp_pos s + name_end) (sp_buf s ! (sp_pos s + close - 1) = CHR ''/''), close + 1), s)))
      = (Inr (k, len), w)"
    using assms(4) nth [of 1] U
    by (auto simp: scan_markup_def and_then_Inr Let_def dest!: need_whole_Inr)
  have mt: "markup_text S \<lparr>m_kind = k', m_start = ?p, m_end = ?p + l\<rparr> \<longleftrightarrow>
      (case k' of KStart name_end e \<Rightarrow> is_start_tag (slice (?p + 1) name_end S) e (take l ?U)
       | KEnd \<Rightarrow> is_end_tag (\<lambda>t. True) (take l ?U) | KOther \<Rightarrow> is_other_markup (take l ?U))" for k' l
    using sl [of 0 l] by (cases k') (simp_all add: markup_text_def slice_def Let_def)
  consider (close) "c = CHR ''/''" | (pi) "c = CHR ''?''" | (decl) "c = CHR ''!''"
    | (start) "c \<notin> {CHR ''/'', CHR ''!'', CHR ''?''}" by blast
  then have "markup_text S \<lparr>m_kind = k, m_start = ?p, m_end = ?p + len\<rparr> \<and> w = whole S s"
  proof cases
    case close
    then obtain j where "find_sub ''>'' (drop 2 ?U) = Some j" "len = 2 + j + 1" "k = KEnd" "w = whole S s"
      using m by (auto simp: and_then_Inr dest!: find_from_whole_Inr [OF assms(1), rotated])
    moreover from this have "delimited ''</'' ''>'' (take len ?U)"
      by (intro delimited_find [where k = 2]) (simp_all add: U close)
    ultimately show ?thesis unfolding mt by (auto simp: is_end_tag_def delimited_def)
  next
    case pi
    then obtain j where "find_sub ''?>'' (drop 2 ?U) = Some j" "len = 2 + j + 2" "k = KOther" "w = whole S s"
      using m by (auto simp: and_then_Inr dest!: find_from_whole_Inr [OF assms(1), rotated])
    moreover from this have "delimited ''<?'' ''?>'' (take len ?U)"
      by (intro delimited_find [where k = 2]) (simp_all add: U pi)
    ultimately show ?thesis unfolding mt by (simp add: is_other_markup_def)
  next
    case decl
    then have d: "scan_declaration x (whole S s) = (Inr (k, len), w)" using m by simp
    show ?thesis
    proof (cases "slice 2 4 ?U = ''--''")
      case True
      have "slice (?p + 2) (?p + 4) S = ''--''" unfolding sl by (rule True)
      then obtain j where j: "find_sub ''-->'' (drop 4 ?U) = Some j" "len = 4 + j + 3" "k = KOther" "w = whole S s"
        using d by (auto simp: scan_declaration_def and_then_Inr dest!: need_whole_Inr find_from_whole_Inr [OF assms(1), rotated])
      have "take 4 ?U = ''<!--''" using True U decl by (simp add: slice_def numeral_eq_Suc)
      with j have "delimited ''<!--'' ''-->'' (take len ?U)" by (intro delimited_find [where k = 4]) simp_all
      with j show ?thesis unfolding mt by (simp add: is_other_markup_def)
    next
      case False
      have n: "slice (?p + 2) (?p + 4) S \<noteq> ''--''" unfolding sl by (rule False)
      have h: "slice ?p (?p + 9) S = take 9 ?U" using sl [of 0 9] by (simp add: slice_def)
      have "take 9 ?U = ''<![CDATA['' \<and> (\<exists>j. find_sub '']]>'' (drop 9 ?U) = Some j \<and> len = 9 + j + 3) \<and> k = KOther \<and> w = whole S s"
        using d n
        by (auto simp: scan_declaration_def and_then_Inr Let_def h split: if_splits
            dest!: need_whole_Inr find_from_whole_Inr [OF assms(1), rotated])
      then obtain j where j: "take 9 ?U = ''<![CDATA[''" "find_sub '']]>'' (drop 9 ?U) = Some j" "len = 9 + j + 3"
          "k = KOther" "w = whole S s"
        by blast
      then have "delimited ''<![CDATA['' '']]>'' (take len ?U)" by (intro delimited_find [where k = 9]) simp_all
      with j show ?thesis unfolding mt by (simp add: is_other_markup_def)
    qed
  next
    case start
    then obtain close e where e: "scan_start_tag x (whole S s) = (Inr (close, e), w)"
        "k = KStart (sp_pos w + e) (sp_buf w ! (sp_pos w + close - 1) = CHR ''/'')" "len = close + 1"
      using m by (auto simp: and_then_Inr)
    note st = scan_start_tag_text [OF assms(1) e(1) U] 
    have w: "w = whole S s" using st(1) start by simp
    have "1 \<le> close" using st(3) start by simp
    then have "S ! (?p + close - 1) = ?U ! (close - 1)" using nth [of "close - 1"] by simp
    then show ?thesis
      using st(4) start e w sl [of 1 e] unfolding mt by (simp add: add.assoc)
  qed
  then show "markup_text S \<lparr>m_kind = k, m_start = ?p, m_end = ?p + len\<rparr>" "w = whole S s" by simp_all
qed

lemma next_markup_text:
  assumes "ext_ok x" "sp_base s + sp_pos s \<le> length S" "next_markup x (whole S s) = (Inr (Some m), w)"
  shows "markup_text S m" "sp_base s + sp_pos s \<le> m_start m" "m_start m < length S"
    "S ! m_start m = CHR ''<''" "CHR ''<'' \<notin> set (slice (sp_base s + sp_pos s) (m_start m) S)"
proof -
  let ?p = "sp_base s + sp_pos s"
  obtain i where i: "first_index (\<lambda>c. c = CHR ''<'') (unread S s) = Some i"
    using assms(3) unfolding next_markup_def skip_text_whole [OF assms(1,2)]
    by (auto simp: and_then_Inr split: option.splits)
  have il: "?p + i < length S" "S ! (?p + i) = CHR ''<''" "\<And>j. j < i \<Longrightarrow> S ! (?p + j) \<noteq> CHR ''<''"
    using i assms(2) by (auto simp: first_index_Some_iff)
  have at: "sp_base (advance i s) + sp_pos (advance i s) = ?p + i" by simp
  obtain k len where k: "scan_markup x (whole S (advance i s)) = (Inr (k, len), whole S (advance i s))"
      "m = \<lparr>m_kind = k, m_start = ?p + i, m_end = ?p + i + len\<rparr>"
  proof -
    obtain k len v where sm: "scan_markup x (whole S (advance i s)) = (Inr (k, len), v)"
        "m = \<lparr>m_kind = k, m_start = sp_pos v, m_end = sp_pos v + len\<rparr>"
      using assms(3) unfolding next_markup_def skip_text_whole [OF assms(1,2)]
      by (auto simp: and_then_Inr i Let_def)
    have "v = whole S (advance i s)" using scan_markup_text(2) [OF assms(1) _ _ sm(1)] il at by (simp add: add.assoc)
    with sm show ?thesis by (intro that) (simp_all add: add.assoc)
  qed
  show "markup_text S m" using scan_markup_text(1) [OF assms(1) _ _ k(1)] il by (simp add: k(2) add.assoc)
  show "?p \<le> m_start m" "m_start m < length S" "S ! m_start m = CHR ''<''" using il by (simp_all add: k(2))
  show "CHR ''<'' \<notin> set (slice ?p (m_start m) S)"
    using il by (auto simp: k(2) slice_def in_set_conv_nth)
qed

subsection \<open>Markup of a feature\<close>

text \<open>
  Inside an element of the name \<open>n\<close> only its own tags count, and the markup that could hide one:
  comments, CDATA sections and processing instructions. \<open>gap n g m\<close>: none of them is in \<open>g\<close>, which
  \<open>m\<close> follows.
\<close>

definition feature_mark :: "bytes \<Rightarrow> bytes \<Rightarrow> bool" where
  "feature_mark n t \<longleftrightarrow>
     starts_with ''<!'' t \<or> starts_with ''<?'' t \<or>
     (\<exists>r. t = CHR ''<'' # n @ r \<and> r \<noteq> [] \<and> name_stop (hd r) \<and> hd (n @ r) \<noteq> CHR ''/'') \<or>
     (\<exists>r. t = ''</'' @ n @ r \<and> r \<noteq> [] \<and> (is_ascii_whitespace (hd r) \<or> hd r = CHR ''>''))"

definition gap :: "bytes \<Rightarrow> bytes \<Rightarrow> bytes \<Rightarrow> bool" where
  "gap n g m \<longleftrightarrow> (\<forall>i < length g. \<not> feature_mark n (drop i (g @ m)))"

definition names_tag :: "bytes \<Rightarrow> bytes \<Rightarrow> bool" where
  "names_tag n t \<longleftrightarrow> (\<exists>r. t = n @ r \<and> (r = [] \<or> is_ascii_whitespace (hd r)))"

definition feature_text :: "bytes \<Rightarrow> bytes \<Rightarrow> markup \<Rightarrow> bool" where
  "feature_text n S m \<longleftrightarrow>
     (let w = slice (m_start m) (m_end m) S in
      case m_kind m of
        KStart _ empty_tag \<Rightarrow> is_start_tag n empty_tag w
      | KEnd \<Rightarrow> is_end_tag (names_tag n) w
      | KOther \<Rightarrow> is_other_markup w)"

lemma starts_with_prefix: "starts_with p t \<Longrightarrow> starts_with p (t @ u)"
  by (auto simp: starts_with_def strip_prefix_Some_iff)

lemma feature_mark_append:
  assumes "feature_mark n t"
  shows "feature_mark n (t @ u)"
proof -
  consider (other) "starts_with ''<!'' t \<or> starts_with ''<?'' t"
    | (start) r where "t = CHR ''<'' # n @ r" "r \<noteq> []" "name_stop (hd r)" "hd (n @ r) \<noteq> CHR ''/''"
    | (close) r where "t = ''</'' @ n @ r" "r \<noteq> []" "is_ascii_whitespace (hd r) \<or> hd r = CHR ''>''"
    using assms unfolding feature_mark_def by blast
  then show ?thesis
  proof cases
    case other
    then show ?thesis by (auto simp: feature_mark_def starts_with_prefix)
  next
    case start
    then have "t @ u = CHR ''<'' # n @ (r @ u) \<and> r @ u \<noteq> [] \<and> name_stop (hd (r @ u)) \<and> hd (n @ (r @ u)) \<noteq> CHR ''/''"
      by (simp add: hd_append split: if_splits)
    then show ?thesis unfolding feature_mark_def by blast
  next
    case close
    then have "t @ u = ''</'' @ n @ (r @ u) \<and> r @ u \<noteq> [] \<and> (is_ascii_whitespace (hd (r @ u)) \<or> hd (r @ u) = CHR ''>'')"
      by simp
    then show ?thesis unfolding feature_mark_def by blast
  qed
qed

lemma slice_append_slice: "a \<le> b \<Longrightarrow> b \<le> c \<Longrightarrow> slice a b S @ slice b c S = slice a c S"
  using take_add [of "b - a" "c - b" "drop a S"] by (simp add: slice_def)

lemma gap_slice:
  assumes "\<And>q. p \<le> q \<Longrightarrow> q < a \<Longrightarrow> \<not> feature_mark n (drop q S)" "p \<le> a" "a \<le> b"
  shows "gap n (slice p a S) (slice a b S)"
  unfolding gap_def slice_append_slice [OF assms(2,3)]
proof (intro allI impI notI)
  fix i assume i: "i < length (slice p a S)" "feature_mark n (drop i (slice p b S))"
  have "drop i (slice p b S) = take (b - p - i) (drop (p + i) S)"
    by (simp add: slice_def drop_take add.commute)
  then have "drop (p + i) S = drop i (slice p b S) @ drop (b - p - i) (drop (p + i) S)"
    by (simp only: append_take_drop_id)
  then have "feature_mark n (drop (p + i) S)" using feature_mark_append [OF i(2)] by metis
  moreover have "i < a - p" using i(1) by (simp add: slice_def)
  then have "p + i < a" by linarith
  ultimately show False using assms(1) [of "p + i"] by simp
qed

lemma named_like_whole:
  assumes "named_like_feature k (whole S s)" "sp_base s + sp_pos s + k + length (sp_feature_name s) + 1 \<le> length S"
  shows "\<exists>r. drop (sp_base s + sp_pos s + k) S = sp_feature_name s @ r \<and> r \<noteq> [] \<and>
     (is_ascii_whitespace (hd r) \<or> hd r = CHR ''>'' \<or> k = 1 \<and> hd r = CHR ''/'')"
proof -
  let ?q = "sp_base s + sp_pos s + k" and ?n = "sp_feature_name s"
  let ?r = "drop (?q + length ?n) S"
  have "take (length ?n) (drop ?q S) = ?n" using assms(1) by (simp add: named_like_feature_def Let_def slice_def)
  then have "drop ?q S = ?n @ ?r" by (metis append_take_drop_id drop_drop add.commute)
  moreover have "?r \<noteq> []" "hd ?r = S ! (?q + length ?n)" using assms(2) by (simp_all add: hd_drop_conv_nth)
  ultimately show ?thesis using assms(1) by (intro exI [of _ ?r]) (auto simp: named_like_feature_def Let_def)
qed

lemma not_named_whole:
  assumes "\<not> named_like_feature k (whole S s)" "drop (sp_base s + sp_pos s + k) S = sp_feature_name s @ r" "r \<noteq> []"
  shows "\<not> is_ascii_whitespace (hd r) \<and> hd r \<noteq> CHR ''>'' \<and> (k = 1 \<longrightarrow> hd r \<noteq> CHR ''/'')"
proof -
  let ?q = "sp_base s + sp_pos s + k" and ?n = "sp_feature_name s"
  have "drop (?q + length ?n) S = r" using assms(2) by (metis append_eq_conv_conj drop_drop add.commute)
  moreover from this have "?q + length ?n < length S" using assms(3) by (metis drop_all not_less)
  ultimately have "hd r = S ! (?q + length ?n)" by (auto simp: hd_drop_conv_nth)
  moreover have "slice ?q (?q + length ?n) S = ?n" using assms(2) by (simp add: slice_def)
  ultimately show ?thesis using assms(1) by (auto simp: named_like_feature_def Let_def)
qed

text \<open>What \<open>next_feature_markup\<close> finds: no mark is passed over, and a tag has the name.\<close>

definition feature_found :: "bytes \<Rightarrow> bytes \<Rightarrow> nat \<Rightarrow> markup \<Rightarrow> bool" where
  "feature_found n S p m \<longleftrightarrow> p \<le> m_start m \<and> m_start m \<le> m_end m \<and>
     gap n (slice p (m_start m) S) (slice (m_start m) (m_end m) S) \<and> feature_text n S m"

lemma name_unique:
  assumes "n @ r = n' @ r'" "\<not> list_ex name_stop n" "\<not> list_ex name_stop n'" "r \<noteq> []" "r' \<noteq> []"
    and "name_stop (hd r)" "name_stop (hd r')"
  shows "n = n'"
  using assms
proof (induction n arbitrary: n')
  case Nil
  then show ?case by (cases n') auto
next
  case (Cons c n)
  then show ?case by (cases n') auto
qed

lemma markup_text_bounds: "markup_text S m \<Longrightarrow> m_start m \<le> m_end m"
proof (rule ccontr)
  assume "markup_text S m" "\<not> m_start m \<le> m_end m"
  then show False
    by (cases "m_kind m") (auto simp: markup_text_def Let_def slice_def is_start_tag_def is_end_tag_def is_other_markup_def delimited_def)
qed

text \<open>The three kinds of markup at a \<open><\<close>.\<close>

lemma markup_text_start:
  assumes "markup_text S m" "drop (m_start m) S = CHR ''<'' # n @ r" "r \<noteq> []" "name_stop (hd r)"
    and "hd (n @ r) \<notin> {CHR ''/'', CHR ''!'', CHR ''?''}" "\<not> list_ex name_stop n"
  shows "feature_text n S m"
proof -
  let ?w = "slice (m_start m) (m_end m) S"
  have pre: "drop (m_start m) S = ?w @ drop (m_end m - m_start m) (drop (m_start m) S)"
    by (simp only: slice_def append_take_drop_id)
  show ?thesis
  proof (cases "m_kind m")
    case (KStart e empty_tag)
    then obtain n' r' where w: "?w = CHR ''<'' # n' @ r'" "r' \<noteq> []" "hd (n' @ r') \<notin> {CHR ''/'', CHR ''!'', CHR ''?''}"
        "\<not> list_ex name_stop n'" "name_stop (hd r')" "tag_end None r' = Some (length r' - 1)"
        "empty_tag = (?w ! (length ?w - 2) = CHR ''/'')"
      using assms(1) by (auto simp: markup_text_def Let_def is_start_tag_def)
    have "n @ r = n' @ (r' @ drop (m_end m - m_start m) (drop (m_start m) S))"
      using pre assms(2) w(1) by simp
    then have "n = n'" by (rule name_unique) (use assms w in simp_all)
    then show ?thesis using w KStart by (auto simp: feature_text_def Let_def is_start_tag_def)
  next
    case KEnd
    then obtain t where "?w = ''</'' @ t" using assms(1) by (auto simp: markup_text_def Let_def is_end_tag_def)
    then have "hd (n @ r) = CHR ''/''" using pre assms(2,3) by (cases "n @ r") auto
    then show ?thesis using assms(5) by simp
  next
    case KOther
    then have "is_other_markup ?w" using assms(1) by (simp add: markup_text_def Let_def)
    then obtain c t where "?w = CHR ''<'' # c # t" "c \<in> {CHR ''!'', CHR ''?''}"
      by (auto simp: is_other_markup_def delimited_def)
    then have "hd (n @ r) \<in> {CHR ''!'', CHR ''?''}" using pre assms(2,3) by (cases "n @ r") auto
    then show ?thesis using assms(5) by blast
  qed
qed

lemma markup_text_end:
  assumes "markup_text S m" "drop (m_start m) S = ''</'' @ n @ r" "r \<noteq> []"
    and "is_ascii_whitespace (hd r) \<or> hd r = CHR ''>''" "\<not> list_ex name_stop n"
  shows "feature_text n S m"
proof -
  let ?w = "slice (m_start m) (m_end m) S"
  have pre: "drop (m_start m) S = ?w @ drop (m_end m - m_start m) (drop (m_start m) S)"
    by (simp only: slice_def append_take_drop_id)
  show ?thesis
  proof (cases "m_kind m")
    case KEnd
    then obtain t where t: "?w = ''</'' @ t @ ''>''" "closes ''>'' t"
      using assms(1) by (auto simp: markup_text_def Let_def is_end_tag_def)
    have no: "CHR ''>'' \<notin> set t"
    proof
      assume "CHR ''>'' \<in> set t"
      then obtain j where j: "j < length t" "t ! j = CHR ''>''" by (auto simp: in_set_conv_nth)
      then have "starts_with ''>'' (drop j (t @ ''>''))" by (simp add: starts_with_iff take_Suc hd_append hd_drop_conv_nth)
      then show False using t(2) j(1) by (auto simp: closes_def find_sub_Some_iff)
    qed
    have eq: "n @ r = t @ CHR ''>'' # drop (m_end m - m_start m) (drop (m_start m) S)"
      using pre assms(2) t(1) by simp
    have "CHR ''>'' \<notin> set n" using assms(5) by (auto simp: list_ex_iff name_stop_def)
    then obtain r' where "t = n @ r'" "r = r' @ CHR ''>'' # drop (m_end m - m_start m) (drop (m_start m) S)"
      using eq by (auto simp: append_eq_append_conv2 append_eq_Cons_conv Cons_eq_append_conv)
    moreover have "r' = [] \<or> is_ascii_whitespace (hd r')"
      using assms(4) no calculation by (cases r') auto
    ultimately show ?thesis using t KEnd by (auto simp: feature_text_def Let_def is_end_tag_def names_tag_def)
  next
    case (KStart e empty_tag)
    then obtain n' r' where w: "?w = CHR ''<'' # n' @ r'" "r' \<noteq> []" "hd (n' @ r') \<noteq> CHR ''/''"
      using assms(1) by (auto simp: markup_text_def Let_def is_start_tag_def)
    then have "hd (n' @ r') = CHR ''/''" using pre assms(2) by (cases "n' @ r'") auto
    then show ?thesis using w(3) by simp
  next
    case KOther
    then have "is_other_markup ?w" using assms(1) by (simp add: markup_text_def Let_def)
    then show ?thesis using pre assms(2) by (auto simp: is_other_markup_def delimited_def)
  qed
qed

lemma markup_text_other:
  assumes "markup_text S m" "drop (m_start m) S = CHR ''<'' # c # r" "c \<in> {CHR ''!'', CHR ''?''}"
  shows "feature_text n S m"
proof -
  let ?w = "slice (m_start m) (m_end m) S"
  have pre: "drop (m_start m) S = ?w @ drop (m_end m - m_start m) (drop (m_start m) S)"
    by (simp only: slice_def append_take_drop_id)
  show ?thesis
  proof (cases "m_kind m")
    case (KStart e empty_tag)
    then obtain n' r' where w: "?w = CHR ''<'' # n' @ r'" "r' \<noteq> []" "hd (n' @ r') \<notin> {CHR ''/'', CHR ''!'', CHR ''?''}"
      using assms(1) by (auto simp: markup_text_def Let_def is_start_tag_def)
    then have "hd (n' @ r') = c" using pre assms(2) by (cases "n' @ r'") auto
    then show ?thesis using w(3) assms(3) by simp
  next
    case KEnd
    then show ?thesis using assms pre by (auto simp: markup_text_def Let_def is_end_tag_def)
  next
    case KOther
    then show ?thesis using assms(1) by (simp add: markup_text_def feature_text_def Let_def)
  qed
qed

lemma next_markup_at:
  assumes "ext_ok x" "sp_base s + sp_pos s < length S" "S ! (sp_base s + sp_pos s) = CHR ''<''"
    and "next_markup x (whole S s) = (Inr (Some m), w)"
  shows "m_start m = sp_base s + sp_pos s" "markup_text S m"
proof -
  let ?p = "sp_base s + sp_pos s"
  have m: "markup_text S m" "?p \<le> m_start m" "m_start m < length S" "CHR ''<'' \<notin> set (slice ?p (m_start m) S)"
    using next_markup_text [OF assms(1) _ assms(4)] assms(2) by simp_all
  show "m_start m = ?p"
  proof (rule ccontr)
    assume "m_start m \<noteq> ?p"
    then have l: "0 < length (slice ?p (m_start m) S)" "slice ?p (m_start m) S ! 0 = S ! ?p"
      using m(2,3) by (simp_all add: nth_slice [of ?p 0, simplified])
    then show False using m(4) assms(3) by (metis nth_mem)
  qed
  show "markup_text S m" by (rule m(1))
qed

lemma next_feature_markup_text:
  assumes "ext_ok x" "\<not> list_ex name_stop n" "sp_feature_name s = n" "sp_base s + sp_pos s \<le> length S"
    and "next_feature_markup x (whole S s) = (Inr (Some m), w)"
  shows "sp_base s + sp_pos s \<le> m_start m \<and> feature_text n S m \<and> m_start m \<le> m_end m \<and>
    (\<forall>q. sp_base s + sp_pos s \<le> q \<and> q < m_start m \<longrightarrow> \<not> feature_mark n (drop q S))"
  using assms(3-5)
proof (induction "length S - (sp_base s + sp_pos s)" arbitrary: s rule: less_induct)
  case less
  let ?p = "sp_base s + sp_pos s"
  obtain i where i: "first_index (\<lambda>c. c = CHR ''<'') (unread S s) = Some i"
      "feature_markup_at x (whole S (advance i s)) = (Inr (Some m), w)"
    using less.prems(3) unfolding next_feature_markup_whole [OF assms(1)] by (auto split: option.splits)
  define q where "q = ?p + i"
  define t where "t = advance i s"
  have t: "sp_base t + sp_pos t = q" "sp_feature_name t = n" using less.prems(1) by (simp_all add: t_def q_def)
  have q: "q < length S" "S ! q = CHR ''<''" "\<And>j. j < i \<Longrightarrow> S ! (?p + j) \<noteq> CHR ''<''"
    using i(1) less.prems(2) by (auto simp: q_def first_index_Some_iff)
  have passed: "\<not> feature_mark n (drop k S)" if "?p \<le> k" "k < q" for k
  proof -
    have "S ! k \<noteq> CHR ''<''" "drop k S = S ! k # drop (Suc k) S"
      using that q(1) q(3) [of "k - ?p"] by (simp_all add: q_def Cons_nth_drop_Suc)
    then show ?thesis by (auto simp: feature_mark_def starts_with_iff)
  qed
  obtain u v where nd': "need 2 (whole S t) = (Inr u, v)"
    using i(2) unfolding feature_markup_at_def t_def [symmetric] by (auto simp: and_then_Inr)
  have nd: "need 2 (whole S t) = (Inr u, whole S t)" "q + 2 \<le> length S"
    using need_whole_Inr [OF nd'] nd' q(1) t(1) by auto
  define c where "c = S ! (q + 1)"
  have dq: "drop q S = CHR ''<'' # c # drop (q + 2) S"
    using Cons_nth_drop_Suc [of q S, symmetric] Cons_nth_drop_Suc [of "q + 1" S, symmetric] nd(2) q(1,2)
    by (simp add: c_def)
  have dq1: "drop (q + 1) S = c # drop (q + 2) S"
    using Cons_nth_drop_Suc [of "q + 1" S, symmetric] nd(2) by (simp add: c_def)
  have at: "(if c = CHR ''!'' \<or> c = CHR ''?'' then next_markup x (whole S t)
        else and_then (need ((if c = CHR ''/'' then 2 else 1) + length n + 1) (whole S t))
            (\<lambda>_ s. if named_like_feature (if c = CHR ''/'' then 2 else 1) s then next_markup x s
                   else next_feature_markup x (advance 1 s))) = (Inr (Some m), w)"
  proof -
    have "sp_buf (whole S t) ! (sp_pos (whole S t) + 1) = c" "sp_feature_name (whole S t) = n"
      using t by (simp_all add: c_def)
    then show ?thesis
      using i(2) unfolding feature_markup_at_def t_def [symmetric] nd(1) and_then_simps Let_def by (simp only:)
  qed
  note found = next_markup_at [OF assms(1), of t S, unfolded t(1), OF q(1,2)]
  show ?case
  proof (cases "c = CHR ''!'' \<or> c = CHR ''?''")
    case True
    then have "next_markup x (whole S t) = (Inr (Some m), w)" using at by simp
    note m = found [OF this]
    have "feature_text n S m" by (rule markup_text_other [OF m(2)]) (use m(1) dq True in auto)
    then show ?thesis using m passed markup_text_bounds [OF m(2)] by (auto simp: q_def)
  next
    case False
    define k where "k = (if c = CHR ''/'' then 2 else 1::nat)"
    have at': "and_then (need (k + length n + 1) (whole S t))
        (\<lambda>_ s. if named_like_feature k s then next_markup x s else next_feature_markup x (advance 1 s)) = (Inr (Some m), w)"
      using at False by (simp add: k_def)
    then obtain u v where u': "need (k + length n + 1) (whole S t) = (Inr u, v)"
      by (auto simp: and_then_Inr)
    then have u: "need (k + length n + 1) (whole S t) = (Inr u, whole S t)" "q + k + length n + 1 \<le> length S"
      using need_whole_Inr [OF u'] u' q(1) t(1) by auto
    have u3: "(if named_like_feature k (whole S t) then next_markup x (whole S t) else next_feature_markup x (advance 1 (whole S t))) = (Inr (Some m), w)"
      using at' u(1) by (simp add: and_then_def)
    show ?thesis
    proof (cases "named_like_feature k (whole S t)")
      case True
      then have "next_markup x (whole S t) = (Inr (Some m), w)" using u3 by simp
      note m = found [OF this]
      obtain r where r: "drop (q + k) S = n @ r" "r \<noteq> []" "is_ascii_whitespace (hd r) \<or> hd r = CHR ''>'' \<or> k = 1 \<and> hd r = CHR ''/''"
        using named_like_whole [OF True] u(2) by (auto simp: t)
      have "feature_text n S m"
      proof (cases "c = CHR ''/''")
        case True
        then have "drop q S = ''</'' @ n @ r" using dq r(1) by (simp add: k_def)
        then show ?thesis using r True assms(2) m by (intro markup_text_end [OF m(2)]) (auto simp: k_def)
      next
        case c: False
        then have d: "drop q S = CHR ''<'' # n @ r"
          using Cons_nth_drop_Suc [of q S, symmetric] q(1,2) r(1) by (simp add: k_def)
        then have "hd (n @ r) = c" using dq by (metis list.inject list.sel(1))
        then show ?thesis
          using r c assms(2) m d False by (intro markup_text_start [OF m(2)]) (auto simp: name_stop_def)
      qed
      then show ?thesis using m passed markup_text_bounds [OF m(2)] by (auto simp: q_def)
    next
      case nn: False
      have a1: "sp_base (advance 1 t) + sp_pos (advance 1 t) = q + 1" using t(1) by simp
      have "next_feature_markup x (whole S (advance 1 t)) = (Inr (Some m), w)" using u3 nn by (simp add: whole_advance)
      then have ih: "q + 1 \<le> m_start m \<and> feature_text n S m \<and> m_start m \<le> m_end m \<and>
          (\<forall>k. q + 1 \<le> k \<and> k < m_start m \<longrightarrow> \<not> feature_mark n (drop k S))"
        using less.hyps [of "advance 1 t", unfolded a1] t(2) q(1) by (simp add: q_def)
      have "\<not> feature_mark n (drop q S)"
      proof
        assume "feature_mark n (drop q S)"
        then consider (start) r where "drop q S = CHR ''<'' # n @ r" "r \<noteq> []" "name_stop (hd r)" "hd (n @ r) \<noteq> CHR ''/''"
          | (close) r where "drop q S = ''</'' @ n @ r" "r \<noteq> []" "is_ascii_whitespace (hd r) \<or> hd r = CHR ''>''"
          using False dq unfolding feature_mark_def by (auto simp: starts_with_iff)
        then show False
        proof cases
          case start
          have nr: "n @ r = c # drop (q + 2) S" using dq unfolding start(1) by simp
          then have "c \<noteq> CHR ''/''" using start(4) by simp
          then have "k = 1" by (simp add: k_def)
          moreover have "drop (q + 1) S = n @ r" unfolding nr by (rule dq1)
          ultimately show False using not_named_whole [OF nn, of r] start by (auto simp: t name_stop_def)
        next
          case close
          have "c = CHR ''/''" "drop (q + 2) S = n @ r" using dq unfolding close(1) by simp_all
          then have "k = 2" "drop (q + 2) S = n @ r" by (simp_all add: k_def)
          then show False using not_named_whole [OF nn, of r] close by (auto simp: t)
        qed
      qed
      then have "\<not> feature_mark n (drop k S)" if "?p \<le> k" "k < m_start m" for k
        using that ih passed [of k] by (cases k q rule: linorder_cases) auto
      then show ?thesis using ih by (simp add: q_def)
    qed
  qed
qed

lemma next_feature_markup_found:
  assumes "ext_ok x" "\<not> list_ex name_stop (sp_feature_name s)" "sp_base s + sp_pos s \<le> length S"
    and "next_feature_markup x (whole S s) = (Inr (Some m), w)"
  shows "feature_found (sp_feature_name s) S (sp_base s + sp_pos s) m"
  using next_feature_markup_text [OF assms(1,2) refl assms(3,4)]
  by (auto simp: feature_found_def intro: gap_slice)

subsection \<open>Elements\<close>

text \<open>
  \<open>opened n d w\<close>: \<open>w\<close> begins with a start tag of the name \<open>n\<close> and leaves \<open>d\<close> elements of that
  name open. Tags of other names are passed over, as the splitter does inside a feature.
\<close>

inductive opened :: "bytes \<Rightarrow> nat \<Rightarrow> bytes \<Rightarrow> bool" for n where
  opened_first: "is_start_tag n False m \<Longrightarrow> opened n 1 m"
| opened_other: "opened n d w \<Longrightarrow> gap n g m \<Longrightarrow> is_other_markup m \<Longrightarrow> opened n d (w @ g @ m)"
| opened_nested: "opened n d w \<Longrightarrow> gap n g m \<Longrightarrow> is_start_tag n False m \<Longrightarrow> opened n (d + 1) (w @ g @ m)"
| opened_empty: "opened n d w \<Longrightarrow> gap n g m \<Longrightarrow> is_start_tag n True m \<Longrightarrow> opened n d (w @ g @ m)"
| opened_end: "opened n d w \<Longrightarrow> 1 < d \<Longrightarrow> gap n g m \<Longrightarrow> is_end_tag (names_tag n) m \<Longrightarrow> opened n (d - 1) (w @ g @ m)"

text \<open>One element, from its start tag to the end tag that closes it.\<close>

definition feature_element :: "bytes \<Rightarrow> bool" where
  "feature_element e \<longleftrightarrow>
     (\<exists>n. is_start_tag n True e \<or>
        (\<exists>w g m. e = w @ g @ m \<and> opened n 1 w \<and> gap n g m \<and> is_end_tag (names_tag n) m))"

text \<open>
  The root of a document that is a feature itself: every tag is read, each end tag closes the
  innermost open element; a \<open>boundedBy\<close> is passed over like a feature.
\<close>

inductive open_tags :: "bytes list \<Rightarrow> bytes \<Rightarrow> bool" where
  tags_root: "is_start_tag n False m \<Longrightarrow> open_tags [n] m"
| tags_text: "open_tags ns w \<Longrightarrow> CHR ''<'' \<notin> set g \<Longrightarrow> open_tags ns (w @ g)"
| tags_other: "open_tags ns w \<Longrightarrow> is_other_markup m \<Longrightarrow> open_tags ns (w @ m)"
| tags_start: "open_tags ns w \<Longrightarrow> is_start_tag n False m \<Longrightarrow> open_tags (ns @ [n]) (w @ m)"
| tags_empty: "open_tags ns w \<Longrightarrow> is_start_tag n True m \<Longrightarrow> open_tags ns (w @ m)"
| tags_end: "open_tags (ns @ [n]) w \<Longrightarrow> ns \<noteq> [] \<Longrightarrow> is_end_tag (\<lambda>t. trim_ascii t = n) m \<Longrightarrow> open_tags ns (w @ m)"
| tags_element: "open_tags ns w \<Longrightarrow> feature_element e \<Longrightarrow> open_tags ns (w @ e)"

definition root_element :: "bytes \<Rightarrow> bool" where
  "root_element e \<longleftrightarrow>
     (\<exists>n. is_start_tag n True e \<or>
        (\<exists>w m. e = w @ m \<and> open_tags [n] w \<and> is_end_tag (\<lambda>t. trim_ascii t = n) m))"

definition whole_element :: "bytes \<Rightarrow> bool" where
  "whole_element e \<longleftrightarrow> feature_element e \<or> root_element e"

lemma opened_name: "opened n d w \<Longrightarrow> \<not> list_ex name_stop n"
  by (induction rule: opened.induct) (auto simp: is_start_tag_def)

lemma opened_pos: "opened n d w \<Longrightarrow> 0 < d"
  by (induction rule: opened.induct) auto

subsection \<open>What is open in a state\<close>

text \<open>
  In front of the position \<open>p\<close> of the document: the feature being copied, and the root that may be
  a feature, with the elements the stack holds.
\<close>

definition root_open :: "bytes \<Rightarrow> nat \<Rightarrow> splitter \<Rightarrow> bool" where
  "root_open S p s \<longleftrightarrow>
     (case sp_root_candidate s of
        None \<Rightarrow> True
      | Some start \<Rightarrow> start \<le> p \<and> (\<forall>f \<in> set (sp_stack s). \<not> fr_members f) \<and>
          open_tags (map fr_raw_name (sp_stack s)) (slice start p S))"

definition open_ok :: "bytes \<Rightarrow> nat \<Rightarrow> splitter \<Rightarrow> bool" where
  "open_ok S p s \<longleftrightarrow>
     (case sp_mode s of
        Prolog \<Rightarrow> sp_root_candidate s = None \<and> sp_stack s = []
      | Outside \<Rightarrow> root_open S p s
      | Feature d emit start bounded_by \<Rightarrow>
          start \<le> p \<and> opened (sp_feature_name s) d (slice start p S) \<and> root_open S start s \<and>
          (\<not> bounded_by \<longrightarrow> sp_root_candidate s = None)
      | Epilog \<Rightarrow> sp_root_candidate s = None)"

text \<open>The markup \<open>m\<close>, at its offsets in the document, is the next one after \<open>p\<close>.\<close>

definition found_ok :: "bytes \<Rightarrow> nat \<Rightarrow> splitter \<Rightarrow> markup \<Rightarrow> bool" where
  "found_ok S p s m \<longleftrightarrow>
     (if in_feature (sp_mode s) then feature_found (sp_feature_name s) S p m
      else p \<le> m_start m \<and> m_start m \<le> m_end m \<and> CHR ''<'' \<notin> set (slice p (m_start m) S) \<and> markup_text S m)"

definition open_here :: "bytes \<Rightarrow> markup \<Rightarrow> splitter \<Rightarrow> bool" where
  "open_here S m s \<longleftrightarrow> (\<exists>p. open_ok S p s \<and> found_ok S p s (shift_markup (sp_base s) m))"

text \<open>What these read.\<close>

definition open_part where
  "open_part s = (sp_mode s, sp_root_candidate s, map (\<lambda>f. (fr_raw_name f, fr_members f)) (sp_stack s), sp_feature_name s)"

lemma stack_cong:
  "map (\<lambda>f. (fr_raw_name f, fr_members f)) st = map (\<lambda>f. (fr_raw_name f, fr_members f)) st' \<Longrightarrow>
   map fr_raw_name st = map fr_raw_name st' \<and> (\<forall>f \<in> set st. \<not> fr_members f) = (\<forall>f \<in> set st'. \<not> fr_members f) \<and>
   (st = []) = (st' = [])"
proof (induction st arbitrary: st')
  case (Cons f st)
  then obtain f' st'' where "st' = f' # st''" by (cases st') auto
  then show ?case using Cons by auto
qed auto

lemma root_open_cong:
  assumes "sp_root_candidate t = sp_root_candidate s"
    and "map (\<lambda>f. (fr_raw_name f, fr_members f)) (sp_stack t) = map (\<lambda>f. (fr_raw_name f, fr_members f)) (sp_stack s)"
  shows "root_open S p t = root_open S p s"
  using stack_cong [OF assms(2)] assms(1) by (auto simp: root_open_def split: option.splits)

lemma open_ok_cong: "open_part t = open_part s \<Longrightarrow> open_ok S p t = open_ok S p s"
  using root_open_cong [of t s S p] root_open_cong [of t s S] stack_cong [of "sp_stack t" "sp_stack s"]
  by (auto simp: open_ok_def open_part_def split: mode.splits)

lemma open_here_cong: "open_part t = open_part s \<Longrightarrow> sp_base t = sp_base s \<Longrightarrow> open_here S m t = open_here S m s"
  using open_ok_cong [of t s S] by (simp add: open_here_def found_ok_def open_part_def)

lemma root_open_append:
  assumes "root_open S p s" "p \<le> q" "\<And>ns w. open_tags ns w \<Longrightarrow> open_tags ns (w @ slice p q S)"
  shows "root_open S q s"
proof (cases "sp_root_candidate s")
  case (Some start)
  then have r: "start \<le> p" "\<forall>f \<in> set (sp_stack s). \<not> fr_members f" "open_tags (map fr_raw_name (sp_stack s)) (slice start p S)"
    using assms(1) by (simp_all add: root_open_def)
  show ?thesis using assms(3) [OF r(3)] r assms(2) Some by (simp add: root_open_def slice_append_slice)
qed (simp add: root_open_def)

lemma root_open_text:
  "root_open S p s \<Longrightarrow> p \<le> q \<Longrightarrow> CHR ''<'' \<notin> set (slice p q S) \<Longrightarrow> root_open S q s"
  by (rule root_open_append) (auto intro: tags_text)

text \<open>The next markup in a feature: what is open after it, and the end of the element.\<close>

lemma step_feature_open:
  assumes "open_ok S p s" "sp_mode s = Feature d emit start b" "found_ok S p s m"
  shows "case m_kind m of
      KStart _ empty_tag \<Rightarrow> opened (sp_feature_name s) (if empty_tag then d else d + 1) (slice start (m_end m) S)
    | KEnd \<Rightarrow> if d = 1 then feature_element (slice start (m_end m) S)
             else opened (sp_feature_name s) (d - 1) (slice start (m_end m) S)
    | KOther \<Rightarrow> opened (sp_feature_name s) d (slice start (m_end m) S)" (is ?kind)
    and "start \<le> m_start m" "m_start m \<le> m_end m"
proof -
  let ?n = "sp_feature_name s"
  define g where "g = slice p (m_start m) S"
  define w where "w = slice (m_start m) (m_end m) S"
  have o: "start \<le> p" "opened ?n d (slice start p S)" using assms(1,2) by (simp_all add: open_ok_def)
  have f: "p \<le> m_start m" "m_start m \<le> m_end m" "gap ?n g w" "feature_text ?n S m"
    using assms(2,3) by (simp_all add: found_ok_def feature_found_def in_feature_def g_def w_def)
  show "start \<le> m_start m" "m_start m \<le> m_end m" using o(1) f(1,2) by simp_all
  have e: "slice start (m_end m) S = slice start p S @ g @ w"
    using o(1) f(1,2) by (simp add: g_def w_def slice_append_slice)
  show ?kind
  proof (cases "m_kind m")
    case (KStart name_end empty_tag)
    then have "is_start_tag ?n empty_tag w" using f(4) by (simp add: feature_text_def w_def Let_def)
    then show ?thesis using KStart o(2) f(3) by (cases empty_tag) (simp_all add: e opened_nested [simplified] opened_empty)
  next
    case KEnd
    then have k: "is_end_tag (names_tag ?n) w" using f(4) by (simp add: feature_text_def w_def Let_def)
    show ?thesis
    proof (cases "d = 1")
      case True
      then show ?thesis using KEnd k o(2) f(3) by (auto simp: e feature_element_def)
    next
      case False
      then have "1 < d" using opened_pos [OF o(2)] by simp
      then show ?thesis using KEnd False opened_end [OF o(2) _ f(3) k] by (simp add: e)
    qed
  next
    case KOther
    then have "is_other_markup w" using f(4) by (simp add: feature_text_def w_def Let_def)
    then show ?thesis using KOther opened_other [OF o(2) f(3)] by (simp add: e)
  qed
qed

named_theorems open_keeps \<open>operations that neither open nor close an element\<close>

lemma open_part_ops [open_keeps]:
  "open_part (flush_chunk s) = open_part s" "open_part (snd (current_context s)) = open_part s"
  "open_part (undo_declarations d b s) = open_part s" "open_part (push_declarations x as s) = open_part s"
  "open_part (snd (resolve_element raw s)) = open_part s"
  "open_part (s\<lparr>sp_referenced_members := rm\<rparr>) = open_part s" "open_part (s\<lparr>sp_finished := fi\<rparr>) = open_part s"
  by (simp_all add: flush_chunk_def current_context_def undo_declarations_def push_declarations_def
      resolve_element_def open_part_def Let_def split: option.splits)

lemma map_top_open:
  assumes "\<And>fr. fr_raw_name (f fr) = fr_raw_name fr \<and> fr_members (f fr) = fr_members fr"
  shows "open_part (map_top f s) = open_part s"
proof (cases "sp_stack s = []")
  case False
  let ?h = "\<lambda>f. (fr_raw_name f, fr_members f)"
  have "map ?h (butlast (sp_stack s) @ [f (last (sp_stack s))]) = map ?h (butlast (sp_stack s) @ [last (sp_stack s)])"
    using assms by simp
  also have "\<dots> = map ?h (sp_stack s)" by (simp only: append_butlast_last_id [OF False])
  finally have "map ?h (butlast (sp_stack s) @ [f (last (sp_stack s))]) = map ?h (sp_stack s)" .
  then show ?thesis using False by (simp add: map_top_def open_part_def)
qed (simp add: map_top_def)

lemma open_part_begin_feature [open_keeps]: "open_part (begin_feature st s) = open_part s"
proof -
  obtain c t where c: "current_context s = (c, t)" by (cases "current_context s")
  have "open_part t = open_part s" using open_part_ops(2) [of s] by (simp add: c)
  then show ?thesis
    using open_part_ops(1) [of t] by (simp add: begin_feature_def c Let_def open_part_def)
qed

lemma open_part_end_feature [open_keeps]: "open_part (end_feature e st en s) = open_part s"
  by (simp add: end_feature_def Let_def open_keeps) (simp add: open_part_def)

lemma open_part_end_bounded_by [open_keeps]: "open_part (end_bounded_by st en s) = open_part s"
proof -
  obtain c t where c: "current_context s = (c, t)" by (cases "current_context s")
  have "open_part t = open_part s" using open_part_ops(2) [of s] by (simp add: c)
  moreover have "open_part (t\<lparr>sp_next_arc := k\<rparr>) = open_part t" for k by (simp add: open_part_def)
  ultimately show ?thesis by (simp add: end_bounded_by_def c Let_def map_top_open)
qed

lemma open_part_has_child [open_keeps]: "open_part (map_top (\<lambda>f. f\<lparr>fr_has_child := c\<rparr>) s) = open_part s"
  by (rule map_top_open) simp

lemma open_part_set_mode: "open_part t = open_part s \<Longrightarrow> open_part (t\<lparr>sp_mode := md\<rparr>) = open_part (s\<lparr>sp_mode := md\<rparr>)"
  by (simp add: open_part_def)

lemma open_part_parts:
  assumes "open_part t = open_part s"
  shows "sp_mode t = sp_mode s" "sp_root_candidate t = sp_root_candidate s" "sp_feature_name t = sp_feature_name s"
    "root_open S p t = root_open S p s" "(sp_stack t = []) = (sp_stack s = [])"
  using assms root_open_cong [of t s S p] stack_cong [of "sp_stack t" "sp_stack s"] by (simp_all add: open_part_def)

lemma root_open_mode [simp]: "root_open S p (s\<lparr>sp_mode := md\<rparr>) = root_open S p s"
  "root_open S p (enter_feature raw s) = root_open S p s"
  by (simp_all add: root_open_def enter_feature_def split: option.splits)

lemma step_feature_ok:
  assumes "open_ok S p s" "sp_mode s = Feature d emit start b" "found_ok S p s (shift_markup (sp_base s) m)"
  shows "open_ok S (sp_base s + m_end m) (step_feature m d emit start b s)"
proof -
  note st = step_feature_open [OF assms]
  have o: "root_open S start s" "\<not> b \<longrightarrow> sp_root_candidate s = None" using assms(1,2) by (simp_all add: open_ok_def)
  let ?q = "sp_base s + m_end m"
  have le: "start \<le> ?q" using st(2,3) by simp
  have after: "open_ok S ?q (s\<lparr>sp_mode := Feature d' emit start b\<rparr>)"
    if "opened (sp_feature_name s) d' (slice start ?q S)" for d'
    using that o le by (simp add: open_ok_def)
  show ?thesis
  proof (cases "m_kind m = KEnd \<and> d = 1")
    case True
    then have "feature_element (slice start ?q S)" using st(1) by simp
    then have "root_open S ?q s" using o(1) le by (intro root_open_append [OF o(1) le] tags_element)
    then have "open_ok S ?q (s\<lparr>sp_mode := Outside\<rparr>)" by (simp add: open_ok_def)
    then show ?thesis
      using True open_ok_cong [OF open_part_end_feature] open_ok_cong [OF open_part_end_bounded_by]
      by (simp add: step_feature_def Let_def)
  next
    case False
    have same: "s\<lparr>sp_mode := Feature d emit start b\<rparr> = s" using assms(2) by simp
    show ?thesis
      using st(1) False after [of "d + 1"] after [of "d - 1"] after [of d, unfolded same]
      by (auto simp: step_feature_def split: kind.splits bool.splits)
  qed
qed

lemma start_feature_ok:
  assumes "sp_mode s = Outside" "sp_root_candidate s = None" "is_start_tag raw e (slice a q S)" "a \<le> q"
  shows "open_ok S q (start_feature name raw m e a d b s)"
proof -
  define s1 where "s1 = map_top (\<lambda>f. f\<lparr>fr_has_child := True\<rparr>) (undo_declarations d b s)"
  define emit where "emit = (case layers (sp_options s1) of None \<Rightarrow> True | Some ls \<Rightarrow> layer_wanted ls name)"
  define s2 where "s2 = (if emit then begin_feature a s1 else s1)"
  have "open_part s2 = open_part s" by (simp add: s2_def s1_def open_keeps)
  note p2 = open_part_parts [OF this]
  have root: "root_open S k s2" for k using assms(2) p2(2) by (simp add: root_open_def)
  have l: "start_feature name raw m e a d b s =
      (if e then end_feature emit a (m_end m) s2
       else (enter_feature raw s2)\<lparr>sp_mode := Feature 1 emit a False\<rparr>)"
    by (simp add: start_feature_def Let_def s1_def [symmetric] emit_def [symmetric] s2_def [symmetric])
  show ?thesis
  proof (cases e)
    case True
    have "open_ok S q s2" using root p2(1) assms(1) by (simp add: open_ok_def)
    then show ?thesis unfolding l using True open_ok_cong [OF open_part_end_feature] by simp
  next
    case False
    then have "opened raw 1 (slice a q S)" using assms(3) opened_first by simp
    then show ?thesis
      unfolding l using False root assms(2,4) p2(2) by (simp add: open_ok_def) (simp add: enter_feature_def)
  qed
qed

lemma start_bounded_by_ok:
  assumes "sp_mode s = Outside" "root_open S a s" "is_start_tag raw e (slice a q S)" "a \<le> q"
  shows "open_ok S q (start_bounded_by raw e a d b s)"
proof -
  note p = open_part_parts [OF open_part_ops(3) [of d b s]]
  show ?thesis
  proof (cases e)
    case True
    then have "root_open S q s" using assms by (intro root_open_append [OF assms(2,4)] tags_empty) auto
    then show ?thesis using True p(1) assms(1) p(4) [of S q] by (simp add: start_bounded_by_def open_ok_def)
  next
    case False
    then have "opened raw 1 (slice a q S)" using assms(3) opened_first by simp
    then show ?thesis
      using False assms(2,4) p(4) [of S a]
      by (simp add: start_bounded_by_def Let_def open_ok_def) (simp add: enter_feature_def)
  qed
qed

lemma container_found_open:
  assumes "root_open S a s" "sp_root_candidate s \<noteq> None \<longrightarrow> \<not> is_root"
  shows "sp_mode (container_found name start is_root s) = sp_mode s"
    and "\<not> is_root \<Longrightarrow> root_open S a (container_found name start is_root s)"
    and "map fr_raw_name (sp_stack (container_found name start is_root s)) = map fr_raw_name (sp_stack s)"
    and "(\<forall>f \<in> set (sp_stack (container_found name start is_root s)). \<not> fr_members f) = (\<forall>f \<in> set (sp_stack s). \<not> fr_members f)"
    and "sp_root_candidate (container_found name start is_root s) =
      (if (\<exists>rule \<in> set (member_rules (sp_options s)). rule_element rule = name) \<or> is_collection name then None
       else if is_root \<and> allow_single_feature_root (sp_options s) then Some start else sp_root_candidate s)"
proof -
  define s1 where "s1 = (if (\<exists>rule \<in> set (member_rules (sp_options s)). rule_element rule = name) \<or> is_collection name
        then s\<lparr>sp_saw_container := True, sp_root_candidate := None\<rparr>
        else if is_root \<and> allow_single_feature_root (sp_options s)
        then s\<lparr>sp_root_candidate := Some start\<rparr> else s)"
  have c: "container_found name start is_root s = map_top (\<lambda>f. f\<lparr>fr_has_child := True\<rparr>) s1"
    by (simp add: container_found_def s1_def)
  note p = open_part_parts [OF open_part_has_child [of True s1]]
  note st = stack_cong [of "sp_stack (map_top (\<lambda>f. f\<lparr>fr_has_child := True\<rparr>) s1)" "sp_stack s1"]
  have st1: "sp_stack s1 = sp_stack s" "sp_mode s1 = sp_mode s" by (simp_all add: s1_def)
  have same: "map (\<lambda>f. (fr_raw_name f, fr_members f)) (sp_stack (map_top (\<lambda>f. f\<lparr>fr_has_child := True\<rparr>) s1)) =
      map (\<lambda>f. (fr_raw_name f, fr_members f)) (sp_stack s1)"
    using open_part_has_child [of True s1] by (simp add: open_part_def)
  show "sp_mode (container_found name start is_root s) = sp_mode s" using p(1) st1 by (simp add: c)
  show "map fr_raw_name (sp_stack (container_found name start is_root s)) = map fr_raw_name (sp_stack s)"
    "(\<forall>f \<in> set (sp_stack (container_found name start is_root s)). \<not> fr_members f) = (\<forall>f \<in> set (sp_stack s). \<not> fr_members f)"
    using st [OF same] st1(1) by (simp_all add: c)
  show "sp_root_candidate (container_found name start is_root s) =
      (if (\<exists>rule \<in> set (member_rules (sp_options s)). rule_element rule = name) \<or> is_collection name then None
       else if is_root \<and> allow_single_feature_root (sp_options s) then Some start else sp_root_candidate s)"
    using p(2) by (simp add: c) (simp add: s1_def)
  show "root_open S a (container_found name start is_root s)" if "\<not> is_root"
  proof -
    have "root_open S a s1" using assms(1) that by (auto simp: s1_def root_open_def)
    then show ?thesis using p(4) by (simp add: c)
  qed
qed

lemma start_container_ok:
  assumes "sp_mode s = Outside" "root_open S a s" "is_start_tag raw e (slice a q S)" "a \<le> q"
    and root: "is_root \<longrightarrow> sp_root_candidate s = None \<and> sp_stack s = []"
  shows "open_ok S q (start_container name raw m e a is_root d b s)"
proof -
  define members where "members = (\<exists>rule \<in> set (member_rules (sp_options s)). rule_element rule = name)"
  define s2 where "s2 = container_found name a is_root s"
  define s4 where "s4 = (let s3 = undo_declarations d b s2
     in if members then s3\<lparr>sp_referenced_members := sp_referenced_members s3 + 1\<rparr> else s3)"
  have "sp_root_candidate s \<noteq> None \<longrightarrow> \<not> is_root" using root by auto
  note cf = container_found_open [OF assms(2) this, of name a, folded s2_def members_def]
  have p4: "open_part s4 = open_part s2" by (simp add: s4_def Let_def open_keeps)
  have eq: "start_container name raw m e a is_root d b s =
      (if e then if is_root then end_root (m_end m) s4 else s4
       else s2\<lparr>sp_stack := sp_stack s2 @
               [\<lparr>fr_raw_name = raw, fr_members = members, fr_has_child = False,
                 fr_bindings_before = b, fr_bounded_by = None\<rparr>]\<rparr>)"
    by (simp add: start_container_eq Let_def members_def s2_def s4_def)
  show ?thesis
  proof (cases e)
    case True
    show ?thesis
    proof (cases is_root)
      case True
      have "sp_mode (end_root (m_end m) s4) = Epilog \<and> sp_root_candidate (end_root (m_end m) s4) = None"
        by (cases "sp_root_candidate s4") (simp_all add: end_root_def Let_def keeps)
      then have "open_ok S q (end_root (m_end m) s4)" by (simp add: open_ok_def)
      then show ?thesis unfolding eq if_P [OF \<open>e\<close>] if_P [OF True] .
    next
      case False
      have "is_start_tag raw True (slice a q S)" using assms(3) \<open>e\<close> by simp
      then have "root_open S q s2" by (intro root_open_append [OF cf(2) [OF False] assms(4)] tags_empty)
      then have "open_ok S q s2" using cf(1) assms(1) by (simp add: open_ok_def)
      then show ?thesis unfolding eq if_P [OF \<open>e\<close>] if_not_P [OF False] open_ok_cong [OF p4] .
    qed
  next
    case False
    have st: "is_start_tag raw False (slice a q S)" using assms(3) False by simp
    have "root_open S q (s2\<lparr>sp_stack := sp_stack s2 @ [\<lparr>fr_raw_name = raw, fr_members = members, fr_has_child = False,
                 fr_bindings_before = b, fr_bounded_by = None\<rparr>]\<rparr>)"
    proof (cases "sp_root_candidate s2")
      case None
      then show ?thesis by (simp add: root_open_def)
    next
      case (Some start)
      then have m: "\<not> members" "start = a \<or> \<not> is_root" using cf(5) root by (auto split: if_splits)
      show ?thesis
      proof (cases is_root)
        case True
        then have "start = a" "sp_stack s2 = []" using m root cf(3) by auto
        then show ?thesis using Some m(1) st assms(4) tags_root by (simp add: root_open_def)
      next
        case False
        have "root_open S a s2" using cf(2) [OF False] .
        then have r: "start \<le> a" "\<forall>f \<in> set (sp_stack s2). \<not> fr_members f" "open_tags (map fr_raw_name (sp_stack s2)) (slice start a S)"
          using Some by (simp_all add: root_open_def)
        show ?thesis
          using tags_start [OF r(3) st] r(1,2) assms(4) Some m(1) by (simp add: root_open_def slice_append_slice)
      qed
    qed
    moreover have "sp_mode s2 = Outside" using cf(1) assms(1) by simp
    ultimately show ?thesis unfolding eq if_not_P [OF False] by (simp add: open_ok_def)
  qed
qed

lemma tag_resolved_ok:
  assumes "open_ok S a s" "sp_mode s = Prolog \<or> sp_mode s = Outside" "is_start_tag raw e (slice a q S)" "a \<le> q"
    and "a = sp_base s + m_start m"
  shows "open_ok S q (tag_resolved x m name raw attributes before declared e s)"
proof -
  define is_root where "is_root = (sp_mode s = Prolog)"
  define s3 where "s3 = (if is_root then (read_header x name attributes before s)\<lparr>sp_mode := Outside\<rparr> else s)"
  have s3: "sp_mode s3 = Outside" "sp_root_candidate s3 = sp_root_candidate s" "sp_stack s3 = sp_stack s"
    using assms(2) by (auto simp: s3_def is_root_def read_header_def Let_def split: prod.splits)
  have root: "is_root \<longrightarrow> sp_root_candidate s3 = None \<and> sp_stack s3 = []"
    using assms(1) s3 by (auto simp: open_ok_def is_root_def)
  have ro: "root_open S a s3"
  proof (cases is_root)
    case True
    then show ?thesis using root by (simp add: root_open_def)
  next
    case False
    then show ?thesis using assms(1,2) by (simp add: s3_def is_root_def open_ok_def)
  qed
  have none: "sp_root_candidate s3 = None" if "sp_stack s3 \<noteq> []" "fr_members (last (sp_stack s3))"
    using that ro by (auto simp: root_open_def split: option.splits)
  note sf = start_feature_ok [OF s3(1) _ assms(3,4), where name = name and m = m and d = declared and b = before]
  show ?thesis
    unfolding tag_resolved_def Let_def is_root_def [symmetric] s3_def [symmetric] assms(5) [symmetric]
    using none sf start_bounded_by_ok [OF s3(1) ro assms(3,4)] start_container_ok [OF s3(1) ro assms(3,4) root]
    by simp
qed

lemma start_tag_ok:
  assumes "open_ok S a s" "sp_mode s = Prolog \<or> sp_mode s = Outside" "is_start_tag (take n tag) e (slice a q S)" "a \<le> q"
    and "a = sp_base s + m_start m" "start_tag x m tag n e s = (Inr u, t)"
  shows "open_ok S q t"
proof -
  obtain as where as: "utf8_valid tag" "parse_attributes (drop n tag) = Inr as"
    using assms(6) unfolding start_tag_eq by (cases "utf8_valid tag"; cases "parse_attributes (drop n tag)") simp_all
  obtain r s2 where r: "resolve_element (take n tag) (push_declarations x as s) = (r, s2)"
    by (cases "resolve_element (take n tag) (push_declarations x as s)")
  have "open_part s2 = open_part s" using open_part_ops(5) [of "take n tag" "push_declarations x as s"] by (simp add: r open_keeps)
  then have p: "open_ok S a s2" "sp_mode s2 = sp_mode s" using assms(1) open_ok_cong [of s2 s S a] open_part_parts(1) [of s2 s] by simp_all
  have b: "sp_base s2 = sp_base s" using scan_part_eqD(4) [OF resolved_keeps(1) [OF r]] by simp
  obtain name where t: "t = tag_resolved x m name (take n tag) as (length (sp_bindings s))
      (length (sp_bindings s) < length (sp_bindings (push_declarations x as s))) e s2"
    using assms(6) unfolding start_tag_eq Let_def by (cases r) (auto simp: as r)
  show ?thesis
    unfolding t by (rule tag_resolved_ok [OF p(1) _ assms(3,4)]) (use p(2) assms(2,5) b in simp_all)
qed

text \<open>The end of the root, and of the elements in it.\<close>

lemma end_text:
  assumes "is_end_tag named (slice a q S)" "a \<le> q" "q \<le> length S"
  shows "is_end_tag (\<lambda>t. t = slice (a + 2) (q - 1) S \<and> named t) (slice a q S)"
proof -
  obtain t where t: "slice a q S = ''</'' @ t @ ''>''" "closes ''>'' t" "named t"
    using assms(1) by (auto simp: is_end_tag_def)
  have l: "q - a = length t + 3" using arg_cong [OF t(1), of length] assms(2,3) by simp
  have "q - 1 - (a + 2) = length t" "q - a - 2 = length t + 1" using l by linarith+
  then have "slice (a + 2) (q - 1) S = take (length t) (drop 2 (slice a q S))"
    by (simp add: slice_def drop_take add.commute)
  then have "t = slice (a + 2) (q - 1) S" by (simp add: t(1))
  then show ?thesis using t by (auto simp: is_end_tag_def)
qed

lemma root_ends:
  assumes "root_open S a s" "sp_root_candidate s = Some start" "sp_stack s = [f]" "a \<le> q"
    and "is_end_tag (\<lambda>t. trim_ascii t = fr_raw_name f) (slice a q S)"
  shows "whole_element (slice start q S)"
proof -
  have "start \<le> a" "open_tags [fr_raw_name f] (slice start a S)" using assms(1-3) by (simp_all add: root_open_def)
  moreover from this have "slice start q S = slice start a S @ slice a q S" using assms(4) by (simp add: slice_append_slice)
  ultimately show ?thesis using assms(5) by (auto simp: whole_element_def root_element_def)
qed

lemma end_outside_ok:
  assumes "root_open S a s" "sp_mode s = Outside" "a = sp_base s + m_start m" "q = sp_base s + m_end m" "a \<le> q" "q \<le> length S"
    and "is_end_tag (\<lambda>t. True) (slice a q S)" "in_doc S s" "m_end m \<le> length (sp_buf s)"
    and "end_outside m s = (Inr u, t)"
  shows "open_ok S q t"
    and "sp_stack s = [f] \<Longrightarrow> sp_root_candidate s = Some start \<Longrightarrow> whole_element (slice start q S)"
proof -
  define f where "f = last (sp_stack s)"
  define s1 where "s1 = s\<lparr>sp_stack := butlast (sp_stack s)\<rparr>"
  define s2 where "s2 = (if fr_members f \<and> \<not> fr_has_child f
      then s1\<lparr>sp_referenced_members := sp_referenced_members s1 + 1\<rparr> else s1)"
  define s3 where "s3 = undo_declarations (fr_bindings_before f < length (sp_bindings s2)) (fr_bindings_before f) s2"
  let ?name = "trim_ascii (slice (m_start m + 2) (m_end m - 1) (sp_buf s))"
  have ne: "sp_stack s \<noteq> []" "fr_raw_name f = ?name"
    using assms(10) unfolding end_outside_def Let_def f_def [symmetric] by (auto split: if_splits)
  then have t: "t = (if sp_stack s3 = [] then end_root (m_end m) s3 else s3)"
    using assms(10)
    unfolding end_outside_def Let_def f_def [symmetric] s1_def [symmetric] s2_def [symmetric] s3_def [symmetric] by simp
  have "slice (a + 2) (q - 1) S = slice (m_start m + 2) (m_end m - 1) (sp_buf s)"
  proof -
    have "3 \<le> length (slice a q S)" using assms(7) by (auto simp: is_end_tag_def)
    then have "q - 1 = sp_base s + (m_end m - 1)" using assms(3,4) by (simp add: slice_def) linarith
    then show ?thesis
      using in_doc_slice [OF assms(8), of "m_end m - 1" "m_start m + 2"] assms(3,9) by (simp add: add.assoc)
  qed
  then have tag: "is_end_tag (\<lambda>t. trim_ascii t = fr_raw_name f) (slice a q S)"
    using end_text [OF assms(7,5,6)] ne(2) by (auto simp: is_end_tag_def)
  show "whole_element (slice start q S)" if "sp_stack s = [f']" "sp_root_candidate s = Some start" for f'
    using root_ends [OF assms(1) that(2,1) assms(5)] tag that(1) by (simp add: f_def)
  have p3: "open_part s3 = open_part s1" by (simp add: s3_def s2_def open_keeps)
  note pp = open_part_parts [OF p3]
  show "open_ok S q t"
  proof (cases "sp_stack s3 = []")
    case True
    have "sp_mode (end_root (m_end m) s3) = Epilog \<and> sp_root_candidate (end_root (m_end m) s3) = None"
      by (cases "sp_root_candidate s3") (simp_all add: end_root_def Let_def keeps)
    then show ?thesis using True by (simp add: t open_ok_def)
  next
    case False
    then have bl: "butlast (sp_stack s) \<noteq> []" using pp(5) by (simp add: s1_def)
    have sp: "sp_stack s = butlast (sp_stack s) @ [f]" using ne(1) by (simp add: f_def)
    have "root_open S q s1"
    proof (cases "sp_root_candidate s")
      case (Some st)
      then have r: "st \<le> a" "\<forall>f \<in> set (sp_stack s). \<not> fr_members f" "open_tags (map fr_raw_name (sp_stack s)) (slice st a S)"
        using assms(1) by (simp_all add: root_open_def)
      have "open_tags (map fr_raw_name (butlast (sp_stack s)) @ [fr_raw_name f]) (slice st a S)"
        using r(3) by (subst (asm) sp) simp
      from tags_end [OF this _ tag] bl r(1) assms(5) have "open_tags (map fr_raw_name (butlast (sp_stack s))) (slice st q S)"
        by (simp add: slice_append_slice)
      then show ?thesis using r(1,2) assms(5) Some in_set_butlastD [of _ "sp_stack s"] by (auto simp: root_open_def s1_def)
    qed (simp add: root_open_def s1_def)
    then have "root_open S q s3" using pp(4) by simp
    then show ?thesis using False pp(1) assms(2) by (simp add: t open_ok_def s1_def)
  qed
qed

lemma open_before_markup:
  assumes "open_here S m s" "sp_mode s = Prolog \<or> sp_mode s = Outside"
  shows "open_ok S (sp_base s + m_start m) s" "markup_text S (shift_markup (sp_base s) m)"
proof -
  obtain p where p: "open_ok S p s" "found_ok S p s (shift_markup (sp_base s) m)"
    using assms(1) by (auto simp: open_here_def)
  have f: "p \<le> sp_base s + m_start m" "CHR ''<'' \<notin> set (slice p (sp_base s + m_start m) S)"
      "markup_text S (shift_markup (sp_base s) m)"
    using p(2) assms(2) by (auto simp: found_ok_def in_feature_def)
  show "markup_text S (shift_markup (sp_base s) m)" by (rule f(3))
  show "open_ok S (sp_base s + m_start m) s"
    using assms(2)
  proof
    assume "sp_mode s = Outside"
    then show ?thesis using p(1) root_open_text [OF _ f(1,2)] by (simp add: open_ok_def)
  qed (use p(1) in \<open>simp add: open_ok_def\<close>)
qed

lemma tag_text:
  assumes "in_doc S s" "m_end m \<le> length (sp_buf s)" "markup_ok S (shift_markup (sp_base s) m)"
    and "markup_text S (shift_markup (sp_base s) m)" "m_kind m = KStart name_end e"
  shows "is_start_tag (take (name_end - m_start m - 1)
      (slice (m_start m + 1) (if e then m_end m - 2 else m_end m - 1) (sp_buf s))) e
    (slice (sp_base s + m_start m) (sp_base s + m_end m) S)"
proof -
  define tag_to where "tag_to = (if e then m_end m - 2 else m_end m - 1)"
  have b: "m_start m < name_end" "name_end \<le> tag_to" "tag_to \<le> m_end m"
    using assms(3,5) by (auto simp: markup_ok_def tag_to_def split: if_splits)
  have "take (name_end - m_start m - 1) (slice (m_start m + 1) tag_to (sp_buf s)) = slice (m_start m + 1) name_end (sp_buf s)"
    using b by (simp add: slice_def min_def)
  also have "\<dots> = slice (sp_base s + (m_start m + 1)) (sp_base s + name_end) S"
    by (rule in_doc_slice [OF assms(1), symmetric]) (use b assms(2) in simp)
  finally have t: "take (name_end - m_start m - 1) (slice (m_start m + 1) tag_to (sp_buf s)) =
      slice (sp_base s + m_start m + 1) (sp_base s + name_end) S"
    by (simp add: add.assoc)
  show ?thesis
    unfolding tag_to_def [symmetric] t using assms(4,5) by (simp add: markup_text_def Let_def)
qed

lemma step_markup_ok:
  assumes "in_doc S s" "m_end m \<le> length (sp_buf s)" "markup_ok S (shift_markup (sp_base s) m)" "open_here S m s"
    and "step_markup x m s = (Inr u, t)"
  shows "open_ok S (sp_base s + m_end m) t"
proof -
  let ?a = "sp_base s + m_start m" and ?q = "sp_base s + m_end m"
  have le: "?a \<le> ?q" "?q \<le> length S" using assms(3) by (simp_all add: markup_ok_def)
  consider (feature) d emit start b where "sp_mode s = Feature d emit start b" | (epilog) "sp_mode s = Epilog"
    | (outside) "sp_mode s = Prolog \<or> sp_mode s = Outside"
    by (cases "sp_mode s") auto
  then show ?thesis
  proof cases
    case feature
    obtain p where p: "open_ok S p s" "found_ok S p s (shift_markup (sp_base s) m)"
      using assms(4) by (auto simp: open_here_def)
    have "t = step_feature m d emit start b s" using assms(5) feature by (simp add: step_markup_def)
    then show ?thesis using step_feature_ok [OF p(1) feature p(2)] by simp
  next
    case epilog
    then have "t = s" using assms(5) by (auto simp: step_markup_def split: if_splits)
    then show ?thesis using assms(4) epilog by (auto simp: open_here_def open_ok_def)
  next
    case outside
    note ob = open_before_markup [OF assms(4) outside]
    show ?thesis
    proof (cases "m_kind m")
      case (KStart name_end e)
      then have "start_outside x m name_end e s = (Inr u, t)" using assms(5) outside by (auto simp: step_markup_def)
      then show ?thesis
        unfolding start_outside_def Let_def
        by (intro start_tag_ok [OF ob(1) outside tag_text [OF assms(1-3) ob(2) KStart] le(1) refl])
    next
      case KEnd
      then have e: "end_outside m s = (Inr u, t)" using assms(5) outside by (auto simp: step_markup_def)
      have "sp_stack s \<noteq> []" using e by (auto simp: end_outside_def Let_def)
      then have o: "sp_mode s = Outside" using outside ob(1) by (auto simp: open_ok_def)
      have "is_end_tag (\<lambda>t. True) (slice ?a ?q S)" using ob(2) KEnd by (simp add: markup_text_def Let_def)
      then show ?thesis
        using end_outside_ok(1) [OF _ o refl refl le _ assms(1,2) e] ob(1) o by (simp add: open_ok_def)
    next
      case KOther
      then have t: "t = s" using assms(5) outside by (auto simp: step_markup_def)
      have "is_other_markup (slice ?a ?q S)" using ob(2) KOther by (simp add: markup_text_def Let_def)
      then have "root_open S ?a s \<Longrightarrow> root_open S ?q s" by (intro root_open_append [OF _ le(1)] tags_other)
      then show ?thesis using ob(1) outside t by (auto simp: open_ok_def)
    qed
  qed
qed

text \<open>What the scanner finds in a state is the next markup.\<close>

lemma scanner_finds:
  assumes "ext_ok x" "in_step S s" "open_ok S (sp_base s + sp_pos s) s"
    and "(if in_feature (sp_mode s) then next_feature_markup x s else next_markup x s) = (Inr (Some m), t)"
  shows "open_here S m t"
proof -
  let ?p = "sp_base s + sp_pos s"
  have "refines S (rel_markup S) (Inr (Some m), t)
      (if in_feature (sp_mode s) then next_feature_markup x (whole S s) else next_markup x (whole S s))"
    unfolding assms(4) [symmetric]
    using next_markup_refines [OF assms(1,2)] next_feature_markup_refines [OF assms(1,2)] by simp
  then have w: "(if in_feature (sp_mode s) then next_feature_markup x (whole S s) else next_markup x (whole S s)) =
      (Inr (Some (shift_markup (sp_base t) m)), whole S t)"
    unfolding refines_def rel_markup_def by (auto split: sum.splits prod.splits intro!: prod_eqI)
  have p: "?p \<le> length S" by (rule in_step_bounds(3) [OF assms(2)])
  have mach: "machine t = machine s"
    using assms(4) machine_next_markup [of x s] machine_next_feature_markup [of x s] by (auto split: if_splits)
  have part: "open_part t = open_part s"
    using arg_cong [OF mach, of open_part] by (simp add: machine_def open_part_def)
  have "found_ok S ?p s (shift_markup (sp_base t) m)"
  proof (cases "in_feature (sp_mode s)")
    case True
    then have "\<not> list_ex name_stop (sp_feature_name s)"
      using assms(3) by (auto simp: open_ok_def in_feature_def split: mode.splits dest: opened_name)
    then show ?thesis
      using next_feature_markup_found [OF assms(1) _ p] w True by (simp add: found_ok_def)
  next
    case False
    then show ?thesis
      using next_markup_text [OF assms(1) p] markup_text_bounds [of S "shift_markup (sp_base t) m"] w by (simp add: found_ok_def)
  qed
  then show ?thesis
    unfolding open_here_def using assms(3) part open_ok_cong [OF part] by (auto simp: found_ok_def open_part_def)
qed

end
