(* ===== verification/Splitter_Chunks.thy ===== *)
theory Splitter_Chunks
  imports Splitter_Elements
begin

text \<open>
  The chunks of the splitter: each is a run of whole elements of the document, its
  \<open>feature_offsets\<close> lead back to the document, chunks and features are numbered without a gap,
  and a chunk is closed as soon as it reaches the target size. \<open>split_inv\<close> is the invariant of a
  run; \<open>chunk_keeps\<close> and \<open>finished_keeps\<close> collect what the operations leave alone.
\<close>

subsection \<open>The layout of a chunk\<close>

text \<open>Where the \<open>i\<close>-th feature of a chunk ends.\<close>

definition feature_end :: "feature_offset list \<Rightarrow> bytes \<Rightarrow> nat \<Rightarrow> nat" where
  "feature_end offs bs i = (if Suc i < length offs then in_chunk (offs ! Suc i) else length bs)"

text \<open>\<open>e\<close> is the element of the document at \<open>start\<close>.\<close>

definition element_at :: "bytes \<Rightarrow> nat \<Rightarrow> bytes \<Rightarrow> bool" where
  "element_at S start e \<longleftrightarrow>
     e \<noteq> [] \<and> start + length e \<le> length S \<and> e = slice start (start + length e) S \<and>
     hd e = CHR ''<'' \<and> last e = CHR ''>'' \<and> whole_element e"

definition layout_ok :: "bytes \<Rightarrow> nat \<Rightarrow> feature_offset list \<Rightarrow> bytes \<Rightarrow> bool" where
  "layout_ok S base offs bs \<longleftrightarrow>
     (offs = [] \<longleftrightarrow> bs = []) \<and>
     (offs \<noteq> [] \<longrightarrow> in_chunk (hd offs) = 0 \<and> in_stream (hd offs) = base) \<and>
     (\<forall>i < length offs.
        in_chunk (offs ! i) < feature_end offs bs i \<and> feature_end offs bs i \<le> length bs \<and>
        element_at S (in_stream (offs ! i)) (slice (in_chunk (offs ! i)) (feature_end offs bs i) bs))"

lemma layout_ok_Nil [simp]: "layout_ok S base [] []"
  by (simp add: layout_ok_def)

lemma layout_ok_snoc:
  assumes l: "layout_ok S base offs bs" and e: "element_at S start e" and b: "offs = [] \<longrightarrow> start = base"
  shows "layout_ok S base (offs @ [\<lparr>in_chunk = length bs, in_stream = start\<rparr>]) (bs @ e)"
proof -
  let ?o = "offs @ [\<lparr>in_chunk = length bs, in_stream = start\<rparr>]"
  have ne: "e \<noteq> []" using e by (simp add: element_at_def)
  have old: "feature_end ?o (bs @ e) i = feature_end offs bs i" if "i < length offs" for i
    using that by (auto simp: feature_end_def nth_append)
  have fe: "in_chunk (?o ! i) < feature_end ?o (bs @ e) i \<and> feature_end ?o (bs @ e) i \<le> length (bs @ e) \<and>
      element_at S (in_stream (?o ! i)) (slice (in_chunk (?o ! i)) (feature_end ?o (bs @ e) i) (bs @ e))"
    if "i < length ?o" for i
  proof (cases "i < length offs")
    case True
    then have n: "?o ! i = offs ! i" by (simp add: nth_append)
    have f: "in_chunk (offs ! i) < feature_end offs bs i" "feature_end offs bs i \<le> length bs"
      "element_at S (in_stream (offs ! i)) (slice (in_chunk (offs ! i)) (feature_end offs bs i) bs)"
      using l True unfolding layout_ok_def by auto
    then show ?thesis
      unfolding n old [OF True] by (simp add: slice_append_left)
  next
    case False
    then have i: "i = length offs" using that by simp
    then have n: "?o ! i = \<lparr>in_chunk = length bs, in_stream = start\<rparr>" by simp
    have fe: "feature_end ?o (bs @ e) i = length (bs @ e)" by (simp add: feature_end_def i)
    have "slice (length bs) (length (bs @ e)) (bs @ e) = e" by (simp add: slice_def)
    then show ?thesis
      unfolding n fe using e ne by simp
  qed
  show ?thesis
    unfolding layout_ok_def using ne l b fe by (auto simp: layout_ok_def)
qed

lemma layout_elements:
  "layout_ok S base offs bs \<Longrightarrow>
   \<forall>i < length offs. whole_element (slice (in_chunk (offs ! i)) (feature_end offs bs i) bs)"
  by (simp add: layout_ok_def element_at_def)

lemma partition_point_le: "partition_point p xs \<le> length xs"
  by (induction xs) auto

lemma partition_point_nth:
  "j < partition_point p xs \<Longrightarrow> p (xs ! j)"
  "partition_point p xs < length xs \<Longrightarrow> \<not> p (xs ! partition_point p xs)"
  by (induction xs arbitrary: j) (auto simp: nth_Cons' split: if_splits)

lemma slice_nth_eq:
  assumes "element_at S start (slice a b bs)" "a \<le> p" "p < b" "b \<le> length bs"
  shows "start + (p - a) < length S \<and> bs ! p = S ! (start + (p - a))"
proof -
  have len: "length (slice a b bs) = b - a" using assms(4) by simp
  have st: "start + (b - a) \<le> length S" using assms(1) unfolding element_at_def len by simp
  have "bs ! p = slice a b bs ! (p - a)" using assms nth_slice [of a "p - a" b bs] by simp
  also have "\<dots> = slice start (start + (b - a)) S ! (p - a)"
    using assms(1) unfolding element_at_def len by metis
  also have "\<dots> = S ! (start + (p - a))" using st assms(2,3) by (simp add: nth_slice)
  finally show ?thesis using st assms(2,3) by simp
qed

text \<open>\<open>stream_offset\<close> maps every position of a chunk to its place in the document.\<close>

lemma stream_offset_layout:
  assumes "layout_ok S base offs bs" "p < length bs"
  shows "stream_offset offs base p < length S \<and> bs ! p = S ! stream_offset offs base p"
proof -
  let ?P = "\<lambda>off. in_chunk off \<le> p"
  have ne: "offs \<noteq> []" using assms by (auto simp: layout_ok_def)
  have "?P (hd offs)" using assms(1) ne by (simp add: layout_ok_def)
  then obtain i where i: "partition_point ?P offs = Suc i" using ne by (cases offs) auto
  have il: "i < length offs" using partition_point_le [of ?P offs] i by simp
  have le: "in_chunk (offs ! i) \<le> p" using partition_point_nth(1) [of i ?P offs] i by simp
  have lt: "p < feature_end offs bs i"
  proof (cases "Suc i < length offs")
    case True
    then show ?thesis using partition_point_nth(2) [of ?P offs] by (simp add: i feature_end_def)
  next
    case False
    then show ?thesis using assms(2) by (simp add: feature_end_def)
  qed
  have f: "feature_end offs bs i \<le> length bs"
      "element_at S (in_stream (offs ! i)) (slice (in_chunk (offs ! i)) (feature_end offs bs i) bs)"
    using assms(1) il by (auto simp: layout_ok_def)
  show ?thesis
    using slice_nth_eq [OF f(2) le lt f(1)] by (simp add: stream_offset_def i)
qed

subsection \<open>The invariant of the chunks\<close>

text \<open>\<open>chain a cs b\<close>: the chunks \<open>cs\<close> take the counters (next chunk, next feature) from
  \<open>a\<close> to \<open>b\<close>, one chunk and at least one feature at a time.\<close>

fun chain :: "nat \<times> nat \<Rightarrow> feature_chunk list \<Rightarrow> nat \<times> nat \<Rightarrow> bool" where
  "chain a [] b \<longleftrightarrow> a = b"
| "chain (q, f) (c # cs) b \<longleftrightarrow>
     fc_seq c = q \<and> fc_first_feature_seq c = f \<and> fc_features c = length (fc_feature_offsets c) \<and>
     0 < fc_features c \<and> chain (q + 1, f + fc_features c) cs b"

lemma chain_append: "chain a (cs @ ds) b \<longleftrightarrow> (\<exists>m. chain a cs m \<and> chain m ds b)"
  by (induction a cs b rule: chain.induct) auto

lemma chain_seq: "chain (q, f) cs b \<Longrightarrow> map fc_seq cs = [q..<q + length cs] \<and> fst b = q + length cs"
proof (induction cs arbitrary: q f)
  case Nil
  then show ?case by auto
next
  case (Cons c cs)
  then have "map fc_seq cs = [q + 1..<q + 1 + length cs]" "fst b = q + 1 + length cs" "fc_seq c = q"
    by fastforce+
  moreover have "[q..<q + length (c # cs)] = q # [q + 1..<q + 1 + length cs]"
    by (simp add: upt_conv_Cons del: upt_Suc)
  ultimately show ?case by simp
qed

lemma chain_features: "chain (q, f) cs b \<Longrightarrow> snd b = f + sum_list (map fc_features cs)"
  by (induction cs arbitrary: q f) fastforce+

lemma chain_counts: "chain a cs b \<Longrightarrow> \<forall>c \<in> set cs. 0 < fc_features c \<and> fc_features c = length (fc_feature_offsets c)"
proof (induction a cs b rule: chain.induct)
  case (1 a b)
  show ?case by simp
next
  case (2 q f c cs b)
  then show ?case unfolding chain.simps by (metis set_ConsD)
qed

definition chunk_ok :: "bytes \<Rightarrow> nat \<Rightarrow> nat \<Rightarrow> feature_chunk \<Rightarrow> bool" where
  "chunk_ok S source target c \<longleftrightarrow>
     layout_ok S (fc_byte_offset c) (fc_feature_offsets c) (fc_bytes c) \<and> fc_bytes c \<noteq> [] \<and>
     fc_source c = source \<and>
     (in_chunk (last (fc_feature_offsets c)) = 0 \<or> in_chunk (last (fc_feature_offsets c)) < target)"

definition first_pending :: "splitter \<Rightarrow> nat" where
  "first_pending s = (if sp_chunk s = [] then sp_features_emitted s else sp_chunk_first_feature s)"

definition begun :: "nat \<Rightarrow> splitter \<Rightarrow> bool" where
  "begun start s \<longleftrightarrow>
     (sp_chunk s = [] \<longrightarrow> sp_chunk_offset s = start \<and> sp_chunk_first_feature s = sp_features_emitted s)"

definition chunk_inv :: "bytes \<Rightarrow> nat \<times> nat \<Rightarrow> splitter \<Rightarrow> bool" where
  "chunk_inv S a s \<longleftrightarrow>
     layout_ok S (sp_chunk_offset s) (sp_chunk_features s) (sp_chunk s) \<and>
     (sp_chunk s \<noteq> [] \<longrightarrow>
        sp_chunk_first_feature s + length (sp_chunk_features s) = sp_features_emitted s \<and>
        length (sp_chunk s) < target_chunk_bytes (sp_options s) \<and>
        (in_chunk (last (sp_chunk_features s)) = 0 \<or>
         in_chunk (last (sp_chunk_features s)) < target_chunk_bytes (sp_options s))) \<and>
     (\<forall>c \<in> set (sp_ready s). chunk_ok S (sp_source s) (target_chunk_bytes (sp_options s)) c) \<and>
     chain a (sp_ready s) (sp_next_seq s, first_pending s)"

text \<open>What \<open>chunk_inv\<close> reads.\<close>

definition chunk_part where
  "chunk_part s =
     (sp_chunk s, sp_chunk_features s, sp_chunk_offset s, sp_chunk_first_feature s,
      sp_features_emitted s, sp_options s, sp_source s, sp_ready s, sp_next_seq s)"

lemma chunk_inv_cong: "chunk_part t = chunk_part s \<Longrightarrow> chunk_inv S a t = chunk_inv S a s"
  by (simp add: chunk_inv_def chunk_part_def first_pending_def)

lemma begun_cong: "chunk_part t = chunk_part s \<Longrightarrow> begun st t = begun st s"
  by (simp add: begun_def chunk_part_def)

lemma flush_chunk_inv:
  assumes "chunk_inv S a s"
  shows "chunk_inv S a (flush_chunk s)" "sp_chunk (flush_chunk s) = []"
proof -
  show "sp_chunk (flush_chunk s) = []" by (simp add: flush_chunk_def)
  show "chunk_inv S a (flush_chunk s)"
  proof (cases "sp_chunk s = []")
    case True
    then show ?thesis using assms by (simp add: flush_chunk_def)
  next
    case False
    then have ne: "sp_chunk_features s \<noteq> []"
      and e: "sp_chunk_first_feature s + length (sp_chunk_features s) = sp_features_emitted s"
      using assms by (auto simp: chunk_inv_def layout_ok_def)
    have f: "sp_features_emitted s - sp_chunk_first_feature s = length (sp_chunk_features s)"
      using e by simp
    show ?thesis
      using assms False ne e
      by (auto simp: chunk_inv_def flush_chunk_def chunk_ok_def first_pending_def chain_append f)
  qed
qed

lemma current_context_chunk: "chunk_part (snd (current_context s)) = chunk_part s"
  by (simp add: current_context_def chunk_part_def Let_def)

lemma begin_feature_inv:
  assumes "chunk_inv S a s"
  shows "chunk_inv S a (begin_feature start s)" "begun start (begin_feature start s)"
proof -
  obtain c t where c: "current_context s = (c, t)" by (cases "current_context s")
  have "chunk_inv S a t"
    using assms chunk_inv_cong [OF current_context_chunk [of s], of S a] by (simp add: c)
  define u where "u = (if sp_chunk t \<noteq> [] \<and> (\<not> ptr_eq c (sp_chunk_context t) \<or>
      \<not> same_bounds (collection_bounded_by t) (sp_chunk_bounded_by t)) then flush_chunk t else t)"
  have u: "chunk_inv S a u" using flush_chunk_inv(1) \<open>chunk_inv S a t\<close> by (simp add: u_def)
  have eq: "begin_feature start s = (if sp_chunk u = []
         then u\<lparr>sp_chunk_bounded_by := collection_bounded_by u, sp_chunk_context := c,
                 sp_chunk_offset := start, sp_chunk_first_feature := sp_features_emitted u\<rparr>
         else u)"
    by (simp add: begin_feature_def c Let_def u_def)
  show "begun start (begin_feature start s)" by (simp add: eq begun_def)
  show "chunk_inv S a (begin_feature start s)"
    using u by (auto simp: eq chunk_inv_def first_pending_def layout_ok_def)
qed

lemma end_feature_inv:
  assumes "chunk_inv S a s" "emit \<longrightarrow> begun start s"
    and "emit \<longrightarrow> element_at S start (slice (start - sp_base s) end_at (sp_buf s))"
  shows "chunk_inv S a (end_feature emit start end_at s)"
proof (cases emit)
  case True
  let ?e = "slice (start - sp_base s) end_at (sp_buf s)"
  define s1 where "s1 = s\<lparr>sp_chunk_features :=
                     sp_chunk_features s @ [\<lparr>in_chunk = length (sp_chunk s), in_stream = start\<rparr>],
                   sp_chunk := sp_chunk s @ ?e,
                   sp_features_emitted := sp_features_emitted s + 1\<rparr>"
  have e: "element_at S start ?e" "?e \<noteq> []" using assms(3) True by (auto simp: element_at_def)
  have lay: "layout_ok S (sp_chunk_offset s) (sp_chunk_features s) (sp_chunk s)"
    using assms(1) by (simp add: chunk_inv_def)
  have "sp_chunk_features s = [] \<longrightarrow> start = sp_chunk_offset s"
    using assms(2) True lay by (auto simp: begun_def layout_ok_def)
  then have lay1: "layout_ok S (sp_chunk_offset s1) (sp_chunk_features s1) (sp_chunk s1)"
    using layout_ok_snoc [OF lay e(1)] by (simp add: s1_def)
  have cnt: "sp_chunk_first_feature s1 + length (sp_chunk_features s1) = sp_features_emitted s1"
    using assms(1,2) True lay by (auto simp: s1_def chunk_inv_def begun_def layout_ok_def)
  have last: "in_chunk (last (sp_chunk_features s1)) = 0 \<or>
      in_chunk (last (sp_chunk_features s1)) < target_chunk_bytes (sp_options s1)"
    using assms(1) by (auto simp: s1_def chunk_inv_def)
  have ready: "\<forall>c \<in> set (sp_ready s1). chunk_ok S (sp_source s1) (target_chunk_bytes (sp_options s1)) c"
    using assms(1) by (simp add: s1_def chunk_inv_def)
  have ch: "chain a (sp_ready s1) (sp_next_seq s1, sp_chunk_first_feature s1)"
    using assms(1,2) True by (auto simp: s1_def chunk_inv_def first_pending_def begun_def split: if_splits)
  have ne: "sp_chunk s1 \<noteq> []" "sp_chunk_features s1 \<noteq> []" using e(2) by (simp_all add: s1_def)
  have f: "sp_features_emitted s1 - sp_chunk_first_feature s1 = length (sp_chunk_features s1)"
    using cnt by simp
  have r: "end_feature emit start end_at s =
      (if target_chunk_bytes (sp_options s1) \<le> length (sp_chunk s1) then flush_chunk s1 else s1)"
    using True by (simp add: end_feature_def s1_def Let_def)
  show ?thesis
  proof (cases "target_chunk_bytes (sp_options s1) \<le> length (sp_chunk s1)")
    case True
    then show ?thesis
      using ne lay1 last ready ch f cnt
      by (auto simp: r flush_chunk_def chunk_inv_def chunk_ok_def first_pending_def chain_append)
  next
    case False
    then show ?thesis
      using ne lay1 last ready ch cnt by (simp add: r chunk_inv_def first_pending_def)
  qed
next
  case False
  then show ?thesis using assms by (simp add: end_feature_def)
qed

subsection \<open>The state machine keeps the chunks right\<close>

named_theorems chunk_keeps \<open>operations that leave the chunks alone\<close>

lemma chunk_part_updates [chunk_keeps]:
  "chunk_part (s\<lparr>sp_mode := md\<rparr>) = chunk_part s"
  "chunk_part (s\<lparr>sp_root_candidate := rc\<rparr>) = chunk_part s"
  "chunk_part (s\<lparr>sp_root_feature := rf\<rparr>) = chunk_part s"
  "chunk_part (s\<lparr>sp_saw_container := sc\<rparr>) = chunk_part s"
  "chunk_part (s\<lparr>sp_referenced_members := rm\<rparr>) = chunk_part s"
  "chunk_part (s\<lparr>sp_stack := st\<rparr>) = chunk_part s"
  "chunk_part (s\<lparr>sp_finished := fi\<rparr>) = chunk_part s"
  by (simp_all add: chunk_part_def)

lemma chunk_part_ops [chunk_keeps]:
  "chunk_part (map_top f s) = chunk_part s" "chunk_part (enter_feature r s) = chunk_part s"
  "chunk_part (undo_declarations d b s) = chunk_part s" "chunk_part (push_declarations x as s) = chunk_part s"
  "chunk_part (snd (resolve_element raw s)) = chunk_part s" "chunk_part (read_header x q as b s) = chunk_part s"
  "chunk_part (container_found n st rt s) = chunk_part s"
  by (simp_all add: map_top_def enter_feature_def undo_declarations_def push_declarations_def
      resolve_element_def read_header_def container_found_def chunk_part_def Let_def
      split: option.splits prod.splits)

lemma end_bounded_by_chunk [chunk_keeps]: "chunk_part (end_bounded_by st en s) = chunk_part s"
proof -
  obtain c t where c: "current_context s = (c, t)" by (cases "current_context s")
  then have "chunk_part t = chunk_part s" using current_context_chunk [of s] by simp
  then show ?thesis
    by (simp add: end_bounded_by_def c Let_def chunk_keeps) (simp add: map_top_def chunk_part_def)
qed

lemma start_bounded_by_chunk [chunk_keeps]: "chunk_part (start_bounded_by raw e st d b s) = chunk_part s"
  by (simp add: start_bounded_by_def Let_def chunk_keeps)

lemma machine_chunk_part: "machine t = machine s \<Longrightarrow> chunk_part t = chunk_part s"
  by (drule arg_cong [where f = chunk_part]) (simp add: machine_def chunk_part_def)

text \<open>
  The invariant of a run: the chunks are right, the feature being copied is the next part of the
  chunk, and every offset kept is the \<open><\<close> of an element.
\<close>

definition kept_ok :: "bytes \<Rightarrow> splitter \<Rightarrow> bool" where
  "kept_ok S s \<longleftrightarrow> (\<forall>k \<in> kept s. S ! k = CHR ''<'')"

definition feature_begun :: "splitter \<Rightarrow> bool" where
  "feature_begun s \<longleftrightarrow> (case sp_mode s of Feature _ True start False \<Rightarrow> begun start s | _ \<Rightarrow> True)"

lemma feature_begun_outside: "\<not> in_feature (sp_mode s) \<Longrightarrow> feature_begun s"
  by (cases "sp_mode s") (simp_all add: feature_begun_def in_feature_def)

definition split_inv :: "bytes \<Rightarrow> nat \<times> nat \<Rightarrow> splitter \<Rightarrow> bool" where
  "split_inv S a s \<longleftrightarrow> running S s \<and> chunk_inv S a s \<and> kept_ok S s \<and> feature_begun s \<and>
     open_ok S (sp_base s + sp_pos s) s"

lemma element_at_copy:
  assumes "in_doc S s" "m_end m \<le> length (sp_buf s)" "markup_ok S (shift_markup (sp_base s) m)"
    and "sp_base s \<le> start" "start < sp_base s + m_end m" "S ! start = CHR ''<''"
    and "whole_element (slice start (sp_base s + m_end m) S)"
  shows "element_at S start (slice (start - sp_base s) (m_end m) (sp_buf s))"
proof -
  have e: "slice (start - sp_base s) (m_end m) (sp_buf s) = slice start (sp_base s + m_end m) S"
    using whole_copy [OF assms(1,4,2)] by simp
  have b: "sp_base s + m_end m \<le> length S" "S ! (sp_base s + m_end m - 1) = CHR ''>''"
    using assms(3) by (simp_all add: markup_ok_def)
  define n where "n = sp_base s + m_end m - start"
  have n: "sp_base s + m_end m = start + n" "0 < n" using assms(5) by (simp_all add: n_def)
  have len: "length (slice start (start + n) S) = n" using b n by simp
  have "hd (slice start (start + n) S) = S ! start"
    using nth_slice [of start 0 "start + n" S] len n b by (simp add: hd_conv_nth flip: length_greater_0_conv)
  moreover have "last (slice start (start + n) S) = S ! (start + n - 1)"
    using nth_slice [of start "n - 1" "start + n" S] len n b by (simp add: last_conv_nth flip: length_greater_0_conv)
  ultimately show ?thesis
    unfolding element_at_def e n(1) len using b assms(6) assms(7) [unfolded n(1)] n len
    by (auto simp flip: length_greater_0_conv)
qed

lemma start_feature_inv:
  assumes "chunk_inv S a s" "in_doc S s" "m_end m \<le> length (sp_buf s)"
    and "markup_ok S (shift_markup (sp_base s) m)" "start = sp_base s + m_start m"
    and "e \<longrightarrow> whole_element (slice start (sp_base s + m_end m) S)"
  shows "chunk_inv S a (start_feature name raw m e start d b s)"
    and "\<not> in_feature (sp_mode s) \<Longrightarrow> feature_begun (start_feature name raw m e start d b s)"
proof -
  define s1 where "s1 = map_top (\<lambda>f. f\<lparr>fr_has_child := True\<rparr>) (undo_declarations d b s)"
  define emit where "emit = (case layers (sp_options s1) of None \<Rightarrow> True | Some ls \<Rightarrow> layer_wanted ls name)"
  define s2 where "s2 = (if emit then begin_feature start s1 else s1)"
  have "chunk_part s1 = chunk_part s" by (simp add: s1_def chunk_keeps)
  then have i1: "chunk_inv S a s1" using assms(1) chunk_inv_cong by blast
  have i2: "chunk_inv S a s2" "emit \<longrightarrow> begun start s2"
    using begin_feature_inv [OF i1] i1 by (simp_all add: s2_def)
  have k: "scan_part s2 = scan_part s" by (simp add: s2_def s1_def keeps)
  note k' = scan_part_eqD [OF k]
  have "element_at S start (slice (start - sp_base s2) (m_end m) (sp_buf s2))" if e
    unfolding k'(2,4) using assms(5) assms(4) assms(6) that
    by (intro element_at_copy [OF assms(2-4)]) (simp_all add: markup_ok_def)
  then have i3: "chunk_inv S a (end_feature emit start (m_end m) s2)" if e
    using that by (intro end_feature_inv i2) simp
  have l: "start_feature name raw m e start d b s =
      (if e then end_feature emit start (m_end m) s2
       else (enter_feature raw s2)\<lparr>sp_mode := Feature 1 emit start False\<rparr>)"
    by (simp add: start_feature_def Let_def s1_def [symmetric] emit_def [symmetric] s2_def [symmetric])
  have c: "chunk_part ((enter_feature raw s2)\<lparr>sp_mode := Feature 1 emit start False\<rparr>) = chunk_part s2"
    by (simp add: chunk_keeps)
  show "chunk_inv S a (start_feature name raw m e start d b s)"
    unfolding l using i3 i2(1) chunk_inv_cong [OF c] by simp
  show "feature_begun (start_feature name raw m e start d b s)"
    if "\<not> in_feature (sp_mode s)"
  proof (cases e)
    case True
    have "sp_mode (end_feature emit start (m_end m) s2) = sp_mode s" by (simp add: keeps s2_def s1_def)
    then show ?thesis
      unfolding l using that True by (intro feature_begun_outside) simp
  next
    case False
    then show ?thesis
      unfolding l using i2(2) begun_cong [OF c, of start] by (cases emit) (simp_all add: feature_begun_def)
  qed
qed

lemma end_root_inv:
  assumes "chunk_inv S a s" "in_doc S s" "m_end m \<le> length (sp_buf s)"
    and "markup_ok S (shift_markup (sp_base s) m)"
    and "\<forall>k \<in> set_option (sp_root_candidate s). sp_base s \<le> k \<and> k < sp_base s + m_end m \<and> S ! k = CHR ''<'' \<and>
      whole_element (slice k (sp_base s + m_end m) S)"
  shows "chunk_inv S a (end_root (m_end m) s)"
proof (cases "sp_root_candidate s")
  case None
  then show ?thesis
    using assms(1) chunk_inv_cong [OF chunk_part_updates(1)] by (simp add: end_root_def)
next
  case (Some start)
  define s2 where "s2 = s\<lparr>sp_mode := Epilog, sp_root_candidate := None, sp_root_feature := True\<rparr>"
  define emit where "emit = (case (layers (sp_options s2), map_option hd_root (sp_header s2)) of
                        (Some ls, Some root) \<Rightarrow> layer_wanted ls root | _ \<Rightarrow> True)"
  define s3 where "s3 = (if emit then begin_feature start s2 else s2)"
  have "chunk_part s2 = chunk_part s" by (simp add: s2_def chunk_keeps)
  then have i2: "chunk_inv S a s2" using assms(1) chunk_inv_cong by blast
  have i3: "chunk_inv S a s3" "emit \<longrightarrow> begun start s3"
    using begin_feature_inv [OF i2] i2 by (simp_all add: s3_def)
  have k: "scan_part s3 = scan_part s" by (simp add: s3_def s2_def keeps)
  note k' = scan_part_eqD [OF k]
  have "element_at S start (slice (start - sp_base s3) (m_end m) (sp_buf s3))"
    unfolding k'(2,4) using assms(5) Some
    by (intro element_at_copy [OF assms(2-4)]) auto
  moreover have "end_root (m_end m) s = end_feature emit start (m_end m) s3"
    by (simp add: end_root_def Some Let_def s2_def emit_def s3_def cong: option.case_cong)
  ultimately show ?thesis by (simp add: end_feature_inv i3)
qed

lemma start_container_inv:
  assumes "chunk_inv S a s" "in_doc S s" "m_end m \<le> length (sp_buf s)"
    and "markup_ok S (shift_markup (sp_base s) m)" "start = sp_base s + m_start m"
    and "e \<longrightarrow> whole_element (slice start (sp_base s + m_end m) S)" "is_root \<longrightarrow> sp_root_candidate s = None"
  shows "chunk_inv S a (start_container name raw m e start is_root d b s)"
proof -
  define s2 where "s2 = container_found name start is_root s"
  define s3 where "s3 = undo_declarations d b s2"
  define members where "members = (\<exists>rule \<in> set (member_rules (sp_options s)). rule_element rule = name)"
  define s4 where "s4 = (if members then s3\<lparr>sp_referenced_members := sp_referenced_members s3 + 1\<rparr> else s3)"
  have k: "scan_part s4 = scan_part s"
    by (simp add: s4_def s3_def s2_def keeps container_found_keeps)
  note k' = scan_part_eqD [OF k]
  have cp: "chunk_part s4 = chunk_part s" "chunk_part s2 = chunk_part s"
    by (simp_all add: s4_def s3_def s2_def chunk_keeps)
  have i4: "chunk_inv S a s4" "chunk_inv S a s2" using assms(1) chunk_inv_cong cp by blast+
  have c4: "sp_root_candidate s4 \<in> {sp_root_candidate s, None, Some start}"
    using container_found_keeps(3) [of name start is_root s]
    by (simp add: s4_def s3_def s2_def keeps)
  have lt: "start < sp_base s + m_end m" "S ! start = CHR ''<''"
    using assms(4,5) by (simp_all add: markup_ok_def)
  have er: "chunk_inv S a (end_root (m_end m) s4)" if "e" "is_root"
  proof -
    have "\<forall>k \<in> set_option (sp_root_candidate s4).
      sp_base s4 \<le> k \<and> k < sp_base s4 + m_end m \<and> S ! k = CHR ''<'' \<and>
      whole_element (slice k (sp_base s4 + m_end m) S)"
      using c4 lt assms(5-7) that k' by auto
    then show ?thesis
      using assms in_doc_cong [OF k] k' i4 by (intro end_root_inv) simp_all
  qed
  have st: "chunk_inv S a (s2\<lparr>sp_stack := st\<rparr>)" for st
    using i4(2) chunk_inv_cong [OF chunk_part_updates(6)] by blast
  show ?thesis
    unfolding start_container_eq Let_def s2_def [symmetric] s3_def [symmetric] members_def [symmetric]
      s4_def [symmetric]
    using er i4 st by simp
qed

lemma start_container_mode:
  "sp_mode (start_container name raw m e start is_root d b s) \<in> {sp_mode s, Epilog}"
  by (simp add: start_container_eq Let_def keeps container_found_keeps)

definition root_ok :: "bytes \<Rightarrow> markup \<Rightarrow> splitter \<Rightarrow> bool" where
  "root_ok S m s \<longleftrightarrow>
     in_doc S s \<and> m_end m \<le> length (sp_buf s) \<and> markup_ok S (shift_markup (sp_base s) m) \<and>
     (\<forall>k \<in> kept s. sp_base s \<le> k \<and> k < sp_base s + m_end m \<and> S ! k = CHR ''<'')"

lemma root_ok_cong:
  "root_ok S m s \<Longrightarrow> scan_part t = scan_part s \<Longrightarrow> kept t \<subseteq> kept s \<Longrightarrow> root_ok S m t"
  using in_doc_cong [of t s S] scan_part_eqD [of t s] unfolding root_ok_def by auto

lemma tag_resolved_inv:
  assumes "chunk_inv S a s" "root_ok S m s" "\<not> in_feature (sp_mode s)"
    and "e \<longrightarrow> whole_element (slice (sp_base s + m_start m) (sp_base s + m_end m) S)"
    and "sp_mode s = Prolog \<longrightarrow> sp_root_candidate s = None"
  shows "chunk_inv S a (tag_resolved x m name raw attributes before declared e s)"
    "feature_begun (tag_resolved x m name raw attributes before declared e s)"
proof -
  define s3 where "s3 = (if sp_mode s = Prolog then (read_header x name attributes before s)\<lparr>sp_mode := Outside\<rparr> else s)"
  define start where "start = sp_base s + m_start m"
  have k: "scan_part s3 = scan_part s" "kept s3 = kept s" "\<not> in_feature (sp_mode s3)"
    using assms(3) by (simp_all add: s3_def keeps kept_def in_feature_def)
  have "chunk_part s3 = chunk_part s" by (simp add: s3_def chunk_keeps)
  then have i3: "chunk_inv S a s3" using assms(1) chunk_inv_cong by blast
  have r: "root_ok S m s3" by (rule root_ok_cong [OF assms(2) k(1)]) (simp add: k(2))
  have st: "start = sp_base s3 + m_start m" using scan_part_eqD(4) [OF k(1)] by (simp add: start_def)
  have pre: "in_doc S s3" "m_end m \<le> length (sp_buf s3)" "markup_ok S (shift_markup (sp_base s3) m)"
    using r by (auto simp: root_ok_def)
  have el: "e \<longrightarrow> whole_element (slice start (sp_base s3 + m_end m) S)"
    using assms(4) scan_part_eqD(4) [OF k(1)] by (simp add: start_def)
  have rt: "sp_mode s = Prolog \<longrightarrow> sp_root_candidate s3 = None" using assms(5) by (simp add: s3_def keeps)
  note sf = start_feature_inv [OF i3 pre(1-3) st el]
  note sc = start_container_inv [OF i3 pre(1-3) st el rt]
  have sb: "chunk_inv S a (start_bounded_by raw e start declared before s3)"
    using i3 chunk_inv_cong [OF start_bounded_by_chunk] by blast
  have sbb: "feature_begun (start_bounded_by raw e start declared before s3)"
  proof (cases e)
    case True
    show ?thesis
      by (rule feature_begun_outside) (simp add: start_bounded_by_def True keeps k(3))
  next
    case False
    then show ?thesis by (simp add: start_bounded_by_def feature_begun_def)
  qed
  have scb: "feature_begun (start_container name raw m e start r declared before s3)" for r
    using start_container_mode [of name raw m e start r declared before s3] k(3)
    by (intro feature_begun_outside) (auto simp: in_feature_def)
  show "chunk_inv S a (tag_resolved x m name raw attributes before declared e s)"
    unfolding tag_resolved_def Let_def s3_def [symmetric] start_def [symmetric] using sf(1) sc sb by simp
  show "feature_begun (tag_resolved x m name raw attributes before declared e s)"
    unfolding tag_resolved_def Let_def s3_def [symmetric] start_def [symmetric]
    using sf(2) [OF k(3)] scb sbb by simp
qed

lemma start_tag_inv:
  assumes "chunk_inv S a s" "root_ok S m s" "\<not> in_feature (sp_mode s)"
    and "e \<longrightarrow> whole_element (slice (sp_base s + m_start m) (sp_base s + m_end m) S)"
    and "sp_mode s = Prolog \<longrightarrow> sp_root_candidate s = None"
  shows "chunk_inv S a (snd (start_tag x m tag n e s)) \<and> feature_begun (snd (start_tag x m tag n e s))"
proof (cases "utf8_valid tag \<and> (\<exists>as. parse_attributes (drop n tag) = Inr as)")
  case False
  then show ?thesis
    using assms(1) feature_begun_outside [OF assms(3)] by (auto simp: start_tag_eq split: sum.splits)
next
  case True
  then obtain as where as: "parse_attributes (drop n tag) = Inr as" by blast
  obtain r s2 where r: "resolve_element (take n tag) (push_declarations x as s) = (r, s2)"
    by (cases "resolve_element (take n tag) (push_declarations x as s)")
  note k = resolved_keeps [OF r]
  have md: "sp_mode s2 = sp_mode s"
    using resolve_element_keeps(2) [of "take n tag" "push_declarations x as s"]
    by (simp add: r) (simp add: keeps)
  have "chunk_part s2 = chunk_part (push_declarations x as s)"
    using chunk_part_ops(5) [of "take n tag" "push_declarations x as s"] by (simp add: r)
  then have "chunk_inv S a s2" using assms(1) chunk_inv_cong [of s2 s] by (simp add: chunk_keeps)
  moreover have "root_ok S m s2" by (rule root_ok_cong [OF assms(2) k(1)]) (simp add: k(2))
  moreover have "sp_mode s2 = Prolog \<longrightarrow> sp_root_candidate s2 = None"
    using assms(5) md resolve_element_keeps(3) [of "take n tag" "push_declarations x as s"]
    by (simp add: r) (simp add: keeps)
  ultimately show ?thesis
    using True as r md assms(3,4) scan_part_eqD(4) [OF k(1)] tag_resolved_inv [of S a s2 m e] feature_begun_outside [of s2]
    by (auto simp: start_tag_eq Let_def split: option.splits)
qed

lemma step_feature_inv:
  assumes "chunk_inv S a s" "feature_begun s" "root_ok S m s" "sp_mode s = Feature d emit start b"
    and "open_here S m s"
  shows "chunk_inv S a (step_feature m d emit start b s)" "feature_begun (step_feature m d emit start b s)"
proof -
  have c: "chunk_part (s\<lparr>sp_mode := md\<rparr>) = chunk_part s" for md by (simp add: chunk_keeps)
  have i: "chunk_inv S a (s\<lparr>sp_mode := md\<rparr>)" for md using assms(1) chunk_inv_cong [OF c] by blast
  have eb: "chunk_inv S a (end_bounded_by start (m_end m) (s\<lparr>sp_mode := Outside\<rparr>))"
    using i chunk_inv_cong [OF end_bounded_by_chunk] by blast
  have ef: "chunk_inv S a (end_feature emit start (m_end m) (s\<lparr>sp_mode := Outside\<rparr>))"
    if "\<not> b" "m_kind m = KEnd" "d = 1"
  proof (rule end_feature_inv [OF i])
    show "emit \<longrightarrow> begun start (s\<lparr>sp_mode := Outside\<rparr>)"
      using assms(2,4) that by (auto simp: feature_begun_def begun_def)
    obtain p where "open_ok S p s" "found_ok S p s (shift_markup (sp_base s) m)"
      using assms(5) by (auto simp: open_here_def)
    from step_feature_open(1) [OF this(1) assms(4) this(2)]
    have "whole_element (slice start (sp_base s + m_end m) S)" using that by (simp add: whole_element_def)
    then have "emit \<longrightarrow> element_at S start (slice (start - sp_base s) (m_end m) (sp_buf s))"
      using assms(3,4) by (intro impI element_at_copy) (auto simp: root_ok_def kept_def)
    then show "emit \<longrightarrow> element_at S start (slice (start - sp_base (s\<lparr>sp_mode := Outside\<rparr>)) (m_end m) (sp_buf (s\<lparr>sp_mode := Outside\<rparr>)))"
      by simp
  qed
  show "chunk_inv S a (step_feature m d emit start b s)"
    using assms(1) i eb ef by (auto simp: step_feature_def Let_def split: kind.splits)
  show "feature_begun (step_feature m d emit start b s)"
    using assms(2,4) by (auto simp: step_feature_def Let_def feature_begun_def keeps begun_def split: kind.splits bool.splits)
qed

lemma end_outside_whole:
  assumes "in_doc S s \<and> m_end m \<le> length (sp_buf s) \<and> markup_ok S (shift_markup (sp_base s) m) \<and> kept_here"
    and "open_here S m s" "m_kind m = KEnd" "end_outside m s = (Inr u, t)" "sp_stack s = [f]"
    and "sp_root_candidate s = Some k" "\<not> in_feature (sp_mode s) \<and> sp_mode s \<noteq> Epilog"
  shows "whole_element (slice k (sp_base s + m_end m) S)"
proof -
  let ?a = "sp_base s + m_start m" and ?q = "sp_base s + m_end m"
  have md: "sp_mode s = Prolog \<or> sp_mode s = Outside"
    using assms(7) by (cases "sp_mode s") (simp_all add: in_feature_def)
  note ob = open_before_markup [OF assms(2) md]
  have o: "sp_mode s = Outside" using md ob(1) assms(5) by (auto simp: open_ok_def)
  have le: "?a \<le> ?q" "?q \<le> length S" using assms(1) by (simp_all add: markup_ok_def)
  have e: "is_end_tag (\<lambda>t. True) (slice ?a ?q S)" using ob(2) assms(3) by (simp add: markup_text_def Let_def)
  show ?thesis
    using end_outside_ok(2) [OF _ o refl refl le e _ _ assms(4,5,6)] ob(1) o assms(1) by (simp add: open_ok_def)
qed

lemma end_outside_inv:
  assumes "chunk_inv S a s" "root_ok S m s" "\<not> in_feature (sp_mode s)" "sp_mode s \<noteq> Epilog"
    and "open_here S m s" "m_kind m = KEnd"
  shows "chunk_inv S a (snd (end_outside m s)) \<and> feature_begun (snd (end_outside m s))"
proof -
  define f where "f = last (sp_stack s)"
  define s1 where "s1 = s\<lparr>sp_stack := butlast (sp_stack s)\<rparr>"
  define s2 where "s2 = (if fr_members f \<and> \<not> fr_has_child f
      then s1\<lparr>sp_referenced_members := sp_referenced_members s1 + 1\<rparr> else s1)"
  define s3 where "s3 = undo_declarations (fr_bindings_before f < length (sp_bindings s2)) (fr_bindings_before f) s2"
  have k: "scan_part s3 = scan_part s" "kept s3 = kept s" "sp_mode s3 = sp_mode s" "sp_mode s1 = sp_mode s"
    by (auto simp: s3_def s2_def s1_def keeps kept_def)
  have cp: "chunk_part s1 = chunk_part s" "chunk_part s3 = chunk_part s"
    by (simp_all add: s3_def s2_def s1_def chunk_keeps)
  have i: "chunk_inv S a s1" "chunk_inv S a s3" using assms(1) chunk_inv_cong cp by blast+
  have r3: "root_ok S m s3" by (rule root_ok_cong [OF assms(2) k(1)]) (simp add: k(2))
  have er: "chunk_inv S a (end_root (m_end m) s3)"
    if c: "sp_stack s \<noteq> []" "fr_raw_name f = trim_ascii (slice (m_start m + 2) (m_end m - 1) (sp_buf s))" "sp_stack s3 = []"
  proof (rule end_root_inv [OF i(2)])
    have bl: "sp_stack s = [f]"
    proof -
      have "open_part s3 = open_part s1" by (simp add: s3_def s2_def open_keeps)
      then have "butlast (sp_stack s) = []" using open_part_parts(5) [of s3 s1] c(3) by (simp add: s1_def)
      then show ?thesis using append_butlast_last_id [OF c(1)] by (simp add: f_def)
    qed
    have rc: "sp_root_candidate s3 = sp_root_candidate s" by (simp add: s3_def s2_def s1_def keeps)
    have eo: "end_outside m s = (Inr (), snd (end_outside m s))"
      using c(1,2) by (simp add: end_outside_def Let_def f_def)
    have "whole_element (slice k (sp_base s + m_end m) S)" if "sp_root_candidate s = Some k" for k
      by (rule end_outside_whole [OF assms(2) [unfolded root_ok_def] assms(5,6) eo bl that]) (use assms(3,4) in simp)
    then show "\<forall>k \<in> set_option (sp_root_candidate s3). sp_base s3 \<le> k \<and> k < sp_base s3 + m_end m \<and> S ! k = CHR ''<'' \<and>
        whole_element (slice k (sp_base s3 + m_end m) S)"
      using assms(2) scan_part_eqD(4) [OF k(1)] rc by (auto simp: root_ok_def kept_def)
  qed (use r3 in \<open>simp_all add: root_ok_def\<close>)
  have "feature_begun (end_root (m_end m) s3)"
    by (rule feature_begun_outside) (simp add: keeps in_feature_def)
  then show ?thesis
    unfolding end_outside_def Let_def f_def [symmetric] s1_def [symmetric] s2_def [symmetric] s3_def [symmetric]
    using er i assms feature_begun_outside [of s] feature_begun_outside [of s1] feature_begun_outside [of s3] k by simp
qed

lemma step_markup_inv:
  assumes "chunk_inv S a s" "feature_begun s" "root_ok S m s"
    and "open_here S m s"
  shows "chunk_inv S a (snd (step_markup x m s)) \<and> feature_begun (snd (step_markup x m s))"
proof (cases "in_feature (sp_mode s)")
  case True
  then obtain d e st b where "sp_mode s = Feature d e st b" by (auto simp: in_feature_def split: mode.splits)
  then show ?thesis using step_feature_inv [OF assms(1-3) _ assms(4)] by (simp add: step_markup_def)
next
  case False
  show ?thesis
  proof (cases "sp_mode s = Epilog")
    case True
    then show ?thesis
      using assms(1,2) by (simp add: step_markup_def)
  next
    case ne: False
    then have md: "sp_mode s = Prolog \<or> sp_mode s = Outside"
      using False by (cases "sp_mode s") (simp_all add: in_feature_def)
    note ob = open_before_markup [OF assms(4) md]
    have doc: "in_doc S s" "m_end m \<le> length (sp_buf s)" "markup_ok S (shift_markup (sp_base s) m)"
      using assms(3) by (simp_all add: root_ok_def)
    have pc: "sp_mode s = Prolog \<longrightarrow> sp_root_candidate s = None" using ob(1) by (auto simp: open_ok_def)
    have st: "chunk_inv S a (snd (start_outside x m n e s)) \<and> feature_begun (snd (start_outside x m n e s))"
      if "m_kind m = KStart n e" for n e
    proof -
      have "e \<longrightarrow> whole_element (slice (sp_base s + m_start m) (sp_base s + m_end m) S)"
        using tag_text [OF doc ob(2) that] by (auto simp: whole_element_def feature_element_def)
      then show ?thesis by (simp add: start_outside_def Let_def start_tag_inv [OF assms(1,3) False _ pc])
    qed
    have "snd (step_markup x m s) = (case m_kind m of KStart n e \<Rightarrow> snd (start_outside x m n e s)
        | KEnd \<Rightarrow> snd (end_outside m s) | KOther \<Rightarrow> s)"
      using md by (auto simp: step_markup_def split: kind.splits)
    then show ?thesis
      using st end_outside_inv [OF assms(1,3) False ne assms(4)] assms(1,2) by (simp split: kind.splits)
  qed
qed

named_theorems finished_keeps \<open>operations that do not finish the iterator\<close>

lemma finished_ops [finished_keeps]:
  "sp_finished (flush_chunk s) = sp_finished s" "sp_finished (snd (current_context s)) = sp_finished s"
  "sp_finished (map_top f s) = sp_finished s" "sp_finished (enter_feature r s) = sp_finished s"
  "sp_finished (undo_declarations d b s) = sp_finished s" "sp_finished (push_declarations x as s) = sp_finished s"
  "sp_finished (snd (resolve_element raw s)) = sp_finished s" "sp_finished (read_header x q as b s) = sp_finished s"
  "sp_finished (container_found n st rt s) = sp_finished s"
  by (simp_all add: flush_chunk_def current_context_def map_top_def enter_feature_def undo_declarations_def
      push_declarations_def resolve_element_def read_header_def container_found_def Let_def
      split: option.splits prod.splits)

lemma finished_results:
  "current_context s = (c, t) \<Longrightarrow> sp_finished t = sp_finished s"
  "resolve_element raw s = (r, t) \<Longrightarrow> sp_finished t = sp_finished s"
proof -
  show "current_context s = (c, t) \<Longrightarrow> sp_finished t = sp_finished s"
    using finished_ops(2) [of s] by (simp only: snd_conv)
  show "resolve_element raw s = (r, t) \<Longrightarrow> sp_finished t = sp_finished s"
    using finished_ops(7) [of raw s] by (simp only: snd_conv)
qed

lemma finished_begin_feature [finished_keeps]: "sp_finished (begin_feature st s) = sp_finished s"
proof -
  obtain c t where c: "current_context s = (c, t)" by (cases "current_context s")
  show ?thesis
    using finished_results(1) [OF c] by (simp add: begin_feature_def c Let_def finished_keeps)
qed

lemma finished_end_feature [finished_keeps]: "sp_finished (end_feature e st en s) = sp_finished s"
  by (simp add: end_feature_def Let_def finished_keeps)

lemma finished_end_bounded_by [finished_keeps]: "sp_finished (end_bounded_by st en s) = sp_finished s"
proof -
  obtain c t where c: "current_context s = (c, t)" by (cases "current_context s")
  show ?thesis
    using finished_results(1) [OF c] by (simp add: end_bounded_by_def c Let_def finished_keeps)
qed

lemma finished_end_root [finished_keeps]: "sp_finished (end_root en s) = sp_finished s"
  by (simp add: end_root_def Let_def finished_keeps split: option.splits)

lemma finished_starts [finished_keeps]:
  "sp_finished (start_feature n r m e st d b s) = sp_finished s"
  "sp_finished (start_bounded_by r e st d b s) = sp_finished s"
  "sp_finished (start_container n r m e st rt d b s) = sp_finished s"
  by (simp_all add: start_feature_def start_bounded_by_def start_container_eq Let_def finished_keeps)

lemma finished_start_tag [finished_keeps]: "sp_finished (snd (start_tag x m tag n e s)) = sp_finished s"
proof (cases "utf8_valid tag \<and> (\<exists>as. parse_attributes (drop n tag) = Inr as)")
  case False
  then show ?thesis by (auto simp: start_tag_eq split: sum.splits)
next
  case True
  then obtain as where as: "parse_attributes (drop n tag) = Inr as" by blast
  obtain r s2 where r: "resolve_element (take n tag) (push_declarations x as s) = (r, s2)"
    by (cases "resolve_element (take n tag) (push_declarations x as s)")
  show ?thesis
    using True as r finished_results(2) [OF r]
    by (simp add: start_tag_eq tag_resolved_def Let_def finished_keeps split: option.splits)
qed

lemma finished_step_markup: "sp_finished (snd (step_markup x m s)) = sp_finished s"
  by (simp add: step_markup_def step_feature_def start_outside_def end_outside_def Let_def finished_keeps
      split: mode.splits kind.splits)

subsection \<open>The chunks of a run\<close>

lemma split_inv_new:
  assumes "error_free r"
  shows "split_inv (stream_of r) (0, 0) (new_splitter r source options)"
  using running_new [OF assms, of source options]
  by (simp add: split_inv_def chunk_inv_def kept_ok_def feature_begun_def first_pending_def kept_def
      open_ok_def new_splitter_def Let_def)

lemma markup_found:
  assumes "ext_ok x" "split_inv S a s"
    and "(if in_feature (sp_mode s) then next_feature_markup x s else next_markup x s) = (Inr found, t)"
  shows "in_step S t" "machine t = machine s"
    "case found of
       Some m \<Rightarrow> root_ok S m t \<and> m_end m = sp_pos t
     | None \<Rightarrow> sp_base t + length (sp_buf t) = length S"
    "found = Some m \<Longrightarrow> open_here S m t"
proof -
  show "found = Some m \<Longrightarrow> open_here S m t"
    using scanner_finds [OF assms(1), of S s m t] assms(2,3) by (simp add: split_inv_def running_def)
  have s: "in_step S s" using assms(2) by (simp add: split_inv_def running_def)
  have "refines S (rel_markup S) (Inr found, t)
      (if in_feature (sp_mode s) then next_feature_markup x (whole S s) else next_markup x (whole S s))"
    unfolding assms(3) [symmetric]
    using next_markup_refines [OF assms(1) s] next_feature_markup_refines [OF assms(1) s] by simp
  then obtain b where b: "in_step S t" "rel_markup S t found b"
    unfolding refines_def by (auto split: sum.splits)
  show "in_step S t" by (rule b(1))
  show m: "machine t = machine s"
    using assms(3) machine_next_markup [of x s] machine_next_feature_markup [of x s]
    by (auto split: if_splits)
  have k: "kept t = kept s" by (rule arg_cong [where f = kept, OF m, unfolded kept_def machine_def, simplified, folded kept_def])
  show "case found of
       Some m \<Rightarrow> root_ok S m t \<and> m_end m = sp_pos t
     | None \<Rightarrow> sp_base t + length (sp_buf t) = length S"
  proof (cases found)
    case None
    then show ?thesis using b(2) by (simp add: rel_markup_def)
  next
    case (Some m)
    have m: "m_end m = sp_pos t" "markup_ok S (shift_markup (sp_base t) m)"
      "\<forall>k \<in> kept t. k \<le> sp_base t + m_start m"
      using b(2) by (simp_all add: rel_markup_def Some)
    have "m_start m < m_end m" using m(2) by (simp add: markup_ok_def)
    then have "\<forall>k \<in> kept t. sp_base t \<le> k \<and> k < sp_base t + m_end m \<and> S ! k = CHR ''<''"
      using m(3) b(1) assms(2) unfolding k by (auto simp: in_step_def split_inv_def kept_ok_def k)
    then show ?thesis
      using m b(1) in_step_doc [OF b(1)] by (simp add: Some root_ok_def in_step_def)
  qed
qed

lemma step_split_inv:
  assumes "ext_ok x" "split_inv S a s" "\<not> sp_finished s" "step x s = (Inr u, t)"
  shows "split_inv S a t" "sp_finished t \<Longrightarrow> sp_chunk t = []"
proof -
  obtain found s1 where f: "(if in_feature (sp_mode s) then next_feature_markup x s else next_markup x s) = (Inr found, s1)"
      "(case found of None \<Rightarrow> finish s1 | Some m \<Rightarrow> step_markup x m s1) = (Inr u, t)"
    using assms(4) by (auto simp: step_def and_then_Inr)
  note mf = markup_found [OF assms(1,2) f(1)]
  have run: "running S t"
    using step_running(2) [of S s x] assms by (simp add: split_inv_def)
  have c1: "chunk_part s1 = chunk_part s" by (rule machine_chunk_part [OF mf(2)])
  have md: "sp_mode s1 = sp_mode s" by (rule machine_eq_mode [OF mf(2)])
  have i1: "chunk_inv S a s1" "feature_begun s1"
    using assms(2) chunk_inv_cong [OF c1] begun_cong [OF c1] md
    by (auto simp: split_inv_def feature_begun_def split: mode.splits bool.splits)
  have fin1: "sp_finished s1 = sp_finished s"
    using arg_cong [OF mf(2), of sp_finished] by (simp add: machine_def)
  have "split_inv S a t \<and> (sp_finished t \<longrightarrow> sp_chunk t = [])"
  proof (cases found)
    case None
    define s2 where "s2 = s1\<lparr>sp_finished := True\<rparr>"
    have "chunk_inv S a s2" using i1(1) chunk_inv_cong [OF chunk_part_updates(7)] unfolding s2_def by blast
    note fl = flush_chunk_inv [OF this]
    have t: "t = flush_chunk s2" "\<not> in_feature (sp_mode s1)"
      using f(2) by (auto simp: None finish_def Let_def s2_def in_feature_def keeps split: if_splits mode.splits)
    have "kept t = kept s1" by (simp add: t(1) s2_def kept_def keeps)
    moreover have "\<not> in_feature (sp_mode t)" using t by (simp add: s2_def keeps)
    moreover have "kept s1 = kept s"
      by (rule arg_cong [where f = kept, OF mf(2), unfolded kept_def machine_def, simplified, folded kept_def])
    moreover have "open_ok S (sp_base t + sp_pos t) t"
    proof -
      have op: "open_part t = open_part s"
        using arg_cong [OF mf(2), of open_part] by (simp add: t(1) s2_def open_keeps) (simp add: machine_def open_part_def)
      have "sp_mode s1 = Prolog \<or> sp_mode s1 = Epilog"
        using f(2) by (auto simp: None finish_def Let_def split: if_splits)
      then have "open_ok S (sp_base t + sp_pos t) s" using assms(2) md by (auto simp: split_inv_def open_ok_def)
      then show ?thesis unfolding open_ok_cong [OF op] .
    qed
    ultimately show ?thesis
      using fl run feature_begun_outside [of t] assms(2) by (simp add: split_inv_def kept_ok_def t(1))
  next
    case (Some m)
    have r: "root_ok S m s1" "m_end m = sp_pos s1" using mf(3) by (simp_all add: Some)
    have t: "t = snd (step_markup x m s1)" using f(2) by (simp add: Some)
    have mo: "markup_ok S (shift_markup (sp_base s1) m)" using r(1) by (simp add: root_ok_def)
    have "kept_ok S t"
      unfolding kept_ok_def using step_markup_keeps(2) [of x m s1] r mo
      by (auto simp: t root_ok_def markup_ok_def)
    note oh = mf(4) [OF Some]
    have "step_markup x m s1 = (Inr u, t)" using f(2) by (simp add: Some)
    then have "open_ok S (sp_base s1 + m_end m) t"
      using r(1) oh by (intro step_markup_ok [of S s1 m x u t]) (simp_all add: root_ok_def)
    moreover have "sp_base t = sp_base s1" "sp_pos t = sp_pos s1"
      using scan_part_eqD [OF step_markup_keeps(1) [of x m s1]] by (simp_all add: t)
    ultimately show ?thesis
      using \<open>kept_ok S t\<close> step_markup_inv [OF i1 r(1) oh, of x] run finished_step_markup [of x m s1] assms(3) fin1 r(2)
      by (simp add: split_inv_def t)
  qed
  then show "split_inv S a t" "sp_finished t \<Longrightarrow> sp_chunk t = []" by simp_all
qed

lemma step_static:
  "sp_source (snd (step x s)) = sp_source s" "sp_options (snd (step x s)) = sp_options s"
proof -
  obtain r t where r: "(if in_feature (sp_mode s) then next_feature_markup x s else next_markup x s) = (r, t)"
    by (metis prod.exhaust)
  have m: "machine t = machine s"
    using r machine_next_markup [of x s] machine_next_feature_markup [of x s] by (auto split: if_splits)
  have "sp_source t = sp_source s" "sp_options t = sp_options s"
    using arg_cong [OF m, of sp_source] arg_cong [OF m, of sp_options] by (simp_all add: machine_def)
  then show "sp_source (snd (step x s)) = sp_source s" "sp_options (snd (step x s)) = sp_options s"
    using scan_part_eqD(6,7) [OF finish_keeps(1) [of t]] scan_part_eqD(6,7) [OF step_markup_keeps(1) [of x _ t]]
    by (auto simp: step_def r and_then_def split: sum.splits option.splits)
qed

lemma next_chunk_inv:
  assumes "ext_ok x" "split_inv S a s" "sp_finished s \<longrightarrow> sp_chunk s = []"
  shows "case next_chunk x s of
      (Inr (Some c), t) \<Rightarrow>
        \<exists>b. chain a [c] b \<and> split_inv S b t \<and> (sp_finished t \<longrightarrow> sp_chunk t = []) \<and>
            chunk_ok S (sp_source t) (target_chunk_bytes (sp_options t)) c \<and>
            sp_source t = sp_source s \<and> sp_options t = sp_options s
    | (Inr None, t) \<Rightarrow> a = (sp_next_seq t, sp_features_emitted t) \<and> sp_source t = sp_source s \<and> sp_options t = sp_options s
    | (Inl e, t) \<Rightarrow> True"
  using assms
proof (induction x s rule: next_chunk.induct)
  case (1 x s)
  obtain q f where a: "a = (q, f)" by (cases a)
  show ?case
  proof (cases "sp_ready s")
    case (Cons c cs)
    define t where "t = s\<lparr>sp_ready := cs\<rparr>"
    have n: "next_chunk x s = (Inr (Some c), t)" by (simp add: next_chunk.simps [of x s] Cons t_def)
    have "chunk_inv S (q + 1, f + fc_features c) t"
      using "1.prems"(2) by (auto simp: split_inv_def chunk_inv_def t_def Cons a first_pending_def split: if_splits)
    moreover have "running S t" using "1.prems"(2) by (simp add: split_inv_def t_def)
    moreover have "kept_ok S t" using "1.prems"(2) by (simp add: split_inv_def kept_ok_def kept_def t_def)
    moreover have "feature_begun t"
      using "1.prems"(2) by (simp add: split_inv_def feature_begun_def begun_def t_def split: mode.splits bool.splits)
    moreover have "open_ok S (sp_base t + sp_pos t) t"
    proof -
      have "open_part t = open_part s" by (simp add: t_def open_part_def)
      from open_ok_cong [OF this] show ?thesis using "1.prems"(2) by (simp add: split_inv_def t_def)
    qed
    moreover have "chain a [c] (q + 1, f + fc_features c)"
    proof -
      have "chain a (c # cs) (sp_next_seq s, first_pending s)"
        using "1.prems"(2) by (simp add: split_inv_def chunk_inv_def Cons del: chain.simps)
      then show ?thesis by (auto simp only: a chain.simps)
    qed
    moreover have "chunk_ok S (sp_source s) (target_chunk_bytes (sp_options s)) c"
      using "1.prems"(2) by (simp add: split_inv_def chunk_inv_def Cons)
    ultimately show ?thesis
      using "1.prems"(3) unfolding n by (auto simp: split_inv_def t_def)
  next
    case Nil
    show ?thesis
    proof (cases "sp_finished s")
      case True
      then have "next_chunk x s = (Inr None, s)" by (simp add: next_chunk.simps [of x s] Nil)
      then show ?thesis
        using "1.prems"(2,3) True Nil by (simp add: split_inv_def chunk_inv_def first_pending_def)
    next
      case False
      obtain r t where st: "step x s = (r, t)" by (cases "step x s")
      show ?thesis
      proof (cases r)
        case (Inl e)
        then show ?thesis using Nil False by (simp add: next_chunk.simps [of x s] st)
      next
        case (Inr u)
        note si = step_split_inv [OF "1.prems"(1,2) False st [unfolded Inr]]
        have so: "sp_source t = sp_source s" "sp_options t = sp_options s"
          using step_static [of x s] by (simp_all add: st)
        have n: "next_chunk x s = next_chunk x t" using Nil False by (simp add: next_chunk.simps [of x s] st Inr)
        have "sp_finished t \<longrightarrow> sp_chunk t = []" using si(2) by blast
        from "1.IH" [OF Nil False st [symmetric, unfolded Inr] refl "1.prems"(1) si(1) this]
        show ?thesis unfolding n so .
      qed
    qed
  qed
qed

lemma split_all_inv:
  assumes "ext_ok x" "split_inv S a s" "sp_finished s \<longrightarrow> sp_chunk s = []"
    and "split_all x s = ((cs, e), t)"
  shows "(\<exists>b. chain a cs b \<and> (e = None \<longrightarrow> b = (sp_next_seq t, sp_features_emitted t))) \<and>
         (\<forall>c \<in> set cs. chunk_ok S (sp_source s) (target_chunk_bytes (sp_options s)) c)"
  using assms
proof (induction x s arbitrary: a cs rule: split_all.induct)
  case (1 x s)
  obtain r u where n: "next_chunk x s = (r, u)" by (cases "next_chunk x s")
  note ni = next_chunk_inv [OF "1.prems"(1-3), unfolded n prod.case]
  show ?case
  proof (cases "\<exists>c. r = Inr (Some c)")
    case True
    then obtain c where c: "r = Inr (Some c)" by blast
    obtain b where b: "chain a [c] b" "split_inv S b u" "sp_finished u \<longrightarrow> sp_chunk u = []"
        "chunk_ok S (sp_source u) (target_chunk_bytes (sp_options u)) c"
        "sp_source u = sp_source s" "sp_options u = sp_options s"
      using ni unfolding c sum.case option.case by blast
    obtain ds e' v where d: "split_all x u = ((ds, e'), v)" by (metis prod.exhaust)
    have cs: "cs = c # ds" "e = e'" "t = v"
      using "1.prems"(4) by (simp_all add: split_all.simps [of x s] n c d)
    have d': "split_all x u = ((ds, e), t)" using d cs by simp
    note ih = "1.IH" [OF n [symmetric, unfolded c] refl refl "1.prems"(1) b(2,3) d', unfolded b(5,6)]
    obtain b' where b': "chain b ds b'" "e = None \<longrightarrow> b' = (sp_next_seq t, sp_features_emitted t)"
      using ih by blast
    have "chain a (c # ds) b'" using chain_append [of a "[c]" ds b'] b(1) b'(1) by (metis append_Cons append_Nil)
    moreover have "\<forall>c \<in> set cs. chunk_ok S (sp_source s) (target_chunk_bytes (sp_options s)) c"
      using ih b(4) cs(1) unfolding b(5,6) by simp
    ultimately show ?thesis using b'(2) cs(1) by blast
  next
    case False
    then have cs: "cs = []" "t = u" "e = None \<longrightarrow> r = Inr None"
      using "1.prems"(4) by (auto simp: split_all.simps [of x s] n split: sum.splits option.splits)
    then show ?thesis
      using ni by (cases e) (auto intro: exI [of _ a])
  qed
qed

lemma run_chunks:
  assumes "ext_ok x" "error_free r"
    and "split_all x (new_splitter r source options) = ((cs, e), t)"
  shows "(\<forall>c \<in> set cs. chunk_ok (stream_of r) source (target_chunk_bytes options) c) \<and>
         map fc_seq cs = [0..<length cs] \<and>
         (\<forall>i < length cs. fc_first_feature_seq (cs ! i) = sum_list (map fc_features (take i cs))) \<and>
         (e = None \<longrightarrow> sum_list (map fc_features cs) = sp_features_emitted t) \<and>
         (\<forall>c \<in> set cs. 0 < fc_features c \<and> fc_features c = length (fc_feature_offsets c))"
proof -
  let ?s = "new_splitter r source options"
  have s: "sp_source ?s = source" "sp_options ?s = options" "\<not> sp_finished ?s"
    by (simp_all add: new_splitter_def Let_def)
  obtain b where b: "chain (0, 0) cs b" "e = None \<longrightarrow> b = (sp_next_seq t, sp_features_emitted t)"
      "\<forall>c \<in> set cs. chunk_ok (stream_of r) source (target_chunk_bytes options) c"
    using split_all_inv [OF assms(1) split_inv_new [OF assms(2)] _ assms(3)] s(3) unfolding s(1,2) by blast
  have "fc_first_feature_seq (cs ! i) = sum_list (map fc_features (take i cs))" if i: "i < length cs" for i
  proof -
    have "chain (0, 0) (take i cs @ cs ! i # drop (Suc i) cs) b" using b(1) i by (simp add: id_take_nth_drop [symmetric])
    then obtain m where m: "chain (0, 0) (take i cs) m" "chain m (cs ! i # drop (Suc i) cs) b"
      unfolding chain_append by blast
    then have "fc_first_feature_seq (cs ! i) = snd m" by (cases m) simp
    then show ?thesis using chain_features [OF m(1)] by simp
  qed
  moreover have "sum_list (map fc_features cs) = sp_features_emitted t" if "e = None"
    using chain_features [OF b(1)] b(2) that by simp
  ultimately show ?thesis using b(3) chain_seq [OF b(1)] chain_counts [OF b(1)] by (simp only: add_0) blast
qed


lemma chunk_ok_position:
  assumes "chunk_ok S source target c" "p < length (fc_bytes c)"
  shows "chunk_stream_offset c p < length S \<and> fc_bytes c ! p = S ! chunk_stream_offset c p"
  using stream_offset_layout [of S "fc_byte_offset c" "fc_feature_offsets c" "fc_bytes c" p] assms
  by (simp add: chunk_ok_def chunk_stream_offset_def)

subsection \<open>Properties\<close>

lemma split_all_pair: "fst (split_all x s) = (cs, e) \<Longrightarrow> split_all x s = ((cs, e), snd (split_all x s))"
  by (metis prod.collapse)

text \<open>
  C2. The bytes of a chunk are bytes of the document: the byte at any position of a chunk is the
  document's byte at the offset \<open>stream_offset\<close> gives for that position, also when the chunk
  holds several features with text left out between them.
\<close>

theorem chunk_bytes_of_document:
  assumes "ext_ok x" "error_free r"
    and "fst (split_all x (new_splitter r source options)) = (cs, e)"
    and "c \<in> set cs" "p < length (fc_bytes c)"
  shows "chunk_stream_offset c p < length (stream_of r) \<and>
         fc_bytes c ! p = stream_of r ! chunk_stream_offset c p"
  using chunk_ok_position run_chunks [OF assms(1,2) split_all_pair [OF assms(3)]] assms(4,5) by blast

lemma chunk_bytes_of_document_witness:
  "chunk_stream_offset chunk_a 3 < 4 \<and> fc_bytes chunk_a ! 3 = ''<a/>'' ! chunk_stream_offset chunk_a 3"
  using chunk_bytes_of_document [OF ext_ok_std _ split_all_a, of chunk_a 3] by (simp add: chunk_a_def)

text \<open>
  C18. A chunk is a run of whole elements: its bytes are cut, without a gap, at the offsets of its
  features; each piece is the slice of the document at the offset the chunk records for it, and it
  is one element, from its start tag to the end tag that closes it (\<open>feature_element\<close>: the nested
  elements of the same name are closed before, and what comments, CDATA and processing instructions
  hold is no tag), or the root of a document that is a feature itself (\<open>root_element\<close>); the chunk
  starts at its \<open>byte_offset\<close>.
\<close>

theorem chunk_is_whole_elements:
  assumes "ext_ok x" "error_free r"
    and "fst (split_all x (new_splitter r source options)) = (cs, e)" "c \<in> set cs"
  shows "fc_bytes c \<noteq> [] \<and>
         layout_ok (stream_of r) (fc_byte_offset c) (fc_feature_offsets c) (fc_bytes c) \<and>
         (\<forall>i < length (fc_feature_offsets c).
            whole_element (slice (in_chunk (fc_feature_offsets c ! i))
              (feature_end (fc_feature_offsets c) (fc_bytes c) i) (fc_bytes c)))"
proof -
  have "chunk_ok (stream_of r) source (target_chunk_bytes options) c"
    using run_chunks [OF assms(1,2) split_all_pair [OF assms(3)]] assms(4) by blast
  then show ?thesis
    using layout_elements [of "stream_of r" "fc_byte_offset c" "fc_feature_offsets c" "fc_bytes c"] by (simp add: chunk_ok_def)
qed

lemma chunk_is_whole_elements_witness:
  "layout_ok ''<a/>'' 0 [\<lparr>in_chunk = 0, in_stream = 0\<rparr>] ''<a/>'' \<and> whole_element ''<a/>''"
  using chunk_is_whole_elements [OF ext_ok_std _ split_all_a, of chunk_a]
  by (simp add: chunk_a_def feature_end_def slice_def)

text \<open>
  C3. Chunks and features are numbered in order without a gap: the \<open>i\<close>-th chunk has \<open>seq\<close>
  \<open>i\<close>, its first feature has the number of features in the chunks before it, and when the input
  ends without an error the chunks hold exactly the features the splitter reports.
\<close>

theorem chunks_are_numbered:
  assumes "ext_ok x" "error_free r"
    and "split_all x (new_splitter r source options) = ((cs, e), t)"
  shows "map fc_seq cs = [0..<length cs] \<and>
         (\<forall>i < length cs. fc_first_feature_seq (cs ! i) = sum_list (map fc_features (take i cs))) \<and>
         (e = None \<longrightarrow> sum_list (map fc_features cs) = sp_features_emitted t)"
  using run_chunks [OF assms(1-3)] by blast

lemma chunks_are_numbered_witness:
  "map fc_seq [chunk_a] = [0] \<and> fc_features chunk_a = sp_features_emitted (snd (split_all std_ext splitter_a))"
  using chunks_are_numbered [OF ext_ok_std _ split_all_pair [OF split_all_a]] by simp

text \<open>
  A chunk is closed by the feature that takes it to the target size: its last feature starts
  before the target, or it is the only one of the chunk; a chunk counts the features it holds and
  names the source it was read from.
\<close>

theorem chunk_target:
  assumes "ext_ok x" "error_free r"
    and "fst (split_all x (new_splitter r source options)) = (cs, e)" "c \<in> set cs"
  shows "(in_chunk (last (fc_feature_offsets c)) < target_chunk_bytes options \<or>
          in_chunk (last (fc_feature_offsets c)) = 0) \<and>
         0 < fc_features c \<and> fc_features c = length (fc_feature_offsets c) \<and> fc_source c = source"
  using run_chunks [OF assms(1,2) split_all_pair [OF assms(3)]] assms(4) by (auto simp: chunk_ok_def)

lemma chunk_target_witness:
  "0 < fc_features chunk_a \<and> fc_features chunk_a = length (fc_feature_offsets chunk_a)"
  using chunk_target [OF ext_ok_std _ split_all_a, of chunk_a] by (simp add: chunk_a_def)

end
