(* ===== verification/Splitter_Scope.thy ===== *)
theory Splitter_Scope
  imports Splitter_Chunks
begin

text \<open>
  Namespaces in the splitter: its stack of declarations provides the interface
  \<open>namespace_scope\<close> and agrees with the context it hands out; the cache of resolved names and
  the cached context are transparent in every reachable state (\<open>caches_ok\<close>).
\<close>

subsection \<open>The declarations in scope\<close>

text \<open>The splitter's stack of declarations is a namespace scope; so is the context it builds.\<close>

interpretation binding_scope: namespace_scope "[]" "\<lambda>p u bs. bs @ [(p, u)]" innermost
  by unfold_locales (auto simp: innermost_def)

lemma context_of_declare_all: "context_of bs = context_scope.declare_all bs new_context"
  by (simp add: context_of_def context_scope.declare_all_def)

lemma binding_declare_all_append: "binding_scope.declare_all bs cs = cs @ bs"
  unfolding binding_scope.declare_all_def
  by (induction bs arbitrary: cs) auto

lemma innermost_context: "innermost bs p = context_binding (context_of bs) p"
  using binding_scope.binding_declare_all_last [of bs p] context_scope.binding_declare_all_last [of bs p]
  by (simp add: binding_declare_all_append context_of_declare_all)

lemma resolve_in_context:
  assumes "\<forall>l. split_once (CHR '':'') raw \<noteq> Some (''xml'', l)"
    and "\<forall>p. innermost bs (Some p) \<noteq> Some []"
  shows "resolve_in bs raw True = resolve_name (context_of bs) raw"
proof (cases "split_once (CHR '':'') raw")
  case None
  then show ?thesis
    by (auto simp: resolve_in_def resolve_name_def resolve_prefix_binding innermost_context Let_def
        split: option.splits)
next
  case (Some pl)
  obtain p l where pl: "pl = (p, l)" by (cases pl)
  have "p \<noteq> ''xml''" using assms(1) Some pl by auto
  moreover have "context_binding (context_of bs) (Some p) \<noteq> Some []"
    using assms(2) by (simp add: innermost_context)
  ultimately show ?thesis
    using Some pl
    by (auto simp: resolve_in_def resolve_name_def resolve_prefix_binding innermost_context Let_def
        split: option.splits)
qed

subsection \<open>The caches\<close>

definition names_ok :: "splitter \<Rightarrow> bool" where
  "names_ok s \<longleftrightarrow>
     sp_names_generation s \<le> sp_bindings_generation s \<and>
     (sp_names_generation s = sp_bindings_generation s \<longrightarrow>
        (\<forall>raw n. sp_names s raw = Some n \<longrightarrow> n = resolve_in (sp_bindings s) raw True))"

definition context_cache_ok :: "splitter \<Rightarrow> bool" where
  "context_cache_ok s \<longleftrightarrow>
     sp_context_generation s \<le> sp_bindings_generation s \<and>
     (sp_context_generation s = sp_bindings_generation s \<longrightarrow>
        arc_val (sp_context s) = context_of (sp_bindings s))"

text \<open>The arcs of contexts: allocated before, and one value for one allocation.\<close>

definition arcs_ok :: "splitter \<Rightarrow> bool" where
  "arcs_ok s \<longleftrightarrow>
     arc_id (sp_context s) < sp_next_arc s \<and> arc_id (sp_chunk_context s) < sp_next_arc s \<and>
     (ptr_eq (sp_context s) (sp_chunk_context s) \<longrightarrow>
        arc_val (sp_context s) = arc_val (sp_chunk_context s))"

definition caches_ok :: "splitter \<Rightarrow> bool" where
  "caches_ok s \<longleftrightarrow> names_ok s \<and> context_cache_ok s \<and> arcs_ok s"

lemmas caches_defs = caches_ok_def names_ok_def context_cache_ok_def arcs_ok_def

lemma caches_ok_new: "caches_ok (new_splitter r source options)"
  by (simp add: caches_defs new_splitter_def Let_def context_of_def ptr_eq_def)

definition cache_part where
  "cache_part s =
     (sp_bindings s, sp_bindings_generation s, sp_names s, sp_names_generation s, sp_context s,
      sp_context_generation s, sp_chunk_context s, sp_next_arc s)"

lemma caches_cong: "cache_part t = cache_part s \<Longrightarrow> caches_ok t = caches_ok s"
  by (simp add: caches_defs cache_part_def)

lemma resolve_element_cached:
  assumes "names_ok s"
  shows "fst (resolve_element raw s) = resolve_in (sp_bindings s) raw True"
  using assms by (auto simp: resolve_element_def names_ok_def Let_def split: option.splits)

lemma resolve_element_caches:
  assumes "caches_ok s"
  shows "caches_ok (snd (resolve_element raw s))"
  using assms by (auto simp: resolve_element_def caches_defs Let_def split: option.splits)

lemma current_context_cached:
  assumes "caches_ok s"
  shows "arc_val (fst (current_context s)) = context_of (sp_bindings s)"
    "caches_ok (snd (current_context s))" "sp_bindings (snd (current_context s)) = sp_bindings s"
    "fst (current_context s) = sp_context (snd (current_context s))"
proof -
  show "arc_val (fst (current_context s)) = context_of (sp_bindings s)"
    using assms by (auto simp: current_context_def caches_defs Let_def)
  show "caches_ok (snd (current_context s))"
    using assms by (auto simp: current_context_def caches_defs Let_def ptr_eq_def)
  show "sp_bindings (snd (current_context s)) = sp_bindings s"
    by (simp add: current_context_def Let_def)
  show "fst (current_context s) = sp_context (snd (current_context s))"
    by (simp add: current_context_def Let_def)
qed

lemma push_declarations_caches:
  assumes "caches_ok s"
  shows "caches_ok (push_declarations x as s)"
  using assms by (auto simp: push_declarations_def caches_defs Let_def)

lemma undo_declarations_caches:
  assumes "caches_ok s"
  shows "caches_ok (undo_declarations d b s)"
  using assms by (auto simp: undo_declarations_def caches_defs)

named_theorems cache_keeps \<open>operations that leave the caches alone\<close>

lemma cache_part_ops [cache_keeps]:
  "cache_part (s\<lparr>sp_mode := md\<rparr>) = cache_part s" "cache_part (s\<lparr>sp_root_candidate := rc\<rparr>) = cache_part s"
  "cache_part (s\<lparr>sp_root_feature := rf\<rparr>) = cache_part s" "cache_part (s\<lparr>sp_saw_container := sc\<rparr>) = cache_part s"
  "cache_part (s\<lparr>sp_referenced_members := rm\<rparr>) = cache_part s" "cache_part (s\<lparr>sp_stack := st\<rparr>) = cache_part s"
  "cache_part (s\<lparr>sp_finished := fi\<rparr>) = cache_part s" "cache_part (s\<lparr>sp_ready := rd\<rparr>) = cache_part s"
  "cache_part (map_top f s) = cache_part s" "cache_part (enter_feature r s) = cache_part s"
  "cache_part (flush_chunk s) = cache_part s" "cache_part (read_header x q as b s) = cache_part s"
  "cache_part (container_found n st' rt s) = cache_part s"
  by (simp_all add: map_top_def enter_feature_def flush_chunk_def read_header_def container_found_def
      cache_part_def Let_def split: prod.splits)

lemma cache_end_feature [cache_keeps]: "cache_part (end_feature e st en s) = cache_part s"
  by (simp add: end_feature_def Let_def cache_keeps) (simp add: cache_part_def)

lemma begin_feature_caches:
  assumes "caches_ok s"
  shows "caches_ok (begin_feature start s)" "sp_bindings (begin_feature start s) = sp_bindings s"
    "arc_val (sp_chunk_context (begin_feature start s)) = context_of (sp_bindings s)"
proof -
  obtain c t where c: "current_context s = (c, t)" by (cases "current_context s")
  have t: "caches_ok t" "sp_bindings t = sp_bindings s" "arc_val c = context_of (sp_bindings s)" "c = sp_context t"
    using current_context_cached [OF assms] by (simp_all add: c)
  define P where "P \<longleftrightarrow> sp_chunk t \<noteq> [] \<and> (\<not> ptr_eq c (sp_chunk_context t) \<or>
      \<not> same_bounds (collection_bounded_by t) (sp_chunk_bounded_by t))"
  define u where "u = (if P then flush_chunk t else t)"
  have cp: "cache_part u = cache_part t" by (simp add: u_def cache_keeps)
  then have u: "sp_bindings u = sp_bindings s" "sp_context u = c" "sp_chunk_context u = sp_chunk_context t"
    "sp_next_arc u = sp_next_arc t"
    using t by (auto simp: cache_part_def)
  have uc: "caches_ok u" using caches_cong [OF cp] t(1) by simp
  have eq: "begin_feature start s = (if sp_chunk u = []
         then u\<lparr>sp_chunk_bounded_by := collection_bounded_by u, sp_chunk_context := c,
                 sp_chunk_offset := start, sp_chunk_first_feature := sp_features_emitted u\<rparr>
         else u)"
    by (simp add: begin_feature_def c Let_def u_def P_def)
  let ?v = "u\<lparr>sp_chunk_bounded_by := collection_bounded_by u, sp_chunk_context := c,
                 sp_chunk_offset := start, sp_chunk_first_feature := sp_features_emitted u\<rparr>"
  have "caches_ok ?v" using uc u(2) unfolding caches_defs by simp
  then show "caches_ok (begin_feature start s)" using uc unfolding eq by simp
  show "sp_bindings (begin_feature start s) = sp_bindings s" using u(1) unfolding eq by simp
  show "arc_val (sp_chunk_context (begin_feature start s)) = context_of (sp_bindings s)"
  proof (cases "sp_chunk u = []")
    case True
    then show ?thesis using t(3) by (simp add: eq)
  next
    case False
    have np: "\<not> P"
    proof
      assume P
      then have "u = flush_chunk t" by (simp add: u_def)
      then have "sp_chunk u = []" by (simp add: flush_chunk_def)
      with False show False by contradiction
    qed
    then have "u = t" by (simp add: u_def)
    moreover have "ptr_eq c (sp_chunk_context t)"
      using np False unfolding P_def \<open>u = t\<close> by blast
    ultimately have "begin_feature start s = t" "ptr_eq (sp_context t) (sp_chunk_context t)"
      using False t(4) by (simp_all add: eq)
    moreover have "arcs_ok t" using t(1) by (simp only: caches_ok_def)
    ultimately show ?thesis
      using t(3,4) by (simp add: arcs_ok_def)
  qed
qed

lemma end_bounded_by_caches:
  assumes "caches_ok s"
  shows "caches_ok (end_bounded_by st en s)"
proof -
  obtain c t where c: "current_context s = (c, t)" by (cases "current_context s")
  then have "caches_ok t" using current_context_cached(2) [OF assms] by simp
  then show ?thesis
    by (auto simp: end_bounded_by_def c Let_def caches_defs map_top_def)
qed

lemmas caches_keep = cache_part_ops [THEN caches_cong] cache_end_feature [THEN caches_cong]

lemma end_root_caches: "caches_ok s \<Longrightarrow> caches_ok (end_root en s)"
  by (simp add: end_root_def Let_def caches_keep begin_feature_caches split: option.splits)

lemma tag_resolved_caches:
  "caches_ok s \<Longrightarrow> caches_ok (tag_resolved x m name raw attributes before declared e s)"
  by (simp add: tag_resolved_def start_feature_def start_bounded_by_def start_container_eq Let_def
      caches_keep begin_feature_caches undo_declarations_caches end_root_caches)

lemma start_tag_caches: "caches_ok s \<Longrightarrow> caches_ok (snd (start_tag x m tag n e s))"
proof (cases "utf8_valid tag \<and> (\<exists>as. parse_attributes (drop n tag) = Inr as)")
  case False
  then show "caches_ok s \<Longrightarrow> ?thesis" by (auto simp: start_tag_eq split: sum.splits)
next
  case True
  assume s: "caches_ok s"
  obtain as where as: "parse_attributes (drop n tag) = Inr as" using True by blast
  obtain r s2 where r: "resolve_element (take n tag) (push_declarations x as s) = (r, s2)"
    by (cases "resolve_element (take n tag) (push_declarations x as s)")
  have "caches_ok s2"
    using resolve_element_caches [OF push_declarations_caches [OF s], of "take n tag" x as] by (simp add: r)
  then show ?thesis
    using True as r tag_resolved_caches by (simp add: start_tag_eq Let_def split: option.splits)
qed

lemma step_markup_caches: "caches_ok s \<Longrightarrow> caches_ok (snd (step_markup x m s))"
  by (simp add: step_markup_def step_feature_def start_outside_def end_outside_def Let_def
      caches_keep start_tag_caches end_bounded_by_caches undo_declarations_caches end_root_caches
      split: mode.splits kind.splits)

lemma machine_cache_part: "machine t = machine s \<Longrightarrow> cache_part t = cache_part s"
  by (drule arg_cong [where f = cache_part]) (simp add: machine_def cache_part_def)

lemma step_caches: "caches_ok s \<Longrightarrow> caches_ok (snd (step x s))"
proof -
  assume s: "caches_ok s"
  obtain r t where r: "(if in_feature (sp_mode s) then next_feature_markup x s else next_markup x s) = (r, t)"
    by (metis prod.exhaust)
  have m: "machine t = machine s"
    using r machine_next_markup [of x s] machine_next_feature_markup [of x s] by (auto split: if_splits)
  have t: "caches_ok t" using caches_cong [OF machine_cache_part [OF m]] s by simp
  then have "caches_ok (snd (finish t))" by (simp add: finish_def Let_def caches_keep)
  then show ?thesis
    using t step_markup_caches [OF t]
    by (auto simp: step_def r and_then_def split: sum.splits option.splits)
qed

text \<open>The states of a splitter between its public calls and its steps.\<close>

inductive reachable :: "byte_ext \<Rightarrow> read_result list \<Rightarrow> nat \<Rightarrow> splitter_options \<Rightarrow> splitter \<Rightarrow> bool"
  for x :: byte_ext and r :: "read_result list" and source :: nat and options :: splitter_options where
  created: "reachable x r source options (new_splitter r source options)"
| stepped: "reachable x r source options s \<Longrightarrow> \<not> sp_finished s \<Longrightarrow> reachable x r source options (snd (step x s))"
| popped: "reachable x r source options s \<Longrightarrow> sp_ready s = c # cs \<Longrightarrow> reachable x r source options (s\<lparr>sp_ready := cs\<rparr>)"
| failed: "reachable x r source options s \<Longrightarrow> ready \<in> {sp_ready s, []} \<Longrightarrow>
     reachable x r source options (s\<lparr>sp_finished := True, sp_ready := ready\<rparr>)"

inductive_simps reachable_simps: "reachable x r source options s"

lemma reachable_caches: "reachable x r source options s \<Longrightarrow> caches_ok s"
  by (induction rule: reachable.induct) (simp_all add: caches_ok_new step_caches caches_keep)

lemma reachable_next_chunk:
  "reachable x r source options s \<Longrightarrow> reachable x r source options (snd (next_chunk x s))"
proof (induction x s rule: next_chunk.induct)
  case (1 x s)
  show ?case
  proof (cases "sp_ready s")
    case (Cons c cs)
    then show ?thesis using popped [OF "1.prems" Cons] by (simp add: next_chunk.simps [of x s])
  next
    case Nil
    show ?thesis
    proof (cases "sp_finished s")
      case True
      then show ?thesis using "1.prems" Nil by (simp add: next_chunk.simps [of x s])
    next
      case False
      obtain res t where st: "step x s = (res, t)" by (cases "step x s")
      have t: "reachable x r source options t" using stepped [OF "1.prems" False] by (simp add: st)
      show ?thesis
      proof (cases res)
        case (Inl e)
        then show ?thesis
          using Nil False failed [OF t, of "[]"] by (simp add: next_chunk.simps [of x s] st)
      next
        case (Inr u)
        then show ?thesis
          using Nil False "1.IH" [OF Nil False st [symmetric, unfolded Inr] refl t]
          by (simp add: next_chunk.simps [of x s] st)
      qed
    qed
  qed
qed


subsection \<open>Properties\<close>

lemma reachable_a: "reachable std_ext [Read_Ok ''<a/>''] 0 single_root splitter_a_read"
  using reachable.stepped [OF reachable.created [of std_ext "[Read_Ok ''<a/>'']" 0 single_root]]
  by (simp add: step_a) (simp add: new_splitter_def Let_def)

text \<open>
  C17. The caches of the splitter cannot be seen: in every state a splitter reaches, an element name
  resolves to what a search of the declarations in scope gives, and the context handed out with a
  chunk is the one built from these declarations, whatever was declared and undone before.
\<close>

theorem caches_transparent:
  assumes "reachable x r source options s"
  shows "fst (resolve_element raw s) = resolve_in (sp_bindings s) raw True \<and>
         arc_val (fst (current_context s)) = context_of (sp_bindings s)"
  using resolve_element_cached [of s raw] current_context_cached(1) [of s] reachable_caches [OF assms]
  by (simp add: caches_ok_def)

lemma caches_transparent_witness:
  "fst (resolve_element ''a'' splitter_a_read) = Some (mk_qname None ''a'') \<and>
   arc_val (fst (current_context splitter_a_read)) = new_context"
  using caches_transparent [OF reachable_a, of "''a''"]
  by (simp add: splitter_a_read_def new_splitter_def resolve_in_def split_once_def innermost_def
      context_of_def Let_def)

text \<open>
  C32. A feature is copied into a chunk with the namespaces of its members element: after
  \<open>begin_feature\<close> the context of the chunk in progress is the context of the declarations in
  scope, also when the chunk goes on with features of an earlier scope.
\<close>

theorem chunk_context_in_scope:
  assumes "reachable x r source options s"
  shows "arc_val (sp_chunk_context (begin_feature start s)) = context_of (sp_bindings s)"
  by (rule begin_feature_caches(3) [OF reachable_caches [OF assms]])

lemma chunk_context_in_scope_witness:
  "arc_val (sp_chunk_context (begin_feature 0 splitter_a_read)) = new_context"
  using chunk_context_in_scope [OF reachable_a, of 0]
  by (simp add: splitter_a_read_def new_splitter_def context_of_def Let_def)

text \<open>
  C38. The splitter and \<open>NamespaceContext\<close> resolve alike: for every list of declarations, an
  element name whose prefix is not \<open>xml\<close> resolves in the splitter as it does in the context
  built from the declarations, as long as no prefix is bound to the empty name (which XML does
  not allow, and which the context alone accepts).
\<close>

theorem resolve_agrees_with_context:
  assumes "\<forall>l. split_once (CHR '':'') raw \<noteq> Some (''xml'', l)"
    and "\<forall>p. innermost bs (Some p) \<noteq> Some []"
  shows "resolve_in bs raw True = resolve_name (context_of bs) raw"
  by (rule resolve_in_context [OF assms])

lemma resolve_agrees_with_context_witness:
  "resolve_name (context_of [(Some ''p'', ''u''), (None, []), (Some ''p'', ''v'')]) ''p:a'' =
     Some (mk_qname (Some ''v'') ''a'')"
  using resolve_agrees_with_context [of "''p:a''" "[(Some ''p'', ''u''), (None, []), (Some ''p'', ''v'')]"]
  by (auto simp: resolve_in_def split_once_def innermost_def Let_def split: if_splits)

end
