(* ===== verification/Float64.thy ===== *)
theory Float64
  imports Xeibe_Prelude
begin

text \<open>
  Rust's \<open>f64\<close>: the 64 bits of IEEE 754 binary64, its comparisons, exact subtraction and
  the conversions from and to decimal text that the standard library does (\<open>str::parse\<close>, \<open>{}\<close>
  and \<open>{:e}\<close>): the nearest number, ties to even, and the shortest decimal that reads back.
\<close>

unbundle bit_operations_syntax

subsection \<open>Bits\<close>

type_synonym f64 = "64 word"

definition F64_NAN :: f64 where
  "F64_NAN = 0x7FF8000000000000"

definition F64_INFINITY :: f64 where
  "F64_INFINITY = 0x7FF0000000000000"

definition F64_NEG_INFINITY :: f64 where
  "F64_NEG_INFINITY = 0xFFF0000000000000"

definition f64_magnitude :: "f64 \<Rightarrow> f64" where
  "f64_magnitude w = w AND 0x7FFFFFFFFFFFFFFF"

definition is_nan :: "f64 \<Rightarrow> bool" where
  "is_nan w \<longleftrightarrow> f64_magnitude w > 0x7FF0000000000000"

definition is_finite :: "f64 \<Rightarrow> bool" where
  "is_finite w \<longleftrightarrow> f64_magnitude w < 0x7FF0000000000000"

definition is_negative :: "f64 \<Rightarrow> bool" where
  "is_negative w \<longleftrightarrow> bit w 63"

text \<open>The order of the numbers that are not NaN: sign and magnitude.\<close>

definition f64_key :: "f64 \<Rightarrow> int" where
  "f64_key w = (if bit w 63 then - int (unat (f64_magnitude w)) else int (unat (f64_magnitude w)))"

definition f64_eq :: "f64 \<Rightarrow> f64 \<Rightarrow> bool" where
  "f64_eq a b \<longleftrightarrow> \<not> is_nan a \<and> \<not> is_nan b \<and> f64_key a = f64_key b"

definition f64_le :: "f64 \<Rightarrow> f64 \<Rightarrow> bool" where
  "f64_le a b \<longleftrightarrow> \<not> is_nan a \<and> \<not> is_nan b \<and> f64_key a \<le> f64_key b"

definition f64_lt :: "f64 \<Rightarrow> f64 \<Rightarrow> bool" where
  "f64_lt a b \<longleftrightarrow> \<not> is_nan a \<and> \<not> is_nan b \<and> f64_key a < f64_key b"

text \<open>\<open>f64::min\<close> and \<open>f64::max\<close>: the other argument if one is NaN.\<close>

definition f64_min :: "f64 \<Rightarrow> f64 \<Rightarrow> f64" where
  "f64_min a b = (if is_nan a then b else if is_nan b then a else if f64_key b < f64_key a then b else a)"

definition f64_max :: "f64 \<Rightarrow> f64 \<Rightarrow> f64" where
  "f64_max a b = (if is_nan a then b else if is_nan b then a else if f64_key a < f64_key b then b else a)"

subsection \<open>Values\<close>

text \<open>
  A finite number is \<open>m * 2 ^ (k - 1074)\<close> with a sign: \<open>m\<close> the significand with its hidden bit
  and \<open>k\<close> the exponent field less one (0 for the subnormal numbers).
\<close>

definition f64_parts :: "f64 \<Rightarrow> nat \<times> nat" where
  "f64_parts w =
     (let a = unat (f64_magnitude w); e = a div 2 ^ 52; m = a mod 2 ^ 52
      in if e = 0 then (m, 0) else (m + 2 ^ 52, e - 1))"

text \<open>The magnitude as an integer multiple of the least positive number.\<close>

definition f64_units :: "f64 \<Rightarrow> nat" where
  "f64_units w = (let (m, k) = f64_parts w in m * 2 ^ k)"

definition f64_int :: "f64 \<Rightarrow> int" where
  "f64_int w = (if is_negative w then - int (f64_units w) else int (f64_units w))"

text \<open>The number of binary digits of a natural number.\<close>

fun bit_len :: "nat \<Rightarrow> nat" where
  "bit_len n = (if n = 0 then 0 else Suc (bit_len (n div 2)))"

declare bit_len.simps [simp del]

text \<open>Division rounded to the nearest integer, ties to even.\<close>

definition div_round :: "nat \<Rightarrow> nat \<Rightarrow> nat" where
  "div_round n d =
     (let q = n div d; r = n mod d
      in if 2 * r < d then q else if d < 2 * r then q + 1 else if even q then q else q + 1)"

text \<open>
  The number nearest to \<open>n / d\<close> units: the last place is chosen so that 53 binary digits are left,
  or the unit itself; a carry out of the significand goes into the exponent by addition.
\<close>

definition f64_of_units :: "nat \<Rightarrow> nat \<Rightarrow> nat" where
  "f64_of_units n d =
     (let k = bit_len (n div d) - 53; b = k * 2 ^ 52 + div_round n (d * 2 ^ k)
      in min b 0x7FF0000000000000)"

definition with_sign :: "bool \<Rightarrow> nat \<Rightarrow> f64" where
  "with_sign neg b = (if neg then word_of_nat b OR 0x8000000000000000 else word_of_nat b)"

subsection \<open>Subtraction\<close>

definition f64_sub :: "f64 \<Rightarrow> f64 \<Rightarrow> f64" where
  "f64_sub a b =
     (if is_nan a \<or> is_nan b then F64_NAN
      else if \<not> is_finite a then (if \<not> is_finite b \<and> is_negative a = is_negative b then F64_NAN else a)
      else if \<not> is_finite b then b XOR 0x8000000000000000
      else
        let v = f64_int a - f64_int b in
        if v = 0 then (if is_negative a \<and> \<not> is_negative b then 0x8000000000000000 else 0)
        else with_sign (v < 0) (f64_of_units (nat \<bar>v\<bar>) 1))"

text \<open>To evaluate on literals: the number of binary digits, given how many they are.\<close>

lemma bit_len_between: "2 ^ k \<le> n \<Longrightarrow> n < 2 ^ Suc k \<Longrightarrow> bit_len n = Suc k"
proof (induction k arbitrary: n)
  case 0
  then show ?case by (simp add: bit_len.simps)
next
  case (Suc k)
  then have "bit_len (n div 2) = Suc k" by (intro Suc.IH) auto
  then show ?case using Suc.prems by (subst bit_len.simps) auto
qed

lemmas f64_evals = f64_sub_def is_nan_def is_finite_def f64_magnitude_def f64_int_def f64_units_def
  f64_parts_def is_negative_def f64_of_units_def with_sign_def div_round_def

subsection \<open>Decimal text\<close>

text \<open>\<open>\<plusminus>digits * 10 ^ e\<close> to the nearest number, as \<open>str::parse::<f64>\<close> gives it.\<close>

definition f64_of_decimal :: "bool \<Rightarrow> nat \<Rightarrow> int \<Rightarrow> f64" where
  "f64_of_decimal neg n e =
     with_sign neg
       (if n = 0 then 0
        else if 0 \<le> e then f64_of_units (n * 10 ^ nat e * 2 ^ 1074) 1
        else f64_of_units (n * 2 ^ 1074) (10 ^ nat (- e)))"

text \<open>
  The shortest digits that read back as the number, as \<open>{}\<close> and \<open>{:e}\<close> print it: for every
  number of digits the decimals below and above, the one that reads back or the nearer of two.
  \<open>f64_scale u\<close> is the exponent of the first digit of \<open>u\<close> units.
\<close>

fun dec_len :: "nat \<Rightarrow> nat" where
  "dec_len n = (if n = 0 then 0 else Suc (dec_len (n div 10)))"

declare dec_len.simps [simp del]

definition f64_scale :: "nat \<Rightarrow> int" where
  "f64_scale u =
     (if 2 ^ 1074 \<le> u then int (dec_len (u div 2 ^ 1074)) - 1
      else - int (dec_len ((2 ^ 1074 - 1) div u)))"

definition reads_back :: "nat \<Rightarrow> nat \<Rightarrow> int \<Rightarrow> bool" where
  "reads_back b n e \<longleftrightarrow> f64_of_decimal False n e = word_of_nat b"

text \<open>
  The decimal of \<open>k\<close> digits, if one reads back: digits and the exponent of the last one; a carry
  to \<open>10 ^ k\<close> is a decimal of one digit less.
\<close>

definition digits_of_length :: "nat \<Rightarrow> nat \<Rightarrow> nat \<Rightarrow> (nat \<times> int) option" where
  "digits_of_length b u k =
     (let e = f64_scale u - int k + 1;
          num = (if 0 \<le> e then u else u * 10 ^ nat (- e));
          den = (if 0 \<le> e then 2 ^ 1074 * 10 ^ nat e else 2 ^ 1074);
          lo = num div den; r = num mod den;
          down = reads_back b lo e; up = reads_back b (lo + 1) e
      in if down \<and> (\<not> up \<or> 2 * r < den) then Some (lo, e)
         else if up then Some (if lo + 1 = 10 ^ k then (10 ^ (k - 1), e + 1) else (lo + 1, e)) else None)"

definition shortest_decimal :: "f64 \<Rightarrow> nat \<times> int" where
  "shortest_decimal w =
     (let b = unat (f64_magnitude w); u = f64_units w in
      if u = 0 then (0, 0)
      else (case List.map_filter (digits_of_length b u) [1..<18] of [] \<Rightarrow> (0, 0) | r # _ \<Rightarrow> r))"


text \<open>\<open>format!("{value}")\<close> and \<open>format!("{value:e}")\<close> of a finite number.\<close>

definition f64_sign_text :: "f64 \<Rightarrow> bytes" where
  "f64_sign_text w = (if is_negative w then ''-'' else [])"

definition show_f64 :: "f64 \<Rightarrow> bytes" where
  "show_f64 w =
     (let (n, e) = shortest_decimal w; ds = show_nat n; k = nat (- e) in
      f64_sign_text w @
        (if 0 \<le> e then ds @ replicate (nat e) CHR ''0''
         else if k < length ds then take (length ds - k) ds @ ''.'' @ drop (length ds - k) ds
         else ''0.'' @ replicate (k - length ds) CHR ''0'' @ ds))"

definition show_f64_exp :: "f64 \<Rightarrow> bytes" where
  "show_f64_exp w =
     (let (n, e) = shortest_decimal w; ds = show_nat n in
      f64_sign_text w @ take 1 ds @ (if length ds = 1 then [] else CHR ''.'' # drop 1 ds)
        @ ''e'' @ show_int (e + int (length ds) - 1))"

subsection \<open>Laws\<close>

lemma is_finite_not_nan: "is_finite w \<Longrightarrow> \<not> is_nan w"
  by (simp add: is_finite_def is_nan_def)

lemma f64_sub_self: "is_finite w \<Longrightarrow> f64_sub w w = 0"
  by (simp add: f64_sub_def is_finite_not_nan)

lemma f64_eq_sym: "f64_eq a b = f64_eq b a"
  by (auto simp: f64_eq_def)

end
