(* ===== verification/Geometry.thy ===== *)
theory Geometry
  imports Float64
begin

text \<open>
  The geometry model (\<open>crates/xeibe-geom/src/model.rs\<close>): coordinate sequences, curves,
  surfaces and geometries, their dimension, joining, reversal and the choice of the output type.
  \<open>hypot\<close>, which the platform's mathematical library provides, is a parameter (\<open>float_ext\<close>). The bounding boxes, which need the arithmetic of \<open>arcs.rs\<close>, are left out.
\<close>

text \<open>The one function of the platform's mathematical library that is called: \<open>f64::hypot\<close>.\<close>

record float_ext =
  fl_hypot :: "f64 \<Rightarrow> f64 \<Rightarrow> f64"

subsection \<open>Dimensions and coordinate sequences\<close>

datatype dim = Xy | Xyz

definition dim_size :: "dim \<Rightarrow> nat" where
  "dim_size d = (case d of Xy \<Rightarrow> 2 | Xyz \<Rightarrow> 3)"

definition dim_from_size :: "nat \<Rightarrow> dim option" where
  "dim_from_size n = (if n = 2 then Some Xy else if n = 3 then Some Xyz else None)"

record coords =
  co_dim :: "dim option"
  co_values :: "f64 list"

definition new_coords :: "dim \<Rightarrow> coords" where
  "new_coords d = \<lparr>co_dim = Some d, co_values = []\<rparr>"

definition default_coords :: coords where
  "default_coords = \<lparr>co_dim = None, co_values = []\<rparr>"

definition co_size :: "coords \<Rightarrow> nat" where
  "co_size c = (case co_dim c of None \<Rightarrow> 2 | Some d \<Rightarrow> dim_size d)"

definition co_len :: "coords \<Rightarrow> nat" where
  "co_len c = length (co_values c) div co_size c"

definition co_is_empty :: "coords \<Rightarrow> bool" where
  "co_is_empty c \<longleftrightarrow> co_values c = []"

definition push_coords :: "f64 list \<Rightarrow> coords \<Rightarrow> coords" where
  "push_coords xyz c =
     (let c1 = (if co_dim c = None
                then c\<lparr>co_dim := Some (if 3 \<le> length xyz then Xyz else Xy)\<rparr> else c);
          size = co_size c1
      in c1\<lparr>co_values := co_values c1 @ take size xyz @ replicate (size - length xyz) F64_NAN\<rparr>)"

definition get_coords :: "coords \<Rightarrow> nat \<Rightarrow> f64 list" where
  "get_coords c i = slice (i * co_size c) ((i + 1) * co_size c) (co_values c)"

definition first_coords :: "coords \<Rightarrow> f64 list option" where
  "first_coords c = (if co_is_empty c then None else Some (get_coords c 0))"

definition last_coords :: "coords \<Rightarrow> f64 list option" where
  "last_coords c = (if co_is_empty c then None else Some (get_coords c (co_len c - 1)))"

text \<open>\<open>values.chunks_exact(n)\<close>: the whole chunks, an incomplete one at the end is left out.\<close>

function chunks_exact :: "nat \<Rightarrow> 'a list \<Rightarrow> 'a list list" where
  "chunks_exact n xs =
     (if n = 0 \<or> length xs < n then [] else take n xs # chunks_exact n (drop n xs))"
  by pat_completeness auto
termination
  by (relation "measure (\<lambda>(n, xs). length xs)") auto

declare chunks_exact.simps [simp del]

definition positions :: "coords \<Rightarrow> f64 list list" where
  "positions c = chunks_exact (co_size c) (co_values c)"

definition distance_xy :: "float_ext \<Rightarrow> f64 list \<Rightarrow> f64 list \<Rightarrow> f64" where
  "distance_xy x a b = fl_hypot x (f64_sub (a ! 0) (b ! 0)) (f64_sub (a ! 1) (b ! 1))"

datatype join_result = Join_Exact | Within_Tolerance f64 | Join_Gap f64

definition extend_positions :: "coords \<Rightarrow> nat \<Rightarrow> coords \<Rightarrow> coords" where
  "extend_positions other skip c =
     (if co_size other = co_size c
      then c\<lparr>co_values := co_values c @ drop (min (skip * co_size other) (length (co_values other))) (co_values other)\<rparr>
      else fold push_coords (drop skip (positions other)) c)"

definition append_joined ::
  "float_ext \<Rightarrow> coords \<Rightarrow> f64 \<Rightarrow> coords \<Rightarrow> join_result \<times> coords" where
  "append_joined x other tolerance c =
     (let c1 = (if co_dim c = None then c\<lparr>co_dim := co_dim other\<rparr> else c) in
      case (last_coords c1, first_coords other) of
        (Some l, Some f) \<Rightarrow>
          (let distance = distance_xy x l f;
               result = (if f64_eq distance 0 then Join_Exact
                         else if f64_le distance tolerance then Within_Tolerance distance
                         else Join_Gap distance);
               skip = (case result of Join_Gap _ \<Rightarrow> 0 | _ \<Rightarrow> 1)
           in (result, extend_positions other skip c1))
      | _ \<Rightarrow> (Join_Exact, extend_positions other 0 c1))"

text \<open>\<open>values.swap(i, j)\<close>, and the loops of \<open>reverse\<close>.\<close>

definition swap :: "nat \<Rightarrow> nat \<Rightarrow> 'a list \<Rightarrow> 'a list" where
  "swap i j xs = xs[i := xs ! j, j := xs ! i]"

definition reverse_coords :: "coords \<Rightarrow> coords" where
  "reverse_coords c =
     (let size = co_size c; n = co_len c in
      c\<lparr>co_values :=
          fold (\<lambda>i. fold (\<lambda>k. swap (i * size + k) ((n - 1 - i) * size + k)) [0..<size])
            [0..<n div 2] (co_values c)\<rparr>)"

text \<open>\<open>[f64] == [f64]\<close>.\<close>

definition f64s_eq :: "f64 list \<Rightarrow> f64 list \<Rightarrow> bool" where
  "f64s_eq a b \<longleftrightarrow> list_all2 f64_eq a b"

definition opt_eq :: "f64 list option \<Rightarrow> f64 list option \<Rightarrow> bool" where
  "opt_eq a b \<longleftrightarrow>
     (case (a, b) of (Some a, Some b) \<Rightarrow> f64s_eq a b | (None, None) \<Rightarrow> True | _ \<Rightarrow> False)"

definition coords_closed :: "coords \<Rightarrow> bool" where
  "coords_closed c \<longleftrightarrow> 2 \<le> co_len c \<and> opt_eq (first_coords c) (last_coords c)"

definition non_empty_dim :: "coords \<Rightarrow> dim option" where
  "non_empty_dim c = (if co_is_empty c then None else co_dim c)"

text \<open>\<open>max_dim\<close>: the largest dimension that is known.\<close>

definition max_dim :: "dim option list \<Rightarrow> dim option" where
  "max_dim ds = (if Some Xyz \<in> set ds then Some Xyz else if Some Xy \<in> set ds then Some Xy else None)"

subsection \<open>Points, curves and surfaces\<close>

datatype point = Point (pt_coord: "f64 list option")

definition point_dim :: "point \<Rightarrow> dim option" where
  "point_dim p = map_option (\<lambda>c. if 3 \<le> length c then Xyz else Xy) (pt_coord p)"

datatype line_string = Line_String (ls_coords: coords)

record circular_string =
  cs_coords :: coords
  cs_computed :: "nat list"

definition reverse_circular :: "circular_string \<Rightarrow> circular_string" where
  "reverse_circular a =
     (let c = reverse_coords (cs_coords a); l = co_len c - 1 in
      \<lparr>cs_coords = c, cs_computed = sort (map (\<lambda>i. l - i) (cs_computed a))\<rparr>)"

datatype curve_part = Linear_Part line_string | Circular_Part circular_string

fun part_coords :: "curve_part \<Rightarrow> coords" where
  "part_coords (Linear_Part l) = ls_coords l"
| "part_coords (Circular_Part a) = cs_coords a"

fun reverse_part :: "curve_part \<Rightarrow> curve_part" where
  "reverse_part (Linear_Part l) = Linear_Part (Line_String (reverse_coords (ls_coords l)))"
| "reverse_part (Circular_Part a) = Circular_Part (reverse_circular a)"

fun is_linear_part :: "curve_part \<Rightarrow> bool" where
  "is_linear_part (Linear_Part _) = True"
| "is_linear_part (Circular_Part _) = False"

datatype compound_curve = Compound_Curve (cc_parts: "curve_part list")

definition compound_is_linear :: "compound_curve \<Rightarrow> bool" where
  "compound_is_linear c \<longleftrightarrow> (\<forall>p \<in> set (cc_parts c). is_linear_part p)"

definition compound_into_linear :: "float_ext \<Rightarrow> compound_curve \<Rightarrow> line_string option" where
  "compound_into_linear x c =
     (if \<not> compound_is_linear c then None
      else Some (Line_String
        (fold (\<lambda>p cs. snd (append_joined x (part_coords p) 0 cs)) (cc_parts c) default_coords)))"

definition compound_dim :: "compound_curve \<Rightarrow> dim option" where
  "compound_dim c = max_dim (map (\<lambda>p. non_empty_dim (part_coords p)) (cc_parts c))"

datatype curve = Linear line_string | Circular circular_string | Compound compound_curve

fun curve_is_linear :: "curve \<Rightarrow> bool" where
  "curve_is_linear (Linear _) = True"
| "curve_is_linear (Circular _) = False"
| "curve_is_linear (Compound c) = compound_is_linear c"

fun curve_into_linear :: "float_ext \<Rightarrow> curve \<Rightarrow> line_string option" where
  "curve_into_linear x (Linear l) = Some l"
| "curve_into_linear x (Circular _) = None"
| "curve_into_linear x (Compound c) = compound_into_linear x c"

fun curve_dim :: "curve \<Rightarrow> dim option" where
  "curve_dim (Linear l) = non_empty_dim (ls_coords l)"
| "curve_dim (Circular a) = non_empty_dim (cs_coords a)"
| "curve_dim (Compound c) = compound_dim c"

fun curve_is_empty :: "curve \<Rightarrow> bool" where
  "curve_is_empty (Linear l) = co_is_empty (ls_coords l)"
| "curve_is_empty (Circular a) = co_is_empty (cs_coords a)"
| "curve_is_empty (Compound c) = (\<forall>p \<in> set (cc_parts c). co_is_empty (part_coords p))"

text \<open>\<open>iter.find_map(f)\<close>.\<close>

fun find_map :: "('a \<Rightarrow> 'b option) \<Rightarrow> 'a list \<Rightarrow> 'b option" where
  "find_map f [] = None"
| "find_map f (x # xs) = (case f x of Some y \<Rightarrow> Some y | None \<Rightarrow> find_map f xs)"

fun curve_start :: "curve \<Rightarrow> f64 list option" where
  "curve_start (Linear l) = first_coords (ls_coords l)"
| "curve_start (Circular a) = first_coords (cs_coords a)"
| "curve_start (Compound c) = find_map (\<lambda>p. first_coords (part_coords p)) (cc_parts c)"

fun curve_end :: "curve \<Rightarrow> f64 list option" where
  "curve_end (Linear l) = last_coords (ls_coords l)"
| "curve_end (Circular a) = last_coords (cs_coords a)"
| "curve_end (Compound c) = find_map (\<lambda>p. last_coords (part_coords p)) (rev (cc_parts c))"

definition curve_closed :: "curve \<Rightarrow> bool" where
  "curve_closed c \<longleftrightarrow>
     (case (curve_start c, curve_end c) of (Some s, Some e) \<Rightarrow> f64s_eq s e | _ \<Rightarrow> False)"

fun reverse_curve :: "curve \<Rightarrow> curve" where
  "reverse_curve (Linear l) = Linear (Line_String (reverse_coords (ls_coords l)))"
| "reverse_curve (Circular a) = Circular (reverse_circular a)"
| "reverse_curve (Compound c) = Compound (Compound_Curve (map reverse_part (rev (cc_parts c))))"

record polygon =
  pg_exterior :: "line_string option"
  pg_interiors :: "line_string list"

definition default_polygon :: polygon where
  "default_polygon = \<lparr>pg_exterior = None, pg_interiors = []\<rparr>"

definition polygon_rings :: "polygon \<Rightarrow> line_string list" where
  "polygon_rings p = (case pg_exterior p of None \<Rightarrow> [] | Some e \<Rightarrow> [e]) @ pg_interiors p"

definition polygon_dim :: "polygon \<Rightarrow> dim option" where
  "polygon_dim p = max_dim (map (\<lambda>r. non_empty_dim (ls_coords r)) (polygon_rings p))"

record curve_polygon =
  cp_exterior :: "curve option"
  cp_interiors :: "curve list"

definition curve_polygon_rings :: "curve_polygon \<Rightarrow> curve list" where
  "curve_polygon_rings p = (case cp_exterior p of None \<Rightarrow> [] | Some e \<Rightarrow> [e]) @ cp_interiors p"

definition curve_polygon_is_linear :: "curve_polygon \<Rightarrow> bool" where
  "curve_polygon_is_linear p \<longleftrightarrow> (\<forall>r \<in> set (curve_polygon_rings p). curve_is_linear r)"

text \<open>\<open>unwrap_or_default\<close> of a line string.\<close>

definition or_default_line :: "line_string option \<Rightarrow> line_string" where
  "or_default_line l = (case l of Some l \<Rightarrow> l | None \<Rightarrow> Line_String default_coords)"

definition curve_polygon_into_linear :: "float_ext \<Rightarrow> curve_polygon \<Rightarrow> curve_polygon + polygon" where
  "curve_polygon_into_linear x p =
     (if \<not> curve_polygon_is_linear p then Inl p
      else
        let ring = (\<lambda>c. or_default_line (curve_into_linear x c)) in
        Inr \<lparr>pg_exterior = map_option ring (cp_exterior p), pg_interiors = map ring (cp_interiors p)\<rparr>)"

definition curve_polygon_dim :: "curve_polygon \<Rightarrow> dim option" where
  "curve_polygon_dim p = max_dim (map curve_dim (curve_polygon_rings p))"

datatype surface = Polygon_Surface polygon | Curve_Polygon_Surface curve_polygon

fun surface_is_linear :: "surface \<Rightarrow> bool" where
  "surface_is_linear (Polygon_Surface _) = True"
| "surface_is_linear (Curve_Polygon_Surface p) = curve_polygon_is_linear p"

fun surface_into_linear :: "float_ext \<Rightarrow> surface \<Rightarrow> surface + polygon" where
  "surface_into_linear x (Polygon_Surface p) = Inr p"
| "surface_into_linear x (Curve_Polygon_Surface p) =
     (case curve_polygon_into_linear x p of
        Inl p \<Rightarrow> Inl (Curve_Polygon_Surface p) | Inr p \<Rightarrow> Inr p)"

fun surface_dim :: "surface \<Rightarrow> dim option" where
  "surface_dim (Polygon_Surface p) = polygon_dim p"
| "surface_dim (Curve_Polygon_Surface p) = curve_polygon_dim p"

fun reverse_surface :: "surface \<Rightarrow> surface" where
  "reverse_surface (Polygon_Surface p) =
     (let ring = (\<lambda>l. Line_String (reverse_coords (ls_coords l))) in
      Polygon_Surface \<lparr>pg_exterior = map_option ring (pg_exterior p),
                       pg_interiors = map ring (pg_interiors p)\<rparr>)"
| "reverse_surface (Curve_Polygon_Surface p) =
     Curve_Polygon_Surface \<lparr>cp_exterior = map_option reverse_curve (cp_exterior p),
                            cp_interiors = map reverse_curve (cp_interiors p)\<rparr>"

subsection \<open>Geometries\<close>

datatype geometry =
    G_Point point
  | G_LineString line_string
  | G_Polygon polygon
  | G_MultiPoint "point list"
  | G_MultiLineString "line_string list"
  | G_MultiPolygon "polygon list"
  | G_Collection "geometry list"
  | G_CircularString circular_string
  | G_CompoundCurve compound_curve
  | G_CurvePolygon curve_polygon
  | G_MultiCurve "curve list"
  | G_MultiSurface "surface list"

datatype output_kind =
    K_Point | K_LineString | K_Polygon | K_MultiPoint | K_MultiLineString | K_MultiPolygon
  | K_Collection | K_CircularString | K_CompoundCurve | K_CurvePolygon | K_MultiCurve
  | K_MultiSurface

fun geometry_kind :: "geometry \<Rightarrow> output_kind" where
  "geometry_kind (G_Point _) = K_Point"
| "geometry_kind (G_LineString _) = K_LineString"
| "geometry_kind (G_Polygon _) = K_Polygon"
| "geometry_kind (G_MultiPoint _) = K_MultiPoint"
| "geometry_kind (G_MultiLineString _) = K_MultiLineString"
| "geometry_kind (G_MultiPolygon _) = K_MultiPolygon"
| "geometry_kind (G_Collection _) = K_Collection"
| "geometry_kind (G_CircularString _) = K_CircularString"
| "geometry_kind (G_CompoundCurve _) = K_CompoundCurve"
| "geometry_kind (G_CurvePolygon _) = K_CurvePolygon"
| "geometry_kind (G_MultiCurve _) = K_MultiCurve"
| "geometry_kind (G_MultiSurface _) = K_MultiSurface"

fun geometry_dim :: "geometry \<Rightarrow> dim option" where
  "geometry_dim (G_Point p) = point_dim p"
| "geometry_dim (G_LineString l) = non_empty_dim (ls_coords l)"
| "geometry_dim (G_Polygon p) = polygon_dim p"
| "geometry_dim (G_MultiPoint ps) = max_dim (map point_dim ps)"
| "geometry_dim (G_MultiLineString ls) = max_dim (map (\<lambda>l. non_empty_dim (ls_coords l)) ls)"
| "geometry_dim (G_MultiPolygon ps) = max_dim (map polygon_dim ps)"
| "geometry_dim (G_Collection gs) = max_dim (map geometry_dim gs)"
| "geometry_dim (G_CircularString a) = non_empty_dim (cs_coords a)"
| "geometry_dim (G_CompoundCurve c) = compound_dim c"
| "geometry_dim (G_CurvePolygon p) = curve_polygon_dim p"
| "geometry_dim (G_MultiCurve cs) = max_dim (map curve_dim cs)"
| "geometry_dim (G_MultiSurface ss) = max_dim (map surface_dim ss)"

fun is_simple :: "geometry \<Rightarrow> bool" where
  "is_simple (G_Collection gs) = list_all is_simple gs"
| "is_simple (G_CircularString _) = False"
| "is_simple (G_CompoundCurve c) = compound_is_linear c"
| "is_simple (G_CurvePolygon p) = curve_polygon_is_linear p"
| "is_simple (G_MultiCurve cs) = list_all curve_is_linear cs"
| "is_simple (G_MultiSurface ss) = list_all surface_is_linear ss"
| "is_simple _ = True"

fun simplify_types :: "float_ext \<Rightarrow> geometry \<Rightarrow> geometry" where
  "simplify_types x (G_CompoundCurve c) =
     (if compound_is_linear c then G_LineString (or_default_line (compound_into_linear x c))
      else G_CompoundCurve c)"
| "simplify_types x (G_CurvePolygon p) =
     (case curve_polygon_into_linear x p of Inr p \<Rightarrow> G_Polygon p | Inl p \<Rightarrow> G_CurvePolygon p)"
| "simplify_types x (G_MultiCurve cs) =
     (if list_all curve_is_linear cs
      then G_MultiLineString (map (\<lambda>c. or_default_line (curve_into_linear x c)) cs)
      else G_MultiCurve cs)"
| "simplify_types x (G_MultiSurface ss) =
     (if list_all surface_is_linear ss
      then G_MultiPolygon
             (map (\<lambda>s. case surface_into_linear x s of Inr p \<Rightarrow> p | Inl _ \<Rightarrow> default_polygon) ss)
      else G_MultiSurface ss)"
| "simplify_types x (G_Collection gs) = G_Collection (map (simplify_types x) gs)"
| "simplify_types x g = g"

text \<open>The three families of \<open>from_parts\<close> and what each part gives.\<close>

fun points_of :: "geometry \<Rightarrow> point list option" where
  "points_of (G_Point p) = Some [p]"
| "points_of (G_MultiPoint ps) = Some ps"
| "points_of _ = None"

fun curves_of :: "geometry \<Rightarrow> curve list option" where
  "curves_of (G_LineString l) = Some [Linear l]"
| "curves_of (G_CircularString a) = Some [Circular a]"
| "curves_of (G_CompoundCurve c) = Some [Compound c]"
| "curves_of (G_MultiLineString ls) = Some (map Linear ls)"
| "curves_of (G_MultiCurve cs) = Some cs"
| "curves_of _ = None"

fun surfaces_of :: "geometry \<Rightarrow> surface list option" where
  "surfaces_of (G_Polygon p) = Some [Polygon_Surface p]"
| "surfaces_of (G_CurvePolygon p) = Some [Curve_Polygon_Surface p]"
| "surfaces_of (G_MultiPolygon ps) = Some (map Polygon_Surface ps)"
| "surfaces_of (G_MultiSurface ss) = Some ss"
| "surfaces_of _ = None"

definition all_of :: "(geometry \<Rightarrow> 'a list option) \<Rightarrow> geometry list \<Rightarrow> 'a list option" where
  "all_of f parts =
     (if \<forall>g \<in> set parts. f g \<noteq> None then Some (concat (map (\<lambda>g. the (f g)) parts)) else None)"

definition from_parts :: "float_ext \<Rightarrow> geometry list \<Rightarrow> geometry" where
  "from_parts x parts =
     (case all_of points_of parts of
        Some ps \<Rightarrow> G_MultiPoint ps
      | None \<Rightarrow>
          (case all_of curves_of parts of
             Some cs \<Rightarrow> simplify_types x (G_MultiCurve cs)
           | None \<Rightarrow>
               (case all_of surfaces_of parts of
                  Some ss \<Rightarrow> simplify_types x (G_MultiSurface ss)
                | None \<Rightarrow> G_Collection parts)))"

datatype geom_kind =
    GK_Point | GK_LineString | GK_LinearRing | GK_Polygon | GK_Curve | GK_OrientableCurve
  | GK_CompositeCurve | GK_Ring | GK_Surface | GK_OrientableSurface | GK_CompositeSurface
  | GK_Patch | GK_MultiPoint | GK_MultiLineString | GK_MultiCurve | GK_MultiPolygon
  | GK_MultiSurface | GK_MultiGeometry | GK_Envelope | GK_Box | GK_Unsupported

definition kind_multi :: "geom_kind \<Rightarrow> geom_kind" where
  "kind_multi k =
     (if k \<in> {GK_Point, GK_MultiPoint} then GK_MultiPoint
      else if k \<in> {GK_LineString, GK_LinearRing, GK_Curve, GK_OrientableCurve, GK_CompositeCurve,
                   GK_Ring, GK_MultiLineString, GK_MultiCurve} then GK_MultiCurve
      else if k = GK_MultiGeometry then GK_MultiGeometry
      else if k = GK_Unsupported then GK_Unsupported
      else GK_MultiSurface)"

record envelope =
  env_lower :: "f64 list"
  env_upper :: "f64 list"
  env_srs_name :: "bytes option"

definition envelope_polygon :: "envelope \<Rightarrow> polygon" where
  "envelope_polygon e =
     (if length (env_lower e) < 2 \<or> length (env_upper e) < 2 then default_polygon
      else
        let lx = env_lower e ! 0; ly = env_lower e ! 1; ux = env_upper e ! 0; uy = env_upper e ! 1
        in \<lparr>pg_exterior = Some (Line_String
              \<lparr>co_dim = Some Xy, co_values = [lx, ly, ux, ly, ux, uy, lx, uy, lx, ly]\<rparr>),
            pg_interiors = []\<rparr>)"

end
