(* ===== verification/Geometry_Laws.thy ===== *)
theory Geometry_Laws
  imports Geometry
begin

text \<open>
  Laws of the geometry model: the simple types, reversal, pushing and joining. The interface
  \<open>reversible\<close> states what a thing that can be reversed promises; coordinate sequences and
  curves provide it.
\<close>

subsection \<open>The simple types\<close>

text \<open>Only the types \<open>geo-traits\<close> knows, in every part.\<close>

fun linear_types :: "geometry \<Rightarrow> bool" where
  "linear_types (G_Collection gs) = list_all linear_types gs"
| "linear_types (G_CircularString _) = False"
| "linear_types (G_CompoundCurve _) = False"
| "linear_types (G_CurvePolygon _) = False"
| "linear_types (G_MultiCurve _) = False"
| "linear_types (G_MultiSurface _) = False"
| "linear_types _ = True"

lemma simplify_linear: "linear_types (simplify_types x g) = is_simple g"
proof (induction g rule: is_simple.induct)
  case (1 gs)
  then show ?case by (simp add: list_all_iff)
qed (auto simp: curve_polygon_into_linear_def Let_def)

lemma linear_types_simplify: "linear_types g \<Longrightarrow> simplify_types x g = g"
proof (induction g rule: linear_types.induct)
  case (1 gs)
  then show ?case by (simp add: list_all_iff map_idI)
qed auto

lemma simplify_idem: "simplify_types x (simplify_types x g) = simplify_types x g"
proof (induction g rule: is_simple.induct)
  case (1 gs)
  then show ?case by simp
qed (auto simp: curve_polygon_into_linear_def Let_def)

lemma from_parts_family:
  "geometry_kind (from_parts x parts) \<in>
     {K_MultiPoint, K_MultiLineString, K_MultiCurve, K_MultiPolygon, K_MultiSurface, K_Collection}"
  by (auto simp: from_parts_def split: option.splits)

lemma from_parts_collection:
  "geometry_kind (from_parts x parts) = K_Collection \<longleftrightarrow>
     all_of points_of parts = None \<and> all_of curves_of parts = None \<and> all_of surfaces_of parts = None"
  by (auto simp: from_parts_def split: option.splits)

subsection \<open>Reversal\<close>

definition coords_wf :: "coords \<Rightarrow> bool" where
  "coords_wf c \<longleftrightarrow> length (co_values c) = co_len c * co_size c"

lemma co_size_pos [simp]: "0 < co_size c" "co_size c \<noteq> 0"
  by (auto simp: co_size_def dim_size_def split: option.splits dim.splits)

lemma coords_wf_dvd: "coords_wf c \<longleftrightarrow> co_size c dvd length (co_values c)"
  unfolding coords_wf_def co_len_def by (metis dvd_div_mult_self dvd_triv_right)

lemma swap_nth:
  "i < length xs \<Longrightarrow> j < length xs \<Longrightarrow> p < length xs \<Longrightarrow>
     swap i j xs ! p = (if p = j then xs ! i else if p = i then xs ! j else xs ! p)"
  by (simp add: swap_def nth_list_update)

lemma length_swap [simp]: "length (swap i j xs) = length xs"
  by (simp add: swap_def)

lemma length_fold_swap [simp]: "length (fold (\<lambda>k. swap (f k) (g k)) ks xs) = length xs"
  by (induction ks arbitrary: xs) auto

lemma block_index: "b < n \<Longrightarrow> k < s \<Longrightarrow> b * s + k < n * (s::nat)"
proof -
  assume "b < n" "k < s"
  then have "b * s + k < b * s + s" by simp
  also have "\<dots> = (b + 1) * s" by simp
  also have "\<dots> \<le> n * s" using \<open>b < n\<close> by (intro mult_right_mono) auto
  finally show ?thesis .
qed

lemma index_block: "0 < s \<Longrightarrow> p = b * s + k \<and> k < s \<longleftrightarrow> p div s = b \<and> p mod s = (k::nat)"
  by auto

lemma swap_block:
  assumes "0 < s" "length xs = n * s" "i < n" "j < n" "i \<noteq> j" "m \<le> s" "p < n * s"
  shows "fold (\<lambda>k. swap (i * s + k) (j * s + k)) [0..<m] xs ! p =
     (if p mod s < m \<and> p div s = i then xs ! (j * s + p mod s)
      else if p mod s < m \<and> p div s = j then xs ! (i * s + p mod s) else xs ! p)"
  using assms(6,7)
proof (induction m arbitrary: p)
  case 0
  then show ?case by simp
next
  case (Suc m)
  let ?ys = "fold (\<lambda>k. swap (i * s + k) (j * s + k)) [0..<m] xs"
  have b: "i * s + m < n * s" "j * s + m < n * s"
    using Suc.prems(1) assms block_index by simp_all
  have st: "fold (\<lambda>k. swap (i * s + k) (j * s + k)) [0..<Suc m] xs ! p =
     (if p = j * s + m then ?ys ! (i * s + m) else if p = i * s + m then ?ys ! (j * s + m) else ?ys ! p)"
    using b assms(2) Suc.prems(2) by (simp add: swap_nth)
  have d: "(i * s + m) div s = i" "(i * s + m) mod s = m" "(j * s + m) div s = j" "(j * s + m) mod s = m"
    using Suc.prems(1) assms(1) by simp_all
  have yi: "?ys ! (i * s + m) = xs ! (i * s + m)" "?ys ! (j * s + m) = xs ! (j * s + m)"
    using Suc.IH [OF _ b(1)] Suc.IH [OF _ b(2)] Suc.prems(1) d by simp_all
  have yp: "?ys ! p = (if p mod s < m \<and> p div s = i then xs ! (j * s + p mod s)
      else if p mod s < m \<and> p div s = j then xs ! (i * s + p mod s) else xs ! p)"
    using Suc.IH [OF _ Suc.prems(2)] Suc.prems(1) by simp
  have pe: "p = i * s + m \<longleftrightarrow> p div s = i \<and> p mod s = m" "p = j * s + m \<longleftrightarrow> p div s = j \<and> p mod s = m"
    using index_block [OF assms(1), of p i m] index_block [OF assms(1), of p j m] Suc.prems(1) by auto
  show ?case
    unfolding st yi yp pe less_Suc_eq using assms(5) by auto
qed

lemma swap_blocks:
  assumes "0 < s" "length xs = n * s" "m \<le> n div 2" "p < n * s"
  shows "fold (\<lambda>i. fold (\<lambda>k. swap (i * s + k) ((n - 1 - i) * s + k)) [0..<s]) [0..<m] xs ! p =
     (if p div s < m \<or> n - m \<le> p div s then xs ! ((n - 1 - p div s) * s + p mod s) else xs ! p)"
    and "length (fold (\<lambda>i. fold (\<lambda>k. swap (i * s + k) ((n - 1 - i) * s + k)) [0..<s]) [0..<m] xs) = n * s"
proof -
  let ?F = "\<lambda>m. fold (\<lambda>i. fold (\<lambda>k. swap (i * s + k) ((n - 1 - i) * s + k)) [0..<s]) [0..<m] xs"
  have len: "length (?F m) = n * s" for m
    using assms(2) by (induction m) simp_all
  then show "length (?F m) = n * s" .
  show "?F m ! p = (if p div s < m \<or> n - m \<le> p div s then xs ! ((n - 1 - p div s) * s + p mod s) else xs ! p)"
    using assms(3,4)
  proof (induction m arbitrary: p)
    case 0
    then have "p div s < n" using assms(1) by (simp add: less_mult_imp_div_less)
    then show ?case by simp
  next
    case (Suc m)
    have m: "m < n" "n - 1 - m < n" "m \<noteq> n - 1 - m" "m < n - 1 - m" using Suc.prems(1) by auto
    have ps: "p mod s < s" "p div s < n" using assms(1) Suc.prems(2) by (simp_all add: less_mult_imp_div_less)
    have st: "?F (Suc m) ! p = (if p div s = m then ?F m ! ((n - 1 - m) * s + p mod s)
       else if p div s = n - 1 - m then ?F m ! (m * s + p mod s) else ?F m ! p)"
      using swap_block [OF assms(1) len m(1-3) order.refl Suc.prems(2), of m] ps(1) by simp
    have b: "m * s + p mod s < n * s" "(n - 1 - m) * s + p mod s < n * s"
      using ps m block_index by simp_all
    have d: "(m * s + p mod s) div s = m" "(m * s + p mod s) mod s = p mod s"
      "((n - 1 - m) * s + p mod s) div s = n - 1 - m" "((n - 1 - m) * s + p mod s) mod s = p mod s"
      using ps(1) assms(1) by simp_all
    have f: "?F m ! (m * s + p mod s) = xs ! (m * s + p mod s)"
      "?F m ! ((n - 1 - m) * s + p mod s) = xs ! ((n - 1 - m) * s + p mod s)"
      "?F m ! p = (if p div s < m \<or> n - m \<le> p div s then xs ! ((n - 1 - p div s) * s + p mod s) else xs ! p)"
      using Suc.IH [OF _ b(1)] Suc.IH [OF _ b(2)] Suc.IH [OF _ Suc.prems(2)] Suc.prems(1) m d by auto
    have nm: "n - 1 - (n - 1 - m) = m" using m by simp
    have c: "p div s < Suc m \<longleftrightarrow> p div s < m \<or> p div s = m"
      "n - Suc m \<le> p div s \<longleftrightarrow> n - m \<le> p div s \<or> p div s = n - 1 - m"
      using m by auto
    show ?case
      unfolding st f c using m nm by auto
  qed
qed

lemma chunks_exact_nth:
  assumes "0 < s" "length xs = n * s"
  shows "chunks_exact s xs = map (\<lambda>b. take s (drop (b * s) xs)) [0..<n]"
  using assms
proof (induction n arbitrary: xs)
  case 0
  then show ?case by (subst chunks_exact.simps) simp
next
  case (Suc n)
  have "chunks_exact s xs = take s xs # chunks_exact s (drop s xs)"
    using Suc.prems by (subst chunks_exact.simps) simp
  also have "chunks_exact s (drop s xs) = map (\<lambda>b. take s (drop (b * s) (drop s xs))) [0..<n]"
    using Suc.prems by (intro Suc.IH) simp_all
  also have "\<dots> = map (\<lambda>b. take s (drop (b * s) xs)) [1..<Suc n]"
    by (rule nth_equalityI) (simp_all add: add.commute del: upt_Suc)
  also have "take s xs # \<dots> = map (\<lambda>b. take s (drop (b * s) xs)) [0..<Suc n]"
    by (simp add: upt_conv_Cons del: upt_Suc)
  finally show ?case .
qed

lemma positions_reverse:
  assumes "coords_wf c"
  shows "positions (reverse_coords c) = rev (positions c)" "coords_wf (reverse_coords c)"
proof -
  let ?s = "co_size c" and ?n = "co_len c" and ?xs = "co_values c" and ?ys = "co_values (reverse_coords c)"
  have l: "length ?xs = ?n * ?s" using assms by (simp add: coords_wf_def)
  have sz: "co_size (reverse_coords c) = ?s" by (simp add: co_size_def reverse_coords_def Let_def)
  have ys: "?ys = fold (\<lambda>i. fold (\<lambda>k. swap (i * ?s + k) ((?n - 1 - i) * ?s + k)) [0..<?s]) [0..<?n div 2] ?xs"
    by (simp add: reverse_coords_def Let_def)
  have ly: "length ?ys = ?n * ?s"
    unfolding ys by (cases "?n * ?s") (use swap_blocks(2) [OF co_size_pos(1) l order.refl] l in auto)
  then show "coords_wf (reverse_coords c)"
    unfolding coords_wf_dvd sz by simp
  have nth: "?ys ! (b * ?s + k) = ?xs ! ((?n - 1 - b) * ?s + k)" if "b < ?n" "k < ?s" for b k
  proof -
    have p: "b * ?s + k < ?n * ?s" using that block_index by simp
    have d: "(b * ?s + k) div ?s = b" "(b * ?s + k) mod ?s = k" using that by simp_all
    show ?thesis
      unfolding ys swap_blocks(1) [OF co_size_pos(1) l order.refl p] d
      using that by (auto intro!: arg_cong [where f = "\<lambda>i. ?xs ! (i * ?s + k)"])
  qed
  show "positions (reverse_coords c) = rev (positions c)"
    unfolding positions_def sz chunks_exact_nth [OF co_size_pos(1) ly] chunks_exact_nth [OF co_size_pos(1) l]
  proof (rule nth_equalityI)
    fix b assume "b < length (map (\<lambda>b. take ?s (drop (b * ?s) ?ys)) [0..<?n])"
    then have b: "b < ?n" by simp
    have "take ?s (drop (b * ?s) ?ys) = take ?s (drop ((?n - 1 - b) * ?s) ?xs)"
    proof (rule nth_equalityI)
      have "Suc b * ?s \<le> ?n * ?s" "Suc (?n - 1 - b) * ?s \<le> ?n * ?s"
        using b by (intro mult_le_mono1; simp)+
      then have "b * ?s + ?s \<le> ?n * ?s" "(?n - 1 - b) * ?s + ?s \<le> ?n * ?s"
        by (simp_all add: add.commute)
      then have bl: "b * ?s \<le> length ?ys" "(?n - 1 - b) * ?s \<le> length ?xs"
        using l ly b by simp_all
      show "length (take ?s (drop (b * ?s) ?ys)) = length (take ?s (drop ((?n - 1 - b) * ?s) ?xs))"
        using l ly \<open>b * ?s + ?s \<le> ?n * ?s\<close> \<open>(?n - 1 - b) * ?s + ?s \<le> ?n * ?s\<close> by simp
      fix k assume "k < length (take ?s (drop (b * ?s) ?ys))"
      then show "take ?s (drop (b * ?s) ?ys) ! k = take ?s (drop ((?n - 1 - b) * ?s) ?xs) ! k"
        using nth [OF b, of k] bl by simp
    qed
    then show "map (\<lambda>b. take ?s (drop (b * ?s) ?ys)) [0..<?n] ! b = rev (map (\<lambda>b. take ?s (drop (b * ?s) ?xs)) [0..<?n]) ! b"
      using b by (simp add: rev_nth)
  qed simp
qed

lemma reverse_reverse_coords:
  assumes "coords_wf c"
  shows "positions (reverse_coords (reverse_coords c)) = positions c"
  using positions_reverse(1) [OF positions_reverse(2) [OF assms]] positions_reverse(1) [OF assms] by simp

lemma first_last_positions:
  assumes "coords_wf c"
  shows "first_coords c = (case positions c of [] \<Rightarrow> None | p # _ \<Rightarrow> Some p)"
    "last_coords c = (if positions c = [] then None else Some (last (positions c)))"
proof -
  have l: "length (co_values c) = co_len c * co_size c" using assms by (simp add: coords_wf_def)
  note pos = positions_def chunks_exact_nth [OF co_size_pos(1) l]
  have e: "co_is_empty c \<longleftrightarrow> co_len c = 0" using l by (auto simp: co_is_empty_def)
  show "first_coords c = (case positions c of [] \<Rightarrow> None | p # _ \<Rightarrow> Some p)"
    by (cases "co_len c") (simp_all add: first_coords_def e pos get_coords_def slice_def upt_conv_Cons del: upt_Suc)
  show "last_coords c = (if positions c = [] then None else Some (last (positions c)))"
    by (cases "co_len c") (simp_all add: last_coords_def e pos get_coords_def slice_def)
qed


lemma reverse_coords_ends:
  assumes "coords_wf c"
  shows "first_coords (reverse_coords c) = last_coords c" "last_coords (reverse_coords c) = first_coords c"
proof -
  note p = positions_reverse [OF assms] first_last_positions [OF assms]
  note q = first_last_positions [OF p(2)]
  show "first_coords (reverse_coords c) = last_coords c"
    unfolding q(1) p(1) p(4) by (cases "positions c" rule: rev_cases) simp_all
  show "last_coords (reverse_coords c) = first_coords c"
    unfolding q(2) p(1) p(3) by (cases "positions c") simp_all
qed

fun curve_wf :: "curve \<Rightarrow> bool" where
  "curve_wf (Linear l) = coords_wf (ls_coords l)"
| "curve_wf (Circular a) = coords_wf (cs_coords a)"
| "curve_wf (Compound c) = (\<forall>p \<in> set (cc_parts c). coords_wf (part_coords p))"

lemma part_coords_reverse: "part_coords (reverse_part p) = reverse_coords (part_coords p)"
  by (cases p) (simp_all add: reverse_circular_def Let_def)

lemma find_map_map: "find_map f (map g xs) = find_map (\<lambda>x. f (g x)) xs"
  by (induction xs) (auto split: option.splits)

lemma find_map_cong: "(\<And>x. x \<in> set xs \<Longrightarrow> f x = g x) \<Longrightarrow> find_map f xs = find_map g xs"
  by (induction xs) (auto split: option.splits)

lemma reverse_curve_ends:
  assumes "curve_wf c"
  shows "curve_start (reverse_curve c) = curve_end c" "curve_end (reverse_curve c) = curve_start c"
proof -
  have "curve_start (reverse_curve c) = curve_end c \<and> curve_end (reverse_curve c) = curve_start c"
    using assms
  proof (cases c)
    case (Compound cc)
    have wf: "coords_wf (part_coords p)" if "p \<in> set (cc_parts cc)" for p
      using assms that Compound by simp
    have "find_map (\<lambda>p. first_coords (part_coords (reverse_part p))) (rev (cc_parts cc)) =
        find_map (\<lambda>p. last_coords (part_coords p)) (rev (cc_parts cc))"
      by (rule find_map_cong) (simp add: part_coords_reverse reverse_coords_ends wf)
    moreover have "find_map (\<lambda>p. last_coords (part_coords (reverse_part p))) (cc_parts cc) =
        find_map (\<lambda>p. first_coords (part_coords p)) (cc_parts cc)"
      by (rule find_map_cong) (simp add: part_coords_reverse reverse_coords_ends wf)
    ultimately show ?thesis
      by (simp add: Compound rev_map find_map_map)
  qed (simp_all add: reverse_coords_ends reverse_circular_def Let_def)
  then show "curve_start (reverse_curve c) = curve_end c" "curve_end (reverse_curve c) = curve_start c"
    by simp_all
qed

subsection \<open>Pushing and joining\<close>

text \<open>
  A sequence whose dimension is unknown holds nothing: the invariant of every sequence the parser
  builds, kept by \<open>push\<close> and \<open>append_joined\<close>.
\<close>

definition coords_inv :: "coords \<Rightarrow> bool" where
  "coords_inv c \<longleftrightarrow> coords_wf c \<and> (co_dim c = None \<longrightarrow> co_values c = [])"

lemma coords_inv_default [simp]: "coords_inv default_coords"
  by (simp add: coords_inv_def coords_wf_def default_coords_def co_len_def)

lemma coords_inv_new [simp]: "coords_inv (new_coords d)"
  by (simp add: coords_inv_def coords_wf_def new_coords_def co_len_def)

lemma coords_inv_wf: "coords_inv c \<Longrightarrow> coords_wf c"
  by (simp add: coords_inv_def)

lemma chunks_exact_append:
  assumes "0 < n" "n dvd length xs"
  shows "chunks_exact n (xs @ ys) = chunks_exact n xs @ chunks_exact n ys"
  using assms
proof (induction n xs rule: chunks_exact.induct)
  case (1 n xs)
  show ?case
  proof (cases "xs = []")
    case True
    then show ?thesis using 1(2) by (subst (2) chunks_exact.simps) simp
  next
    case False
    then have l: "n \<le> length xs" using 1(2,3) dvd_imp_le by fastforce
    have "chunks_exact n (drop n xs @ ys) = chunks_exact n (drop n xs) @ chunks_exact n ys"
      using l 1 by (intro "1.IH") (simp_all add: dvd_diff_nat)
    then show ?thesis
      using l 1(2) by (subst (1 2) chunks_exact.simps) (simp add: not_less)
  qed
qed

lemma chunks_exact_single: "0 < n \<Longrightarrow> length xs = n \<Longrightarrow> chunks_exact n xs = [xs]"
  by (subst chunks_exact.simps, subst chunks_exact.simps) simp

lemma positions_default [simp]: "positions default_coords = []"
  by (subst positions_def, subst chunks_exact.simps) (simp add: default_coords_def)

lemma chunks_exact_lengths: "p \<in> set (chunks_exact n xs) \<Longrightarrow> length p = n"
  by (induction n xs rule: chunks_exact.induct)
    (subst (asm) (2) chunks_exact.simps, auto split: if_splits)

text \<open>A position as \<open>push\<close> stores it in a sequence with \<open>n\<close> ordinates per position.\<close>

definition fit :: "nat \<Rightarrow> f64 list \<Rightarrow> f64 list" where
  "fit n p = take n p @ replicate (n - length p) F64_NAN"

lemma length_fit [simp]: "length (fit n p) = n"
  by (simp add: fit_def)

lemma fit_id [simp]: "length p = n \<Longrightarrow> fit n p = p"
  by (simp add: fit_def)

lemma push_coords_fit:
  "co_values (push_coords p c) = co_values c @ fit (co_size (push_coords p c)) p"
  by (simp add: push_coords_def fit_def Let_def co_size_def)

lemma co_dim_push:
  "co_dim (push_coords p c) =
     (case co_dim c of None \<Rightarrow> Some (if 3 \<le> length p then Xyz else Xy) | Some d \<Rightarrow> Some d)"
  by (simp add: push_coords_def Let_def split: option.splits)

lemma co_size_push: "co_dim c = Some d \<Longrightarrow> co_size (push_coords p c) = co_size c"
  by (simp add: co_size_def co_dim_push)

lemma push_positions:
  assumes "coords_inv c"
  shows "positions (push_coords p c) = positions c @ [fit (co_size (push_coords p c)) p]"
    "coords_inv (push_coords p c)"
proof -
  have dvd: "co_size (push_coords p c) dvd length (co_values c)"
    using assms by (cases "co_dim c") (auto simp: coords_inv_def coords_wf_dvd co_size_push)
  have "positions c = chunks_exact (co_size (push_coords p c)) (co_values c)"
  proof (cases "co_dim c")
    case None
    then have "co_values c = []" using assms by (simp add: coords_inv_def)
    then show ?thesis by (simp add: positions_def chunks_exact.simps)
  qed (simp add: positions_def co_size_push)
  then show "positions (push_coords p c) = positions c @ [fit (co_size (push_coords p c)) p]"
    using dvd by (simp add: positions_def push_coords_fit chunks_exact_append chunks_exact_single)
  show "coords_inv (push_coords p c)"
    using dvd by (auto simp: coords_inv_def coords_wf_dvd push_coords_fit co_dim_push split: option.splits)
qed

lemma fold_push_positions:
  assumes "coords_inv c" "co_dim c = Some d"
  shows "positions (fold push_coords ps c) = positions c @ map (fit (dim_size d)) ps"
    "coords_inv (fold push_coords ps c)" "co_dim (fold push_coords ps c) = Some d"
proof -
  have "positions (fold push_coords ps c) = positions c @ map (fit (dim_size d)) ps \<and>
      coords_inv (fold push_coords ps c) \<and> co_dim (fold push_coords ps c) = Some d"
    using assms
  proof (induction ps arbitrary: c)
    case (Cons p ps)
    have "co_size (push_coords p c) = dim_size d" using Cons.prems by (simp add: co_size_def co_dim_push)
    then show ?case
      using Cons.IH [of "push_coords p c"] push_positions [OF Cons.prems(1), of p] Cons.prems(2)
      by (simp add: co_dim_push)
  qed simp
  then show "positions (fold push_coords ps c) = positions c @ map (fit (dim_size d)) ps"
    "coords_inv (fold push_coords ps c)" "co_dim (fold push_coords ps c) = Some d" by simp_all
qed

lemma chunks_exact_drop:
  assumes "0 < n" "n dvd length xs"
  shows "chunks_exact n (drop (min (k * n) (length xs)) xs) = drop k (chunks_exact n xs)"
proof -
  from assms(2) obtain m where l: "length xs = m * n" by (metis dvd_def mult.commute)
  show ?thesis
  proof (cases "k \<le> m")
    case True
    then have "k * n \<le> length xs" by (simp add: l)
    then have ld: "length (drop (min (k * n) (length xs)) xs) = (m - k) * n" by (simp add: l diff_mult_distrib)
    show ?thesis
      unfolding chunks_exact_nth [OF assms(1) l] chunks_exact_nth [OF assms(1) ld]
      using True \<open>k * n \<le> length xs\<close>
      by (simp add: drop_map list_eq_iff_nth_eq [where xs = "map f xs" for f xs] algebra_simps)
  next
    case False
    then show ?thesis
      unfolding chunks_exact_nth [OF assms(1) l]
      by (subst chunks_exact.simps) (simp add: l assms(1) min_def)
  qed
qed

lemma extend_positions_positions:
  assumes "coords_inv c" "co_dim c = Some d" "coords_wf other"
  shows "positions (extend_positions other k c) =
      positions c @ map (fit (dim_size d)) (drop k (positions other))"
    "coords_inv (extend_positions other k c)" "co_dim (extend_positions other k c) = Some d"
proof -
  have s: "co_size c = dim_size d" using assms(2) by (simp add: co_size_def)
  have eq: "positions (extend_positions other k c) = positions c @ map (fit (dim_size d)) (drop k (positions other)) \<and>
      coords_inv (extend_positions other k c) \<and> co_dim (extend_positions other k c) = Some d"
  proof (cases "co_size other = co_size c")
    case True
    let ?ys = "drop (min (k * co_size c) (length (co_values other))) (co_values other)"
    have e: "extend_positions other k c = c\<lparr>co_values := co_values c @ ?ys\<rparr>"
      using True by (simp add: extend_positions_def)
    have dv: "co_size c dvd length (co_values c)" "co_size c dvd length (co_values other)"
      using assms(1,3) True by (simp_all add: coords_inv_def coords_wf_dvd)
    have dy: "co_size c dvd length ?ys" using dv(2) by (simp add: dvd_diff_nat min_def)
    have ids: "map (fit (dim_size d)) (drop k (positions other)) = drop k (positions other)"
      by (intro map_idI fit_id) (auto dest!: in_set_dropD chunks_exact_lengths simp: positions_def True s)
    have "positions (extend_positions other k c) = positions c @ drop k (positions other)"
      using dv by (simp add: e positions_def co_size_def [of "c\<lparr>co_values := v\<rparr>" for v]
          co_size_def [symmetric] chunks_exact_append chunks_exact_drop True)
    then show ?thesis
      unfolding ids using assms(1,2) dvd_add [OF dv(1) dy]
      by (simp add: e coords_inv_def coords_wf_dvd co_size_def del: length_drop)
  next
    case False
    then show ?thesis
      using fold_push_positions [OF assms(1,2)] by (simp add: extend_positions_def)
  qed
  then show "positions (extend_positions other k c) =
      positions c @ map (fit (dim_size d)) (drop k (positions other))"
    "coords_inv (extend_positions other k c)" "co_dim (extend_positions other k c) = Some d" by simp_all
qed


lemma coords_inv_dim_None: "coords_inv c \<Longrightarrow> co_dim c = None \<Longrightarrow> co_values c = [] \<and> positions c = []"
  by (simp add: coords_inv_def positions_def chunks_exact.simps)

lemma positions_empty: "coords_wf c \<Longrightarrow> positions c = [] \<longleftrightarrow> co_values c = []"
  unfolding positions_def coords_wf_dvd
  by (subst chunks_exact.simps) (auto simp: not_less dest: dvd_imp_le)

definition joined_skip :: "join_result \<Rightarrow> coords \<Rightarrow> nat" where
  "joined_skip r c = (case r of Join_Gap _ \<Rightarrow> 0 | _ \<Rightarrow> if positions c = [] then 0 else 1)"

lemma append_joined_positions:
  fixes x :: float_ext and tol :: f64
  assumes "coords_inv c" "coords_inv other"
  defines "r \<equiv> append_joined x other tol c"
  shows "positions (snd r) =
      positions c @ map (fit (co_size (snd r))) (drop (joined_skip (fst r) c) (positions other))"
    "coords_inv (snd r)"
proof -
  let ?c1 = "if co_dim c = None then c\<lparr>co_dim := co_dim other\<rparr> else c"
  have c1: "coords_inv ?c1" "positions ?c1 = positions c" "last_coords ?c1 = last_coords c"
    using assms(1) by (auto simp: coords_inv_def coords_wf_dvd positions_def chunks_exact.simps
        last_coords_def co_is_empty_def)
  have lf: "last_coords c = None \<longleftrightarrow> positions c = []" "first_coords other = None \<longleftrightarrow> positions other = []"
    using assms(1,2) by (simp_all add: last_coords_def first_coords_def co_is_empty_def positions_empty coords_inv_wf)
  have ext: "positions (extend_positions other k ?c1) =
        positions c @ map (fit (co_size (extend_positions other k ?c1))) (drop k (positions other)) \<and>
      coords_inv (extend_positions other k ?c1)" for k
  proof (cases "co_dim ?c1")
    case None
    then have o: "co_dim other = None" "co_dim c = None" by (auto split: if_splits)
    then have "extend_positions other k ?c1 = ?c1"
      using coords_inv_dim_None [OF assms(2)] by (simp add: extend_positions_def co_size_def)
    then show ?thesis using c1 coords_inv_dim_None [OF assms(2) o(1)] by simp
  next
    case (Some d)
    then show ?thesis
      using extend_positions_positions [OF c1(1) Some coords_inv_wf [OF assms(2)], of k] c1(2)
      by (simp add: co_size_def)
  qed
  have "\<exists>k. snd r = extend_positions other k ?c1 \<and>
      drop k (positions other) = drop (joined_skip (fst r) c) (positions other)"
    unfolding r_def append_joined_def Let_def c1(3)
    using lf by (fastforce simp: joined_skip_def split: option.splits join_result.splits)
  then show "positions (snd r) =
      positions c @ map (fit (co_size (snd r))) (drop (joined_skip (fst r) c) (positions other))"
    "coords_inv (snd r)" using ext by auto
qed

subsection \<open>Things that can be reversed\<close>

text \<open>
  What the assembly of curves relies on: a reversed thing starts where it ended. The laws hold of
  a coordinate sequence and of a curve of any kind.
\<close>

locale reversible =
  fixes wf :: "'a \<Rightarrow> bool"
    and reverse :: "'a \<Rightarrow> 'a"
    and start :: "'a \<Rightarrow> f64 list option"
    and finish :: "'a \<Rightarrow> f64 list option"
  assumes wf_reverse: "wf x \<Longrightarrow> wf (reverse x)"
    and start_reverse: "wf x \<Longrightarrow> start (reverse x) = finish x"
    and finish_reverse: "wf x \<Longrightarrow> finish (reverse x) = start x"
begin

lemma reverse_twice:
  "wf x \<Longrightarrow> start (reverse (reverse x)) = start x \<and> finish (reverse (reverse x)) = finish x"
  by (simp add: wf_reverse start_reverse finish_reverse)

lemma reverse_closed: "wf x \<Longrightarrow> opt_eq (start (reverse x)) (finish (reverse x)) = opt_eq (finish x) (start x)"
  by (simp add: start_reverse finish_reverse)

end

interpretation seq: reversible coords_wf reverse_coords first_coords last_coords
  by unfold_locales (simp_all add: positions_reverse reverse_coords_ends)

lemma curve_wf_reverse: "curve_wf c \<Longrightarrow> curve_wf (reverse_curve c)"
  by (cases c) (auto simp: positions_reverse part_coords_reverse reverse_circular_def Let_def)

interpretation crv: reversible curve_wf reverse_curve curve_start curve_end
  by unfold_locales (simp_all add: curve_wf_reverse reverse_curve_ends)

lemma f64s_eq_sym: "f64s_eq a b = f64s_eq b a"
proof -
  have "f64_eq = (\<lambda>x y. f64_eq y x)" by (auto simp: f64_eq_def fun_eq_iff)
  then show ?thesis unfolding f64s_eq_def by (metis list_all2_conv_all_nth f64_eq_def)
qed

lemma opt_eq_sym: "opt_eq a b = opt_eq b a"
  by (auto simp: opt_eq_def f64s_eq_sym split: option.splits)

lemma curve_closed_ends:
  "curve_closed c \<longleftrightarrow> opt_eq (curve_start c) (curve_end c) \<and> curve_start c \<noteq> None"
  by (auto simp: curve_closed_def opt_eq_def split: option.splits)

lemma opt_eq_None: "opt_eq a b \<Longrightarrow> a = None \<longleftrightarrow> b = None"
  by (auto simp: opt_eq_def split: option.splits)

lemma co_len_reverse: "coords_wf c \<Longrightarrow> co_len (reverse_coords c) = co_len c"
  using arg_cong [OF positions_reverse(1) [of c], of length] positions_reverse(2) [of c]
  by (simp add: positions_def coords_wf_def chunks_exact_nth [OF co_size_pos(1)])

lemma simplify_simple: "is_simple (simplify_types x g) = is_simple g"
proof (induction g rule: is_simple.induct)
  case (1 gs)
  then show ?case by (simp add: list_all_iff)
qed (auto simp: curve_polygon_into_linear_def Let_def)

lemma all_of_simple:
  assumes "all_of f parts = Some xs" "\<And>g ys. f g = Some ys \<Longrightarrow> is_simple g = list_all P ys"
  shows "list_all P xs = list_all is_simple parts"
proof -
  have "f g \<noteq> None" if "g \<in> set parts" for g
    using assms(1) that by (auto simp: all_of_def split: if_splits)
  then have "list_all P (the (f g)) = is_simple g" if "g \<in> set parts" for g
    using assms(2) that by fastforce
  then show ?thesis using assms(1) by (auto simp: all_of_def list_all_iff split: if_splits)
qed

lemma points_simple: "points_of g = Some ps \<Longrightarrow> is_simple g = list_all (\<lambda>p. True) ps"
  by (cases g) (auto simp: list_all_iff)

lemma curves_simple: "curves_of g = Some cs \<Longrightarrow> is_simple g = list_all curve_is_linear cs"
  by (cases g) (auto simp: list_all_iff)

lemma surfaces_simple: "surfaces_of g = Some ss \<Longrightarrow> is_simple g = list_all surface_is_linear ss"
  by (cases g) (auto simp: list_all_iff)

lemma from_parts_simple: "is_simple (from_parts x parts) = list_all is_simple parts"
  using all_of_simple [OF _ points_simple, where parts = parts]
    all_of_simple [OF _ curves_simple, where parts = parts]
    all_of_simple [OF _ surfaces_simple, where parts = parts]
  by (auto simp: from_parts_def simplify_simple list_all_iff split: option.splits
      simp del: simplify_types.simps)

subsection \<open>Properties\<close>

text \<open>
  Simplifying a geometry gives only simple types in every part exactly when the geometry is
  simple, i.e. holds no arc; and simplifying again changes nothing.
\<close>

theorem simplify_types_exact:
  "linear_types (simplify_types x g) = is_simple g \<and>
   simplify_types x (simplify_types x g) = simplify_types x g"
  by (simp add: simplify_linear simplify_idem)

text \<open>
  Several parts become a collection exactly when they are of no common family, and the result
  is simple exactly when every part is: an arc is neither lost nor introduced.
\<close>

theorem from_parts_type:
  "(geometry_kind (from_parts x parts) = K_Collection) =
     (list_ex (\<lambda>g. points_of g = None) parts \<and> list_ex (\<lambda>g. curves_of g = None) parts \<and>
      list_ex (\<lambda>g. surfaces_of g = None) parts)
   \<and> is_simple (from_parts x parts) = list_all is_simple parts"
  by (simp add: from_parts_collection from_parts_simple all_of_def list_ex_iff)

text \<open>
  Reversing a sequence of whole positions reverses the order of the positions and leaves each
  position as it is; a closed sequence stays closed.
\<close>

theorem reverse_positions:
  assumes "coords_wf c"
  shows "positions (reverse_coords c) = rev (positions c) \<and>
    coords_closed (reverse_coords c) = coords_closed c"
  using assms seq.reverse_closed [OF assms]
  by (simp add: positions_reverse coords_closed_def co_len_reverse opt_eq_sym)

theorem reverse_positions_witness:
  "positions (reverse_coords \<lparr>co_dim = Some Xyz, co_values = [1, 2, 3, 4, 5, 6]\<rparr>) = [[4, 5, 6], [1, 2, 3]]"
proof -
  have "coords_wf \<lparr>co_dim = Some Xyz, co_values = [1, 2, 3, 4, 5, 6]\<rparr>"
    by (simp add: coords_wf_def co_len_def co_size_def dim_size_def)
  from reverse_positions [OF this] show ?thesis
    by (simp add: positions_def co_size_def dim_size_def chunks_exact.simps)
qed

text \<open>
  A reversed curve, of one segment or of several, starts where the curve ended and ends where
  it started, and is closed if the curve is.
\<close>

theorem reverse_curve_directed:
  assumes "curve_wf c"
  shows "curve_start (reverse_curve c) = curve_end c \<and> curve_end (reverse_curve c) = curve_start c \<and>
    curve_closed (reverse_curve c) = curve_closed c"
  using assms crv.reverse_closed [OF assms] opt_eq_None [of "curve_start c" "curve_end c"]
  by (auto simp: curve_closed_ends crv.start_reverse crv.finish_reverse opt_eq_sym)

theorem reverse_curve_directed_witness:
  "curve_start (reverse_curve (Compound (Compound_Curve
      [Linear_Part (Line_String \<lparr>co_dim = Some Xy, co_values = [1, 2, 3, 4]\<rparr>),
       Circular_Part \<lparr>cs_coords = \<lparr>co_dim = Some Xy, co_values = [3, 4, 5, 6, 7, 8]\<rparr>, cs_computed = [1]\<rparr>])))
   = Some [7, 8]"
proof -
  let ?c = "Compound (Compound_Curve
      [Linear_Part (Line_String \<lparr>co_dim = Some Xy, co_values = [1, 2, 3, 4]\<rparr>),
       Circular_Part \<lparr>cs_coords = \<lparr>co_dim = Some Xy, co_values = [3, 4, 5, 6, 7, 8]\<rparr>, cs_computed = [1]\<rparr>])"
  have "curve_wf ?c" by (simp add: coords_wf_def co_len_def co_size_def dim_size_def)
  from reverse_curve_directed [OF this] show ?thesis
    by (simp add: last_coords_def co_is_empty_def get_coords_def slice_def co_len_def co_size_def dim_size_def)
qed

text \<open>
  Joining two sequences appends the positions of the second, fitted to the dimension of the
  first, without the first one unless there was a gap or nothing to join to; the result is a
  sequence of whole positions again.
\<close>

theorem append_joined_spec:
  fixes x :: float_ext and tol :: f64
  assumes "coords_inv c" "coords_inv other"
  shows "positions (snd (append_joined x other tol c)) =
      positions c @ map (fit (co_size (snd (append_joined x other tol c))))
        (drop (joined_skip (fst (append_joined x other tol c)) c) (positions other))
    \<and> coords_inv (snd (append_joined x other tol c))"
  using append_joined_positions [OF assms] by simp

theorem append_joined_spec_witness:
  "positions (snd (append_joined \<lparr>fl_hypot = \<lambda>a b. a\<rparr>
      \<lparr>co_dim = Some Xyz, co_values = [3, 4, 5, 6, 7, 8]\<rparr> 0
      \<lparr>co_dim = Some Xy, co_values = [1, 2, 3, 4]\<rparr>)) = [[1, 2], [3, 4], [6, 7]]"
proof -
  let ?o = "\<lparr>co_dim = Some Xyz, co_values = [3, 4, 5, 6, 7, 8]\<rparr>"
  let ?c = "\<lparr>co_dim = Some Xy, co_values = [1, 2, 3, 4]\<rparr>"
  let ?x = "\<lparr>fl_hypot = \<lambda>a b. a\<rparr>"
  have z: "f64_eq 0 0" by (simp add: f64_eq_def is_nan_def f64_magnitude_def)
  have s: "f64_sub 3 3 = 0" by (rule f64_sub_self) (simp add: is_finite_def f64_magnitude_def)
  have i: "coords_inv ?c" "coords_inv ?o"
    by (simp_all add: coords_inv_def coords_wf_def co_len_def co_size_def dim_size_def)
  have r: "fst (append_joined ?x ?o 0 ?c) = Join_Exact" "co_size (snd (append_joined ?x ?o 0 ?c)) = 2"
    by (simp_all add: append_joined_def last_coords_def first_coords_def co_is_empty_def get_coords_def
        slice_def co_len_def co_size_def dim_size_def distance_xy_def z s extend_positions_def positions_def
        chunks_exact.simps push_coords_def Let_def)
  show ?thesis
    using append_joined_spec [OF i, of ?x 0] unfolding r
    by (simp add: joined_skip_def positions_def co_size_def dim_size_def chunks_exact.simps fit_def)
qed

end
