(* ===== verification/Wkb.thy ===== *)
theory Wkb
  imports Geometry_Laws
begin

text \<open>
  The WKB writer and reader (\<open>crates/xeibe-geom/src/wkb.rs\<close>): \<open>write_wkb\<close>, \<open>wkb_size\<close>
  and \<open>read_wkb\<close> with the helpers of \<open>Writer\<close>, \<open>Sizer\<close> and \<open>Reader\<close>. A message of
  the reader is a value of \<open>wkb_error\<close>. A \<open>usize\<close> is \<open>nat\<close>: the only product that could
  overflow, \<open>n.saturating_mul(min_bytes)\<close>, is only compared with a length.
\<close>

subsection \<open>Bytes of an integer\<close>

datatype endianness = Little | Big

text \<open>\<open>to_le_bytes\<close> and \<open>from_le_bytes\<close> for an integer of \<open>k\<close> bytes.\<close>

primrec le_bytes :: "nat \<Rightarrow> nat \<Rightarrow> bytes" where
  "le_bytes 0 n = []"
| "le_bytes (Suc k) n = char_of (n mod 256) # le_bytes k (n div 256)"

primrec from_le :: "bytes \<Rightarrow> nat" where
  "from_le [] = 0"
| "from_le (c # cs) = byte_val c + 256 * from_le cs"

definition to_bytes :: "endianness \<Rightarrow> nat \<Rightarrow> nat \<Rightarrow> bytes" where
  "to_bytes e k n = (case e of Little \<Rightarrow> le_bytes k n | Big \<Rightarrow> rev (le_bytes k n))"

definition from_bytes :: "bool \<Rightarrow> bytes \<Rightarrow> nat" where
  "from_bytes little bs = from_le (if little then bs else rev bs)"

subsection \<open>The writer\<close>

definition WKB_POINT :: nat where "WKB_POINT = 1"
definition WKB_LINE_STRING :: nat where "WKB_LINE_STRING = 2"
definition WKB_POLYGON :: nat where "WKB_POLYGON = 3"
definition WKB_MULTI_POINT :: nat where "WKB_MULTI_POINT = 4"
definition WKB_MULTI_LINE_STRING :: nat where "WKB_MULTI_LINE_STRING = 5"
definition WKB_MULTI_POLYGON :: nat where "WKB_MULTI_POLYGON = 6"
definition WKB_COLLECTION :: nat where "WKB_COLLECTION = 7"
definition WKB_CIRCULAR_STRING :: nat where "WKB_CIRCULAR_STRING = 8"
definition WKB_COMPOUND_CURVE :: nat where "WKB_COMPOUND_CURVE = 9"
definition WKB_CURVE_POLYGON :: nat where "WKB_CURVE_POLYGON = 10"
definition WKB_MULTI_CURVE :: nat where "WKB_MULTI_CURVE = 11"
definition WKB_MULTI_SURFACE :: nat where "WKB_MULTI_SURFACE = 12"

lemmas wkb_types =
  WKB_POINT_def WKB_LINE_STRING_def WKB_POLYGON_def WKB_MULTI_POINT_def WKB_MULTI_LINE_STRING_def
  WKB_MULTI_POLYGON_def WKB_COLLECTION_def WKB_CIRCULAR_STRING_def WKB_COMPOUND_CURVE_def
  WKB_CURVE_POLYGON_def WKB_MULTI_CURVE_def WKB_MULTI_SURFACE_def

definition HEADER :: nat where "HEADER = 1 + 4"
definition COUNT :: nat where "COUNT = 4"

text \<open>
  What each method of \<open>Writer\<close> appends to \<open>out\<close>; \<open>None\<close> is the panic of \<open>count\<close>
  (\<open>expect("WKB counts are 32-bit")\<close>).
\<close>

definition write_u32 :: "endianness \<Rightarrow> 32 word \<Rightarrow> bytes" where
  "write_u32 e v = to_bytes e 4 (unat v)"

definition write_f64 :: "endianness \<Rightarrow> f64 \<Rightarrow> bytes" where
  "write_f64 e v = to_bytes e 8 (unat v)"

definition write_count :: "endianness \<Rightarrow> nat \<Rightarrow> bytes option" where
  "write_count e n = (if n < 2 ^ 32 then Some (write_u32 e (word_of_nat n)) else None)"

definition write_header :: "endianness \<Rightarrow> dim \<Rightarrow> nat \<Rightarrow> bytes" where
  "write_header e d base =
     (case e of Little \<Rightarrow> CHR 0x01 | Big \<Rightarrow> CHR 0x00) #
     write_u32 e (word_of_nat (case d of Xy \<Rightarrow> base | Xyz \<Rightarrow> base + 1000))"

definition write_position :: "endianness \<Rightarrow> dim \<Rightarrow> f64 list \<Rightarrow> bytes" where
  "write_position e d vs =
     concat (map (\<lambda>k. write_f64 e (if k < length vs then vs ! k else F64_NAN)) [0..<dim_size d])"

text \<open>One part after the other, and a count with the parts it counts.\<close>

definition write_all :: "('a \<Rightarrow> bytes option) \<Rightarrow> 'a list \<Rightarrow> bytes option" where
  "write_all f xs = map_option concat (those (map f xs))"

definition write_counted ::
  "endianness \<Rightarrow> ('a \<Rightarrow> bytes option) \<Rightarrow> 'a list \<Rightarrow> bytes option" where
  "write_counted e f xs =
     (case write_count e (length xs) of None \<Rightarrow> None
      | Some n \<Rightarrow> map_option (\<lambda>ws. n @ ws) (write_all f xs))"

definition write_coords :: "endianness \<Rightarrow> dim \<Rightarrow> coords \<Rightarrow> bytes option" where
  "write_coords e d c =
     map_option (\<lambda>n. n @
         (if co_size c = dim_size d
          then concat (map (write_f64 e) (take (co_len c * co_size c) (co_values c)))
          else concat (map (write_position e d) (positions c))))
       (write_count e (co_len c))"

definition with_header :: "endianness \<Rightarrow> dim \<Rightarrow> nat \<Rightarrow> bytes option \<Rightarrow> bytes option" where
  "with_header e d base w = map_option (\<lambda>w. write_header e d base @ w) w"

definition write_point :: "endianness \<Rightarrow> dim \<Rightarrow> point \<Rightarrow> bytes option" where
  "write_point e d p =
     with_header e d WKB_POINT
       (Some (case pt_coord p of Some vs \<Rightarrow> write_position e d vs | None \<Rightarrow> write_position e d []))"

definition write_line_string :: "endianness \<Rightarrow> dim \<Rightarrow> line_string \<Rightarrow> bytes option" where
  "write_line_string e d l = with_header e d WKB_LINE_STRING (write_coords e d (ls_coords l))"

definition write_circular_string :: "endianness \<Rightarrow> dim \<Rightarrow> circular_string \<Rightarrow> bytes option" where
  "write_circular_string e d a = with_header e d WKB_CIRCULAR_STRING (write_coords e d (cs_coords a))"

definition write_polygon :: "endianness \<Rightarrow> dim \<Rightarrow> polygon \<Rightarrow> bytes option" where
  "write_polygon e d p =
     with_header e d WKB_POLYGON
       (write_counted e (\<lambda>r. write_coords e d (ls_coords r)) (polygon_rings p))"

fun write_part :: "endianness \<Rightarrow> dim \<Rightarrow> curve_part \<Rightarrow> bytes option" where
  "write_part e d (Linear_Part l) = write_line_string e d l"
| "write_part e d (Circular_Part a) = write_circular_string e d a"

definition write_compound :: "endianness \<Rightarrow> dim \<Rightarrow> compound_curve \<Rightarrow> bytes option" where
  "write_compound e d c =
     with_header e d WKB_COMPOUND_CURVE (write_counted e (write_part e d) (cc_parts c))"

fun write_curve :: "endianness \<Rightarrow> dim \<Rightarrow> curve \<Rightarrow> bytes option" where
  "write_curve e d (Linear l) = write_line_string e d l"
| "write_curve e d (Circular a) = write_circular_string e d a"
| "write_curve e d (Compound c) = write_compound e d c"

definition write_curve_polygon :: "endianness \<Rightarrow> dim \<Rightarrow> curve_polygon \<Rightarrow> bytes option" where
  "write_curve_polygon e d p =
     with_header e d WKB_CURVE_POLYGON (write_counted e (write_curve e d) (curve_polygon_rings p))"

fun write_surface :: "endianness \<Rightarrow> dim \<Rightarrow> surface \<Rightarrow> bytes option" where
  "write_surface e d (Polygon_Surface p) = write_polygon e d p"
| "write_surface e d (Curve_Polygon_Surface p) = write_curve_polygon e d p"

fun write_geometry :: "endianness \<Rightarrow> dim \<Rightarrow> geometry \<Rightarrow> bytes option" where
  "write_geometry e d (G_Point p) = write_point e d p"
| "write_geometry e d (G_LineString l) = write_line_string e d l"
| "write_geometry e d (G_Polygon p) = write_polygon e d p"
| "write_geometry e d (G_MultiPoint ps) =
     with_header e d WKB_MULTI_POINT (write_counted e (write_point e d) ps)"
| "write_geometry e d (G_MultiLineString ls) =
     with_header e d WKB_MULTI_LINE_STRING (write_counted e (write_line_string e d) ls)"
| "write_geometry e d (G_MultiPolygon ps) =
     with_header e d WKB_MULTI_POLYGON (write_counted e (write_polygon e d) ps)"
| "write_geometry e d (G_Collection gs) =
     with_header e d WKB_COLLECTION
       (case write_count e (length gs) of None \<Rightarrow> None
        | Some n \<Rightarrow> map_option (\<lambda>ws. n @ concat ws) (those (map (write_geometry e d) gs)))"
| "write_geometry e d (G_CircularString a) = write_circular_string e d a"
| "write_geometry e d (G_CompoundCurve c) = write_compound e d c"
| "write_geometry e d (G_CurvePolygon p) = write_curve_polygon e d p"
| "write_geometry e d (G_MultiCurve cs) =
     with_header e d WKB_MULTI_CURVE (write_counted e (write_curve e d) cs)"
| "write_geometry e d (G_MultiSurface ss) =
     with_header e d WKB_MULTI_SURFACE (write_counted e (write_surface e d) ss)"

text \<open>\<open>geometry.dim().unwrap_or(Dim::Xy)\<close>.\<close>

definition wkb_dim :: "geometry \<Rightarrow> dim" where
  "wkb_dim g = (case geometry_dim g of None \<Rightarrow> Xy | Some d \<Rightarrow> d)"

definition write_wkb :: "geometry \<Rightarrow> endianness \<Rightarrow> bytes \<Rightarrow> bytes option" where
  "write_wkb g e out = map_option (\<lambda>w. out @ w) (write_geometry e (wkb_dim g) g)"

subsection \<open>The size\<close>

definition size_coords :: "nat \<Rightarrow> coords \<Rightarrow> nat" where
  "size_coords pos c = COUNT + co_len c * pos"

definition size_line_string :: "nat \<Rightarrow> line_string \<Rightarrow> nat" where
  "size_line_string pos l = HEADER + size_coords pos (ls_coords l)"

definition size_polygon :: "nat \<Rightarrow> polygon \<Rightarrow> nat" where
  "size_polygon pos p = HEADER + COUNT + (\<Sum>r\<leftarrow>polygon_rings p. size_coords pos (ls_coords r))"

definition size_compound :: "nat \<Rightarrow> compound_curve \<Rightarrow> nat" where
  "size_compound pos c = HEADER + COUNT + (\<Sum>p\<leftarrow>cc_parts c. HEADER + size_coords pos (part_coords p))"

fun size_curve :: "nat \<Rightarrow> curve \<Rightarrow> nat" where
  "size_curve pos (Linear l) = size_line_string pos l"
| "size_curve pos (Circular a) = HEADER + size_coords pos (cs_coords a)"
| "size_curve pos (Compound c) = size_compound pos c"

definition size_curve_polygon :: "nat \<Rightarrow> curve_polygon \<Rightarrow> nat" where
  "size_curve_polygon pos p = HEADER + COUNT + (\<Sum>r\<leftarrow>curve_polygon_rings p. size_curve pos r)"

fun size_surface :: "nat \<Rightarrow> surface \<Rightarrow> nat" where
  "size_surface pos (Polygon_Surface p) = size_polygon pos p"
| "size_surface pos (Curve_Polygon_Surface p) = size_curve_polygon pos p"

fun size_geometry :: "nat \<Rightarrow> geometry \<Rightarrow> nat" where
  "size_geometry pos (G_Point p) = HEADER + pos"
| "size_geometry pos (G_LineString l) = size_line_string pos l"
| "size_geometry pos (G_Polygon p) = size_polygon pos p"
| "size_geometry pos (G_MultiPoint ps) = HEADER + COUNT + length ps * (HEADER + pos)"
| "size_geometry pos (G_MultiLineString ls) = HEADER + COUNT + (\<Sum>l\<leftarrow>ls. size_line_string pos l)"
| "size_geometry pos (G_MultiPolygon ps) = HEADER + COUNT + (\<Sum>p\<leftarrow>ps. size_polygon pos p)"
| "size_geometry pos (G_Collection gs) = HEADER + COUNT + (\<Sum>g\<leftarrow>gs. size_geometry pos g)"
| "size_geometry pos (G_CircularString a) = HEADER + size_coords pos (cs_coords a)"
| "size_geometry pos (G_CompoundCurve c) = size_compound pos c"
| "size_geometry pos (G_CurvePolygon p) = size_curve_polygon pos p"
| "size_geometry pos (G_MultiCurve cs) = HEADER + COUNT + (\<Sum>c\<leftarrow>cs. size_curve pos c)"
| "size_geometry pos (G_MultiSurface ss) = HEADER + COUNT + (\<Sum>s\<leftarrow>ss. size_surface pos s)"

definition wkb_size :: "geometry \<Rightarrow> nat" where
  "wkb_size g = size_geometry (8 * dim_size (wkb_dim g)) g"

subsection \<open>The reader\<close>

datatype wkb_error =
    Wkb_Truncated nat
  | Wkb_Count nat nat
  | Wkb_Byte_Order nat nat
  | Wkb_Type "32 word"
  | Wkb_Member nat bytes nat
  | Wkb_Trailing nat
  | Wkb_Fuel

record reader =
  rd_bytes :: bytes
  rd_at :: nat

record wkb_header =
  wh_little :: bool
  wh_base :: nat
  wh_size :: nat
  wh_dim :: dim

type_synonym 'a reads = "reader \<Rightarrow> (wkb_error, 'a, reader) outcome"

definition then_read :: "'a reads \<Rightarrow> ('a \<Rightarrow> 'b reads) \<Rightarrow> 'b reads" where
  "then_read p f r = and_then (p r) f"

definition pure_read :: "'a \<Rightarrow> 'a reads" where
  "pure_read x r = (Inr x, r)"

definition map_read :: "('a \<Rightarrow> 'b) \<Rightarrow> 'a reads \<Rightarrow> 'b reads" where
  "map_read f p = then_read p (\<lambda>x. pure_read (f x))"

text \<open>\<open>(0..n).map(|_| p).collect::<Result<_, String>>()\<close>.\<close>

primrec repeat_read :: "nat \<Rightarrow> 'a reads \<Rightarrow> 'a list reads" where
  "repeat_read 0 p = pure_read []"
| "repeat_read (Suc n) p = then_read p (\<lambda>x. map_read (\<lambda>xs. x # xs) (repeat_read n p))"

definition take_bytes :: "nat \<Rightarrow> bytes reads" where
  "take_bytes n r =
     (if rd_at r + n \<le> length (rd_bytes r)
      then (Inr (slice (rd_at r) (rd_at r + n) (rd_bytes r)), r\<lparr>rd_at := rd_at r + n\<rparr>)
      else (Inl (Wkb_Truncated (rd_at r)), r))"

definition read_u32 :: "bool \<Rightarrow> 32 word reads" where
  "read_u32 little = map_read (\<lambda>bs. word_of_nat (from_bytes little bs)) (take_bytes 4)"

definition read_f64 :: "bool \<Rightarrow> f64 reads" where
  "read_f64 little = map_read (\<lambda>bs. word_of_nat (from_bytes little bs)) (take_bytes 8)"

definition read_count :: "bool \<Rightarrow> nat \<Rightarrow> nat reads" where
  "read_count little min_bytes =
     then_read (read_u32 little) (\<lambda>w r.
       let n = unat w; left = length (rd_bytes r) - rd_at r in
       if left < n * min_bytes then (Inl (Wkb_Count n (rd_at r - 4)), r) else (Inr n, r))"

definition EWKB_Z :: "32 word" where "EWKB_Z = 0x80000000"
definition EWKB_M :: "32 word" where "EWKB_M = 0x40000000"
definition EWKB_SRID :: "32 word" where "EWKB_SRID = 0x20000000"

definition read_byte_order :: "bool reads" where
  "read_byte_order =
     then_read (take_bytes 1) (\<lambda>b r.
       if byte_val (b ! 0) = 0 then (Inr False, r)
       else if byte_val (b ! 0) = 1 then (Inr True, r)
       else (Inl (Wkb_Byte_Order (byte_val (b ! 0)) (rd_at r - 1)), r))"

text \<open>What the type code says; \<open>None\<close> is the error \<open>geometry type {code}\<close>.\<close>

definition decode_type :: "bool \<Rightarrow> 32 word \<Rightarrow> wkb_header option" where
  "decode_type little code =
     (let iso = unat (code AND NOT (EWKB_Z OR EWKB_M OR EWKB_SRID));
          base = iso mod 1000;
          k = iso div 1000;
          z = (code AND EWKB_Z \<noteq> 0 \<or> k = 1 \<or> k = 3);
          m = (code AND EWKB_M \<noteq> 0 \<or> k = 2 \<or> k = 3)
      in if 3 < k \<or> base < WKB_POINT \<or> WKB_MULTI_SURFACE < base then None
         else Some \<lparr>wh_little = little, wh_base = base,
                    wh_size = 2 + of_bool z + of_bool m, wh_dim = (if z then Xyz else Xy)\<rparr>)"

definition read_header_of_geometry :: "wkb_header reads" where
  "read_header_of_geometry =
     then_read read_byte_order (\<lambda>little.
     then_read (read_u32 little) (\<lambda>code.
     then_read (if code AND EWKB_SRID \<noteq> 0 then map_read (\<lambda>_. ()) (read_u32 little) else pure_read ())
       (\<lambda>_ r. case decode_type little code of
           None \<Rightarrow> (Inl (Wkb_Type code), r) | Some h \<Rightarrow> (Inr h, r))))"

definition read_header_in :: "nat list \<Rightarrow> bytes \<Rightarrow> wkb_header reads" where
  "read_header_in bases within r =
     then_read read_header_of_geometry (\<lambda>h s.
       if wh_base h \<notin> set bases then (Inl (Wkb_Member (wh_base h) within (rd_at r)), s)
       else (Inr h, s)) r"

definition read_position :: "wkb_header \<Rightarrow> f64 list reads" where
  "read_position h =
     map_read (take (dim_size (wh_dim h))) (repeat_read (wh_size h) (read_f64 (wh_little h)))"

definition read_coords :: "wkb_header \<Rightarrow> coords reads" where
  "read_coords h =
     then_read (read_count (wh_little h) (wh_size h * 8)) (\<lambda>n.
       map_read (\<lambda>ps. \<lparr>co_dim = Some (wh_dim h), co_values = concat ps\<rparr>)
         (repeat_read n (read_position h)))"

definition read_point :: "wkb_header \<Rightarrow> point reads" where
  "read_point h =
     map_read (\<lambda>p. Point (if list_all is_nan p then None else Some p)) (read_position h)"

text \<open>\<open>rings.next().transpose()?\<close> and then the rest: the exterior and the interiors.\<close>

definition read_rings :: "nat \<Rightarrow> 'a reads \<Rightarrow> ('a option \<times> 'a list) reads" where
  "read_rings n p =
     (case n of 0 \<Rightarrow> pure_read (None, [])
      | Suc k \<Rightarrow> then_read p (\<lambda>x. map_read (\<lambda>xs. (Some x, xs)) (repeat_read k p)))"

definition read_polygon :: "wkb_header \<Rightarrow> polygon reads" where
  "read_polygon h =
     then_read (read_count (wh_little h) COUNT) (\<lambda>n.
       map_read (\<lambda>(e, is). \<lparr>pg_exterior = e, pg_interiors = is\<rparr>)
         (read_rings n (map_read Line_String (read_coords h))))"

text \<open>A circular string as read: nothing marks its positions as computed.\<close>

definition plain_arc :: "coords \<Rightarrow> circular_string" where
  "plain_arc c = \<lparr>cs_coords = c, cs_computed = []\<rparr>"

definition read_part :: "curve_part reads" where
  "read_part =
     then_read (read_header_in [WKB_LINE_STRING, WKB_CIRCULAR_STRING] ''CompoundCurve'') (\<lambda>h.
       map_read (\<lambda>c. if wh_base h = WKB_LINE_STRING then Linear_Part (Line_String c)
                     else Circular_Part (plain_arc c))
         (read_coords h))"

definition read_compound :: "wkb_header \<Rightarrow> compound_curve reads" where
  "read_compound h =
     then_read (read_count (wh_little h) HEADER) (\<lambda>n. map_read Compound_Curve (repeat_read n read_part))"

definition read_curve :: "bytes \<Rightarrow> curve reads" where
  "read_curve within =
     then_read (read_header_in [WKB_LINE_STRING, WKB_CIRCULAR_STRING, WKB_COMPOUND_CURVE] within) (\<lambda>h.
       if wh_base h = WKB_LINE_STRING then map_read (\<lambda>c. Linear (Line_String c)) (read_coords h)
       else if wh_base h = WKB_CIRCULAR_STRING then map_read (\<lambda>c. Circular (plain_arc c)) (read_coords h)
       else map_read Compound (read_compound h))"

definition read_curve_polygon :: "wkb_header \<Rightarrow> curve_polygon reads" where
  "read_curve_polygon h =
     then_read (read_count (wh_little h) HEADER) (\<lambda>n.
       map_read (\<lambda>(e, is). \<lparr>cp_exterior = e, cp_interiors = is\<rparr>)
         (read_rings n (read_curve ''CurvePolygon'')))"

definition read_surface :: "surface reads" where
  "read_surface =
     then_read (read_header_in [WKB_POLYGON, WKB_CURVE_POLYGON] ''MultiSurface'') (\<lambda>h.
       if wh_base h = WKB_POLYGON then map_read Polygon_Surface (read_polygon h)
       else map_read Curve_Polygon_Surface (read_curve_polygon h))"

text \<open>A member of a Multi geometry that has one type.\<close>

definition read_member :: "nat \<Rightarrow> bytes \<Rightarrow> (wkb_header \<Rightarrow> 'a reads) \<Rightarrow> 'a reads" where
  "read_member base within body = then_read (read_header_in [base] within) body"

text \<open>A count and as many members.\<close>

definition read_members :: "wkb_header \<Rightarrow> 'a reads \<Rightarrow> 'a list reads" where
  "read_members h p = then_read (read_count (wh_little h) HEADER) (\<lambda>n. repeat_read n p)"

text \<open>\<open>body\<close>; the first argument reads a member of a collection.\<close>

definition read_body :: "geometry reads \<Rightarrow> wkb_header \<Rightarrow> geometry reads" where
  "read_body rec h =
     (if wh_base h = WKB_POINT then map_read G_Point (read_point h)
      else if wh_base h = WKB_LINE_STRING then map_read (\<lambda>c. G_LineString (Line_String c)) (read_coords h)
      else if wh_base h = WKB_POLYGON then map_read G_Polygon (read_polygon h)
      else if wh_base h = WKB_MULTI_POINT then
        map_read G_MultiPoint (read_members h (read_member WKB_POINT ''MultiPoint'' read_point))
      else if wh_base h = WKB_MULTI_LINE_STRING then
        map_read G_MultiLineString (read_members h
          (read_member WKB_LINE_STRING ''MultiLineString'' (\<lambda>h. map_read Line_String (read_coords h))))
      else if wh_base h = WKB_MULTI_POLYGON then
        map_read G_MultiPolygon (read_members h (read_member WKB_POLYGON ''MultiPolygon'' read_polygon))
      else if wh_base h = WKB_COLLECTION then map_read G_Collection (read_members h rec)
      else if wh_base h = WKB_CIRCULAR_STRING then
        map_read (\<lambda>c. G_CircularString (plain_arc c)) (read_coords h)
      else if wh_base h = WKB_COMPOUND_CURVE then map_read G_CompoundCurve (read_compound h)
      else if wh_base h = WKB_CURVE_POLYGON then map_read G_CurvePolygon (read_curve_polygon h)
      else if wh_base h = WKB_MULTI_CURVE then
        map_read G_MultiCurve (read_members h (read_curve ''MultiCurve''))
      else map_read G_MultiSurface (read_members h read_surface))"

text \<open>The recursion through collections runs on fuel.\<close>

primrec read_geometry :: "nat \<Rightarrow> geometry reads" where
  "read_geometry 0 = (\<lambda>r. (Inl Wkb_Fuel, r))"
| "read_geometry (Suc k) = then_read read_header_of_geometry (read_body (read_geometry k))"

text \<open>One unit of fuel more than there are bytes: a header takes five.\<close>

definition read_wkb :: "bytes \<Rightarrow> wkb_error + geometry" where
  "read_wkb bs =
     (case read_geometry (Suc (length bs)) \<lparr>rd_bytes = bs, rd_at = 0\<rparr> of
        (Inl e, _) \<Rightarrow> Inl e
      | (Inr g, r) \<Rightarrow> if rd_at r \<noteq> length bs then Inl (Wkb_Trailing (length bs - rd_at r)) else Inr g)"

end
