(* ===== verification/Wkb_Laws.thy ===== *)
theory Wkb_Laws
  imports Wkb
begin

text \<open>
  What the WKB writer writes and the reader reads: the length of every part, and that every part
  reads as its normal form in the dimension of the geometry. A reader that consumes exactly
  \<open>w\<close> and gives \<open>v\<close> satisfies \<open>reads_as p w v\<close>; the relation is closed under sequencing,
  so each part's lemma is put together from those of its parts.
\<close>

subsection \<open>Integers\<close>

lemma length_le_bytes [simp]: "length (le_bytes k n) = k"
  by (induction k arbitrary: n) auto

lemma length_to_bytes [simp]: "length (to_bytes e k n) = k"
  by (cases e) (simp_all add: to_bytes_def)

lemma from_le_bytes: "from_le (le_bytes k n) = n mod 256 ^ k"
proof (induction k arbitrary: n)
  case (Suc k)
  have "n mod 256 + 256 * (n div 256 mod 256 ^ k) = n mod (256 * 256 ^ k)"
    by (simp add: mod_mult2_eq)
  then show ?case using Suc by (simp add: byte_val_def)
qed simp

lemma from_to_bytes: "from_bytes (e = Little) (to_bytes e k n) = n mod 256 ^ k"
  by (cases e) (simp_all add: from_bytes_def to_bytes_def from_le_bytes)

lemma length_write_u32 [simp]: "length (write_u32 e v) = 4"
  by (simp add: write_u32_def)

lemma length_write_f64 [simp]: "length (write_f64 e v) = 8"
  by (simp add: write_f64_def)

lemma length_write_header [simp]: "length (write_header e d b) = HEADER"
  by (simp add: write_header_def HEADER_def)

lemma length_write_position [simp]: "length (write_position e d vs) = 8 * dim_size d"
  by (simp add: write_position_def length_concat comp_def sum_list_triv)

subsection \<open>Positions\<close>

lemma length_chunks_exact: "0 < n \<Longrightarrow> length (chunks_exact n xs) = length xs div n"
proof (induction n xs rule: chunks_exact.induct)
  case (1 n xs)
  then show ?case
    by (subst chunks_exact.simps) (auto simp: not_less le_div_geq)
qed

lemma concat_chunks_exact: "0 < n \<Longrightarrow> concat (chunks_exact n xs) = take (length xs div n * n) xs"
proof (induction n xs rule: chunks_exact.induct)
  case (1 n xs)
  show ?case
  proof (cases "length xs < n")
    case True
    then show ?thesis by (subst chunks_exact.simps) simp
  next
    case False
    then have "concat (chunks_exact n (drop n xs)) = take (length (drop n xs) div n * n) (drop n xs)"
      using 1 by simp
    moreover have "length xs div n * n = n + length (drop n xs) div n * n"
      using False 1(2) by (simp add: le_div_geq)
    ultimately show ?thesis
      using False 1(2) by (subst chunks_exact.simps) (simp add: take_add)
  qed
qed

lemma length_positions [simp]: "length (positions c) = co_len c"
  by (simp add: positions_def length_chunks_exact co_len_def)

lemma concat_positions: "concat (positions c) = take (co_len c * co_size c) (co_values c)"
  by (simp add: positions_def concat_chunks_exact co_len_def)

lemma positions_lengths: "p \<in> set (positions c) \<Longrightarrow> length p = co_size c"
  unfolding positions_def by (rule chunks_exact_lengths)

lemma fit_nth: "fit n vs = map (\<lambda>k. if k < length vs then vs ! k else F64_NAN) [0..<n]"
  by (rule nth_equalityI) (auto simp: fit_def nth_append)

lemma write_position_fit: "write_position e d vs = concat (map (write_f64 e) (fit (dim_size d) vs))"
  by (simp add: write_position_def fit_nth comp_def)

lemma concat_map_concat: "concat (map f (concat xss)) = concat (map (\<lambda>xs. concat (map f xs)) xss)"
  by (induction xss) simp_all

lemma write_coords_positions:
  "write_coords e d c =
     map_option (\<lambda>n. n @ concat (map (write_position e d) (positions c))) (write_count e (co_len c))"
proof -
  have "concat (map (write_f64 e) (take (co_len c * co_size c) (co_values c))) =
      concat (map (write_position e d) (positions c))" if "co_size c = dim_size d"
  proof -
    have "map (write_position e d) (positions c) = map (\<lambda>p. concat (map (write_f64 e) p)) (positions c)"
      using that by (intro map_cong refl) (simp add: write_position_fit positions_lengths)
    then show ?thesis
      unfolding concat_positions [symmetric] concat_map_concat by (simp only:)
  qed
  then show ?thesis by (simp add: write_coords_def)
qed

subsection \<open>The size is the length written\<close>

lemma write_count_Some: "write_count e n = Some w \<longleftrightarrow> n < 2 ^ 32 \<and> w = write_u32 e (word_of_nat n)"
  by (auto simp: write_count_def)

lemma those_Some: "those xs = Some ys \<longleftrightarrow> xs = map Some ys"
  by (induction xs arbitrary: ys) (auto split: option.splits)

lemma those_map_Some:
  "those (map f xs) = Some ws \<longleftrightarrow> length ws = length xs \<and> (\<forall>i < length xs. f (xs ! i) = Some (ws ! i))"
  by (auto simp: those_Some list_eq_iff_nth_eq)

lemma with_header_Some:
  "with_header e d b w = Some v \<longleftrightarrow> (\<exists>u. w = Some u \<and> v = write_header e d b @ u)"
  by (auto simp: with_header_def)

lemma write_counted_Some:
  "write_counted e f xs = Some w \<longleftrightarrow>
     (\<exists>ws. length xs < 2 ^ 32 \<and> those (map f xs) = Some ws \<and>
        w = write_u32 e (word_of_nat (length xs)) @ concat ws)"
  by (auto simp: write_counted_def write_all_def write_count_def split: option.splits)

lemma write_coords_Some:
  "write_coords e d c = Some w \<longleftrightarrow> co_len c < 2 ^ 32 \<and>
     w = write_u32 e (word_of_nat (co_len c)) @ concat (map (write_position e d) (positions c))"
  by (auto simp: write_coords_positions write_count_def)

lemma those_length_sum:
  assumes "those (map f xs) = Some ws" "\<And>x w. x \<in> set xs \<Longrightarrow> f x = Some w \<Longrightarrow> length w = g x"
  shows "length (concat ws) = (\<Sum>x\<leftarrow>xs. g x)"
  using assms by (induction xs arbitrary: ws) (auto split: option.splits)

lemma counted_length:
  assumes "write_counted e f xs = Some w" "\<And>x w. x \<in> set xs \<Longrightarrow> f x = Some w \<Longrightarrow> length w = g x"
  shows "length w = COUNT + (\<Sum>x\<leftarrow>xs. g x)"
  using assms those_length_sum [of f xs _ g] by (auto simp: write_counted_Some COUNT_def)

lemma coords_length: "write_coords e d c = Some w \<Longrightarrow> length w = size_coords (8 * dim_size d) c"
  by (auto simp: write_coords_Some size_coords_def COUNT_def length_concat comp_def sum_list_triv)

lemma header_length:
  "with_header e d b w = Some v \<Longrightarrow> (\<And>u. w = Some u \<Longrightarrow> length u = n) \<Longrightarrow> length v = HEADER + n"
  by (auto simp: with_header_Some)

lemma point_length: "write_point e d p = Some w \<Longrightarrow> length w = HEADER + 8 * dim_size d"
  unfolding write_point_def by (erule header_length) (auto split: option.splits)

lemma line_length: "write_line_string e d l = Some w \<Longrightarrow> length w = size_line_string (8 * dim_size d) l"
  unfolding write_line_string_def size_line_string_def
  by (erule header_length) (rule coords_length)

lemma arc_length:
  "write_circular_string e d a = Some w \<Longrightarrow> length w = HEADER + size_coords (8 * dim_size d) (cs_coords a)"
  unfolding write_circular_string_def by (erule header_length) (rule coords_length)

lemma polygon_length: "write_polygon e d p = Some w \<Longrightarrow> length w = size_polygon (8 * dim_size d) p"
  unfolding write_polygon_def size_polygon_def add.assoc
  by (erule header_length, erule counted_length) (rule coords_length)

lemma part_length:
  "write_part e d p = Some w \<Longrightarrow> length w = HEADER + size_coords (8 * dim_size d) (part_coords p)"
  by (cases p) (auto dest: line_length arc_length simp: size_line_string_def)

lemma compound_length: "write_compound e d c = Some w \<Longrightarrow> length w = size_compound (8 * dim_size d) c"
  unfolding write_compound_def size_compound_def add.assoc
  by (erule header_length, erule counted_length) (rule part_length)

lemma curve_length: "write_curve e d c = Some w \<Longrightarrow> length w = size_curve (8 * dim_size d) c"
  by (cases c) (auto dest: line_length arc_length compound_length)

lemma curve_polygon_length:
  "write_curve_polygon e d p = Some w \<Longrightarrow> length w = size_curve_polygon (8 * dim_size d) p"
  unfolding write_curve_polygon_def size_curve_polygon_def add.assoc
  by (erule header_length, erule counted_length) (rule curve_length)

lemma surface_length: "write_surface e d s = Some w \<Longrightarrow> length w = size_surface (8 * dim_size d) s"
  by (cases s) (auto dest: polygon_length curve_polygon_length)

lemma multi_length:
  assumes "with_header e d b (write_counted e f xs) = Some w"
    "\<And>x w. x \<in> set xs \<Longrightarrow> f x = Some w \<Longrightarrow> length w = g x"
  shows "length w = HEADER + COUNT + (\<Sum>x\<leftarrow>xs. g x)"
  unfolding add.assoc by (rule header_length [OF assms(1)]) (rule counted_length [OF _ assms(2)])

lemma collection_counted:
  "write_geometry e d (G_Collection gs) =
     with_header e d WKB_COLLECTION (write_counted e (write_geometry e d) gs)"
  by (simp add: write_counted_def write_all_def with_header_def option.map_comp comp_def split: option.splits)

lemmas part_lengths =
  point_length line_length arc_length polygon_length compound_length curve_length
  curve_polygon_length surface_length

lemma geometry_length:
  "write_geometry e d g = Some w \<Longrightarrow> length w = size_geometry (8 * dim_size d) g"
proof (induction g arbitrary: w)
  case (G_Collection gs)
  from multi_length [OF G_Collection.prems [unfolded collection_counted], of "size_geometry (8 * dim_size d)"]
  show ?case using G_Collection.IH by simp
next
  case (G_MultiPoint ps)
  then show ?case
    using multi_length [of e d WKB_MULTI_POINT "write_point e d" ps w "\<lambda>_. HEADER + 8 * dim_size d"]
    by (simp add: point_length sum_list_triv)
qed (auto dest: part_lengths multi_length [OF _ line_length] multi_length [OF _ polygon_length]
    multi_length [OF _ curve_length] multi_length [OF _ surface_length])

subsection \<open>Reading what was written\<close>

text \<open>
  A reader between \<open>pre\<close> and \<open>rest\<close>; \<open>p\<close> \<^emph>\<open>reads\<close> \<open>w\<close> as \<open>v\<close> when it consumes exactly
  \<open>w\<close>, whatever comes before and after.
\<close>

definition at_pos :: "bytes \<Rightarrow> bytes \<Rightarrow> reader" where
  "at_pos pre rest = \<lparr>rd_bytes = pre @ rest, rd_at = length pre\<rparr>"

definition reads_as :: "'a reads \<Rightarrow> bytes \<Rightarrow> 'a \<Rightarrow> bool" where
  "reads_as p w v \<longleftrightarrow> (\<forall>pre rest. p (at_pos pre (w @ rest)) = (Inr v, at_pos (pre @ w) rest))"

lemma reads_asI:
  "(\<And>pre rest. p (at_pos pre (w @ rest)) = (Inr v, at_pos (pre @ w) rest)) \<Longrightarrow> reads_as p w v"
  by (simp add: reads_as_def)

lemma reads_asD: "reads_as p w v \<Longrightarrow> p (at_pos pre (w @ rest)) = (Inr v, at_pos (pre @ w) rest)"
  by (simp add: reads_as_def)

lemma reads_pure [intro]: "reads_as (pure_read v) [] v"
  by (simp add: reads_as_def pure_read_def)

lemma reads_then [intro]:
  assumes "reads_as p w x" "reads_as (f x) w' v"
  shows "reads_as (then_read p f) (w @ w') v"
proof (rule reads_asI)
  fix pre rest
  show "then_read p f (at_pos pre ((w @ w') @ rest)) = (Inr v, at_pos (pre @ (w @ w')) rest)"
    using reads_asD [OF assms(1), of pre "w' @ rest"] reads_asD [OF assms(2), of "pre @ w" rest]
    by (simp add: then_read_def)
qed

lemma reads_map [intro]: "reads_as p w x \<Longrightarrow> reads_as (map_read f p) w (f x)"
  unfolding map_read_def using reads_then [of p w x "\<lambda>x. pure_read (f x)" "[]" "f x"] by auto

lemma reads_repeat:
  assumes "length ws = length vs" "\<And>i. i < length vs \<Longrightarrow> reads_as p (ws ! i) (vs ! i)"
  shows "reads_as (repeat_read (length vs) p) (concat ws) vs"
  using assms
proof (induction ws vs rule: list_induct2)
  case (Cons w ws v vs)
  have "reads_as p w v" using Cons.prems [of 0] by simp
  moreover have "reads_as (repeat_read (length vs) p) (concat ws) vs"
    using Cons.prems [of "Suc _"] by (intro Cons.IH) auto
  ultimately show ?case by (auto intro!: reads_then reads_map)
qed auto

lemma reads_take: "length w = n \<Longrightarrow> reads_as (take_bytes n) w w"
  by (rule reads_asI) (auto simp: take_bytes_def at_pos_def slice_def)

lemma reads_u32: "reads_as (read_u32 (e = Little)) (write_u32 e v) v"
proof -
  have "word_of_nat (from_bytes (e = Little) (write_u32 e v)) = v"
  proof -
    have "unat v < 2 ^ LENGTH(32)" by (rule unsigned_less)
    then show ?thesis by (simp add: write_u32_def from_to_bytes)
  qed
  then show ?thesis
    unfolding read_u32_def by (metis reads_map reads_take length_write_u32)
qed

lemma reads_f64: "reads_as (read_f64 (e = Little)) (write_f64 e v) v"
proof -
  have "word_of_nat (from_bytes (e = Little) (write_f64 e v)) = v"
  proof -
    have "unat v < 2 ^ LENGTH(64)" by (rule unsigned_less)
    then show ?thesis by (simp add: write_f64_def from_to_bytes)
  qed
  then show ?thesis
    unfolding read_f64_def by (metis reads_map reads_take length_write_f64)
qed

text \<open>The count is accepted if that many items of the least length follow.\<close>

lemma reads_counted:
  assumes "n < 2 ^ 32" "n * m \<le> length w" "reads_as (f n) w v"
  shows "reads_as (then_read (read_count (e = Little) m) f) (write_u32 e (word_of_nat n) @ w) v"
proof (rule reads_asI)
  fix pre rest
  let ?c = "write_u32 e (word_of_nat n)"
  have u: "unat (word_of_nat n :: 32 word) = n"
    using assms(1) by (simp add: unat_of_nat)
  have "read_u32 (e = Little) (at_pos pre (?c @ w @ rest)) = (Inr (word_of_nat n), at_pos (pre @ ?c) (w @ rest))"
    by (rule reads_asD [OF reads_u32])
  moreover have "length (rd_bytes (at_pos (pre @ ?c) (w @ rest))) - rd_at (at_pos (pre @ ?c) (w @ rest))
      = length w + length rest"
    by (simp add: at_pos_def)
  ultimately have "read_count (e = Little) m (at_pos pre (?c @ w @ rest)) = (Inr n, at_pos (pre @ ?c) (w @ rest))"
    using assms(2) u by (simp add: read_count_def then_read_def Let_def)
  then show "then_read (read_count (e = Little) m) f (at_pos pre ((?c @ w) @ rest)) =
      (Inr v, at_pos (pre @ (?c @ w)) rest)"
    using reads_asD [OF assms(3), of "pre @ ?c" rest] by (simp add: then_read_def)
qed

text \<open>The header of a written geometry.\<close>

definition header_at :: "endianness \<Rightarrow> dim \<Rightarrow> nat \<Rightarrow> wkb_header" where
  "header_at e d base =
     \<lparr>wh_little = (e = Little), wh_base = base, wh_size = dim_size d, wh_dim = d\<rparr>"

lemma decode_type_written:
  assumes "base \<in> {1..12}"
  shows "decode_type little (word_of_nat (case d of Xy \<Rightarrow> base | Xyz \<Rightarrow> base + 1000)) =
      Some \<lparr>wh_little = little, wh_base = base, wh_size = dim_size d, wh_dim = d\<rparr>"
    "word_of_nat (case d of Xy \<Rightarrow> base | Xyz \<Rightarrow> base + 1000) AND EWKB_SRID = 0"
proof -
  from assms have "base = 1 \<or> base = 2 \<or> base = 3 \<or> base = 4 \<or> base = 5 \<or> base = 6 \<or> base = 7 \<or>
      base = 8 \<or> base = 9 \<or> base = 10 \<or> base = 11 \<or> base = 12"
    unfolding atLeastAtMost_iff by presburger
  then show "decode_type little (word_of_nat (case d of Xy \<Rightarrow> base | Xyz \<Rightarrow> base + 1000)) =
      Some \<lparr>wh_little = little, wh_base = base, wh_size = dim_size d, wh_dim = d\<rparr>"
    "word_of_nat (case d of Xy \<Rightarrow> base | Xyz \<Rightarrow> base + 1000) AND EWKB_SRID = 0"
    by (cases d; auto simp: decode_type_def EWKB_Z_def EWKB_M_def EWKB_SRID_def wkb_types dim_size_def Let_def)+
qed

lemma reads_byte_order:
  "reads_as read_byte_order [case e of Little \<Rightarrow> CHR 0x01 | Big \<Rightarrow> CHR 0x00] (e = Little)"
proof (rule reads_asI)
  fix pre rest
  let ?b = "[case e of Little \<Rightarrow> CHR 0x01 | Big \<Rightarrow> CHR 0x00]"
  show "read_byte_order (at_pos pre (?b @ rest)) = (Inr (e = Little), at_pos (pre @ ?b) rest)"
    using reads_asD [OF reads_take [of ?b 1], of pre rest]
    by (cases e) (simp_all add: read_byte_order_def then_read_def byte_val_def)
qed

lemma reads_header:
  assumes "base \<in> {1..12}"
  shows "reads_as read_header_of_geometry (write_header e d base) (header_at e d base)"
proof -
  let ?code = "word_of_nat (case d of Xy \<Rightarrow> base | Xyz \<Rightarrow> base + 1000) :: 32 word"
  have w: "write_header e d base =
      [case e of Little \<Rightarrow> CHR 0x01 | Big \<Rightarrow> CHR 0x00] @ write_u32 e ?code @ [] @ []"
    by (simp add: write_header_def)
  note dt = decode_type_written [OF assms, where d = d]
  show ?thesis
    unfolding read_header_of_geometry_def w
  proof (intro reads_then)
    show "reads_as read_byte_order [case e of Little \<Rightarrow> CHR 0x01 | Big \<Rightarrow> CHR 0x00] (e = Little)"
      by (rule reads_byte_order)
    show "reads_as (read_u32 (e = Little)) (write_u32 e ?code) ?code" by (rule reads_u32)
    show "reads_as (if ?code AND EWKB_SRID \<noteq> 0 then map_read (\<lambda>_. ()) (read_u32 (e = Little)) else pure_read ()) [] ()"
      using dt(2) by auto
    show "reads_as (\<lambda>r. case decode_type (e = Little) ?code of
        None \<Rightarrow> (Inl (Wkb_Type ?code), r) | Some h \<Rightarrow> (Inr h, r)) [] (header_at e d base)"
      by (simp add: dt(1) reads_as_def header_at_def)
  qed
qed

lemma reads_header_in:
  assumes "base \<in> {1..12}" "base \<in> set bases"
  shows "reads_as (read_header_in bases within) (write_header e d base) (header_at e d base)"
  using reads_asD [OF reads_header [OF assms(1)]] assms(2)
  by (intro reads_asI) (simp add: read_header_in_def then_read_def header_at_def)

lemma header_at_simps [simp]:
  "wh_little (header_at e d b) = (e = Little)" "wh_base (header_at e d b) = b"
  "wh_size (header_at e d b) = dim_size d" "wh_dim (header_at e d b) = d"
  by (simp_all add: header_at_def)

subsection \<open>What is read back\<close>

text \<open>
  The geometry in the one dimension it is written in: positions fitted, no position marked as
  computed, a point of NaN ordinates empty, and the first ring of a polygon its exterior.
\<close>

definition norm_coords :: "dim \<Rightarrow> coords \<Rightarrow> coords" where
  "norm_coords d c = \<lparr>co_dim = Some d, co_values = concat (map (fit (dim_size d)) (positions c))\<rparr>"

definition norm_point :: "dim \<Rightarrow> point \<Rightarrow> point" where
  "norm_point d p =
     (let vs = fit (dim_size d) (case pt_coord p of Some vs \<Rightarrow> vs | None \<Rightarrow> [])
      in Point (if list_all is_nan vs then None else Some vs))"

definition norm_line :: "dim \<Rightarrow> line_string \<Rightarrow> line_string" where
  "norm_line d l = Line_String (norm_coords d (ls_coords l))"

definition norm_arc :: "dim \<Rightarrow> circular_string \<Rightarrow> circular_string" where
  "norm_arc d a = plain_arc (norm_coords d (cs_coords a))"

definition split_rings :: "'a list \<Rightarrow> 'a option \<times> 'a list" where
  "split_rings rs = (case rs of [] \<Rightarrow> (None, []) | r # rs \<Rightarrow> (Some r, rs))"

definition norm_polygon :: "dim \<Rightarrow> polygon \<Rightarrow> polygon" where
  "norm_polygon d p =
     (let rs = split_rings (map (norm_line d) (polygon_rings p))
      in \<lparr>pg_exterior = fst rs, pg_interiors = snd rs\<rparr>)"

fun norm_part :: "dim \<Rightarrow> curve_part \<Rightarrow> curve_part" where
  "norm_part d (Linear_Part l) = Linear_Part (norm_line d l)"
| "norm_part d (Circular_Part a) = Circular_Part (norm_arc d a)"

definition norm_compound :: "dim \<Rightarrow> compound_curve \<Rightarrow> compound_curve" where
  "norm_compound d c = Compound_Curve (map (norm_part d) (cc_parts c))"

fun norm_curve :: "dim \<Rightarrow> curve \<Rightarrow> curve" where
  "norm_curve d (Linear l) = Linear (norm_line d l)"
| "norm_curve d (Circular a) = Circular (norm_arc d a)"
| "norm_curve d (Compound c) = Compound (norm_compound d c)"

definition norm_curve_polygon :: "dim \<Rightarrow> curve_polygon \<Rightarrow> curve_polygon" where
  "norm_curve_polygon d p =
     (let rs = split_rings (map (norm_curve d) (curve_polygon_rings p))
      in \<lparr>cp_exterior = fst rs, cp_interiors = snd rs\<rparr>)"

fun norm_surface :: "dim \<Rightarrow> surface \<Rightarrow> surface" where
  "norm_surface d (Polygon_Surface p) = Polygon_Surface (norm_polygon d p)"
| "norm_surface d (Curve_Polygon_Surface p) = Curve_Polygon_Surface (norm_curve_polygon d p)"

fun norm_geometry :: "dim \<Rightarrow> geometry \<Rightarrow> geometry" where
  "norm_geometry d (G_Point p) = G_Point (norm_point d p)"
| "norm_geometry d (G_LineString l) = G_LineString (norm_line d l)"
| "norm_geometry d (G_Polygon p) = G_Polygon (norm_polygon d p)"
| "norm_geometry d (G_MultiPoint ps) = G_MultiPoint (map (norm_point d) ps)"
| "norm_geometry d (G_MultiLineString ls) = G_MultiLineString (map (norm_line d) ls)"
| "norm_geometry d (G_MultiPolygon ps) = G_MultiPolygon (map (norm_polygon d) ps)"
| "norm_geometry d (G_Collection gs) = G_Collection (map (norm_geometry d) gs)"
| "norm_geometry d (G_CircularString a) = G_CircularString (norm_arc d a)"
| "norm_geometry d (G_CompoundCurve c) = G_CompoundCurve (norm_compound d c)"
| "norm_geometry d (G_CurvePolygon p) = G_CurvePolygon (norm_curve_polygon d p)"
| "norm_geometry d (G_MultiCurve cs) = G_MultiCurve (map (norm_curve d) cs)"
| "norm_geometry d (G_MultiSurface ss) = G_MultiSurface (map (norm_surface d) ss)"

subsection \<open>Each part reads as its normal form\<close>

lemma reads_position:
  "reads_as (read_position (header_at e d b)) (write_position e d vs) (fit (dim_size d) vs)"
proof -
  let ?vs = "fit (dim_size d) vs"
  have "reads_as (repeat_read (length ?vs) (read_f64 (e = Little))) (concat (map (write_f64 e) ?vs)) ?vs"
    by (rule reads_repeat) (simp_all add: reads_f64 del: length_fit)
  then have "reads_as (map_read (take (dim_size d)) (repeat_read (dim_size d) (read_f64 (e = Little))))
      (write_position e d vs) (take (dim_size d) ?vs)"
    unfolding write_position_fit length_fit by (rule reads_map)
  then show ?thesis by (simp add: read_position_def)
qed

lemma reads_coords:
  assumes "write_coords e d c = Some w"
  shows "reads_as (read_coords (header_at e d b)) w (norm_coords d c)"
proof -
  from assms have n: "co_len c < 2 ^ 32"
    and w: "w = write_u32 e (word_of_nat (co_len c)) @ concat (map (write_position e d) (positions c))"
    by (simp_all add: write_coords_Some)
  let ?vs = "map (fit (dim_size d)) (positions c)"
  have "reads_as (repeat_read (length ?vs) (read_position (header_at e d b)))
      (concat (map (write_position e d) (positions c))) ?vs"
    by (rule reads_repeat) (simp_all add: reads_position)
  then have "reads_as (map_read (\<lambda>ps. \<lparr>co_dim = Some d, co_values = concat ps\<rparr>)
        (repeat_read (co_len c) (read_position (header_at e d b))))
      (concat (map (write_position e d) (positions c))) \<lparr>co_dim = Some d, co_values = concat ?vs\<rparr>"
    unfolding length_map length_positions by (rule reads_map)
  moreover have "co_len c * (dim_size d * 8) \<le> length (concat (map (write_position e d) (positions c)))"
    by (simp add: length_concat comp_def sum_list_triv)
  ultimately show ?thesis
    unfolding w read_coords_def norm_coords_def header_at_simps
    by (intro reads_counted [OF n]) simp_all
qed

lemma reads_with_header:
  assumes "with_header e d base w = Some v" "base \<in> {1..12}"
    "\<And>u. w = Some u \<Longrightarrow> reads_as (f (header_at e d base)) u x"
  shows "reads_as (then_read read_header_of_geometry f) v x"
    "base \<in> set bases \<Longrightarrow> reads_as (then_read (read_header_in bases within) f) v x"
    "HEADER \<le> length v"
  using assms by (auto simp: with_header_Some intro!: reads_then [OF reads_header] reads_then [OF reads_header_in])

lemma reads_items:
  assumes "write_counted e f xs = Some w"
    "\<And>x u. x \<in> set xs \<Longrightarrow> f x = Some u \<Longrightarrow> m \<le> length u \<and> reads_as p u (g x)"
    "\<And>u. reads_as (repeat_read (length xs) p) u (map g xs) \<Longrightarrow> reads_as (F (length xs)) u v"
  shows "reads_as (then_read (read_count (e = Little) m) F) w v"
proof -
  obtain ws where n: "length xs < 2 ^ 32" and ws: "those (map f xs) = Some ws"
    and w: "w = write_u32 e (word_of_nat (length xs)) @ concat ws"
    using assms(1) by (auto simp: write_counted_Some)
  have i: "m \<le> length (ws ! i) \<and> reads_as p (ws ! i) (g (xs ! i))" if "i < length xs" for i
    using ws that assms(2) [of "xs ! i" "ws ! i"] by (simp add: those_map_Some)
  have l: "length ws = length xs" using ws by (simp add: those_map_Some)
  have "\<forall>u \<in> set ws. m \<le> length u"
    using i l by (auto simp: in_set_conv_nth)
  then have "length ws * m \<le> length (concat ws)"
    by (induction ws) auto
  moreover have "reads_as (repeat_read (length (map g xs)) p) (concat ws) (map g xs)"
    using i l by (intro reads_repeat) simp_all
  ultimately show ?thesis
    unfolding w using l by (intro reads_counted [OF n] assms(3)) simp_all
qed

lemma read_rings_repeat: "read_rings n p = map_read split_rings (repeat_read n p)"
proof (cases n)
  case (Suc k)
  then show ?thesis
    by (auto simp: read_rings_def map_read_def then_read_def pure_read_def split_rings_def and_then_def
        fun_eq_iff split: prod.splits sum.splits)
qed (auto simp: read_rings_def map_read_def then_read_def pure_read_def split_rings_def fun_eq_iff)

lemma reads_ring:
  "write_coords e d (ls_coords l) = Some u \<Longrightarrow>
     COUNT \<le> length u \<and> reads_as (map_read Line_String (read_coords (header_at e d b))) u (norm_line d l)"
  unfolding norm_line_def by (auto intro!: reads_map reads_coords simp: write_coords_Some COUNT_def)

lemma reads_polygon_body:
  assumes "write_counted e (\<lambda>r. write_coords e d (ls_coords r)) (polygon_rings p) = Some w"
  shows "reads_as (read_polygon (header_at e d b)) w (norm_polygon d p)"
  unfolding read_polygon_def header_at_simps
proof (rule reads_items [OF assms])
  fix u assume "reads_as (repeat_read (length (polygon_rings p)) (map_read Line_String (read_coords (header_at e d b))))
      u (map (norm_line d) (polygon_rings p))"
  from reads_map [OF reads_map [OF this, of split_rings], of "\<lambda>(e, is). \<lparr>pg_exterior = e, pg_interiors = is\<rparr>"]
  show "reads_as (map_read (\<lambda>(e, is). \<lparr>pg_exterior = e, pg_interiors = is\<rparr>)
      (read_rings (length (polygon_rings p)) (map_read Line_String (read_coords (header_at e d b))))) u (norm_polygon d p)"
    by (simp add: read_rings_repeat norm_polygon_def Let_def case_prod_beta)
qed (rule reads_ring)

lemma type_ranges [simp]:
  "WKB_POINT \<in> {1..12}" "WKB_LINE_STRING \<in> {1..12}" "WKB_POLYGON \<in> {1..12}"
  "WKB_MULTI_POINT \<in> {1..12}" "WKB_MULTI_LINE_STRING \<in> {1..12}" "WKB_MULTI_POLYGON \<in> {1..12}"
  "WKB_COLLECTION \<in> {1..12}" "WKB_CIRCULAR_STRING \<in> {1..12}" "WKB_COMPOUND_CURVE \<in> {1..12}"
  "WKB_CURVE_POLYGON \<in> {1..12}" "WKB_MULTI_CURVE \<in> {1..12}" "WKB_MULTI_SURFACE \<in> {1..12}"
  by (simp_all add: wkb_types)

lemma reads_point_body:
  assumes "Some (case pt_coord p of Some vs \<Rightarrow> write_position e d vs | None \<Rightarrow> write_position e d []) = Some w"
  shows "reads_as (read_point (header_at e d b)) w (norm_point d p)"
proof -
  let ?vs = "case pt_coord p of Some vs \<Rightarrow> vs | None \<Rightarrow> []"
  have "w = write_position e d ?vs" using assms by (cases "pt_coord p") simp_all
  then show ?thesis
    unfolding read_point_def norm_point_def Let_def
    using reads_map [OF reads_position, of "\<lambda>p. Point (if list_all is_nan p then None else Some p)" e d b ?vs]
    by simp
qed

lemma reads_part:
  assumes "write_part e d p = Some w"
  shows "HEADER \<le> length w \<and> reads_as read_part w (norm_part d p)"
proof (cases p)
  case (Linear_Part l)
  from assms [unfolded Linear_Part write_part.simps write_line_string_def] type_ranges(2)
  show ?thesis
    unfolding read_part_def Linear_Part norm_part.simps
    by (intro conjI reads_with_header(2,3))
      (auto intro!: reads_map [of _ _ _ "\<lambda>c. Linear_Part (Line_String c)", folded norm_line_def] reads_coords
        simp: norm_line_def)
next
  case (Circular_Part a)
  from assms [unfolded Circular_Part write_part.simps write_circular_string_def] type_ranges(8)
  show ?thesis
    unfolding read_part_def Circular_Part norm_part.simps
    by (intro conjI reads_with_header(2,3))
      (auto intro!: reads_map [of _ _ _ "\<lambda>c. Circular_Part (plain_arc c)"] reads_coords
        simp: norm_arc_def wkb_types)
qed

lemma reads_compound_body:
  assumes "write_counted e (write_part e d) (cc_parts c) = Some w"
  shows "reads_as (read_compound (header_at e d b)) w (norm_compound d c)"
  unfolding read_compound_def norm_compound_def header_at_simps
  by (rule reads_items [OF assms, where p = read_part and g = "norm_part d"])
    (auto dest: reads_part intro: reads_map)

lemma reads_curve:
  assumes "write_curve e d c = Some w"
  shows "HEADER \<le> length w \<and> reads_as (read_curve within) w (norm_curve d c)"
proof (cases c)
  case (Linear l)
  from assms [unfolded Linear write_curve.simps write_line_string_def] type_ranges(2)
  show ?thesis
    unfolding read_curve_def Linear norm_curve.simps norm_line_def
    by (intro conjI reads_with_header(2,3))
      (auto intro!: reads_map [of _ _ _ "\<lambda>c. Linear (Line_String c)"] reads_coords)
next
  case (Circular a)
  from assms [unfolded Circular write_curve.simps write_circular_string_def] type_ranges(8)
  show ?thesis
    unfolding read_curve_def Circular norm_curve.simps norm_arc_def
    by (intro conjI reads_with_header(2,3))
      (auto intro!: reads_map [of _ _ _ "\<lambda>c. Circular (plain_arc c)"] reads_coords simp: wkb_types)
next
  case (Compound cc)
  from assms [unfolded Compound write_curve.simps write_compound_def] type_ranges(9)
  show ?thesis
    unfolding read_curve_def Compound norm_curve.simps
    by (intro conjI reads_with_header(2,3))
      (auto intro!: reads_map reads_compound_body simp: wkb_types)
qed

lemma reads_curve_polygon_body:
  assumes "write_counted e (write_curve e d) (curve_polygon_rings p) = Some w"
  shows "reads_as (read_curve_polygon (header_at e d b)) w (norm_curve_polygon d p)"
  unfolding read_curve_polygon_def header_at_simps
proof (rule reads_items [OF assms])
  fix u assume "reads_as (repeat_read (length (curve_polygon_rings p)) (read_curve ''CurvePolygon''))
      u (map (norm_curve d) (curve_polygon_rings p))"
  from reads_map [OF reads_map [OF this, of split_rings], of "\<lambda>(e, is). \<lparr>cp_exterior = e, cp_interiors = is\<rparr>"]
  show "reads_as (map_read (\<lambda>(e, is). \<lparr>cp_exterior = e, cp_interiors = is\<rparr>)
      (read_rings (length (curve_polygon_rings p)) (read_curve ''CurvePolygon''))) u (norm_curve_polygon d p)"
    by (simp add: read_rings_repeat norm_curve_polygon_def Let_def case_prod_beta)
qed (rule reads_curve)

lemma reads_surface:
  assumes "write_surface e d s = Some w"
  shows "HEADER \<le> length w \<and> reads_as read_surface w (norm_surface d s)"
proof (cases s)
  case (Polygon_Surface p)
  from assms [unfolded Polygon_Surface write_surface.simps write_polygon_def] type_ranges(3)
  show ?thesis
    unfolding read_surface_def Polygon_Surface norm_surface.simps
    by (intro conjI reads_with_header(2,3)) (auto intro!: reads_map reads_polygon_body)
next
  case (Curve_Polygon_Surface p)
  from assms [unfolded Curve_Polygon_Surface write_surface.simps write_curve_polygon_def] type_ranges(10)
  show ?thesis
    unfolding read_surface_def Curve_Polygon_Surface norm_surface.simps
    by (intro conjI reads_with_header(2,3))
      (auto intro!: reads_map reads_curve_polygon_body simp: wkb_types)
qed

lemma reads_member:
  assumes "with_header e d base w = Some v" "base \<in> {1..12}"
    "\<And>u. w = Some u \<Longrightarrow> reads_as (f (header_at e d base)) u x"
  shows "HEADER \<le> length v \<and> reads_as (read_member base within f) v x"
  unfolding read_member_def
proof (rule conjI)
  show "HEADER \<le> length v" using assms(1) by (auto simp: with_header_Some)
  show "reads_as (then_read (read_header_in [base] within) f) v x"
    by (rule reads_with_header(2) [OF assms(1,2)]) (auto intro: assms(3))
qed

lemma reads_members:
  assumes "write_counted e f xs = Some w"
    "\<And>x u. x \<in> set xs \<Longrightarrow> f x = Some u \<Longrightarrow> HEADER \<le> length u \<and> reads_as p u (g x)"
  shows "reads_as (read_members (header_at e d b) p) w (map g xs)"
  unfolding read_members_def header_at_simps by (rule reads_items [OF assms])

lemma reads_multi:
  assumes "with_header e d base (write_counted e f xs) = Some w" "base \<in> {1..12}"
    "\<And>x u. x \<in> set xs \<Longrightarrow> f x = Some u \<Longrightarrow> HEADER \<le> length u \<and> reads_as p u (g x)"
    "F (header_at e d base) = map_read C (read_members (header_at e d base) p)"
  shows "HEADER \<le> length w \<and> reads_as (then_read read_header_of_geometry F) w (C (map g xs))"
proof (rule conjI)
  show "HEADER \<le> length w" using assms(1) by (auto simp: with_header_Some)
  show "reads_as (then_read read_header_of_geometry F) w (C (map g xs))"
  proof (rule reads_with_header(1) [OF assms(1,2)])
    fix u assume "write_counted e f xs = Some u"
    from reads_map [where f = C, OF reads_members [OF this assms(3)]] show "reads_as (F (header_at e d base)) u (C (map g xs))"
      unfolding assms(4) by simp
  qed
qed

lemma reads_point:
  assumes "write_point e d p = Some u"
  shows "HEADER \<le> length u \<and> reads_as (read_member WKB_POINT within read_point) u (norm_point d p)"
  by (rule reads_member [OF assms [unfolded write_point_def] type_ranges(1)]) (rule reads_point_body)

lemma reads_line:
  assumes "write_line_string e d l = Some u"
  shows "HEADER \<le> length u \<and>
    reads_as (read_member WKB_LINE_STRING within (\<lambda>h. map_read Line_String (read_coords h))) u (norm_line d l)"
  unfolding norm_line_def
  by (rule reads_member [OF assms [unfolded write_line_string_def] type_ranges(2)])
    (auto intro: reads_map reads_coords)

lemma reads_polygon:
  assumes "write_polygon e d p = Some u"
  shows "HEADER \<le> length u \<and> reads_as (read_member WKB_POLYGON within read_polygon) u (norm_polygon d p)"
  by (rule reads_member [OF assms [unfolded write_polygon_def] type_ranges(3)]) (rule reads_polygon_body)

text \<open>How deeply collections nest; every level takes one unit of fuel.\<close>

fun depth :: "geometry \<Rightarrow> nat" where
  "depth (G_Collection gs) = Suc (Max (set (0 # map depth gs)))"
| "depth _ = 1"

lemma depth_member: "g \<in> set gs \<Longrightarrow> depth g < depth (G_Collection gs)"
  by (simp add: less_Suc_eq_le)

lemmas body_bases = read_body_def header_at_simps wkb_types

lemma reads_geometry:
  "write_geometry e d g = Some w \<Longrightarrow> depth g \<le> k \<Longrightarrow>
     HEADER \<le> length w \<and> reads_as (read_geometry k) w (norm_geometry d g)"
proof (induction g arbitrary: w k)
  case (G_Collection gs)
  then obtain j where k: "k = Suc j" "\<forall>g \<in> set gs. depth g \<le> j"
    using depth_member [of _ gs] by (cases k) (simp, fastforce)
  show ?case
    unfolding k(1) read_geometry.simps norm_geometry.simps
    by (rule reads_multi [OF G_Collection.prems(1) [unfolded collection_counted], where p = "read_geometry j"])
      (use G_Collection.IH k(2) in \<open>auto simp: body_bases\<close>)
next
  case (G_Point p)
  then obtain j where "k = Suc j" by (cases k) simp_all
  with G_Point.prems(1) [unfolded write_geometry.simps write_point_def] type_ranges show ?case
    by (auto intro!: reads_with_header(1,3) reads_map reads_point_body simp: read_body_def)
next
  case (G_LineString l)
  then obtain j where "k = Suc j" by (cases k) simp_all
  with G_LineString.prems(1) [unfolded write_geometry.simps write_line_string_def] type_ranges show ?case
    by (auto intro!: reads_with_header(1,3) reads_map [of _ _ _ "\<lambda>c. G_LineString (Line_String c)"] reads_coords
        simp: norm_line_def body_bases)
next
  case (G_Polygon p)
  then obtain j where "k = Suc j" by (cases k) simp_all
  with G_Polygon.prems(1) [unfolded write_geometry.simps write_polygon_def] type_ranges show ?case
    by (auto intro!: reads_with_header(1,3) reads_map reads_polygon_body simp: body_bases)
next
  case (G_CircularString a)
  then obtain j where "k = Suc j" by (cases k) simp_all
  with G_CircularString.prems(1) [unfolded write_geometry.simps write_circular_string_def] type_ranges show ?case
    by (auto intro!: reads_with_header(1,3) reads_map [of _ _ _ "\<lambda>c. G_CircularString (plain_arc c)"] reads_coords
        simp: norm_arc_def body_bases)
next
  case (G_CompoundCurve c)
  then obtain j where "k = Suc j" by (cases k) simp_all
  with G_CompoundCurve.prems(1) [unfolded write_geometry.simps write_compound_def] type_ranges show ?case
    by (auto intro!: reads_with_header(1,3) reads_map reads_compound_body simp: body_bases)
next
  case (G_CurvePolygon p)
  then obtain j where "k = Suc j" by (cases k) simp_all
  with G_CurvePolygon.prems(1) [unfolded write_geometry.simps write_curve_polygon_def] type_ranges show ?case
    by (auto intro!: reads_with_header(1,3) reads_map reads_curve_polygon_body simp: body_bases)
next
  case (G_MultiPoint ps)
  then obtain j where "k = Suc j" by (cases k) simp_all
  then show ?case
    using reads_multi [OF G_MultiPoint.prems(1) [unfolded write_geometry.simps] type_ranges(4) reads_point,
        where F = "read_body (read_geometry j)" and C = G_MultiPoint]
    by (simp add: body_bases)
next
  case (G_MultiLineString ls)
  then obtain j where "k = Suc j" by (cases k) simp_all
  then show ?case
    using reads_multi [OF G_MultiLineString.prems(1) [unfolded write_geometry.simps] type_ranges(5) reads_line,
        where F = "read_body (read_geometry j)" and C = G_MultiLineString]
    by (simp add: body_bases)
next
  case (G_MultiPolygon ps)
  then obtain j where "k = Suc j" by (cases k) simp_all
  then show ?case
    using reads_multi [OF G_MultiPolygon.prems(1) [unfolded write_geometry.simps] type_ranges(6) reads_polygon,
        where F = "read_body (read_geometry j)" and C = G_MultiPolygon]
    by (simp add: body_bases)
next
  case (G_MultiCurve cs)
  then obtain j where "k = Suc j" by (cases k) simp_all
  then show ?case
    using reads_multi [OF G_MultiCurve.prems(1) [unfolded write_geometry.simps] type_ranges(11) reads_curve,
        where F = "read_body (read_geometry j)" and C = G_MultiCurve]
    by (simp add: body_bases)
next
  case (G_MultiSurface ss)
  then obtain j where "k = Suc j" by (cases k) simp_all
  then show ?case
    using reads_multi [OF G_MultiSurface.prems(1) [unfolded write_geometry.simps] type_ranges(12) reads_surface,
        where F = "read_body (read_geometry j)" and C = G_MultiSurface]
    by (simp add: body_bases)
qed

end
