(* ===== verification/Wkb_Roundtrip.thy ===== *)
theory Wkb_Roundtrip
  imports Wkb_Laws
begin

text \<open>
  The properties of the WKB format: the round trip, the size, that the reader always comes to a
  result (\<open>steady\<close>: a reader keeps to the bytes and needs no more fuel than there are bytes) and
  that a geometry ends where its bytes end (\<open>extends\<close>: bytes that follow do not matter).
\<close>

subsection \<open>Enough fuel\<close>

lemma depth_size: "depth g \<le> size_geometry pos g"
proof (induction g)
  case (G_Collection gs)
  have "depth g \<le> (\<Sum>g\<leftarrow>gs. size_geometry pos g)" if "g \<in> set gs" for g
    using G_Collection.IH [OF that] member_le_sum_list [of "size_geometry pos g" "map (size_geometry pos) gs"] that
    by fastforce
  then show ?case by (fastforce simp: HEADER_def intro: trans_le_add2)
qed (simp_all add: HEADER_def size_line_string_def size_polygon_def size_compound_def size_curve_polygon_def)

lemma reads_written:
  assumes "write_geometry e d g = Some w"
  shows "read_geometry (Suc (length (w @ rest))) \<lparr>rd_bytes = w @ rest, rd_at = 0\<rparr> =
    (Inr (norm_geometry d g), \<lparr>rd_bytes = w @ rest, rd_at = length w\<rparr>)"
proof -
  have "depth g \<le> length w"
    using depth_size [of g "8 * dim_size d"] geometry_length [OF assms] by simp
  then have "depth g \<le> Suc (length (w @ rest))" by simp
  from reads_asD [OF conjunct2 [OF reads_geometry [OF assms this]], of "[]" rest]
  show ?thesis by (simp add: at_pos_def)
qed

named_theorems steady_intros \<open>readers that keep to the bytes\<close>
named_theorems extends_intros \<open>readers that do not depend on the bytes after those they consume\<close>

text \<open>
  Bytes left, and readers that keep to the bytes and do not run out of fuel while at most \<open>k\<close>
  bytes are left.
\<close>

definition bytes_left :: "reader \<Rightarrow> nat" where
  "bytes_left r = length (rd_bytes r) - rd_at r"

definition steady :: "nat \<Rightarrow> 'a reads \<Rightarrow> bool" where
  "steady k p \<longleftrightarrow>
     (\<forall>r. rd_at r \<le> length (rd_bytes r) \<longrightarrow> bytes_left r \<le> k \<longrightarrow>
        fst (p r) \<noteq> Inl Wkb_Fuel \<and> rd_bytes (snd (p r)) = rd_bytes r \<and>
        rd_at r \<le> rd_at (snd (p r)) \<and> rd_at (snd (p r)) \<le> length (rd_bytes r))"

lemma steadyI:
  "(\<And>r. rd_at r \<le> length (rd_bytes r) \<Longrightarrow> bytes_left r \<le> k \<Longrightarrow>
      fst (p r) \<noteq> Inl Wkb_Fuel \<and> rd_bytes (snd (p r)) = rd_bytes r \<and>
      rd_at r \<le> rd_at (snd (p r)) \<and> rd_at (snd (p r)) \<le> length (rd_bytes r)) \<Longrightarrow> steady k p"
  by (simp add: steady_def)

lemma steadyD:
  assumes "steady k p" "rd_at r \<le> length (rd_bytes r)" "bytes_left r \<le> k" "p r = (x, s)"
  shows "x \<noteq> Inl Wkb_Fuel" "rd_bytes s = rd_bytes r" "rd_at r \<le> rd_at s" "rd_at s \<le> length (rd_bytes s)"
    "bytes_left s \<le> bytes_left r"
  using assms by (force simp: steady_def bytes_left_def)+

lemma steady_pure [steady_intros]: "steady k (pure_read x)"
  by (simp add: steady_def pure_read_def)

text \<open>The second reader may rely on what the first one left.\<close>

lemma steady_then_on:
  assumes "steady k p"
    "\<And>r x s. rd_at r \<le> length (rd_bytes r) \<Longrightarrow> bytes_left r \<le> k \<Longrightarrow> p r = (Inr x, s) \<Longrightarrow>
       \<exists>j. steady j (f x) \<and> bytes_left s \<le> j"
  shows "steady k (then_read p f)"
proof (rule steadyI)
  fix r assume r: "rd_at r \<le> length (rd_bytes r)" "bytes_left r \<le> k"
  obtain y s where p: "p r = (y, s)" by (cases "p r")
  note d = steadyD [OF assms(1) r p]
  show "fst (then_read p f r) \<noteq> Inl Wkb_Fuel \<and> rd_bytes (snd (then_read p f r)) = rd_bytes r \<and>
      rd_at r \<le> rd_at (snd (then_read p f r)) \<and> rd_at (snd (then_read p f r)) \<le> length (rd_bytes r)"
  proof (cases y)
    case (Inl e)
    then show ?thesis using p d by (simp add: then_read_def)
  next
    case (Inr x)
    from assms(2) [OF r p [unfolded Inr]] obtain j where j: "steady j (f x)" "bytes_left s \<le> j" by blast
    obtain z t where z: "f x s = (z, t)" by (cases "f x s")
    have "then_read p f r = (z, t)" using p Inr z by (simp add: then_read_def)
    then show ?thesis using steadyD [OF j(1) d(4) j(2) z] d by simp
  qed
qed

lemma steady_then [steady_intros]: "steady k p \<Longrightarrow> (\<And>x. steady k (f x)) \<Longrightarrow> steady k (then_read p f)"
  by (rule steady_then_on) (auto dest: steadyD(5) intro!: exI [of _ k])

lemma steady_test:
  "(\<And>r. snd (p r) = r) \<Longrightarrow> (\<And>r. fst (p r) \<noteq> Inl Wkb_Fuel) \<Longrightarrow> steady k p"
  by (rule steadyI) simp

lemma steady_map [steady_intros]: "steady k p \<Longrightarrow> steady k (map_read f p)"
  unfolding map_read_def by (intro steady_intros)

lemma steady_if [steady_intros]: "steady k p \<Longrightarrow> steady k q \<Longrightarrow> steady k (if b then p else q)"
  by simp

lemma steady_repeat [steady_intros]: "steady k p \<Longrightarrow> steady k (repeat_read n p)"
  by (induction n) (auto intro: steady_intros)

lemma steady_rings [steady_intros]: "steady k p \<Longrightarrow> steady k (read_rings n p)"
  unfolding read_rings_repeat by (intro steady_intros)

lemma steady_take [steady_intros]: "steady k (take_bytes n)"
  by (auto simp: steady_def take_bytes_def)

lemma steady_u32 [steady_intros]: "steady k (read_u32 l)"
  unfolding read_u32_def by (intro steady_intros)

lemma steady_f64 [steady_intros]: "steady k (read_f64 l)"
  unfolding read_f64_def by (intro steady_intros)

lemma steady_count [steady_intros]: "steady k (read_count l m)"
  unfolding read_count_def
  by (rule steady_then, rule steady_u32, rule steady_test) (simp_all add: Let_def)

lemma steady_byte_order [steady_intros]: "steady k read_byte_order"
  unfolding read_byte_order_def
  by (rule steady_then, rule steady_take, rule steady_test) simp_all

lemma steady_srid [steady_intros]: "steady k (if c then map_read (\<lambda>_. ()) (read_u32 l) else pure_read ())"
  by (intro steady_intros)

lemma steady_type [steady_intros]:
  "steady k (\<lambda>r. case decode_type l code of None \<Rightarrow> (Inl (Wkb_Type code), r) | Some h \<Rightarrow> (Inr h, r))"
  by (rule steady_test) (simp_all split: option.splits)

lemma steady_header [steady_intros]: "steady k read_header_of_geometry"
  unfolding read_header_of_geometry_def
  by (intro steady_intros)

lemma steady_header_in [steady_intros]: "steady k (read_header_in bases within)"
proof -
  have "steady k (then_read read_header_of_geometry (\<lambda>h s.
       if wh_base h \<notin> set bases then (Inl (Wkb_Member (wh_base h) within at), s) else (Inr h, s)))" for at
    by (rule steady_then, rule steady_header, rule steady_test) simp_all
  then show ?thesis by (simp add: steady_def read_header_in_def)
qed

lemma steady_coords [steady_intros]: "steady k (read_coords h)"
  unfolding read_coords_def read_position_def by (intro steady_intros)

lemma steady_point [steady_intros]: "steady k (read_point h)"
  unfolding read_point_def read_position_def by (intro steady_intros)

lemma steady_polygon [steady_intros]: "steady k (read_polygon h)"
  unfolding read_polygon_def by (intro steady_intros)

lemma steady_compound [steady_intros]: "steady k (read_compound h)"
  unfolding read_compound_def read_part_def by (intro steady_intros)

lemma steady_curve [steady_intros]: "steady k (read_curve within)"
  unfolding read_curve_def by (intro steady_intros)

lemma steady_curve_polygon [steady_intros]: "steady k (read_curve_polygon h)"
  unfolding read_curve_polygon_def by (intro steady_intros)

lemma steady_surface [steady_intros]: "steady k read_surface"
  unfolding read_surface_def by (intro steady_intros)

lemma steady_member [steady_intros]: "(\<And>h. steady k (f h)) \<Longrightarrow> steady k (read_member base within f)"
  unfolding read_member_def by (intro steady_intros)

lemma steady_members [steady_intros]: "steady k p \<Longrightarrow> steady k (read_members h p)"
  unfolding read_members_def by (intro steady_intros)

lemma steady_body [steady_intros]: "steady k rec \<Longrightarrow> steady k (read_body rec h)"
  unfolding read_body_def by (intro steady_intros)

lemma take_consumes: "take_bytes n r = (Inr x, s) \<Longrightarrow> bytes_left s + n = bytes_left r"
  by (auto simp: take_bytes_def bytes_left_def split: if_splits)

lemma byte_order_consumes: "read_byte_order r = (Inr l, s) \<Longrightarrow> bytes_left s + 1 = bytes_left r"
  by (auto simp: read_byte_order_def then_read_def and_then_Inr split: if_splits dest!: take_consumes)

lemma header_consumes:
  assumes "read_header_of_geometry r = (Inr h, s)" "rd_at r \<le> length (rd_bytes r)"
  shows "bytes_left s < bytes_left r"
proof -
  obtain l s1 where p: "read_byte_order r = (Inr l, s1)"
    using assms(1) by (auto simp: read_header_of_geometry_def then_read_def and_then_Inr)
  note d = steadyD [OF steady_byte_order assms(2) order.refl p]
  let ?q = "then_read (read_u32 l) (\<lambda>code.
     then_read (if code AND EWKB_SRID \<noteq> 0 then map_read (\<lambda>_. ()) (read_u32 l) else pure_read ())
       (\<lambda>_ r. case decode_type l code of None \<Rightarrow> (Inl (Wkb_Type code), r) | Some h \<Rightarrow> (Inr h, r)))"
  have q: "?q s1 = (Inr h, s)"
    using assms(1) p by (simp add: read_header_of_geometry_def then_read_def)
  have "steady k ?q" for k
    by (intro steady_intros)
  from steadyD(5) [OF this d(4) order.refl q] byte_order_consumes [OF p] show ?thesis by simp
qed

lemma steady_geometry: "k < n \<Longrightarrow> steady k (read_geometry n)"
proof (induction n arbitrary: k)
  case (Suc n)
  show ?case
    unfolding read_geometry.simps
  proof (rule steady_then_on)
    fix r h s
    assume "rd_at r \<le> length (rd_bytes r)" "bytes_left r \<le> k" "read_header_of_geometry r = (Inr h, s)"
    then have "bytes_left s < k" using header_consumes by fastforce
    moreover then have "steady (k - 1) (read_body (read_geometry n) h)"
      using Suc.prems by (intro steady_body Suc.IH) simp
    ultimately show "\<exists>j. steady j (read_body (read_geometry n) h) \<and> bytes_left s \<le> j"
      by (intro exI [of _ "k - 1"]) simp
  qed (rule steady_header)
qed simp


subsection \<open>Bytes that follow do not matter\<close>

text \<open>What \<open>p\<close> reads at the end of the bytes, \<open>q\<close> reads when more bytes follow.\<close>

definition extends :: "'a reads \<Rightarrow> 'a reads \<Rightarrow> bool" where
  "extends p q \<longleftrightarrow>
     (\<forall>bs at v s. p \<lparr>rd_bytes = bs, rd_at = at\<rparr> = (Inr v, s) \<longrightarrow>
        rd_bytes s = bs \<and>
        (\<forall>ys. q \<lparr>rd_bytes = bs @ ys, rd_at = at\<rparr> = (Inr v, \<lparr>rd_bytes = bs @ ys, rd_at = rd_at s\<rparr>)))"

lemma extendsI:
  "(\<And>bs at v s ys. p \<lparr>rd_bytes = bs, rd_at = at\<rparr> = (Inr v, s) \<Longrightarrow>
      rd_bytes s = bs \<and> q \<lparr>rd_bytes = bs @ ys, rd_at = at\<rparr> = (Inr v, \<lparr>rd_bytes = bs @ ys, rd_at = rd_at s\<rparr>))
    \<Longrightarrow> extends p q"
  by (simp add: extends_def)

lemma extendsD:
  assumes "extends p q" "p \<lparr>rd_bytes = bs, rd_at = at\<rparr> = (Inr v, s)"
  shows "s = \<lparr>rd_bytes = bs, rd_at = rd_at s\<rparr>"
    "q \<lparr>rd_bytes = bs @ ys, rd_at = at\<rparr> = (Inr v, \<lparr>rd_bytes = bs @ ys, rd_at = rd_at s\<rparr>)"
  using assms by (simp_all add: extends_def)

lemma extends_then [extends_intros]:
  assumes "extends p q" "\<And>x. extends (f x) (g x)"
  shows "extends (then_read p f) (then_read q g)"
proof (rule extendsI)
  fix bs at v s ys assume "then_read p f \<lparr>rd_bytes = bs, rd_at = at\<rparr> = (Inr v, s)"
  then obtain x t where p: "p \<lparr>rd_bytes = bs, rd_at = at\<rparr> = (Inr x, t)" and f: "f x t = (Inr v, s)"
    by (auto simp: then_read_def and_then_Inr)
  note t = extendsD [OF assms(1) p]
  from f have "f x \<lparr>rd_bytes = bs, rd_at = rd_at t\<rparr> = (Inr v, s)" by (subst (asm) t(1))
  from extendsD(1) [OF assms(2) this] extendsD(2) [OF assms(2) this, of ys] t(2) [of ys]
  show "rd_bytes s = bs \<and> then_read q g \<lparr>rd_bytes = bs @ ys, rd_at = at\<rparr> = (Inr v, \<lparr>rd_bytes = bs @ ys, rd_at = rd_at s\<rparr>)"
    by (metis and_then_simps(2) reader.select_convs(1) then_read_def)
qed

lemma extends_pure [extends_intros]: "extends (pure_read x) (pure_read x)"
  by (auto simp: extends_def pure_read_def)

lemma extends_map [extends_intros]: "extends p q \<Longrightarrow> extends (map_read f p) (map_read f q)"
  unfolding map_read_def by (intro extends_intros)

lemma extends_if [extends_intros]:
  "extends p p' \<Longrightarrow> extends q q' \<Longrightarrow> extends (if b then p else q) (if b then p' else q')"
  by simp

lemma extends_repeat [extends_intros]: "extends p q \<Longrightarrow> extends (repeat_read n p) (repeat_read n q)"
  by (induction n) (auto intro: extends_intros)

lemma extends_rings [extends_intros]: "extends p q \<Longrightarrow> extends (read_rings n p) (read_rings n q)"
  unfolding read_rings_repeat by (intro extends_intros)

lemma extends_take [extends_intros]: "extends (take_bytes n) (take_bytes n)"
  by (rule extendsI) (auto simp: take_bytes_def slice_append_left split: if_splits)

lemma extends_u32 [extends_intros]: "extends (read_u32 l) (read_u32 l)"
  unfolding read_u32_def by (intro extends_intros)

lemma extends_f64 [extends_intros]: "extends (read_f64 l) (read_f64 l)"
  unfolding read_f64_def by (intro extends_intros)

lemma extends_count [extends_intros]: "extends (read_count l m) (read_count l m)"
  unfolding read_count_def
  by (rule extends_then, rule extends_u32, rule extendsI) (auto simp: Let_def split: if_splits)

lemma extends_byte_order [extends_intros]: "extends read_byte_order read_byte_order"
  unfolding read_byte_order_def
  by (rule extends_then, rule extends_take, rule extendsI) (auto split: if_splits)

lemma extends_type [extends_intros]:
  "extends (\<lambda>r. case decode_type l code of None \<Rightarrow> (Inl (Wkb_Type code), r) | Some h \<Rightarrow> (Inr h, r))
     (\<lambda>r. case decode_type l code of None \<Rightarrow> (Inl (Wkb_Type code), r) | Some h \<Rightarrow> (Inr h, r))"
  by (rule extendsI) (auto split: option.splits)

lemma extends_header [extends_intros]: "extends read_header_of_geometry read_header_of_geometry"
  unfolding read_header_of_geometry_def by (intro extends_intros)

lemma extends_header_in [extends_intros]: "extends (read_header_in bases within) (read_header_in bases within)"
proof -
  have "extends (then_read read_header_of_geometry (\<lambda>h s.
       if wh_base h \<notin> set bases then (Inl (Wkb_Member (wh_base h) within at), s) else (Inr h, s)))
     (then_read read_header_of_geometry (\<lambda>h s.
       if wh_base h \<notin> set bases then (Inl (Wkb_Member (wh_base h) within at), s) else (Inr h, s)))" for at
    by (rule extends_then, rule extends_header, rule extendsI) (auto split: if_splits)
  note e = this
  show ?thesis
  proof (rule extendsI)
    fix bs at v s ys
    assume "read_header_in bases within \<lparr>rd_bytes = bs, rd_at = at\<rparr> = (Inr v, s)"
    then have "then_read read_header_of_geometry (\<lambda>h s.
        if wh_base h \<notin> set bases then (Inl (Wkb_Member (wh_base h) within at), s) else (Inr h, s))
        \<lparr>rd_bytes = bs, rd_at = at\<rparr> = (Inr v, s)"
      by (simp only: read_header_in_def reader.select_convs)
    note d = extendsD [OF e this]
    have "rd_bytes s = bs" using arg_cong [OF d(1), of rd_bytes] by simp
    moreover have "read_header_in bases within \<lparr>rd_bytes = bs @ ys, rd_at = at\<rparr> =
        (Inr v, \<lparr>rd_bytes = bs @ ys, rd_at = rd_at s\<rparr>)"
      by (simp only: read_header_in_def reader.select_convs d(2))
    ultimately show "rd_bytes s = bs \<and> read_header_in bases within \<lparr>rd_bytes = bs @ ys, rd_at = at\<rparr> =
        (Inr v, \<lparr>rd_bytes = bs @ ys, rd_at = rd_at s\<rparr>)" by simp
  qed
qed

lemma extends_coords [extends_intros]: "extends (read_coords h) (read_coords h)"
  unfolding read_coords_def read_position_def by (intro extends_intros)

lemma extends_point [extends_intros]: "extends (read_point h) (read_point h)"
  unfolding read_point_def read_position_def by (intro extends_intros)

lemma extends_polygon [extends_intros]: "extends (read_polygon h) (read_polygon h)"
  unfolding read_polygon_def by (intro extends_intros)

lemma extends_compound [extends_intros]: "extends (read_compound h) (read_compound h)"
  unfolding read_compound_def read_part_def by (intro extends_intros)

lemma extends_curve [extends_intros]: "extends (read_curve within) (read_curve within)"
  unfolding read_curve_def by (intro extends_intros)

lemma extends_curve_polygon [extends_intros]: "extends (read_curve_polygon h) (read_curve_polygon h)"
  unfolding read_curve_polygon_def by (intro extends_intros)

lemma extends_surface [extends_intros]: "extends read_surface read_surface"
  unfolding read_surface_def by (intro extends_intros)

lemma extends_member [extends_intros]:
  "(\<And>h. extends (f h) (f h)) \<Longrightarrow> extends (read_member base within f) (read_member base within f)"
  unfolding read_member_def by (intro extends_intros)

lemma extends_members [extends_intros]: "extends p q \<Longrightarrow> extends (read_members h p) (read_members h q)"
  unfolding read_members_def by (intro extends_intros)

lemma extends_body [extends_intros]: "extends rec rec' \<Longrightarrow> extends (read_body rec h) (read_body rec' h)"
  unfolding read_body_def by (intro extends_intros)

lemma extends_geometry: "n \<le> m \<Longrightarrow> extends (read_geometry n) (read_geometry m)"
proof (induction n arbitrary: m)
  case 0
  then show ?case by (simp add: extends_def)
next
  case (Suc n)
  then obtain k where "m = Suc k" "n \<le> k" by (cases m) simp_all
  then show ?case using Suc.IH [of k] by (auto intro: extends_intros)
qed

subsection \<open>Geometries that are read back as they are\<close>

definition exact_coords :: "dim \<Rightarrow> coords \<Rightarrow> bool" where
  "exact_coords d c \<longleftrightarrow> co_dim c = Some d \<and> coords_wf c"

definition exact_point :: "dim \<Rightarrow> point \<Rightarrow> bool" where
  "exact_point d p \<longleftrightarrow>
     (case pt_coord p of None \<Rightarrow> True | Some vs \<Rightarrow> length vs = dim_size d \<and> \<not> list_all is_nan vs)"

definition exact_line :: "dim \<Rightarrow> line_string \<Rightarrow> bool" where
  "exact_line d l \<longleftrightarrow> exact_coords d (ls_coords l)"

definition exact_arc :: "dim \<Rightarrow> circular_string \<Rightarrow> bool" where
  "exact_arc d a \<longleftrightarrow> exact_coords d (cs_coords a) \<and> cs_computed a = []"

definition exact_polygon :: "dim \<Rightarrow> polygon \<Rightarrow> bool" where
  "exact_polygon d p \<longleftrightarrow>
     list_all (exact_line d) (polygon_rings p) \<and> (pg_exterior p = None \<longrightarrow> pg_interiors p = [])"

fun exact_part :: "dim \<Rightarrow> curve_part \<Rightarrow> bool" where
  "exact_part d (Linear_Part l) = exact_line d l"
| "exact_part d (Circular_Part a) = exact_arc d a"

fun exact_curve :: "dim \<Rightarrow> curve \<Rightarrow> bool" where
  "exact_curve d (Linear l) = exact_line d l"
| "exact_curve d (Circular a) = exact_arc d a"
| "exact_curve d (Compound c) = list_all (exact_part d) (cc_parts c)"

definition exact_curve_polygon :: "dim \<Rightarrow> curve_polygon \<Rightarrow> bool" where
  "exact_curve_polygon d p \<longleftrightarrow>
     list_all (exact_curve d) (curve_polygon_rings p) \<and> (cp_exterior p = None \<longrightarrow> cp_interiors p = [])"

fun exact_surface :: "dim \<Rightarrow> surface \<Rightarrow> bool" where
  "exact_surface d (Polygon_Surface p) = exact_polygon d p"
| "exact_surface d (Curve_Polygon_Surface p) = exact_curve_polygon d p"

fun exact_geometry :: "dim \<Rightarrow> geometry \<Rightarrow> bool" where
  "exact_geometry d (G_Point p) = exact_point d p"
| "exact_geometry d (G_LineString l) = exact_line d l"
| "exact_geometry d (G_Polygon p) = exact_polygon d p"
| "exact_geometry d (G_MultiPoint ps) = list_all (exact_point d) ps"
| "exact_geometry d (G_MultiLineString ls) = list_all (exact_line d) ls"
| "exact_geometry d (G_MultiPolygon ps) = list_all (exact_polygon d) ps"
| "exact_geometry d (G_Collection gs) = list_all (exact_geometry d) gs"
| "exact_geometry d (G_CircularString a) = exact_arc d a"
| "exact_geometry d (G_CompoundCurve c) = list_all (exact_part d) (cc_parts c)"
| "exact_geometry d (G_CurvePolygon p) = exact_curve_polygon d p"
| "exact_geometry d (G_MultiCurve cs) = list_all (exact_curve d) cs"
| "exact_geometry d (G_MultiSurface ss) = list_all (exact_surface d) ss"

lemma norm_coords_exact: "exact_coords d c \<Longrightarrow> norm_coords d c = c"
proof -
  assume e: "exact_coords d c"
  then have s: "co_size c = dim_size d" and l: "length (co_values c) = co_len c * co_size c"
    by (simp_all add: exact_coords_def co_size_def coords_wf_def)
  have "map (fit (dim_size d)) (positions c) = positions c"
    by (intro map_idI fit_id) (simp add: positions_lengths s)
  then have "concat (map (fit (dim_size d)) (positions c)) = co_values c"
    by (simp add: concat_positions l)
  then show ?thesis using e by (simp add: norm_coords_def exact_coords_def)
qed

lemma is_nan_NAN: "is_nan F64_NAN"
  by (simp add: is_nan_def F64_NAN_def f64_magnitude_def)

lemma norm_point_exact: "exact_point d p \<Longrightarrow> norm_point d p = p"
  by (cases p, cases "pt_coord p")
    (auto simp: norm_point_def exact_point_def Let_def fit_def list_all_iff is_nan_NAN dim_size_def split: dim.splits)

lemma norm_line_exact: "exact_line d l \<Longrightarrow> norm_line d l = l"
  by (simp add: norm_line_def exact_line_def norm_coords_exact)

lemma norm_arc_exact: "exact_arc d a \<Longrightarrow> norm_arc d a = a"
  by (simp add: norm_arc_def exact_arc_def norm_coords_exact plain_arc_def)

lemma split_rings_exact:
  "(ex = None \<longrightarrow> is = []) \<Longrightarrow> split_rings ((case ex of None \<Rightarrow> [] | Some x \<Rightarrow> [x]) @ is) = (ex, is)"
  by (cases ex) (simp_all add: split_rings_def)

lemma norm_polygon_exact: "exact_polygon d p \<Longrightarrow> norm_polygon d p = p"
proof -
  assume e: "exact_polygon d p"
  then have "map (norm_line d) (polygon_rings p) = polygon_rings p"
    by (intro map_idI) (simp add: exact_polygon_def list_all_iff norm_line_exact)
  then show "norm_polygon d p = p"
    using e split_rings_exact [of "pg_exterior p" "pg_interiors p"]
    by (simp add: norm_polygon_def exact_polygon_def Let_def polygon_rings_def)
qed

lemma norm_parts_exact: "list_all (exact_part d) ps \<Longrightarrow> map (norm_part d) ps = ps"
proof (rule map_idI)
  fix p assume "list_all (exact_part d) ps" "p \<in> set ps"
  then show "norm_part d p = p"
    by (cases p) (auto simp: list_all_iff norm_line_exact norm_arc_exact)
qed

lemma norm_curve_exact: "exact_curve d c \<Longrightarrow> norm_curve d c = c"
  by (cases c) (simp_all add: norm_line_exact norm_arc_exact norm_parts_exact norm_compound_def)

lemma norm_curve_polygon_exact: "exact_curve_polygon d p \<Longrightarrow> norm_curve_polygon d p = p"
proof -
  assume e: "exact_curve_polygon d p"
  then have "map (norm_curve d) (curve_polygon_rings p) = curve_polygon_rings p"
    by (intro map_idI) (simp add: exact_curve_polygon_def list_all_iff norm_curve_exact)
  then show "norm_curve_polygon d p = p"
    using e split_rings_exact [of "cp_exterior p" "cp_interiors p"]
    by (simp add: norm_curve_polygon_def exact_curve_polygon_def Let_def curve_polygon_rings_def)
qed

lemma norm_surface_exact: "exact_surface d s \<Longrightarrow> norm_surface d s = s"
  by (cases s) (simp_all add: norm_polygon_exact norm_curve_polygon_exact)

lemma norm_geometry_exact: "exact_geometry d g \<Longrightarrow> norm_geometry d g = g"
  by (induction g)
    (auto simp: norm_point_exact norm_line_exact norm_polygon_exact norm_arc_exact norm_compound_def
      norm_parts_exact norm_curve_polygon_exact norm_curve_exact norm_surface_exact list_all_iff intro!: map_idI)

lemma write_wkb_geometry: "write_wkb g e [] = Some w \<Longrightarrow> write_geometry e (wkb_dim g) g = Some w"
  by (auto simp: write_wkb_def)

lemma read_wkb_then:
  assumes "write_wkb g e [] = Some w"
  shows "read_wkb (w @ rest) =
    (if rest = [] then Inr (norm_geometry (wkb_dim g) g) else Inl (Wkb_Trailing (length rest)))"
  using reads_written [OF write_wkb_geometry [OF assms], of rest] by (simp add: read_wkb_def)

text \<open>A collection of a compound curve with an arc and an empty point, in three dimensions.\<close>

definition wkb_sample :: geometry where
  "wkb_sample = G_Collection
     [G_CompoundCurve (Compound_Curve
        [Linear_Part (Line_String \<lparr>co_dim = Some Xyz, co_values = [1, 2, 3, 4, 5, 6]\<rparr>),
         Circular_Part \<lparr>cs_coords = \<lparr>co_dim = Some Xyz, co_values = [4, 5, 6, 7, 8, 9, 10, 11, 12]\<rparr>, cs_computed = []\<rparr>]),
      G_Point (Point None)]"

lemma wkb_sample_dim: "wkb_dim wkb_sample = Xyz"
  by (simp add: wkb_dim_def wkb_sample_def max_dim_def compound_dim_def non_empty_dim_def co_is_empty_def point_dim_def)

lemma wkb_sample_exact: "exact_geometry Xyz wkb_sample"
  by (simp add: wkb_sample_def exact_line_def exact_arc_def exact_coords_def coords_wf_def co_len_def co_size_def
      dim_size_def exact_point_def)

lemma wkb_sample_written: obtains w where "write_wkb wkb_sample e [] = Some w"
  unfolding write_wkb_def wkb_sample_dim unfolding wkb_sample_def
  by (simp add: with_header_def write_count_def write_point_def write_compound_def write_counted_def write_all_def
      write_line_string_def write_circular_string_def write_coords_def co_len_def co_size_def dim_size_def)

subsection \<open>Properties\<close>

text \<open>
  C4. Reading back what was written gives the geometry in the dimension it was written in: every
  type, part and position is there again, positions padded or cut to the dimension.
\<close>

theorem read_write_wkb:
  assumes "write_wkb g e [] = Some w"
  shows "read_wkb w = Inr (norm_geometry (wkb_dim g) g)"
  using read_wkb_then [OF assms, of "[]"] by simp

theorem read_write_wkb_witness:
  "\<exists>w. write_wkb (G_MultiPoint [Point (Some [1, 2, 3]), Point (Some [4, 5])]) Big [] = Some w \<and>
     read_wkb w = Inr (G_MultiPoint [Point (Some [1, 2, 3]), Point (Some [4, 5, F64_NAN])])"
proof -
  let ?g = "G_MultiPoint [Point (Some [1, 2, 3]), Point (Some [4, 5])]"
  have d: "wkb_dim ?g = Xyz" by (simp add: wkb_dim_def max_dim_def point_dim_def)
  obtain w where w: "write_wkb ?g Big [] = Some w"
    unfolding write_wkb_def d
    by (simp add: with_header_def write_count_def write_point_def write_counted_def write_all_def)
  from read_write_wkb [OF w] have "read_wkb w = Inr (G_MultiPoint [Point (Some [1, 2, 3]), Point (Some [4, 5, F64_NAN])])"
    unfolding d by (simp add: norm_point_def fit_def dim_size_def is_nan_def f64_magnitude_def F64_NAN_def)
  with w show ?thesis by blast
qed

text \<open>
  C36. A geometry of one dimension, of whole positions and without marks of computed positions, is
  read back exactly as it was written.
\<close>

theorem read_write_wkb_exact:
  assumes "exact_geometry (wkb_dim g) g" "write_wkb g e [] = Some w"
  shows "read_wkb w = Inr g"
  using read_wkb_then [OF assms(2), of "[]"] norm_geometry_exact [OF assms(1)] by simp

theorem read_write_wkb_exact_witness:
  "\<exists>w. write_wkb wkb_sample Little [] = Some w \<and> read_wkb w = Inr wkb_sample"
proof -
  obtain w where w: "write_wkb wkb_sample Little [] = Some w" by (rule wkb_sample_written)
  have "exact_geometry (wkb_dim wkb_sample) wkb_sample" by (simp add: wkb_sample_dim wkb_sample_exact)
  from read_write_wkb_exact [OF this w] w show ?thesis by blast
qed

text \<open>C32. What \<open>write_wkb\<close> appends is exactly as long as \<open>wkb_size\<close> says.\<close>

theorem wkb_size_exact:
  assumes "write_wkb g e out = Some w"
  shows "length w = length out + wkb_size g \<and> take (length out) w = out"
  using assms geometry_length by (auto simp: write_wkb_def wkb_size_def)

theorem wkb_size_exact_witness:
  "\<exists>w. write_wkb wkb_sample Big ''ab'' = Some w \<and> length w = 187"
proof -
  obtain u where "write_wkb wkb_sample Big [] = Some u" by (rule wkb_sample_written)
  then obtain w where w: "write_wkb wkb_sample Big ''ab'' = Some w" by (auto simp: write_wkb_def)
  from wkb_size_exact [OF this] have "length w = 2 + wkb_size wkb_sample" by simp
  also have "\<dots> = 187"
    unfolding wkb_size_def wkb_sample_dim unfolding wkb_sample_def
    by (simp add: size_compound_def size_coords_def HEADER_def COUNT_def co_len_def co_size_def dim_size_def)
  finally show ?thesis using w by blast
qed

text \<open>
  C35. The reader comes to a result for any bytes, well formed or not: the recursion through nested
  collections never runs out of fuel, since each level consumes a header.
\<close>

theorem read_wkb_terminates: "read_wkb bs \<noteq> Inl Wkb_Fuel"
proof -
  have "steady (length bs) (read_geometry (Suc (length bs)))" by (rule steady_geometry) simp
  then have "fst (read_geometry (Suc (length bs)) \<lparr>rd_bytes = bs, rd_at = 0\<rparr>) \<noteq> Inl Wkb_Fuel"
    by (simp add: steady_def bytes_left_def)
  then show ?thesis by (auto simp: read_wkb_def split: prod.splits sum.splits)
qed

text \<open>
  C20. The end of a geometry is where its bytes end: with more bytes after it the reader reports how
  many, and with any of its last bytes missing it fails, so no cut value is taken for a geometry.
\<close>

theorem wkb_framing:
  assumes "write_wkb g e [] = Some w"
  shows "(rest \<noteq> [] \<longrightarrow> read_wkb (w @ rest) = Inl (Wkb_Trailing (length rest))) \<and>
    (n < length w \<longrightarrow> (\<exists>err. read_wkb (take n w) = Inl err))"
proof (intro conjI impI)
  assume "rest \<noteq> []"
  then show "read_wkb (w @ rest) = Inl (Wkb_Trailing (length rest))"
    using read_wkb_then [OF assms, of rest] by simp
next
  assume n: "n < length w"
  let ?bs = "take n w"
  show "\<exists>err. read_wkb ?bs = Inl err"
  proof (rule ccontr)
    assume "\<nexists>err. read_wkb ?bs = Inl err"
    then obtain v where "read_wkb ?bs = Inr v" by (cases "read_wkb ?bs") auto
    then obtain s where s: "read_geometry (Suc (length ?bs)) \<lparr>rd_bytes = ?bs, rd_at = 0\<rparr> = (Inr v, s)"
      and at: "rd_at s = length ?bs"
      by (auto simp: read_wkb_def split: prod.splits sum.splits if_splits)
    have "extends (read_geometry (Suc (length ?bs))) (read_geometry (Suc (length w)))"
      by (rule extends_geometry) simp
    from extendsD(2) [OF this s, of "drop n w"]
    have "read_geometry (Suc (length w)) \<lparr>rd_bytes = w, rd_at = 0\<rparr> = (Inr v, \<lparr>rd_bytes = w, rd_at = length ?bs\<rparr>)"
      using at by simp
    with reads_written [OF write_wkb_geometry [OF assms], of "[]"] n show False by simp
  qed
qed

theorem wkb_framing_witness:
  "\<exists>w. write_wkb wkb_sample Little [] = Some w \<and> read_wkb (w @ ''ab'') = Inl (Wkb_Trailing 2) \<and>
     (\<exists>err. read_wkb (take 100 w) = Inl err)"
proof -
  obtain w where w: "write_wkb wkb_sample Little [] = Some w" by (rule wkb_sample_written)
  have "length w = 185"
    using geometry_length [OF write_wkb_geometry [OF w]]
    unfolding wkb_sample_dim unfolding wkb_sample_def
    by (simp add: size_compound_def size_coords_def HEADER_def COUNT_def co_len_def co_size_def dim_size_def)
  with wkb_framing [OF w, of "''ab''" 100] w show ?thesis by auto
qed

end
