(* ===== verification/Value_Stats.thy ===== *)
theory Value_Stats
  imports Float64
begin

text \<open>
  Value statistics (\<open>crates/xeibe-schema/src/value.rs\<close>): the types a text value can be parsed as
  at three levels of losslessness, and their intersection over a column. A \<open>TypeSet\<close> is its 16
  bits; an \<open>i64\<close>, \<open>i32\<close> or \<open>i16\<close> is an \<open>int\<close> with the range checked where the code
  checks it, a \<open>u8\<close> is a \<open>nat\<close> saturated where the code saturates it, and the 64-bit count of
  values is a \<open>nat\<close>. The early returns with \<open>?\<close> on an \<open>Option\<close> are \<open>Option.bind\<close>.
\<close>

subsection \<open>Type sets\<close>

type_synonym type_set = "16 word"

definition TS_BOOL :: type_set where "TS_BOOL = 1"
definition TS_INT :: type_set where "TS_INT = 2"
definition TS_FLOAT :: type_set where "TS_FLOAT = 4"
definition TS_DATE :: type_set where "TS_DATE = 8"
definition TS_DATETIME :: type_set where "TS_DATETIME = 16"
definition TS_TIME :: type_set where "TS_TIME = 32"
definition TS_STRING :: type_set where "TS_STRING = 64"

definition TS_ALL :: type_set where
  "TS_ALL = TS_BOOL OR TS_INT OR TS_FLOAT OR TS_DATE OR TS_DATETIME OR TS_TIME OR TS_STRING"

lemmas type_set_defs =
  TS_BOOL_def TS_INT_def TS_FLOAT_def TS_DATE_def TS_DATETIME_def TS_TIME_def TS_STRING_def TS_ALL_def

record candidates =
  cd_exact_text :: type_set
  cd_exact_value :: type_set
  cd_lossy :: type_set

definition EXACT_FRACTION_DIGITS :: nat where "EXACT_FRACTION_DIGITS = 6"
definition MAX_DISTINCT_VALUE_LEN :: nat where "MAX_DISTINCT_VALUE_LEN = 1024"

record float_shape =
  fs_max_significant_digits :: nat
  fs_max_scale :: nat

record analysis =
  an_candidates :: candidates
  an_int :: "int option"
  an_float :: "float_shape option"
  an_temporal :: "(int option \<times> nat) option"

text \<open>\<open>|=\<close> on each level.\<close>

definition add_lossy :: "type_set \<Rightarrow> candidates \<Rightarrow> candidates" where
  "add_lossy t c = c\<lparr>cd_lossy := cd_lossy c OR t\<rparr>"

definition add_value :: "type_set \<Rightarrow> candidates \<Rightarrow> candidates" where
  "add_value t c = c\<lparr>cd_exact_value := cd_exact_value c OR t\<rparr>"

definition add_text :: "type_set \<Rightarrow> candidates \<Rightarrow> candidates" where
  "add_text t c = c\<lparr>cd_exact_text := cd_exact_text c OR t\<rparr>"

subsection \<open>Numbers\<close>

record number =
  nu_negative :: bool
  nu_int_digits :: bytes
  nu_frac_digits :: bytes
  nu_exponent :: int
  nu_has_exponent :: bool
  nu_has_point :: bool

definition all_digits :: "bytes \<Rightarrow> bool" where
  "all_digits s \<longleftrightarrow> list_all is_ascii_digit s"

text \<open>\<open>str::parse::<i32>\<close> and \<open>str::parse::<i64>\<close>: a sign, digits, and the range of the type.\<close>

definition parse_signed :: "nat \<Rightarrow> bytes \<Rightarrow> int option" where
  "parse_signed bits s =
     (let (neg, ds) = (case s of c # cs \<Rightarrow>
             if c = CHR ''-'' then (True, cs) else if c = CHR ''+'' then (False, cs) else (False, s)
           | [] \<Rightarrow> (False, []));
          v = (if neg then - int (digits_val ds) else int (digits_val ds))
      in if ds \<noteq> [] \<and> all_digits ds \<and> - (2 ^ (bits - 1)) \<le> v \<and> v < 2 ^ (bits - 1) then Some v else None)"

definition sign_of :: "bytes \<Rightarrow> bool \<times> bytes" where
  "sign_of value =
     (case value of c # cs \<Rightarrow>
        if c = CHR ''-'' then (True, cs) else if c = CHR ''+'' then (False, cs) else (False, value)
      | [] \<Rightarrow> (False, []))"

text \<open>\<open>rest.find(['e', 'E'])\<close> and the parts around it.\<close>

definition split_exponent :: "bytes \<Rightarrow> bytes \<times> bytes option" where
  "split_exponent s =
     (case first_index (\<lambda>c. c = CHR ''e'' \<or> c = CHR ''E'') s of
        Some i \<Rightarrow> (take i s, Some (drop (i + 1) s)) | None \<Rightarrow> (s, None))"

text \<open>The exponent as written: \<open>None\<close> if malformed or out of range.\<close>

definition exponent_value :: "bytes option \<Rightarrow> int option" where
  "exponent_value e =
     (case e of None \<Rightarrow> Some 0
      | Some e \<Rightarrow>
          (let u = (case e of c # cs \<Rightarrow> if c = CHR ''+'' \<or> c = CHR ''-'' then cs else e | [] \<Rightarrow> [])
           in if u = [] \<or> \<not> all_digits u then None else parse_signed 32 e))"

definition parse_number :: "bytes \<Rightarrow> number option" where
  "parse_number value =
     (if value = [] then None
      else
        let (negative, rest) = sign_of value;
            (mantissa, e) = split_exponent rest;
            (ints, fracs, point) = (case split_once CHR ''.'' mantissa of
                Some (i, f) \<Rightarrow> (i, f, True) | None \<Rightarrow> (mantissa, [], False))
        in if (ints = [] \<and> fracs = []) \<or> \<not> all_digits ints \<or> \<not> all_digits fracs then None
           else (case exponent_value e of None \<Rightarrow> None
             | Some x \<Rightarrow> Some \<lparr>nu_negative = negative, nu_int_digits = ints, nu_frac_digits = fracs,
                            nu_exponent = x, nu_has_exponent = (e \<noteq> None), nu_has_point = point\<rparr>))"

definition number_is_integer :: "number \<Rightarrow> bool" where
  "number_is_integer n \<longleftrightarrow> \<not> nu_has_exponent n \<and> \<not> nu_has_point n"

definition significant_digits :: "number \<Rightarrow> nat" where
  "significant_digits n =
     (let ds = nu_int_digits n @ nu_frac_digits n
      in min (length ds - length (takeWhile (\<lambda>b. b = CHR ''0'') ds)) 255)"

definition number_scale :: "number \<Rightarrow> nat" where
  "number_scale n = nat (min (max (int (length (nu_frac_digits n)) - nu_exponent n) 0) 255)"

record decimal =
  de_negative :: bool
  de_digits :: bytes
  de_exponent :: int

definition new_decimal :: "bool \<Rightarrow> bytes \<Rightarrow> int \<Rightarrow> decimal" where
  "new_decimal negative digits exponent =
     (let ds = trim_start_matches (\<lambda>c. c = CHR ''0'') digits;
          trimmed = trim_end_matches (\<lambda>c. c = CHR ''0'') ds
      in if trimmed = [] then \<lparr>de_negative = False, de_digits = [], de_exponent = 0\<rparr>
         else \<lparr>de_negative = negative, de_digits = trimmed,
               de_exponent = exponent + int (length ds - length trimmed)\<rparr>)"

definition number_decimal :: "number \<Rightarrow> decimal" where
  "number_decimal n =
     new_decimal (nu_negative n) (nu_int_digits n @ nu_frac_digits n)
       (nu_exponent n - int (length (nu_frac_digits n)))"

definition decimal_of_f64 :: "f64 \<Rightarrow> decimal" where
  "decimal_of_f64 value =
     (let text = show_f64_exp value;
          (mantissa, exponent) = (case split_once CHR ''e'' text of Some p \<Rightarrow> p | None \<Rightarrow> (text, ''0''));
          (negative, mantissa) = (case strip_prefix ''-'' mantissa of
              Some r \<Rightarrow> (True, r) | None \<Rightarrow> (False, mantissa));
          (i, f) = (case split_once CHR ''.'' mantissa of Some p \<Rightarrow> p | None \<Rightarrow> (mantissa, []));
          e = (case parse_signed 64 exponent of Some e \<Rightarrow> e | None \<Rightarrow> 0) - int (length f)
      in new_decimal negative (i @ f) e)"

text \<open>\<open>value.parse::<f64>()\<close> of a value that is a number in the sense of \<open>parse_number\<close>.\<close>

definition number_f64 :: "number \<Rightarrow> f64" where
  "number_f64 n =
     f64_of_decimal (nu_negative n) (digits_val (nu_int_digits n @ nu_frac_digits n))
       (nu_exponent n - int (length (nu_frac_digits n)))"

text \<open>An identifier such as \<open>0012\<close> is never a number.\<close>

definition leading_zero :: "number \<Rightarrow> bool" where
  "leading_zero n \<longleftrightarrow> 1 < length (nu_int_digits n) \<and> starts_with ''0'' (nu_int_digits n)"

definition analyze_integer :: "bytes \<Rightarrow> number \<Rightarrow> analysis \<Rightarrow> analysis" where
  "analyze_integer value n a =
     (if \<not> number_is_integer n then a
      else (case parse_signed 64 (trim_start_matches (\<lambda>c. c = CHR ''+'') value) of None \<Rightarrow> a
        | Some i \<Rightarrow>
            (let c1 = add_lossy TS_INT (an_candidates a);
                 c2 = (if leading_zero n then c1
                       else let c = add_value TS_INT c1 in
                            if show_int i = value then add_text TS_INT c else c)
             in a\<lparr>an_int := Some i, an_candidates := c2\<rparr>)))"

definition analyze_float :: "bytes \<Rightarrow> number \<Rightarrow> analysis \<Rightarrow> analysis" where
  "analyze_float value n a =
     (let f = number_f64 n in
      if \<not> is_finite f then a
      else
        let c1 = add_lossy TS_FLOAT (an_candidates a);
            c2 = (if \<not> leading_zero n \<and> number_decimal n = decimal_of_f64 f
                  then let c = add_value TS_FLOAT c1 in
                       if show_f64 f = value then add_text TS_FLOAT c else c
                  else c1)
        in a\<lparr>an_candidates := c2,
             an_float := Some \<lparr>fs_max_significant_digits = significant_digits n, fs_max_scale = number_scale n\<rparr>\<rparr>)"

definition analyze_number :: "bytes \<Rightarrow> number \<Rightarrow> analysis \<Rightarrow> analysis" where
  "analyze_number value n a = analyze_float value n (analyze_integer value n a)"

subsection \<open>Dates and times\<close>

datatype temporal_kind = T_Date | T_DateTime | T_Time

record temporal =
  te_kind :: temporal_kind
  te_tz :: "int option"
  te_fraction_digits :: nat
  te_fraction_trailing_zero :: bool

definition two_digits :: "bytes \<Rightarrow> nat option" where
  "two_digits s =
     (case s of a # b # _ \<Rightarrow>
        if is_ascii_digit a \<and> is_ascii_digit b then Some (digit_val a * 10 + digit_val b) else None
      | _ \<Rightarrow> None)"

definition days_in_month :: "int \<Rightarrow> nat \<Rightarrow> nat option" where
  "days_in_month year month =
     (let leap = (year mod 4 = 0 \<and> year mod 100 \<noteq> 0) \<or> year mod 400 = 0 in
      if month \<in> {1, 3, 5, 7, 8, 10, 12} then Some 31
      else if month \<in> {4, 6, 9, 11} then Some 30
      else if month = 2 then Some (if leap then 29 else 28) else None)"

text \<open>The early returns with \<open>?\<close>, on an \<open>Option\<close>.\<close>

definition parse_date :: "bytes \<Rightarrow> bytes option" where
  "parse_date value =
     (let unsigned = (case strip_prefix ''-'' value of Some r \<Rightarrow> r | None \<Rightarrow> value);
          year_len = length (takeWhile is_ascii_digit unsigned)
      in if year_len < 4 \<or> (4 < year_len \<and> starts_with ''0'' unsigned) \<or> 9 < year_len then None
         else
           Option.bind (strip_prefix ''-'' (drop year_len unsigned)) (\<lambda>rest.
           Option.bind (two_digits rest) (\<lambda>month.
           Option.bind (strip_prefix ''-'' (drop 2 rest)) (\<lambda>rest.
           Option.bind (two_digits rest) (\<lambda>day.
           Option.bind (days_in_month (int (digits_val (take year_len unsigned))) month) (\<lambda>days.
             if day = 0 \<or> days < day then None else Some (drop 2 rest)))))))"

definition parse_time :: "bytes \<Rightarrow> (bytes \<times> bytes) option" where
  "parse_time value =
     Option.bind (two_digits value) (\<lambda>hour.
     Option.bind (strip_prefix '':'' (drop 2 value)) (\<lambda>rest.
     Option.bind (two_digits rest) (\<lambda>minute.
     Option.bind (strip_prefix '':'' (drop 2 rest)) (\<lambda>rest.
     Option.bind (two_digits rest) (\<lambda>second.
       if 23 < hour \<or> 59 < minute \<or> 59 < second then None
       else (case strip_prefix ''.'' (drop 2 rest) of
           Some fraction \<Rightarrow>
             (let len = length (takeWhile is_ascii_digit fraction)
              in if len = 0 then None else Some (take len fraction, drop len fraction))
         | None \<Rightarrow> Some ([], drop 2 rest)))))))"

definition parse_tz :: "bytes \<Rightarrow> int option option" where
  "parse_tz value =
     (if value = [] then Some None
      else if value = ''Z'' then Some (Some 0)
      else
        Option.bind (if hd value = CHR ''+'' then Some (1 :: int)
                     else if hd value = CHR ''-'' then Some (- 1) else None) (\<lambda>sign.
        let rest = tl value in
        if length rest \<noteq> 5 \<or> rest ! 2 \<noteq> CHR '':'' then None
        else
          Option.bind (two_digits rest) (\<lambda>hours.
          Option.bind (two_digits (drop 3 rest)) (\<lambda>minutes.
            if 14 < hours \<or> 59 < minutes then None
            else Some (Some (sign * (int hours * 60 + int minutes)))))))"

definition temporal_with :: "temporal_kind \<Rightarrow> int option \<Rightarrow> bytes \<Rightarrow> temporal" where
  "temporal_with kind tz fraction =
     \<lparr>te_kind = kind, te_tz = tz, te_fraction_digits = min (length fraction) 255,
      te_fraction_trailing_zero = (strip_suffix ''0'' fraction \<noteq> None)\<rparr>"

definition parse_temporal :: "bytes \<Rightarrow> temporal option" where
  "parse_temporal value =
     (if 3 \<le> length value \<and> value ! 2 = CHR '':'' then
        Option.bind (parse_time value) (\<lambda>(fraction, rest).
        Option.bind (parse_tz rest) (\<lambda>tz. Some (temporal_with T_Time tz fraction)))
      else
        Option.bind (parse_date value) (\<lambda>rest.
        case strip_prefix ''T'' rest of
          Some time \<Rightarrow>
            Option.bind (parse_time time) (\<lambda>(fraction, rest).
            Option.bind (parse_tz rest) (\<lambda>tz. Some (temporal_with T_DateTime tz fraction)))
        | None \<Rightarrow> Option.bind (parse_tz rest) (\<lambda>tz. Some (temporal_with T_Date tz []))))"

definition analyze_temporal :: "temporal \<Rightarrow> analysis \<Rightarrow> analysis" where
  "analyze_temporal t a =
     (let exact = (te_fraction_digits t \<le> EXACT_FRACTION_DIGITS);
          c = an_candidates a
      in a\<lparr>an_temporal := Some (te_tz t, te_fraction_digits t),
           an_candidates := (case te_kind t of
               T_Date \<Rightarrow>
                 (let c = add_value TS_DATE (add_lossy (TS_DATE OR TS_DATETIME) c)
                  in if te_tz t = None then add_text TS_DATE c else c)
             | T_DateTime \<Rightarrow>
                 (let c = add_lossy TS_DATETIME c in
                  if exact then
                    (let c = add_value TS_DATETIME c
                     in if \<not> te_fraction_trailing_zero t then add_text TS_DATETIME c else c)
                  else c)
             | T_Time \<Rightarrow>
                 (let c = add_lossy TS_TIME c in
                  if exact then
                    (let c = add_value TS_TIME c
                     in if te_tz t = None \<and> \<not> te_fraction_trailing_zero t then add_text TS_TIME c else c)
                  else c))\<rparr>)"

subsection \<open>One value\<close>

definition analyze_bool :: "bytes \<Rightarrow> candidates \<Rightarrow> candidates" where
  "analyze_bool value c =
     (if value = ''true'' \<or> value = ''false'' then
        add_lossy TS_BOOL (add_value TS_BOOL (add_text TS_BOOL c))
      else if value = ''1'' \<or> value = ''0'' then add_lossy TS_BOOL c
      else if eq_ignore_ascii_case value ''true'' \<or> eq_ignore_ascii_case value ''false'' then
        add_lossy TS_BOOL c
      else c)"

definition start_candidates :: candidates where
  "start_candidates =
     \<lparr>cd_exact_text = TS_STRING, cd_exact_value = TS_STRING, cd_lossy = TS_STRING\<rparr>"

definition analyze :: "bytes \<Rightarrow> analysis" where
  "analyze value =
     (let a = \<lparr>an_candidates = analyze_bool value start_candidates, an_int = None, an_float = None,
               an_temporal = None\<rparr>
      in case parse_number value of
           Some n \<Rightarrow> analyze_number value n a
         | None \<Rightarrow> (case parse_temporal value of Some t \<Rightarrow> analyze_temporal t a | None \<Rightarrow> a))"

definition classify :: "bytes \<Rightarrow> candidates" where
  "classify value = an_candidates (analyze value)"

subsection \<open>Statistics\<close>

definition merge_float_shape :: "float_shape \<Rightarrow> float_shape \<Rightarrow> float_shape" where
  "merge_float_shape a b =
     \<lparr>fs_max_significant_digits = max (fs_max_significant_digits a) (fs_max_significant_digits b),
      fs_max_scale = max (fs_max_scale a) (fs_max_scale b)\<rparr>"

definition default_float_shape :: float_shape where
  "default_float_shape = \<lparr>fs_max_significant_digits = 0, fs_max_scale = 0\<rparr>"

datatype tz_shape = Tz_Absent | Tz_Fixed int | Tz_Mixed | Tz_Inconsistent

definition merge_tz :: "tz_shape \<Rightarrow> tz_shape \<Rightarrow> tz_shape" where
  "merge_tz a b =
     (if a = Tz_Inconsistent \<or> b = Tz_Inconsistent then Tz_Inconsistent
      else if a = Tz_Absent \<and> b = Tz_Absent then Tz_Absent
      else if a = Tz_Absent \<or> b = Tz_Absent then Tz_Inconsistent
      else (case (a, b) of (Tz_Fixed x, Tz_Fixed y) \<Rightarrow> if x = y then Tz_Fixed x else Tz_Mixed
            | _ \<Rightarrow> Tz_Mixed))"

record temporal_shape =
  ts_tz :: tz_shape
  ts_max_fraction_digits :: nat

definition merge_temporal :: "temporal_shape \<Rightarrow> temporal_shape \<Rightarrow> temporal_shape" where
  "merge_temporal a b =
     \<lparr>ts_tz = merge_tz (ts_tz a) (ts_tz b),
      ts_max_fraction_digits = max (ts_max_fraction_digits a) (ts_max_fraction_digits b)\<rparr>"

record bounded_set =
  bo_values :: "bytes list"
  bo_overflowed :: bool
  bo_capacity :: nat

definition bounded_overflow :: "bounded_set \<Rightarrow> bounded_set" where
  "bounded_overflow b = b\<lparr>bo_overflowed := True, bo_values := []\<rparr>"

definition bounded_insert :: "bytes \<Rightarrow> bounded_set \<Rightarrow> bounded_set" where
  "bounded_insert value b =
     (if bo_overflowed b \<or> value \<in> set (bo_values b) then b
      else if bo_capacity b \<le> length (bo_values b) \<or> MAX_DISTINCT_VALUE_LEN < length value
      then bounded_overflow b
      else b\<lparr>bo_values := bo_values b @ [value]\<rparr>)"

definition bounded_single :: "bounded_set \<Rightarrow> bytes option" where
  "bounded_single b =
     (case (bo_overflowed b, bo_values b) of (False, [value]) \<Rightarrow> Some value | _ \<Rightarrow> None)"

definition merge_bounded :: "bounded_set \<Rightarrow> bounded_set \<Rightarrow> bounded_set" where
  "merge_bounded a b =
     (let a1 = a\<lparr>bo_capacity := max (bo_capacity a) (bo_capacity b)\<rparr>;
          a2 = (if bo_overflowed b then bounded_overflow a1 else a1)
      in fold bounded_insert (bo_values b) a2)"

record value_stats =
  vs_count :: nat
  vs_exact_text :: type_set
  vs_exact_value :: type_set
  vs_lossy :: type_set
  vs_int_range :: "(int \<times> int) option"
  vs_float_shape :: "float_shape option"
  vs_temporal :: "temporal_shape option"
  vs_max_len :: nat
  vs_distinct :: bounded_set

definition DEFAULT_DISTINCT_VALUES :: nat where "DEFAULT_DISTINCT_VALUES = 64"

definition with_capacity :: "nat \<Rightarrow> value_stats" where
  "with_capacity n =
     \<lparr>vs_count = 0, vs_exact_text = TS_ALL, vs_exact_value = TS_ALL, vs_lossy = TS_ALL,
      vs_int_range = None, vs_float_shape = None, vs_temporal = None, vs_max_len = 0,
      vs_distinct = \<lparr>bo_values = [], bo_overflowed = False, bo_capacity = n\<rparr>\<rparr>"

definition default_stats :: value_stats where
  "default_stats = with_capacity DEFAULT_DISTINCT_VALUES"

text \<open>The two halves of \<open>observe\<close>: what every value updates, and what its analysis does.\<close>

definition observe_text :: "bytes \<Rightarrow> value_stats \<Rightarrow> value_stats" where
  "observe_text value s =
     s\<lparr>vs_count := vs_count s + 1,
       vs_max_len := max (vs_max_len s) (min (char_count value) (2 ^ 32 - 1)),
       vs_distinct := bounded_insert value (vs_distinct s)\<rparr>"

definition observe_analysis :: "analysis \<Rightarrow> value_stats \<Rightarrow> value_stats" where
  "observe_analysis a s =
     (let c = an_candidates a in
      s\<lparr>vs_exact_text := vs_exact_text s AND cd_exact_text c,
        vs_exact_value := vs_exact_value s AND cd_exact_value c,
        vs_lossy := vs_lossy s AND cd_lossy c,
        vs_int_range := (case an_int a of None \<Rightarrow> vs_int_range s
          | Some i \<Rightarrow> Some (case vs_int_range s of Some (lo, hi) \<Rightarrow> (min lo i, max hi i) | None \<Rightarrow> (i, i))),
        vs_float_shape := (case an_float a of None \<Rightarrow> vs_float_shape s
          | Some f \<Rightarrow> Some (merge_float_shape
              (case vs_float_shape s of Some g \<Rightarrow> g | None \<Rightarrow> default_float_shape) f)),
        vs_temporal := (case an_temporal a of None \<Rightarrow> vs_temporal s
          | Some (tz, fraction) \<Rightarrow>
              (let shape = \<lparr>ts_tz = (case tz of Some offset \<Rightarrow> Tz_Fixed offset | None \<Rightarrow> Tz_Absent),
                            ts_max_fraction_digits = fraction\<rparr>
               in Some (case vs_temporal s of Some t \<Rightarrow> merge_temporal t shape | None \<Rightarrow> shape)))\<rparr>)"

definition only_string :: "value_stats \<Rightarrow> bool" where
  "only_string s \<longleftrightarrow> (vs_exact_text s OR vs_exact_value s OR vs_lossy s) = TS_STRING"

definition observe :: "bytes \<Rightarrow> value_stats \<Rightarrow> value_stats" where
  "observe value s =
     (let s1 = observe_text value s
      in if only_string s1 then s1 else observe_analysis (analyze value) s1)"

datatype lossless = L_Text | L_Value | L_Lossy

definition stats_types :: "lossless \<Rightarrow> value_stats \<Rightarrow> type_set" where
  "stats_types l s = (case l of L_Text \<Rightarrow> vs_exact_text s | L_Value \<Rightarrow> vs_exact_value s | L_Lossy \<Rightarrow> vs_lossy s)"

text \<open>\<open>match (a, b) { (Some, Some) => merge, (a, b) => a.or(b) }\<close>.\<close>

definition merge_option :: "('a \<Rightarrow> 'a \<Rightarrow> 'a) \<Rightarrow> 'a option \<Rightarrow> 'a option \<Rightarrow> 'a option" where
  "merge_option m a b =
     (case (a, b) of (Some a, Some b) \<Rightarrow> Some (m a b) | (None, b) \<Rightarrow> b | (a, None) \<Rightarrow> a)"

lemma merge_option_simps [simp]:
  "merge_option m None b = b" "merge_option m a None = a" "merge_option m (Some x) (Some y) = Some (m x y)"
  by (simp_all add: merge_option_def split: option.splits)

definition merge_range :: "int \<times> int \<Rightarrow> int \<times> int \<Rightarrow> int \<times> int" where
  "merge_range r t = (min (fst r) (fst t), max (snd r) (snd t))"

definition merge_stats :: "value_stats \<Rightarrow> value_stats \<Rightarrow> value_stats" where
  "merge_stats a b =
     \<lparr>vs_count = vs_count a + vs_count b,
      vs_exact_text = vs_exact_text a AND vs_exact_text b,
      vs_exact_value = vs_exact_value a AND vs_exact_value b,
      vs_lossy = vs_lossy a AND vs_lossy b,
      vs_int_range = merge_option merge_range (vs_int_range a) (vs_int_range b),
      vs_float_shape = merge_option merge_float_shape (vs_float_shape a) (vs_float_shape b),
      vs_temporal = merge_option merge_temporal (vs_temporal a) (vs_temporal b),
      vs_max_len = max (vs_max_len a) (vs_max_len b),
      vs_distinct = merge_bounded (vs_distinct a) (vs_distinct b)\<rparr>"

end
