(* ===== verification/Value_Laws.thy ===== *)
theory Value_Laws
  imports Value_Stats
begin

text \<open>
  Laws of the value statistics. The interface \<open>statistics\<close> states what a scan relies on when it
  merges the statistics of chunks; the bounded set and the reference observation (without the
  shortcut for string columns) provide it, and the observation the code does agrees with the
  reference.
\<close>

subsection \<open>Type sets as sets\<close>

definition subtypes :: "type_set \<Rightarrow> type_set \<Rightarrow> bool" where
  "subtypes a b \<longleftrightarrow> a AND b = a"

lemma subtypes_iff: "subtypes a b \<longleftrightarrow> (\<forall>n. bit a n \<longrightarrow> bit b n)"
proof
  assume "subtypes a b"
  then have "a AND b = a" by (simp add: subtypes_def)
  then show "\<forall>n. bit a n \<longrightarrow> bit b n" by (metis bit_and_iff)
next
  assume "\<forall>n. bit a n \<longrightarrow> bit b n"
  then show "subtypes a b" unfolding subtypes_def by (intro bit_eqI) (auto simp: bit_and_iff)
qed

lemma subtypes_refl [simp]: "subtypes a a"
  by (simp add: subtypes_iff)

lemma subtypes_trans: "subtypes a b \<Longrightarrow> subtypes b c \<Longrightarrow> subtypes a c"
  by (simp add: subtypes_iff)

lemma subtypes_or [simp]: "subtypes (a OR b) c \<longleftrightarrow> subtypes a c \<and> subtypes b c"
  by (auto simp: subtypes_iff bit_simps)

lemma subtypes_or_right: "subtypes a b \<or> subtypes a c \<Longrightarrow> subtypes a (b OR c)"
  by (auto simp: subtypes_iff bit_simps)

lemma subtypes_and: "subtypes a b \<Longrightarrow> subtypes a c \<Longrightarrow> subtypes a (b AND c)"
  by (auto simp: subtypes_iff bit_simps)

lemma subtypes_and_left: "subtypes a c \<or> subtypes b c \<Longrightarrow> subtypes (a AND b) c"
  by (auto simp: subtypes_iff bit_simps)

lemma subtypes_antisym: "subtypes a b \<Longrightarrow> subtypes b a \<Longrightarrow> a = b"
  unfolding subtypes_def by (metis and.commute)

text \<open>
  The three levels: text that prints back is a value that survives, and a value that survives
  parses; string is always possible.
\<close>

definition nested :: "type_set \<Rightarrow> type_set \<Rightarrow> type_set \<Rightarrow> bool" where
  "nested text value lossy \<longleftrightarrow>
     subtypes TS_STRING text \<and> subtypes text value \<and> subtypes value lossy \<and> subtypes lossy TS_ALL"

definition cand_ok :: "candidates \<Rightarrow> bool" where
  "cand_ok c \<longleftrightarrow> nested (cd_exact_text c) (cd_exact_value c) (cd_lossy c)"

lemmas cand_defs = cand_ok_def nested_def add_lossy_def add_value_def add_text_def

lemma subtypes_ALL [simp]:
  "subtypes TS_BOOL TS_ALL" "subtypes TS_INT TS_ALL" "subtypes TS_FLOAT TS_ALL" "subtypes TS_DATE TS_ALL"
  "subtypes TS_DATETIME TS_ALL" "subtypes TS_TIME TS_ALL" "subtypes TS_STRING TS_ALL"
  by (simp_all add: subtypes_def type_set_defs)

lemma cand_lossy [intro]: "cand_ok c \<Longrightarrow> subtypes t TS_ALL \<Longrightarrow> cand_ok (add_lossy t c)"
  by (auto simp: cand_defs intro: subtypes_or_right)

lemma cand_value [intro]: "cand_ok c \<Longrightarrow> subtypes t (cd_lossy c) \<Longrightarrow> cand_ok (add_value t c)"
  by (auto simp: cand_defs intro: subtypes_or_right)

lemma cand_text [intro]: "cand_ok c \<Longrightarrow> subtypes t (cd_exact_value c) \<Longrightarrow> cand_ok (add_text t c)"
  by (auto simp: cand_defs intro: subtypes_or_right)

lemma cand_levels [simp]:
  "cd_lossy (add_lossy t c) = cd_lossy c OR t" "cd_exact_value (add_lossy t c) = cd_exact_value c"
  "cd_exact_text (add_lossy t c) = cd_exact_text c"
  "cd_lossy (add_value t c) = cd_lossy c" "cd_exact_value (add_value t c) = cd_exact_value c OR t"
  "cd_exact_text (add_value t c) = cd_exact_text c"
  "cd_lossy (add_text t c) = cd_lossy c" "cd_exact_value (add_text t c) = cd_exact_value c"
  "cd_exact_text (add_text t c) = cd_exact_text c OR t"
  by (simp_all add: add_lossy_def add_value_def add_text_def)

lemma cand_start [simp]: "cand_ok start_candidates"
  by (simp add: cand_ok_def nested_def start_candidates_def)

lemma cand_all_levels:
  "cand_ok c \<Longrightarrow> subtypes t TS_ALL \<Longrightarrow> cand_ok (add_lossy t (add_value t (add_text t c)))"
  by (auto simp: cand_defs intro: subtypes_or_right)

lemma cand_bool: "cand_ok c \<Longrightarrow> cand_ok (analyze_bool value c)"
  by (auto simp: analyze_bool_def intro: cand_all_levels)

lemma cand_integer: "cand_ok (an_candidates a) \<Longrightarrow> cand_ok (an_candidates (analyze_integer v n a))"
  by (auto simp: analyze_integer_def Let_def split: option.splits
      intro!: cand_text cand_value cand_lossy subtypes_or_right)

lemma cand_float: "cand_ok (an_candidates a) \<Longrightarrow> cand_ok (an_candidates (analyze_float v n a))"
  by (auto simp: analyze_float_def Let_def
      intro!: cand_text cand_value cand_lossy subtypes_or_right)

lemma cand_temporal: "cand_ok (an_candidates a) \<Longrightarrow> cand_ok (an_candidates (analyze_temporal t a))"
  by (auto simp: analyze_temporal_def Let_def split: temporal_kind.splits
      intro!: cand_text cand_value cand_lossy subtypes_or_right)

lemma cand_analyze: "cand_ok (an_candidates (analyze v))"
  by (auto simp: analyze_def analyze_number_def Let_def split: option.splits
      intro!: cand_integer cand_float cand_temporal cand_bool)

subsection \<open>Statistics that can be merged\<close>

text \<open>
  What a scan relies on when it merges the statistics of chunks: observing a value after a merge
  is observing it before. Then however a column is cut, the merged result is that of the whole.
\<close>

locale statistics =
  fixes ok :: "'s \<Rightarrow> bool"
    and empty :: 's
    and obs :: "'v \<Rightarrow> 's \<Rightarrow> 's"
    and mrg :: "'s \<Rightarrow> 's \<Rightarrow> 's"
  assumes ok_empty: "ok empty"
    and ok_obs: "ok s \<Longrightarrow> ok (obs v s)"
    and mrg_empty: "ok s \<Longrightarrow> mrg s empty = s"
    and mrg_obs: "ok s \<Longrightarrow> ok t \<Longrightarrow> mrg s (obs v t) = obs v (mrg s t)"
begin

lemma ok_fold: "ok s \<Longrightarrow> ok (fold obs vs s)"
  by (induction vs arbitrary: s) (simp_all add: ok_obs)

lemma mrg_fold: "ok s \<Longrightarrow> ok t \<Longrightarrow> mrg s (fold obs vs t) = fold obs vs (mrg s t)"
  by (induction vs arbitrary: t) (simp_all add: mrg_obs ok_obs)

lemma mrg_chunk: "ok s \<Longrightarrow> mrg s (fold obs vs empty) = fold obs vs s"
  by (simp add: mrg_fold ok_empty mrg_empty)

lemma mrg_chunks: "ok s \<Longrightarrow> fold (\<lambda>vs s. mrg s (fold obs vs empty)) vss s = fold obs (concat vss) s"
  by (induction vss arbitrary: s) (simp_all add: mrg_chunk ok_fold)

end

subsection \<open>The bounded set\<close>

definition empty_bounded :: "nat \<Rightarrow> bounded_set" where
  "empty_bounded n = \<lparr>bo_values = [], bo_overflowed = False, bo_capacity = n\<rparr>"

definition bounded_ok :: "nat \<Rightarrow> bounded_set \<Rightarrow> bool" where
  "bounded_ok n b \<longleftrightarrow> bo_capacity b = n \<and> distinct (bo_values b) \<and> length (bo_values b) \<le> n \<and>
     (\<forall>v \<in> set (bo_values b). length v \<le> MAX_DISTINCT_VALUE_LEN) \<and> (bo_overflowed b \<longrightarrow> bo_values b = [])"

lemma bounded_ok_insert: "bounded_ok n b \<Longrightarrow> bounded_ok n (bounded_insert v b)"
  by (auto simp: bounded_ok_def bounded_insert_def bounded_overflow_def)

lemma bounded_ok_fold: "bounded_ok n b \<Longrightarrow> bounded_ok n (fold bounded_insert vs b)"
  by (induction vs arbitrary: b) (simp_all add: bounded_ok_insert)

lemma bounded_insert_over: "bo_overflowed b \<Longrightarrow> bounded_insert v b = b"
  by (simp add: bounded_insert_def)

lemma fold_insert_over: "bo_overflowed b \<Longrightarrow> fold bounded_insert vs b = b"
  by (induction vs) (simp_all add: bounded_insert_over)

lemma insert_keeps: "v \<in> set (bo_values b) \<or> bo_overflowed b \<Longrightarrow>
    v \<in> set (bo_values (bounded_insert w b)) \<or> bo_overflowed (bounded_insert w b)"
  by (auto simp: bounded_insert_def bounded_overflow_def)

lemma insert_has: "v \<in> set (bo_values (bounded_insert v b)) \<or> bo_overflowed (bounded_insert v b)"
  by (auto simp: bounded_insert_def bounded_overflow_def)

lemma fold_keeps: "v \<in> set (bo_values b) \<or> bo_overflowed b \<Longrightarrow>
    v \<in> set (bo_values (fold bounded_insert vs b)) \<or> bo_overflowed (fold bounded_insert vs b)"
  by (induction vs arbitrary: b) (simp_all add: insert_keeps)

lemma fold_has: "v \<in> set vs \<Longrightarrow>
    v \<in> set (bo_values (fold bounded_insert vs b)) \<or> bo_overflowed (fold bounded_insert vs b)"
proof (induction vs arbitrary: b)
  case (Cons w vs)
  then show ?case using fold_keeps [OF insert_has [of v b], of vs] by (cases "v = w") auto
qed simp

lemma over_or_eq: "bounded_ok n a \<Longrightarrow> bounded_ok n b \<Longrightarrow> bo_overflowed a \<Longrightarrow> bo_overflowed b \<Longrightarrow> a = b"
  by (auto simp: bounded_ok_def)

lemma merge_bounded_same:
  assumes "bounded_ok n a" "bounded_ok n b"
  shows "merge_bounded a b = (if bo_overflowed b then bounded_overflow a else fold bounded_insert (bo_values b) a)"
  using assms by (auto simp: merge_bounded_def bounded_ok_def Let_def)

lemma bounded_ok_merge: "bounded_ok n a \<Longrightarrow> bounded_ok n b \<Longrightarrow> bounded_ok n (merge_bounded a b)"
  unfolding merge_bounded_same by (auto simp: bounded_ok_fold) (simp add: bounded_ok_def bounded_overflow_def)

lemma merge_bounded_insert:
  assumes a: "bounded_ok n a" and b: "bounded_ok n b"
  shows "merge_bounded a (bounded_insert v b) = bounded_insert v (merge_bounded a b)"
proof -
  note ab = merge_bounded_same [OF a b] and ok = bounded_ok_merge [OF a b]
  note ai = merge_bounded_same [OF a bounded_ok_insert [OF b]] and okI = bounded_ok_merge [OF a bounded_ok_insert [OF b]]
  consider (over) "bo_overflowed b" | (old) "\<not> bo_overflowed b" "v \<in> set (bo_values b)"
    | (full) "\<not> bo_overflowed b" "v \<notin> set (bo_values b)"
        "bo_capacity b \<le> length (bo_values b) \<or> MAX_DISTINCT_VALUE_LEN < length v"
    | (new) "\<not> bo_overflowed b" "v \<notin> set (bo_values b)"
        "\<not> (bo_capacity b \<le> length (bo_values b) \<or> MAX_DISTINCT_VALUE_LEN < length v)"
    by blast
  then show ?thesis
  proof cases
    case over
    then show ?thesis by (simp add: ab ai bounded_insert_def bounded_overflow_def)
  next
    case old
    then have "v \<in> set (bo_values (merge_bounded a b)) \<or> bo_overflowed (merge_bounded a b)"
      by (simp add: ab fold_has)
    moreover have "bounded_insert v b = b" using old by (simp add: bounded_insert_def)
    ultimately show ?thesis by (auto simp: bounded_insert_def)
  next
    case full
    let ?m = "merge_bounded a b"
    have "bo_overflowed (bounded_insert v b)" using full by (simp add: bounded_insert_def bounded_overflow_def)
    then have l: "bo_overflowed (merge_bounded a (bounded_insert v b))" by (simp add: ai bounded_overflow_def)
    have "bo_overflowed (bounded_insert v ?m)"
    proof (cases "bo_overflowed ?m")
      case True
      then show ?thesis by (simp add: bounded_insert_def)
    next
      case False
      have sub: "set (bo_values b) \<subseteq> set (bo_values ?m)"
      proof
        fix x assume "x \<in> set (bo_values b)"
        then show "x \<in> set (bo_values ?m)" using full(1) fold_has [of x "bo_values b" a] False by (simp add: ab)
      qed
      have card: "card (set (bo_values b)) = length (bo_values b)" "card (set (bo_values ?m)) \<le> n"
        using b ok by (simp_all add: bounded_ok_def distinct_card)
      have "v \<notin> set (bo_values ?m)"
      proof
        assume v: "v \<in> set (bo_values ?m)"
        then have "length v \<le> MAX_DISTINCT_VALUE_LEN" using ok by (simp add: bounded_ok_def)
        then have "n \<le> length (bo_values b)" using full(3) b by (simp add: bounded_ok_def)
        moreover have "card (insert v (set (bo_values b))) \<le> card (set (bo_values ?m))"
          using sub v by (intro card_mono) auto
        ultimately show False using card full(2) by simp
      qed
      moreover have "bo_capacity ?m \<le> length (bo_values ?m) \<or> MAX_DISTINCT_VALUE_LEN < length v"
      proof (cases "MAX_DISTINCT_VALUE_LEN < length v")
        case False
        then have "n \<le> length (bo_values b)" using full(3) b by (simp add: bounded_ok_def)
        also have "\<dots> \<le> card (set (bo_values ?m))" using card_mono [OF _ sub] card(1) by simp
        also have "\<dots> \<le> length (bo_values ?m)" by (rule card_length)
        finally show ?thesis using ok by (simp add: bounded_ok_def)
      qed simp
      ultimately show ?thesis by (auto simp: bounded_insert_def bounded_overflow_def)
    qed
    then show ?thesis using over_or_eq [OF okI bounded_ok_insert [OF ok] l] by simp
  next
    case new
    then have e: "bounded_insert v b = b\<lparr>bo_values := bo_values b @ [v]\<rparr>" by (simp add: bounded_insert_def)
    show ?thesis using new(1) ai [of v] unfolding e by (simp add: ab)
  qed
qed

interpretation bounded: statistics "bounded_ok n" "empty_bounded n" bounded_insert merge_bounded for n
proof unfold_locales
  show "bounded_ok n (empty_bounded n)" by (simp add: bounded_ok_def empty_bounded_def)
  show "merge_bounded s (empty_bounded n) = s" if "bounded_ok n s" for s
    using that by (simp add: merge_bounded_def empty_bounded_def Let_def bounded_ok_def)
qed (simp_all add: bounded_ok_insert merge_bounded_insert)

subsection \<open>Observing a column\<close>

text \<open>The reference: every value is analysed.\<close>

definition observe_all :: "bytes \<Rightarrow> value_stats \<Rightarrow> value_stats" where
  "observe_all v s = observe_analysis (analyze v) (observe_text v s)"

definition stats_ok :: "nat \<Rightarrow> value_stats \<Rightarrow> bool" where
  "stats_ok n s \<longleftrightarrow>
     nested (vs_exact_text s) (vs_exact_value s) (vs_lossy s) \<and> bounded_ok n (vs_distinct s)"

lemma nested_and:
  "nested a b c \<Longrightarrow> nested x y z \<Longrightarrow> nested (a AND x) (b AND y) (c AND z)"
  by (auto simp: nested_def subtypes_iff bit_simps)

lemma stats_ok_text: "stats_ok n s \<Longrightarrow> stats_ok n (observe_text v s)"
  by (simp add: stats_ok_def observe_text_def bounded_ok_insert)

lemma stats_ok_analysis: "stats_ok n s \<Longrightarrow> stats_ok n (observe_analysis (analyze v) s)"
  using cand_analyze [of v] by (simp add: stats_ok_def observe_analysis_def Let_def cand_ok_def nested_and)

lemma stats_ok_all: "stats_ok n s \<Longrightarrow> stats_ok n (observe_all v s)"
  by (simp add: observe_all_def stats_ok_text stats_ok_analysis)

lemma stats_ok_observe: "stats_ok n s \<Longrightarrow> stats_ok n (observe v s)"
  by (simp add: observe_def Let_def stats_ok_text stats_ok_analysis)

lemma stats_ok_empty: "stats_ok n (with_capacity n)"
  by (simp add: stats_ok_def with_capacity_def nested_def bounded_ok_def)

lemma stats_ok_merge: "stats_ok n s \<Longrightarrow> stats_ok n t \<Longrightarrow> stats_ok n (merge_stats s t)"
  by (simp add: stats_ok_def merge_stats_def nested_and bounded_ok_merge)

text \<open>The algebra of the parts.\<close>

lemma merge_float_assoc [merge_laws]:
  "merge_float_shape (merge_float_shape a b) c = merge_float_shape a (merge_float_shape b c)"
  by (simp add: merge_float_shape_def max.assoc)

lemma merge_float_default [merge_laws]: "merge_float_shape default_float_shape b = b"
  by (simp add: merge_float_shape_def default_float_shape_def)

lemma merge_tz_assoc [merge_laws]: "merge_tz (merge_tz a b) c = merge_tz a (merge_tz b c)"
  by (cases a; cases b; cases c) (auto simp: merge_tz_def)

lemma merge_tz_commute: "merge_tz a b = merge_tz b a"
  by (cases a; cases b) (auto simp: merge_tz_def)

lemma merge_temporal_assoc [merge_laws]:
  "merge_temporal (merge_temporal a b) c = merge_temporal a (merge_temporal b c)"
  by (simp add: merge_temporal_def merge_tz_assoc max.assoc)

lemma observe_range_merge:
  "merge_option merge_range r (Some (case t of Some (lo, hi) \<Rightarrow> (min lo i, max hi i) | None \<Rightarrow> (i, i))) =
     Some (case merge_option merge_range r t of Some (lo, hi) \<Rightarrow> (min lo i, max hi i) | None \<Rightarrow> (i, i))"
  by (cases r; cases t) (auto simp: merge_range_def min.assoc max.assoc)

lemma observe_float_merge:
  "merge_option merge_float_shape r (Some (merge_float_shape (case t of Some g \<Rightarrow> g | None \<Rightarrow> default_float_shape) f)) =
     Some (merge_float_shape (case merge_option merge_float_shape r t of Some g \<Rightarrow> g | None \<Rightarrow> default_float_shape) f)"
  by (cases r; cases t) (simp_all add: merge_laws)

lemma observe_temporal_merge:
  "merge_option merge_temporal r (Some (case t of Some t \<Rightarrow> merge_temporal t s | None \<Rightarrow> s)) =
     Some (case merge_option merge_temporal r t of Some t \<Rightarrow> merge_temporal t s | None \<Rightarrow> s)"
  by (cases r; cases t) (simp_all add: merge_laws)

lemma merge_observe_analysis:
  "merge_stats s (observe_analysis a t) = observe_analysis a (merge_stats s t)"
  by (auto simp: merge_stats_def observe_analysis_def Let_def and.assoc observe_range_merge observe_float_merge
      observe_temporal_merge split: option.splits)

lemma merge_observe_text:
  "bounded_ok n (vs_distinct s) \<Longrightarrow> bounded_ok n (vs_distinct t) \<Longrightarrow>
     merge_stats s (observe_text v t) = observe_text v (merge_stats s t)"
  by (simp add: merge_stats_def observe_text_def merge_bounded_insert max.assoc)

interpretation reference: statistics "stats_ok n" "with_capacity n" observe_all merge_stats for n
proof unfold_locales
  show "merge_stats s (with_capacity n) = s" if "stats_ok n s" for s
    using that bounded.mrg_empty [of n "vs_distinct s"]
    by (cases s) (auto simp: merge_stats_def with_capacity_def stats_ok_def nested_def empty_bounded_def
        subtypes_iff bit_eq_iff bit_simps)
  show "merge_stats s (observe_all v t) = observe_all v (merge_stats s t)" if "stats_ok n s" "stats_ok n t" for s t v
    using that by (simp add: observe_all_def merge_observe_analysis merge_observe_text [of n] stats_ok_def)
qed (simp_all add: stats_ok_empty stats_ok_all)

subsection \<open>The shortcut of observe\<close>

text \<open>
  Once only string is left \<open>observe\<close> analyses no more values. What it leaves then agrees with the
  reference in all but the ranges and shapes, which no type needs any more.
\<close>

definition agree :: "value_stats \<Rightarrow> value_stats \<Rightarrow> bool" where
  "agree s t \<longleftrightarrow>
     vs_count s = vs_count t \<and> vs_max_len s = vs_max_len t \<and> vs_distinct s = vs_distinct t \<and>
     vs_exact_text s = vs_exact_text t \<and> vs_exact_value s = vs_exact_value t \<and> vs_lossy s = vs_lossy t \<and>
     (\<not> only_string t \<longrightarrow> s = t)"

lemma agree_refl [simp]: "agree s s"
  by (simp add: agree_def)

lemma agree_only: "agree s t \<Longrightarrow> only_string s = only_string t"
  by (simp add: agree_def only_string_def)

lemma agree_sym: "agree s t \<Longrightarrow> agree t s"
  using agree_only [of s t] by (auto simp: agree_def)

lemma agree_trans: "agree s t \<Longrightarrow> agree t u \<Longrightarrow> agree s u"
  using agree_only [of t u] by (auto simp: agree_def)

lemma only_string_levels:
  assumes "nested (vs_exact_text s) (vs_exact_value s) (vs_lossy s)"
  shows "only_string s \<longleftrightarrow>
    vs_exact_text s = TS_STRING \<and> vs_exact_value s = TS_STRING \<and> vs_lossy s = TS_STRING"
proof
  assume "only_string s"
  then have e: "vs_exact_text s OR vs_exact_value s OR vs_lossy s = TS_STRING" by (simp add: only_string_def)
  have "subtypes x TS_STRING" if "x \<in> {vs_exact_text s, vs_exact_value s, vs_lossy s}" for x
    unfolding e [symmetric] using that by (auto simp: subtypes_iff bit_simps)
  then show "vs_exact_text s = TS_STRING \<and> vs_exact_value s = TS_STRING \<and> vs_lossy s = TS_STRING"
    using assms by (auto simp: nested_def intro!: subtypes_antisym intro: subtypes_trans)
qed (simp add: only_string_def)

lemma only_string_text: "only_string (observe_text v s) = only_string s"
  by (simp add: only_string_def observe_text_def)

lemma string_and:
  "subtypes TS_STRING c \<Longrightarrow> TS_STRING AND c = TS_STRING"
  by (simp add: subtypes_def)

lemma agree_observe:
  assumes ok: "stats_ok n t" and ag: "agree s t"
  shows "agree (observe v s) (observe_all v t)"
proof (cases "only_string t")
  case False
  then have "s = t" using ag by (simp add: agree_def)
  then have "observe v s = observe_all v t"
    using False by (simp add: observe_def observe_all_def only_string_text)
  then show ?thesis by simp
next
  case True
  have lev: "vs_exact_text t = TS_STRING" "vs_exact_value t = TS_STRING" "vs_lossy t = TS_STRING"
    using True only_string_levels ok by (auto simp: stats_ok_def)
  let ?a = "analyze v"
  have c: "subtypes TS_STRING (cd_exact_text (an_candidates ?a))"
    "subtypes TS_STRING (cd_exact_value (an_candidates ?a))" "subtypes TS_STRING (cd_lossy (an_candidates ?a))"
    using cand_analyze [of v] by (auto simp: cand_ok_def nested_def intro: subtypes_trans)
  have "observe v s = observe_text v s"
    using True agree_only [OF ag] by (simp add: observe_def only_string_text)
  moreover have "only_string (observe_all v t)"
    by (simp add: only_string_def observe_all_def observe_analysis_def observe_text_def Let_def lev string_and c)
  ultimately show ?thesis
    using ag lev by (simp add: agree_def observe_all_def observe_analysis_def observe_text_def Let_def string_and c)
qed

lemma agree_fold: "stats_ok n t \<Longrightarrow> agree s t \<Longrightarrow> agree (fold observe vs s) (fold observe_all vs t)"
  by (induction vs arbitrary: s t) (simp_all add: agree_observe stats_ok_all)

lemma only_string_merge:
  assumes "stats_ok n s" "stats_ok n t" "only_string s \<or> only_string t"
  shows "only_string (merge_stats s t)"
proof -
  have "subtypes TS_STRING (vs_exact_text u)" "subtypes TS_STRING (vs_exact_value u)" "subtypes TS_STRING (vs_lossy u)"
    if "stats_ok n u" for u
    using that by (auto simp: stats_ok_def nested_def intro: subtypes_trans)
  with assms only_string_levels [of s] only_string_levels [of t] show ?thesis
    by (auto simp: stats_ok_def only_string_def merge_stats_def string_and and.commute [of _ TS_STRING])
qed

lemma agree_merge:
  assumes "stats_ok n s'" "stats_ok n t'" "agree s s'" "agree t t'"
  shows "agree (merge_stats s t) (merge_stats s' t')"
proof (cases "only_string (merge_stats s' t')")
  case True
  then show ?thesis using assms by (simp add: agree_def merge_stats_def)
next
  case False
  then have "s = s'" "t = t'" using only_string_merge [OF assms(1,2)] assms(3,4) by (auto simp: agree_def)
  then show ?thesis by simp
qed

text \<open>A column scanned in chunks, each with its own statistics, merged in order.\<close>

definition scan_chunks :: "nat \<Rightarrow> bytes list list \<Rightarrow> value_stats" where
  "scan_chunks n vss = fold (\<lambda>vs s. merge_stats s (fold observe vs (with_capacity n))) vss (with_capacity n)"

lemma agree_chunks:
  assumes "stats_ok n t" "agree s t"
  shows "agree (fold (\<lambda>vs s. merge_stats s (fold observe vs (with_capacity n))) vss s)
    (fold (\<lambda>vs s. merge_stats s (fold observe_all vs (with_capacity n))) vss t)"
  using assms
proof (induction vss arbitrary: s t)
  case (Cons vs vss)
  have "agree (merge_stats s (fold observe vs (with_capacity n))) (merge_stats t (fold observe_all vs (with_capacity n)))"
    using Cons.prems by (intro agree_merge [of n] agree_fold [of n] reference.ok_fold stats_ok_empty agree_refl)
  then show ?case
    using Cons by (simp add: stats_ok_merge reference.ok_fold stats_ok_empty)
qed simp

lemma agree_scan: "agree (scan_chunks n vss) (fold observe (concat vss) (with_capacity n))"
proof -
  have "agree (scan_chunks n vss) (fold observe_all (concat vss) (with_capacity n))"
    using agree_chunks [OF stats_ok_empty agree_refl, of n vss] reference.mrg_chunks [OF stats_ok_empty, of n vss]
    by (simp add: scan_chunks_def)
  moreover have "agree (fold observe_all (concat vss) (with_capacity n)) (fold observe (concat vss) (with_capacity n))"
    by (rule agree_sym, rule agree_fold [OF stats_ok_empty agree_refl])
  ultimately show ?thesis by (rule agree_trans)
qed

end
