(* ===== verification/Value_Types.thy ===== *)
theory Value_Types
  imports Value_Laws
begin

text \<open>
  The properties of the value statistics: the levels of every value, the statistics of a column
  however it is cut into chunks, and which texts are integers, identifiers and dates.
\<close>

subsection \<open>Decimal text of integers\<close>

lemma digit_not_minus: "\<not> is_ascii_digit CHR ''-''"
  by (simp add: is_ascii_digit_def byte_val_def)

lemma digits_no_exponent: "all_digits s \<Longrightarrow> split_exponent s = (s, None)"
proof -
  assume "all_digits s"
  then have "first_index (\<lambda>c. c = CHR ''e'' \<or> c = CHR ''E'') s = None"
    unfolding first_index_None_iff by (auto simp: all_digits_def list_all_iff dest: digit_not)
  then show ?thesis by (simp add: split_exponent_def)
qed

lemma digits_no_point: "all_digits s \<Longrightarrow> split_once CHR ''.'' s = None"
  unfolding split_once_None_iff by (auto simp: all_digits_def list_all_iff dest: digit_not)

lemma digits_no_sign: "all_digits s \<Longrightarrow> s \<noteq> [] \<Longrightarrow> sign_of s = (False, s)"
  by (cases s) (auto simp: sign_of_def all_digits_def dest: digit_not)

text \<open>A sign and digits.\<close>

definition integer_number :: "bool \<Rightarrow> bytes \<Rightarrow> number" where
  "integer_number neg ds = \<lparr>nu_negative = neg, nu_int_digits = ds, nu_frac_digits = [], nu_exponent = 0,
     nu_has_exponent = False, nu_has_point = False\<rparr>"

lemma parse_integer:
  assumes "all_digits ds" "ds \<noteq> []"
  shows "parse_number ds = Some (integer_number False ds)"
    "parse_number (CHR ''-'' # ds) = Some (integer_number True ds)"
proof -
  have s: "sign_of (CHR ''-'' # ds) = (True, ds)" by (simp add: sign_of_def)
  show "parse_number ds = Some (integer_number False ds)"
    "parse_number (CHR ''-'' # ds) = Some (integer_number True ds)"
    using assms by (simp_all add: parse_number_def s digits_no_sign digits_no_exponent digits_no_point
        exponent_value_def integer_number_def Let_def all_digits_def)
qed

definition in_i64 :: "int \<Rightarrow> bool" where
  "in_i64 i \<longleftrightarrow> - (2 ^ 63) \<le> i \<and> i < 2 ^ 63"

lemma show_int_number:
  "parse_number (show_int i) = Some (integer_number (i < 0) (show_nat (nat \<bar>i\<bar>)))"
  using parse_integer [of "show_nat (nat \<bar>i\<bar>)"] show_nat_digits [of "nat \<bar>i\<bar>"]
  by (cases "i < 0") (simp_all add: show_int_def all_digits_def)

lemma show_int_head: "hd (show_int i) \<noteq> CHR ''+''" "show_int i \<noteq> []"
proof -
  have "hd (show_nat n) \<noteq> CHR ''+''" for n
    using show_nat_digits [of n] by (cases "show_nat n") (auto dest: digit_not)
  then show "hd (show_int i) \<noteq> CHR ''+''" "show_int i \<noteq> []"
    using show_nat_digits(2) by (simp_all add: show_int_def)
qed

lemma parse_show_int: "in_i64 i \<Longrightarrow> parse_signed 64 (show_int i) = Some i"
proof -
  assume i: "in_i64 i"
  let ?ds = "show_nat (nat \<bar>i\<bar>)"
  have d: "list_all is_ascii_digit ?ds" "?ds \<noteq> []" "digits_val ?ds = nat \<bar>i\<bar>"
    by (simp_all add: show_nat_digits digits_val_show_nat)
  show ?thesis
  proof (cases "i < 0")
    case True
    then show ?thesis using i d by (simp add: parse_signed_def show_int_def all_digits_def in_i64_def Let_def)
  next
    case False
    obtain c cs where c: "?ds = c # cs" using d(2) by (cases ?ds) auto
    then have "c \<noteq> CHR ''-''" "c \<noteq> CHR ''+''" using d(1) by (auto dest: digit_not)
    then show ?thesis using False i d c by (simp add: parse_signed_def show_int_def all_digits_def in_i64_def Let_def)
  qed
qed

lemma trim_show_int: "trim_start_matches (\<lambda>c. c = CHR ''+'') (show_int i) = show_int i"
  using show_int_head [of i] by (cases "show_int i") (simp_all add: trim_start_matches_def)

lemma show_int_no_leading_zero: "\<not> leading_zero (integer_number neg (show_nat n))"
  using show_nat_no_leading_zero [of n] show_nat_digits(2) [of n]
  by (cases "show_nat n") (auto simp: leading_zero_def integer_number_def starts_with_iff)

lemma integer_is_integer: "number_is_integer (integer_number neg ds)"
  by (simp add: number_is_integer_def integer_number_def)

lemma float_keeps:
  "an_int (analyze_float v n a) = an_int a"
  "subtypes t (cd_exact_text (an_candidates a)) \<Longrightarrow> subtypes t (cd_exact_text (an_candidates (analyze_float v n a)))"
  by (auto simp: analyze_float_def Let_def intro: subtypes_or_right)

lemma analyze_show_int:
  assumes "in_i64 i"
  shows "an_int (analyze (show_int i)) = Some i" "subtypes TS_INT (cd_exact_text (classify (show_int i)))"
  by (simp_all add: classify_def analyze_def show_int_number analyze_number_def analyze_integer_def
      integer_is_integer trim_show_int parse_show_int assms show_int_no_leading_zero float_keeps Let_def subtypes_or_right)

subsection \<open>Dates\<close>

definition two_text :: "nat \<Rightarrow> bytes" where
  "two_text n = [char_of (48 + n div 10), char_of (48 + n mod 10)]"

definition date_text :: "nat \<Rightarrow> nat \<Rightarrow> nat \<Rightarrow> bytes" where
  "date_text y m d = two_text (y div 100) @ two_text (y mod 100) @ ''-'' @ two_text m @ ''-'' @ two_text d"

lemma two_digits_text: "n < 100 \<Longrightarrow> two_digits (two_text n @ s) = Some n"
  by (simp add: two_digits_def two_text_def digit_char)

lemma two_text_digits: "n < 100 \<Longrightarrow> list_all is_ascii_digit (two_text n)"
  by (simp add: two_text_def digit_char)

lemma drop_two_text [simp]: "drop 2 (two_text n @ s) = s"
  by (simp add: two_text_def)

lemma length_two_text [simp]: "length (two_text n) = 2"
  by (simp add: two_text_def)

definition year_text :: "nat \<Rightarrow> bytes" where
  "year_text y = two_text (y div 100) @ two_text (y mod 100)"

lemma year_digits:
  assumes "y < 10000"
  shows "list_all is_ascii_digit (year_text y)" "length (year_text y) = 4" "digits_val (year_text y) = y"
proof -
  show "list_all is_ascii_digit (year_text y)" "length (year_text y) = 4"
    using assms by (simp_all add: year_text_def two_text_digits)
  have "y = 100 * (10 * (y div 100 div 10) + y div 100 mod 10) + (10 * (y mod 100 div 10) + y mod 100 mod 10)"
    by simp
  then show "digits_val (year_text y) = y"
    using assms by (simp add: year_text_def two_text_def digits_val_def digit_char del: mult_div_mod_eq div_mult_mod_eq)
qed

lemma date_text_year: "date_text y m d = year_text y @ CHR ''-'' # two_text m @ CHR ''-'' # two_text d"
  by (simp add: date_text_def year_text_def)

lemma takeWhile_digits: "list_all is_ascii_digit s \<Longrightarrow> takeWhile is_ascii_digit (s @ CHR ''-'' # t) = s"
  by (simp add: list_all_iff takeWhile_append digit_not_minus)

lemma parse_date_text:
  assumes "y < 10000" "m < 100" "d < 100"
  shows "parse_date (date_text y m d) =
    (case days_in_month (int y) m of None \<Rightarrow> None
     | Some days \<Rightarrow> if d = 0 \<or> days < d then None else Some [])"
proof -
  note yd = year_digits [OF assms(1)]
  obtain c cs where c: "year_text y = c # cs" using yd(2) by (cases "year_text y") auto
  then have "c \<noteq> CHR ''-''" using yd(1) by (auto dest: digit_not)
  then have s: "strip_prefix ''-'' (date_text y m d) = None" by (simp add: date_text_year c)
  have t: "takeWhile is_ascii_digit (date_text y m d) = year_text y"
    unfolding date_text_year by (rule takeWhile_digits [OF yd(1)])
  have dr: "drop 4 (date_text y m d) = CHR ''-'' # two_text m @ CHR ''-'' # two_text d"
    "take 4 (date_text y m d) = year_text y"
    by (simp_all add: date_text_year yd(2))
  have d2: "two_digits (two_text d) = Some d" "drop 2 (two_text d) = []"
    using two_digits_text [OF assms(3), of "[]"] drop_two_text [of d "[]"] by simp_all
  show ?thesis
    using two_digits_text [OF assms(2)]
    by (simp add: parse_date_def s t Let_def yd dr d2 split: option.splits)
qed

lemma date_not_number: 
  assumes "y < 10000"
  shows "parse_number (date_text y m d) = None"
proof -
  note yd = year_digits [OF assms(1)]
  obtain c cs where c: "year_text y = c # cs" using yd(2) by (cases "year_text y") auto
  then have "c \<noteq> CHR ''-''" "c \<noteq> CHR ''+''" using yd(1) by (auto dest: digit_not)
  then have s: "sign_of (date_text y m d) = (False, date_text y m d)" "date_text y m d \<noteq> []"
    by (simp_all add: date_text_year c sign_of_def)
  have p: "\<exists>rest. fst (split_exponent (date_text y m d)) = year_text y @ CHR ''-'' # rest"
  proof (cases "first_index (\<lambda>c. c = CHR ''e'' \<or> c = CHR ''E'') (date_text y m d)")
    case None
    then show ?thesis by (auto simp: split_exponent_def date_text_year)
  next
    case (Some i)
    have "4 < i"
    proof (rule ccontr)
      assume "\<not> 4 < i"
      then consider "i < 4" | "i = 4" by linarith
      then show False
      proof cases
        case 1
        then have "is_ascii_digit (date_text y m d ! i)"
          using yd(1,2) by (simp add: date_text_year nth_append list_all_length)
        then show False using Some digit_not(4,5) by (auto simp: first_index_Some_iff)
      next
        case 2
        then have "date_text y m d ! i = CHR ''-''" by (simp add: date_text_year nth_append yd(2))
        then show False using Some by (auto simp: first_index_Some_iff)
      qed
    qed
    then show ?thesis using Some yd(2) by (cases "i - 4") (auto simp: split_exponent_def date_text_year)
  qed
  then obtain rest e where e: "split_exponent (date_text y m d) = (year_text y @ CHR ''-'' # rest, e)"
    by (metis prod.collapse)
  have nd: "\<not> all_digits i" if "split_once CHR ''.'' (year_text y @ CHR ''-'' # rest) = Some (i, f)" for i f
  proof
    assume "all_digits i"
    from that have m: "year_text y @ CHR ''-'' # rest = i @ CHR ''.'' # f" by (simp add: split_once_Some_iff)
    have "4 < length i"
    proof (rule ccontr)
      assume "\<not> 4 < length i"
      then have "(i @ CHR ''.'' # f) ! length i \<in> set (year_text y) \<union> {CHR ''-''}"
        unfolding m [symmetric] using yd(2) by (cases "length i = 4") (auto simp: nth_append)
      then show False using yd(1) digit_not(3) by (auto simp: list_all_iff)
    qed
    then have "i ! 4 = CHR ''-''" using arg_cong [OF m, of "\<lambda>s. s ! 4"] yd(2) by (simp add: nth_append)
    then show False using \<open>all_digits i\<close> \<open>4 < length i\<close> digit_not_minus by (auto simp: all_digits_def list_all_length)
  qed
  have "\<not> all_digits (year_text y @ CHR ''-'' # rest)" by (simp add: all_digits_def digit_not_minus)
  then show ?thesis
    using nd by (auto simp: parse_number_def s e Let_def split: option.splits)
qed

lemma date_not_bool:
  assumes "y < 10000"
  shows "analyze_bool (date_text y m d) c = c"
proof -
  have "length (date_text y m d) = 10" by (simp add: date_text_year year_digits [OF assms])
  moreover then have "date_text y m d \<noteq> s" "\<not> eq_ignore_ascii_case (date_text y m d) s" if "length s \<le> 5" for s
    using that by (auto simp: eq_ignore_ascii_case_def lowercase_def dest: map_eq_imp_length_eq)
  ultimately show ?thesis by (simp add: analyze_bool_def)
qed

lemma classify_date_text:
  assumes "y < 10000" "m < 100" "d < 100"
  shows "subtypes TS_DATE (cd_exact_text (classify (date_text y m d))) \<longleftrightarrow>
    (\<exists>days. days_in_month (int y) m = Some days \<and> 1 \<le> d \<and> d \<le> days)"
proof -
  note yd = year_digits [OF assms(1)]
  have "date_text y m d ! 2 = year_text y ! 2" by (simp add: date_text_year nth_append yd(2))
  moreover have "is_ascii_digit (year_text y ! 2)" using yd(1,2) by (simp add: list_all_length)
  ultimately have c: "date_text y m d ! 2 \<noteq> CHR '':''" by (auto dest: digit_not)
  have s: "strip_prefix ''T'' ([] :: bytes) = None" "parse_tz [] = Some None" by (simp_all add: parse_tz_def)
  have n: "\<not> subtypes TS_DATE TS_STRING" "subtypes TS_DATE (TS_STRING OR TS_DATE)"
    by (simp_all add: subtypes_def type_set_defs)
  show ?thesis
    unfolding classify_def analyze_def Let_def date_not_number [OF assms(1)] date_not_bool [OF assms(1)] parse_temporal_def
      parse_date_text [OF assms] using c n
    by (auto simp: s temporal_with_def analyze_temporal_def start_candidates_def split: option.splits if_splits)
qed

subsection \<open>Properties\<close>

text \<open>
  C29. The three levels are nested for every value: text that is printed back identically is a value
  that survives, a value that survives parses, a string is always possible and no type is unknown.
\<close>

theorem classify_nested:
  "nested (cd_exact_text (classify v)) (cd_exact_value (classify v)) (cd_lossy (classify v))"
  using cand_analyze [of v] by (simp add: classify_def cand_ok_def)

text \<open>
  C30. The statistics of a column keep the levels nested and the distinct values bounded: without
  repetition, at most the capacity, none longer than 1024 bytes, none at all after an overflow.
\<close>

theorem column_invariant: "stats_ok n (fold observe vs (with_capacity n))"
proof -
  have "stats_ok n s \<Longrightarrow> stats_ok n (fold observe vs s)" for s
    by (induction vs arbitrary: s) (simp_all add: stats_ok_observe)
  then show ?thesis by (simp add: stats_ok_empty)
qed

text \<open>
  C14. A column scanned in chunks and merged has the count, the types, the longest value and the
  distinct values of the column scanned as a whole; and if any type but string is left, it has the
  same integer range, decimal shape and time zone too.
\<close>

theorem chunked_scan:
  assumes "s = scan_chunks n vss" "t = fold observe (concat vss) (with_capacity n)"
  shows "vs_count s = vs_count t \<and> vs_max_len s = vs_max_len t \<and> vs_distinct s = vs_distinct t \<and>
    (\<forall>l. stats_types l s = stats_types l t) \<and> (\<not> only_string t \<longrightarrow> s = t)"
  using agree_scan [of n vss] unfolding assms
  by (auto simp: agree_def stats_types_def split: lossless.splits)

theorem chunked_scan_witness:
  "vs_distinct (scan_chunks 2 [[''a''], [''b'', ''a''], [''c'']]) =
     vs_distinct (fold observe [''a'', ''b'', ''a'', ''c''] (with_capacity 2))"
  using chunked_scan [of "scan_chunks 2 [[''a''], [''b'', ''a''], [''c'']]" 2 "[[''a''], [''b'', ''a''], [''c'']]",
      OF refl refl] by simp

text \<open>The values in the order of their first appearance, after \<open>seen\<close>.\<close>

fun first_seen_values :: "bytes list \<Rightarrow> bytes list \<Rightarrow> bytes list" where
  "first_seen_values seen [] = seen"
| "first_seen_values seen (v # vs) =
     first_seen_values (if v \<in> set seen then seen else seen @ [v]) vs"

lemma first_seen_set: "set (first_seen_values seen vs) = set seen \<union> set vs"
  by (induction seen vs rule: first_seen_values.induct) auto

lemma first_seen_distinct: "distinct seen \<Longrightarrow> distinct (first_seen_values seen vs)"
  by (induction seen vs rule: first_seen_values.induct) auto

lemma first_seen_prefix: "length seen \<le> length (first_seen_values seen vs)"
  by (induction seen vs rule: first_seen_values.induct) (auto split: if_splits intro: order_trans)

lemma fold_insert_spec:
  assumes "bounded_ok n b" "\<not> bo_overflowed b"
  shows "fold bounded_insert vs b =
    (if length (first_seen_values (bo_values b) vs) \<le> n \<and> (\<forall>v \<in> set vs. length v \<le> MAX_DISTINCT_VALUE_LEN)
     then b\<lparr>bo_values := first_seen_values (bo_values b) vs\<rparr> else bounded_overflow b)"
  using assms
proof (induction vs arbitrary: b)
  case Nil
  then show ?case by (simp add: bounded_ok_def)
next
  case (Cons v vs)
  note ok = Cons.prems(1)
  have cap: "bo_capacity b = n" using ok by (simp add: bounded_ok_def)
  consider (old) "v \<in> set (bo_values b)"
    | (full) "v \<notin> set (bo_values b)" "n \<le> length (bo_values b) \<or> MAX_DISTINCT_VALUE_LEN < length v"
    | (new) "v \<notin> set (bo_values b)" "\<not> (n \<le> length (bo_values b) \<or> MAX_DISTINCT_VALUE_LEN < length v)"
    by blast
  then show ?case
  proof cases
    case old
    then have "length v \<le> MAX_DISTINCT_VALUE_LEN" using ok by (simp add: bounded_ok_def)
    then show ?thesis using old Cons.IH [OF Cons.prems] by (simp add: bounded_insert_def)
  next
    case full
    then have "fold bounded_insert (v # vs) b = bounded_overflow b"
      using Cons.prems(2) cap by (simp add: bounded_insert_def fold_insert_over bounded_overflow_def)
    moreover have "n \<le> length (bo_values b) \<Longrightarrow> n < length (first_seen_values (bo_values b) (v # vs))"
      using first_seen_prefix [of "bo_values b @ [v]" vs] full(1) by simp
    ultimately show ?thesis using full(2) by auto
  next
    case new
    let ?b = "b\<lparr>bo_values := bo_values b @ [v]\<rparr>"
    have i: "bounded_insert v b = ?b" using new Cons.prems(2) cap by (simp add: bounded_insert_def)
    have "bounded_ok n ?b" using bounded_ok_insert [OF ok, of v] i by simp
    from Cons.IH [OF this] show ?thesis using new Cons.prems(2) i by (auto simp: bounded_overflow_def)
  qed
qed

text \<open>
  C31. The distinct values of a column are its values in order of first appearance, as long as there
  are no more than the capacity and none is too long; otherwise only the overflow is remembered.
\<close>

theorem distinct_values:
  "vs_distinct (fold observe vs (with_capacity n)) =
     (if length (first_seen_values [] vs) \<le> n \<and> list_all (\<lambda>v. length v \<le> MAX_DISTINCT_VALUE_LEN) vs
      then \<lparr>bo_values = first_seen_values [] vs, bo_overflowed = False, bo_capacity = n\<rparr>
      else \<lparr>bo_values = [], bo_overflowed = True, bo_capacity = n\<rparr>)"
proof -
  have "vs_distinct (fold observe vs s) = fold bounded_insert vs (vs_distinct s)" for s
    by (induction vs arbitrary: s)
      (simp_all add: observe_def observe_text_def observe_analysis_def Let_def)
  moreover have "bounded_ok n (empty_bounded n)" "\<not> bo_overflowed (empty_bounded n)"
    by (simp_all add: bounded_ok_def empty_bounded_def)
  moreover have "vs_distinct (with_capacity n) = empty_bounded n"
    by (simp add: with_capacity_def empty_bounded_def)
  ultimately show ?thesis
    using fold_insert_spec [of n "empty_bounded n" vs]
    by (simp add: empty_bounded_def bounded_overflow_def list_all_iff)
qed

text \<open>
  C39. Every 64-bit integer written in decimal is an integer at every level, and its value is the one
  that goes into the range of the column.
\<close>

theorem integers_are_exact:
  assumes "in_i64 i"
  shows "an_int (analyze (show_int i)) = Some i \<and> subtypes TS_INT (cd_exact_text (classify (show_int i)))"
  using analyze_show_int [OF assms] by simp

theorem integers_are_exact_witness:
  "an_int (analyze (show_int (- 9223372036854775808))) = Some (- 9223372036854775808)"
  using integers_are_exact [of "- 9223372036854775808"] by (simp add: in_i64_def)

text \<open>
  A number written with a leading zero is an identifier: its type at the exact levels is string
  and nothing else, however many digits it has.
\<close>

theorem leading_zero_is_text:
  assumes "all_digits ds" "ds \<noteq> []"
  shows "cd_exact_text (classify (CHR ''0'' # ds)) = TS_STRING \<and>
    cd_exact_value (classify (CHR ''0'' # ds)) = TS_STRING"
proof -
  let ?v = "CHR ''0'' # ds"
  have "all_digits ?v" using assms(1) by (simp add: all_digits_def is_ascii_digit_def byte_val_def)
  then have p: "parse_number ?v = Some (integer_number False ?v)" by (rule parse_integer) simp
  have lz: "leading_zero (integer_number False ?v)"
    using assms(2) by (simp add: leading_zero_def integer_number_def starts_with_iff)
  have b: "cd_exact_text (analyze_bool ?v start_candidates) = TS_STRING \<and>
      cd_exact_value (analyze_bool ?v start_candidates) = TS_STRING"
    by (simp add: analyze_bool_def start_candidates_def)
  show ?thesis
    using b lz by (simp add: classify_def analyze_def p analyze_number_def analyze_float_def analyze_integer_def Let_def
        split: option.splits)
qed

theorem leading_zero_is_text_witness: "cd_exact_value (classify ''0012'') = TS_STRING"
  using leading_zero_is_text [of "''012''"] by (simp add: all_digits_def is_ascii_digit_def byte_val_def)

text \<open>
  A text of the form of a date is a date exactly if it is one: the month exists and the day is
  in it, 29 February only in a leap year of the Gregorian calendar.
\<close>

theorem dates_are_checked:
  assumes "y < 10000" "m < 100" "d < 100"
  shows "subtypes TS_DATE (cd_exact_text (classify (date_text y m d))) \<longleftrightarrow>
    (\<exists>days. days_in_month (int y) m = Some days \<and> 1 \<le> d \<and> d \<le> days)"
  by (rule classify_date_text [OF assms])

theorem dates_are_checked_witness:
  "subtypes TS_DATE (cd_exact_text (classify (date_text 2000 2 29))) \<and>
   \<not> subtypes TS_DATE (cd_exact_text (classify (date_text 1900 2 29)))"
  using dates_are_checked [of 2000 2 29] dates_are_checked [of 1900 2 29] by (simp add: days_in_month_def)

end
