(* ===== verification/Pattern.thy ===== *)
theory Pattern
  imports Xeibe_Prelude
begin

text \<open>
  Path patterns (\<open>crates/xeibe-schema/src/pattern.rs\<close>): parsing a pattern into steps, matching a
  path and the specificity that picks the winning override. A pattern and a name are the bytes of
  their UTF-8 form, over which \<open>wildcard\<close> runs in the code too. The messages of a pattern error
  are the constructors of \<open>pattern_error\<close>.
\<close>

subsection \<open>Steps\<close>

record path_pattern =
  pp_raw :: bytes

record pattern_step =
  st_attribute :: bool
  st_ns :: "bytes option"
  st_local :: bytes

definition parse_step :: "bytes \<Rightarrow> pattern_step option" where
  "parse_step step =
     (let (attribute, rest) = (case strip_prefix ''@'' step of
          Some r \<Rightarrow> (True, r) | None \<Rightarrow> (False, step))
      in case strip_prefix ''{'' rest of
           Some qualified \<Rightarrow>
             map_option (\<lambda>(ns, l). \<lparr>st_attribute = attribute, st_ns = Some ns, st_local = l\<rparr>)
               (split_once CHR ''}'' qualified)
         | None \<Rightarrow> Some \<lparr>st_attribute = attribute, st_ns = None, st_local = rest\<rparr>)"

text \<open>
  The loop of \<open>split_steps\<close>: the depth of braces and the step so far, reversed. \<open>None\<close> is a
  closing brace too many (\<open>checked_sub(1)?\<close>) or one too few at the end.
\<close>

fun split_loop :: "nat \<Rightarrow> bytes \<Rightarrow> bytes \<Rightarrow> bytes list option" where
  "split_loop d cur [] = (if d \<noteq> 0 then None else Some [rev cur])"
| "split_loop d cur (c # cs) =
     (if c = CHR ''{'' then split_loop (d + 1) (c # cur) cs
      else if c = CHR ''}'' then (if d = 0 then None else split_loop (d - 1) (c # cur) cs)
      else if c = CHR ''/'' \<and> d = 0 then map_option (\<lambda>steps. rev cur # steps) (split_loop d [] cs)
      else split_loop d (c # cur) cs)"

definition split_steps :: "bytes \<Rightarrow> bytes list option" where
  "split_steps raw = (if raw = [] then Some [] else split_loop 0 [] raw)"

subsection \<open>Parsing\<close>

datatype pattern_error = Unclosed_Brace | Empty_Pattern | Empty_Step | No_Local_Name | Unbalanced_Braces

definition check_step :: "bytes \<Rightarrow> pattern_error option" where
  "check_step step =
     (if step = [] then Some Empty_Step
      else if step = ''**'' then None
      else (case parse_step step of
          None \<Rightarrow> Some Unclosed_Brace
        | Some s \<Rightarrow>
            if st_local s = [] then Some No_Local_Name
            else if CHR ''{'' \<in> set (st_local s) \<or> CHR ''}'' \<in> set (st_local s) then Some Unbalanced_Braces
            else None))"

text \<open>The first step that is wrong decides.\<close>

fun check_steps :: "bytes list \<Rightarrow> pattern_error option" where
  "check_steps [] = None"
| "check_steps (s # ss) = (case check_step s of Some e \<Rightarrow> Some e | None \<Rightarrow> check_steps ss)"

definition parse_pattern :: "bytes \<Rightarrow> pattern_error + path_pattern" where
  "parse_pattern raw =
     (case split_steps raw of
        None \<Rightarrow> Inl Unclosed_Brace
      | Some steps \<Rightarrow>
          if steps = [] then Inl Empty_Pattern
          else (case check_steps steps of Some e \<Rightarrow> Inl e | None \<Rightarrow> Inr \<lparr>pp_raw = raw\<rparr>))"

subsection \<open>Matching\<close>

text \<open>
  The loop of \<open>wildcard\<close>: the positions in the pattern and the text, and where to go on after a
  mismatch. \<open>wild_inv\<close> is the invariant of the loop, on which its termination rests.
\<close>

definition wild_inv :: "nat \<Rightarrow> nat \<Rightarrow> (nat \<times> nat) option \<Rightarrow> bool" where
  "wild_inv p t bt = (case bt of None \<Rightarrow> True | Some (bp, b) \<Rightarrow> bp < p \<and> b \<le> t)"

function wildcard_loop :: "bytes \<Rightarrow> bytes \<Rightarrow> nat \<Rightarrow> nat \<Rightarrow> (nat \<times> nat) option \<Rightarrow> bool" where
  "wildcard_loop pat str p t bt =
     (if length str \<le> t then list_all (\<lambda>c. c = CHR ''*'') (drop p pat)
      else if p < length pat \<and> pat ! p = CHR ''*'' then wildcard_loop pat str (p + 1) t (Some (p, t))
      else if p < length pat \<and> (pat ! p = CHR ''?'' \<or> pat ! p = str ! t)
      then wildcard_loop pat str (p + 1) (t + 1) bt
      else (case bt of
          Some (bp, b) \<Rightarrow> wildcard_loop pat str (bp + 1) (b + 1) (Some (bp, b + 1))
        | None \<Rightarrow> False))"
  by pat_completeness auto
termination
  by (relation "measures
      [\<lambda>(pat, str, p, t, bt). if wild_inv p t bt then 0 else 1,
       \<lambda>(pat, str, p, t, bt). if wild_inv p t bt
          then length pat - (case bt of None \<Rightarrow> 0 | Some (bp, _) \<Rightarrow> bp + 1) else 0,
       \<lambda>(pat, str, p, t, bt). if wild_inv p t bt
          then length str - (case bt of None \<Rightarrow> 0 | Some (_, b) \<Rightarrow> b) else 0,
       \<lambda>(pat, str, p, t, bt). length str - t]")
    (auto simp: wild_inv_def split: option.splits)

declare wildcard_loop.simps [simp del]

definition wildcard :: "bytes \<Rightarrow> bytes \<Rightarrow> bool" where
  "wildcard pat str = wildcard_loop pat str 0 0 None"

definition match_step :: "bytes \<Rightarrow> bytes \<Rightarrow> bool" where
  "match_step pattern name =
     (case (parse_step pattern, parse_step name) of
        (Some p, Some n) \<Rightarrow>
          (if st_attribute p \<noteq> st_attribute n then False
           else if st_ns p \<noteq> None \<and> st_ns n \<noteq> st_ns p then False
           else wildcard (st_local p) (st_local n))
      | _ \<Rightarrow> False)"

fun match_steps :: "bytes list \<Rightarrow> bytes list \<Rightarrow> bool" where
  "match_steps [] names = (names = [])"
| "match_steps (s # rest) names =
     (if s = ''**'' then list_ex (\<lambda>skip. match_steps rest (drop skip names)) [0..<length names + 1]
      else (case names of n # ns \<Rightarrow> match_step s n \<and> match_steps rest ns | [] \<Rightarrow> False))"

definition pattern_matches :: "path_pattern \<Rightarrow> bytes \<Rightarrow> bytes list \<Rightarrow> bool" where
  "pattern_matches pat layer path =
     (case split_steps (pp_raw pat) of None \<Rightarrow> False | Some steps \<Rightarrow> match_steps steps (layer # path))"

definition step_specificity :: "bytes \<Rightarrow> nat" where
  "step_specificity step =
     (if step = ''**'' then 0
      else (case parse_step step of
          None \<Rightarrow> 0
        | Some s \<Rightarrow>
            (if st_local s = ''*'' then 2
             else if CHR ''*'' \<in> set (st_local s) \<or> CHR ''?'' \<in> set (st_local s) then 5 else 10)
            + (if st_ns s \<noteq> None then 2 else 0)))"

definition specificity :: "path_pattern \<Rightarrow> nat" where
  "specificity pat =
     (case split_steps (pp_raw pat) of None \<Rightarrow> 0 | Some steps \<Rightarrow> sum_list (map step_specificity steps))"

subsection \<open>Wildcards\<close>

text \<open>What a glob means, by recursion on the pattern.\<close>

fun glob :: "bytes \<Rightarrow> bytes \<Rightarrow> bool" where
  "glob [] s = (s = [])"
| "glob (c # p) s =
     (if c = CHR ''*'' then list_ex (\<lambda>k. glob p (drop k s)) [0..<length s + 1]
      else (case s of x # xs \<Rightarrow> (c = CHR ''?'' \<or> c = x) \<and> glob p xs | [] \<Rightarrow> False))"

lemma glob_star: "glob (CHR ''*'' # p) s \<longleftrightarrow> (\<exists>k \<le> length s. glob p (drop k s))"
  proof -
  have "list_ex P [0..<n + 1] \<longleftrightarrow> (\<exists>k \<le> n. P k)" for P n
    by (auto simp: list_ex_iff less_Suc_eq_le simp del: upt_Suc)
  then show ?thesis by (simp del: upt_Suc)
qed

lemma glob_nil: "glob p [] \<longleftrightarrow> list_all (\<lambda>c. c = CHR ''*'') p"
  by (induction p) auto

text \<open>A part of the pattern without \<open>*\<close> matches as many bytes as it has.\<close>

lemma glob_literal:
  assumes "CHR ''*'' \<notin> set seg" "glob (seg @ rest) s"
  shows "length seg \<le> length s \<and> glob rest (drop (length seg) s)"
  using assms by (induction seg arbitrary: s) (auto split: list.splits)

definition match_from :: "bytes \<Rightarrow> bytes \<Rightarrow> nat \<Rightarrow> nat \<Rightarrow> bool" where
  "match_from pat str p t \<longleftrightarrow> glob (drop p pat) (drop t str)"

text \<open>The invariant: what lies between the star to go back to and here has no star, and is as long.\<close>

definition wild_state :: "bytes \<Rightarrow> bytes \<Rightarrow> nat \<Rightarrow> nat \<Rightarrow> (nat \<times> nat) option \<Rightarrow> bool" where
  "wild_state pat str p t bt \<longleftrightarrow> t \<le> length str \<and> p \<le> length pat \<and>
     (case bt of None \<Rightarrow> True
      | Some (bp, b) \<Rightarrow> bp < p \<and> b \<le> t \<and> t - b = p - bp - 1 \<and> CHR ''*'' \<notin> set (slice (bp + 1) p pat))"

definition go_back :: "bytes \<Rightarrow> bytes \<Rightarrow> (nat \<times> nat) option \<Rightarrow> bool" where
  "go_back pat str bt \<longleftrightarrow>
     (case bt of None \<Rightarrow> False
      | Some (bp, b) \<Rightarrow> \<exists>k. b < k \<and> k \<le> length str \<and> match_from pat str (bp + 1) k)"

lemma slice_split: "a \<le> p \<Longrightarrow> p \<le> length xs \<Longrightarrow> drop a xs = slice a p xs @ drop p xs"
  unfolding slice_def by (metis append_take_drop_id drop_drop le_add_diff_inverse2)

lemma slice_Suc: "a \<le> p \<Longrightarrow> p < length xs \<Longrightarrow> slice a (p + 1) xs = slice a p xs @ [xs ! p]"
  by (simp add: slice_def Suc_diff_le take_Suc_conv_app_nth)

lemma go_back_literal:
  assumes "wild_state pat str p t (Some (bp, b))" "b < k" "k \<le> length str" "match_from pat str (bp + 1) k"
  shows "k + (t - b) \<le> length str \<and> match_from pat str p (k + (t - b))"
proof -
  let ?seg = "slice (bp + 1) p pat"
  have d: "drop (bp + 1) pat = ?seg @ drop p pat" "length ?seg = t - b" "CHR ''*'' \<notin> set ?seg"
    using assms(1) slice_split [of "bp + 1" p pat] by (auto simp: wild_state_def)
  have "glob (?seg @ drop p pat) (drop k str)" using assms(4) unfolding match_from_def d(1) .
  from glob_literal [OF d(3) this, unfolded d(2)] show ?thesis
    using assms(3) by (auto simp: match_from_def add.commute le_diff_conv2)
qed

lemma wildcard_loop_glob:
  "wild_state pat str p t bt \<Longrightarrow>
     wildcard_loop pat str p t bt \<longleftrightarrow> match_from pat str p t \<or> go_back pat str bt"
proof (induction pat str p t bt rule: wildcard_loop.induct)
  case (1 pat str p t bt)
  note st = 1(4)
  have len: "t \<le> length str" "p \<le> length pat" using st by (auto simp: wild_state_def)
  consider (fin) "length str \<le> t"
    | (star) "t < length str" "p < length pat" "pat ! p = CHR ''*''"
    | (eq) "t < length str" "p < length pat" "pat ! p \<noteq> CHR ''*''" "pat ! p = CHR ''?'' \<or> pat ! p = str ! t"
    | (ne) "t < length str" "\<not> (p < length pat \<and> pat ! p = CHR ''*'')"
        "\<not> (p < length pat \<and> (pat ! p = CHR ''?'' \<or> pat ! p = str ! t))"
    by linarith
  then show ?case
  proof cases
    case fin
    have "\<not> go_back pat str bt"
    proof
      assume "go_back pat str bt"
      then obtain bp b k where bt: "bt = Some (bp, b)" and k: "b < k" "k \<le> length str" "match_from pat str (bp + 1) k"
        by (auto simp: go_back_def split: option.splits)
      from go_back_literal [OF st [unfolded bt] k] k fin st [unfolded bt] show False
        by (auto simp: wild_state_def)
    qed
    then show ?thesis using fin len by (subst wildcard_loop.simps) (simp add: match_from_def glob_nil)
  next
    case star
    have d: "drop p pat = CHR ''*'' # drop (p + 1) pat" using star by (metis Cons_nth_drop_Suc Suc_eq_plus1)
    have star_from: "match_from pat str p u \<longleftrightarrow> (\<exists>k. u \<le> k \<and> k \<le> length str \<and> match_from pat str (p + 1) k)"
      if "u \<le> length str" for u
    proof
      assume "match_from pat str p u"
      then obtain k where "k \<le> length str - u" "glob (drop (p + 1) pat) (drop (k + u) str)"
        unfolding match_from_def d glob_star by auto
      then show "\<exists>k. u \<le> k \<and> k \<le> length str \<and> match_from pat str (p + 1) k"
        using that by (intro exI [of _ "k + u"]) (auto simp: match_from_def)
    next
      assume "\<exists>k. u \<le> k \<and> k \<le> length str \<and> match_from pat str (p + 1) k"
      then obtain k where "u \<le> k" "k \<le> length str" "match_from pat str (p + 1) k" by blast
      then show "match_from pat str p u"
        unfolding match_from_def d glob_star by (intro exI [of _ "k - u"]) auto
    qed
    note here = star_from [OF len(1)]
    have bk: "go_back pat str bt \<Longrightarrow> match_from pat str p t"
    proof -
      assume "go_back pat str bt"
      then obtain bp b k where bt: "bt = Some (bp, b)" and k: "b < k" "k \<le> length str" "match_from pat str (bp + 1) k"
        by (auto simp: go_back_def split: option.splits)
      from go_back_literal [OF st [unfolded bt] k] obtain j where
        "k + (t - b) \<le> j" "j \<le> length str" "match_from pat str (p + 1) j"
        using star_from by blast
      moreover then have "t \<le> j" using k(1) by simp
      ultimately show ?thesis unfolding here by blast
    qed
    have "wild_state pat str (p + 1) t (Some (p, t))"
      using star len by (simp add: wild_state_def slice_def)
    from 1(1) [OF _ _ this] have "wildcard_loop pat str (p + 1) t (Some (p, t)) \<longleftrightarrow>
        match_from pat str (p + 1) t \<or> go_back pat str (Some (p, t))"
      using star by simp
    also have "\<dots> \<longleftrightarrow> match_from pat str p t"
      unfolding here go_back_def using len by (auto simp: le_less)
    finally show ?thesis
      using star bk by (subst wildcard_loop.simps) auto
  next
    case eq
    have d: "drop p pat = pat ! p # drop (p + 1) pat" "drop t str = str ! t # drop (t + 1) str"
      using eq by (simp_all add: Cons_nth_drop_Suc)
    have "wild_state pat str (p + 1) (t + 1) bt"
    proof (cases bt)
      case (Some bb)
      obtain bp b where bb: "bb = (bp, b)" by (cases bb)
      have w: "bp < p" "b \<le> t" "t - b = p - bp - 1" "CHR ''*'' \<notin> set (slice (bp + 1) p pat)"
        using st by (auto simp: wild_state_def Some bb)
      have "slice (bp + 1) (p + 1) pat = slice (bp + 1) p pat @ [pat ! p]"
        using w(1) eq(2) slice_Suc [of "bp + 1" p pat] by simp
      then show ?thesis using w eq len by (auto simp: wild_state_def Some bb)
    qed (use st eq in \<open>simp add: wild_state_def\<close>)
    from 1(2) [OF _ _ _ this] have "wildcard_loop pat str (p + 1) (t + 1) bt \<longleftrightarrow>
        match_from pat str (p + 1) (t + 1) \<or> go_back pat str bt"
      using eq by auto
    moreover have "match_from pat str p t = match_from pat str (p + 1) (t + 1)"
      unfolding match_from_def d using eq by simp
    ultimately show ?thesis using eq by (subst wildcard_loop.simps) auto
  next
    case ne
    have no: "\<not> match_from pat str p t"
    proof (cases "p < length pat")
      case True
      have d: "drop p pat = pat ! p # drop (p + 1) pat" "drop t str = str ! t # drop (t + 1) str"
        using True ne by (simp_all add: Cons_nth_drop_Suc)
      show ?thesis unfolding match_from_def d using True ne by auto
    qed (use ne len in \<open>simp add: match_from_def\<close>)
    show ?thesis
    proof (cases bt)
      case None
      then show ?thesis using ne no by (subst wildcard_loop.simps) (auto simp: go_back_def)
    next
      case (Some bb)
      obtain bp b where bb: "bb = (bp, b)" by (cases bb)
      have w: "bp < p" "b \<le> t" using st by (auto simp: wild_state_def Some bb)
      have "wild_state pat str (bp + 1) (b + 1) (Some (bp, b + 1))"
        using w ne len by (auto simp: wild_state_def slice_def)
      from 1(3) [OF _ _ _ Some bb [symmetric] this]
      have "wildcard_loop pat str (bp + 1) (b + 1) (Some (bp, b + 1)) \<longleftrightarrow>
          match_from pat str (bp + 1) (b + 1) \<or> go_back pat str (Some (bp, b + 1))"
        using ne by auto
      also have "\<dots> \<longleftrightarrow> go_back pat str bt"
      proof -
        have "b + 1 \<le> length str" using w ne by simp
        moreover have "b < k \<longleftrightarrow> k = b + 1 \<or> b + 1 < k" for k by auto
        ultimately show ?thesis unfolding go_back_def Some bb by auto
      qed
      finally show ?thesis using ne no Some bb by (subst wildcard_loop.simps) auto
    qed
  qed
qed

lemma wildcard_glob: "wildcard pat str = glob pat str"
  using wildcard_loop_glob [of pat str 0 0 None]
  by (simp add: wildcard_def wild_state_def match_from_def go_back_def)

subsection \<open>Splitting and joining\<close>

lemma split_loop_not_Nil: "split_loop d cur s \<noteq> Some []"
  by (induction d cur s rule: split_loop.induct) auto

lemma split_loop_join: "split_loop d cur s = Some steps \<Longrightarrow> join_with ''/'' steps = rev cur @ s"
proof (induction d cur s arbitrary: steps rule: split_loop.induct)
  case (2 d cur c cs)
  show ?case
  proof (cases "c = CHR ''/'' \<and> d = 0")
    case True
    then obtain rest where r: "split_loop 0 [] cs = Some rest" "steps = rev cur # rest"
      using "2.prems" by auto
    moreover have "rest \<noteq> []" using r(1) split_loop_not_Nil by auto
    ultimately show ?thesis using "2.IH"(3) [of rest] True by (cases rest) auto
  next
    case False
    then show ?thesis using 2 by (auto split: if_splits)
  qed
qed (auto split: if_splits)

text \<open>A step that is not split: its braces are balanced and its slashes inside them.\<close>

definition whole_step :: "bytes \<Rightarrow> bool" where
  "whole_step s \<longleftrightarrow> split_loop 0 [] s = Some [s]"

lemma split_loop_then:
  "split_loop d cur s = Some [x] \<Longrightarrow>
     split_loop d cur (s @ CHR ''/'' # t) = map_option (\<lambda>steps. x # steps) (split_loop 0 [] t)"
proof (induction d cur s rule: split_loop.induct)
  case (2 d cur c cs)
  have "\<not> (c = CHR ''/'' \<and> d = 0)" using "2.prems" split_loop_not_Nil by (auto split: if_splits)
  then show ?case using 2 by (auto split: if_splits)
qed (auto split: if_splits)

lemma split_join:
  "steps \<noteq> [] \<Longrightarrow> list_all whole_step steps \<Longrightarrow> split_loop 0 [] (join_with ''/'' steps) = Some steps"
proof (induction steps rule: induct_list012)
  case (3 s t steps)
  then show ?case using split_loop_then [of 0 "[]" s s "join_with ''/'' (t # steps)"] by (simp add: whole_step_def)
qed (simp_all add: whole_step_def)

lemma split_loop_whole:
  "split_loop d cur s = Some steps \<Longrightarrow> list_all whole_step (tl steps) \<and>
     (\<forall>pre. (\<forall>t. split_loop 0 [] (pre @ t) = split_loop d cur t) \<longrightarrow> rev cur = pre \<longrightarrow> whole_step (hd steps))"
proof (induction d cur s arbitrary: steps rule: split_loop.induct)
  case (1 d cur)
  then have d: "d = 0" "steps = [rev cur]" by (auto split: if_splits)
  have "whole_step pre" if "\<forall>t. split_loop 0 [] (pre @ t) = split_loop d cur t" "rev cur = pre" for pre
    using spec [OF that(1), of "[]"] that(2) d by (simp add: whole_step_def)
  then show ?case using d by simp
next
  case (2 d cur c cs)
  show ?case
  proof (cases "c = CHR ''/'' \<and> d = 0")
    case True
    then obtain rest where r: "split_loop 0 [] cs = Some rest" "steps = rev cur # rest"
      using "2.prems" by auto
    have "list_all whole_step rest"
      using "2.IH"(3) [of rest] True r split_loop_not_Nil [of 0 "[]" cs] by (cases rest) auto
    moreover have "whole_step pre" if "\<forall>t. split_loop 0 [] (pre @ t) = split_loop d cur t" "rev cur = pre" for pre
      using spec [OF that(1), of "[]"] that(2) True by (simp add: whole_step_def)
    ultimately show ?thesis using r(2) by simp
  next
    case False
    have ext: "(\<forall>t. split_loop 0 [] ((pre @ [c]) @ t) = split_loop d' (c # cur) t)"
      if "\<forall>t. split_loop 0 [] (pre @ t) = split_loop d cur t"
        "\<And>t. split_loop d cur (c # t) = split_loop d' (c # cur) t" for pre d'
      using that(2) spec [OF that(1), of "c # _"] by simp
    consider (brace) "c = CHR ''{''" | (unbrace) "c = CHR ''}''" "d \<noteq> 0" | (other) "c \<noteq> CHR ''{''" "c \<noteq> CHR ''}''"
      using "2.prems" by (cases "c = CHR ''}''"; cases "d = 0") auto
    then show ?thesis
    proof cases
      case brace
      then show ?thesis using 2(1) [of steps] "2.prems" ext [of _ "d + 1"] by fastforce
    next
      case unbrace
      then show ?thesis using 2(2) [of steps] "2.prems" ext [of _ "d - 1"] by fastforce
    next
      case other
      then show ?thesis using 2(4) [of steps] "2.prems" ext [of _ d] False by fastforce
    qed
  qed
qed

lemma split_steps_whole: "split_loop 0 [] s = Some steps \<Longrightarrow> list_all whole_step steps"
  using split_loop_whole [of 0 "[]" s steps] split_loop_not_Nil [of 0 "[]" s] by (cases steps) auto

subsection \<open>Double stars\<close>

lemma list_ex_upto: "list_ex P [0..<Suc n] \<longleftrightarrow> (\<exists>k \<le> n. P k)"
  by (auto simp: list_ex_iff less_Suc_eq_le simp del: upt_Suc)

lemma match_steps_trailing:
  "match_steps (ss @ [''**'']) names \<longleftrightarrow> (\<exists>k \<le> length names. match_steps ss (take k names))"
proof (induction ss arbitrary: names)
  case Nil
  then show ?case by (simp add: list_ex_upto del: upt_Suc) (metis drop_all take_eq_Nil zero_le order_refl)
next
  case (Cons s ss)
  show ?case
  proof (cases "s = ''**''")
    case True
    have "(\<exists>j \<le> length names. \<exists>k \<le> length names - j. match_steps ss (take k (drop j names))) \<longleftrightarrow>
        (\<exists>k \<le> length names. \<exists>j \<le> min (length names) k. match_steps ss (drop j (take k names)))"
    proof
      assume "\<exists>j \<le> length names. \<exists>k \<le> length names - j. match_steps ss (take k (drop j names))"
      then obtain j k where "j \<le> length names" "k \<le> length names - j" "match_steps ss (take k (drop j names))" by blast
      then show "\<exists>k \<le> length names. \<exists>j \<le> min (length names) k. match_steps ss (drop j (take k names))"
        by (intro exI [of _ "j + k"] conjI exI [of _ j]) (auto simp: drop_take)
    next
      assume "\<exists>k \<le> length names. \<exists>j \<le> min (length names) k. match_steps ss (drop j (take k names))"
      then obtain j k where "k \<le> length names" "j \<le> k" "match_steps ss (drop j (take k names))" by auto
      then show "\<exists>j \<le> length names. \<exists>k \<le> length names - j. match_steps ss (take k (drop j names))"
        by (intro exI [of _ j] conjI exI [of _ "k - j"]) (auto simp: drop_take)
    qed
    then show ?thesis using True by (simp add: list_ex_upto Cons.IH del: upt_Suc)
  next
    case False
    show ?thesis
    proof (cases names)
      case Nil
      then show ?thesis using False by simp
    next
      case names: (Cons n ns)
      have "(\<exists>k \<le> length names. match_steps (s # ss) (take k names)) \<longleftrightarrow>
          match_step s n \<and> (\<exists>k \<le> length ns. match_steps ss (take k ns))"
      proof
        assume "\<exists>k \<le> length names. match_steps (s # ss) (take k names)"
        then obtain k where k: "k \<le> length names" "match_steps (s # ss) (take k names)" by blast
        then show "match_step s n \<and> (\<exists>k \<le> length ns. match_steps ss (take k ns))"
          using False names by (cases k) auto
      next
        assume "match_step s n \<and> (\<exists>k \<le> length ns. match_steps ss (take k ns))"
        then obtain k where "match_step s n" "k \<le> length ns" "match_steps ss (take k ns)" by blast
        then show "\<exists>k \<le> length names. match_steps (s # ss) (take k names)"
          using False names by (intro exI [of _ "Suc k"]) auto
      qed
      then show ?thesis using False names Cons.IH [of ns] by simp
    qed
  qed
qed

subsection \<open>Wildcards over characters\<close>

text \<open>
  The characters of a text in UTF-8, each with its continuation bytes, and the glob over characters
  as \<open>PathPattern\<close> documents it: a question mark stands for one character.
\<close>

function utf8_chars :: "bytes \<Rightarrow> bytes list" where
  "utf8_chars [] = []"
| "utf8_chars (b # s) = (b # takeWhile is_continuation s) # utf8_chars (dropWhile is_continuation s)"
  by pat_completeness auto
termination
  by (relation "measure length") (auto simp: length_dropWhile_le le_imp_less_Suc)

fun char_glob :: "bytes list \<Rightarrow> bytes list \<Rightarrow> bool" where
  "char_glob [] s = (s = [])"
| "char_glob (c # p) s =
     (if c = ''*'' then list_ex (\<lambda>k. char_glob p (drop k s)) [0..<length s + 1]
      else (case s of x # xs \<Rightarrow> (c = ''?'' \<or> c = x) \<and> char_glob p xs | [] \<Rightarrow> False))"

lemma char_glob_star: "char_glob (''*'' # p) s \<longleftrightarrow> (\<exists>k \<le> length s. char_glob p (drop k s))"
proof -
  have "list_ex P [0..<n + 1] \<longleftrightarrow> (\<exists>k \<le> n. P k)" for P n
    by (auto simp: list_ex_iff less_Suc_eq_le simp del: upt_Suc)
  then show ?thesis by (simp del: upt_Suc)
qed

text \<open>One character: the first byte tells how many follow.\<close>

definition tail_bytes :: "char \<Rightarrow> nat" where
  "tail_bytes b = (let v = byte_val b in if v \<le> 127 then 0 else if v \<le> 223 then 1 else if v \<le> 239 then 2 else 3)"

definition one_char :: "bytes \<Rightarrow> bool" where
  "one_char c \<longleftrightarrow> (\<exists>b t. c = b # t \<and> \<not> is_continuation b \<and> list_all is_continuation t \<and> length t = tail_bytes b)"

lemma utf8_chars_cons:
  "one_char c \<Longrightarrow> s = [] \<or> \<not> is_continuation (hd s) \<Longrightarrow> utf8_chars (c @ s) = c # utf8_chars s"
proof -
  assume "one_char c" and s: "s = [] \<or> \<not> is_continuation (hd s)"
  then obtain b t where c: "c = b # t" "list_all is_continuation t" by (auto simp: one_char_def)
  have "takeWhile is_continuation (t @ s) = t" "dropWhile is_continuation (t @ s) = s"
    using c(2) s by (cases s; simp add: takeWhile_append dropWhile_append list_all_iff)+
  then show ?thesis by (simp add: c(1))
qed

lemma utf8_first:
  assumes "utf8_valid (b # r)"
  shows "\<not> is_continuation b \<and> tail_bytes b \<le> length r \<and> list_all is_continuation (take (tail_bytes b) r) \<and>
    utf8_valid (drop (tail_bytes b) r)"
proof -
  define v where "v = byte_val b"
  have two: "is_continuation c" if "160 \<le> byte_val c \<and> byte_val c \<le> 191 \<or> 144 \<le> byte_val c \<and> byte_val c \<le> 191 \<or>
      128 \<le> byte_val c \<and> byte_val c \<le> 159 \<or> 128 \<le> byte_val c \<and> byte_val c \<le> 143" for c
    using that by (auto simp: is_continuation_def)
  note valid = assms [unfolded utf8_valid.simps Let_def v_def [symmetric]]
  consider (1) "v \<le> 127" | (2) "194 \<le> v" "v \<le> 223" | (3) "224 \<le> v" "v \<le> 239" | (4) "240 \<le> v" "v \<le> 244"
    using valid by (auto split: if_splits)
  then show ?thesis
  proof cases
    case 1
    then show ?thesis using valid by (simp add: tail_bytes_def is_continuation_def flip: v_def)
  next
    case 2
    then obtain c u where "r = c # u" "is_continuation c \<and> utf8_valid u" using valid by (cases r) auto
    then show ?thesis using 2 by (simp add: tail_bytes_def is_continuation_def [of b] flip: v_def)
  next
    case 3
    then obtain c d u where r: "r = c # d # u" and c: "is_continuation d" "utf8_valid u"
        "if v = 224 then 160 \<le> byte_val c \<and> byte_val c \<le> 191
         else if v = 237 then 128 \<le> byte_val c \<and> byte_val c \<le> 159 else is_continuation c"
      using valid by (cases r; cases "tl r") auto
    have "is_continuation c" using c(3) two by (auto split: if_splits)
    then show ?thesis using 3 r c by (simp add: tail_bytes_def is_continuation_def [of b] numeral_2_eq_2 flip: v_def)
  next
    case 4
    then obtain c d e u where r: "r = c # d # e # u" and c: "is_continuation d" "is_continuation e" "utf8_valid u"
        "if v = 240 then 144 \<le> byte_val c \<and> byte_val c \<le> 191
         else if v = 244 then 128 \<le> byte_val c \<and> byte_val c \<le> 143 else is_continuation c"
      using valid by (cases r; cases "tl r"; cases "tl (tl r)") auto
    have "is_continuation c" using c(4) two by (auto split: if_splits)
    then show ?thesis using 4 r c by (simp add: tail_bytes_def is_continuation_def [of b] numeral_3_eq_3 flip: v_def)
  qed
qed

lemma utf8_head: "utf8_valid s \<Longrightarrow> s = [] \<or> \<not> is_continuation (hd s)"
  using utf8_first by (cases s) auto

lemma utf8_valid_chars:
  "utf8_valid s \<Longrightarrow> concat (utf8_chars s) = s \<and> (\<forall>c \<in> set (utf8_chars s). one_char c)"
proof (induction "length s" arbitrary: s rule: less_induct)
  case less
  show ?case
  proof (cases s)
    case (Cons b r)
    have "\<exists>c u. s = c @ u \<and> one_char c \<and> utf8_valid u \<and> length u < length s"
    proof -
      have "utf8_valid (b # r)" using less.prems Cons by simp
      from utf8_first [OF this] show ?thesis
        using Cons by (intro exI [of _ "b # take (tail_bytes b) r"] exI [of _ "drop (tail_bytes b) r"]) (simp add: one_char_def)
    qed
    then obtain c u where c: "s = c @ u" "one_char c" "utf8_valid u" "length u < length s" by blast
    then show ?thesis using less.hyps [OF c(4,3)] utf8_chars_cons [OF c(2) utf8_head [OF c(3)]] by simp
  qed simp
qed

lemma one_char_simps:
  "one_char c \<Longrightarrow> c \<noteq> []"
  "one_char c \<Longrightarrow> hd c = CHR ''*'' \<Longrightarrow> c = ''*''"
  "one_char c \<Longrightarrow> hd c = CHR ''?'' \<Longrightarrow> c = ''?''"
  "one_char c \<Longrightarrow> x \<in> set (tl c) \<Longrightarrow> is_continuation x"
  by (auto simp: one_char_def tail_bytes_def list_all_iff byte_val_def)

lemma char_prefix:
  assumes "one_char c" "one_char d" "c @ r = d @ u"
  shows "c = d \<and> r = u"
proof -
  have "length c = length d" using assms by (cases c; cases d) (auto simp: one_char_def)
  then show ?thesis using assms(3) by simp
qed

lemma glob_exactly:
  assumes "CHR ''*'' \<notin> set c" "CHR ''?'' \<notin> set c"
  shows "glob (c @ p) s \<longleftrightarrow> (\<exists>r. s = c @ r \<and> glob p r)"
  using assms by (induction c arbitrary: s) (auto split: list.splits)

text \<open>A place in a text is between two characters or inside one.\<close>

lemma drop_concat:
  "k \<le> length (concat S) \<Longrightarrow> (\<exists>j \<le> length S. drop k (concat S) = concat (drop j S)) \<or>
    (\<exists>j i. j < length S \<and> length (concat (take j S)) \<le> k \<and> 0 < i \<and> i < length (S ! j) \<and>
       drop k (concat S) = drop i (S ! j) @ concat (drop (Suc j) S))"
proof (induction S arbitrary: k)
  case (Cons c S)
  consider (at) "k = 0" | (inside) "0 < k" "k < length c" | (after) "length c \<le> k" by linarith
  then show ?case
  proof cases
    case at
    then show ?thesis by (intro disjI1 exI [of _ 0]) simp
  next
    case inside
    then show ?thesis by (intro disjI2 exI [of _ 0] exI [of _ k]) simp
  next
    case after
    have d: "drop k (concat (c # S)) = drop (k - length c) (concat S)" using after by simp
    have "k - length c \<le> length (concat S)" using Cons.prems after by simp
    from Cons.IH [OF this] show ?thesis
    proof (elim disjE exE conjE)
      fix j assume "j \<le> length S" "drop (k - length c) (concat S) = concat (drop j S)"
      then show ?thesis unfolding d by (intro disjI1 exI [of _ "Suc j"]) simp
    next
      fix j i assume "j < length S" "length (concat (take j S)) \<le> k - length c" "0 < i" "i < length (S ! j)"
        "drop (k - length c) (concat S) = drop i (S ! j) @ concat (drop (Suc j) S)"
      then show ?thesis unfolding d using after by (intro disjI2 exI [of _ "Suc j"] exI [of _ i]) simp
    qed
  qed
qed simp

lemma concat_drop: "concat (drop j S) = drop (length (concat (take j S))) (concat S)"
  by (metis append_eq_conv_conj append_take_drop_id concat_append)

lemma glob_star_back:
  assumes "glob (CHR ''*'' # p) (drop k s)" "i \<le> k" "k \<le> length s"
  shows "glob (CHR ''*'' # p) (drop i s)"
proof -
  obtain m where "m \<le> length (drop k s)" "glob p (drop m (drop k s))" using assms(1) unfolding glob_star by blast
  then show ?thesis unfolding glob_star using assms(2,3) by (intro exI [of _ "k - i + m"]) (simp add: add.commute)
qed

lemma glob_chars:
  assumes "\<forall>c \<in> set P. one_char c" "\<forall>c \<in> set S. one_char c"
    and "''?'' \<notin> set P \<or> (\<forall>c \<in> set S. length c = 1)"
  shows "glob (concat P) (concat S) = char_glob P S"
  using assms
proof (induction P arbitrary: S)
  case Nil
  then show ?case by (cases S) (auto dest: one_char_simps(1))
next
  case (Cons c P)
  have ih: "glob (concat P) (concat (drop j S)) = char_glob P (drop j S)" for j
    using Cons.prems by (intro Cons.IH) (auto dest: in_set_dropD)
  have c: "one_char c" using Cons.prems(1) by simp
  consider (star) "c = ''*''" | (one) "c = ''?''" | (same) "c \<noteq> ''*''" "c \<noteq> ''?''" by blast
  then show ?case
  proof cases
    case star
    have "\<exists>j \<le> length S. glob (concat P) (concat (drop j S))"
      if k: "k \<le> length (concat S)" "glob (concat P) (drop k (concat S))" for k
      using drop_concat [OF k(1)]
    proof (elim disjE exE conjE)
      fix j assume "j \<le> length S" "drop k (concat S) = concat (drop j S)"
      then show ?thesis using k(2) by auto
    next
      fix j i assume j: "j < length S" "length (concat (take j S)) \<le> k" "0 < i" "i < length (S ! j)"
        "drop k (concat S) = drop i (S ! j) @ concat (drop (Suc j) S)"
      have sj: "one_char (S ! j)" using Cons.prems(2) j(1) by simp
      have long: "length (S ! j) \<noteq> 1" using j(3,4) by linarith
      then have noq: "''?'' \<notin> set P" using Cons.prems(3) j(1) by auto
      have "hd (drop i (S ! j)) \<in> set (tl (S ! j))"
        using j(3,4) by (cases "S ! j"; cases i) (auto simp: hd_drop_conv_nth)
      then have cont: "is_continuation (hd (drop i (S ! j)))" by (rule one_char_simps(4) [OF sj])
      show ?thesis
      proof (cases P)
        case Nil
        then show ?thesis using k(2) j(4,5) by simp
      next
        case (Cons c' P')
        have c': "one_char c'" "\<not> is_continuation (hd c')" "c' \<noteq> []"
          using Cons.prems(1) Cons by (auto simp: one_char_def)
        show ?thesis
        proof (cases "c' = ''*''")
          case True
          then have "glob (concat P) (concat (drop j S))"
            using glob_star_back [of "concat P'" k "concat S" "length (concat (take j S))"] k j(2) Cons
            by (simp add: concat_drop)
          then show ?thesis using j(1) by (intro exI [of _ j]) simp
        next
          case False
          have h: "hd c' \<noteq> CHR ''*''" "hd c' \<noteq> CHR ''?''"
            using False noq one_char_simps(2,3) [OF c'(1)] Cons by auto
          obtain b t where bt: "c' = b # t" using c'(3) by (cases c') auto
          obtain b' t' where b't: "drop i (S ! j) = b' # t'" using j(4) by (cases "drop i (S ! j)") auto
          have "b = b'" using k(2) h unfolding j(5) b't Cons by (simp add: bt)
          then show ?thesis using c'(2) cont by (simp add: bt b't)
        qed
      qed
    qed
    moreover have "\<exists>k \<le> length (concat S). glob (concat P) (drop k (concat S))"
      if "j \<le> length S" "glob (concat P) (concat (drop j S))" for j
    proof -
      have "length (concat (take j S)) \<le> length (concat S)"
        by (metis append_take_drop_id concat_append length_append le_add1)
      then show ?thesis using that(2) unfolding concat_drop by blast
    qed
    ultimately show ?thesis
      using ih unfolding star concat.simps append.simps glob_star char_glob_star by blast
  next
    case one
    show ?thesis
    proof (cases S)
      case (Cons d S')
      then have "length d = 1" using Cons.prems(3) one by auto
      then obtain x where "d = [x]" by (cases d) auto
      then show ?thesis using ih [of 1] Cons one by simp
    qed (simp add: one)
  next
    case same
    have "\<not> is_continuation CHR ''*''" "\<not> is_continuation CHR ''?''" by (simp_all add: is_continuation_def byte_val_def)
    then have "x \<notin> set c" if "x = CHR ''*'' \<or> x = CHR ''?''" for x
      using same one_char_simps(1-3) [OF c] one_char_simps(4) [OF c, of x] that by (cases c) auto
    then have "CHR ''*'' \<notin> set c" "CHR ''?'' \<notin> set c" by blast+
    note lit = glob_exactly [OF this]
    show ?thesis
    proof (cases S)
      case Nil
      then show ?thesis using same one_char_simps(1) [OF c] by (simp add: lit)
    next
      case (Cons d S')
      have d: "one_char d" using Cons.prems(2) Cons by simp
      have "(\<exists>r. d @ concat S' = c @ r \<and> glob (concat P) r) \<longleftrightarrow> c = d \<and> glob (concat P) (concat S')"
        using char_prefix [OF d c] by blast
      then show ?thesis using ih [of 1] Cons same by (simp add: lit)
    qed
  qed
qed

lemma question_mark_is_one_byte:
  "\<not> wildcard ''?'' [CHR 0xC3, CHR 0xA9]" "char_glob (utf8_chars ''?'') (utf8_chars [CHR 0xC3, CHR 0xA9])"
  unfolding wildcard_glob by (simp, code_simp)

subsection \<open>Properties\<close>

text \<open>
  C28. The matching loop, which goes back to the last star only, decides exactly the glob over bytes:
  a star stands for any run of bytes, a question mark for one byte, any other byte for itself. That
  is the documented glob over characters, where a question mark stands for one character, for every
  pattern without a question mark, and with one for ASCII names; a question mark does not stand for
  a character of several bytes (\<open>question_mark_is_one_byte\<close>).
\<close>

theorem wildcard_is_glob:
  "wildcard pat str = glob pat str \<and>
   (utf8_valid pat \<and> utf8_valid str \<and> (CHR ''?'' \<notin> set pat \<or> (\<forall>c \<in> set str. byte_val c < 128)) \<longrightarrow>
    wildcard pat str = char_glob (utf8_chars pat) (utf8_chars str))"
proof -
  have "char_glob (utf8_chars pat) (utf8_chars str) = glob pat str"
    if v: "utf8_valid pat" "utf8_valid str" "CHR ''?'' \<notin> set pat \<or> (\<forall>c \<in> set str. byte_val c < 128)"
  proof -
    note p = utf8_valid_chars [OF v(1)] and s = utf8_valid_chars [OF v(2)]
    have sub: "set c \<subseteq> set t" if "c \<in> set (utf8_chars t)" "concat (utf8_chars t) = t" for c t
      using that set_concat [of "utf8_chars t"] by auto
    have "length c = 1" if "c \<in> set (utf8_chars str)" "\<forall>c \<in> set str. byte_val c < 128" for c
    proof -
      obtain b t where b: "c = b # t" "length t = tail_bytes b" using s \<open>c \<in> _\<close> by (auto simp: one_char_def)
      have "b \<in> set str" using sub [of c str] s that(1) b(1) by auto
      then have "byte_val b < 128" using that(2) by blast
      then show ?thesis using b by (simp add: tail_bytes_def Let_def)
    qed
    moreover have "''?'' \<notin> set (utf8_chars pat)" if "CHR ''?'' \<notin> set pat"
      using sub [of "''?''" pat] p that by auto
    ultimately have "glob (concat (utf8_chars pat)) (concat (utf8_chars str)) = char_glob (utf8_chars pat) (utf8_chars str)"
      using p s v(3) by (intro glob_chars) blast+
    then show ?thesis using p s by simp
  qed
  then show ?thesis by (simp add: wildcard_glob)
qed

lemma wildcard_is_glob_witness:
  "wildcard ''*a?e'' ''Strasse'' = char_glob (utf8_chars ''*a?e'') (utf8_chars ''Strasse'')"
  using wildcard_is_glob [of "''*a?e''" "''Strasse''"] by simp

text \<open>
  A pattern splits into the steps that, joined by slashes, give it back, each with its braces
  balanced and no slash outside them; there is no other way, and where there is none the pattern
  is refused.
\<close>

theorem split_steps_roundtrip:
  "split_steps (c # cs) = Some steps \<longleftrightarrow>
     steps \<noteq> [] \<and> list_all whole_step steps \<and> join_with ''/'' steps = c # cs"
proof
  assume "split_steps (c # cs) = Some steps"
  then have s: "split_loop 0 [] (c # cs) = Some steps" by (simp add: split_steps_def)
  then show "steps \<noteq> [] \<and> list_all whole_step steps \<and> join_with ''/'' steps = c # cs"
    using split_loop_join [OF s] split_steps_whole [OF s] split_loop_not_Nil [of 0 "[]" "c # cs"] by auto
next
  assume "steps \<noteq> [] \<and> list_all whole_step steps \<and> join_with ''/'' steps = c # cs"
  then show "split_steps (c # cs) = Some steps"
    using split_join [of steps] by (simp add: split_steps_def)
qed

text \<open>
  A pattern that ends in a double star matches a path exactly if the steps before it match the
  beginning of the path.
\<close>

theorem trailing_double_star:
  assumes "split_steps (pp_raw pat) = Some (ss @ [''**''])"
  shows "pattern_matches pat layer path \<longleftrightarrow>
    (\<exists>k \<le> length path + 1. match_steps ss (take k (layer # path)))"
  using assms match_steps_trailing [of ss "layer # path"] by (simp add: pattern_matches_def)

theorem trailing_double_star_witness:
  "pattern_matches \<lparr>pp_raw = ''A/**''\<rparr> ''A'' [''b'', ''c'']"
proof -
  have s: "split_steps (pp_raw \<lparr>pp_raw = ''A/**''\<rparr>) = Some ([''A''] @ [''**''])"
    by (simp add: split_steps_def)
  have m: "match_steps [''A''] (take 1 [''A'', ''b'', ''c''])"
    by (simp add: match_step_def parse_step_def Let_def wildcard_glob)
  show ?thesis
    unfolding trailing_double_star [OF s] using m by (intro exI [of _ 1]) simp
qed

text \<open>
  C37. A pattern that is accepted is kept as it is written, and each of its steps is a double star or
  has a name of its own without braces, so that no step of it is unusable when matching.
\<close>

theorem parse_pattern_accepts:
  assumes "parse_pattern raw = Inr pat"
  shows "pp_raw pat = raw \<and>
    (\<exists>steps. split_steps raw = Some steps \<and> steps \<noteq> [] \<and>
       list_all (\<lambda>s. s = ''**'' \<or>
         (\<exists>p. parse_step s = Some p \<and> st_local p \<noteq> [] \<and>
            CHR ''{'' \<notin> set (st_local p) \<and> CHR ''}'' \<notin> set (st_local p))) steps)"
proof -
  have ok: "check_steps steps = None \<Longrightarrow> list_all (\<lambda>s. check_step s = None) steps" for steps
    by (induction steps) (auto split: option.splits)
  have one: "s = ''**'' \<or> (\<exists>p. parse_step s = Some p \<and> st_local p \<noteq> [] \<and>
      CHR ''{'' \<notin> set (st_local p) \<and> CHR ''}'' \<notin> set (st_local p))" if "check_step s = None" for s
    using that by (auto simp: check_step_def split: if_splits option.splits)
  from assms obtain steps where "split_steps raw = Some steps" "steps \<noteq> []" "check_steps steps = None" "pat = \<lparr>pp_raw = raw\<rparr>"
    by (auto simp: parse_pattern_def split: option.splits if_splits)
  then show ?thesis using ok [of steps] one by (auto simp: list_all_iff)
qed

theorem parse_pattern_accepts_witness:
  "\<exists>pat. parse_pattern ''{u/v}A/*'' = Inr pat \<and> pp_raw pat = ''{u/v}A/*''"
proof -
  have "parse_pattern ''{u/v}A/*'' = Inr \<lparr>pp_raw = ''{u/v}A/*''\<rparr>"
    by (simp add: parse_pattern_def split_steps_def check_step_def parse_step_def split_once_def)
  from parse_pattern_accepts [OF this] this show ?thesis by blast
qed

end
