(* ===== verification/Crs.thy ===== *)
theory Crs
  imports Float64
begin

text \<open>
  Coordinate reference systems: what an srsName says (\<open>crates/xeibe-geom/src/crs.rs\<close>), the table of
  facts with the user's entries over it (\<open>crates/xeibe-geom/src/epsg.rs\<close>) and the lookups of the crate
  \<open>xeibe-crs\<close> (\<open>crates/xeibe-crs/src/lib.rs\<close>). The generated tables of that crate and the Unicode
  folding of a name are the record \<open>crs_data\<close>, which every function that reads them takes as an
  argument; a number of an area, there an \<open>f32\<close>, is the \<open>f64\<close> it is widened to.
\<close>

subsection \<open>Names of reference systems\<close>

datatype srs_form =
  Short | LegacyUrl | OgcUrn | ExperimentalUrn | Wfs11Urn | HttpUri | HttpUriKvp | CompoundUrn
| CompoundUri | AdvUrn | UnknownForm

datatype crs_ref =
  Crs_Code (cr_authority: bytes) (cr_code: bytes)
| Crs_Compound "crs_ref list"
| Crs_Unresolved bytes

definition crs_epsg :: "bytes \<Rightarrow> crs_ref" where
  "crs_epsg code = Crs_Code ''EPSG'' code"

text \<open>
  One step of \<open>authority_code\<close> over the parts of a compound: what is written so far and the last
  authority written out.
\<close>

definition write_part :: "(crs_ref \<Rightarrow> bytes) \<Rightarrow> bytes \<times> bytes option \<Rightarrow> crs_ref \<Rightarrow> bytes \<times> bytes option" where
  "write_part show_crs st part =
     (let (text, previous) = st;
          text = (if text = [] then text else text @ ''+'')
      in case part of
           Crs_Code authority code \<Rightarrow>
             if previous = Some authority then (text @ code, previous)
             else (text @ show_crs part, Some authority)
         | nested \<Rightarrow> (text @ show_crs nested, previous))"

lemma write_part_cong [fundef_cong]:
  "st = st' \<Longrightarrow> p = p' \<Longrightarrow> f p' = g p' \<Longrightarrow> write_part f st p = write_part g st' p'"
  by (cases p'; cases st') (simp_all add: write_part_def)

fun authority_code :: "crs_ref \<Rightarrow> bytes" where
  "authority_code (Crs_Code authority code) = authority @ '':'' @ code"
| "authority_code (Crs_Unresolved name) = name"
| "authority_code (Crs_Compound parts) =
     fst (foldl (\<lambda>st p. write_part authority_code st p) ([], None) parts)"

fun is_lon_lat_by_definition :: "crs_ref \<Rightarrow> bool" where
  "is_lon_lat_by_definition (Crs_Code authority code) \<longleftrightarrow>
     eq_ignore_ascii_case authority ''OGC'' \<and>
     list_ex (\<lambda>c. eq_ignore_ascii_case code c) [''CRS84'', ''CRS83'', ''CRS27'', ''CRS84h'']"
| "is_lon_lat_by_definition (Crs_Compound parts) \<longleftrightarrow>
     (case parts of [] \<Rightarrow> False | p # _ \<Rightarrow> is_lon_lat_by_definition p)"
| "is_lon_lat_by_definition (Crs_Unresolved _) \<longleftrightarrow> False"

fun horizontal :: "crs_ref \<Rightarrow> crs_ref" where
  "horizontal (Crs_Compound parts) =
     (case parts of [] \<Rightarrow> Crs_Compound parts | p # _ \<Rightarrow> horizontal p)"
| "horizontal code = code"

fun unresolved :: "crs_ref \<Rightarrow> bytes list" where
  "unresolved (Crs_Unresolved name) = [name]"
| "unresolved (Crs_Compound parts) = concat (map unresolved parts)"
| "unresolved (Crs_Code _ _) = []"

record srs_name =
  sr_raw :: bytes
  sr_form :: srs_form
  sr_crs :: "crs_ref option"

subsection \<open>The tables of the crate \<open>xeibe-crs\<close>\<close>

datatype first_axis = EastOrLon | NorthOrLat | OtherAxis

datatype crs_kind =
  Geographic2d | Geographic3d | Projected | Geocentric | Vertical | CompoundKind | Engineering | Derived

definition is_geographic :: "crs_kind \<Rightarrow> bool" where
  "is_geographic k \<longleftrightarrow> k = Geographic2d \<or> k = Geographic3d"

text \<open>A box is the code's array of four numbers.\<close>

type_synonym bbox = "f64 \<times> f64 \<times> f64 \<times> f64"

record crs_record =
  rc_code :: nat
  rc_name :: bytes
  rc_kind :: crs_kind
  rc_first_axis :: first_axis
  rc_dimension :: nat
  rc_linear_unit_m :: "f64 option"
  rc_angular_unit_rad :: "f64 option"
  rc_area_wgs84 :: "bbox option"
  rc_datum :: "nat option"
  rc_method :: "nat option"
  rc_deprecated :: bool

definition area_in_axis_order :: "crs_record \<Rightarrow> bbox option" where
  "area_in_axis_order r =
     (if \<not> is_geographic (rc_kind r) then None
      else Option.bind (rc_area_wgs84 r) (\<lambda>(south, west, north, east).
        case rc_first_axis r of
          NorthOrLat \<Rightarrow> Some (south, west, north, east)
        | EastOrLon \<Rightarrow> Some (west, south, east, north)
        | OtherAxis \<Rightarrow> None))"

text \<open>The generated tables and the Unicode folding of names, which the model takes as given.\<close>

record crs_data =
  cd_records :: "crs_record list"
  cd_aliases :: "(bytes \<times> nat) list"
  cd_name_key :: "bytes \<Rightarrow> bytes"

definition crs_get :: "crs_data \<Rightarrow> nat \<Rightarrow> crs_record option" where
  "crs_get d code = find (\<lambda>r. rc_code r = code) (cd_records d)"

text \<open>
  The index of \<open>alias\<close>: a name that is an alias of two codes is none of either.
\<close>

definition index_alias ::
  "(bytes \<Rightarrow> bytes) \<Rightarrow> bytes \<times> nat \<Rightarrow> (bytes \<rightharpoonup> nat option) \<Rightarrow> (bytes \<rightharpoonup> nat option)" where
  "index_alias key entry index =
     (let k = key (fst entry) in
      index(k \<mapsto> (case index k of None \<Rightarrow> Some (snd entry)
                | Some c \<Rightarrow> if c \<noteq> Some (snd entry) then None else c)))"

definition alias_index :: "crs_data \<Rightarrow> bytes \<rightharpoonup> nat option" where
  "alias_index d = fold (index_alias (cd_name_key d)) (cd_aliases d) Map.empty"

definition crs_alias :: "crs_data \<Rightarrow> bytes \<Rightarrow> nat option" where
  "crs_alias d name = (case alias_index d (cd_name_key d name) of None \<Rightarrow> None | Some c \<Rightarrow> c)"

text \<open>\<open>crates/xeibe-geom/src/epsg.rs\<close>.\<close>

record crs_info =
  ci_first_axis :: first_axis
  ci_dimension :: nat
  ci_geographic :: bool
  ci_area_of_use :: "bbox option"
  ci_linear_unit_m :: "f64 option"

text \<open>\<open>CrsTable\<close>: the entries a user added, over the generated tables.\<close>

record crs_table =
  ct_user :: "(bytes \<times> bytes \<times> crs_info) list"
  ct_builtin :: crs_data

definition builtin_table :: "crs_data \<Rightarrow> crs_table" where
  "builtin_table d = \<lparr>ct_user = [], ct_builtin = d\<rparr>"

definition with_user_entries :: "(bytes \<times> bytes \<times> crs_info) list \<Rightarrow> crs_table \<Rightarrow> crs_table" where
  "with_user_entries entries t = t\<lparr>ct_user := ct_user t @ entries\<rparr>"

definition from_record :: "crs_record \<Rightarrow> crs_info" where
  "from_record r =
     \<lparr>ci_first_axis = rc_first_axis r, ci_dimension = rc_dimension r,
      ci_geographic = is_geographic (rc_kind r), ci_area_of_use = area_in_axis_order r,
      ci_linear_unit_m = rc_linear_unit_m r\<rparr>"

text \<open>\<open>str::parse\<close> of an unsigned integer below a bound: an optional plus sign, then digits.\<close>

definition parse_unsigned :: "nat \<Rightarrow> bytes \<Rightarrow> nat option" where
  "parse_unsigned bits s =
     (let ds = (case s of c # cs \<Rightarrow> if c = CHR ''+'' then cs else s | [] \<Rightarrow> [])
      in if ds \<noteq> [] \<and> list_all is_ascii_digit ds \<and> digits_val ds < 2 ^ bits
         then Some (digits_val ds) else None)"

definition table_get :: "crs_table \<Rightarrow> bytes \<Rightarrow> bytes \<Rightarrow> crs_info option" where
  "table_get t authority code =
     (case find (\<lambda>(a, c, _). eq_ignore_ascii_case a authority \<and> c = code) (rev (ct_user t)) of
        Some (_, _, info) \<Rightarrow> Some info
      | None \<Rightarrow>
          if \<not> eq_ignore_ascii_case authority ''EPSG'' then None
          else Option.bind (parse_unsigned 32 code) (\<lambda>n.
               map_option from_record (crs_get (ct_builtin t) n)))"

subsection \<open>Parsing an srsName\<close>

definition strip_prefix_ci :: "bytes \<Rightarrow> bytes \<Rightarrow> bytes option" where
  "strip_prefix_ci p s =
     (if length p \<le> length s \<and> eq_ignore_ascii_case (take (length p) s) p
      then Some (drop (length p) s) else None)"

definition strip_http :: "bytes \<Rightarrow> bytes option" where
  "strip_http s =
     (case strip_prefix_ci ''http://'' s of Some r \<Rightarrow> Some r | None \<Rightarrow> strip_prefix_ci ''https://'' s)"

definition epsg_code :: "bytes \<Rightarrow> bytes option" where
  "epsg_code code =
     (let code = trim code in
      if code = [] \<or> \<not> list_all is_ascii_digit code then None
      else map_option show_nat (parse_unsigned 64 code))"

definition to_ascii_uppercase :: "char \<Rightarrow> char" where
  "to_ascii_uppercase c =
     (if 97 \<le> byte_val c \<and> byte_val c \<le> 122 then char_of (byte_val c - 32) else c)"

definition code_ref :: "bytes \<Rightarrow> bytes \<Rightarrow> crs_ref option" where
  "code_ref authority code =
     (let authority = map to_ascii_uppercase (trim authority); code = trim code in
      if authority = [] \<or> code = [] then None
      else if authority = ''EPSG'' then map_option crs_epsg (epsg_code code)
      else Some (Crs_Code authority code))"

definition ogc_urn_code :: "bytes \<Rightarrow> crs_ref option" where
  "ogc_urn_code rest =
     Option.bind (split_once CHR '':'' rest) (\<lambda>(authority, tail).
       code_ref authority (last (split_on CHR '':'' tail)))"

definition CRS_NAMES :: "(bytes \<times> bytes \<times> bytes) list" where
  "CRS_NAMES =
     [(''ETRS89_UTM31'', ''EPSG'', ''25831''), (''ETRS89_UTM32'', ''EPSG'', ''25832''),
      (''ETRS89_UTM33'', ''EPSG'', ''25833''), (''ETRS89_Lat-Lon'', ''EPSG'', ''4258''),
      (''DE_DHDN_3GK2'', ''EPSG'', ''31466''), (''DE_DHDN_3GK3'', ''EPSG'', ''31467''),
      (''DE_DHDN_3GK4'', ''EPSG'', ''31468''), (''DE_DHDN_3GK5'', ''EPSG'', ''31469''),
      (''DE_DHHN92_NH'', ''EPSG'', ''5783''), (''DE_DHHN2016_NH'', ''EPSG'', ''7837''),
      (''PL-KRON86-NH'', ''EPSG'', ''9650''), (''osgb:BNG'', ''EPSG'', ''27700''),
      (''CRS:84'', ''OGC'', ''CRS84''), (''OGC:CRS84'', ''OGC'', ''CRS84''),
      (''CRS:83'', ''OGC'', ''CRS83''), (''CRS:27'', ''OGC'', ''CRS27'')]"

definition named_crs :: "crs_data \<Rightarrow> bytes \<Rightarrow> crs_ref option" where
  "named_crs d name =
     (let name = trim name in
      case find (\<lambda>(known, _). eq_ignore_ascii_case known name) CRS_NAMES of
        Some (_, authority, code) \<Rightarrow> Some (Crs_Code authority code)
      | None \<Rightarrow> map_option (\<lambda>code. crs_epsg (show_nat code)) (crs_alias d name))"

definition is_unresolved :: "crs_ref \<Rightarrow> bool" where
  "is_unresolved c = (case c of Crs_Unresolved _ \<Rightarrow> True | _ \<Rightarrow> False)"

definition compound :: "crs_ref list \<Rightarrow> crs_ref option" where
  "compound parts =
     (if list_all is_unresolved parts then None
      else (case parts of [single] \<Rightarrow> Some single | _ \<Rightarrow> Some (Crs_Compound parts)))"

text \<open>
  \<open>part\<close> and \<open>parse_form\<close> call each other; the functions between them take the parser of a
  part as an argument. Each comes with the congruence that says on what it is called.
\<close>

definition epsg_codes :: "(bytes \<Rightarrow> crs_ref option) \<Rightarrow> bytes \<Rightarrow> crs_ref option" where
  "epsg_codes part codes =
     (case map trim (split_on CHR ''+'' codes) of
        [] \<Rightarrow> None
      | c # cs \<Rightarrow>
          Option.bind (epsg_code c) (\<lambda>first.
          Option.bind (those (map (\<lambda>code. case epsg_code code of
               None \<Rightarrow> part code | Some code \<Rightarrow> Some (crs_epsg code)) cs)) (\<lambda>rest.
            compound (crs_epsg first # rest))))"

lemma epsg_codes_cong [fundef_cong]:
  assumes "s = s'" and "\<And>t. t \<in> set (map trim (split_on CHR ''+'' s')) \<Longrightarrow> f t = g t"
  shows "epsg_codes f s = epsg_codes g s'"
  using assms by (auto simp: epsg_codes_def split: list.splits option.splits
      intro!: Option.bind_cong arg_cong [of _ _ those])

definition geoserver_code :: "bytes \<Rightarrow> (srs_form \<times> crs_ref option) option" where
  "geoserver_code code =
     (let code = (case strip_prefix ''CRS'' code of Some c \<Rightarrow> c | None \<Rightarrow> code) in
      if code \<in> {''84'', ''83'', ''27''}
      then Some (LegacyUrl, Some (Crs_Code ''OGC'' (''CRS'' @ code))) else None)"

text \<open>One pair of \<open>1=<uri>&2=<uri>\<close>.\<close>

definition compound_pair :: "(bytes \<Rightarrow> crs_ref option) \<Rightarrow> bytes \<Rightarrow> (nat \<times> crs_ref) option" where
  "compound_pair part pair =
     Option.bind (split_once CHR ''='' pair) (\<lambda>(key, value).
     Option.bind (parse_unsigned 32 (trim key)) (\<lambda>k.
     Option.bind (part value) (\<lambda>crs. Some (k, crs))))"

definition kvp_entry :: "bytes option \<times> bytes option \<Rightarrow> bytes \<Rightarrow> (bytes option \<times> bytes option) option" where
  "kvp_entry found pair =
     Option.bind (split_once CHR ''='' pair) (\<lambda>(key, value).
       Some (if eq_ignore_ascii_case key ''authority'' then (Some value, snd found)
             else if eq_ignore_ascii_case key ''code'' then (fst found, Some value) else found))"

definition kvp_crs :: "bytes \<Rightarrow> crs_ref option" where
  "kvp_crs query =
     Option.bind (foldl (\<lambda>found pair. Option.bind found (\<lambda>f. kvp_entry f pair))
         (Some (None, None)) (split_on CHR ''&'' query)) (\<lambda>(authority, code).
     Option.bind authority (\<lambda>authority. Option.bind code (\<lambda>code. code_ref authority code)))"

definition uri_crs :: "bytes \<Rightarrow> crs_ref option" where
  "uri_crs path =
     (case split_on CHR ''/'' (trim_end_matches (\<lambda>c. c = CHR ''/'') path) of
        [authority, _, code] \<Rightarrow> code_ref authority code | _ \<Rightarrow> None)"

definition with_form :: "srs_form \<Rightarrow> crs_ref option \<Rightarrow> (srs_form \<times> crs_ref option) option" where
  "with_form form crs = map_option (\<lambda>c. (form, Some c)) crs"

definition parse_http ::
  "(bytes \<Rightarrow> crs_ref option) \<Rightarrow> bytes \<Rightarrow> (srs_form \<times> crs_ref option) option" where
  "parse_http part rest =
     Option.bind (strip_prefix_ci ''www.opengis.net/'' rest) (\<lambda>rest.
     case strip_prefix_ci ''gml/srs/epsg.xml#'' rest of
       Some code \<Rightarrow> with_form LegacyUrl (map_option crs_epsg (epsg_code code))
     | None \<Rightarrow>
     (case strip_prefix_ci ''gml/srs/crs.xml#'' rest of
       Some code \<Rightarrow> geoserver_code code
     | None \<Rightarrow>
     (case strip_prefix_ci ''gml/srs/ogc.xml#'' rest of
       Some code \<Rightarrow> geoserver_code code
     | None \<Rightarrow>
     (case strip_prefix_ci ''def/crs-compound?'' rest of
       Some query \<Rightarrow>
         Option.bind (those (map (compound_pair part) (split_on CHR ''&'' query))) (\<lambda>parts.
           Some (CompoundUri, compound (map snd (sort_key fst parts))))
     | None \<Rightarrow>
     (case strip_prefix_ci ''def/crs?'' rest of
       Some query \<Rightarrow> with_form HttpUriKvp (kvp_crs query)
     | None \<Rightarrow>
     (case strip_prefix_ci ''def/crs/'' rest of
       Some path \<Rightarrow> with_form HttpUri (uri_crs path)
     | None \<Rightarrow> None))))))"

text \<open>Parts are shorter than the whole, which is why the two parsers return.\<close>

lemma length_trim_with: "length (trim_with ws s) \<le> length s"
proof (induction ws s rule: trim_with.induct)
  case (1 ws s)
  show ?case
    using 1 [of "the (find (\<lambda>w. w \<noteq> [] \<and> starts_with w s) ws)"]
    by (subst trim_with.simps) (auto split: option.split)
qed

lemma length_trim: "length (trim s) \<le> length s"
  unfolding trim_def length_rev by (metis length_rev length_trim_with order_trans)

lemma length_split_on: "t \<in> set (split_on c s) \<Longrightarrow> length t \<le> length s"
proof (induction s arbitrary: t)
  case (Cons x xs)
  then show ?case
    by (cases "split_on c xs") (auto split: if_splits intro: le_SucI)
qed simp

lemma length_strip_ci: "strip_prefix_ci p s = Some r \<Longrightarrow> length s = length p + length r"
  by (auto simp: strip_prefix_ci_def split: if_splits)

lemma length_strip_http: "strip_http s = Some r \<Longrightarrow> length r + 7 \<le> length s"
  by (auto simp: strip_http_def dest!: length_strip_ci split: option.splits)

lemma length_split_once: "split_once c s = Some (a, b) \<Longrightarrow> length s = length a + 1 + length b"
  by (auto simp: split_once_Some_iff)

lemma compound_pair_cong:
  assumes "\<And>t. length t < length pair \<Longrightarrow> f t = g t"
  shows "compound_pair f pair = compound_pair g pair"
proof (cases "split_once CHR ''='' pair")
  case (Some kv)
  then have "length (snd kv) < length pair" by (cases kv) (auto dest: length_split_once)
  with assms [of "snd kv"] show ?thesis by (cases kv) (simp add: compound_pair_def Some)
qed (simp add: compound_pair_def)

lemma parse_http_cong [fundef_cong]:
  assumes "s = s'" and fg: "\<And>t. length t < length s' \<Longrightarrow> f t = g t"
  shows "parse_http f s = parse_http g s'"
proof (cases "strip_prefix_ci ''www.opengis.net/'' s'")
  case (Some rest)
  have "map (compound_pair f) (split_on CHR ''&'' q) = map (compound_pair g) (split_on CHR ''&'' q)"
    if q: "strip_prefix_ci ''def/crs-compound?'' rest = Some q" for q
  proof (rule map_cong [OF refl], rule compound_pair_cong)
    fix pair t assume "pair \<in> set (split_on CHR ''&'' q)" and t: "length (t :: bytes) < length pair"
    then have "length pair \<le> length q" by (simp add: length_split_on)
    with t length_strip_ci [OF q] length_strip_ci [OF Some] show "f t = g t" by (intro fg) simp
  qed
  then show ?thesis
    using assms(1) Some by (auto simp: parse_http_def split: option.split simp del: map_eq_conv)
      
qed (simp add: parse_http_def assms(1))

function parse_form :: "crs_data \<Rightarrow> bytes \<Rightarrow> (srs_form \<times> crs_ref option) option"
  and parse_part :: "crs_data \<Rightarrow> bytes \<Rightarrow> crs_ref option" where
  "parse_form d s =
     (if s = [] then None
      else (case strip_prefix_ci ''urn:ogc:def:crs,'' s of
        Some rest \<Rightarrow>
          map_option (\<lambda>parts. (CompoundUrn, compound parts)) (those (map (\<lambda>p. parse_part d
            (case strip_prefix_ci ''crs:'' (trim p) of Some p \<Rightarrow> p | None \<Rightarrow> trim p))
              (split_on CHR '','' rest)))
      | None \<Rightarrow>
      (case strip_prefix_ci ''urn:ogc:def:crs:'' s of
        Some rest \<Rightarrow> with_form OgcUrn (ogc_urn_code rest)
      | None \<Rightarrow>
      (case strip_prefix_ci ''urn:x-ogc:def:crs:'' s of
        Some rest \<Rightarrow> with_form ExperimentalUrn (ogc_urn_code rest)
      | None \<Rightarrow>
      (case strip_prefix_ci ''urn:adv:crs:'' s of
        Some rest \<Rightarrow>
          map_option (\<lambda>parts. (AdvUrn, compound parts))
            (those (map (parse_part d) (split_on CHR ''*'' rest)))
      | None \<Rightarrow>
      (case strip_prefix_ci ''urn:epsg:'' s of
        Some rest \<Rightarrow> with_form Wfs11Urn (map_option crs_epsg (epsg_code (last (split_on CHR '':'' rest))))
      | None \<Rightarrow>
      (case strip_http s of
        Some rest \<Rightarrow> parse_http (parse_part d) rest
      | None \<Rightarrow>
        if list_all is_ascii_digit s then with_form Short (map_option crs_epsg (epsg_code s))
        else (case named_crs d s of
          Some crs \<Rightarrow> Some (Short, Some crs)
        | None \<Rightarrow>
        (case split_once CHR '':'' s of
          None \<Rightarrow> None
        | Some (authority, code) \<Rightarrow>
            if eq_ignore_ascii_case authority ''EPSG''
            then with_form Short (epsg_codes (parse_part d) (trim_start_matches (\<lambda>c. c = CHR '':'') code))
            else None)))))))))"
| "parse_part d text =
     (if trim text = [] then None
      else (case Option.bind (parse_form d (trim text)) snd of
        Some crs \<Rightarrow> Some crs
      | None \<Rightarrow>
        (case ogc_urn_code (trim text) of
          Some crs \<Rightarrow> Some crs | None \<Rightarrow> Some (Crs_Unresolved (trim text)))))"
  by pat_completeness auto
termination
proof (relation "measure (\<lambda>x. case x of Inl (_, s) \<Rightarrow> 2 * length s | Inr (_, s) \<Rightarrow> 2 * length s + 1)",
    goal_cases)
  case 1
  then show ?case by simp
next
  case (2 d s x2 x y t)
  obtain p where p: "t = trim p" "p \<in> set (split_on CHR ''+'' (trim_start_matches (\<lambda>c. c = CHR '':'') y))"
    using 2 by auto
  have "length t \<le> length y"
    using p length_trim [of p] length_split_on [OF p(2)] length_dropWhile_le [of _ y]
    by (auto simp: trim_start_matches_def intro: order_trans)
  then show ?case using 2 by (auto dest: length_split_once)
next
  case (3 d s x2 t)
  then show ?case using length_strip_http [of s x2] by simp
next
  case (4 d s x2 x)
  then show ?case using length_strip_ci [of _ s x2] length_split_on [of x _ x2] by fastforce
next
  case (5 d s x2 x)
  have "length (case strip_prefix_ci ''crs:'' (trim x) of None \<Rightarrow> trim x | Some p \<Rightarrow> p) \<le> length x"
    using length_trim [of x] by (auto dest!: length_strip_ci split: option.split)
  with 5 show ?case using length_strip_ci [of _ s x2] length_split_on [of x _ x2] by fastforce
next
  case (6 d s)
  then show ?case using length_trim [of s] by simp
qed

declare parse_form.simps [simp del] parse_part.simps [simp del]

text \<open>\<open>SrsName::parse\<close>.\<close>

definition parse_srs :: "crs_data \<Rightarrow> bytes \<Rightarrow> srs_name" where
  "parse_srs d raw =
     (let (form, crs) = (case parse_form d (trim raw) of Some p \<Rightarrow> p | None \<Rightarrow> (UnknownForm, None))
      in \<lparr>sr_raw = raw, sr_form = (if crs = None then UnknownForm else form), sr_crs = crs\<rparr>)"

text \<open>To evaluate on literals.\<close>

lemmas prefix_simps = strip_prefix_ci_def strip_http_def eq_ignore_ascii_case_def lowercase_def
  to_ascii_lowercase_def byte_val_def char_of_def bit_0

end
