(* ===== verification/Crs_Laws.thy ===== *)
theory Crs_Laws
  imports Crs
begin

text \<open>
  Laws of the reference systems: what the parser returns is well formed, the forms of an EPSG code
  are one reference system, and the text written for a reference system is read back.
\<close>

subsection \<open>What a parsed reference system looks like\<close>

text \<open>The digits of an EPSG code, as \<open>u64::to_string\<close> writes them.\<close>

definition epsg_digits :: "bytes \<Rightarrow> bool" where
  "epsg_digits code \<longleftrightarrow> code = show_nat (digits_val code)"

fun crs_ok :: "crs_ref \<Rightarrow> bool" where
  "crs_ok (Crs_Code authority code) \<longleftrightarrow>
     authority \<noteq> [] \<and> code \<noteq> [] \<and> (authority = ''EPSG'' \<longrightarrow> epsg_digits code)"
| "crs_ok (Crs_Compound parts) \<longleftrightarrow>
     2 \<le> length parts \<and> \<not> list_all is_unresolved parts \<and> list_all crs_ok parts"
| "crs_ok (Crs_Unresolved name) \<longleftrightarrow> name \<noteq> []"

lemma epsg_digits_show [simp]: "epsg_digits (show_nat n)"
  by (simp add: epsg_digits_def digits_val_show_nat)

lemma crs_ok_epsg [simp]: "crs_ok (crs_epsg (show_nat n))"
  by (simp add: crs_epsg_def show_nat_digits)

lemma epsg_code_ok: "epsg_code s = Some c \<Longrightarrow> \<exists>n. c = show_nat n"
  by (auto simp: epsg_code_def Let_def split: if_splits)

lemma crs_ok_code: "epsg_code s = Some c \<Longrightarrow> crs_ok (crs_epsg c) \<and> \<not> is_unresolved (crs_epsg c)"
  by (auto dest!: epsg_code_ok simp: is_unresolved_def) (simp_all add: crs_epsg_def)

lemma code_ref_ok: "code_ref a s = Some c \<Longrightarrow> crs_ok c \<and> \<not> is_unresolved c"
  by (auto simp: code_ref_def Let_def is_unresolved_def dest: crs_ok_code split: if_splits)

lemma ogc_ok: "ogc_urn_code s = Some c \<Longrightarrow> crs_ok c \<and> \<not> is_unresolved c"
  by (auto simp: ogc_urn_code_def split: prod.splits bind_splits dest: code_ref_ok)

lemma named_ok: "named_crs d s = Some c \<Longrightarrow> crs_ok c \<and> \<not> is_unresolved c"
proof -
  have "list_all (\<lambda>(_, a, c). crs_ok (Crs_Code a c)) CRS_NAMES"
    unfolding CRS_NAMES_def
    by (simp add: epsg_digits_def digits_val_def digit_val_def show_nat.simps byte_val_def char_of_def bit_0)
  then show "named_crs d s = Some c \<Longrightarrow> crs_ok c \<and> \<not> is_unresolved c"
    by (auto simp: named_crs_def Let_def list_all_iff is_unresolved_def crs_epsg_def find_Some_iff show_nat_digits
        dest!: nth_mem split: option.splits)
qed

lemma compound_ok: "compound ps = Some c \<Longrightarrow> list_all crs_ok ps \<Longrightarrow> crs_ok c \<and> \<not> is_unresolved c"
proof -
  assume c: "compound ps = Some c" and ok: "list_all crs_ok ps"
  show ?thesis
  proof (cases "length ps = 1")
    case True
    then show ?thesis using c ok by (cases ps) (auto simp: compound_def split: if_splits)
  next
    case False
    then have "c = Crs_Compound ps" "\<not> list_all is_unresolved ps"
      using c by (auto simp: compound_def split: if_splits list.splits)
    moreover from this have "2 \<le> length ps" using False by (cases ps; cases "tl ps") auto
    ultimately show ?thesis using ok by (simp add: is_unresolved_def)
  qed
qed

lemma those_list_all:
  "those (map f xs) = Some ys \<Longrightarrow> (\<And>x y. x \<in> set xs \<Longrightarrow> f x = Some y \<Longrightarrow> P y) \<Longrightarrow> list_all P ys"
proof (induction xs arbitrary: ys)
  case (Cons x xs)
  then obtain z zs where "f x = Some z" "those (map f xs) = Some zs" "ys = z # zs"
    by (auto split: option.splits)
  with Cons.IH [of zs] Cons.prems(2) show ?case by auto
qed simp

lemma epsg_codes_ok:
  assumes "epsg_codes f s = Some c"
    and "\<And>t c. t \<in> set (map trim (split_on CHR ''+'' s)) \<Longrightarrow> f t = Some c \<Longrightarrow> crs_ok c"
  shows "crs_ok c \<and> \<not> is_unresolved c"
proof -
  obtain t ts first rest where ts: "map trim (split_on CHR ''+'' s) = t # ts" "epsg_code t = Some first"
    and rest: "those (map (\<lambda>code. case epsg_code code of None \<Rightarrow> f code | Some code \<Rightarrow> Some (crs_epsg code)) ts)
                 = Some rest"
    and c: "compound (crs_epsg first # rest) = Some c"
    using assms(1) by (auto simp: epsg_codes_def split: list.splits bind_splits)
  have "list_all crs_ok rest"
    using rest by (rule those_list_all) (use ts assms(2) in \<open>auto split: option.splits dest: crs_ok_code\<close>)
  with crs_ok_code [OF ts(2)] have "list_all crs_ok (crs_epsg first # rest)" by simp
  then show ?thesis by (rule compound_ok [OF c])
qed

lemma with_form_Some: "with_form f c = Some (f', r) \<longleftrightarrow> f' = f \<and> (\<exists>x. c = Some x \<and> r = Some x)"
  by (auto simp: with_form_def)

lemma geoserver_ok: "geoserver_code s = Some (f, Some c) \<Longrightarrow> crs_ok c \<and> \<not> is_unresolved c"
  by (auto simp: geoserver_code_def Let_def is_unresolved_def split: if_splits)

lemma parse_http_ok:
  assumes "parse_http f s = Some (form, Some c)"
    and f: "\<And>t c. length t < length s \<Longrightarrow> f t = Some c \<Longrightarrow> crs_ok c"
  shows "crs_ok c \<and> \<not> is_unresolved c"
proof -
  obtain rest where rest: "strip_prefix_ci ''www.opengis.net/'' s = Some rest"
    using assms(1) by (auto simp: parse_http_def split: bind_splits)
  have "crs_ok c \<and> \<not> is_unresolved c" if q: "strip_prefix_ci ''def/crs-compound?'' rest = Some q"
    and ps: "those (map (compound_pair f) (split_on CHR ''&'' q)) = Some ps"
    and c: "compound (map snd (sort_key fst ps)) = Some c" for q ps
  proof -
    have "list_all (\<lambda>p. crs_ok (snd p)) ps" using ps
    proof (rule those_list_all)
      fix pair kv assume pair: "pair \<in> set (split_on CHR ''&'' q)" and kv: "compound_pair f pair = Some kv"
      then obtain k v where v: "split_once CHR ''='' pair = Some (k, v)" "f v = Some (snd kv)"
        by (auto simp: compound_pair_def split: bind_splits)
      have "length v < length s"
        using length_split_once [OF v(1)] length_split_on [OF pair] length_strip_ci [OF q]
          length_strip_ci [OF rest] by simp
      then show "crs_ok (snd kv)" using f v(2) by blast
    qed
    with c show ?thesis by (intro compound_ok) (auto simp: list_all_iff)
  qed
  then show ?thesis
    using assms(1) rest
    by (auto simp: parse_http_def with_form_Some kvp_crs_def uri_crs_def split: option.splits bind_splits list.splits
        dest!: geoserver_ok code_ref_ok crs_ok_code)
qed

lemma parse_form_ok:
  "parse_form d s = Some (form, Some c) \<Longrightarrow> crs_ok c \<and> \<not> is_unresolved c"
  "parse_part d s = Some c \<Longrightarrow> crs_ok c"
proof (induction d s and d s arbitrary: form c and c rule: parse_form_parse_part.induct)
  case (1 d s)
  have parts: "crs_ok c \<and> \<not> is_unresolved c"
    if "compound ps = Some c" "those (map f xs) = Some ps" "\<And>x c. x \<in> set xs \<Longrightarrow> f x = Some c \<Longrightarrow> crs_ok c"
    for f and xs :: "bytes list" and ps
    using that those_list_all compound_ok by blast
  let ?urn = "strip_prefix_ci ''urn:ogc:def:crs,'' s" and ?ogc = "strip_prefix_ci ''urn:ogc:def:crs:'' s"
  let ?exp = "strip_prefix_ci ''urn:x-ogc:def:crs:'' s" and ?adv = "strip_prefix_ci ''urn:adv:crs:'' s"
  let ?epsg = "strip_prefix_ci ''urn:epsg:'' s"
  have short: "crs_ok c \<and> \<not> is_unresolved c"
    if "epsg_codes (parse_part d) (trim_start_matches (\<lambda>c. c = CHR '':'') y) = Some c" "s \<noteq> []"
      "?urn = None" "?ogc = None" "?exp = None" "?adv = None" "?epsg = None" "strip_http s = None"
      "\<not> list_all is_ascii_digit s" "named_crs d s = None" "split_once CHR '':'' s = Some (x, y)"
      "eq_ignore_ascii_case x ''EPSG''" for x y
    using that(1) by (rule epsg_codes_ok) (use 1(1) that in blast)
  have http: "crs_ok c \<and> \<not> is_unresolved c"
    if "parse_http (parse_part d) x = Some (form, Some c)" "s \<noteq> []"
      "?urn = None" "?ogc = None" "?exp = None" "?adv = None" "?epsg = None" "strip_http s = Some x" for x
    using that(1) by (rule parse_http_ok) (use 1(2) that in blast)
  have adv: "crs_ok c \<and> \<not> is_unresolved c"
    if "those (map (parse_part d) (split_on CHR ''*'' x)) = Some ps" "compound ps = Some c" "s \<noteq> []"
      "?urn = None" "?ogc = None" "?exp = None" "?adv = Some x" for x ps
    using that(2,1) by (rule parts) (use 1(3) that in blast)
  have urn: "crs_ok c \<and> \<not> is_unresolved c"
    if "those (map (\<lambda>p. parse_part d (case strip_prefix_ci ''crs:'' (trim p) of None \<Rightarrow> trim p | Some p \<Rightarrow> p))
          (split_on CHR '','' x)) = Some ps" "compound ps = Some c" "s \<noteq> []" "?urn = Some x" for x ps
    using that(2,1) by (rule parts) (use 1(4) that in blast)
  show ?case
    using 1(5) by (auto simp: parse_form.simps [of d s] with_form_Some split: if_splits option.splits prod.splits
        dest!: named_ok ogc_ok crs_ok_code dest: short http adv urn)
next
  case (2 d s)
  show ?case
    using 2(2) 2(1) by (auto simp: parse_part.simps [of d s] split: if_splits option.splits bind_splits dest: ogc_ok)
qed

text \<open>
  C34. A reference system that an srsName is parsed as is well formed, whatever the text: a code has an
  authority and a code, an EPSG code is written as the number without leading zeros, a compound
  has at least two parts of which one is known, and the whole is never an unresolved name.
\<close>

theorem parsed_crs_well_formed:
  "case sr_crs (parse_srs d raw) of None \<Rightarrow> sr_form (parse_srs d raw) = UnknownForm
   | Some c \<Rightarrow> crs_ok c \<and> \<not> is_unresolved c"
proof (cases "parse_form d (trim raw)")
  case None
  then show ?thesis by (simp add: parse_srs_def)
next
  case (Some p)
  then show ?thesis using parse_form_ok(1) [of d "trim raw" "fst p"]
    by (cases p) (auto simp: parse_srs_def split: option.split)
qed

lemma horizontal_single: "crs_ok c \<Longrightarrow> case horizontal c of Crs_Compound _ \<Rightarrow> False | _ \<Rightarrow> True"
  by (induction c rule: horizontal.induct) (auto split: list.splits)

subsection \<open>The forms of one reference system\<close>

lemma last_split_on: "c \<notin> set b \<Longrightarrow> last (split_on c (a @ c # b)) = b"
  by (simp add: split_on_append split_on_single)

definition printable :: "char \<Rightarrow> bool" where
  "printable c \<longleftrightarrow> 33 \<le> byte_val c \<and> byte_val c \<le> 126"

lemma whitespace_ends:
  "w \<in> set whitespace_chars \<Longrightarrow> w \<noteq> [] \<and> \<not> printable (hd w) \<and> \<not> printable (last w)"
  by (auto simp: whitespace_chars_def printable_def byte_val_def)

lemma trim_with_none:
  assumes "\<And>w. w \<in> set ws \<Longrightarrow> w \<noteq> [] \<Longrightarrow> \<not> printable (hd w)" and "s \<noteq> []" "printable (hd s)"
  shows "trim_with ws s = s"
proof -
  have "\<not> starts_with w s" if "w \<in> set ws" "w \<noteq> []" for w
    using assms(1) [OF that] assms(2,3) that(2) by (cases w; cases s) (auto simp: starts_with_def)
  then have "find (\<lambda>w. w \<noteq> [] \<and> starts_with w s) ws = None" by (auto simp: find_None_iff)
  then show ?thesis by (subst trim_with.simps) simp
qed

lemma trim_printable: "s \<noteq> [] \<Longrightarrow> printable (hd s) \<Longrightarrow> printable (last s) \<Longrightarrow> trim s = s"
proof -
  assume s: "s \<noteq> []" "printable (hd s)" "printable (last s)"
  have "trim_with whitespace_chars s = s"
    using s whitespace_ends by (intro trim_with_none) auto
  moreover have "trim_with (map rev whitespace_chars) (rev s) = rev s"
    using s whitespace_ends by (intro trim_with_none) (auto simp: hd_rev)
  ultimately show ?thesis by (simp add: trim_def)
qed

lemma digit_printable: "is_ascii_digit c \<Longrightarrow> printable c"
  by (simp add: is_ascii_digit_def printable_def)

lemma show_nat_in: "c \<in> set (show_nat n) \<Longrightarrow> is_ascii_digit c"
  using show_nat_digits(1) [of n] by (simp add: list_all_iff)

lemma show_nat_not_in:
  "CHR '':'' \<notin> set (show_nat n)" "CHR ''/'' \<notin> set (show_nat n)" "CHR ''+'' \<notin> set (show_nat n)"
  by (auto dest!: show_nat_in simp: is_ascii_digit_def byte_val_def)

lemma printable_number: "printable (hd (show_nat n))" "printable (last (show_nat n))"
  using show_nat_digits(2) [of n] by (auto intro!: digit_printable show_nat_in [of _ n])

lemma trim_show_nat [simp]: "trim (show_nat n) = show_nat n"
  by (rule trim_printable) (simp_all add: show_nat_digits printable_number)

lemma trim_before_number: "p \<noteq> [] \<Longrightarrow> printable (hd p) \<Longrightarrow> trim (p @ show_nat n) = p @ show_nat n"
  by (rule trim_printable) (simp_all add: show_nat_digits printable_number)

lemma parse_unsigned_show: "n < 2 ^ bits \<Longrightarrow> parse_unsigned bits (show_nat n) = Some n"
proof -
  assume n: "n < 2 ^ bits"
  obtain c cs where c: "show_nat n = c # cs" using show_nat_digits(2) [of n] by (cases "show_nat n") auto
  then have "c \<noteq> CHR ''+''" using show_nat_in [of c n] by (auto simp: is_ascii_digit_def byte_val_def)
  then show ?thesis
    using n show_nat_digits [of n] digits_val_show_nat [of n] by (simp add: parse_unsigned_def c)
qed

lemma epsg_code_show: "n < 2 ^ 64 \<Longrightarrow> epsg_code (show_nat n) = Some (show_nat n)"
  by (simp add: epsg_code_def show_nat_digits parse_unsigned_show)

lemma code_ref_epsg: "n < 2 ^ 64 \<Longrightarrow> code_ref ''EPSG'' (show_nat n) = Some (crs_epsg (show_nat n))"
proof -
  assume n: "n < 2 ^ 64"
  have "trim ''EPSG'' = ''EPSG''" by (rule trim_printable) (simp_all add: printable_def byte_val_def)
  moreover have "map to_ascii_uppercase ''EPSG'' = ''EPSG''"
    by (simp add: to_ascii_uppercase_def byte_val_def)
  ultimately show ?thesis using n by (simp add: code_ref_def epsg_code_show show_nat_digits)
qed

lemma form_ogc_urn:
  "n < 2 ^ 64 \<Longrightarrow> parse_form d (''urn:ogc:def:crs:EPSG::'' @ show_nat n) = Some (OgcUrn, Some (crs_epsg (show_nat n)))"
  using code_ref_epsg [of n] last_split_on [OF show_nat_not_in(1), of "[]" n]
  by (simp add: parse_form.simps prefix_simps ogc_urn_code_def with_form_def split_once_def)

lemma form_legacy:
  "n < 2 ^ 64 \<Longrightarrow> parse_form d (''http://www.opengis.net/gml/srs/epsg.xml#'' @ show_nat n)
     = Some (LegacyUrl, Some (crs_epsg (show_nat n)))"
  using epsg_code_show [of n]
  by (simp add: parse_form.simps prefix_simps with_form_def parse_http_def)

lemma form_experimental:
  "n < 2 ^ 64 \<Longrightarrow> parse_form d (''urn:x-ogc:def:crs:EPSG:'' @ show_nat n)
     = Some (ExperimentalUrn, Some (crs_epsg (show_nat n)))"
  using code_ref_epsg [of n]
  by (simp add: parse_form.simps prefix_simps ogc_urn_code_def with_form_def split_once_def
      split_on_single show_nat_not_in)

lemma form_wfs11:
  "n < 2 ^ 64 \<Longrightarrow> parse_form d (''urn:EPSG:geographicCRS:'' @ show_nat n)
     = Some (Wfs11Urn, Some (crs_epsg (show_nat n)))"
  using epsg_code_show [of n] last_split_on [OF show_nat_not_in(1), of "''geographicCRS''" n]
  by (simp add: parse_form.simps prefix_simps with_form_def)

lemma form_uri:
  "n < 2 ^ 64 \<Longrightarrow> parse_form d (''http://www.opengis.net/def/crs/EPSG/0/'' @ show_nat n)
     = Some (HttpUri, Some (crs_epsg (show_nat n)))"
proof -
  assume n: "n < 2 ^ 64"
  have "trim_end_matches (\<lambda>c. c = CHR ''/'') (''EPSG/0/'' @ show_nat n) = ''EPSG/0/'' @ show_nat n"
    using show_nat_digits(2) [of n] show_nat_not_in(2) [of n]
    by (cases "rev (show_nat n)") (auto simp: trim_end_matches_def)
  moreover have "split_on CHR ''/'' (''EPSG/0/'' @ show_nat n) = [''EPSG'', ''0'', show_nat n]"
    by (simp add: split_on_single show_nat_not_in)
  ultimately have "uri_crs (''EPSG/0/'' @ show_nat n) = Some (crs_epsg (show_nat n))"
    using n by (simp add: uri_crs_def code_ref_epsg)
  then show ?thesis
    by (simp add: parse_form.simps prefix_simps with_form_def parse_http_def)
qed

lemma form_number:
  "n < 2 ^ 64 \<Longrightarrow> parse_form d (show_nat n) = Some (Short, Some (crs_epsg (show_nat n)))"
proof -
  assume n: "n < 2 ^ 64"
  obtain c cs where c: "show_nat n = c # cs" using show_nat_digits(2) [of n] by (cases "show_nat n") auto
  then have "is_ascii_digit c" using show_nat_in [of c n] by simp
  then have "to_ascii_lowercase c \<noteq> CHR ''u''" "to_ascii_lowercase c \<noteq> CHR ''h''"
    by (auto simp: is_ascii_digit_def to_ascii_lowercase_def byte_val_def)
  then have "strip_prefix_ci (CHR ''u'' # p) (show_nat n) = None" "strip_prefix_ci (CHR ''h'' # p) (show_nat n) = None" for p
    unfolding c by (auto simp: strip_prefix_ci_def eq_ignore_ascii_case_def lowercase_def)
      (simp_all add: to_ascii_lowercase_def byte_val_def)
  then show ?thesis
    using n epsg_code_show [of n] show_nat_digits [of n]
    by (simp add: parse_form.simps strip_http_def with_form_def)
qed

subsection \<open>The text of a reference system\<close>

text \<open>The EPSG reference system of these codes: one code itself, several a compound.\<close>

definition crs_of_codes :: "nat list \<Rightarrow> crs_ref" where
  "crs_of_codes ns =
     (case map (\<lambda>n. crs_epsg (show_nat n)) ns of [c] \<Rightarrow> c | cs \<Rightarrow> Crs_Compound cs)"

lemma compound_codes: "ns \<noteq> [] \<Longrightarrow> compound (map (\<lambda>n. crs_epsg (show_nat n)) ns) = Some (crs_of_codes ns)"
  by (cases ns) (auto simp: compound_def crs_of_codes_def is_unresolved_def crs_epsg_def split: list.splits)

lemma write_codes:
  "t \<noteq> [] \<Longrightarrow>
   fst (foldl (write_part authority_code) (t, Some ''EPSG'') (map (\<lambda>n. crs_epsg (show_nat n)) ns))
     = join_with ''+'' (t # map show_nat ns)"
proof (induction ns arbitrary: t)
  case (Cons n ns)
  have "join_with ''+'' (t # show_nat n # ws) = join_with ''+'' ((t @ ''+'' @ show_nat n) # ws)" for ws
    by (cases ws) simp_all
  with Cons show ?case by (simp add: write_part_def crs_epsg_def)
qed simp

lemma authority_code_codes:
  "ns \<noteq> [] \<Longrightarrow> authority_code (crs_of_codes ns) = ''EPSG:'' @ join_with ''+'' (map show_nat ns)"
proof (cases ns)
  case (Cons n ms)
  have "authority_code (Crs_Compound (crs_epsg (show_nat n) # map (\<lambda>n. crs_epsg (show_nat n)) ms))
     = join_with ''+'' ((''EPSG:'' @ show_nat n) # map show_nat ms)"
    using write_codes [of "''EPSG:'' @ show_nat n" ms] by (simp add: write_part_def crs_epsg_def)
  also have "\<dots> = ''EPSG:'' @ join_with ''+'' (show_nat n # map show_nat ms)" by (cases ms) simp_all
  finally show ?thesis
    unfolding Cons by (cases ms) (simp_all add: crs_of_codes_def crs_epsg_def)
qed simp

lemma epsg_codes_join:
  assumes "ns \<noteq> []" "list_all (\<lambda>n. n < 2 ^ 64) ns"
  shows "epsg_codes p (join_with ''+'' (map show_nat ns)) = Some (crs_of_codes ns)"
proof -
  have "split_on CHR ''+'' (join_with ''+'' (map show_nat ns)) = map show_nat ns"
    by (rule split_on_join) (use assms(1) in \<open>simp_all add: list_all_iff show_nat_not_in\<close>)
  moreover have "those (map (\<lambda>code. case epsg_code code of None \<Rightarrow> p code | Some code \<Rightarrow> Some (crs_epsg code))
      (map show_nat ms)) = Some (map (\<lambda>n. crs_epsg (show_nat n)) ms)"
    if "list_all (\<lambda>n. n < 2 ^ 64) ms" for ms
    using that by (induction ms) (simp_all add: epsg_code_show)
  ultimately show ?thesis
    using assms compound_codes [of ns]
    by (cases ns) (simp_all add: epsg_codes_def epsg_code_show comp_def)
qed

lemma join_numbers:
  assumes "ns \<noteq> []"
  shows "\<exists>c s. join_with ''+'' (map show_nat ns) = c # s \<and> is_ascii_digit c"
    and "\<exists>s n. join_with ''+'' (map show_nat ns) = s @ show_nat n"
proof -
  obtain n ms where ns: "ns = n # ms" using assms by (cases ns) auto
  obtain c s where c: "show_nat n = c # s" using show_nat_digits(2) [of n] by (cases "show_nat n") auto
  then have "is_ascii_digit c" using show_nat_in [of c n] by simp
  then show "\<exists>c s. join_with ''+'' (map show_nat ns) = c # s \<and> is_ascii_digit c"
    unfolding ns by (cases ms) (auto simp: c)
  show "\<exists>s n. join_with ''+'' (map show_nat ns) = s @ show_nat n"
    using assms
  proof (induction ns)
    case (Cons n ns)
    show ?case
    proof (cases "ns = []")
      case True
      then show ?thesis by (auto intro: exI [of _ "[]"])
    next
      case False
      then obtain s m where "join_with ''+'' (map show_nat ns) = s @ show_nat m" using Cons by auto
      then have "join_with ''+'' (map show_nat (n # ns)) = (show_nat n @ ''+'' @ s) @ show_nat m"
        using False by (simp add: join_with_cons)
      then show ?thesis by blast
    qed
  qed simp
qed

lemma form_short:
  assumes "ns \<noteq> []" "list_all (\<lambda>n. n < 2 ^ 64) ns"
    and unused: "crs_alias d (authority_code (crs_of_codes ns)) = None"
  shows "parse_srs d (authority_code (crs_of_codes ns))
     = \<lparr>sr_raw = authority_code (crs_of_codes ns), sr_form = Short, sr_crs = Some (crs_of_codes ns)\<rparr>"
proof -
  let ?j = "join_with ''+'' (map show_nat ns)"
  have raw: "authority_code (crs_of_codes ns) = ''EPSG:'' @ ?j"
    using assms(1) by (rule authority_code_codes)
  obtain s n where j: "?j = s @ show_nat n" using join_numbers(2) [OF assms(1)] by blast
  have trim: "trim (''EPSG:'' @ ?j) = ''EPSG:'' @ ?j"
    using trim_before_number [of "''EPSG:'' @ s" n] unfolding j by (simp add: printable_def byte_val_def)
  then have named: "named_crs d (''EPSG:'' @ ?j) = None"
    using unused unfolding raw by (simp add: named_crs_def CRS_NAMES_def prefix_simps)
  obtain c t where ct: "?j = c # t" "is_ascii_digit c" using join_numbers(1) [OF assms(1)] by blast
  then have "trim_start_matches (\<lambda>c. c = CHR '':'') ?j = ?j"
    by (auto simp: trim_start_matches_def is_ascii_digit_def byte_val_def)
  then have "parse_form d (''EPSG:'' @ ?j) = Some (Short, Some (crs_of_codes ns))"
    using named epsg_codes_join [OF assms(1,2)]
    by (simp add: parse_form.simps prefix_simps with_form_def split_once_def is_ascii_digit_def)
  then show ?thesis unfolding raw parse_srs_def trim by simp
qed

text \<open>The ways of writing an EPSG code that need no table.\<close>

definition epsg_forms :: "(bytes \<times> srs_form) list" where
  "epsg_forms =
     [([], Short), (''urn:ogc:def:crs:EPSG::'', OgcUrn), (''urn:x-ogc:def:crs:EPSG:'', ExperimentalUrn),
      (''urn:EPSG:geographicCRS:'', Wfs11Urn), (''http://www.opengis.net/gml/srs/epsg.xml#'', LegacyUrl),
      (''http://www.opengis.net/def/crs/EPSG/0/'', HttpUri)]"

text \<open>
  C33. A code written as a number, a URN, a legacy URL or a URI is the same reference system, and only
  the form tells how it was written.
\<close>

theorem srs_forms_agree:
  assumes "n < 2 ^ 64"
  shows "list_all (\<lambda>(prefix, form). parse_srs d (prefix @ show_nat n)
      = \<lparr>sr_raw = prefix @ show_nat n, sr_form = form, sr_crs = Some (crs_of_codes [n])\<rparr>) epsg_forms"
proof -
  have crs: "crs_of_codes [n] = crs_epsg (show_nat n)" by (simp add: crs_of_codes_def)
  have form: "parse_srs d (p @ show_nat n)
      = \<lparr>sr_raw = p @ show_nat n, sr_form = f, sr_crs = Some (crs_of_codes [n])\<rparr>"
    if "parse_form d (p @ show_nat n) = Some (f, Some (crs_epsg (show_nat n)))" "p \<noteq> [] \<longrightarrow> printable (hd p)" for p f
    using that by (cases "p = []") (simp_all add: parse_srs_def crs trim_before_number)
  show ?thesis
    unfolding epsg_forms_def
    using form [OF form_ogc_urn [OF assms]] form [OF form_experimental [OF assms]]
      form [OF form_wfs11 [OF assms]] form [OF form_legacy [OF assms]] form [OF form_uri [OF assms]]
      form [of "[]", simplified, OF form_number [OF assms]]
    by (simp add: printable_def byte_val_def)
qed

theorem srs_forms_agree_witness:
  "list_all (\<lambda>(prefix, form). parse_srs \<lparr>cd_records = [], cd_aliases = [], cd_name_key = lowercase\<rparr> (prefix @ show_nat 2180)
      = \<lparr>sr_raw = prefix @ show_nat 2180, sr_form = form, sr_crs = Some (crs_of_codes [2180])\<rparr>) epsg_forms"
  by (rule srs_forms_agree) simp

text \<open>
  C21. The text written for an EPSG code, or for a compound of EPSG codes, is read back as the same
  reference system, unless the tables give that very text as an alias of another.
\<close>

theorem authority_code_roundtrip:
  assumes "ns \<noteq> []" "list_all (\<lambda>n. n < 2 ^ 64) ns"
    and "crs_alias d (authority_code (crs_of_codes ns)) = None"
  shows "parse_srs d (authority_code (crs_of_codes ns))
     = \<lparr>sr_raw = authority_code (crs_of_codes ns), sr_form = Short, sr_crs = Some (crs_of_codes ns)\<rparr>"
  using assms by (rule form_short)

theorem authority_code_roundtrip_witness:
  "parse_srs \<lparr>cd_records = [], cd_aliases = [(''pl-1992'', 2180)], cd_name_key = lowercase\<rparr>
       (authority_code (crs_of_codes [25832, 7837]))
     = \<lparr>sr_raw = authority_code (crs_of_codes [25832, 7837]), sr_form = Short,
        sr_crs = Some (crs_of_codes [25832, 7837])\<rparr>"
  by (rule authority_code_roundtrip)
    (simp_all add: authority_code_codes crs_alias_def alias_index_def index_alias_def prefix_simps)

end
