(* ===== verification/Axis.thy ===== *)
theory Axis
  imports Crs Versions
begin

text \<open>
  Axis order (\<open>crates/xeibe-geom/src/axis.rs\<close>): the modes, the evidence a scan gathers for one
  srsName, and the decision whether the first two ordinates are swapped, with its reason and the
  evidence against it in words. The reasons are the code's texts; \<open>{:?}\<close> of a string and its
  lower case follow the tables of Unicode and are the record \<open>unicode\<close>. A vote that cannot be
  given is \<open>None\<close>, and \<open>Err\<close> with the reason is \<open>Inl\<close>.
\<close>

subsection \<open>Modes, evidence and decisions\<close>

datatype axis_order_mode =
  Mode_XY | Mode_YX | Mode_Crs | Mode_CrsHeuristic
| Mode_GmlVersion (am_gml2: axis_order_mode) (am_gml3: axis_order_mode)
| Mode_Auto

record axis_options =
  ao_mode :: axis_order_mode
  ao_overrides :: "(bytes \<times> axis_order_mode) list"
  ao_crs_table :: "crs_table option"

text \<open>The form of the options in the settings file: a bare mode, or a mode with overrides.\<close>

datatype axis_repr = Repr_Mode axis_order_mode | Repr_Full axis_order_mode "(bytes \<times> axis_order_mode) list"

definition options_from_repr :: "axis_repr \<Rightarrow> axis_options" where
  "options_from_repr r =
     (case r of
        Repr_Mode mode \<Rightarrow> \<lparr>ao_mode = mode, ao_overrides = [], ao_crs_table = None\<rparr>
      | Repr_Full mode overrides \<Rightarrow> \<lparr>ao_mode = mode, ao_overrides = overrides, ao_crs_table = None\<rparr>)"

definition options_to_repr :: "axis_options \<Rightarrow> axis_repr" where
  "options_to_repr opts =
     (if ao_overrides opts = [] then Repr_Mode (ao_mode opts) else Repr_Full (ao_mode opts) (ao_overrides opts))"

record axis_key =
  ak_source :: nat
  ak_srs_name :: "bytes option"
  ak_dialect :: dialect

record axis_evidence =
  ae_sampled_bbox :: "bbox option"
  ae_samples :: nat
  ae_axis_labels :: "bytes list"
  ae_envelope_bbox :: "bbox option"

definition default_evidence :: axis_evidence where
  "default_evidence =
     \<lparr>ae_sampled_bbox = None, ae_samples = 0, ae_axis_labels = [], ae_envelope_bbox = None\<rparr>"

definition union_bbox :: "bbox option \<Rightarrow> bbox option \<Rightarrow> bbox option" where
  "union_bbox a b =
     (case (a, b) of
        (Some (a0, a1, a2, a3), Some (b0, b1, b2, b3)) \<Rightarrow>
          Some (f64_min a0 b0, f64_min a1 b1, f64_max a2 b2, f64_max a3 b3)
      | (a, None) \<Rightarrow> a
      | (None, b) \<Rightarrow> b)"

text \<open>One label of the other sample: appended unless it is there.\<close>

definition add_label :: "bytes \<Rightarrow> bytes list \<Rightarrow> bytes list" where
  "add_label label labels = (if label \<in> set labels then labels else labels @ [label])"

definition merge_evidence :: "axis_evidence \<Rightarrow> axis_evidence \<Rightarrow> axis_evidence" where
  "merge_evidence a b =
     \<lparr>ae_sampled_bbox = union_bbox (ae_sampled_bbox a) (ae_sampled_bbox b),
      ae_samples = ae_samples a + ae_samples b,
      ae_axis_labels = fold add_label (ae_axis_labels b) (ae_axis_labels a),
      ae_envelope_bbox = union_bbox (ae_envelope_bbox a) (ae_envelope_bbox b)\<rparr>"

record axis_context =
  ax_fme_produced :: bool
  ax_producer :: "bytes option"
  ax_wfs_version :: "bytes option"
  ax_requested_srs :: "srs_name option"
  ax_requested_bbox :: "bbox option"
  ax_source :: "bytes option"

record axis_decision =
  ad_swap :: bool
  ad_reason :: bytes
  ad_conflicts :: "bytes list"

text \<open>
  Rust's \<open>{:?}\<close> of a string and \<open>str::to_lowercase\<close>, which follow the tables of Unicode.
\<close>

record unicode =
  un_debug :: "bytes \<Rightarrow> bytes"
  un_lowercase :: "bytes \<Rightarrow> bytes"

record vote =
  vo_swap :: bool
  vo_reason :: bytes

definition mk_vote :: "bool \<Rightarrow> bytes \<Rightarrow> vote" where
  "mk_vote swap reason = \<lparr>vo_swap = swap, vo_reason = reason\<rparr>"

record decider =
  dc_key :: axis_key
  dc_srs :: "srs_name option"
  dc_evidence :: axis_evidence
  dc_context :: axis_context
  dc_table :: crs_table
  dc_unicode :: unicode

definition IS_YX :: bytes where
  "IS_YX = ''so the file is y/x and the coordinates are swapped''"

definition IS_XY :: bytes where
  "IS_XY = ''so the file is x/y''"

definition ASSUMED_XY :: bytes where
  "ASSUMED_XY = ''so the file is taken to be x/y''"

definition file_is :: "bool \<Rightarrow> bytes" where
  "file_is swap = (if swap then IS_YX else IS_XY)"

subsection \<open>Labels and boxes\<close>

text \<open>The word before the next white space or comma.\<close>

definition label_separators :: "bytes list" where
  "label_separators = whitespace_chars @ ['','']"

fun take_word :: "bytes list \<Rightarrow> bytes \<Rightarrow> bytes" where
  "take_word seps [] = []"
| "take_word seps (c # s) =
     (if list_ex (\<lambda>w. starts_with w (c # s)) seps then [] else c # take_word seps s)"

definition first_label :: "bytes \<Rightarrow> bytes option" where
  "first_label labels =
     (case trim_with label_separators labels of
        [] \<Rightarrow> None | s \<Rightarrow> Some (take_word label_separators s))"

definition first_axis_from_labels :: "unicode \<Rightarrow> bytes \<Rightarrow> first_axis option" where
  "first_axis_from_labels u labels =
     Option.bind (first_label labels) (\<lambda>first.
       let first = un_lowercase u first in
       if first \<in> {''lat'', ''latitude'', [CHR 0xCF, CHR 0x86], ''phi'', ''n'', ''north'', ''northing'', ''y''}
       then Some NorthOrLat
       else if first \<in> {''long'', ''lon'', ''lng'', ''longitude'', [CHR 0xCE, CHR 0xBB], ''lambda'', ''e'',
                         ''east'', ''easting'', ''x''}
       then Some EastOrLon
       else if first \<in> {''w'', ''west'', ''westing'', ''s'', ''south'', ''southing''} then Some OtherAxis
       else None)"

definition intersects :: "bbox \<Rightarrow> bbox \<Rightarrow> bool" where
  "intersects a b \<longleftrightarrow>
     (case (a, b) of ((a0, a1, a2, a3), (b0, b1, b2, b3)) \<Rightarrow>
        f64_le a0 b2 \<and> f64_le b0 a2 \<and> f64_le a1 b3 \<and> f64_le b1 a3)"

definition swapped_bbox :: "bbox \<Rightarrow> bbox" where
  "swapped_bbox b = (case b of (b0, b1, b2, b3) \<Rightarrow> (b1, b0, b3, b2))"

text \<open>\<open>0.1\<close> as an \<open>f64\<close>, and \<open>a + b\<close>.\<close>

definition SLACK :: f64 where
  "SLACK = 0x3FB999999999999A"

definition f64_add :: "f64 \<Rightarrow> f64 \<Rightarrow> f64" where
  "f64_add a b = f64_sub a (b XOR 0x8000000000000000)"

definition inside :: "f64 \<Rightarrow> f64 \<Rightarrow> f64 \<Rightarrow> bool" where
  "inside lo hi v \<longleftrightarrow>
     (if f64_le lo hi then f64_le (f64_sub lo SLACK) v \<and> f64_le v (f64_add hi SLACK)
      else f64_le (f64_sub lo SLACK) v \<or> f64_le v (f64_add hi SLACK))"

definition within :: "f64 \<times> f64 \<Rightarrow> f64 \<Rightarrow> f64 \<Rightarrow> bool" where
  "within ab lo hi \<longleftrightarrow> inside lo hi (fst ab) \<and> inside lo hi (snd ab)"

definition override_for :: "(bytes \<times> axis_order_mode) list \<Rightarrow> bytes \<Rightarrow> axis_order_mode option" where
  "override_for overrides srs =
     (let srs = trim srs in
      case map_of overrides srs of Some mode \<Rightarrow> Some mode
      | None \<Rightarrow> map_option snd (find (\<lambda>(key, _). trim key = srs) overrides))"

subsection \<open>The decider\<close>

definition srs_crs :: "decider \<Rightarrow> crs_ref option" where
  "srs_crs dc = Option.bind (dc_srs dc) sr_crs"

text \<open>\<open>let CrsRef::Code { authority, code } = crs.horizontal() else ..\<close>\<close>

definition horizontal_code :: "crs_ref \<Rightarrow> (bytes \<times> bytes) option" where
  "horizontal_code crs = (case horizontal crs of Crs_Code authority code \<Rightarrow> Some (authority, code) | _ \<Rightarrow> None)"

definition known_geographic :: "decider \<Rightarrow> bool option" where
  "known_geographic dc =
     Option.bind (srs_crs dc) (\<lambda>crs.
       if is_lon_lat_by_definition crs then Some True
       else Option.bind (horizontal_code crs) (\<lambda>(authority, code).
            map_option ci_geographic (table_get (dc_table dc) authority code)))"

definition order_text :: "decider \<Rightarrow> bool \<Rightarrow> bytes" where
  "order_text dc swap =
     (let order = (if swap then ''y/x'' else ''x/y'') in
      case known_geographic dc of None \<Rightarrow> order
      | Some geographic \<Rightarrow>
          order @ '' ('' @ (if geographic then (if swap then ''latitude'' else ''longitude'')
                            else (if swap then ''northing'' else ''easting'')) @ '' first)'')"

text \<open>What the table says of the first axis, as a vote.\<close>

definition first_axis_vote :: "bytes \<Rightarrow> bytes \<Rightarrow> crs_info \<Rightarrow> vote" where
  "first_axis_vote authority code info =
     (let north = (if ci_geographic info then ''latitude'' else ''northing'');
          east = (if ci_geographic info then ''longitude'' else ''easting'');
          name = authority @ '':'' @ code
      in case ci_first_axis info of
           NorthOrLat \<Rightarrow> mk_vote True (name @ '' puts '' @ north @ '' first, '' @ IS_YX)
         | EastOrLon \<Rightarrow> mk_vote False (name @ '' puts '' @ east @ '' first, '' @ IS_XY)
         | OtherAxis \<Rightarrow> mk_vote False (name @ [CHR 0x27] @ ''s axes aren'' @ [CHR 0x27] @
             ''t an easting and a northing (or longitude and latitude) in either order, which a swap can'' @
             [CHR 0x27] @ ''t fix, so the coordinates are left in the file'' @ [CHR 0x27] @ ''s order''))"

definition unknown_srs :: "decider \<Rightarrow> srs_name \<Rightarrow> bytes" where
  "unknown_srs dc srs =
     ''the srsName '' @ un_debug (dc_unicode dc) (sr_raw srs) @ '' isn'' @ [CHR 0x27] @ ''t one xeibe knows''"

definition authority_order :: "decider \<Rightarrow> bytes + vote" where
  "authority_order dc =
     (case dc_srs dc of None \<Rightarrow> Inl ''there is no srsName''
      | Some srs \<Rightarrow>
        (case sr_crs srs of None \<Rightarrow> Inl (unknown_srs dc srs)
         | Some crs \<Rightarrow>
           if is_lon_lat_by_definition crs
           then Inr (mk_vote False (authority_code crs @ '' puts longitude first by definition, '' @ IS_XY))
           else (case horizontal_code crs of
               None \<Rightarrow> Inl (''the srsName '' @ un_debug (dc_unicode dc) (sr_raw srs) @
                        '' names no known horizontal CRS'')
             | Some (authority, code) \<Rightarrow>
               (case table_get (dc_table dc) authority code of
                  None \<Rightarrow> Inl (authority @ '':'' @ code @ '' isn'' @ [CHR 0x27] @ ''t in xeibe'' @ [CHR 0x27] @
                           ''s CRS table'')
                | Some info \<Rightarrow> Inr (first_axis_vote authority code info)))))"

definition follows_crs :: "decider \<Rightarrow> bytes \<Rightarrow> bytes + vote" where
  "follows_crs dc form =
     then_result (authority_order dc) (\<lambda>v.
       Inr (mk_vote (vo_swap v) (''a '' @ form @ '' srsName follows its CRS, and '' @ vo_reason v)))"

definition as_written_vote :: "decider \<Rightarrow> srs_name \<Rightarrow> bytes \<Rightarrow> vote" where
  "as_written_vote dc srs form =
     mk_vote False (''a '' @ form @ '' srsName like '' @ un_debug (dc_unicode dc) (sr_raw srs) @
       '' means the file is '' @ order_text dc False @ '', whatever axis order its CRS has'')"

definition heuristic :: "decider \<Rightarrow> bytes + vote" where
  "heuristic dc =
     (case dc_srs dc of None \<Rightarrow> Inl ''there is no srsName''
      | Some srs \<Rightarrow>
        (case sr_form srs of
           Short \<Rightarrow> Inr (as_written_vote dc srs ''short'')
         | LegacyUrl \<Rightarrow> Inr (as_written_vote dc srs ''legacy URL'')
         | UnknownForm \<Rightarrow> Inl (unknown_srs dc srs)
         | HttpUri \<Rightarrow> follows_crs dc ''URI''
         | HttpUriKvp \<Rightarrow> follows_crs dc ''URI''
         | CompoundUri \<Rightarrow> follows_crs dc ''URI''
         | _ \<Rightarrow> follows_crs dc ''URN''))"

subsection \<open>The votes of Auto\<close>

definition known_axes :: "decider \<Rightarrow> (bytes \<times> first_axis) list" where
  "known_axes dc =
     filter (\<lambda>(_, axis). axis \<noteq> OtherAxis)
       (List.map_filter (\<lambda>labels. map_option (Pair labels) (first_axis_from_labels (dc_unicode dc) labels))
         (ae_axis_labels (dc_evidence dc)))"

text \<open>The vote of the labels, and the conflict they report when they disagree.\<close>

definition labels_vote :: "decider \<Rightarrow> vote option \<times> bytes list" where
  "labels_vote dc =
     (case known_axes dc of [] \<Rightarrow> (None, [])
      | (labels, first) # _ \<Rightarrow>
          if list_ex (\<lambda>(_, axis). axis \<noteq> first) (known_axes dc)
          then (None, [''the geometries'' @ [CHR 0x27] @ '' axisLabels disagree: '' @
                  join_with '', '' (map (un_debug (dc_unicode dc)) (ae_axis_labels (dc_evidence dc)))])
          else
            (let swap = (first = NorthOrLat);
                 which = (if swap then ''latitude or northing'' else ''longitude or easting'')
             in (Some (mk_vote swap (''the geometry'' @ [CHR 0x27] @ ''s axisLabels '' @
                    un_debug (dc_unicode dc) labels @ '' put '' @ which @ '' first, '' @ file_is swap)), [])))"

text \<open>Whether the box, with its first and second axis as given, fits the area of use.\<close>

definition fits :: "bbox \<Rightarrow> f64 \<times> f64 \<Rightarrow> f64 \<times> f64 \<Rightarrow> bool" where
  "fits area first second \<longleftrightarrow>
     (case area of (a0, a1, a2, a3) \<Rightarrow> within first a0 a2 \<and> within second a1 a3)"

definition range_swap :: "bbox \<Rightarrow> bool \<Rightarrow> bbox \<Rightarrow> bool option" where
  "range_swap area north_first b =
     (case b of (b0, b1, b2, b3) \<Rightarrow>
        let as_written = fits area (b0, b2) (b1, b3);
            swapped = fits area (b1, b3) (b0, b2)
        in if as_written \<and> \<not> swapped then Some north_first
           else if \<not> as_written \<and> swapped then Some (\<not> north_first)
           else None)"

definition range_vote :: "decider \<Rightarrow> vote option" where
  "range_vote dc =
     (if ae_samples (dc_evidence dc) = 0 then None
      else
        Option.bind (ae_sampled_bbox (dc_evidence dc)) (\<lambda>b.
        Option.bind (srs_crs dc) (\<lambda>crs.
          if is_lon_lat_by_definition crs then None
          else
            Option.bind (horizontal_code crs) (\<lambda>(authority, code).
            Option.bind (table_get (dc_table dc) authority code) (\<lambda>info.
            Option.bind (ci_area_of_use info) (\<lambda>area.
            Option.bind (range_swap area (ci_first_axis info = NorthOrLat) b) (\<lambda>swap.
              Some (mk_vote swap (''the coordinates fall inside the area where '' @ authority @ '':'' @ code @
                '' is used only if the file is '' @ order_text dc swap @
                (if swap then '', so they are swapped'' else []))))))))))"

definition is_ok :: "'e + 'a \<Rightarrow> 'a option" where
  "is_ok r = (case r of Inl _ \<Rightarrow> None | Inr x \<Rightarrow> Some x)"

definition quirk_producer :: "axis_context \<Rightarrow> bytes option" where
  "quirk_producer ctx =
     (let producer = (case ax_producer ctx of Some p \<Rightarrow> p | None \<Rightarrow> []);
          wfs11 = (case ax_wfs_version ctx of Some v \<Rightarrow> starts_with ''1.1'' v | None \<Rightarrow> False)
      in if ax_fme_produced ctx then Some ''FME''
         else if wfs11 \<and> contains_sub ''mapserver.gis.umn.edu'' producer
              then Some (''MapServer'' @ [CHR 0x27] @ ''s WFS 1.1'')
         else if wfs11 \<and> contains_sub ''/wfsserver'' (lowercase producer)
              then Some (''ArcGIS Server'' @ [CHR 0x27] @ ''s WFS 1.1'')
         else None)"

definition quirk_vote :: "decider \<Rightarrow> vote option" where
  "quirk_vote dc =
     Option.bind (dc_srs dc) (\<lambda>srs.
       if sr_form srs \<noteq> Short then None
       else
         Option.bind (quirk_producer (dc_context dc)) (\<lambda>producer.
         Option.bind (is_ok (authority_order dc)) (\<lambda>v.
           Some (mk_vote (vo_swap v) (''the file comes from '' @ producer @
             '', which writes a short srsName like '' @ un_debug (dc_unicode dc) (sr_raw srs) @
             '' in its CRS'' @ [CHR 0x27] @ ''s axis order, and '' @ vo_reason v)))))"

definition gml2_vote :: "decider \<Rightarrow> vote option" where
  "gml2_vote dc =
     (if ak_dialect (dc_key dc) = Gml2
      then Some (mk_vote False ''GML 2 geometry is always x/y (it predates CRS axis order)'') else None)"

definition authority_vote :: "decider \<Rightarrow> bytes \<Rightarrow> vote option" where
  "authority_vote dc what =
     Option.bind (is_ok (authority_order dc)) (\<lambda>v.
       Some (mk_vote (vo_swap v) (what @ '' follow the CRS'' @ [CHR 0x27] @ ''s axis order, and '' @ vo_reason v)))"

text \<open>The form a WFS 1.1 response is judged by: its own unless short or unknown.\<close>

definition wfs11_form :: "decider \<Rightarrow> srs_form option" where
  "wfs11_form dc =
     (case map_option sr_form (dc_srs dc) of
        Some form \<Rightarrow>
          if form \<in> {Short, UnknownForm}
          then map_option sr_form (case ax_requested_srs (dc_context dc) of Some r \<Rightarrow> Some r | None \<Rightarrow> dc_srs dc)
          else Some form
      | None \<Rightarrow> map_option sr_form (case ax_requested_srs (dc_context dc) of Some r \<Rightarrow> Some r | None \<Rightarrow> dc_srs dc))"

definition wfs_vote :: "decider \<Rightarrow> vote option" where
  "wfs_vote dc =
     Option.bind (ax_wfs_version (dc_context dc)) (\<lambda>version.
       if starts_with ''1.0'' version then Some (mk_vote False ''WFS 1.0 responses are always x/y'')
       else if map_option sr_form (dc_srs dc) = Some LegacyUrl
       then Some (mk_vote False (''WFS 1.1 and 2.0 responses with a legacy URL srsName are x/y (GeoServer writes '' @
              ''that form exactly when its coordinates are)''))
       else if starts_with ''1.1'' version then
         Option.bind (wfs11_form dc) (\<lambda>form.
           if form \<in> {Short, LegacyUrl} then Some (mk_vote False ''WFS 1.1 responses with a short srsName are x/y'')
           else if form = UnknownForm then None
           else authority_vote dc ''WFS 1.1 responses with a URN srsName'')
       else if starts_with ''2'' version then authority_vote dc ''WFS 2.0 responses''
       else None)"

text \<open>The fallback always answers.\<close>

definition fallback_vote :: "decider \<Rightarrow> bool \<Rightarrow> vote" where
  "fallback_vote dc alone =
     (case heuristic dc of
        Inr v \<Rightarrow>
          if alone
          then mk_vote (vo_swap v) (''nothing in the file settles the order, so GDAL'' @ [CHR 0x27] @
                 ''s rule applies: '' @ vo_reason v)
          else mk_vote (vo_swap v) (''GDAL'' @ [CHR 0x27] @ ''s rule: '' @ vo_reason v)
      | Inl why \<Rightarrow>
          if alone
          then mk_vote False (''nothing in the file settles the order, and '' @ why @ '', '' @ ASSUMED_XY)
          else mk_vote False (why @ '', '' @ ASSUMED_XY))"

definition option_list :: "'a option \<Rightarrow> 'a list" where
  "option_list o' = (case o' of None \<Rightarrow> [] | Some x \<Rightarrow> [x])"

text \<open>Conflicts the envelopes add.\<close>

definition envelope_warnings :: "decider \<Rightarrow> bool \<Rightarrow> bytes list" where
  "envelope_warnings dc swap =
     (case ae_sampled_bbox (dc_evidence dc) of None \<Rightarrow> []
      | Some sampled \<Rightarrow>
          (case ae_envelope_bbox (dc_evidence dc) of None \<Rightarrow> []
           | Some envelope \<Rightarrow>
               if \<not> intersects sampled envelope \<and> intersects (swapped_bbox sampled) envelope
               then [''the boundedBy envelope is written in the other axis order than the geometries''] else []) @
          (case ax_requested_bbox (dc_context dc) of None \<Rightarrow> []
           | Some requested \<Rightarrow>
               (let output = (if swap then swapped_bbox sampled else sampled);
                    other = (if swap then sampled else swapped_bbox sampled)
                in if \<not> intersects output requested \<and> intersects other requested
                   then [''read this way, the geometries fall outside the requested BBOX, but inside it the other way'']
                   else [])))"

definition auto_votes :: "decider \<Rightarrow> vote list" where
  "auto_votes dc =
     (let votes = option_list (fst (labels_vote dc)) @ option_list (range_vote dc) @ option_list (quirk_vote dc) @
                  option_list (gml2_vote dc) @ option_list (wfs_vote dc)
      in votes @ [fallback_vote dc (votes = [])])"

definition auto_decision :: "decider \<Rightarrow> axis_decision" where
  "auto_decision dc =
     (let votes = auto_votes dc; chosen = hd votes in
      \<lparr>ad_swap = vo_swap chosen, ad_reason = vo_reason chosen,
       ad_conflicts = snd (labels_vote dc) @
         map vo_reason (filter (\<lambda>v. vo_swap v \<noteq> vo_swap chosen) (tl votes)) @
         envelope_warnings dc (vo_swap chosen)\<rparr>)"

definition decided :: "bool \<Rightarrow> bytes \<Rightarrow> axis_decision" where
  "decided swap reason = \<lparr>ad_swap = swap, ad_reason = reason, ad_conflicts = []\<rparr>"

fun apply_mode :: "decider \<Rightarrow> axis_order_mode \<Rightarrow> axis_decision" where
  "apply_mode dc Mode_XY = decided False ''axis mode XY: the file is always taken to be x/y''"
| "apply_mode dc Mode_YX = decided True
     ''axis mode YX: the file is always taken to be y/x, and the coordinates are swapped''"
| "apply_mode dc Mode_Crs =
     (case authority_order dc of
        Inr v \<Rightarrow> decided (vo_swap v) (''axis mode Crs follows the CRS: '' @ vo_reason v)
      | Inl why \<Rightarrow> decided False (''axis mode Crs follows the CRS, but '' @ why @ '', '' @ ASSUMED_XY))"
| "apply_mode dc Mode_CrsHeuristic =
     (case heuristic dc of
        Inr v \<Rightarrow> decided (vo_swap v) (''axis mode CrsHeuristic (GDAL'' @ [CHR 0x27] @ ''s rule): '' @ vo_reason v)
      | Inl why \<Rightarrow> decided False (''axis mode CrsHeuristic (GDAL'' @ [CHR 0x27] @ ''s rule), but '' @ why @
          '', '' @ ASSUMED_XY))"
| "apply_mode dc (Mode_GmlVersion gml2 gml3) =
     (let (name, decision) = (case ak_dialect (dc_key dc) of
            Gml2 \<Rightarrow> (''GML 2'', apply_mode dc gml2) | Gml3 \<Rightarrow> (''GML 3'', apply_mode dc gml3))
      in decision\<lparr>ad_reason := ''axis mode GmlVersion, for '' @ name @ '' geometry: '' @ ad_reason decision\<rparr>)"
| "apply_mode dc Mode_Auto = auto_decision dc"

definition new_decider ::
  "unicode \<Rightarrow> crs_data \<Rightarrow> axis_key \<Rightarrow> axis_evidence \<Rightarrow> axis_context \<Rightarrow> axis_options \<Rightarrow> decider" where
  "new_decider u data key evidence ctx options =
     \<lparr>dc_key = key, dc_srs = map_option (parse_srs data) (ak_srs_name key), dc_evidence = evidence,
      dc_context = ctx,
      dc_table = (case ao_crs_table options of Some table \<Rightarrow> table | None \<Rightarrow> builtin_table data),
      dc_unicode = u\<rparr>"

definition decide ::
  "unicode \<Rightarrow> crs_data \<Rightarrow> axis_key \<Rightarrow> axis_evidence \<Rightarrow> axis_context \<Rightarrow> axis_options \<Rightarrow> axis_decision" where
  "decide u data key evidence ctx options =
     (let dc = new_decider u data key evidence ctx options in
      case Option.bind (ak_srs_name key) (\<lambda>srs. map_option (Pair srs) (override_for (ao_overrides options) srs)) of
        Some (srs, mode) \<Rightarrow>
          (let decision = apply_mode dc mode in
           decision\<lparr>ad_reason := ''override for '' @ un_debug u srs @ '', '' @ ad_reason decision\<rparr>)
      | None \<Rightarrow> apply_mode dc (ao_mode options))"

end
