(* ===== verification/Axis_Laws.thy ===== *)
theory Axis_Laws
  imports Axis "HOL-Library.Multiset"
begin

text \<open>
  Laws of the axis decision: what a decision sees of the evidence, merged as an abstract commutative
  semigroup, so that the order of a merge cannot change it; and the check against the area of use.
\<close>

subsection \<open>Evidence, as far as decisions see it\<close>

text \<open>A number up to the sign of zero and the payload of a NaN, as comparisons see it.\<close>

definition num_key :: "f64 \<Rightarrow> int option" where
  "num_key x = (if is_nan x then None else Some (f64_key x))"

lemma f64_le_key:
  "f64_le a b \<longleftrightarrow> (case (num_key a, num_key b) of (Some x, Some y) \<Rightarrow> x \<le> y | _ \<Rightarrow> False)"
  by (auto simp: f64_le_def num_key_def)

definition merge_key :: "(int \<Rightarrow> int \<Rightarrow> int) \<Rightarrow> int option \<Rightarrow> int option \<Rightarrow> int option" where
  "merge_key f a b = (case (a, b) of (Some x, Some y) \<Rightarrow> Some (f x y) | (None, b) \<Rightarrow> b | (a, None) \<Rightarrow> a)"

lemma merge_key_commute: "(\<And>x y. f x y = f y x) \<Longrightarrow> merge_key f a b = merge_key f b a"
  by (auto simp: merge_key_def split: option.splits)

lemma merge_key_assoc:
  "(\<And>x y z. f (f x y) z = f x (f y z)) \<Longrightarrow> merge_key f (merge_key f a b) c = merge_key f a (merge_key f b c)"
  by (auto simp: merge_key_def split: option.splits)

lemma num_key_min: "num_key (f64_min a b) = merge_key min (num_key a) (num_key b)"
  by (auto simp: num_key_def f64_min_def merge_key_def min_def)

lemma num_key_max: "num_key (f64_max a b) = merge_key max (num_key a) (num_key b)"
  by (auto simp: num_key_def f64_max_def merge_key_def max_def)

type_synonym box_key = "int option \<times> int option \<times> int option \<times> int option"

definition box_key :: "bbox \<Rightarrow> box_key" where
  "box_key b = (case b of (b0, b1, b2, b3) \<Rightarrow> (num_key b0, num_key b1, num_key b2, num_key b3))"

definition union_key :: "box_key option \<Rightarrow> box_key option \<Rightarrow> box_key option" where
  "union_key a b =
     (case (a, b) of
        (Some (a0, a1, a2, a3), Some (b0, b1, b2, b3)) \<Rightarrow>
          Some (merge_key min a0 b0, merge_key min a1 b1, merge_key max a2 b2, merge_key max a3 b3)
      | (a, None) \<Rightarrow> a
      | (None, b) \<Rightarrow> b)"

lemma union_key_commute: "union_key a b = union_key b a"
  by (auto simp: union_key_def merge_key_commute [of min] merge_key_commute [of max] min.commute max.commute
      split: option.splits prod.splits)

lemma union_key_assoc: "union_key (union_key a b) c = union_key a (union_key b c)"
  by (auto simp: union_key_def merge_key_assoc [of min] merge_key_assoc [of max] min.assoc max.assoc
      split: option.splits prod.splits)

lemma union_bbox_key:
  "map_option box_key (union_bbox a b) = union_key (map_option box_key a) (map_option box_key b)"
  by (auto simp: union_bbox_def union_key_def box_key_def num_key_min num_key_max split: option.splits prod.splits)

type_synonym seen = "box_key option \<times> nat \<times> bytes set \<times> box_key option"

definition seen :: "axis_evidence \<Rightarrow> seen" where
  "seen e = (map_option box_key (ae_sampled_bbox e), ae_samples e, set (ae_axis_labels e),
             map_option box_key (ae_envelope_bbox e))"

definition merge_seen :: "seen \<Rightarrow> seen \<Rightarrow> seen" where
  "merge_seen a b =
     (case (a, b) of ((sa, na, la, ea), (sb, nb, lb, eb)) \<Rightarrow>
        (union_key sa sb, na + nb, la \<union> lb, union_key ea eb))"

interpretation seen: abel_semigroup merge_seen
proof
  show "merge_seen (merge_seen a b) c = merge_seen a (merge_seen b c)" for a b c
    by (cases a; cases b; cases c) (auto simp: merge_seen_def union_key_assoc)
  show "merge_seen a b = merge_seen b a" for a b
    by (cases a; cases b) (auto simp: merge_seen_def union_key_commute)
qed

lemma set_add_labels: "set (fold add_label ls labels) = set labels \<union> set ls"
  by (induction ls arbitrary: labels) (auto simp: add_label_def)

lemma seen_merge: "seen (merge_evidence a b) = merge_seen (seen a) (seen b)"
  by (simp add: seen_def merge_evidence_def merge_seen_def union_bbox_key set_add_labels)

lemma seen_fold: "seen (foldl merge_evidence e es) = fold (\<lambda>x s. merge_seen s (seen x)) es (seen e)"
  by (induction es arbitrary: e) (simp_all add: seen_merge)

lemma seen_permuted:
  assumes "mset es = mset es'"
  shows "seen (foldl merge_evidence e es) = seen (foldl merge_evidence e es')"
proof -
  have "fold (\<lambda>x s. merge_seen s (seen x)) es = fold (\<lambda>x s. merge_seen s (seen x)) es'"
    by (rule fold_multiset_equiv [OF _ assms]) (auto simp: seen.assoc seen.commute fun_eq_iff seen.left_commute)
  then show ?thesis by (simp add: seen_fold)
qed

subsection \<open>Decisions see no more\<close>

definition swap_of :: "vote option \<Rightarrow> bool option" where
  "swap_of v = map_option vo_swap v"

text \<open>Everything but the evidence.\<close>

lemma fields_evidence:
  "dc_key (dc\<lparr>dc_evidence := e\<rparr>) = dc_key dc" "dc_srs (dc\<lparr>dc_evidence := e\<rparr>) = dc_srs dc"
  "dc_context (dc\<lparr>dc_evidence := e\<rparr>) = dc_context dc" "dc_table (dc\<lparr>dc_evidence := e\<rparr>) = dc_table dc"
  "dc_unicode (dc\<lparr>dc_evidence := e\<rparr>) = dc_unicode dc" "dc_evidence (dc\<lparr>dc_evidence := e\<rparr>) = e"
  by simp_all

lemma srs_evidence: "srs_crs (dc\<lparr>dc_evidence := e\<rparr>) = srs_crs dc"
  "unknown_srs (dc\<lparr>dc_evidence := e\<rparr>) s = unknown_srs dc s"
  by (simp_all add: srs_crs_def unknown_srs_def)

lemma authority_order_evidence [simp]: "authority_order (dc\<lparr>dc_evidence := e\<rparr>) = authority_order dc"
  unfolding authority_order_def srs_evidence fields_evidence ..

lemma order_evidence [simp]: "order_text (dc\<lparr>dc_evidence := e\<rparr>) s = order_text dc s"
  unfolding order_text_def known_geographic_def srs_evidence fields_evidence ..

lemma heuristic_evidence [simp]: "heuristic (dc\<lparr>dc_evidence := e\<rparr>) = heuristic dc"
  unfolding heuristic_def follows_crs_def as_written_vote_def srs_evidence fields_evidence
    authority_order_evidence order_evidence ..

lemma votes_evidence [simp]:
  "quirk_vote (dc\<lparr>dc_evidence := e\<rparr>) = quirk_vote dc" "gml2_vote (dc\<lparr>dc_evidence := e\<rparr>) = gml2_vote dc"
  "wfs_vote (dc\<lparr>dc_evidence := e\<rparr>) = wfs_vote dc" "fallback_vote (dc\<lparr>dc_evidence := e\<rparr>) b = fallback_vote dc b"
  unfolding quirk_vote_def gml2_vote_def wfs_vote_def fallback_vote_def authority_vote_def wfs11_form_def
    fields_evidence authority_order_evidence heuristic_evidence by (rule refl)+

text \<open>The labels vote by the set of the axes they name.\<close>

definition label_axes :: "unicode \<Rightarrow> bytes set \<Rightarrow> first_axis set" where
  "label_axes u labels = {a. a \<noteq> OtherAxis \<and> (\<exists>l \<in> labels. first_axis_from_labels u l = Some a)}"

lemma known_axes_set:
  "snd ` set (known_axes dc) = label_axes (dc_unicode dc) (set (ae_axis_labels (dc_evidence dc)))"
  by (force simp: known_axes_def label_axes_def List.map_filter_def)

lemma labels_swap:
  "swap_of (fst (labels_vote dc)) =
     (let A = label_axes (dc_unicode dc) (set (ae_axis_labels (dc_evidence dc))) in
      if A = {NorthOrLat} then Some True else if A = {EastOrLon} then Some False else None)"
proof (cases "known_axes dc")
  case Nil
  then show ?thesis using known_axes_set [of dc] by (auto simp: labels_vote_def swap_of_def)
next
  case (Cons p ps)
  obtain l a where p: "p = (l, a)" by (cases p)
  let ?A = "label_axes (dc_unicode dc) (set (ae_axis_labels (dc_evidence dc)))"
  have A: "?A = insert a (snd ` set ps)" using known_axes_set [of dc] Cons p by simp
  then have "a \<noteq> OtherAxis" by (auto simp: label_axes_def)
  then have a: "a = NorthOrLat \<or> a = EastOrLon" by (cases a) auto
  have "list_ex (\<lambda>(_, x). x \<noteq> a) (known_axes dc) \<longleftrightarrow> ?A \<noteq> {a}"
    unfolding A Cons p by (auto simp: list_ex_iff)
  then show ?thesis using a A by (auto simp: labels_vote_def Cons p swap_of_def mk_vote_def Let_def)
qed

lemma within_key:
  "map_prod num_key num_key p = map_prod num_key num_key q \<Longrightarrow> within p lo hi = within q lo hi"
  by (cases p; cases q) (simp add: within_def inside_def f64_le_key)

lemma range_swap_key: "box_key b = box_key b' \<Longrightarrow> range_swap area nf b = range_swap area nf b'"
proof -
  assume b: "box_key b = box_key b'"
  obtain b0 b1 b2 b3 c0 c1 c2 c3 where bs: "b = (b0, b1, b2, b3)" "b' = (c0, c1, c2, c3)" by (metis prod_cases4)
  have k: "num_key b0 = num_key c0" "num_key b1 = num_key c1" "num_key b2 = num_key c2" "num_key b3 = num_key c3"
    using b by (simp_all add: bs box_key_def)
  have "within (b0, b2) lo hi = within (c0, c2) lo hi" "within (b1, b3) lo hi = within (c1, c3) lo hi" for lo hi
    by (rule within_key, simp add: k)+
  then show ?thesis by (simp add: bs range_swap_def fits_def split: prod.splits)
qed

lemma range_swap_of:
  "swap_of (range_vote dc) =
     (if ae_samples (dc_evidence dc) = 0 then None
      else
        Option.bind (ae_sampled_bbox (dc_evidence dc)) (\<lambda>b.
        Option.bind (srs_crs dc) (\<lambda>crs.
          if is_lon_lat_by_definition crs then None
          else
            Option.bind (horizontal_code crs) (\<lambda>(authority, code).
            Option.bind (table_get (dc_table dc) authority code) (\<lambda>info.
            Option.bind (ci_area_of_use info) (\<lambda>area.
              range_swap area (ci_first_axis info = NorthOrLat) b))))))"
  by (auto simp: swap_of_def range_vote_def mk_vote_def split: bind_splits option.splits)

lemma seen_eq_iff:
  "seen e = seen e' \<longleftrightarrow>
     map_option box_key (ae_sampled_bbox e) = map_option box_key (ae_sampled_bbox e') \<and>
     ae_samples e = ae_samples e' \<and> set (ae_axis_labels e) = set (ae_axis_labels e') \<and>
     map_option box_key (ae_envelope_bbox e) = map_option box_key (ae_envelope_bbox e')"
  unfolding seen_def by (simp only: prod.inject)

lemma range_seen_box:
  assumes "map_option box_key (ae_sampled_bbox e) = map_option box_key (ae_sampled_bbox (dc_evidence dc))"
    and n: "ae_samples e = ae_samples (dc_evidence dc)"
  shows "swap_of (range_vote (dc\<lparr>dc_evidence := e\<rparr>)) = swap_of (range_vote dc)"
proof (cases "ae_sampled_bbox e")
  case None
  then have "ae_sampled_bbox (dc_evidence dc) = None" using assms(1) by simp
  then show ?thesis unfolding range_swap_of fields_evidence None by simp
next
  case (Some x)
  then have "map_option box_key (ae_sampled_bbox (dc_evidence dc)) = Some (box_key x)"
    using assms(1) by simp
  then obtain y where y: "ae_sampled_bbox (dc_evidence dc) = Some y" "box_key x = box_key y"
    by (cases "ae_sampled_bbox (dc_evidence dc)") auto
  have r: "range_swap area nf x = range_swap area nf y" for area nf
    by (rule range_swap_key [OF y(2)])
  show ?thesis
    unfolding range_swap_of fields_evidence srs_evidence Some y(1) n Option.bind.bind_lunit r by (rule refl)
qed

lemma range_seen:
  "seen e = seen (dc_evidence dc) \<Longrightarrow> swap_of (range_vote (dc\<lparr>dc_evidence := e\<rparr>)) = swap_of (range_vote dc)"
  by (rule range_seen_box) (simp_all only: seen_eq_iff)

lemma hd_swaps:
  "vo_swap (hd (auto_votes dc)) =
     hd (option_list (swap_of (fst (labels_vote dc))) @ option_list (swap_of (range_vote dc)) @
         option_list (swap_of (quirk_vote dc)) @ option_list (swap_of (gml2_vote dc)) @
         option_list (swap_of (wfs_vote dc)) @ [vo_swap (fallback_vote dc True)])"
  by (auto simp: auto_votes_def option_list_def swap_of_def fallback_vote_def mk_vote_def split: option.splits sum.splits)

lemma auto_seen:
  assumes "seen e = seen (dc_evidence dc)"
  shows "ad_swap (auto_decision (dc\<lparr>dc_evidence := e\<rparr>)) = ad_swap (auto_decision dc)"
proof -
  have "set (ae_axis_labels e) = set (ae_axis_labels (dc_evidence dc))" using assms by (simp add: seen_def)
  then have "swap_of (fst (labels_vote (dc\<lparr>dc_evidence := e\<rparr>))) = swap_of (fst (labels_vote dc))"
    by (simp add: labels_swap)
  then show ?thesis by (simp add: auto_decision_def Let_def hd_swaps range_seen [OF assms])
qed

lemma apply_seen:
  assumes "seen e = seen (dc_evidence dc)"
  shows "ad_swap (apply_mode (dc\<lparr>dc_evidence := e\<rparr>) mode) = ad_swap (apply_mode dc mode)"
  using auto_seen [OF assms]
  by (induction mode) (auto simp: decided_def Let_def split: sum.splits dialect.splits)

lemma decide_seen:
  assumes "seen e = seen e'"
  shows "ad_swap (decide u d key e ctx opts) = ad_swap (decide u d key e' ctx opts)"
proof -
  let ?dc = "new_decider u d key e' ctx opts"
  have "new_decider u d key e ctx opts = ?dc\<lparr>dc_evidence := e\<rparr>" by (simp add: new_decider_def)
  moreover have "seen e = seen (dc_evidence ?dc)" using assms by (simp add: new_decider_def)
  ultimately show ?thesis by (auto simp: decide_def Let_def apply_seen split: option.splits)
qed

subsection \<open>The order of a merge\<close>

text \<open>
  C16. Whether coordinates are swapped does not depend on the order in which the evidence of chunks,
  files or workers is merged: any order of the same samples gives the same decision, under every mode
  and override.
\<close>

theorem decision_ignores_merge_order:
  assumes "mset es = mset es'"
  shows "ad_swap (decide u data key (foldl merge_evidence default_evidence es) ctx options)
       = ad_swap (decide u data key (foldl merge_evidence default_evidence es') ctx options)"
  by (rule decide_seen) (rule seen_permuted [OF assms])

definition label_sample :: "bytes \<Rightarrow> axis_evidence" where
  "label_sample labels = default_evidence\<lparr>ae_samples := 1, ae_axis_labels := [labels]\<rparr>"

definition no_context :: axis_context where
  "no_context = \<lparr>ax_fme_produced = False, ax_producer = None, ax_wfs_version = None, ax_requested_srs = None,
     ax_requested_bbox = None, ax_source = None\<rparr>"

theorem decision_ignores_merge_order_witness:
  "ad_swap (decide \<lparr>un_debug = id, un_lowercase = lowercase\<rparr>
       \<lparr>cd_records = [], cd_aliases = [], cd_name_key = lowercase\<rparr>
       \<lparr>ak_source = 0, ak_srs_name = Some ''EPSG:2180'', ak_dialect = Gml3\<rparr>
       (foldl merge_evidence default_evidence [label_sample ''Lat Long'', label_sample ''y x''])
       no_context \<lparr>ao_mode = Mode_Auto, ao_overrides = [], ao_crs_table = None\<rparr>)
   = ad_swap (decide \<lparr>un_debug = id, un_lowercase = lowercase\<rparr>
       \<lparr>cd_records = [], cd_aliases = [], cd_name_key = lowercase\<rparr>
       \<lparr>ak_source = 0, ak_srs_name = Some ''EPSG:2180'', ak_dialect = Gml3\<rparr>
       (foldl merge_evidence default_evidence [label_sample ''y x'', label_sample ''Lat Long''])
       no_context \<lparr>ao_mode = Mode_Auto, ao_overrides = [], ao_crs_table = None\<rparr>)"
  by (rule decision_ignores_merge_order) simp

subsection \<open>The area of use\<close>

text \<open>The box the reader returns when it swaps or not, and whether it lies in an area.\<close>

definition read_as :: "bool \<Rightarrow> bbox \<Rightarrow> bbox" where
  "read_as swap b = (if swap then swapped_bbox b else b)"

definition lies_in :: "bbox \<Rightarrow> bbox \<Rightarrow> bool" where
  "lies_in area b = (case b of (b0, b1, b2, b3) \<Rightarrow> fits area (b0, b2) (b1, b3))"

lemma lies_in_swapped: "lies_in (swapped_bbox area) (swapped_bbox b) = lies_in area b"
  by (cases area; cases b) (auto simp: lies_in_def fits_def swapped_bbox_def)

lemma swapped_twice [simp]: "swapped_bbox (swapped_bbox b) = b"
  by (cases b) (simp add: swapped_bbox_def)

lemma range_swap_lies:
  "range_swap area north b = Some swap \<longleftrightarrow>
     lies_in (read_as north area) (read_as swap b) \<and> \<not> lies_in (read_as north area) (read_as (\<not> swap) b)"
proof -
  have w: "range_swap area north b =
      (if lies_in area b \<and> \<not> lies_in area (swapped_bbox b) then Some north
       else if \<not> lies_in area b \<and> lies_in area (swapped_bbox b) then Some (\<not> north) else None)"
    by (cases b) (simp add: range_swap_def lies_in_def swapped_bbox_def)
  show ?thesis
    unfolding w using lies_in_swapped [of area b] lies_in_swapped [of area "swapped_bbox b"]
    by (cases north; cases swap) (auto simp: read_as_def)
qed

text \<open>
  C24. When the CRS has an area of use that only one reading of the sampled positions fits, and the
  labels do not say otherwise, Auto reads the file so that the positions it returns lie in the area:
  in x/y order, whatever the axis order of the CRS.
\<close>

theorem auto_reads_into_area:
  assumes "fst (labels_vote dc) = None" and "0 < ae_samples (dc_evidence dc)"
    and "ae_sampled_bbox (dc_evidence dc) = Some b"
    and "srs_crs dc = Some crs" and "\<not> is_lon_lat_by_definition crs"
    and "horizontal_code crs = Some (authority, code)"
    and "table_get (dc_table dc) authority code = Some info" and "ci_area_of_use info = Some area"
    and one: "lies_in (read_as (ci_first_axis info = NorthOrLat) area) b
            \<noteq> lies_in (read_as (ci_first_axis info = NorthOrLat) area) (swapped_bbox b)"
  shows "lies_in (read_as (ci_first_axis info = NorthOrLat) area) (read_as (ad_swap (auto_decision dc)) b)"
proof -
  let ?north = "ci_first_axis info = NorthOrLat"
  obtain s where s: "range_swap area ?north b = Some s"
  proof (cases "lies_in (read_as ?north area) b")
    case True
    with one have "range_swap area ?north b = Some False" by (simp add: range_swap_lies read_as_def)
    then show thesis by (rule that)
  next
    case False
    with one have "range_swap area ?north b = Some True" by (simp add: range_swap_lies read_as_def)
    then show thesis by (rule that)
  qed
  then have r: "swap_of (range_vote dc) = Some s"
    unfolding range_swap_of using assms(2) by (simp add: assms(3-8))
  have "ad_swap (auto_decision dc) = vo_swap (hd (auto_votes dc))" by (simp add: auto_decision_def Let_def)
  also have "\<dots> = s"
    unfolding hd_swaps r by (simp add: assms(1) swap_of_def option_list_def)
  finally have "ad_swap (auto_decision dc) = s" .
  then show ?thesis using s unfolding range_swap_lies by simp
qed

text \<open>ETRS89, whose first axis is the latitude, and positions near Warsaw written x/y.\<close>

definition etrs89 :: crs_record where
  "etrs89 = \<lparr>rc_code = 4258, rc_name = ''ETRS89'', rc_kind = Geographic2d, rc_first_axis = NorthOrLat, rc_dimension = 2,
     rc_linear_unit_m = None, rc_angular_unit_rad = None,
     rc_area_wgs84 = Some (0x4040000000000000, 0xC031000000000000, 0x4055400000000000, 0x4044000000000000),
     rc_datum = Some 6258, rc_method = None, rc_deprecated = False\<rparr>"

definition warsaw :: bbox where
  "warsaw = (0x4035000000000000, 0x404A000000000000, 0x4035000000000000, 0x404A000000000000)"

definition etrs89_decider :: decider where
  "etrs89_decider =
     \<lparr>dc_key = \<lparr>ak_source = 0, ak_srs_name = Some ''urn:ogc:def:crs:EPSG::4258'', ak_dialect = Gml3\<rparr>,
      dc_srs = Some \<lparr>sr_raw = ''urn:ogc:def:crs:EPSG::4258'', sr_form = OgcUrn,
                     sr_crs = Some (Crs_Code ''EPSG'' ''4258'')\<rparr>,
      dc_evidence = \<lparr>ae_sampled_bbox = Some warsaw, ae_samples = 1, ae_axis_labels = [], ae_envelope_bbox = None\<rparr>,
      dc_context = no_context,
      dc_table = builtin_table \<lparr>cd_records = [etrs89], cd_aliases = [], cd_name_key = id\<rparr>,
      dc_unicode = \<lparr>un_debug = id, un_lowercase = id\<rparr>\<rparr>"

lemma etrs89_area: "area_in_axis_order etrs89 = rc_area_wgs84 etrs89"
  by (simp add: etrs89_def area_in_axis_order_def is_geographic_def)

lemma etrs89_lookup: "table_get (dc_table etrs89_decider) ''EPSG'' ''4258'' = Some (from_record etrs89)"
  by (simp add: etrs89_decider_def table_get_def builtin_table_def crs_get_def prefix_simps
      parse_unsigned_def digits_val_def digit_val_def is_ascii_digit_def etrs89_def)


definition etrs89_bounds :: bbox where
  "etrs89_bounds = (0x4040000000000000, 0xC031000000000000, 0x4055400000000000, 0x4044000000000000)"

lemma etrs89_info:
  "ci_first_axis (from_record etrs89) = NorthOrLat" "ci_area_of_use (from_record etrs89) = Some etrs89_bounds"
  by (simp_all add: from_record_def etrs89_area) (simp_all add: etrs89_def etrs89_bounds_def)

lemma etrs89_slack:
  "f64_sub 0x4040000000000000 SLACK = 0x403FE66666666666"
  "f64_sub 0xC031000000000000 SLACK = 0xC03119999999999A"
  "f64_add 0x4055400000000000 SLACK = 0x4055466666666666"
  "f64_add 0x4044000000000000 SLACK = 0x40440CCCCCCCCCCD"
  by (simp_all add: f64_add_def SLACK_def f64_evals bit_len_between [of 1078] bit_len_between [of 1079]
      bit_len_between [of 1080])

lemma etrs89_fits: "lies_in (read_as True etrs89_bounds) warsaw" "\<not> lies_in (read_as True etrs89_bounds) (swapped_bbox warsaw)"
  by (simp_all add: lies_in_def fits_def within_def inside_def read_as_def swapped_bbox_def warsaw_def
      etrs89_bounds_def etrs89_slack f64_le_def f64_key_def is_nan_def f64_magnitude_def is_negative_def)

lemma etrs89_horizontal: "horizontal_code (Crs_Code ''EPSG'' ''4258'') = Some (''EPSG'', ''4258'')"
  by (simp add: horizontal_code_def)

lemma etrs89_fields:
  "fst (labels_vote etrs89_decider) = None" "0 < ae_samples (dc_evidence etrs89_decider)"
  "ae_sampled_bbox (dc_evidence etrs89_decider) = Some warsaw"
  "srs_crs etrs89_decider = Some (Crs_Code ''EPSG'' ''4258'')"
  "\<not> is_lon_lat_by_definition (Crs_Code ''EPSG'' ''4258'')"
  by (simp_all add: etrs89_decider_def labels_vote_def known_axes_def List.map_filter_def srs_crs_def prefix_simps)

theorem auto_reads_into_area_witness:
  "lies_in (read_as True etrs89_bounds) (read_as (ad_swap (auto_decision etrs89_decider)) warsaw)"
  using auto_reads_into_area [OF etrs89_fields etrs89_horizontal etrs89_lookup etrs89_info(2)] etrs89_fits
  by (simp add: etrs89_info(1))

end
