(* ===== verification/Node_Stats.thy ===== *)
theory Node_Stats
  imports Splitter Geometry Value_Stats Axis
    "HOL-Library.AList" "HOL-Library.Option_ord" "HOL-Library.Product_Lexorder" "HOL-Library.List_Lexorder"
begin

text \<open>
  What a scan observed (\<open>crates/xeibe-schema/src/node.rs\<close>, \<open>geometry_stats.rs\<close>,
  \<open>observation.rs\<close>): the tree of the element paths of a layer, the statistics of its geometries,
  and how the observations of chunks, files and workers are merged. An \<open>IndexMap\<close> is the list of
  its entries in order; the counters, which count elements of the input, are \<open>nat\<close>.
\<close>

subsection \<open>Maps in insertion order\<close>

text \<open>
  \<open>match map.get_mut(&key) { Some(existing) => existing.merge(value), None => insert }\<close> for one
  entry, and for all entries of the other map. The flag tells whether a key was inserted.
\<close>

definition merge_entry ::
  "('v \<Rightarrow> 'v \<Rightarrow> 'v) \<Rightarrow> 'k \<times> 'v \<Rightarrow> ('k \<times> 'v) list \<times> bool \<Rightarrow> ('k \<times> 'v) list \<times> bool" where
  "merge_entry f kv st =
     (let (k, v) = kv; (m, inserted) = st in
      case map_of m k of
        Some existing \<Rightarrow> (AList.update k (f existing v) m, inserted)
      | None \<Rightarrow> (m @ [(k, v)], True))"

definition index_merge ::
  "('v \<Rightarrow> 'v \<Rightarrow> 'v) \<Rightarrow> ('k \<times> 'v) list \<Rightarrow> ('k \<times> 'v) list \<Rightarrow> ('k \<times> 'v) list \<times> bool" where
  "index_merge f m other = fold (merge_entry f) other (m, False)"

lemma merge_entry_cong:
  "(\<And>x. f x (snd kv) = g x (snd kv)) \<Longrightarrow> merge_entry f kv = merge_entry g kv"
  by (rule ext) (auto simp: merge_entry_def split: prod.splits option.splits)

lemma index_merge_cong [fundef_cong]:
  assumes "m = m'" "other = other'" "\<And>x kv. kv \<in> set other' \<Longrightarrow> f x (snd kv) = g x (snd kv)"
  shows "index_merge f m other = index_merge g m' other'"
  unfolding index_merge_def assms(1,2) by (rule fold_cong) (auto intro: merge_entry_cong assms(3))

subsection \<open>Geometry statistics\<close>

text \<open>The sets and maps with sorted keys: a set, and the list of the entries, whose order is not read.\<close>

record axis_column_key =
  ck_source :: nat
  ck_srs_name :: "bytes option"
  ck_dialect :: dialect

record geometry_stats =
  gs_count :: nat
  gs_kinds :: "geom_kind set"
  gs_has_curves :: bool
  gs_has_unsupported :: bool
  gs_dims :: "nat set"
  gs_srs :: "(bytes \<times> nat) list"
  gs_axis_evidence :: "(axis_column_key \<times> axis_evidence) list"
  gs_by_reference :: nat
  gs_empty :: nat

record geometry_sniff =
  sn_kinds :: "geom_kind list"
  sn_has_curves :: bool
  sn_has_unsupported :: bool
  sn_srs_name :: "bytes option"
  sn_srs_dimension :: "nat option"
  sn_axis_labels :: "bytes option"
  sn_dialect :: "dialect option"
  sn_first_position :: "f64 list option"
  sn_by_reference :: bool
  sn_empty :: bool
  sn_gml_33 :: bool

definition is_envelope :: "geometry_sniff \<Rightarrow> bool" where
  "is_envelope sniff \<longleftrightarrow> (case sn_kinds sniff of k # _ \<Rightarrow> k = GK_Envelope \<or> k = GK_Box | [] \<Rightarrow> False)"

text \<open>\<open>*map.entry(key).or_default() += n\<close>.\<close>

definition add_count :: "'k \<Rightarrow> nat \<Rightarrow> ('k \<times> nat) list \<Rightarrow> ('k \<times> nat) list" where
  "add_count k n m = AList.update k ((case map_of m k of Some c \<Rightarrow> c | None \<Rightarrow> 0) + n) m"

definition first_position :: "geometry_sniff \<Rightarrow> f64 list option" where
  "first_position sniff =
     (case sn_first_position sniff of Some p \<Rightarrow> if 2 \<le> length p then Some p else None | None \<Rightarrow> None)"

definition observed_dims :: "geometry_sniff \<Rightarrow> nat set" where
  "observed_dims sniff =
     (let dim = (case sn_srs_dimension sniff of Some d \<Rightarrow> Some d
                 | None \<Rightarrow> map_option (\<lambda>p. min (length p) 3) (first_position sniff))
      in case dim of Some d \<Rightarrow> {d}
         | None \<Rightarrow> if \<not> sn_empty sniff \<and> \<not> sn_by_reference sniff then {2} else {})"

definition observe_evidence :: "geometry_sniff \<Rightarrow> axis_evidence \<Rightarrow> axis_evidence" where
  "observe_evidence sniff e =
     (let e = (case sn_axis_labels sniff of
             Some labels \<Rightarrow> e\<lparr>ae_axis_labels := add_label labels (ae_axis_labels e)\<rparr> | None \<Rightarrow> e)
      in case first_position sniff of None \<Rightarrow> e
         | Some p \<Rightarrow>
             (let point = Some (p ! 0, p ! 1, p ! 0, p ! 1) in
              if is_envelope sniff then e\<lparr>ae_envelope_bbox := union_bbox (ae_envelope_bbox e) point\<rparr>
              else e\<lparr>ae_sampled_bbox := union_bbox (ae_sampled_bbox e) point, ae_samples := ae_samples e + 1\<rparr>))"

definition sniff_key :: "nat \<Rightarrow> geometry_sniff \<Rightarrow> axis_column_key" where
  "sniff_key source sniff =
     \<lparr>ck_source = source, ck_srs_name = sn_srs_name sniff,
      ck_dialect = (case sn_dialect sniff of Some d \<Rightarrow> d | None \<Rightarrow> Gml3)\<rparr>"

definition observe_geometry :: "nat \<Rightarrow> geometry_sniff \<Rightarrow> geometry_stats \<Rightarrow> geometry_stats" where
  "observe_geometry source sniff s =
     (let key = sniff_key source sniff;
          evidence = (case map_of (gs_axis_evidence s) key of Some e \<Rightarrow> e | None \<Rightarrow> default_evidence)
      in \<lparr>gs_count = gs_count s + 1,
          gs_kinds = gs_kinds s \<union> set (take 1 (sn_kinds sniff)),
          gs_has_curves = (gs_has_curves s \<or> sn_has_curves sniff),
          gs_has_unsupported =
            (gs_has_unsupported s \<or> sn_has_unsupported sniff \<or> GK_Unsupported \<in> set (sn_kinds sniff)),
          gs_dims = gs_dims s \<union> observed_dims sniff,
          gs_srs = (case sn_srs_name sniff of Some srs \<Rightarrow> add_count srs 1 (gs_srs s) | None \<Rightarrow> gs_srs s),
          gs_axis_evidence = AList.update key (observe_evidence sniff evidence) (gs_axis_evidence s),
          gs_by_reference = gs_by_reference s + (if sn_by_reference sniff then 1 else 0),
          gs_empty = gs_empty s + (if sn_empty sniff then 1 else 0)\<rparr>)"

definition multi_part :: "geometry_sniff \<Rightarrow> geometry_sniff" where
  "multi_part part =
     (case sn_kinds part of [] \<Rightarrow> part | k # ks \<Rightarrow> part\<lparr>sn_kinds := kind_multi k # ks\<rparr>)"

definition observe_parts :: "nat \<Rightarrow> geometry_sniff list \<Rightarrow> geometry_stats \<Rightarrow> geometry_stats" where
  "observe_parts source parts s =
     (let s = fold (\<lambda>part. observe_geometry source (multi_part part)) parts s
      in s\<lparr>gs_count := gs_count s - (length parts - 1)\<rparr>)"

text \<open>\<open>iter().max_by(..)\<close>: by the count, then the smaller name; the last of equal ones.\<close>

definition more_frequent :: "bytes \<times> nat \<Rightarrow> bytes \<times> nat \<Rightarrow> bytes \<times> nat" where
  "more_frequent a b = (if snd b < snd a \<or> (snd a = snd b \<and> fst a < fst b) then a else b)"

definition main_srs :: "geometry_stats \<Rightarrow> bytes option" where
  "main_srs s = (case gs_srs s of [] \<Rightarrow> None | p # ps \<Rightarrow> Some (fst (fold (\<lambda>b a. more_frequent a b) ps p)))"

definition merge_geometry :: "geometry_stats \<Rightarrow> geometry_stats \<Rightarrow> geometry_stats" where
  "merge_geometry a b =
     \<lparr>gs_count = gs_count a + gs_count b,
      gs_kinds = gs_kinds a \<union> gs_kinds b,
      gs_has_curves = (gs_has_curves a \<or> gs_has_curves b),
      gs_has_unsupported = (gs_has_unsupported a \<or> gs_has_unsupported b),
      gs_dims = gs_dims a \<union> gs_dims b,
      gs_srs = fold (\<lambda>(srs, count). add_count srs count) (gs_srs b) (gs_srs a),
      gs_axis_evidence = fst (index_merge merge_evidence (gs_axis_evidence a) (gs_axis_evidence b)),
      gs_by_reference = gs_by_reference a + gs_by_reference b,
      gs_empty = gs_empty a + gs_empty b\<rparr>"

subsection \<open>Nodes\<close>

datatype name_shape = UpperCamel | LowerCamel | OtherShape

text \<open>
  \<open>char::is_uppercase\<close> and \<open>char::is_lowercase\<close> of a character above ASCII follow the tables of
  Unicode; a character is its code point.
\<close>

record letter_case =
  lc_upper :: "nat \<Rightarrow> bool"
  lc_lower :: "nat \<Rightarrow> bool"

definition is_uppercase :: "letter_case \<Rightarrow> nat \<Rightarrow> bool" where
  "is_uppercase u c \<longleftrightarrow> (if c < 128 then 65 \<le> c \<and> c \<le> 90 else lc_upper u c)"

definition is_lowercase :: "letter_case \<Rightarrow> nat \<Rightarrow> bool" where
  "is_lowercase u c \<longleftrightarrow> (if c < 128 then 97 \<le> c \<and> c \<le> 122 else lc_lower u c)"

text \<open>\<open>s.chars().next()\<close> of a UTF-8 string.\<close>

definition first_char :: "bytes \<Rightarrow> nat option" where
  "first_char s =
     (case map byte_val s of
        [] \<Rightarrow> None
      | a # s \<Rightarrow>
          if a < 128 then Some a
          else (case s of b # s \<Rightarrow>
              if a < 224 then Some (a mod 32 * 64 + b mod 64)
              else (case s of c # s \<Rightarrow>
                  if a < 240 then Some ((a mod 16 * 64 + b mod 64) * 64 + c mod 64)
                  else (case s of d # _ \<Rightarrow> Some (((a mod 8 * 64 + b mod 64) * 64 + c mod 64) * 64 + d mod 64)
                        | [] \<Rightarrow> None)
                | [] \<Rightarrow> None)
            | [] \<Rightarrow> None))"

definition name_shape_of :: "letter_case \<Rightarrow> bytes \<Rightarrow> name_shape" where
  "name_shape_of u name =
     (case first_char name of
        Some c \<Rightarrow> if is_uppercase u c then UpperCamel else if is_lowercase u c then LowerCamel else OtherShape
      | None \<Rightarrow> OtherShape)"

definition MAX_NIL_REASONS :: nat where "MAX_NIL_REASONS = 16"

record nil_stats =
  ni_count :: nat
  ni_reasons :: "bytes list"

definition add_reason :: "bytes \<Rightarrow> nil_stats \<Rightarrow> nil_stats" where
  "add_reason reason s =
     (if length (ni_reasons s) < MAX_NIL_REASONS \<and> reason \<notin> set (ni_reasons s)
      then s\<lparr>ni_reasons := ni_reasons s @ [reason]\<rparr> else s)"

definition merge_nil :: "nil_stats \<Rightarrow> nil_stats \<Rightarrow> nil_stats" where
  "merge_nil a b = fold add_reason (ni_reasons b) (a\<lparr>ni_count := ni_count a + ni_count b\<rparr>)"

text \<open>An \<open>ElementNode\<close> is its facts, which is every field but \<open>children\<close>, and its children.\<close>

record node_facts =
  nf_instances :: nat
  nf_parents_with :: nat
  nf_max_occurs :: nat
  nf_first_multi :: "location option"
  nf_text :: "value_stats option"
  nf_mixed :: bool
  nf_single_child :: nat
  nf_empty :: nat
  nf_nil :: nil_stats
  nf_attributes :: "(qname \<times> value_stats) list"
  nf_first_seen :: "(nat \<times> nat) option"
  nf_geometry :: "geometry_stats option"
  nf_by_reference :: nat
  nf_href_and_content :: nat
  nf_has_gml_id :: nat
  nf_name_shape :: name_shape
  nf_truncated :: bool

datatype element_node = Element_Node (en_facts: node_facts) (en_children: "(qname \<times> element_node) list")

definition default_facts :: node_facts where
  "default_facts =
     \<lparr>nf_instances = 0, nf_parents_with = 0, nf_max_occurs = 0, nf_first_multi = None, nf_text = None,
      nf_mixed = False, nf_single_child = 0, nf_empty = 0, nf_nil = \<lparr>ni_count = 0, ni_reasons = []\<rparr>,
      nf_attributes = [], nf_first_seen = None, nf_geometry = None, nf_by_reference = 0,
      nf_href_and_content = 0, nf_has_gml_id = 0, nf_name_shape = LowerCamel, nf_truncated = False\<rparr>"

definition new_node :: "letter_case \<Rightarrow> bytes \<Rightarrow> (nat \<times> nat) option \<Rightarrow> element_node" where
  "new_node u local_name first_seen =
     Element_Node (default_facts\<lparr>nf_name_shape := name_shape_of u local_name, nf_first_seen := first_seen\<rparr>) []"

datatype shape = TextOnly | TextAndAttributes | ElementsOnly | ByReferenceOnly | Mixed | GeometryShape | EmptyShape

definition is_link_or_nil_attribute :: "qname \<Rightarrow> bool" where
  "is_link_or_nil_attribute name \<longleftrightarrow>
     qns name = Some NS_XLINK \<or> qns name = Some NS_XSI \<or> qlocal name = ''nilReason''"

definition is_gml_id :: "qname \<Rightarrow> bool" where
  "is_gml_id name \<longleftrightarrow> is_gml_named name ''id''"

definition text_count :: "node_facts \<Rightarrow> nat" where
  "text_count f = (case nf_text f of Some t \<Rightarrow> vs_count t | None \<Rightarrow> 0)"

definition data_attributes :: "node_facts \<Rightarrow> (qname \<times> value_stats) list" where
  "data_attributes f = filter (\<lambda>(name, _). \<not> is_link_or_nil_attribute name) (nf_attributes f)"

definition node_shape :: "element_node \<Rightarrow> shape" where
  "node_shape n =
     (let f = en_facts n in
      if nf_geometry f \<noteq> None then GeometryShape
      else if nf_mixed f then Mixed
      else if en_children n \<noteq> [] \<or> nf_truncated f then ElementsOnly
      else if 0 < text_count f then (if data_attributes f \<noteq> [] then TextAndAttributes else TextOnly)
      else if 0 < nf_by_reference f then ByReferenceOnly else EmptyShape)"

text \<open>\<open>saturating_sub\<close> is the subtraction of natural numbers.\<close>

definition is_type_wrapper :: "element_node \<Rightarrow> bool" where
  "is_type_wrapper n \<longleftrightarrow>
     (let f = en_facts n in
      if en_children n = [] \<or> nf_geometry f \<noteq> None \<or> nf_truncated f \<or> nf_mixed f \<or> 0 < text_count f
         \<or> data_attributes f \<noteq> []
      then False
      else
        nf_single_child f = nf_instances f - (nf_empty f + nf_by_reference f) \<and>
        list_all (\<lambda>(_, child). let c = en_facts child in
          nf_name_shape c = UpperCamel \<and> nf_max_occurs c = 1 \<and>
          list_all (\<lambda>(name, _). is_gml_id name) (nf_attributes c)) (en_children n))"

text \<open>
  \<open>child_mut\<close> returns a reference into the map: the child, and the node with the child in place.
\<close>

definition child_mut :: "letter_case \<Rightarrow> qname \<Rightarrow> nat \<times> nat \<Rightarrow> element_node \<Rightarrow> element_node \<times> element_node" where
  "child_mut u name first_seen n =
     (case map_of (en_children n) name of
        Some child \<Rightarrow> (child, n)
      | None \<Rightarrow>
          (let child = new_node u (qlocal name) (Some first_seen)
           in (child, Element_Node (en_facts n) (en_children n @ [(name, child)]))))"

subsection \<open>Merging nodes\<close>

definition earliest :: "location option \<Rightarrow> location option \<Rightarrow> location option" where
  "earliest a b =
     (case (a, b) of
        (Some a, Some b) \<Rightarrow>
          (if (loc_source b, loc_byte_offset b) < (loc_source a, loc_byte_offset a) then Some b else Some a)
      | (None, b) \<Rightarrow> b | (a, None) \<Rightarrow> a)"

definition first_of :: "(nat \<times> nat) option \<Rightarrow> (nat \<times> nat) option \<Rightarrow> (nat \<times> nat) option" where
  "first_of a b = (case (a, b) of (Some a, Some b) \<Rightarrow> Some (min a b) | (None, b) \<Rightarrow> b | (a, None) \<Rightarrow> a)"

definition merge_facts :: "node_facts \<Rightarrow> node_facts \<Rightarrow> node_facts" where
  "merge_facts a b =
     \<lparr>nf_instances = nf_instances a + nf_instances b,
      nf_parents_with = nf_parents_with a + nf_parents_with b,
      nf_max_occurs = max (nf_max_occurs a) (nf_max_occurs b),
      nf_first_multi = earliest (nf_first_multi a) (nf_first_multi b),
      nf_text = merge_option merge_stats (nf_text a) (nf_text b),
      nf_mixed = (nf_mixed a \<or> nf_mixed b),
      nf_single_child = nf_single_child a + nf_single_child b,
      nf_empty = nf_empty a + nf_empty b,
      nf_nil = merge_nil (nf_nil a) (nf_nil b),
      nf_attributes = fst (index_merge merge_stats (nf_attributes a) (nf_attributes b)),
      nf_first_seen = first_of (nf_first_seen a) (nf_first_seen b),
      nf_geometry = merge_option merge_geometry (nf_geometry a) (nf_geometry b),
      nf_by_reference = nf_by_reference a + nf_by_reference b,
      nf_href_and_content = nf_href_and_content a + nf_href_and_content b,
      nf_has_gml_id = nf_has_gml_id a + nf_has_gml_id b,
      nf_name_shape = nf_name_shape a,
      nf_truncated = (nf_truncated a \<or> nf_truncated b)\<rparr>"

text \<open>\<open>first_seen.map_or((1, 0, 0), |(s, o)| (0, s, o))\<close>.\<close>

definition seen_key :: "(nat \<times> nat) option \<Rightarrow> nat \<times> nat \<times> nat" where
  "seen_key first_seen = (case first_seen of None \<Rightarrow> (1, 0, 0) | Some (s, p) \<Rightarrow> (0, s, p))"

definition child_key :: "'k \<times> element_node \<Rightarrow> nat \<times> nat \<times> nat" where
  "child_key c = seen_key (nf_first_seen (en_facts (snd c)))"

function merge_node :: "element_node \<Rightarrow> element_node \<Rightarrow> element_node" where
  "merge_node (Element_Node f children) (Element_Node g others) =
     (let (merged, reorder) = index_merge merge_node children others
      in Element_Node (merge_facts f g)
           (if reorder \<or> nf_first_seen g < nf_first_seen f then sort_key child_key merged else merged))"
  by pat_completeness auto
termination
proof (relation "measure (\<lambda>(_, b). size b)", goal_cases)
  case 1
  then show ?case by simp
next
  case (2 f children g others x kv)
  have "size (snd kv) \<le> size_list (size_prod (\<lambda>x. 0) size) others"
    using 2 by (rule size_list_estimation') (cases kv, simp)
  then show ?case by simp
qed

declare merge_node.simps [simp del]

subsection \<open>Observations of a dataset\<close>

record layer_observation =
  lo_feature_count :: nat
  lo_root :: element_node
  lo_extent :: "bbox option"

record source_context =
  sc_fme_produced :: bool
  sc_producer :: "bytes option"
  sc_wfs_version :: "bytes option"
  sc_requested_srs :: "bytes option"
  sc_requested_bbox :: "bbox option"

record dataset_observation =
  do_gml_versions :: "gml_version set"
  do_layers :: "(qname \<times> layer_observation) list"
  do_sampled :: bool
  do_source_context :: "source_context list"
  do_prefixes :: "(bytes \<times> bytes) list"
  do_extent :: "bbox option"
  do_skipped_sources :: "bytes list"

definition MAX_PREFIXES :: nat where "MAX_PREFIXES = 256"

definition note_prefix :: "bytes \<Rightarrow> bytes \<Rightarrow> (bytes \<times> bytes) list \<Rightarrow> (bytes \<times> bytes) list" where
  "note_prefix uri prefix prefixes =
     (if length prefixes < MAX_PREFIXES \<and> map_of prefixes uri = None then prefixes @ [(uri, prefix)] else prefixes)"

definition merge_layer :: "layer_observation \<Rightarrow> layer_observation \<Rightarrow> layer_observation" where
  "merge_layer a b =
     \<lparr>lo_feature_count = lo_feature_count a + lo_feature_count b,
      lo_root = merge_node (lo_root a) (lo_root b),
      lo_extent = union_bbox (lo_extent a) (lo_extent b)\<rparr>"

definition layer_key :: "qname \<times> layer_observation \<Rightarrow> nat \<times> nat \<times> nat" where
  "layer_key l = seen_key (nf_first_seen (en_facts (lo_root (snd l))))"

definition merge_dataset :: "dataset_observation \<Rightarrow> dataset_observation \<Rightarrow> dataset_observation" where
  "merge_dataset a b =
     (let (layers, reorder) = index_merge merge_layer (do_layers a) (do_layers b) in
      \<lparr>do_gml_versions = do_gml_versions a \<union> do_gml_versions b,
       do_layers = (if reorder then sort_key layer_key layers else layers),
       do_sampled = (do_sampled a \<or> do_sampled b),
       do_source_context = do_source_context a @ do_source_context b,
       do_prefixes = fold (\<lambda>(uri, prefix). note_prefix uri prefix) (do_prefixes b) (do_prefixes a),
       do_extent = union_bbox (do_extent a) (do_extent b),
       do_skipped_sources = do_skipped_sources a @ do_skipped_sources b\<rparr>)"

datatype layer_error = Unknown_Layer bytes | Ambiguous_Layer bytes qname qname

definition find_layer :: "dataset_observation \<Rightarrow> bytes \<Rightarrow> layer_error + (qname \<times> layer_observation)" where
  "find_layer d name =
     (if starts_with ''{'' name then
        (case find (\<lambda>(q, _). to_clark q = name) (do_layers d) of
           Some l \<Rightarrow> Inr l | None \<Rightarrow> Inl (Unknown_Layer name))
      else
        (let (prefix, loc) = (case split_once CHR '':'' name of
               Some (p, l) \<Rightarrow> (Some p, l) | None \<Rightarrow> (None, name));
             uri = Option.bind prefix (\<lambda>p. map_option fst (find (\<lambda>(_, q). q = p) (do_prefixes d)));
             found = filter (\<lambda>(q, _). qlocal q = loc \<and>
                       (case uri of None \<Rightarrow> True | Some u \<Rightarrow> qns q = Some u)) (do_layers d)
         in case found of
              [] \<Rightarrow> Inl (Unknown_Layer name)
            | [l] \<Rightarrow> Inr l
            | l # m # _ \<Rightarrow> Inl (Ambiguous_Layer name (fst l) (fst m))))"

end
