(* ===== verification/Node_Laws.thy ===== *)
theory Node_Laws
  imports Node_Stats
begin

text \<open>
  Laws of the observations: a merge path by path, the counters it adds up (the interface
  \<open>counter\<close>), the invariant it keeps, and the order of the children.
\<close>

subsection \<open>Maps in insertion order\<close>

lemma merge_entry_map_of:
  "map_of (fst (merge_entry f (k, v) st)) = (map_of (fst st))(k \<mapsto> the (merge_option f (map_of (fst st) k) (Some v)))"
  by (cases st) (auto simp: merge_entry_def update_conv' fun_eq_iff map_add_def split: option.splits)

lemma merge_entry_distinct:
  "distinct (map fst (fst st)) \<Longrightarrow> distinct (map fst (fst (merge_entry f (k, v) st)))"
  by (cases st) (auto simp: merge_entry_def distinct_update map_of_eq_None_iff split: option.splits)

lemma fold_merge_map_of:
  "distinct (map fst other) \<Longrightarrow>
   map_of (fst (fold (merge_entry f) other st)) k = merge_option f (map_of (fst st) k) (map_of other k)"
proof (induction other arbitrary: st)
  case (Cons kv other)
  obtain k' v where kv: "kv = (k', v)" by (cases kv)
  have "map_of other k' = None" using Cons.prems by (simp add: kv map_of_eq_None_iff)
  then show ?case
    using Cons by (auto simp: kv merge_entry_map_of merge_option_def split: option.splits)
qed simp

lemma fold_merge_distinct:
  "distinct (map fst (fst st)) \<Longrightarrow> distinct (map fst (fst (fold (merge_entry f) other st)))"
proof (induction other arbitrary: st)
  case (Cons kv other)
  then show ?case using merge_entry_distinct [of st f "fst kv" "snd kv"] by simp
qed simp

lemma map_of_index_merge:
  "distinct (map fst other) \<Longrightarrow>
   map_of (fst (index_merge f m other)) k = merge_option f (map_of m k) (map_of other k)"
  by (simp add: index_merge_def fold_merge_map_of)

lemma distinct_index_merge:
  "distinct (map fst m) \<Longrightarrow> distinct (map fst (fst (index_merge f m other)))"
  by (simp add: index_merge_def fold_merge_distinct)

lemma map_of_sort_key: "distinct (map fst m) \<Longrightarrow> map_of (sort_key key m) = map_of m"
  by (rule map_of_inject_set [THEN iffD2]) (simp_all add: distinct_map distinct_sort inj_on_def)

lemma distinct_sort_key: "distinct (map fst m) \<Longrightarrow> distinct (map fst (sort_key key m))"
  by (simp add: distinct_map)

subsection \<open>Paths\<close>

text \<open>The facts a tree holds for a path of element names: what it observed, without the order.\<close>

fun node_at :: "qname list \<Rightarrow> element_node \<Rightarrow> element_node option" where
  "node_at [] n = Some n"
| "node_at (q # p) n = Option.bind (map_of (en_children n) q) (node_at p)"

definition facts_at :: "qname list \<Rightarrow> element_node \<Rightarrow> node_facts option" where
  "facts_at p n = map_option en_facts (node_at p n)"

definition nil_ok :: "nil_stats \<Rightarrow> bool" where
  "nil_ok s \<longleftrightarrow> distinct (ni_reasons s) \<and> length (ni_reasons s) \<le> MAX_NIL_REASONS"

definition facts_ok :: "node_facts \<Rightarrow> bool" where
  "facts_ok f \<longleftrightarrow> distinct (map fst (nf_attributes f)) \<and> nil_ok (nf_nil f)"

fun node_ok :: "element_node \<Rightarrow> bool" where
  "node_ok (Element_Node f children) \<longleftrightarrow>
     facts_ok f \<and> distinct (map fst children) \<and> list_all (\<lambda>c. node_ok (snd c)) children"

lemma nil_ok_add: "nil_ok s \<Longrightarrow> nil_ok (add_reason r s)"
  by (auto simp: nil_ok_def add_reason_def)

lemma nil_ok_merge: "nil_ok a \<Longrightarrow> nil_ok (merge_nil a b)"
proof -
  have "nil_ok s \<Longrightarrow> nil_ok (fold add_reason rs s)" for rs s
    by (induction rs arbitrary: s) (simp_all add: nil_ok_add)
  moreover assume "nil_ok a"
  ultimately show ?thesis by (simp add: merge_nil_def nil_ok_def)
qed

lemma facts_ok_merge: "facts_ok f \<Longrightarrow> facts_ok (merge_facts f g)"
  by (simp add: facts_ok_def merge_facts_def distinct_index_merge nil_ok_merge)

lemma en_facts_merge [simp]: "en_facts (merge_node a b) = merge_facts (en_facts a) (en_facts b)"
  by (cases a; cases b) (simp add: merge_node.simps split: prod.splits)

lemma children_merge_map:
  assumes "node_ok a" "node_ok b"
  shows "map_of (en_children (merge_node a b)) q
       = merge_option merge_node (map_of (en_children a) q) (map_of (en_children b) q)"
    and "distinct (map fst (en_children (merge_node a b)))"
proof -
  obtain f cs g ds where ab: "a = Element_Node f cs" "b = Element_Node g ds" by (metis element_node.exhaust)
  obtain m r where m: "index_merge merge_node cs ds = (m, r)" by fastforce
  have d: "distinct (map fst cs)" "distinct (map fst ds)" using assms by (simp_all add: ab)
  have "distinct (map fst m)" using distinct_index_merge [OF d(1), of merge_node ds] by (simp add: m)
  moreover have "map_of m q = merge_option merge_node (map_of cs q) (map_of ds q)"
    using map_of_index_merge [OF d(2), of merge_node cs q] by (simp add: m)
  ultimately show "map_of (en_children (merge_node a b)) q
       = merge_option merge_node (map_of (en_children a) q) (map_of (en_children b) q)"
    "distinct (map fst (en_children (merge_node a b)))"
    by (simp_all add: ab merge_node.simps m map_of_sort_key distinct_sort_key)
qed

lemma node_ok_child: "node_ok n \<Longrightarrow> map_of (en_children n) q = Some c \<Longrightarrow> node_ok c"
  by (cases n) (auto simp: list_all_iff dest: map_of_SomeD)

lemma size_child: "map_of (en_children n) q = Some c \<Longrightarrow> size c < size n"
proof -
  assume c: "map_of (en_children n) q = Some c"
  obtain f cs where n: "n = Element_Node f cs" by (cases n)
  have "(q, c) \<in> set cs" using map_of_SomeD [OF c] by (simp add: n)
  then have "size c \<le> size_list (size_prod (\<lambda>x. 0) size) cs" by (rule size_list_estimation') simp
  then show ?thesis by (simp add: n)
qed

lemma node_ok_iff:
  "node_ok n \<longleftrightarrow> facts_ok (en_facts n) \<and> distinct (map fst (en_children n)) \<and>
     (\<forall>q c. map_of (en_children n) q = Some c \<longrightarrow> node_ok c)"
  by (cases n) (force simp: list_all_iff dest: map_of_SomeD)

lemma node_ok_merge: "node_ok a \<Longrightarrow> node_ok b \<Longrightarrow> node_ok (merge_node a b)"
proof (induction "size b" arbitrary: a b rule: less_induct)
  case less
  have "node_ok c" if c: "map_of (en_children (merge_node a b)) q = Some c" for q c
  proof (cases "map_of (en_children a) q"; cases "map_of (en_children b) q")
    fix x y assume xy: "map_of (en_children a) q = Some x" "map_of (en_children b) q = Some y"
    then have "c = merge_node x y" using c children_merge_map [OF less.prems] by simp
    then show ?thesis
      using less.hyps [OF size_child [OF xy(2)]] node_ok_child [OF less.prems(1) xy(1)]
        node_ok_child [OF less.prems(2) xy(2)] by simp
  qed (use c children_merge_map [OF less.prems] node_ok_child less.prems in auto)
  then show ?case
    using less.prems children_merge_map(2) [OF less.prems]
    unfolding node_ok_iff [of "merge_node a b"] by (auto simp: facts_ok_merge node_ok_iff [of a])
qed

lemma facts_at_merge:
  "node_ok a \<Longrightarrow> node_ok b \<Longrightarrow>
   facts_at p (merge_node a b) = merge_option merge_facts (facts_at p a) (facts_at p b)"
proof (induction p arbitrary: a b)
  case Nil
  then show ?case by (simp add: facts_at_def)
next
  case (Cons q p)
  have "facts_at (q # p) n = Option.bind (map_of (en_children n) q) (facts_at p)" for n
    by (cases "map_of (en_children n) q") (simp_all add: facts_at_def)
  then show ?case
    using children_merge_map(1) [OF Cons.prems, of q] Cons node_ok_child [OF Cons.prems(1), of q]
      node_ok_child [OF Cons.prems(2), of q]
    by (cases "map_of (en_children a) q"; cases "map_of (en_children b) q") simp_all
qed


subsection \<open>Counters\<close>

definition total_at :: "(node_facts \<Rightarrow> nat) \<Rightarrow> qname list \<Rightarrow> element_node \<Rightarrow> nat" where
  "total_at cnt p n = (case facts_at p n of None \<Rightarrow> 0 | Some f \<Rightarrow> cnt f)"

text \<open>A counter of the facts that a merge adds up, and what that gives at every path of a tree.\<close>

locale counter =
  fixes cnt :: "node_facts \<Rightarrow> nat"
  assumes count_merge: "cnt (merge_facts f g) = cnt f + cnt g"
begin

lemma total_merge:
  "node_ok a \<Longrightarrow> node_ok b \<Longrightarrow> total_at cnt p (merge_node a b) = total_at cnt p a + total_at cnt p b"
  by (auto simp: total_at_def facts_at_merge count_merge split: option.split)

lemma total_merges:
  "node_ok n \<Longrightarrow> list_all node_ok ns \<Longrightarrow>
   total_at cnt p (foldl merge_node n ns) = total_at cnt p n + sum_list (map (total_at cnt p) ns)"
  by (induction ns arbitrary: n) (simp_all add: total_merge node_ok_merge)

end

interpretation instances: counter nf_instances by unfold_locales (simp add: merge_facts_def)
interpretation parents_with: counter nf_parents_with by unfold_locales (simp add: merge_facts_def)
interpretation single_child: counter nf_single_child by unfold_locales (simp add: merge_facts_def)
interpretation empty: counter nf_empty by unfold_locales (simp add: merge_facts_def)
interpretation by_reference: counter nf_by_reference by unfold_locales (simp add: merge_facts_def)
interpretation href_and_content: counter nf_href_and_content by unfold_locales (simp add: merge_facts_def)
interpretation has_gml_id: counter nf_has_gml_id by unfold_locales (simp add: merge_facts_def)

lemma nil_count_fold: "ni_count (fold add_reason rs s) = ni_count s"
  by (induction rs arbitrary: s) (simp_all add: add_reason_def)

interpretation nil_count: counter "\<lambda>f. ni_count (nf_nil f)"
  by unfold_locales (simp add: merge_facts_def merge_nil_def nil_count_fold)

interpretation text_count: counter text_count
  by unfold_locales (auto simp: text_count_def merge_facts_def merge_stats_def merge_option_def split: option.split)

definition node_counters :: "(node_facts \<Rightarrow> nat) list" where
  "node_counters = [nf_instances, nf_parents_with, nf_single_child, nf_empty, nf_by_reference,
     nf_href_and_content, nf_has_gml_id, \<lambda>f. ni_count (nf_nil f), text_count]"

subsection \<open>The order of children\<close>

lemma seen_key_first_of: "seen_key (first_of a b) = min (seen_key a) (seen_key b)"
  by (auto simp: seen_key_def first_of_def min_def split: option.splits)

definition facts_key :: "node_facts \<Rightarrow> nat \<times> nat \<times> nat" where
  "facts_key f = seen_key (nf_first_seen f)"

lemma facts_key_merge: "facts_key (merge_facts f g) = min (facts_key f) (facts_key g)"
  by (simp add: facts_key_def merge_facts_def seen_key_first_of)

lemma child_key_eq: "child_key c = facts_key (en_facts (snd c))"
  by (simp add: child_key_def facts_key_def)

text \<open>Without a new child the keys of the children change only where a child was seen earlier.\<close>

lemma update_map_fst_key:
  "map_of m k = Some v \<Longrightarrow> key v = key w \<Longrightarrow> map (key \<circ> snd) (AList.update k w m) = map (key \<circ> snd) m"
  by (induction m) auto

lemma fold_merge_old:
  assumes "\<not> snd (fold (merge_entry f) other st)"
    and "\<And>k x v. map_of (fst st) k = Some x \<Longrightarrow> (k, v) \<in> set other \<Longrightarrow> key (f x v) = key x"
    and "distinct (map fst other)"
  shows "map (key \<circ> snd) (fst (fold (merge_entry f) other st)) = map (key \<circ> snd) (fst st)"
  using assms
proof (induction other arbitrary: st)
  case (Cons kv other)
  obtain k v where kv: "kv = (k, v)" by (cases kv)
  have mono: "snd st \<longrightarrow> snd (fold (merge_entry f) other st)" for st :: "('a \<times> 'b) list \<times> bool" and other
    by (induction other arbitrary: st) (auto simp: merge_entry_def split: prod.splits option.splits)
  then have "\<not> snd (merge_entry f kv st)" using Cons.prems(1) mono [of "merge_entry f kv st" other] by simp
  then obtain x where x: "map_of (fst st) k = Some x" and m: "fst (merge_entry f kv st) = AList.update k (f x v) (fst st)"
    by (cases st) (auto simp: kv merge_entry_def split: option.splits)
  have key: "key (f x v) = key x" using Cons.prems(2) [OF x] by (simp add: kv)
  have "map (key \<circ> snd) (fst (fold (merge_entry f) other (merge_entry f kv st))) = map (key \<circ> snd) (fst (merge_entry f kv st))"
  proof (rule Cons.IH)
    show "\<not> snd (fold (merge_entry f) other (merge_entry f kv st))" using Cons.prems(1) by simp
    show "distinct (map fst other)" using Cons.prems(3) by simp
    fix k' y w assume y: "map_of (fst (merge_entry f kv st)) k' = Some y" and w: "(k', w) \<in> set other"
    then have "k' \<noteq> k" using Cons.prems(3) by (force simp: kv)
    then have "map_of (fst st) k' = Some y" using y by (simp add: m update_conv')
    then show "key (f y w) = key y" using Cons.prems(2) w by simp
  qed
  also have "\<dots> = map (key \<circ> snd) (fst st)" unfolding m by (rule update_map_fst_key [OF x]) (simp add: key)
  finally show ?case by (simp add: comp_def)
qed simp

fun node_sorted :: "element_node \<Rightarrow> bool" where
  "node_sorted (Element_Node f children) \<longleftrightarrow>
     sorted (map child_key children) \<and> list_all (\<lambda>c. node_sorted (snd c)) children"

lemma node_sorted_iff:
  "node_ok n \<Longrightarrow> node_sorted n \<longleftrightarrow> sorted (map child_key (en_children n)) \<and>
     (\<forall>q c. map_of (en_children n) q = Some c \<longrightarrow> node_sorted c)"
  by (cases n) (force simp: list_all_iff dest: map_of_SomeD)

text \<open>The other tree saw nothing at a common path before this one did.\<close>

definition seen_after :: "element_node \<Rightarrow> element_node \<Rightarrow> bool" where
  "seen_after a b \<longleftrightarrow>
     (\<forall>p f g. facts_at p a = Some f \<longrightarrow> facts_at p b = Some g \<longrightarrow> facts_key f \<le> facts_key g)"

lemma facts_at_child: "map_of (en_children n) q = Some c \<Longrightarrow> facts_at (q # p) n = facts_at p c"
  by (simp add: facts_at_def)

lemma seen_after_child:
  "seen_after a b \<Longrightarrow> map_of (en_children a) q = Some x \<Longrightarrow> map_of (en_children b) q = Some y \<Longrightarrow> seen_after x y"
  unfolding seen_after_def by (metis facts_at_child)

lemma children_sorted_merge:
  assumes "node_ok a" "node_ok b" "sorted (map child_key (en_children a))" "seen_after a b"
  shows "sorted (map child_key (en_children (merge_node a b)))"
proof -
  obtain f cs g ds where ab: "a = Element_Node f cs" "b = Element_Node g ds" by (metis element_node.exhaust)
  obtain m r where m: "index_merge merge_node cs ds = (m, r)" by fastforce
  let ?key = "\<lambda>n. facts_key (en_facts n)"
  have ck: "child_key = ?key \<circ> snd" by (simp add: fun_eq_iff child_key_eq)
  show ?thesis
  proof (cases r)
    case True
    then show ?thesis by (simp add: ab merge_node.simps m)
  next
    case False
    have "map (?key \<circ> snd) (fst (index_merge merge_node cs ds)) = map (?key \<circ> snd) cs"
      unfolding index_merge_def
    proof (rule fold_merge_old [of merge_node ds "(cs, False)", unfolded fst_conv])
      show "\<not> snd (fold (merge_entry merge_node) ds (cs, False))" using m False by (simp add: index_merge_def)
      show d: "distinct (map fst ds)" using assms(2) by (simp add: ab)
      fix k x v assume k: "map_of cs k = Some x" and v: "(k, v) \<in> set ds"
      then have "map_of ds k = Some v" using d by (simp add: map_of_is_SomeI)
      then have "facts_key (en_facts x) \<le> facts_key (en_facts v)"
        using seen_after_child [OF assms(4), of k x v] k
        by (auto simp: ab seen_after_def facts_at_def dest: spec [of _ "[]"])
      then show "?key (merge_node x v) = ?key x" by (simp add: facts_key_merge)
    qed
    then have "sorted (map child_key m)" using assms(3) unfolding ck by (simp add: m ab)
    then show ?thesis by (simp add: ab merge_node.simps m)
  qed
qed

lemma node_sorted_merge:
  "node_ok a \<Longrightarrow> node_ok b \<Longrightarrow> node_sorted a \<Longrightarrow> node_sorted b \<Longrightarrow> seen_after a b \<Longrightarrow>
   node_sorted (merge_node a b)"
proof (induction "size b" arbitrary: a b rule: less_induct)
  case less
  note ok = less.prems(1,2)
  have "node_sorted c" if c: "map_of (en_children (merge_node a b)) q = Some c" for q c
  proof (cases "map_of (en_children a) q"; cases "map_of (en_children b) q")
    fix x y assume xy: "map_of (en_children a) q = Some x" "map_of (en_children b) q = Some y"
    then have "c = merge_node x y" using c children_merge_map [OF ok] by simp
    then show ?thesis
      using less.hyps [OF size_child [OF xy(2)]] node_ok_child [OF ok(1) xy(1)] node_ok_child [OF ok(2) xy(2)]
        seen_after_child [OF less.prems(5) xy] less.prems(3,4) node_sorted_iff [OF ok(1)] node_sorted_iff [OF ok(2)] xy
      by simp
  qed (use c children_merge_map [OF ok] less.prems(3,4) node_sorted_iff [OF ok(1)] node_sorted_iff [OF ok(2)] in auto)
  then show ?case
    using children_sorted_merge [OF ok _ less.prems(5)] less.prems(3)
    by (simp add: node_sorted_iff [OF node_ok_merge [OF ok]] node_sorted_iff [OF ok(1)])
qed

subsection \<open>Properties\<close>

text \<open>Small trees: the facts of an element seen once, and a layer with some properties.\<close>

definition sample_facts :: "nat \<Rightarrow> node_facts" where
  "sample_facts pos = default_facts\<lparr>nf_instances := 1, nf_first_seen := Some (0, pos)\<rparr>"

definition sample_tree :: "nat \<Rightarrow> (bytes \<times> nat) list \<Rightarrow> element_node" where
  "sample_tree pos children =
     Element_Node (sample_facts pos)
       (map (\<lambda>(name, p). (mk_qname None name, Element_Node (sample_facts p) [])) children)"

lemmas sample_defs = sample_tree_def sample_facts_def default_facts_def mk_qname_def facts_ok_def nil_ok_def
  MAX_NIL_REASONS_def

text \<open>
  C15. Merging the trees of two chunks merges, path by path, the facts they observed: no path is lost,
  none is added, and a path only one of them saw keeps its facts as they were.
\<close>

theorem merge_refines_paths:
  assumes "node_ok a" "node_ok b"
  shows "facts_at p (merge_node a b) = merge_option merge_facts (facts_at p a) (facts_at p b)"
  using assms by (rule facts_at_merge)

theorem merge_refines_paths_witness:
  "facts_at [mk_qname None ''x''] (merge_node (sample_tree 0 [(''x'', 1)]) (sample_tree 5 [(''y'', 6), (''x'', 7)]))
   = Some (merge_facts (sample_facts 1) (sample_facts 7))"
  using merge_refines_paths [of "sample_tree 0 [(''x'', 1)]" "sample_tree 5 [(''y'', 6), (''x'', 7)]" "[mk_qname None ''x'']"]
  by (simp add: sample_defs facts_at_def)

text \<open>
  C22. However many chunks are merged, in any order, the counters of every path (instances, parents, nil
  values, references, \<dots>) are the sums over the chunks.
\<close>

theorem merged_counters:
  assumes "node_ok n" "list_all node_ok ns"
  shows "list_all (\<lambda>cnt. total_at cnt p (foldl merge_node n ns)
           = total_at cnt p n + sum_list (map (total_at cnt p) ns)) node_counters"
  by (simp add: node_counters_def instances.total_merges [OF assms] parents_with.total_merges [OF assms]
      single_child.total_merges [OF assms] empty.total_merges [OF assms] by_reference.total_merges [OF assms]
      href_and_content.total_merges [OF assms] has_gml_id.total_merges [OF assms]
      nil_count.total_merges [OF assms] text_count.total_merges [OF assms])

theorem merged_counters_witness:
  "list_all (\<lambda>cnt. total_at cnt [mk_qname None ''x'']
        (foldl merge_node (sample_tree 0 [(''x'', 1)]) [sample_tree 5 [(''x'', 6)], sample_tree 9 [(''y'', 10)]])
      = total_at cnt [mk_qname None ''x''] (sample_tree 0 [(''x'', 1)]) +
        sum_list (map (total_at cnt [mk_qname None ''x''])
          [sample_tree 5 [(''x'', 6)], sample_tree 9 [(''y'', 10)]])) node_counters"
  by (rule merged_counters) (simp_all add: sample_defs)

text \<open>
  A merge keeps the tree well formed: every element name and attribute once under its parent, and
  at most 16 distinct reasons for nil values.
\<close>

theorem merge_keeps_tree:
  assumes "node_ok a" "node_ok b"
  shows "node_ok (merge_node a b)"
  using assms by (rule node_ok_merge)

theorem merge_keeps_tree_witness:
  "node_ok (merge_node (sample_tree 0 [(''x'', 1)]) (sample_tree 5 [(''y'', 6), (''x'', 7)]))"
  by (rule merge_keeps_tree) (simp_all add: sample_defs)

text \<open>
  C23. Merged in the order of the input, the children of every element stay in the order of their first
  appearance, which is the order of the columns.
\<close>

theorem merge_keeps_column_order:
  assumes "node_ok a" "node_ok b" "node_sorted a" "node_sorted b" "seen_after a b"
  shows "node_sorted (merge_node a b)"
  using assms by (rule node_sorted_merge)

lemma sample_seen_after:
  "seen_after (sample_tree 0 [(''x'', 1)]) (sample_tree 5 [(''y'', 6), (''x'', 7)])"
proof -
  have "facts_key f \<le> facts_key g"
    if "facts_at p (sample_tree 0 [(''x'', 1)]) = Some f" "facts_at p (sample_tree 5 [(''y'', 6), (''x'', 7)]) = Some g"
    for p f g
  proof (cases p)
    case Nil
    then show ?thesis using that by (auto simp: sample_defs facts_at_def facts_key_def seen_key_def)
  next
    case (Cons q p')
    then show ?thesis using that
      by (cases p') (auto simp: sample_defs facts_at_def facts_key_def seen_key_def split: if_splits)
  qed
  then show ?thesis by (auto simp: seen_after_def)
qed

theorem merge_keeps_column_order_witness:
  "node_sorted (merge_node (sample_tree 0 [(''x'', 1)]) (sample_tree 5 [(''y'', 6), (''x'', 7)]))"
  by (rule merge_keeps_column_order [OF _ _ _ _ sample_seen_after])
    (simp_all add: sample_defs child_key_def seen_key_def)

text \<open>
  Out of the order of the input it is not: a child that the other tree saw earlier moves only if the
  merge also adds a child or moves the parent. A worker that took the first and the third chunk and
  one that took the second leave the columns in an order that one worker would not.
\<close>

lemma column_order_depends_on_merge_order:
  "map fst (en_children (merge_node (merge_node (sample_tree 0 [(''x'', 1)]) (sample_tree 20 [(''z'', 21), (''y'', 22)]))
       (sample_tree 10 [(''y'', 11)])))
     = [mk_qname None ''x'', mk_qname None ''z'', mk_qname None ''y'']"
  "map fst (en_children (merge_node (merge_node (sample_tree 0 [(''x'', 1)]) (sample_tree 10 [(''y'', 11)]))
       (sample_tree 20 [(''z'', 21), (''y'', 22)])))
     = [mk_qname None ''x'', mk_qname None ''y'', mk_qname None ''z'']"
  by (simp_all add: sample_defs merge_node.simps index_merge_def merge_entry_def child_key_def seen_key_def
      merge_facts_def first_of_def merge_nil_def)

end
