(* ===== verification/Parallel.thy ===== *)
theory Parallel
  imports Main "HOL-Library.AList"
begin

text \<open>
  The worker pool (\<open>crates/xeibe-core/src/parallel.rs\<close>): the input as a run of streams taken one
  after the other (\<open>Sequential\<close>) or shared by workers (\<open>Input\<close>), and the pool that maps items
  (\<open>ParallelMap\<close>), with its tickets, its channel of results and its buffer of results that came
  ahead. A step is what one thread does while it holds a lock, or one message: \<open>pool_step\<close> does the
  step that an \<open>action\<close> names, when the code could do it next, and \<open>pool_run\<close> is any
  interleaving. What a worker finds locked or done it skips or waits for, which is no step.
  The helper that decodes ahead does not touch this state and is left out.
\<close>

subsection \<open>Inputs\<close>

text \<open>
  An item or a panic caught in its place is \<open>'p + 'a\<close>. A stream is what its \<open>next\<close> returns, one
  call after the other; it is not asked again after a panic. A source is what \<open>next_stream\<close>
  returns, and what \<open>finish\<close> returns after that.
\<close>

type_synonym ('p, 'a) stream = "('p + 'a) list"

record ('p, 'a) source =
  so_left :: "('p + ('p, 'a) stream) list"
  so_last :: "('p + 'a) option"

record ('p, 'a) sequential =
  sq_streams :: "('p, 'a) source"
  sq_current :: "('p, 'a) stream option"
  sq_done :: bool

definition new_sequential :: "('p, 'a) source \<Rightarrow> ('p, 'a) sequential" where
  "new_sequential streams = \<lparr>sq_streams = streams, sq_current = None, sq_done = False\<rparr>"

function sequential_next ::
  "('a \<Rightarrow> bool) \<Rightarrow> ('p, 'a) sequential \<Rightarrow> ('p + 'a) option \<times> ('p, 'a) sequential" where
  "sequential_next ends s =
     (if sq_done s then (None, s)
      else
        (case sq_current s of
           Some (Inr x # rest) \<Rightarrow> (Some (Inr x), s\<lparr>sq_current := Some rest, sq_done := ends x\<rparr>)
         | Some (Inl p # rest) \<Rightarrow> (Some (Inl p), s\<lparr>sq_current := Some rest, sq_done := True\<rparr>)
         | _ \<Rightarrow>
           (case so_left (sq_streams s) of
              [] \<Rightarrow> (so_last (sq_streams s), s\<lparr>sq_current := None, sq_done := True\<rparr>)
            | Inl p # left \<Rightarrow>
                (Some (Inl p), s\<lparr>sq_streams := (sq_streams s)\<lparr>so_left := left\<rparr>, sq_current := None, sq_done := True\<rparr>)
            | Inr stream # left \<Rightarrow>
                sequential_next ends
                  (s\<lparr>sq_streams := (sq_streams s)\<lparr>so_left := left\<rparr>, sq_current := Some stream\<rparr>))))"
  by pat_completeness auto
termination
  by (relation "measure (\<lambda>(_, s). length (so_left (sq_streams s)))") auto

declare sequential_next.simps [simp del]

subsection \<open>The input as the workers share it\<close>

type_synonym ('p, 'a) taken = "nat \<times> ('p + 'a)"

text \<open>
  An open stream, with its state under its lock; \<open>Input\<close>, with the list of streams (\<open>so_left\<close>,
  \<open>started\<close>, \<open>ended\<close>, \<open>finished\<close>), the open streams, oldest first, the two flags, and the
  numbers (\<open>next\<close>, \<open>stopped\<close>).
\<close>

record ('p, 'a) open_stream =
  os_items :: "('p, 'a) stream"
  os_done :: bool

record ('p, 'a) input =
  in_source :: "('p, 'a) source"
  in_started :: nat
  in_ended :: nat
  in_finished :: bool
  in_open :: "('p, 'a) open_stream list"
  in_exhausted :: bool
  in_stopped :: bool
  in_next :: nat
  in_max_open :: nat

definition new_input :: "('p, 'a) source \<Rightarrow> nat \<Rightarrow> ('p, 'a) input" where
  "new_input source max_open =
     \<lparr>in_source = source, in_started = 0, in_ended = 0, in_finished = False, in_open = [],
      in_exhausted = False, in_stopped = False, in_next = 0, in_max_open = max max_open 1\<rparr>"

definition number_item :: "bool \<Rightarrow> ('p, 'a) input \<Rightarrow> nat option \<times> ('p, 'a) input" where
  "number_item ends i =
     (if in_stopped i then (None, i)
      else (Some (in_next i),
        i\<lparr>in_next := in_next i + 1, in_stopped := ends, in_exhausted := (in_exhausted i \<or> ends)\<rparr>))"

definition numbered :: "bool \<Rightarrow> 'p + 'a \<Rightarrow> ('p, 'a) input \<Rightarrow> ('p, 'a) taken option \<times> ('p, 'a) input" where
  "numbered ends e i = (case number_item ends i of (n, i) \<Rightarrow> (map_option (\<lambda>n. (n, e)) n, i))"

definition finish_input :: "('p, 'a) input \<Rightarrow> ('p, 'a) taken option \<times> ('p, 'a) input" where
  "finish_input i =
     (if \<not> in_exhausted i \<or> in_ended i < in_started i \<or> in_finished i \<or> in_stopped i then (None, i)
      else
        (let i = i\<lparr>in_finished := True\<rparr> in
         case so_last (in_source i) of None \<Rightarrow> (None, i) | Some e \<Rightarrow> numbered False e i))"

definition fail_input :: "'p \<Rightarrow> ('p, 'a) input \<Rightarrow> ('p, 'a) taken option \<times> ('p, 'a) input" where
  "fail_input p i = numbered True (Inl p) i"

definition set_left :: "('p + ('p, 'a) stream) list \<Rightarrow> ('p, 'a) input \<Rightarrow> ('p, 'a) input" where
  "set_left left i = i\<lparr>in_source := (in_source i)\<lparr>so_left := left\<rparr>\<rparr>"

definition open_next :: "('p, 'a) input \<Rightarrow> ('p, 'a) taken option \<times> ('p, 'a) input" where
  "open_next i =
     (if in_exhausted i \<or> in_max_open i \<le> length (in_open i) then (None, i)
      else
        (case so_left (in_source i) of
           Inr stream # left \<Rightarrow>
             (None, (set_left left i)\<lparr>in_started := in_started i + 1,
                in_open := in_open i @ [\<lparr>os_items = stream, os_done = False\<rparr>]\<rparr>)
         | [] \<Rightarrow> finish_input (i\<lparr>in_exhausted := True\<rparr>)
         | Inl p # left \<Rightarrow> fail_input p (set_left left i)))"

text \<open>
  Pulling from the \<open>k\<close>-th open stream. A stream that is over is taken off the open ones first, and
  told to the list of streams (\<open>end_stream\<close>) once its lock is let go: other workers run in between.
\<close>

datatype ('p, 'a) pulled = Pulled_Item "('p, 'a) taken" | Pulled_Ended | Pulled_Over

definition pull :: "('a \<Rightarrow> bool) \<Rightarrow> nat \<Rightarrow> ('p, 'a) input \<Rightarrow> ('p, 'a) pulled \<times> ('p, 'a) input" where
  "pull ends k i =
     (let s = in_open i ! k;
          store = (\<lambda>rest d. i\<lparr>in_open := (in_open i)[k := \<lparr>os_items = rest, os_done = d\<rparr>]\<rparr>)
      in if os_done s then (Pulled_Ended, i)
         else
           (case os_items s of
              [] \<Rightarrow> (Pulled_Over, i\<lparr>in_open := take k (in_open i) @ drop (Suc k) (in_open i)\<rparr>)
            | Inr x # rest \<Rightarrow>
                (case numbered (ends x) (Inr x) (store rest (\<not> in_stopped i \<and> ends x)) of
                   (Some t, i) \<Rightarrow> (Pulled_Item t, i) | (None, i) \<Rightarrow> (Pulled_Ended, i))
            | Inl p # rest \<Rightarrow>
                (case numbered True (Inl p) (store rest True) of
                   (Some t, i) \<Rightarrow> (Pulled_Item t, i) | (None, i) \<Rightarrow> (Pulled_Ended, i))))"

definition end_stream :: "('p, 'a) input \<Rightarrow> ('p, 'a) taken option \<times> ('p, 'a) input" where
  "end_stream i = finish_input (i\<lparr>in_ended := in_ended i + 1\<rparr>)"

subsection \<open>The pool\<close>

text \<open>
  Where a worker is: before it has a ticket, in \<open>take\<close> with one, in \<open>take\<close> between letting go of
  a stream that is over and telling the list, mapping an item, or gone.
\<close>

datatype ('p, 'a) worker =
  Wants_Ticket | Has_Ticket | Ending_Stream | Working "('p, 'a) taken" | Gone

record ('p, 'a, 'r) pool =
  po_workers :: "('p, 'a) worker list"
  po_tickets :: nat
  po_cancelled :: bool
  po_input :: "('p, 'a) input"
  po_results :: "(nat \<times> ('p + 'r)) list"
  po_pending :: "(nat \<times> ('p + 'r)) list"
  po_next :: nat
  po_preserve_order :: bool
  po_returned :: "('p + 'r) list"
  po_ended :: bool

definition new_pool :: "nat \<Rightarrow> nat \<Rightarrow> nat \<Rightarrow> bool \<Rightarrow> ('p, 'a) source \<Rightarrow> ('p, 'a, 'r) pool" where
  "new_pool threads in_flight max_open preserve_order source =
     \<lparr>po_workers = replicate threads Wants_Ticket, po_tickets = max in_flight threads, po_cancelled = False,
      po_input = new_input source (if preserve_order then 1 else max_open),
      po_results = [], po_pending = [], po_next = 0, po_preserve_order = preserve_order,
      po_returned = [], po_ended = False\<rparr>"

definition set_worker :: "nat \<Rightarrow> ('p, 'a) worker \<Rightarrow> ('p, 'a, 'r) pool \<Rightarrow> ('p, 'a, 'r) pool" where
  "set_worker w st s = s\<lparr>po_workers := (po_workers s)[w := st]\<rparr>"

text \<open>\<open>item.and_then(|item| catch_unwind(|| f(item)))\<close>.\<close>

definition map_event :: "('a \<Rightarrow> 'p + 'r) \<Rightarrow> 'p + 'a \<Rightarrow> 'p + 'r" where
  "map_event f e = (case e of Inl p \<Rightarrow> Inl p | Inr x \<Rightarrow> f x)"

text \<open>\<open>ParallelMap::streams\<close> with one thread, or none: the items on the calling thread.\<close>

definition inline_next ::
  "('a \<Rightarrow> bool) \<Rightarrow> ('a \<Rightarrow> 'p + 'r) \<Rightarrow> ('p, 'a) sequential \<Rightarrow> ('p + 'r) option \<times> ('p, 'a) sequential" where
  "inline_next ends f s = (case sequential_next ends s of (item, s) \<Rightarrow> (map_option (map_event f) item, s))"

text \<open>What a worker may do next; the number is the worker, the second one of the open streams.\<close>

datatype action =
  Take_Ticket nat | Pull_Stream nat nat | Open_Stream nat | Tell_End nat | Leave_Input nat | Send_Result nat
| Receive | Deliver | End_Results | Cancel

definition worker_is :: "nat \<Rightarrow> ('p, 'a) worker \<Rightarrow> ('p, 'a, 'r) pool \<Rightarrow> bool" where
  "worker_is w st s \<longleftrightarrow> w < length (po_workers s) \<and> po_workers s ! w = st"

text \<open>After a part of \<open>take\<close>: an item to map, or another turn of its loop.\<close>

definition took :: "nat \<Rightarrow> ('p, 'a) taken option \<times> ('p, 'a) input \<Rightarrow> ('p, 'a, 'r) pool \<Rightarrow> ('p, 'a, 'r) pool" where
  "took w r s =
     set_worker w (case fst r of Some t \<Rightarrow> Working t | None \<Rightarrow> Has_Ticket) (s\<lparr>po_input := snd r\<rparr>)"

definition take_ticket :: "nat \<Rightarrow> ('p, 'a, 'r) pool \<Rightarrow> ('p, 'a, 'r) pool option" where
  "take_ticket w s =
     (if \<not> worker_is w Wants_Ticket s then None
      else if po_cancelled s then Some (set_worker w Gone s)
      else if 0 < po_tickets s then Some (set_worker w Has_Ticket (s\<lparr>po_tickets := po_tickets s - 1\<rparr>))
      else None)"

definition pull_step :: "('a \<Rightarrow> bool) \<Rightarrow> nat \<Rightarrow> nat \<Rightarrow> ('p, 'a, 'r) pool \<Rightarrow> ('p, 'a, 'r) pool option" where
  "pull_step ends w k s =
     (if \<not> worker_is w Has_Ticket s \<or> length (in_open (po_input s)) \<le> k \<or> os_done (in_open (po_input s) ! k)
      then None
      else
        (case pull ends k (po_input s) of
           (Pulled_Item t, i) \<Rightarrow> Some (took w (Some t, i) s)
         | (Pulled_Ended, i) \<Rightarrow> Some (took w (None, i) s)
         | (Pulled_Over, i) \<Rightarrow> Some (set_worker w Ending_Stream (s\<lparr>po_input := i\<rparr>))))"

definition open_step :: "nat \<Rightarrow> ('p, 'a, 'r) pool \<Rightarrow> ('p, 'a, 'r) pool option" where
  "open_step w s =
     (if \<not> worker_is w Has_Ticket s \<or> in_exhausted (po_input s)
         \<or> in_max_open (po_input s) \<le> length (in_open (po_input s)) then None
      else Some (took w (open_next (po_input s)) s))"

definition tell_step :: "nat \<Rightarrow> ('p, 'a, 'r) pool \<Rightarrow> ('p, 'a, 'r) pool option" where
  "tell_step w s =
     (if \<not> worker_is w Ending_Stream s then None else Some (took w (end_stream (po_input s)) s))"

definition leave_step :: "nat \<Rightarrow> ('p, 'a, 'r) pool \<Rightarrow> ('p, 'a, 'r) pool option" where
  "leave_step w s =
     (if worker_is w Has_Ticket s \<and>
         (in_stopped (po_input s) \<or> (in_open (po_input s) = [] \<and> in_exhausted (po_input s)))
      then Some (set_worker w Gone (s\<lparr>po_tickets := po_tickets s + 1\<rparr>)) else None)"

definition send_step :: "('a \<Rightarrow> 'p + 'r) \<Rightarrow> nat \<Rightarrow> ('p, 'a, 'r) pool \<Rightarrow> ('p, 'a, 'r) pool option" where
  "send_step f w s =
     (if length (po_workers s) \<le> w then None
      else
        (case po_workers s ! w of
           Working (n, e) \<Rightarrow>
             if po_cancelled s then Some (set_worker w Gone s)
             else Some (set_worker w Wants_Ticket (s\<lparr>po_results := po_results s @ [(n, map_event f e)]\<rparr>))
         | _ \<Rightarrow> None))"

text \<open>\<open>Pool::next\<close>: a pending result, else the next one that comes in, else the end.\<close>

definition may_deliver :: "('p, 'a, 'r) pool \<Rightarrow> bool" where
  "may_deliver s \<longleftrightarrow> po_preserve_order s \<and> map_of (po_pending s) (po_next s) \<noteq> None"

definition deliver_step :: "('p, 'a, 'r) pool \<Rightarrow> ('p, 'a, 'r) pool option" where
  "deliver_step s =
     (if po_cancelled s \<or> po_ended s \<or> \<not> may_deliver s then None
      else Some (s\<lparr>po_pending := AList.delete (po_next s) (po_pending s), po_next := po_next s + 1,
                   po_tickets := po_tickets s + 1,
                   po_returned := po_returned s @ [the (map_of (po_pending s) (po_next s))]\<rparr>))"

definition receive_step :: "('p, 'a, 'r) pool \<Rightarrow> ('p, 'a, 'r) pool option" where
  "receive_step s =
     (if po_cancelled s \<or> po_ended s \<or> may_deliver s then None
      else
        (case po_results s of
           [] \<Rightarrow> None
         | (n, r) # rest \<Rightarrow>
             if po_preserve_order s
             then Some (s\<lparr>po_results := rest, po_pending := AList.update n r (po_pending s)\<rparr>)
             else Some (s\<lparr>po_results := rest, po_tickets := po_tickets s + 1, po_returned := po_returned s @ [r]\<rparr>)))"

definition end_step :: "('p, 'a, 'r) pool \<Rightarrow> ('p, 'a, 'r) pool option" where
  "end_step s =
     (if po_cancelled s \<or> po_ended s \<or> may_deliver s \<or> po_results s \<noteq> [] \<or> \<not> list_all (\<lambda>w. w = Gone) (po_workers s)
      then None else Some (s\<lparr>po_ended := True\<rparr>))"

definition cancel_step :: "('p, 'a, 'r) pool \<Rightarrow> ('p, 'a, 'r) pool option" where
  "cancel_step s = (if po_cancelled s then None else Some (s\<lparr>po_cancelled := True\<rparr>))"

fun pool_step ::
  "('a \<Rightarrow> bool) \<Rightarrow> ('a \<Rightarrow> 'p + 'r) \<Rightarrow> action \<Rightarrow> ('p, 'a, 'r) pool \<Rightarrow> ('p, 'a, 'r) pool option" where
  "pool_step ends f (Take_Ticket w) s = take_ticket w s"
| "pool_step ends f (Pull_Stream w k) s = pull_step ends w k s"
| "pool_step ends f (Open_Stream w) s = open_step w s"
| "pool_step ends f (Tell_End w) s = tell_step w s"
| "pool_step ends f (Leave_Input w) s = leave_step w s"
| "pool_step ends f (Send_Result w) s = send_step f w s"
| "pool_step ends f Receive s = receive_step s"
| "pool_step ends f Deliver s = deliver_step s"
| "pool_step ends f End_Results s = end_step s"
| "pool_step ends f Cancel s = cancel_step s"

inductive pool_run ::
  "('a \<Rightarrow> bool) \<Rightarrow> ('a \<Rightarrow> 'p + 'r) \<Rightarrow> ('p, 'a, 'r) pool \<Rightarrow> ('p, 'a, 'r) pool \<Rightarrow> bool"
  for ends :: "'a \<Rightarrow> bool" and f :: "'a \<Rightarrow> 'p + 'r" and start :: "('p, 'a, 'r) pool" where
  pool_start: "pool_run ends f start start"
| pool_more: "pool_run ends f start s \<Longrightarrow> pool_step ends f a s = Some t \<Longrightarrow> pool_run ends f start t"

end
