(* ===== verification/Parallel_Laws.thy ===== *)
theory Parallel_Laws
  imports Parallel "HOL-Library.Multiset"
begin

text \<open>
  The input of the worker pool: the items a source holds, in order, which the calling thread takes
  (\<open>Sequential\<close>); the weight that every step lowers; and the invariant of the shared input with one
  stream open at a time.
\<close>

subsection \<open>The items of an input, in order\<close>

function items_of :: "('a \<Rightarrow> bool) \<Rightarrow> ('p + ('p, 'a) stream) list \<Rightarrow> ('p + 'a) option \<Rightarrow> ('p + 'a) list" where
  "items_of ends [] fin = (case fin of None \<Rightarrow> [] | Some e \<Rightarrow> [e])"
| "items_of ends (Inl p # left) fin = [Inl p]"
| "items_of ends (Inr [] # left) fin = items_of ends left fin"
| "items_of ends (Inr (Inl p # rest) # left) fin = [Inl p]"
| "items_of ends (Inr (Inr x # rest) # left) fin =
     Inr x # (if ends x then [] else items_of ends (Inr rest # left) fin)"
  by pat_completeness auto
termination
  by (relation "measure (\<lambda>(_, left, _). sum_list (map (case_sum (\<lambda>_. 1) (\<lambda>s. Suc (length s))) left))") auto

definition input_items :: "('a \<Rightarrow> bool) \<Rightarrow> ('p, 'a) source \<Rightarrow> ('p + 'a) list" where
  "input_items ends source = items_of ends (so_left source) (so_last source)"

definition sequential_rest :: "('a \<Rightarrow> bool) \<Rightarrow> ('p, 'a) sequential \<Rightarrow> ('p + 'a) list" where
  "sequential_rest ends s =
     (if sq_done s then []
      else items_of ends ((case sq_current s of Some c \<Rightarrow> [Inr c] | None \<Rightarrow> []) @ so_left (sq_streams s))
             (so_last (sq_streams s)))"

definition fresh_stream :: "('p, 'a) stream option \<Rightarrow> bool" where
  "fresh_stream c \<longleftrightarrow> c = None \<or> c = Some []"

lemma sequential_next_fresh:
  assumes "\<not> sq_done s" "fresh_stream (sq_current s)" "so_left (sq_streams s) = Inr stream # left"
  defines "s' \<equiv> s\<lparr>sq_streams := (sq_streams s)\<lparr>so_left := left\<rparr>, sq_current := Some stream\<rparr>"
  shows "sequential_next ends s = sequential_next ends s'" "sequential_rest ends s = sequential_rest ends s'"
  using assms by (auto simp: fresh_stream_def sequential_next.simps [of ends s] sequential_rest_def)

lemma sequential_next_rest:
  "sequential_next ends s = (r, t) \<Longrightarrow>
   sequential_rest ends s = (case r of None \<Rightarrow> [] | Some e \<Rightarrow> e # sequential_rest ends t) \<and>
   (r = None \<longrightarrow> sequential_rest ends t = [])"
proof (induction "length (so_left (sq_streams s))" arbitrary: s)
  case 0
  from "0.prems" "0.hyps" show ?case
    by (subst (asm) sequential_next.simps)
      (auto simp: sequential_rest_def split: if_splits option.splits list.splits sum.splits)
next
  case (Suc n)
  then obtain x left where left: "so_left (sq_streams s) = x # left" by (cases "so_left (sq_streams s)") auto
  show ?case
  proof (cases "\<not> sq_done s \<and> fresh_stream (sq_current s) \<and> (\<exists>stream. x = Inr stream)")
    case True
    then obtain stream where x: "x = Inr stream" by blast
    note eq = sequential_next_fresh [of s stream left ends] True left x
    then show ?thesis using Suc.hyps(1) [of "s\<lparr>sq_streams := (sq_streams s)\<lparr>so_left := left\<rparr>, sq_current := Some stream\<rparr>"]
        Suc.hyps(2) Suc.prems by simp
  next
    case False
    from Suc.prems left False show ?thesis
      by (subst (asm) sequential_next.simps)
        (auto simp: sequential_rest_def fresh_stream_def split: if_splits option.splits list.splits sum.splits)
  qed
qed

text \<open>The first \<open>n\<close> results of a map on the calling thread.\<close>

fun inline_run :: "('a \<Rightarrow> bool) \<Rightarrow> ('a \<Rightarrow> 'p + 'r) \<Rightarrow> nat \<Rightarrow> ('p, 'a) sequential \<Rightarrow> ('p + 'r) option list" where
  "inline_run ends f 0 s = []"
| "inline_run ends f (Suc n) s = (case inline_next ends f s of (r, t) \<Rightarrow> r # inline_run ends f n t)"

lemma inline_run_rest:
  "inline_run ends f n s =
     map Some (map (map_event f) (take n (sequential_rest ends s))) @ replicate (n - length (sequential_rest ends s)) None"
proof (induction n arbitrary: s)
  case (Suc n)
  obtain r t where rt: "sequential_next ends s = (r, t)" by fastforce
  then show ?case using sequential_next_rest [OF rt] Suc [of t] by (auto simp: inline_next_def split: option.splits)
qed simp

lemma inline_run_items:
  "inline_run ends f n (new_sequential source) =
     map Some (map (map_event f) (take n (input_items ends source))) @ replicate (n - length (input_items ends source)) None"
  by (simp add: inline_run_rest new_sequential_def sequential_rest_def input_items_def)

subsection \<open>Every step lowers a weight\<close>

lemma sum_list_change:
  fixes g :: "'b \<Rightarrow> 'c::comm_monoid_add"
  assumes "w < length ws"
  obtains c where "sum_list (map g ws) = g (ws ! w) + c" "\<And>y. sum_list (map g (ws[w := y])) = g y + c"
proof -
  let ?c = "sum_list (map g (take w ws)) + sum_list (map g (drop (Suc w) ws))"
  have "sum_list (map g ws) = g (ws ! w) + ?c"
    by (subst (1) id_take_nth_drop [OF assms]) (simp add: add.left_commute)
  moreover have "sum_list (map g (ws[w := y])) = g y + ?c" for y
    by (simp add: upd_conv_take_nth_drop assms add.left_commute)
  ultimately show ?thesis using that by blast
qed

fun left_weight :: "'p + ('p, 'a) stream \<Rightarrow> nat" where
  "left_weight (Inl p) = 8"
| "left_weight (Inr stream) = 3 + 5 * length stream"

definition open_weight :: "('p, 'a) open_stream \<Rightarrow> nat" where
  "open_weight s = 2 + 5 * length (os_items s)"

definition input_weight :: "('p, 'a) input \<Rightarrow> nat" where
  "input_weight i =
     sum_list (map left_weight (so_left (in_source i))) + sum_list (map open_weight (in_open i)) +
     (if in_finished i then 0 else 5) + (if in_exhausted i then 0 else 1)"

fun worker_weight :: "('p, 'a) worker \<Rightarrow> nat" where
  "worker_weight Wants_Ticket = 2"
| "worker_weight Has_Ticket = 1"
| "worker_weight Ending_Stream = 2"
| "worker_weight (Working t) = 5"
| "worker_weight Gone = 0"

definition pool_weight :: "('p, 'a, 'r) pool \<Rightarrow> nat" where
  "pool_weight s =
     sum_list (map worker_weight (po_workers s)) + input_weight (po_input s) + 2 * length (po_results s) +
     length (po_pending s) + (if po_ended s then 0 else 1) + (if po_cancelled s then 0 else 1)"

definition taken_weight :: "('p, 'a) taken option \<Rightarrow> nat" where
  "taken_weight t = (case t of Some _ \<Rightarrow> 5 | None \<Rightarrow> 1)"

lemma taken_weight_simps [simp]: "taken_weight (Some t) = 5" "taken_weight None = 1"
  by (auto simp: taken_weight_def)

lemma numbered_weight:
  "numbered ends e i = (t, j) \<Longrightarrow> input_weight j \<le> input_weight i \<and> in_open j = in_open i"
  by (auto simp: numbered_def number_item_def input_weight_def split: if_splits)

lemma finish_input_weight:
  "finish_input i = (t, j) \<Longrightarrow> taken_weight t + input_weight j \<le> 1 + input_weight i"
  by (auto simp: finish_input_def Let_def input_weight_def numbered_def number_item_def
      split: if_splits option.splits)

lemma open_next_weight:
  assumes "open_next i = (t, j)" "\<not> in_exhausted i" "length (in_open i) < in_max_open i"
  shows "taken_weight t + input_weight j < 1 + input_weight i"
proof (cases "so_left (in_source i)")
  case Nil
  then have "finish_input (i\<lparr>in_exhausted := True\<rparr>) = (t, j)" using assms by (simp add: open_next_def)
  from finish_input_weight [OF this] show ?thesis using assms(2) by (simp add: input_weight_def)
next
  case (Cons x left)
  show ?thesis
  proof (cases x)
    case (Inl p)
    then have "numbered True (Inl p) (set_left left i) = (t, j)"
      using assms Cons by (simp add: open_next_def fail_input_def)
    from numbered_weight [OF this] show ?thesis using Cons Inl
      by (cases t) (auto simp: input_weight_def set_left_def)
  qed (use assms Cons in \<open>auto simp: open_next_def input_weight_def set_left_def open_weight_def\<close>)
qed

lemma end_stream_weight:
  "end_stream i = (t, j) \<Longrightarrow> taken_weight t + input_weight j \<le> 1 + input_weight i"
  using finish_input_weight [of "i\<lparr>in_ended := in_ended i + 1\<rparr>"]
  by (simp add: end_stream_def input_weight_def)

lemma open_streams_drop:
  "k < length xs \<Longrightarrow> sum_list (map open_weight xs) =
     open_weight (xs ! k) + sum_list (map open_weight (take k xs @ drop (Suc k) xs))"
  by (subst (1) id_take_nth_drop [of k xs]) auto

lemma store_weight:
  assumes "k < length (in_open i)" "os_items (in_open i ! k) = x # rest"
  shows "input_weight (i\<lparr>in_open := (in_open i)[k := \<lparr>os_items = rest, os_done = d\<rparr>]\<rparr>) + 5 = input_weight i"
proof -
  obtain c where "sum_list (map open_weight (in_open i)) = open_weight (in_open i ! k) + c"
    "\<And>y. sum_list (map open_weight ((in_open i)[k := y])) = open_weight y + c"
    using sum_list_change [OF assms(1), of open_weight] by blast
  then show ?thesis using assms(2) by (simp add: input_weight_def open_weight_def)
qed

lemma pull_weight:
  assumes "pull ends k i = (r, j)" "k < length (in_open i)" "\<not> os_done (in_open i ! k)"
  shows "(case r of Pulled_Item t \<Rightarrow> 5 | Pulled_Ended \<Rightarrow> 1 | Pulled_Over \<Rightarrow> 2) + input_weight j < 1 + input_weight i"
proof (cases "os_items (in_open i ! k)")
  case Nil
  then show ?thesis using assms open_streams_drop [OF assms(2)]
    by (auto simp: pull_def Let_def input_weight_def open_weight_def)
next
  case (Cons x rest)
  note store = store_weight [OF assms(2) Cons]
  show ?thesis
  proof (cases x)
    case (Inl p)
    let ?i = "i\<lparr>in_open := (in_open i)[k := \<lparr>os_items = rest, os_done = True\<rparr>]\<rparr>"
    obtain t j' where n: "numbered True (Inl p) ?i = (t, j')" by fastforce
    show ?thesis using assms Cons Inl n numbered_weight [OF n] store [of True]
      by (cases t) (auto simp: pull_def Let_def)
  next
    case (Inr y)
    let ?d = "\<not> in_stopped i \<and> ends y"
    let ?i = "i\<lparr>in_open := (in_open i)[k := \<lparr>os_items = rest, os_done = ?d\<rparr>]\<rparr>"
    obtain t j' where n: "numbered (ends y) (Inr y) ?i = (t, j')" by fastforce
    show ?thesis using assms Cons Inr n numbered_weight [OF n] store [of ?d]
      by (cases t) (auto simp: pull_def Let_def)
  qed
qed

lemma worker_set_weight:
  assumes "worker_is w st s"
  shows "pool_weight (set_worker w st' s) + worker_weight st = pool_weight s + worker_weight st'"
proof -
  have w: "w < length (po_workers s)" "po_workers s ! w = st" using assms by (auto simp: worker_is_def)
  obtain c where "sum_list (map worker_weight (po_workers s)) = worker_weight (po_workers s ! w) + c"
    "\<And>y. sum_list (map worker_weight ((po_workers s)[w := y])) = worker_weight y + c"
    using sum_list_change [OF w(1), of worker_weight] by blast
  then show ?thesis using w(2) by (simp add: pool_weight_def set_worker_def)
qed

lemma worker_is_update [simp]:
  "worker_is w st (s\<lparr>po_input := i\<rparr>) = worker_is w st s"
  "worker_is w st (s\<lparr>po_tickets := n\<rparr>) = worker_is w st s"
  "worker_is w st (s\<lparr>po_results := rs\<rparr>) = worker_is w st s"
  by (auto simp: worker_is_def)

lemma pool_weight_update:
  "pool_weight (s\<lparr>po_tickets := n\<rparr>) = pool_weight s"
  "pool_weight (s\<lparr>po_input := i\<rparr>) + input_weight (po_input s) = pool_weight s + input_weight i"
  "pool_weight (s\<lparr>po_results := po_results s @ [r]\<rparr>) = pool_weight s + 2"
  by (auto simp: pool_weight_def)

lemma took_weight:
  assumes "worker_is w st s" "taken_weight (fst r) + input_weight (snd r) < worker_weight st + input_weight (po_input s)"
  shows "pool_weight (took w r s) < pool_weight s"
proof -
  define st' where "st' = (case fst r of Some t \<Rightarrow> Working t | None \<Rightarrow> Has_Ticket)"
  have "worker_weight st' = taken_weight (fst r)" by (auto simp: st'_def split: option.splits)
  then show ?thesis
    using worker_set_weight [of w st "s\<lparr>po_input := snd r\<rparr>" st'] pool_weight_update(2) [of "snd r" s] assms
    by (simp add: took_def st'_def)
qed

lemma delete_weight: "map_of xs k = Some y \<Longrightarrow> length (AList.delete k xs) < length xs"
  by (induction xs) (auto simp: AList.length_delete_le less_Suc_eq_le split: if_splits)

lemma update_weight: "length (AList.update k y xs) \<le> Suc (length xs)"
  by (induction xs) auto

lemma pull_step_weight: "pull_step ends w k s = Some t \<Longrightarrow> pool_weight t < pool_weight s"
proof -
  assume step: "pull_step ends w k s = Some t"
  then have w: "worker_is w Has_Ticket s" and k: "k < length (in_open (po_input s))" "\<not> os_done (in_open (po_input s) ! k)"
    by (auto simp: pull_step_def split: if_splits)
  obtain r j where pull: "pull ends k (po_input s) = (r, j)" by fastforce
  show ?thesis
  proof (cases r)
    case Pulled_Over
    then have t: "t = set_worker w Ending_Stream (s\<lparr>po_input := j\<rparr>)" using step w k pull by (simp add: pull_step_def)
    show ?thesis
      using worker_set_weight [of w Has_Ticket "s\<lparr>po_input := j\<rparr>" Ending_Stream] pool_weight_update(2) [of j s]
        pull_weight [OF pull k] w Pulled_Over by (simp add: t)
  qed (use step w k pull pull_weight [OF pull k] in
      \<open>auto simp: pull_step_def intro!: took_weight [OF w]\<close>)
qed

lemma send_step_weight: "send_step f w s = Some t \<Longrightarrow> pool_weight t < pool_weight s"
proof -
  assume step: "send_step f w s = Some t"
  then obtain n e where w: "worker_is w (Working (n, e)) s"
    by (auto simp: send_step_def worker_is_def split: if_splits worker.splits)
  show ?thesis
  proof (cases "po_cancelled s")
    case True
    then show ?thesis using step w worker_set_weight [OF w, of Gone] by (auto simp: send_step_def worker_is_def)
  next
    case False
    let ?s = "s\<lparr>po_results := po_results s @ [(n, map_event f e)]\<rparr>"
    show ?thesis using False step w worker_set_weight [of w "Working (n, e)" ?s Wants_Ticket] pool_weight_update(3) [of s]
      by (auto simp: send_step_def worker_is_def)
  qed
qed

lemma pool_step_weight: "pool_step ends f a s = Some t \<Longrightarrow> pool_weight t < pool_weight s"
proof (cases a)
  case (Take_Ticket w)
  assume "pool_step ends f a s = Some t"
  then have "take_ticket w s = Some t" using Take_Ticket by simp
  then show ?thesis
    using worker_set_weight [of w Wants_Ticket s Gone]
      worker_set_weight [of w Wants_Ticket "s\<lparr>po_tickets := po_tickets s - 1\<rparr>" Has_Ticket]
    by (auto simp: take_ticket_def pool_weight_update split: if_splits)
next
  case (Pull_Stream w k)
  assume "pool_step ends f a s = Some t"
  then show ?thesis using Pull_Stream pull_step_weight by simp
next
  case (Open_Stream w)
  assume "pool_step ends f a s = Some t"
  then have step: "open_step w s = Some t" using Open_Stream by simp
  then have ok: "worker_is w Has_Ticket s" "\<not> in_exhausted (po_input s)"
    "length (in_open (po_input s)) < in_max_open (po_input s)" and t: "t = took w (open_next (po_input s)) s"
    by (auto simp: open_step_def split: if_splits)
  show ?thesis unfolding t
    using open_next_weight [OF prod.collapse [symmetric] ok(2,3)] by (intro took_weight [OF ok(1)]) simp
next
  case (Tell_End w)
  assume "pool_step ends f a s = Some t"
  then have ok: "worker_is w Ending_Stream s" and t: "t = took w (end_stream (po_input s)) s"
    using Tell_End by (auto simp: tell_step_def split: if_splits)
  show ?thesis unfolding t
    using end_stream_weight [OF prod.collapse [symmetric], of "po_input s"] by (intro took_weight [OF ok]) simp
next
  case (Leave_Input w)
  assume "pool_step ends f a s = Some t"
  then show ?thesis
    using Leave_Input worker_set_weight [of w Has_Ticket "s\<lparr>po_tickets := po_tickets s + 1\<rparr>" Gone]
    by (auto simp: leave_step_def pool_weight_update split: if_splits)
next
  case (Send_Result w)
  assume "pool_step ends f a s = Some t"
  then show ?thesis using Send_Result send_step_weight by simp
next
  case Receive
  assume "pool_step ends f a s = Some t"
  then show ?thesis using Receive update_weight [of _ _ "po_pending s"]
    by (auto simp: receive_step_def pool_weight_def less_Suc_eq_le split: if_splits list.splits)
next
  case Deliver
  assume "pool_step ends f a s = Some t"
  then show ?thesis using Deliver delete_weight
    by (auto simp: deliver_step_def pool_weight_def may_deliver_def split: if_splits)
qed (auto simp: end_step_def cancel_step_def pool_weight_def split: if_splits)

text \<open>A schedule of the workers and the consumer, and what it leads to.\<close>

fun run_schedule ::
  "('a \<Rightarrow> bool) \<Rightarrow> ('a \<Rightarrow> 'p + 'r) \<Rightarrow> action list \<Rightarrow> ('p, 'a, 'r) pool \<Rightarrow> ('p, 'a, 'r) pool option" where
  "run_schedule ends f [] s = Some s"
| "run_schedule ends f (a # schedule) s =
     (case pool_step ends f a s of None \<Rightarrow> None | Some t \<Rightarrow> run_schedule ends f schedule t)"

lemma schedule_bounded:
  "run_schedule ends f schedule s = Some t \<Longrightarrow> length schedule + pool_weight t \<le> pool_weight s"
proof (induction schedule arbitrary: s)
  case (Cons a schedule)
  then obtain u where "pool_step ends f a s = Some u" "run_schedule ends f schedule u = Some t"
    by (auto split: option.splits)
  then show ?case using pool_step_weight [of ends f a s u] Cons.IH [of u] by simp
qed simp

subsection \<open>The input, one stream at a time\<close>

definition input_rest :: "('a \<Rightarrow> bool) \<Rightarrow> ('p, 'a) input \<Rightarrow> ('p + 'a) list" where
  "input_rest ends i =
     (if in_stopped i then []
      else items_of ends (map (\<lambda>s. Inr (os_items s)) (in_open i) @ so_left (in_source i))
             (if in_finished i then None else so_last (in_source i)))"

text \<open>\<open>ending\<close> streams are over and not told to the list yet.\<close>

definition input_shape :: "('a \<Rightarrow> bool) \<Rightarrow> ('p + 'a) list \<Rightarrow> nat \<Rightarrow> ('p, 'a) input \<Rightarrow> bool" where
  "input_shape ends items ending i \<longleftrightarrow>
     in_max_open i = 1 \<and> length (in_open i) \<le> 1 \<and>
     in_ended i + ending + length (in_open i) = in_started i \<and>
     (in_stopped i \<longrightarrow> in_exhausted i) \<and>
     (\<not> in_stopped i \<longrightarrow> list_all (\<lambda>s. \<not> os_done s) (in_open i)) \<and>
     (in_exhausted i \<longrightarrow> \<not> in_stopped i \<longrightarrow> so_left (in_source i) = []) \<and>
     (in_finished i \<longrightarrow> in_exhausted i \<and> in_ended i = in_started i) \<and>
     in_next i \<le> length items \<and> take (in_next i) items @ input_rest ends i = items"

definition input_ok :: "('a \<Rightarrow> bool) \<Rightarrow> ('p + 'a) list \<Rightarrow> nat \<Rightarrow> ('p, 'a) input \<Rightarrow> bool" where
  "input_ok ends items ending i \<longleftrightarrow>
     input_shape ends items ending i \<and>
     (in_exhausted i \<longrightarrow> \<not> in_stopped i \<longrightarrow> in_ended i = in_started i \<longrightarrow> in_finished i)"

definition input_over :: "('p, 'a) input \<Rightarrow> bool" where
  "input_over i \<longleftrightarrow> in_stopped i \<or> (in_open i = [] \<and> in_exhausted i)"

definition taken_ok :: "('p + 'a) list \<Rightarrow> ('p, 'a) input \<Rightarrow> ('p, 'a) taken option \<Rightarrow> ('p, 'a) input \<Rightarrow> bool" where
  "taken_ok items i t j \<longleftrightarrow>
     (input_over i \<longrightarrow> input_over j) \<and>
     (case t of
        None \<Rightarrow> in_next j = in_next i
      | Some (n, e) \<Rightarrow> n = in_next i \<and> in_next j = Suc n \<and> n < length items \<and> items ! n = e)"

lemma take_next_item:
  assumes "take n items @ x # rest = items" "n \<le> length items"
  shows "n < length items" "items ! n = x" "take (Suc n) items @ rest = items"
proof -
  have len: "length (take n items) = n" using assms(2) by simp
  have "length items = n + Suc (length rest)" using arg_cong [OF assms(1), of length] assms(2) by simp
  then show n: "n < length items" by simp
  show "items ! n = x" using len by (metis assms(1) nth_append_length)
  then show "take (Suc n) items @ rest = items" using assms(1) n by (simp add: take_Suc_conv_app_nth)
qed

lemma new_input_ok: "input_ok ends (input_items ends source) 0 (new_input source 1)"
  by (simp add: input_ok_def input_shape_def new_input_def input_rest_def input_items_def)

lemma finish_input_ok:
  assumes shape: "input_shape ends items ending i" and fin: "finish_input i = (t, j)"
  shows "input_ok ends items ending j \<and> taken_ok items i t j"
proof -
  show ?thesis
  proof (cases "\<not> in_exhausted i \<or> in_ended i < in_started i \<or> in_finished i \<or> in_stopped i")
    case True
    then have "t = None" "j = i" using fin by (auto simp: finish_input_def)
    then show ?thesis using shape True by (auto simp: input_ok_def input_shape_def taken_ok_def)
  next
    case False
    then have le: "\<not> in_ended i < in_started i" by blast
    have eq: "in_ended i + ending + length (in_open i) = in_started i" using shape by (simp add: input_shape_def)
    have "length (in_open i) = 0" using eq le by linarith
    then have none: "in_open i = []" by simp
    have counts: "ending = 0" "in_ended i = in_started i" using eq le by linarith+
    have left: "so_left (in_source i) = []" using shape False by (simp add: input_shape_def)
    note none = none counts left
    have rest: "in_next i \<le> length items" "take (in_next i) items @ input_rest ends i = items"
      using shape by (auto simp: input_shape_def)
    have items: "take (in_next i) items @ (case so_last (in_source i) of None \<Rightarrow> [] | Some e \<Rightarrow> [e]) = items"
      using rest(2) none False by (simp add: input_rest_def)
    show ?thesis
    proof (cases "so_last (in_source i)")
      case None
      then have "t = None" "j = i\<lparr>in_finished := True\<rparr>" using fin False by (auto simp: finish_input_def Let_def)
      then show ?thesis using shape False none None items
        by (auto simp: input_ok_def input_shape_def taken_ok_def input_rest_def input_over_def)
    next
      case (Some e)
      then have t: "t = Some (in_next i, e)" and j: "j = i\<lparr>in_finished := True, in_next := in_next i + 1\<rparr>"
        using fin False by (auto simp: finish_input_def Let_def numbered_def number_item_def)
      have items: "take (in_next i) items @ e # [] = items" using items Some by simp
      show ?thesis using shape False none take_next_item [OF items rest(1)]
        by (auto simp: t j input_ok_def input_shape_def input_shape_def taken_ok_def input_rest_def input_over_def)
    qed
  qed
qed

lemma open_next_ok:
  assumes ok: "input_ok ends items ending i" and "\<not> in_exhausted i" "length (in_open i) < in_max_open i"
    and open_next: "open_next i = (t, j)"
  shows "input_ok ends items ending j \<and> taken_ok items i t j"
proof -
  have none: "in_open i = []" "\<not> in_stopped i" "\<not> in_finished i" "\<not> input_over i"
    using assms(2,3) ok by (auto simp: input_ok_def input_shape_def input_over_def)
  have items: "take (in_next i) items @ items_of ends (so_left (in_source i)) (so_last (in_source i)) = items"
    and next_le: "in_next i \<le> length items" using ok none by (auto simp: input_ok_def input_shape_def input_rest_def)
  show ?thesis
  proof (cases "so_left (in_source i)")
    case Nil
    then have fin: "finish_input (i\<lparr>in_exhausted := True\<rparr>) = (t, j)" using assms by (simp add: open_next_def)
    have "input_shape ends items ending (i\<lparr>in_exhausted := True\<rparr>)"
      using ok none Nil by (simp add: input_ok_def input_shape_def input_rest_def)
    from finish_input_ok [OF this fin] show ?thesis using none by (auto simp: taken_ok_def split: option.splits)
  next
    case (Cons x left)
    show ?thesis
    proof (cases x)
      case (Inl p)
      then have tj: "t = Some (in_next i, Inl p)"
        "j = (set_left left i)\<lparr>in_next := in_next i + 1, in_stopped := True, in_exhausted := True\<rparr>"
        using open_next assms(2,3) none Cons
        by (auto simp: open_next_def fail_input_def numbered_def number_item_def set_left_def)
      have items: "take (in_next i) items @ Inl p # [] = items" using items Cons Inl by simp
      show ?thesis using ok none take_next_item [OF items next_le]
        by (auto simp: tj input_ok_def input_shape_def input_rest_def taken_ok_def set_left_def)
    next
      case (Inr stream)
      then have tj: "t = None" "j = (set_left left i)\<lparr>in_started := in_started i + 1,
           in_open := [\<lparr>os_items = stream, os_done = False\<rparr>]\<rparr>"
        using open_next assms(2,3) none Cons by (auto simp: open_next_def)
      then show ?thesis using ok none assms(2) Cons Inr
        by (auto simp: input_ok_def input_shape_def input_rest_def taken_ok_def set_left_def)
    qed
  qed
qed

lemma end_stream_ok:
  assumes ok: "input_ok ends items (Suc ending) i" and end_stream: "end_stream i = (t, j)"
  shows "input_ok ends items ending j \<and> taken_ok items i t j"
proof -
  have not: "\<not> in_finished i" using ok by (auto simp: input_ok_def input_shape_def)
  have shape: "input_shape ends items ending (i\<lparr>in_ended := in_ended i + 1\<rparr>)"
    using ok not by (auto simp: input_ok_def input_shape_def input_rest_def)
  have "finish_input (i\<lparr>in_ended := in_ended i + 1\<rparr>) = (t, j)" using end_stream by (simp add: end_stream_def)
  from finish_input_ok [OF shape this] show ?thesis by (auto simp: taken_ok_def input_over_def split: option.splits)
qed

lemma pull_ok:
  assumes ok: "input_ok ends items ending i" and k: "k < length (in_open i)" "\<not> os_done (in_open i ! k)"
    and pull: "pull ends k i = (r, j)"
  shows "case r of
           Pulled_Item t \<Rightarrow> input_ok ends items ending j \<and> taken_ok items i (Some t) j
         | Pulled_Ended \<Rightarrow> input_ok ends items ending j \<and> taken_ok items i None j
         | Pulled_Over \<Rightarrow> input_ok ends items (Suc ending) j \<and> taken_ok items i None j"
proof -
  have "length (in_open i) \<le> 1" using ok by (simp add: input_ok_def input_shape_def)
  then have "length (in_open i) = Suc 0" and k0: "k = 0" using k(1) by linarith+
  then obtain s where s: "in_open i = [s]" by (auto simp: length_Suc_conv)
  define rest where "rest = os_items s"
  have "s = \<lparr>os_items = rest, os_done = False\<rparr>" using k(2) by (cases s) (simp add: s k0 rest_def)
  then have opened: "in_open i = [\<lparr>os_items = rest, os_done = False\<rparr>]" "k = 0" using s k0 by simp_all
  have shape: "in_max_open i = 1" "in_ended i + ending + 1 = in_started i" "\<not> in_finished i"
    "in_stopped i \<longrightarrow> in_exhausted i" "in_exhausted i \<longrightarrow> \<not> in_stopped i \<longrightarrow> so_left (in_source i) = []"
    "in_next i \<le> length items" "take (in_next i) items @ input_rest ends i = items"
    using ok opened by (auto simp: input_ok_def input_shape_def)
  show ?thesis
  proof (cases "in_stopped i")
    case True
    then have "take (in_next i) items = items" using shape(7) by (simp add: input_rest_def)
    then have same: "input_ok ends items ending (i\<lparr>in_open := [x]\<rparr>)"
      "input_ok ends items (Suc ending) (i\<lparr>in_open := []\<rparr>)" for x
      using shape True by (simp_all add: input_ok_def input_shape_def input_rest_def)
    show ?thesis using pull opened True same shape(6)
      by (auto simp: pull_def Let_def numbered_def number_item_def taken_ok_def input_over_def
          split: list.splits sum.splits)
  next
    case False
    then have items: "take (in_next i) items @ items_of ends (Inr rest # so_left (in_source i)) (so_last (in_source i)) = items"
      using shape opened by (simp add: input_rest_def)
    show ?thesis
    proof (cases rest)
      case Nil
      then have r: "r = Pulled_Over" and j: "j = i\<lparr>in_open := []\<rparr>"
        using pull opened by (auto simp: pull_def Let_def)
      show ?thesis using items shape False Nil
        by (simp add: r j input_ok_def input_shape_def input_rest_def taken_ok_def input_over_def)
    next
      case (Cons x more)
      define after where "after = (case x of Inl p \<Rightarrow> [] | Inr y \<Rightarrow>
          if ends y then [] else items_of ends (Inr more # so_left (in_source i)) (so_last (in_source i)))"
      have "take (in_next i) items @ x # after = items"
        using items Cons by (cases x) (auto simp: after_def)
      note taken = take_next_item [OF this shape(6)]
      define ending_item where "ending_item = (case x of Inl p \<Rightarrow> True | Inr y \<Rightarrow> ends y)"
      have r: "r = Pulled_Item (in_next i, x)" and j: "j = i\<lparr>in_open := [\<lparr>os_items = more, os_done = ending_item\<rparr>],
          in_next := in_next i + 1, in_stopped := ending_item, in_exhausted := in_exhausted i \<or> ending_item\<rparr>"
        using opened pull False Cons
        by (auto simp: pull_def Let_def numbered_def number_item_def ending_item_def split: sum.splits)
      have "take (Suc (in_next i)) items @ (if ending_item then [] else
          items_of ends (Inr more # so_left (in_source i)) (so_last (in_source i))) = items"
        using taken(3) by (auto simp: after_def ending_item_def split: sum.splits if_splits)
      then have "input_ok ends items ending j"
        using shape opened False taken(1) by (cases ending_item) (simp_all add: j input_ok_def input_shape_def input_rest_def Suc_le_eq)
      moreover have "taken_ok items i (Some (in_next i, x)) j"
        using taken(1,2) opened False by (simp add: j taken_ok_def input_over_def)
      ultimately show ?thesis by (simp add: r)
    qed
  qed
qed

end
