(* ===== verification/Parallel_Pool.thy ===== *)
theory Parallel_Pool
  imports Parallel_Laws
begin

text \<open>
  The worker pool in order: the invariant over all interleavings of workers and consumer (every
  item is in one place, under its number; every ticket is too), and what follows: the order and the
  bound of what is returned, that nothing gets stuck, and that every run ends.
\<close>

subsection \<open>The pool, in order\<close>

definition ending_count :: "('p, 'a) worker \<Rightarrow> nat" where
  "ending_count st = (if st = Ending_Stream then 1 else 0)"

fun ticket_count :: "('p, 'a) worker \<Rightarrow> nat" where
  "ticket_count Wants_Ticket = 0"
| "ticket_count Has_Ticket = 1"
| "ticket_count Ending_Stream = 1"
| "ticket_count (Working t) = 1"
| "ticket_count Gone = 0"

definition worker_number :: "('p, 'a) worker \<Rightarrow> nat multiset" where
  "worker_number st = (case st of Working t \<Rightarrow> {#fst t#} | _ \<Rightarrow> {#})"

definition over_workers :: "(('p, 'a) worker \<Rightarrow> 'c::comm_monoid_add) \<Rightarrow> ('p, 'a, 'r) pool \<Rightarrow> 'c" where
  "over_workers g s = sum_list (map g (po_workers s))"

definition result_numbers :: "('p, 'a, 'r) pool \<Rightarrow> nat multiset" where
  "result_numbers s = mset (map fst (po_results s)) + mset (map fst (po_pending s))"

definition working_ok :: "('p + 'a) list \<Rightarrow> ('p, 'a) worker \<Rightarrow> bool" where
  "working_ok items st \<longleftrightarrow> (case st of Working (n, e) \<Rightarrow> n < length items \<and> items ! n = e | _ \<Rightarrow> True)"

definition result_ok :: "('a \<Rightarrow> 'p + 'r) \<Rightarrow> ('p + 'a) list \<Rightarrow> nat \<times> ('p + 'r) \<Rightarrow> bool" where
  "result_ok f items nr \<longleftrightarrow> fst nr < length items \<and> snd nr = map_event f (items ! fst nr)"

text \<open>What holds in every state, and what only holds until the map is dropped.\<close>

definition pool_ok ::
  "('a \<Rightarrow> bool) \<Rightarrow> ('a \<Rightarrow> 'p + 'r) \<Rightarrow> ('p + 'a) list \<Rightarrow> ('p, 'a, 'r) pool \<Rightarrow> bool" where
  "pool_ok ends f items s \<longleftrightarrow>
     input_ok ends items (over_workers ending_count s) (po_input s) \<and> po_preserve_order s \<and>
     list_all (working_ok items) (po_workers s) \<and>
     list_all (result_ok f items) (po_results s) \<and> list_all (result_ok f items) (po_pending s) \<and>
     po_next s \<le> in_next (po_input s) \<and> po_returned s = map (map_event f) (take (po_next s) items) \<and>
     (po_ended s \<longrightarrow> list_all (\<lambda>st. st = Gone) (po_workers s) \<and> po_results s = [] \<and> \<not> may_deliver s)"

definition pool_live :: "nat \<Rightarrow> ('p, 'a, 'r) pool \<Rightarrow> bool" where
  "pool_live tickets s \<longleftrightarrow>
     (\<not> po_cancelled s \<longrightarrow>
       po_tickets s + over_workers ticket_count s + length (po_results s) + length (po_pending s) = tickets \<and>
       over_workers worker_number s + result_numbers s = mset [po_next s..<in_next (po_input s)] \<and>
       (list_ex (\<lambda>st. st = Gone) (po_workers s) \<longrightarrow> input_over (po_input s)))"

lemma over_workers_change:
  fixes s :: "('p, 'a, 'r) pool"
  assumes "worker_is w st s"
  obtains c where "over_workers g s = g st + c"
    "\<And>st' (s' :: ('p, 'a, 'r) pool). po_workers s' = (po_workers s)[w := st'] \<Longrightarrow> over_workers g s' = g st' + c"
proof -
  have w: "w < length (po_workers s)" "po_workers s ! w = st" using assms by (auto simp: worker_is_def)
  obtain c where "sum_list (map g (po_workers s)) = g (po_workers s ! w) + c"
    "\<And>y. sum_list (map g ((po_workers s)[w := y])) = g y + c"
    using sum_list_change [OF w(1), of g] by blast
  then show ?thesis using w(2) by (intro that [of c]) (simp_all add: over_workers_def)
qed

lemma over_workers_two:
  fixes s t :: "('p, 'a, 'r) pool"
  assumes "worker_is w st s" "po_workers t = (po_workers s)[w := st']"
  obtains c where "over_workers g s = g st + c" "over_workers g t = g st' + c"
  using over_workers_change [OF assms(1), of g] assms(2) by metis

declare mset_upt [simp del]

lemma mset_upt_Suc: "a \<le> b \<Longrightarrow> mset [a..<Suc b] = add_mset b (mset [a..<b])"
  by simp

lemma workers_update_all: "list_all P ws \<Longrightarrow> P st \<Longrightarrow> list_all P (ws[w := st])"
  using set_update_subset_insert [of ws w st] by (auto simp: list_all_iff)

lemma workers_update_ex: "list_ex (\<lambda>x. x = y) (ws[w := st]) \<Longrightarrow> st \<noteq> y \<Longrightarrow> list_ex (\<lambda>x. x = y) ws"
  using set_update_subset_insert [of ws w st] by (auto simp: list_ex_iff)

lemma worker_is_gone: "worker_is w st s \<Longrightarrow> list_all (\<lambda>st. st = Gone) (po_workers s) \<Longrightarrow> st = Gone"
  by (auto simp: worker_is_def list_all_length)

lemma set_worker_ok:
  assumes ok: "pool_ok ends f items s" and w: "worker_is w st s" "st \<noteq> Gone"
    and workers: "po_workers t = (po_workers s)[w := st']" and st': "working_ok items st'"
    and input: "input_ok ends items (over_workers ending_count t) (po_input t)" "in_next (po_input s) \<le> in_next (po_input t)"
    and results: "list_all (result_ok f items) (po_results t)"
    and rest: "po_pending t = po_pending s" "po_next t = po_next s" "po_preserve_order t = po_preserve_order s"
      "po_returned t = po_returned s" "po_ended t = po_ended s"
  shows "pool_ok ends f items t"
proof -
  have "\<not> po_ended s" using worker_is_gone [OF w(1)] ok w(2) by (auto simp: pool_ok_def)
  then show ?thesis using ok input results rest workers_update_all [of "working_ok items" "po_workers s" st'] st'
    by (simp add: pool_ok_def workers)
qed

lemma took_ok:
  assumes ok: "pool_ok ends f items s" "pool_live tickets s"
    and w: "worker_is w st s" "st = Has_Ticket \<or> st = Ending_Stream"
    and ending: "over_workers ending_count s = ending_count st + c"
    and j: "input_ok ends items c j" "taken_ok items (po_input s) t j"
  shows "pool_ok ends f items (took w (t, j) s) \<and> pool_live tickets (took w (t, j) s)"
proof -
  define st' where "st' = (case t of Some t \<Rightarrow> Working t | None \<Rightarrow> Has_Ticket)"
  let ?t = "took w (t, j) s"
  have t: "po_workers ?t = (po_workers s)[w := st']" "po_input ?t = j" "po_tickets ?t = po_tickets s"
    "po_results ?t = po_results s" "po_cancelled ?t = po_cancelled s" "po_pending ?t = po_pending s"
    "po_next ?t = po_next s" "po_preserve_order ?t = po_preserve_order s"
    "po_returned ?t = po_returned s" "po_ended ?t = po_ended s" "result_numbers ?t = result_numbers s"
    by (simp_all add: took_def set_worker_def st'_def result_numbers_def)
  have not: "ending_count st' = 0" "ticket_count st' = 1" "ticket_count st = 1" "worker_number st = {#}" "st \<noteq> Gone" "st' \<noteq> Gone"
    using w(2) by (auto simp: st'_def ending_count_def worker_number_def split: option.splits)
  have st': "working_ok items st'" "in_next (po_input s) \<le> in_next j"
    "po_next s \<le> in_next (po_input s) \<Longrightarrow>
       mset [po_next s..<in_next j] = worker_number st' + mset [po_next s..<in_next (po_input s)]"
    using j(2) by (auto simp: taken_ok_def st'_def working_ok_def worker_number_def mset_upt_Suc split: option.splits)
  obtain c' where c': "over_workers ending_count s = ending_count st + c'" "over_workers ending_count ?t = ending_count st' + c'"
    by (rule over_workers_two [OF w(1) t(1), of ending_count]) (rule that)
  then have "over_workers ending_count ?t = c" using ending not by simp
  then have "pool_ok ends f items ?t"
    using ok(1) j(1) st'(2)
    by (intro set_worker_ok [OF ok(1) w(1) not(5) t(1) st'(1)]) (auto simp: t pool_ok_def)
  moreover have "pool_live tickets ?t"
  proof -
    obtain a where a: "over_workers ticket_count s = ticket_count st + a" "over_workers ticket_count ?t = ticket_count st' + a"
      by (rule over_workers_two [OF w(1) t(1), of ticket_count]) (rule that)
    obtain m where m: "over_workers worker_number s = worker_number st + m" "over_workers worker_number ?t = worker_number st' + m"
      by (rule over_workers_two [OF w(1) t(1), of worker_number]) (rule that)
    have next_le: "po_next s \<le> in_next (po_input s)" using ok(1) by (simp add: pool_ok_def)
    show ?thesis
      using ok(2) j(2) a m not st'(3) [OF next_le] workers_update_ex [of Gone "po_workers s" w st']
      by (auto simp: pool_live_def t taken_ok_def add.assoc)
  qed
  ultimately show ?thesis by simp
qed

lemma moved_ok:
  assumes ok: "pool_ok ends f items s" "pool_live tickets s" and w: "worker_is w st s" "st \<noteq> Gone"
    and st': "working_ok items st'" "worker_number st' = {#}" "ending_count st = ending_count st'"
    and number: "\<not> po_cancelled s \<Longrightarrow> worker_number st = {#}"
    and held: "\<not> po_cancelled s \<Longrightarrow> n + ticket_count st' = po_tickets s + ticket_count st"
    and gone: "\<not> po_cancelled s \<Longrightarrow> st' = Gone \<Longrightarrow> input_over (po_input s)"
  shows "pool_ok ends f items (set_worker w st' (s\<lparr>po_tickets := n\<rparr>)) \<and>
         pool_live tickets (set_worker w st' (s\<lparr>po_tickets := n\<rparr>))"
proof -
  let ?t = "set_worker w st' (s\<lparr>po_tickets := n\<rparr>)"
  have workers: "po_workers ?t = (po_workers s)[w := st']" by (simp add: set_worker_def)
  obtain e where "over_workers ending_count s = ending_count st + e" "over_workers ending_count ?t = ending_count st' + e"
    by (rule over_workers_two [OF w(1) workers, of ending_count]) (rule that)
  then have "over_workers ending_count ?t = over_workers ending_count s" using st'(3) by simp
  then have "pool_ok ends f items ?t" using ok(1)
    by (intro set_worker_ok [OF ok(1) w workers st'(1)]) (auto simp: set_worker_def pool_ok_def)
  moreover have "pool_live tickets ?t"
  proof -
    obtain a where a: "over_workers ticket_count s = ticket_count st + a" "over_workers ticket_count ?t = ticket_count st' + a"
      by (rule over_workers_two [OF w(1) workers, of ticket_count]) (rule that)
    obtain m where m: "over_workers worker_number s = worker_number st + m" "over_workers worker_number ?t = worker_number st' + m"
      by (rule over_workers_two [OF w(1) workers, of worker_number]) (rule that)
    have "result_numbers ?t = result_numbers s" by (simp add: set_worker_def result_numbers_def)
    then show ?thesis
      using ok(2) a m st' number held gone workers_update_ex [of Gone "po_workers s" w st']
      by (auto simp: pool_live_def set_worker_def)
  qed
  ultimately show ?thesis by simp
qed

lemma same_tickets: "(s :: ('p, 'a, 'r) pool)\<lparr>po_tickets := po_tickets s\<rparr> = s"
  by simp

lemma over_ok:
  assumes ok: "pool_ok ends f items s" "pool_live tickets s" and w: "worker_is w Has_Ticket s"
    and j: "input_ok ends items (Suc (over_workers ending_count s)) j" "taken_ok items (po_input s) None j"
  shows "pool_ok ends f items (set_worker w Ending_Stream (s\<lparr>po_input := j\<rparr>)) \<and>
         pool_live tickets (set_worker w Ending_Stream (s\<lparr>po_input := j\<rparr>))"
proof -
  let ?t = "set_worker w Ending_Stream (s\<lparr>po_input := j\<rparr>)"
  have workers: "po_workers ?t = (po_workers s)[w := Ending_Stream]" by (simp add: set_worker_def)
  obtain e where e: "over_workers ending_count s = e" "over_workers ending_count ?t = Suc e"
    by (rule over_workers_two [OF w workers, of ending_count]) (auto intro: that simp: ending_count_def worker_number_def)
  then have "pool_ok ends f items ?t" using ok(1) j
    by (intro set_worker_ok [OF ok(1) w _ workers])
      (auto simp: set_worker_def pool_ok_def taken_ok_def working_ok_def ending_count_def)
  moreover have "pool_live tickets ?t"
  proof -
    obtain a where a: "over_workers ticket_count s = Suc a" "over_workers ticket_count ?t = Suc a"
      by (rule over_workers_two [OF w workers, of ticket_count]) (auto intro: that simp: ending_count_def worker_number_def)
    obtain m where m: "over_workers worker_number s = m" "over_workers worker_number ?t = m"
      by (rule over_workers_two [OF w workers, of worker_number]) (auto intro: that simp: ending_count_def worker_number_def)
    have "result_numbers ?t = result_numbers s" by (simp add: set_worker_def result_numbers_def)
    then show ?thesis
      using ok(2) j(2) a m workers_update_ex [of Gone "po_workers s" w Ending_Stream]
      by (auto simp: pool_live_def set_worker_def worker_number_def taken_ok_def)
  qed
  ultimately show ?thesis by simp
qed

lemma take_ticket_ok:
  assumes ok: "pool_ok ends f items s" "pool_live tickets s" and step: "take_ticket w s = Some t"
  shows "pool_ok ends f items t \<and> pool_live tickets t"
proof -
  have w: "worker_is w Wants_Ticket s" using step by (auto simp: take_ticket_def split: if_splits)
  show ?thesis
  proof (cases "po_cancelled s")
    case True
    then have t: "t = set_worker w Gone (s\<lparr>po_tickets := po_tickets s\<rparr>)" using step w by (simp add: take_ticket_def)
    show ?thesis unfolding t using True
      by (intro moved_ok [OF ok w]) (auto simp: working_ok_def worker_number_def ending_count_def)
  next
    case False
    then have t: "t = set_worker w Has_Ticket (s\<lparr>po_tickets := po_tickets s - 1\<rparr>)" and "0 < po_tickets s"
      using step w by (auto simp: take_ticket_def split: if_splits)
    then show ?thesis unfolding t
      by (intro moved_ok [OF ok w]) (auto simp: working_ok_def worker_number_def ending_count_def)
  qed
qed

lemma pull_step_ok:
  assumes ok: "pool_ok ends f items s" "pool_live tickets s" and step: "pull_step ends w k s = Some t"
  shows "pool_ok ends f items t \<and> pool_live tickets t"
proof -
  have w: "worker_is w Has_Ticket s" and k: "k < length (in_open (po_input s))" "\<not> os_done (in_open (po_input s) ! k)"
    using step by (auto simp: pull_step_def split: if_splits)
  obtain r j where pull: "pull ends k (po_input s) = (r, j)" by fastforce
  have input: "input_ok ends items (over_workers ending_count s) (po_input s)" using ok(1) by (simp add: pool_ok_def)
  have ending: "over_workers ending_count s = ending_count Has_Ticket + over_workers ending_count s"
    by (simp add: ending_count_def)
  note pulled = pull_ok [OF input k pull]
  note took = took_ok [OF ok w _ ending]
  show ?thesis
  proof (cases r)
    case (Pulled_Item x)
    then have t: "t = took w (Some x, j) s" using step w k pull by (simp add: pull_step_def)
    show ?thesis unfolding t using pulled Pulled_Item by (intro took) auto
  next
    case Pulled_Ended
    then have t: "t = took w (None, j) s" using step w k pull by (simp add: pull_step_def)
    show ?thesis unfolding t using pulled Pulled_Ended by (intro took) auto
  next
    case Pulled_Over
    then have t: "t = set_worker w Ending_Stream (s\<lparr>po_input := j\<rparr>)" using step w k pull by (simp add: pull_step_def)
    show ?thesis unfolding t using pulled Pulled_Over by (intro over_ok [OF ok w]) auto
  qed
qed

lemma open_step_ok:
  assumes ok: "pool_ok ends f items s" "pool_live tickets s" and step: "open_step w s = Some t"
  shows "pool_ok ends f items t \<and> pool_live tickets t"
proof -
  have w: "worker_is w Has_Ticket s" and may: "\<not> in_exhausted (po_input s)"
    "length (in_open (po_input s)) < in_max_open (po_input s)"
    using step by (auto simp: open_step_def split: if_splits)
  obtain x j where opened: "open_next (po_input s) = (x, j)" by fastforce
  then have t: "t = took w (x, j) s" using step w may by (simp add: open_step_def)
  have input: "input_ok ends items (over_workers ending_count s) (po_input s)" using ok(1) by (simp add: pool_ok_def)
  show ?thesis unfolding t using open_next_ok [OF input may opened]
    by (intro took_ok [OF ok w]) (auto simp: ending_count_def)
qed

lemma tell_step_ok:
  assumes ok: "pool_ok ends f items s" "pool_live tickets s" and step: "tell_step w s = Some t"
  shows "pool_ok ends f items t \<and> pool_live tickets t"
proof -
  have w: "worker_is w Ending_Stream s" using step by (auto simp: tell_step_def split: if_splits)
  obtain x j where told: "end_stream (po_input s) = (x, j)" by fastforce
  then have t: "t = took w (x, j) s" using step w by (simp add: tell_step_def)
  obtain c where c: "over_workers ending_count s = Suc c"
    by (rule over_workers_change [OF w, of ending_count]) (auto intro: that simp: ending_count_def worker_number_def)
  then have input: "input_ok ends items (Suc c) (po_input s)" using ok(1) by (simp add: pool_ok_def ending_count_def)
  show ?thesis unfolding t using end_stream_ok [OF input told]
    by (intro took_ok [OF ok w]) (auto simp: c ending_count_def)
qed

lemma leave_step_ok:
  assumes ok: "pool_ok ends f items s" "pool_live tickets s" and step: "leave_step w s = Some t"
  shows "pool_ok ends f items t \<and> pool_live tickets t"
proof -
  have w: "worker_is w Has_Ticket s" and over: "input_over (po_input s)"
    and t: "t = set_worker w Gone (s\<lparr>po_tickets := po_tickets s + 1\<rparr>)"
    using step by (auto simp: leave_step_def input_over_def split: if_splits)
  show ?thesis unfolding t using over
    by (intro moved_ok [OF ok w]) (auto simp: working_ok_def worker_number_def ending_count_def)
qed

lemma send_step_ok:
  assumes ok: "pool_ok ends f items s" "pool_live tickets s" and step: "send_step f w s = Some t"
  shows "pool_ok ends f items t \<and> pool_live tickets t"
proof -
  obtain n e where w: "worker_is w (Working (n, e)) s" using step
    by (auto simp: send_step_def worker_is_def split: if_splits worker.splits)
  have gone: "t = set_worker w Gone (s\<lparr>po_tickets := po_tickets s\<rparr>)" if "po_cancelled s"
    using step w that by (simp add: send_step_def worker_is_def)
  have sent: "t = set_worker w Wants_Ticket (s\<lparr>po_results := po_results s @ [(n, map_event f e)]\<rparr>)" if "\<not> po_cancelled s"
    using step w that by (simp add: send_step_def worker_is_def)
  show ?thesis
  proof (cases "po_cancelled s")
    case True
    then show ?thesis unfolding gone [OF True]
      by (intro moved_ok [OF ok w]) (auto simp: working_ok_def worker_number_def ending_count_def)
  next
    case False
    note t = sent [OF False]
    have workers: "po_workers t = (po_workers s)[w := Wants_Ticket]" by (simp add: t set_worker_def)
    have "working_ok items (Working (n, e))" using w ok(1) by (auto simp: worker_is_def pool_ok_def list_all_length)
    then have result: "result_ok f items (n, map_event f e)" by (simp add: working_ok_def result_ok_def)
    obtain d where d: "over_workers ending_count s = d" "over_workers ending_count t = d"
      by (rule over_workers_two [OF w workers, of ending_count]) (auto intro: that simp: ending_count_def worker_number_def)
    have "pool_ok ends f items t"
      using ok(1) result d by (intro set_worker_ok [OF ok(1) w _ workers])
        (auto simp: t set_worker_def pool_ok_def working_ok_def ending_count_def)
    moreover have "pool_live tickets t"
    proof -
      obtain a where a: "over_workers ticket_count s = Suc a" "over_workers ticket_count t = a"
        by (rule over_workers_two [OF w workers, of ticket_count]) (auto intro: that simp: ending_count_def worker_number_def)
      obtain m where m: "over_workers worker_number s = add_mset n m" "over_workers worker_number t = m"
        by (rule over_workers_two [OF w workers, of worker_number]) (auto intro: that simp: ending_count_def worker_number_def)
      have rest: "po_tickets t = po_tickets s" "length (po_results t) = Suc (length (po_results s))"
        "po_pending t = po_pending s" "result_numbers t = add_mset n (result_numbers s)"
        "po_next t = po_next s" "po_input t = po_input s"
        by (simp_all add: t set_worker_def result_numbers_def)
      show ?thesis using ok(2) a m rest workers workers_update_ex [of Gone "po_workers s" w Wants_Ticket] False
        by (auto simp: pool_live_def worker_number_def)
    qed
    ultimately show ?thesis by simp
  qed
qed

subsection \<open>What the consumer does\<close>

lemma update_new: "k \<notin> fst ` set xs \<Longrightarrow> AList.update k y xs = xs @ [(k, y)]"
  by (induction xs) auto

lemma delete_key:
  assumes "distinct (map fst xs)" "map_of xs k = Some y"
  shows "mset (map fst xs) = add_mset k (mset (map fst (AList.delete k xs)))"
  using assms
proof (induction xs)
  case (Cons x xs)
  show ?case
  proof (cases "fst x = k")
    case True
    then have "AList.delete k xs = xs" using Cons.prems(1) by (intro AList.delete_id) auto
    then show ?thesis using True by (cases x) simp
  next
    case False
    then show ?thesis using Cons by (cases x) auto
  qed
qed simp

lemma distinct_if_subset:
  assumes "mset xs \<subseteq># mset ys" "distinct ys"
  shows "distinct xs"
proof -
  have "count (mset ys) a \<le> 1" for a using assms(2) by (simp add: distinct_count_atmost_1)
  then have "count (mset xs) a \<le> 1" for a
    using mset_subset_eq_count [OF assms(1), of a] le_trans by blast
  moreover have "0 < count (mset xs) a \<longleftrightarrow> a \<in> set xs" for a by (simp add: count_greater_zero_iff)
  ultimately show ?thesis unfolding distinct_count_atmost_1
    by (metis One_nat_def le_antisym Suc_leI neq0_conv)
qed

lemma numbers_distinct:
  assumes "pool_live tickets s" "\<not> po_cancelled s"
  shows "distinct (map fst (po_results s) @ map fst (po_pending s))"
proof (rule distinct_if_subset)
  have "over_workers worker_number s + result_numbers s = mset [po_next s..<in_next (po_input s)]"
    using assms by (simp add: pool_live_def)
  then show "mset (map fst (po_results s) @ map fst (po_pending s)) \<subseteq># mset [po_next s..<in_next (po_input s)]"
    by (metis mset_append mset_subset_eq_add_right result_numbers_def)
qed simp

lemma receive_step_ok:
  assumes ok: "pool_ok ends f items s" "pool_live tickets s" and step: "receive_step s = Some t"
  shows "pool_ok ends f items t \<and> pool_live tickets t"
proof -
  have not: "\<not> po_cancelled s" "\<not> po_ended s" using step by (auto simp: receive_step_def split: if_splits)
  obtain n r rest where results: "po_results s = (n, r) # rest"
    using step by (auto simp: receive_step_def split: if_splits list.splits)
  have "n \<notin> fst ` set (po_pending s)" using numbers_distinct [OF ok(2) not(1)] results by (auto simp: image_iff)
  from update_new [OF this] have t: "t = s\<lparr>po_results := rest, po_pending := po_pending s @ [(n, r)]\<rparr>"
    using step ok(1) not results by (auto simp: receive_step_def pool_ok_def split: if_splits)
  show ?thesis using ok results not by (auto simp: t pool_ok_def pool_live_def over_workers_def result_numbers_def)
qed

lemma deliver_step_ok:
  assumes ok: "pool_ok ends f items s" "pool_live tickets s" and step: "deliver_step s = Some t"
  shows "pool_ok ends f items t \<and> pool_live tickets t"
proof -
  have not: "\<not> po_cancelled s" "\<not> po_ended s" using step by (auto simp: deliver_step_def split: if_splits)
  obtain r where r: "map_of (po_pending s) (po_next s) = Some r"
    using step by (auto simp: deliver_step_def may_deliver_def split: if_splits)
  then have t: "t = s\<lparr>po_pending := AList.delete (po_next s) (po_pending s), po_next := po_next s + 1,
      po_tickets := po_tickets s + 1, po_returned := po_returned s @ [r]\<rparr>"
    using step by (auto simp: deliver_step_def split: if_splits)
  have numbers: "mset (map fst (po_pending s)) = add_mset (po_next s) (mset (map fst (AList.delete (po_next s) (po_pending s))))"
    using numbers_distinct [OF ok(2) not(1)] r by (intro delete_key) auto
  have upt: "over_workers worker_number s + result_numbers s = mset [po_next s..<in_next (po_input s)]"
    using ok(2) not by (simp add: pool_live_def)
  then have less: "po_next s < in_next (po_input s)"
    using numbers by (cases "po_next s < in_next (po_input s)") (auto simp: result_numbers_def)
  have result: "result_ok f items (po_next s, r)" using ok(1) map_of_SomeD [OF r] by (auto simp: pool_ok_def list_all_iff)
  have "list_all (result_ok f items) (AList.delete (po_next s) (po_pending s))"
    using ok(1) by (auto simp: pool_ok_def list_all_iff AList.delete_eq)
  then have "pool_ok ends f items t" using ok(1) not less result
    by (simp add: t pool_ok_def over_workers_def result_ok_def take_Suc_conv_app_nth)
  moreover have "pool_live tickets t"
  proof -
    have "length (po_pending s) = Suc (length (AList.delete (po_next s) (po_pending s)))"
      using arg_cong [OF numbers, of size] by simp
    then show ?thesis using ok(2) not upt numbers less
      by (auto simp: t pool_live_def over_workers_def result_numbers_def upt_conv_Cons)
  qed
  ultimately show ?thesis by simp
qed

lemma pool_step_ok:
  assumes "pool_ok ends f items s" "pool_live tickets s" "pool_step ends f a s = Some t"
  shows "pool_ok ends f items t \<and> pool_live tickets t"
proof (cases a)
  case End_Results
  then have "t = s\<lparr>po_ended := True\<rparr>" "po_results s = []" "\<not> may_deliver s" "list_all (\<lambda>w. w = Gone) (po_workers s)"
    using assms(3) by (auto simp: end_step_def split: if_splits)
  then show ?thesis using assms(1,2)
    by (simp add: pool_ok_def pool_live_def over_workers_def result_numbers_def may_deliver_def)
next
  case Cancel
  then have "t = s\<lparr>po_cancelled := True\<rparr>" using assms(3) by (auto simp: cancel_step_def split: if_splits)
  then show ?thesis using assms(1,2) by (simp add: pool_ok_def pool_live_def over_workers_def may_deliver_def)
next
  case (Take_Ticket w) then show ?thesis using assms(3) by (intro take_ticket_ok [OF assms(1,2)]) simp
next
  case (Pull_Stream w k) then show ?thesis using assms(3) by (intro pull_step_ok [OF assms(1,2)]) simp
next
  case (Open_Stream w) then show ?thesis using assms(3) by (intro open_step_ok [OF assms(1,2)]) simp
next
  case (Tell_End w) then show ?thesis using assms(3) by (intro tell_step_ok [OF assms(1,2)]) simp
next
  case (Leave_Input w) then show ?thesis using assms(3) by (intro leave_step_ok [OF assms(1,2)]) simp
next
  case (Send_Result w) then show ?thesis using assms(3) by (intro send_step_ok [OF assms(1,2)]) simp
next
  case Receive then show ?thesis using assms(3) by (intro receive_step_ok [OF assms(1,2)]) simp
next
  case Deliver then show ?thesis using assms(3) by (intro deliver_step_ok [OF assms(1,2)]) simp
qed

lemma new_pool_ok:
  fixes source :: "('p, 'a) source"
  shows "pool_ok ends f (input_items ends source) (new_pool threads in_flight max_open True source :: ('p, 'a, 'r) pool)"
    and "pool_live (max in_flight threads) (new_pool threads in_flight max_open True source :: ('p, 'a, 'r) pool)"
proof -
  have counts: "sum_list (map g (replicate threads Wants_Ticket)) = 0" if "g Wants_Ticket = 0"
    for g :: "('p, 'a) worker \<Rightarrow> 'c::comm_monoid_add"
    using that by (induction threads) (simp_all del: map_replicate)
  have next_0: "in_next (new_input source n) = 0" for n by (simp add: new_input_def)
  show "pool_ok ends f (input_items ends source) (new_pool threads in_flight max_open True source :: ('p, 'a, 'r) pool)"
    using new_input_ok [of ends source]
    by (simp add: new_pool_def may_deliver_def pool_ok_def over_workers_def counts del: map_replicate add: ending_count_def working_ok_def list_all_length)
  show "pool_live (max in_flight threads) (new_pool threads in_flight max_open True source :: ('p, 'a, 'r) pool)"
    by (auto simp: new_pool_def pool_live_def over_workers_def counts simp del: map_replicate simp: worker_number_def result_numbers_def next_0 list_ex_iff)
qed

lemma pool_run_ok:
  assumes "pool_run ends f (new_pool threads in_flight max_open True source) s"
  shows "pool_ok ends f (input_items ends source) s \<and> pool_live (max in_flight threads) s"
  using assms by induction (auto simp: new_pool_ok dest: pool_step_ok)

subsection \<open>Where the pool stops\<close>

lemma over_workers_zero:
  assumes "\<And>st. st \<in> set (po_workers s) \<Longrightarrow> g st = 0"
  shows "over_workers g s = 0"
proof -
  have "map g (po_workers s) = map (\<lambda>_. 0) (po_workers s)" using assms by simp
  then show ?thesis unfolding over_workers_def by (simp only: sum_list_0)
qed

lemma input_over_items:
  assumes "input_ok ends items 0 i" "input_over i"
  shows "in_next i = length items"
proof -
  have "input_rest ends i = []"
    using assms by (auto simp: input_ok_def input_shape_def input_over_def input_rest_def)
  then have "take (in_next i) items = items" "in_next i \<le> length items"
    using assms(1) by (auto simp: input_ok_def input_shape_def)
  then show ?thesis by simp
qed

lemma all_gone_complete:
  assumes ok: "pool_ok ends f items s" "pool_live tickets s" and "\<not> po_cancelled s"
    and gone: "list_all (\<lambda>st. st = Gone) (po_workers s)" "po_workers s \<noteq> []"
    and none: "po_results s = []" "\<not> may_deliver s"
  shows "po_next s = length items"
proof -
  have counts: "over_workers ending_count s = 0" "over_workers worker_number s = {#}"
    by (rule over_workers_zero; use gone(1) in \<open>auto simp: list_all_iff ending_count_def worker_number_def\<close>)+
  have "list_ex (\<lambda>st. st = Gone) (po_workers s)" using gone by (cases "po_workers s") auto
  then have "in_next (po_input s) = length items"
    using ok counts assms(3) by (intro input_over_items) (auto simp: pool_ok_def pool_live_def)
  moreover have "mset (map fst (po_pending s)) = mset [po_next s..<in_next (po_input s)]"
    using ok(2) assms(3) counts none by (simp add: pool_live_def result_numbers_def)
  then have "set (map fst (po_pending s)) = {po_next s..<in_next (po_input s)}" by (metis set_mset_mset set_upt)
  then have "po_next s \<notin> {po_next s..<in_next (po_input s)}"
    using none(2) ok(1) by (auto simp: may_deliver_def pool_ok_def map_of_eq_None_iff simp flip: set_map)
  moreover have "po_next s \<le> in_next (po_input s)" using ok(1) by (simp add: pool_ok_def)
  ultimately show ?thesis by simp
qed

lemma ticket_worker_moves:
  assumes ok: "pool_ok ends f items s" and w: "worker_is w Has_Ticket s"
  shows "\<exists>a. a \<noteq> Cancel \<and> pool_step ends f a s \<noteq> None"
proof (cases "input_over (po_input s)")
  case True
  then have "pool_step ends f (Leave_Input w) s \<noteq> None" using w by (simp add: leave_step_def input_over_def)
  then show ?thesis by blast
next
  case False
  show ?thesis
  proof (cases "in_open (po_input s)")
    case Nil
    then have "pool_step ends f (Open_Stream w) s \<noteq> None"
      using False w ok by (auto simp: open_step_def input_over_def pool_ok_def input_ok_def input_shape_def)
    then show ?thesis by blast
  next
    case (Cons st rest)
    then have "\<not> os_done st" using False ok
      by (auto simp: pool_ok_def input_ok_def input_shape_def input_over_def)
    then have "pool_step ends f (Pull_Stream w 0) s \<noteq> None"
      using Cons w by (auto simp: pull_step_def split: prod.splits pulled.splits)
    then show ?thesis by blast
  qed
qed

lemma pool_moves:
  fixes s :: "('p, 'a, 'r) pool"
  assumes ok: "pool_ok ends f items s" "pool_live tickets s" and "\<not> po_cancelled s" "0 < tickets" "\<not> po_ended s"
  shows "\<exists>a. a \<noteq> Cancel \<and> pool_step ends f a s \<noteq> None"
proof (rule ccontr)
  assume "\<not> ?thesis"
  then have stuck: "pool_step ends f a s = None" if "a \<noteq> Cancel" for a using that by blast
  have may: "\<not> may_deliver s" using stuck [of Deliver] assms by (auto simp: deliver_step_def)
  have results: "po_results s = []"
    using stuck [of Receive] assms may by (auto simp: receive_step_def split: list.splits if_splits)
  have st: "st = Wants_Ticket \<or> st = Gone" if "worker_is w st s" for w st
  proof (cases st)
    case Has_Ticket
    then obtain a where "a \<noteq> Cancel" "pool_step ends f a s \<noteq> None"
      using ticket_worker_moves [OF ok(1), of w] \<open>worker_is w st s\<close> by auto
    then show ?thesis using stuck [of a] by simp
  next
    case Ending_Stream then show ?thesis using stuck [of "Tell_End w"] that by (simp add: tell_step_def)
  next
    case (Working t) then show ?thesis using stuck [of "Send_Result w"] that
      by (cases t) (auto simp: send_step_def worker_is_def split: if_splits)
  qed auto
  have no: "over_workers g s = 0" if "g Wants_Ticket = 0" "g Gone = 0" for g :: "('p, 'a) worker \<Rightarrow> 'c::comm_monoid_add"
  proof (rule over_workers_zero)
    fix x assume "x \<in> set (po_workers s)"
    then obtain w where "worker_is w x s" by (auto simp: in_set_conv_nth worker_is_def)
    then show "g x = 0" using st that by blast
  qed
  show False
  proof (cases "list_all (\<lambda>st. st = Gone) (po_workers s)")
    case True
    then show False using stuck [of End_Results] assms may results by (simp add: end_step_def)
  next
    case False
    then obtain w where w: "worker_is w Wants_Ticket s" using st by (auto simp: list_all_length worker_is_def)
    then have "po_tickets s = 0" using stuck [of "Take_Ticket w"] assms by (auto simp: take_ticket_def split: if_splits)
    then have "length (po_pending s) = tickets" using ok(2) assms(3) results no [of ticket_count]
      by (simp add: pool_live_def)
    moreover have eq: "mset (map fst (po_pending s)) = mset [po_next s..<in_next (po_input s)]"
      using ok(2) assms(3) results no [of worker_number] by (simp add: pool_live_def result_numbers_def worker_number_def)
    then have "length (po_pending s) = in_next (po_input s) - po_next s" by (metis length_map length_upt mset_eq_length)
    moreover have "set (map fst (po_pending s)) = {po_next s..<in_next (po_input s)}" using eq by (metis set_mset_mset set_upt)
    ultimately have "po_next s \<in> set (map fst (po_pending s))" using assms(4) by simp
    then show False using may ok(1) by (auto simp: may_deliver_def pool_ok_def map_of_eq_None_iff)
  qed
qed

subsection \<open>Order, bound, end and equivalence with the calling thread\<close>

lemma numbers_size:
  fixes s :: "('p, 'a, 'r) pool"
  assumes "pool_live tickets s" "\<not> po_cancelled s"
  shows "in_next (po_input s) \<le> po_next s + tickets"
proof -
  have "size (worker_number st) \<le> ticket_count st" for st :: "('p, 'a) worker"
    by (cases st) (auto simp: worker_number_def)
  then have "size (sum_list (map worker_number ws)) \<le> sum_list (map ticket_count ws)" for ws :: "('p, 'a) worker list"
    by (induction ws) (auto intro: add_mono)
  then have "size (over_workers worker_number s) \<le> over_workers ticket_count s"
    by (simp add: over_workers_def)
  moreover have "size (over_workers worker_number s) + length (po_results s) + length (po_pending s) =
      in_next (po_input s) - po_next s"
  proof -
    have "over_workers worker_number s + result_numbers s = mset [po_next s..<in_next (po_input s)]"
      using assms by (simp add: pool_live_def)
    from arg_cong [OF this, of size] show ?thesis by (simp add: result_numbers_def)
  qed
  moreover have "po_tickets s + over_workers ticket_count s + length (po_results s) + length (po_pending s) = tickets"
    using assms by (simp add: pool_live_def)
  ultimately show ?thesis by linarith
qed

lemma run_schedule_run:
  "pool_run ends f start s \<Longrightarrow> run_schedule ends f schedule s = Some t \<Longrightarrow> pool_run ends f start t"
  by (induction schedule arbitrary: s) (auto split: option.splits intro: pool_more)

lemma pool_step_workers: "pool_step ends f a s = Some t \<Longrightarrow> length (po_workers t) = length (po_workers s)"
  by (cases a) (auto simp: take_ticket_def pull_step_def open_step_def tell_step_def leave_step_def send_step_def
      receive_step_def deliver_step_def end_step_def cancel_step_def took_def set_worker_def
      split: if_splits prod.splits pulled.splits worker.splits list.splits)

lemma pool_run_workers: "pool_run ends f start s \<Longrightarrow> length (po_workers s) = length (po_workers start)"
  by (induction rule: pool_run.induct) (auto dest: pool_step_workers)

text \<open>Two workers over a stream of two items, and what they do.\<close>

definition pool_example :: "(nat, nat, nat) pool" where
  "pool_example = new_pool 2 2 1 True \<lparr>so_left = [Inr [Inr 5, Inr 6]], so_last = None\<rparr>"

definition pool_example_schedule :: "action list" where
  "pool_example_schedule =
     [Take_Ticket 0, Take_Ticket 1, Open_Stream 1, Pull_Stream 0 0, Pull_Stream 1 0, Send_Result 1, Receive,
      Send_Result 0, Receive, Deliver, Take_Ticket 1, Deliver, Pull_Stream 1 0, Tell_End 1, Open_Stream 1,
      Leave_Input 1, Take_Ticket 0, Leave_Input 0, End_Results]"

definition pool_example_end :: "(nat, nat, nat) pool" where
  "pool_example_end = the (run_schedule (\<lambda>_. False) Inr pool_example_schedule pool_example)"

lemmas pool_evals =
  pool_example_def pool_example_schedule_def new_pool_def new_input_def take_ticket_def pull_step_def open_step_def
  tell_step_def leave_step_def send_step_def receive_step_def deliver_step_def end_step_def may_deliver_def
  worker_is_def set_worker_def took_def open_next_def pull_def end_stream_def finish_input_def numbered_def
  number_item_def set_left_def map_event_def Let_def numeral_2_eq_2

lemma pool_example_runs:
  "run_schedule (\<lambda>_. False) Inr pool_example_schedule pool_example = Some
     \<lparr>po_workers = [Gone, Gone], po_tickets = 2, po_cancelled = False,
      po_input = \<lparr>in_source = \<lparr>so_left = [], so_last = None\<rparr>, in_started = 1, in_ended = 1, in_finished = True,
        in_open = [], in_exhausted = True, in_stopped = False, in_next = 2, in_max_open = 1\<rparr>,
      po_results = [], po_pending = [], po_next = 2, po_preserve_order = True, po_returned = [Inr 5, Inr 6],
      po_ended = True\<rparr>"
  by (simp add: pool_evals)

lemma pool_example_end_eq:
  "po_returned pool_example_end = [Inr 5, Inr 6]" "po_next pool_example_end = 2"
  "\<not> po_cancelled pool_example_end"
  by (simp_all add: pool_example_end_def pool_example_runs)

lemma pool_example_run:
  "pool_run (\<lambda>_. False) Inr (new_pool 2 2 1 True \<lparr>so_left = [Inr [Inr 5, Inr 6]], so_last = None\<rparr>) pool_example_end"
  unfolding pool_example_def [symmetric]
  by (rule run_schedule_run [OF pool_start, where schedule = pool_example_schedule])
    (simp add: pool_example_end_def pool_example_runs)

text \<open>
  C5. With \<open>preserve_order\<close>, whatever the workers do and in whatever order they do it, the results
  returned so far are those of the first items of the input, in the order of the input; and as long
  as the map is not dropped, at most \<open>in_flight\<close> items (or one per thread) are taken and not returned.
\<close>

theorem pool_in_order:
  assumes "pool_run ends f (new_pool threads in_flight max_open True source) s"
  shows "po_returned s = map (map_event f) (take (po_next s) (input_items ends source)) \<and>
         (\<not> po_cancelled s \<longrightarrow> in_next (po_input s) \<le> po_next s + max in_flight threads)"
  using pool_run_ok [OF assms] numbers_size [of "max in_flight threads" s] by (auto simp: pool_ok_def)

theorem pool_in_order_witness:
  "po_returned pool_example_end =
     map (map_event Inr) (take 2 (input_items (\<lambda>_. False) \<lparr>so_left = [Inr [Inr 5, Inr 6]], so_last = None\<rparr>))"
proof -
  show ?thesis
    using pool_in_order [OF pool_example_run] by (simp add: pool_example_end_eq)
qed

text \<open>
  C6. The workers and the consumer never get stuck before the end: where no step is left but dropping
  the map, the results have ended and they are exactly those of the map on the calling thread,
  which returns \<open>None\<close> from there on.
\<close>

theorem pool_completes:
  fixes s :: "('p, 'a, 'r) pool"
  assumes "pool_run ends f (new_pool threads in_flight max_open True source) s" "0 < threads" "\<not> po_cancelled s"
    and stuck: "\<And>a. a \<noteq> Cancel \<Longrightarrow> pool_step ends f a s = None"
  shows "po_ended s \<and>
         inline_run ends f (length (po_returned s) + k) (new_sequential source) =
           map Some (po_returned s) @ replicate k None"
proof -
  note ok = pool_run_ok [OF assms(1)]
  have ended: "po_ended s"
    using pool_moves [of ends f _ s "max in_flight threads"] ok assms(2,3) stuck by fastforce
  have "po_workers s \<noteq> []" using pool_run_workers [OF assms(1)] assms(2) by (auto simp: new_pool_def)
  then have "po_next s = length (input_items ends source)"
    using ok ended assms(3) by (intro all_gone_complete [of ends f _ s "max in_flight threads"]) (auto simp: pool_ok_def)
  then have "po_returned s = map (map_event f) (input_items ends source)" using ok by (simp add: pool_ok_def)
  then show ?thesis using ended by (simp add: inline_run_items)
qed

theorem pool_completes_witness:
  "inline_run (\<lambda>_. False) Inr (length (po_returned pool_example_end) + 1)
     (new_sequential \<lparr>so_left = [Inr [Inr (5 :: nat), Inr 6 :: nat + nat]], so_last = None\<rparr>) =
   map Some (po_returned pool_example_end) @ [None]"
proof -
  have workers: "po_workers pool_example_end ! w = Gone" if "w < length (po_workers pool_example_end)" for w
    using that by (cases w) (auto simp: pool_example_end_def pool_example_runs)
  have stuck: "pool_step (\<lambda>_. False) Inr a pool_example_end = None" if "a \<noteq> Cancel" for a
    using workers that
    by (cases a) (auto simp: take_ticket_def pull_step_def open_step_def tell_step_def leave_step_def send_step_def
        worker_is_def receive_step_def deliver_step_def end_step_def pool_example_end_def pool_example_runs)
  show ?thesis
    using pool_completes [OF pool_example_run _ _ stuck, of 1] by (simp add: pool_example_end_eq)
qed

text \<open>
  C27. Every schedule of the workers and the consumer is finite: each step lowers a weight, so no run
  is longer than what the input and the number of threads allow, in order or not.
\<close>

theorem pool_terminates:
  fixes s :: "('p, 'a, 'r) pool"
  assumes "run_schedule ends f schedule (new_pool threads in_flight max_open preserve_order source) = Some s"
  shows "length schedule \<le> 2 * threads + sum_list (map left_weight (so_left source)) + 8"
proof -
  have "pool_weight (new_pool threads in_flight max_open preserve_order source :: ('p, 'a, 'r) pool) =
      2 * threads + sum_list (map left_weight (so_left source)) + 8"
    by (simp add: pool_weight_def new_pool_def new_input_def input_weight_def sum_list_replicate)
  then show ?thesis using schedule_bounded [OF assms] by simp
qed

theorem pool_terminates_witness:
  "length pool_example_schedule \<le> 2 * 2 + sum_list (map left_weight [Inr [Inr 5, Inr 6 :: nat + nat]]) + 8"
  using pool_terminates [of "\<lambda>_. False" Inr pool_example_schedule 2 2 1 True "\<lparr>so_left = [Inr [Inr 5, Inr 6]], so_last = None\<rparr>"]
    pool_example_runs
  by (simp add: pool_example_def)

end
