(* ===== verification/Options.thy ===== *)
theory Options
  imports Node_Stats Pattern
begin

text \<open>
  The settings of the schema inference (\<open>crates/xeibe-schema/src/options.rs\<close>, \<open>presets.rs\<close> and
  \<open>crates/xeibe-geom/src/options.rs\<close>), with their defaults and the patches per layer, and the Arrow
  types and fields they and the schemas speak of. Reading and writing a settings file is not part of it.
\<close>

subsection \<open>Arrow types\<close>

datatype time_unit = Second | Millisecond | Microsecond | Nanosecond

text \<open>
  \<open>DataType\<close> of the crate arrow-schema, a field with its name, type, nullability and metadata: the
  types the code names, and \<open>DT_Other\<close> for those it does not. A \<open>HashMap\<close> of metadata is the list
  of its entries.
\<close>

datatype data_type =
  DT_Null | DT_Boolean | DT_Int8 | DT_Int16 | DT_Int32 | DT_Int64 | DT_UInt8 | DT_UInt16 | DT_UInt32
| DT_UInt64 | DT_Float32 | DT_Float64 | DT_Utf8 | DT_LargeUtf8 | DT_Utf8View | DT_Binary
| DT_Date32 | DT_Date64 | DT_Timestamp time_unit "bytes option" | DT_Time32 time_unit | DT_Time64 time_unit
| DT_List arrow_field | DT_LargeList arrow_field | DT_Map arrow_field bool | DT_Struct "arrow_field list"
| DT_Decimal nat nat int | DT_Other nat
and arrow_field =
  Arrow_Field (fd_name: bytes) (fd_type: data_type) (fd_nullable: bool) (fd_metadata: "(bytes \<times> bytes) list")

record arrow_schema =
  as_fields :: "arrow_field list"
  as_metadata :: "(bytes \<times> bytes) list"

definition new_field :: "bytes \<Rightarrow> data_type \<Rightarrow> bool \<Rightarrow> arrow_field" where
  "new_field name t nullable = Arrow_Field name t nullable []"

definition with_name :: "bytes \<Rightarrow> arrow_field \<Rightarrow> arrow_field" where
  "with_name name f = Arrow_Field name (fd_type f) (fd_nullable f) (fd_metadata f)"

definition with_metadata :: "(bytes \<times> bytes) list \<Rightarrow> arrow_field \<Rightarrow> arrow_field" where
  "with_metadata m f = Arrow_Field (fd_name f) (fd_type f) (fd_nullable f) m"

subsection \<open>Options\<close>

datatype geom_encoding = Encoding_Auto | Encoding_Wkb

record linearize_options =
  lz_max_angle_step_deg :: f64
  lz_max_gap :: "f64 option"

definition default_linearize :: linearize_options where
  "default_linearize = \<lparr>lz_max_angle_step_deg = 0x4010000000000000, lz_max_gap = None\<rparr>"

datatype curve_mode = Preserve | Linearize linearize_options

record geometry_options =
  go_axis :: axis_options
  go_crs_override :: "bytes option"
  go_target_crs :: "bytes option"
  go_no_grids :: bool
  go_curves :: curve_mode
  go_primary :: "bytes option"

datatype list_rule = List_Infer | List_Never
datatype constant_attrs = To_Field_Metadata | Keep_Attrs
datatype mixed_content = Raw_Xml | Text_Only | Drop_Mixed
datatype attr_select = Attr_All | Attr_None | Attr_Only "bytes list" | Attr_Except "bytes list"
datatype int_width = Width_Int64 | Width_Smallest
datatype all_null = All_Utf8View | All_Null
datatype id_mode = Id_Column | Id_Drop
datatype xlink_mode = Xlink_Href | Xlink_Full | Xlink_Drop
datatype bounded_by = Bounded_Drop | Bounded_BoxStruct | Bounded_Geometry

datatype field_override = Override_Type data_type | Override_Drop | As_Raw_Xml | As_Map | Override_List | Override_Scalar

record structure_options =
  so_lists :: list_rule
  so_force_list :: "path_pattern list"
  so_force_scalar :: "path_pattern list"
  so_constant_attrs :: constant_attrs
  so_collapse_type_wrappers :: bool
  so_mixed_content :: mixed_content
  so_xml_attributes :: attr_select

definition default_structure :: structure_options where
  "default_structure =
     \<lparr>so_lists = List_Infer, so_force_list = [], so_force_scalar = [], so_constant_attrs = To_Field_Metadata,
      so_collapse_type_wrappers = True, so_mixed_content = Raw_Xml, so_xml_attributes = Attr_All\<rparr>"

record type_options =
  to_lossless :: lossless
  to_enabled :: type_set
  to_integers :: int_width
  to_unit :: time_unit
  to_empty_as_null :: bool
  to_all_null :: all_null
  to_string_view :: bool

definition default_types :: type_options where
  "default_types =
     \<lparr>to_lossless = L_Value, to_enabled = TS_ALL, to_integers = Width_Int64, to_unit = Microsecond,
      to_empty_as_null = True, to_all_null = All_Utf8View, to_string_view = True\<rparr>"

definition string_type :: "type_options \<Rightarrow> data_type" where
  "string_type types = (if to_string_view types then DT_Utf8View else DT_Utf8)"

record gml_options =
  gm_gml_id :: id_mode
  gm_xlink :: xlink_mode
  gm_strip_local_href_hash :: bool
  gm_nil_reason :: bool
  gm_bounded_by :: bounded_by
  gm_drop_control_attributes :: bool

definition default_gml :: gml_options where
  "default_gml =
     \<lparr>gm_gml_id = Id_Column, gm_xlink = Xlink_Href, gm_strip_local_href_hash = True, gm_nil_reason = True,
      gm_bounded_by = Bounded_Drop, gm_drop_control_attributes = True\<rparr>"

record limits =
  li_max_depth :: nat
  li_max_children :: nat
  li_distinct_values :: nat

definition default_limits :: limits where
  "default_limits = \<lparr>li_max_depth = 16, li_max_children = 512, li_distinct_values = DEFAULT_DISTINCT_VALUES\<rparr>"

record sample_options =
  sa_features_per_layer :: nat
  sa_max_buffer_bytes :: nat
  sa_min_typed_values :: nat
  sa_conservative :: bool

definition default_sample :: sample_options where
  "default_sample =
     \<lparr>sa_features_per_layer = 10000, sa_max_buffer_bytes = 256 * 2 ^ 20, sa_min_typed_values = 100, sa_conservative = True\<rparr>"

record options_patch =
  pa_structure :: "structure_options option"
  pa_types :: "type_options option"
  pa_gml :: "gml_options option"
  pa_geometry_encoding :: "geom_encoding option"

record inference_options =
  io_structure :: structure_options
  io_types :: type_options
  io_gml :: gml_options
  io_geometry_encoding :: geom_encoding
  io_geometry :: geometry_options
  io_overrides :: "(path_pattern \<times> field_override) list"
  io_layers :: "(bytes \<times> options_patch) list"
  io_limits :: limits

definition default_geometry :: geometry_options where
  "default_geometry =
     \<lparr>go_axis = \<lparr>ao_mode = Mode_Auto, ao_overrides = [], ao_crs_table = None\<rparr>, go_crs_override = None,
      go_target_crs = None, go_no_grids = False, go_curves = Preserve, go_primary = None\<rparr>"

definition default_inference :: inference_options where
  "default_inference =
     \<lparr>io_structure = default_structure, io_types = default_types, io_gml = default_gml,
      io_geometry_encoding = Encoding_Auto, io_geometry = default_geometry, io_overrides = [], io_layers = [],
      io_limits = default_limits\<rparr>"

text \<open>The preset \<open>strings\<close>.\<close>

definition strings_preset :: inference_options where
  "strings_preset = default_inference\<lparr>io_types := default_types\<lparr>to_enabled := TS_STRING\<rparr>\<rparr>"

definition apply_patch :: "options_patch \<Rightarrow> inference_options \<Rightarrow> inference_options" where
  "apply_patch patch opts =
     (let opts = (case pa_structure patch of Some s \<Rightarrow> opts\<lparr>io_structure := s\<rparr> | None \<Rightarrow> opts);
          opts = (case pa_types patch of Some t \<Rightarrow> opts\<lparr>io_types := t\<rparr> | None \<Rightarrow> opts);
          opts = (case pa_gml patch of Some g \<Rightarrow> opts\<lparr>io_gml := g\<rparr> | None \<Rightarrow> opts)
      in case pa_geometry_encoding patch of Some e \<Rightarrow> opts\<lparr>io_geometry_encoding := e\<rparr> | None \<Rightarrow> opts)"

text \<open>\<open>s.rsplit_once(c)\<close>, the part after the last \<open>c\<close>.\<close>

definition after_last :: "char \<Rightarrow> bytes \<Rightarrow> bytes option" where
  "after_last c s = map_option (\<lambda>(l, _). rev l) (split_once c (rev s))"

definition local_part :: "bytes \<Rightarrow> bytes" where
  "local_part name =
     (case after_last CHR ''}'' name of Some l \<Rightarrow> l
      | None \<Rightarrow> (case after_last CHR '':'' name of Some l \<Rightarrow> l | None \<Rightarrow> name))"

definition is_plain_name :: "bytes \<Rightarrow> bool" where
  "is_plain_name s \<longleftrightarrow> CHR ''{'' \<notin> set s \<and> CHR '':'' \<notin> set s"

definition layer_selector_matches :: "bytes \<Rightarrow> bytes \<Rightarrow> bool" where
  "layer_selector_matches selector layer \<longleftrightarrow>
     wildcard selector layer \<or>
     (is_plain_name selector \<and> wildcard selector (local_part layer)) \<or>
     (is_plain_name layer \<and> wildcard (local_part selector) layer)"

definition for_layer :: "bytes \<Rightarrow> inference_options \<Rightarrow> inference_options" where
  "for_layer layer opts =
     fold (\<lambda>(selector, patch) opts. if layer_selector_matches selector layer then apply_patch patch opts else opts)
       (io_layers opts) (opts\<lparr>io_layers := []\<rparr>)"

end
