(* ===== verification/Options_Laws.thy ===== *)
theory Options_Laws
  imports Options
begin

text \<open>
  Laws of the settings: which layers the options of a layer apply to.
\<close>

lemma after_last_append: "c \<notin> set b \<Longrightarrow> after_last c (a @ c # b) = Some b"
proof -
  assume "c \<notin> set b"
  then have "split_once c (rev (a @ c # b)) = Some (rev b, rev a)" by (simp add: split_once_Some_iff)
  then show ?thesis by (simp add: after_last_def)
qed

lemma after_last_None: "c \<notin> set s \<Longrightarrow> after_last c s = None"
proof -
  assume "c \<notin> set s"
  have "split_once c (rev s) = None"
  proof (rule ccontr)
    assume "split_once c (rev s) \<noteq> None"
    then obtain a b where "rev s = a @ c # b" by (auto simp: split_once_Some_iff)
    then have "c \<in> set (rev s)" by simp
    then show False using \<open>c \<notin> set s\<close> by simp
  qed
  then show ?thesis by (simp add: after_last_def)
qed

lemma local_part_plain: "CHR ''}'' \<notin> set l \<Longrightarrow> CHR '':'' \<notin> set l \<Longrightarrow> local_part l = l"
  by (simp add: local_part_def after_last_None)

lemma local_part_prefixed:
  "CHR ''}'' \<notin> set p \<Longrightarrow> CHR ''}'' \<notin> set l \<Longrightarrow> CHR '':'' \<notin> set l \<Longrightarrow> local_part (p @ CHR '':'' # l) = l"
  using after_last_append [of "CHR '':''" l p] by (simp add: local_part_def after_last_None)

lemma local_part_clark: "CHR ''}'' \<notin> set l \<Longrightarrow> local_part (to_clark (mk_qname (Some u) l)) = l"
  using after_last_append [of "CHR ''}''" l "''{'' @ u"] by (simp add: local_part_def to_clark_def mk_qname_def)

text \<open>A byte of a pattern that is no wildcard is in the text.\<close>

lemma glob_literal_in: "glob pat s \<Longrightarrow> c \<in> set pat \<Longrightarrow> c \<noteq> CHR ''*'' \<Longrightarrow> c \<noteq> CHR ''?'' \<Longrightarrow> c \<in> set s"
proof (induction pat s rule: glob.induct)
  case (2 d p s)
  show ?case
  proof (cases "d = CHR ''*''")
    case True
    then obtain k where "k \<le> length s" "glob p (drop k s)" using 2(3) by (auto simp: glob_star simp del: glob.simps)
    then have "c \<in> set (drop k s)" using 2(1) [OF True, of k] 2(4-6) True by (auto simp: less_Suc_eq_le le_less)
    then show ?thesis by (rule in_set_dropD)
  next
    case False
    then obtain x xs where "s = x # xs" "d = CHR ''?'' \<or> d = x" "glob p xs" using 2(3) by (auto split: list.splits)
    then show ?thesis using 2(2) [OF False] 2(4-6) by auto
  qed
qed simp

lemma is_plain_clark: "\<not> is_plain_name (to_clark (mk_qname (Some u) l))"
  by (simp add: is_plain_name_def to_clark_def mk_qname_def)

text \<open>
  C40. A layer may be given in any notation. A selector without a namespace selects it by a glob of
  its local name (or of the whole name as given), whether the layer is given by its local, its prefixed or its
  Clark name; a selector in prefixed or Clark notation selects a layer given by its local name by the
  local part of the selector, and one given in the same notation by a glob of the whole name. (What a
  selector in one of the two qualified notations means for a layer given in the other is left out
  here: see \<open>prefixed_selector_unmatched\<close>.)
\<close>

theorem selector_in_any_notation:
  assumes "set l \<inter> set ''{}:'' = {}" "set s \<inter> set ''{}:'' = {}" "CHR ''}'' \<notin> set p" "CHR ''}'' \<notin> set q"
  shows "(layer_selector_matches s l \<longleftrightarrow> glob s l) \<and>
    (layer_selector_matches s (p @ '':'' @ l) \<longleftrightarrow> glob s l \<or> glob s (p @ '':'' @ l)) \<and>
    (layer_selector_matches s (to_clark (mk_qname (Some u) l)) \<longleftrightarrow> glob s l \<or> glob s (to_clark (mk_qname (Some u) l))) \<and>
    (layer_selector_matches (q @ '':'' @ s) l \<longleftrightarrow> glob s l) \<and>
    (layer_selector_matches (to_clark (mk_qname (Some v) s)) l \<longleftrightarrow> glob s l) \<and>
    (layer_selector_matches (q @ '':'' @ s) (p @ '':'' @ l) \<longleftrightarrow> glob (q @ '':'' @ s) (p @ '':'' @ l)) \<and>
    (layer_selector_matches (to_clark (mk_qname (Some v) s)) (to_clark (mk_qname (Some u) l)) \<longleftrightarrow>
       glob (to_clark (mk_qname (Some v) s)) (to_clark (mk_qname (Some u) l)))"
proof -
  have plain: "is_plain_name l" "is_plain_name s" "\<not> is_plain_name (p @ '':'' @ l)" "\<not> is_plain_name (q @ '':'' @ s)"
    using assms by (auto simp: is_plain_name_def)
  have loc: "local_part l = l" "local_part s = s" "local_part (p @ '':'' @ l) = l" "local_part (q @ '':'' @ s) = s"
    "local_part (to_clark (mk_qname (Some u) l)) = l" "local_part (to_clark (mk_qname (Some v) s)) = s"
    using assms by (auto intro!: local_part_plain local_part_prefixed local_part_clark)
  have "CHR '':'' \<notin> set l" "CHR ''{'' \<notin> set l" using assms(1) by auto
  then have none: "\<not> glob (q @ '':'' @ s) l" "\<not> glob (to_clark (mk_qname (Some v) s)) l"
    using glob_literal_in [of "q @ '':'' @ s" l "CHR '':''"] glob_literal_in [of "to_clark (mk_qname (Some v) s)" l "CHR ''{''"]
    by (auto simp: to_clark_def mk_qname_def)
  show ?thesis
    using none by (auto simp only: layer_selector_matches_def wildcard_glob plain is_plain_clark loc simp_thms)
qed

lemma selector_in_any_notation_witness:
  "layer_selector_matches ''AD_*'' (to_clark (mk_qname (Some ''urn:a'') ''AD_Point'')) \<and>
   \<not> layer_selector_matches ''*Road'' (''ad'' @ '':'' @ ''AD_Point'') \<and>
   layer_selector_matches (''ad'' @ '':'' @ ''AD_*'') ''AD_Point'' \<and>
   layer_selector_matches (to_clark (mk_qname (Some ''urn:a'') ''AD_*'')) ''AD_Point''"
  using selector_in_any_notation [of "''AD_Point''" "''AD_*''" "''ad''" "''ad''" "''urn:a''" "''urn:a''"]
    selector_in_any_notation [of "''AD_Point''" "''*Road''" "''ad''" "''ad''" "''urn:a''" "''urn:a''"]
  by simp

text \<open>
  The documentation of \<open>for_layer\<close> promises that a selector matches the prefixed name of a layer given
  in any form; the code has no prefixes here, and a prefixed selector does not match a Clark name.
\<close>

lemma prefixed_selector_unmatched:
  assumes "CHR ''}'' \<notin> set l" "c \<notin> {CHR ''*'', CHR ''?'', CHR ''{''}" "CHR '':'' \<in> set selector"
  shows "\<not> layer_selector_matches (c # selector) (to_clark (mk_qname (Some u) l))"
proof -
  have "local_part (to_clark (mk_qname (Some u) l)) = l" by (rule local_part_clark [OF assms(1)])
  then show ?thesis using assms(2,3)
    by (simp add: layer_selector_matches_def wildcard_glob is_plain_name_def) (simp add: to_clark_def mk_qname_def)
qed

end
