(* ===== verification/Bind.thy ===== *)
theory Bind
  imports Options
begin

text \<open>
  Binding a schema to XML (\<open>crates/xeibe-schema/src/bind.rs\<close>): the path of a column is parsed, its type
  decides what is taken from the element, and a schema is refused with the error of its first column
  that cannot be filled. The text of a message is the constructor of \<open>path_error\<close> or \<open>bind_error\<close>.
\<close>

subsection \<open>Column paths\<close>

definition META_PATH :: bytes where "META_PATH = ''gml:path''"
definition META_NS :: bytes where "META_NS = ''gml:ns''"
definition META_MAX_SCALE :: bytes where "META_MAX_SCALE = ''gml:max_scale''"
definition META_ATTR_PREFIX :: bytes where "META_ATTR_PREFIX = ''gml:attr:''"
definition META_TZ_OFFSET :: bytes where "META_TZ_OFFSET = ''gml:tz_offset''"
definition META_SRS_NAME :: bytes where "META_SRS_NAME = ''gml:srs_name''"
definition META_AXIS_SWAPPED :: bytes where "META_AXIS_SWAPPED = ''gml:axis_swapped''"
definition META_AXIS_DECISION :: bytes where "META_AXIS_DECISION = ''gml:axis_decision''"
definition META_CONTENT :: bytes where "META_CONTENT = ''gml:content''"
definition META_VERSIONS :: bytes where "META_VERSIONS = ''gml:versions''"
definition EXTENSION_NAME :: bytes where "EXTENSION_NAME = ''ARROW:extension:name''"

lemmas meta_defs = META_PATH_def META_NS_def META_MAX_SCALE_def META_ATTR_PREFIX_def META_TZ_OFFSET_def
  META_SRS_NAME_def META_AXIS_SWAPPED_def META_AXIS_DECISION_def META_CONTENT_def META_VERSIONS_def EXTENSION_NAME_def

record column_path =
  cp_steps :: "qname list"
  cp_attribute :: "qname option"
  cp_anchor :: "nat option"

text \<open>What the messages of a refused path say; the path itself is the caller's.\<close>

datatype path_error =
  Empty_Path | Empty_Path_Step bytes | Attribute_Not_Last bytes | Two_Anchors bytes | Invalid_Step bytes | Undeclared_Prefix bytes

definition ANY_STEP :: qname where
  "ANY_STEP = mk_qname None ''*''"

definition step_name :: "(bytes \<times> bytes) list \<Rightarrow> bytes \<Rightarrow> path_error + qname" where
  "step_name namespaces name =
     (if name = [] \<or> set ''[]@*'' \<inter> set name \<noteq> {} then Inl (Invalid_Step name)
      else
        (case Option.bind (strip_prefix ''{'' name) (split_once CHR ''}'') of
           Some (uri, l) \<Rightarrow> Inr (mk_qname (Some uri) l)
         | None \<Rightarrow>
             (case split_once CHR '':'' name of
                Some (prefix, l) \<Rightarrow>
                  (case map_of namespaces prefix of
                     Some uri \<Rightarrow> Inr (mk_qname (Some uri) l) | None \<Rightarrow> Inl (Undeclared_Prefix prefix))
              | None \<Rightarrow> Inr (mk_qname None name))))"

text \<open>The loop over the parts; \<open>path\<close> is only quoted in messages.\<close>

fun parse_parts ::
  "(bytes \<times> bytes) list \<Rightarrow> bytes \<Rightarrow> bytes list \<Rightarrow> column_path \<Rightarrow> path_error + column_path" where
  "parse_parts namespaces path [] parsed = Inr parsed"
| "parse_parts namespaces path (part # parts) parsed =
     (if part = [] then Inl (Empty_Path_Step path)
      else
        (case strip_prefix ''@'' part of
           Some attribute \<Rightarrow>
             (if parts \<noteq> [] then Inl (Attribute_Not_Last path)
              else
                (case step_name namespaces attribute of
                   Inl e \<Rightarrow> Inl e
                 | Inr q \<Rightarrow> parse_parts namespaces path parts (parsed\<lparr>cp_attribute := Some q\<rparr>)))
         | None \<Rightarrow>
             (let (name, anchor) = (case strip_suffix ''[]'' part of Some s \<Rightarrow> (s, True) | None \<Rightarrow> (part, False)) in
              if anchor \<and> cp_anchor parsed \<noteq> None then Inl (Two_Anchors path)
              else
                (let parsed = (if anchor then parsed\<lparr>cp_anchor := Some (length (cp_steps parsed))\<rparr> else parsed) in
                 case (if name = ''*'' then Inr ANY_STEP else step_name namespaces name) of
                   Inl e \<Rightarrow> Inl e
                 | Inr q \<Rightarrow> parse_parts namespaces path parts (parsed\<lparr>cp_steps := cp_steps parsed @ [q]\<rparr>)))))"

definition parse_path :: "bytes \<Rightarrow> (bytes \<times> bytes) list \<Rightarrow> path_error + column_path" where
  "parse_path path namespaces =
     (if path = [] then Inl Empty_Path
      else parse_parts namespaces path (split_on CHR ''/'' path) \<lparr>cp_steps = [], cp_attribute = None, cp_anchor = None\<rparr>)"

subsection \<open>Binding a schema\<close>

datatype value_source = Route_Text | Route_InnerText | Route_Geometry | Route_Map | Route_BoundingBox

record field_route =
  fr_source_path :: "qname list"
  fr_attribute :: "qname option"
  fr_value :: value_source
  fr_field_path :: "nat list"
  fr_anchor :: "nat option"

record field_decision =
  fx_field :: bytes
  fx_reasons :: "bytes list"

record layer_schema =
  ls_layer :: qname
  ls_schema :: arrow_schema
  ls_routes :: "field_route list"
  ls_decisions :: "field_decision list"

datatype bind_error =
  Bad_Namespaces bytes
| Bad_Path path_error
| Geometry_List_Not_Wkb | Struct_Column | List_Of_Lists | Decimal_Column | Not_From_Xml data_type
| Anchor_Without_List bytes | List_Without_Element

datatype schema_error = Bind_Error qname "bytes option" bind_error | Layer_Not_Found qname

definition extension_name :: "arrow_field \<Rightarrow> bytes option" where
  "extension_name f = map_of (fd_metadata f) EXTENSION_NAME"

definition is_geoarrow :: "arrow_field \<Rightarrow> bool" where
  "is_geoarrow f \<longleftrightarrow> (case extension_name f of Some name \<Rightarrow> starts_with ''geoarrow.'' name | None \<Rightarrow> False)"

definition is_scalar :: "data_type \<Rightarrow> bool" where
  "is_scalar t \<longleftrightarrow>
     (case t of
        DT_Time32 u \<Rightarrow> u = Second \<or> u = Millisecond
      | DT_Time64 u \<Rightarrow> u = Microsecond \<or> u = Nanosecond
      | DT_Binary \<Rightarrow> False | DT_List _ \<Rightarrow> False | DT_LargeList _ \<Rightarrow> False | DT_Map _ _ \<Rightarrow> False
      | DT_Struct _ \<Rightarrow> False | DT_Decimal _ _ _ \<Rightarrow> False | DT_Other _ \<Rightarrow> False
      | _ \<Rightarrow> True)"

definition route_value :: "arrow_field \<Rightarrow> arrow_field \<Rightarrow> bool \<Rightarrow> bind_error + value_source" where
  "route_value fd item list =
     (if is_geoarrow item then
        (case the (extension_name item) of name \<Rightarrow>
           if name = ''geoarrow.box'' \<and> \<not> list then Inr Route_BoundingBox
           else if name = ''geoarrow.wkb'' \<or> \<not> list then Inr Route_Geometry
           else Inl Geometry_List_Not_Wkb)
      else
        (case fd_type item of
           DT_Binary \<Rightarrow> Inr Route_Geometry
         | DT_Map _ _ \<Rightarrow> Inr Route_Map
         | DT_Struct _ \<Rightarrow> Inl Struct_Column
         | DT_List _ \<Rightarrow> Inl List_Of_Lists
         | DT_LargeList _ \<Rightarrow> Inl List_Of_Lists
         | DT_Decimal _ _ _ \<Rightarrow> Inl Decimal_Column
         | t \<Rightarrow>
             (if is_scalar t
              then Inr (if map_of (fd_metadata fd) META_CONTENT = Some ''text'' then Route_InnerText else Route_Text)
              else Inl (Not_From_Xml t))))"

definition list_item :: "arrow_field \<Rightarrow> bool \<times> arrow_field" where
  "list_item fd =
     (case fd_type fd of
        DT_List item \<Rightarrow> if is_geoarrow fd then (False, fd) else (True, item)
      | DT_LargeList item \<Rightarrow> if is_geoarrow fd then (False, fd) else (True, item)
      | _ \<Rightarrow> (False, fd))"

definition bind_field :: "(bytes \<times> bytes) list \<Rightarrow> nat \<Rightarrow> arrow_field \<Rightarrow> bind_error + field_route" where
  "bind_field namespaces index fd =
     (let written = (case map_of (fd_metadata fd) META_PATH of Some p \<Rightarrow> p | None \<Rightarrow> fd_name fd);
          (list, item) = list_item fd
      in case parse_path written namespaces of
           Inl e \<Rightarrow> Inl (Bad_Path e)
         | Inr path \<Rightarrow>
             (case route_value fd item list of
                Inl e \<Rightarrow> Inl e
              | Inr v \<Rightarrow>
                  (let route = (\<lambda>anchor. Inr \<lparr>fr_source_path = cp_steps path, fr_attribute = cp_attribute path,
                         fr_value = v, fr_field_path = [index], fr_anchor = anchor\<rparr>)
                   in if \<not> list then (if cp_anchor path \<noteq> None then Inl (Anchor_Without_List written) else route None)
                      else if cp_steps path = [] then Inl List_Without_Element
                      else route (Some (case cp_anchor path of Some a \<Rightarrow> a | None \<Rightarrow> 0)))))"

fun bind_fields ::
  "qname \<Rightarrow> (bytes \<times> bytes) list \<Rightarrow> nat \<Rightarrow> arrow_field list \<Rightarrow> schema_error + field_route list" where
  "bind_fields layer namespaces index [] = Inr []"
| "bind_fields layer namespaces index (fd # fds) =
     (case bind_field namespaces index fd of
        Inl e \<Rightarrow> Inl (Bind_Error layer (Some (fd_name fd)) e)
      | Inr route \<Rightarrow> map_sum id (\<lambda>routes. route # routes) (bind_fields layer namespaces (index + 1) fds))"

text \<open>\<open>serde_json\<close> writes and reads the map of prefixes that \<open>gml:ns\<close> holds.\<close>

record json_map =
  js_write :: "(bytes \<times> bytes) list \<Rightarrow> bytes"
  js_read :: "bytes \<Rightarrow> bytes + (bytes \<times> bytes) list"

definition schema_namespaces :: "json_map \<Rightarrow> arrow_schema \<Rightarrow> bytes + (bytes \<times> bytes) list" where
  "schema_namespaces json schema =
     (case map_of (as_metadata schema) META_NS of None \<Rightarrow> Inr [] | Some t \<Rightarrow> js_read json t)"

definition bind_schema :: "json_map \<Rightarrow> qname \<Rightarrow> arrow_schema \<Rightarrow> schema_error + layer_schema" where
  "bind_schema json layer schema =
     (case schema_namespaces json schema of
        Inl e \<Rightarrow> Inl (Bind_Error layer None (Bad_Namespaces e))
      | Inr namespaces \<Rightarrow>
          map_sum id (\<lambda>routes. \<lparr>ls_layer = layer, ls_schema = schema, ls_routes = routes, ls_decisions = []\<rparr>)
            (bind_fields layer namespaces 0 (as_fields schema)))"

end
