(* ===== verification/Rules_Columns.thy ===== *)
theory Rules_Columns
  imports Bind Node_Laws
begin

text \<open>
  The rule engine (\<open>crates/xeibe-schema/src/rules.rs\<close>), first part: the text of its reasons, the
  prefixes of namespaces, and columns with their names, shortest unique first (\<open>column_names_of\<close>).
\<close>

subsection \<open>Text of the reasons\<close>

definition NEVER_A_VALUE :: bytes where
  "NEVER_A_VALUE = ''always empty: no value to pick a type from''"

text \<open>The digits with a comma before every third one from the end.\<close>

fun group_digits :: "bytes \<Rightarrow> bytes" where
  "group_digits [] = []"
| "group_digits (d # ds) = d # (if ds \<noteq> [] \<and> length ds mod 3 = 0 then CHR '','' # group_digits ds else group_digits ds)"

definition thousands :: "nat \<Rightarrow> bytes" where
  "thousands n = group_digits (show_nat n)"

definition plural :: "nat \<Rightarrow> bytes \<Rightarrow> bytes" where
  "plural n noun =
     (if n = 1 then ''1 '' @ noun
      else (case strip_suffix ''y'' noun of
          Some stem \<Rightarrow> thousands n @ '' '' @ stem @ ''ies'' | None \<Rightarrow> thousands n @ '' '' @ noun @ ''s''))"

text \<open>\<open>part as f64 / whole as f64 * 100.0\<close> and \<open>round\<close>, halves away from zero; \<open>whole\<close> is not 0.\<close>

definition f64_of_nat :: "nat \<Rightarrow> f64" where
  "f64_of_nat n = word_of_nat (f64_of_units (n * 2 ^ 1074) 1)"

definition f64_div_pos :: "f64 \<Rightarrow> f64 \<Rightarrow> f64" where
  "f64_div_pos a b = word_of_nat (f64_of_units (f64_units a * 2 ^ 1074) (f64_units b))"

definition f64_times_100 :: "f64 \<Rightarrow> f64" where
  "f64_times_100 a = word_of_nat (f64_of_units (f64_units a * 100) 1)"

definition f64_round_nat :: "f64 \<Rightarrow> nat" where
  "f64_round_nat a = (2 * f64_units a + 2 ^ 1074) div 2 ^ 1075"

definition share :: "nat \<Rightarrow> nat \<Rightarrow> bytes" where
  "share part whole =
     (let percent = f64_round_nat (f64_times_100 (f64_div_pos (f64_of_nat part) (f64_of_nat whole)))
      in if percent = 0 then ''under 1%'' else if 100 \<le> percent then ''over 99%'' else show_nat percent @ ''%'')"

definition type_kinds :: "(type_set \<times> bytes) list" where
  "type_kinds =
     [(TS_BOOL, ''true or false''), (TS_INT, ''whole numbers''), (TS_FLOAT, ''numbers''), (TS_DATE, ''dates''),
      (TS_DATETIME, ''dates with a time''), (TS_TIME, ''times of day'')]"

definition has_type :: "type_set \<Rightarrow> type_set \<Rightarrow> bool" where
  "has_type ts t \<longleftrightarrow> ts AND t = t"

definition kind_of :: "type_set \<Rightarrow> bytes" where
  "kind_of ts = (case find (\<lambda>(t, _). has_type ts t) type_kinds of Some (_, kind) \<Rightarrow> kind | None \<Rightarrow> ''text'')"

definition values_text :: "nat \<Rightarrow> type_set \<Rightarrow> bytes" where
  "values_text n ts =
     (if ts = TS_STRING then plural n ''value'' @ '' of text'' else plural n ''value'' @ '', all '' @ kind_of ts)"

definition unit_name :: "time_unit \<Rightarrow> bytes" where
  "unit_name u = (case u of Second \<Rightarrow> ''seconds'' | Millisecond \<Rightarrow> ''milliseconds''
     | Microsecond \<Rightarrow> ''microseconds'' | Nanosecond \<Rightarrow> ''nanoseconds'')"

definition unit_digits :: "time_unit \<Rightarrow> nat" where
  "unit_digits u = (case u of Second \<Rightarrow> 0 | Millisecond \<Rightarrow> 3 | Microsecond \<Rightarrow> 6 | Nanosecond \<Rightarrow> 9)"

text \<open>\<open>{:02}\<close> of a number, and an offset in minutes.\<close>

definition show_02 :: "nat \<Rightarrow> bytes" where
  "show_02 n = (if n < 10 then ''0'' @ show_nat n else show_nat n)"

definition format_offset :: "int \<Rightarrow> bytes" where
  "format_offset minutes =
     (let m = nat \<bar>minutes\<bar>
      in (if minutes < 0 then ''-'' else ''+'') @ show_02 (m div 60) @ '':'' @ show_02 (m mod 60))"

definition show_location :: "location \<Rightarrow> bytes" where
  "show_location l =
     ''source #'' @ show_nat (loc_source l) @ '', byte '' @ show_nat (loc_byte_offset l) @
     (case loc_feature_seq l of Some seq \<Rightarrow> '', feature '' @ show_nat seq | None \<Rightarrow> []) @
     (case loc_gml_id l of Some i \<Rightarrow> '' (gml:id '' @ i @ '')'' | None \<Rightarrow> [])"

subsection \<open>Prefixes\<close>

function node_names :: "element_node \<Rightarrow> qname list" where
  "node_names (Element_Node f children) =
     map fst (nf_attributes f) @ map fst children @ concat (map (\<lambda>(name, child). node_names child) children)"
  by pat_completeness auto
termination
proof (relation "measure size", goal_cases)
  case 1
  then show ?case by simp
next
  case (2 f children kv name child)
  have "size child \<le> size_list (size_prod (\<lambda>x. 0) size) children"
    using 2 by (intro size_list_estimation') auto
  then show ?case by simp
qed

declare node_names.simps [simp del]

text \<open>\<open>uris.entry(uri).or_insert(())\<close> for each name in this order.\<close>

definition add_new :: "'a \<Rightarrow> 'a list \<Rightarrow> 'a list" where
  "add_new x xs = (if x \<in> set xs then xs else xs @ [x])"

definition collect_namespaces :: "element_node \<Rightarrow> bytes list" where
  "collect_namespaces root = fold add_new (List.map_filter qns (node_names root)) []"

definition known_prefix :: "bytes \<Rightarrow> bytes option" where
  "known_prefix uri =
     (if uri = NS_GML \<or> uri = NS_GML_32 then Some ''gml'' else if uri = NS_XLINK then Some ''xlink''
      else if uri = NS_XSI then Some ''xsi'' else None)"

text \<open>
  The next number whose \<open>ns\<close> prefix is free; one of \<open>length taken + 1\<close> numbers is
  (\<open>next_number_free\<close>), so the code's loop ends within them.
\<close>

definition number_prefix :: "nat \<Rightarrow> bytes" where
  "number_prefix n = ''ns'' @ show_nat n"

definition next_number :: "nat \<Rightarrow> bytes list \<Rightarrow> nat" where
  "next_number generated taken =
     (case find (\<lambda>n. number_prefix n \<notin> set taken) [generated + 1..<generated + 2 + length taken] of
        Some n \<Rightarrow> n | None \<Rightarrow> 0)"

definition choose_prefix ::
  "(bytes \<times> bytes) list \<Rightarrow> bytes \<Rightarrow> (bytes \<times> bytes) list \<times> nat \<Rightarrow> (bytes \<times> bytes) list \<times> nat" where
  "choose_prefix noted uri st =
     (let (m, generated) = st;
          prefix = (case map_of noted uri of Some p \<Rightarrow> Some p | None \<Rightarrow> known_prefix uri)
      in case (case prefix of Some p \<Rightarrow> if p \<in> set (map snd m) then None else Some p | None \<Rightarrow> None) of
           Some p \<Rightarrow> (m @ [(uri, p)], generated)
         | None \<Rightarrow> (let n = next_number generated (map snd m) in (m @ [(uri, number_prefix n)], n)))"

definition prefixes_for_layer :: "dataset_observation \<Rightarrow> element_node \<Rightarrow> (bytes \<times> bytes) list" where
  "prefixes_for_layer observation root =
     fst (fold (choose_prefix (do_prefixes observation)) (collect_namespaces root) ([], 0))"

definition prefix_of :: "(bytes \<times> bytes) list \<Rightarrow> bytes \<Rightarrow> bytes" where
  "prefix_of prefixes uri = (case map_of prefixes uri of Some p \<Rightarrow> p | None \<Rightarrow> ''ns'')"

definition prefixed_name :: "(bytes \<times> bytes) list \<Rightarrow> qname \<Rightarrow> bytes" where
  "prefixed_name prefixes name =
     (case qns name of Some uri \<Rightarrow> prefix_of prefixes uri @ '':'' @ qlocal name | None \<Rightarrow> qlocal name)"

subsection \<open>Columns and their names\<close>

record path_step =
  sp_name :: qname
  sp_wrapper :: bool
  sp_prefixed :: bool

datatype col_kind = Scalar_Col data_type | Field_Col arrow_field

record col =
  co_steps :: "path_step list"
  co_attribute :: "(qname \<times> bool) option"
  co_anchor :: "nat option"
  co_by_reference :: bool
  co_feature_id :: bool
  co_kind :: col_kind
  co_metadata :: "(bytes \<times> bytes) list"
  co_reasons :: "bytes list"

definition new_col :: "path_step list \<Rightarrow> nat option \<Rightarrow> data_type \<Rightarrow> col" where
  "new_col steps anchor t =
     \<lparr>co_steps = steps, co_attribute = None, co_anchor = anchor, co_by_reference = False, co_feature_id = False,
      co_kind = Scalar_Col t, co_metadata = [], co_reasons = []\<rparr>"

text \<open>\<open>HashMap::insert\<close> and \<open>HashMap::extend\<close>.\<close>

definition insert_all :: "('k \<times> 'v) list \<Rightarrow> ('k \<times> 'v) list \<Rightarrow> ('k \<times> 'v) list" where
  "insert_all new m = fold (\<lambda>(k, v). AList.update k v) new m"

definition into_field :: "bytes \<Rightarrow> bytes \<Rightarrow> col \<Rightarrow> arrow_field \<times> bytes list" where
  "into_field name path c =
     (let item = (case co_kind c of Scalar_Col t \<Rightarrow> new_field name t True | Field_Col f \<Rightarrow> with_name name f);
          metadata = AList.update META_PATH path (co_metadata c);
          (f, metadata) =
            (if co_anchor c \<noteq> None then (new_field name (DT_List (with_name ''item'' item)) True, metadata)
             else (item, insert_all (fd_metadata item) metadata))
      in (with_metadata metadata f, co_reasons c))"

definition display_name :: "(bytes \<times> bytes) list \<Rightarrow> qname \<Rightarrow> bool \<Rightarrow> bytes" where
  "display_name prefixes name prefixed = (if prefixed then prefixed_name prefixes name else qlocal name)"

definition name_steps :: "(bytes \<times> bytes) list \<Rightarrow> col \<Rightarrow> bytes list" where
  "name_steps prefixes c =
     (let steps = map (\<lambda>s. display_name prefixes (sp_name s) (sp_prefixed s)) (filter (\<lambda>s. \<not> sp_wrapper s) (co_steps c));
          steps = steps @
            (case co_attribute c of
               Some (attribute, prefixed) \<Rightarrow>
                 (if co_feature_id c then [''@id'']
                  else if \<not> co_by_reference c \<or> steps = [] then [''@'' @ display_name prefixes attribute prefixed] else [])
             | None \<Rightarrow> [])
      in if steps = [] then [''*''] else steps)"

text \<open>The last \<open>k\<close> steps of each column are its name; columns of one name take one step more.\<close>

definition last_steps :: "bytes list \<Rightarrow> nat \<Rightarrow> bytes" where
  "last_steps steps k = join_with ''.'' (drop (length steps - k) steps)"

definition grow_names :: "bytes list list \<Rightarrow> nat list \<Rightarrow> nat list" where
  "grow_names steps taken =
     (let names = map2 last_steps steps taken
      in map (\<lambda>(name, s, k). if 1 < count_list names name \<and> k < length s then k + 1 else k)
           (zip names (zip steps taken)))"

lemma grow_names_sum:
  "length steps = length taken \<Longrightarrow> grow_names steps taken \<noteq> taken \<Longrightarrow>
   sum_list (map2 (\<lambda>s k. length s - k) steps (grow_names steps taken)) < sum_list (map2 (\<lambda>s k. length s - k) steps taken)"
proof -
  have "length names = length steps \<Longrightarrow> length steps = length taken \<Longrightarrow>
      (let taken' = map (\<lambda>(name, s, k). if P name \<and> k < length s then k + 1 else k) (zip names (zip steps taken))
       in sum_list (map2 (\<lambda>s k. length s - k) steps taken') \<le> sum_list (map2 (\<lambda>s k. length s - k) steps taken) \<and>
          (taken' \<noteq> taken \<longrightarrow>
           sum_list (map2 (\<lambda>s k. length s - k) steps taken') < sum_list (map2 (\<lambda>s k. length s - k) steps taken)))"
    for P and names :: "bytes list"
  proof (induction names steps taken rule: list_induct3)
    case (Cons n ns s ss k ks)
    then show ?case by (auto simp: Let_def)
  qed simp
  then show "length steps = length taken \<Longrightarrow> grow_names steps taken \<noteq> taken \<Longrightarrow> ?thesis"
    by (simp add: grow_names_def Let_def)
qed

function name_loop :: "bytes list list \<Rightarrow> nat list \<Rightarrow> nat list" where
  "name_loop steps taken =
     (let taken' = grow_names steps taken
      in if taken' = taken \<or> length steps \<noteq> length taken then taken else name_loop steps taken')"
  by pat_completeness auto
termination
  by (relation "measure (\<lambda>(steps, taken). sum_list (map2 (\<lambda>s k. length s - k) steps taken))")
    (auto simp: grow_names_sum)

declare name_loop.simps [simp del]

text \<open>Names that are still alike get a number from the second on.\<close>

fun number_names :: "bytes list \<Rightarrow> bytes list \<Rightarrow> bytes list" where
  "number_names seen [] = []"
| "number_names seen (name # names) =
     (let n = count_list seen name + 1
      in (if n = 1 then name else name @ ''#'' @ show_nat n) # number_names (name # seen) names)"

definition column_names_of :: "bytes list list \<Rightarrow> bytes list" where
  "column_names_of steps =
     number_names [] (map2 last_steps steps (name_loop steps (replicate (length steps) 1)))"

definition column_names :: "(bytes \<times> bytes) list \<Rightarrow> col list \<Rightarrow> bytes list" where
  "column_names prefixes cols = column_names_of (map (name_steps prefixes) cols)"

end
