(* ===== verification/Rules_Types.thy ===== *)
theory Rules_Types
  imports Rules_Columns
begin

text \<open>
  The rule engine, second part: what it is given, paths and overrides, and the type of a scalar
  column from the statistics of its values (\<open>Engine::scalar\<close>), with the reasons it gives. The
  loop over the candidate types is \<open>choose_first\<close>, one turn of it \<open>choose_type\<close>.
\<close>

subsection \<open>What the engine is given\<close>

datatype native_kind = Native_Point | Native_LineString | Native_Polygon | Native_MultiPoint
  | Native_MultiLineString | Native_MultiPolygon

datatype dimension = Dim_XY | Dim_XYZ

text \<open>The GeoArrow metadata of a field: how its reference system is written.\<close>

datatype crs_metadata = No_Crs | Crs_Projjson bytes | Crs_Authority_Code bytes | Crs_Unknown bytes

text \<open>
  The crates the engine calls: \<open>{:?}\<close> and lower case (\<open>unicode\<close>), the tables of xeibe-crs, the
  PROJJSON of a reference system, \<open>{}\<close> of an Arrow type, serde_json, and the fields geoarrow-schema
  makes for WKB, for a native type and for a box.
\<close>

record rule_env =
  ev_unicode :: unicode
  ev_data :: crs_data
  ev_projjson :: "crs_ref \<Rightarrow> bytes option"
  ev_show_type :: "data_type \<Rightarrow> bytes"
  ev_json :: json_map
  ev_wkb_field :: "crs_metadata \<Rightarrow> bytes \<Rightarrow> arrow_field"
  ev_native_field :: "native_kind \<Rightarrow> dimension \<Rightarrow> crs_metadata \<Rightarrow> bytes \<Rightarrow> arrow_field"
  ev_box_field :: "dimension \<Rightarrow> crs_metadata \<Rightarrow> bytes \<Rightarrow> arrow_field"

record engine =
  eg_env :: rule_env
  eg_observation :: dataset_observation
  eg_options :: inference_options
  eg_sampled :: "sample_options option"
  eg_layer_clark :: bytes
  eg_prefixes :: "(bytes \<times> bytes) list"

definition engine_debug :: "engine \<Rightarrow> bytes \<Rightarrow> bytes" where
  "engine_debug g = un_debug (ev_unicode (eg_env g))"

definition engine_string :: "engine \<Rightarrow> data_type" where
  "engine_string g = string_type (io_types (eg_options g))"

definition all_null_type :: "engine \<Rightarrow> data_type" where
  "all_null_type g =
     (case to_all_null (io_types (eg_options g)) of All_Utf8View \<Rightarrow> engine_string g | All_Null \<Rightarrow> DT_Null)"

subsection \<open>Paths\<close>

definition path_part :: "(bytes \<times> bytes) list \<Rightarrow> path_step \<Rightarrow> bytes" where
  "path_part prefixes s = (if sp_wrapper s then ''*'' else display_name prefixes (sp_name s) (sp_prefixed s))"

definition path_string :: "(bytes \<times> bytes) list \<Rightarrow> col \<Rightarrow> bytes" where
  "path_string prefixes c =
     (let parts = map (\<lambda>(index, s). path_part prefixes s @ (if co_anchor c = Some index then ''[]'' else []))
            (enumerate 0 (co_steps c));
          attribute = (case co_attribute c of
              Some (a, prefixed) \<Rightarrow> [''@'' @ display_name prefixes a prefixed] | None \<Rightarrow> [])
      in join_with ''/'' (parts @ attribute))"

definition prefixes_used :: "(bytes \<times> bytes) list \<Rightarrow> col \<Rightarrow> (bytes \<times> bytes) list" where
  "prefixes_used prefixes c =
     List.map_filter (\<lambda>name. map_option (\<lambda>uri. (prefix_of prefixes uri, uri)) (qns name))
       (map sp_name (filter (\<lambda>s. sp_prefixed s \<and> \<not> sp_wrapper s) (co_steps c)) @
        (case co_attribute c of Some (a, prefixed) \<Rightarrow> if prefixed then [a] else [] | None \<Rightarrow> []))"

subsection \<open>Overrides\<close>

record plan =
  pl_drop :: bool
  pl_data_type :: "data_type option"
  pl_raw_xml :: bool
  pl_map :: bool
  pl_list :: "bool option"
  pl_reasons :: "bytes list"

definition default_plan :: plan where
  "default_plan =
     \<lparr>pl_drop = False, pl_data_type = None, pl_raw_xml = False, pl_map = False, pl_list = None, pl_reasons = []\<rparr>"

definition override_text :: "(data_type \<Rightarrow> bytes) \<Rightarrow> field_override \<Rightarrow> bytes" where
  "override_text show_type action =
     (case action of
        Override_Type t \<Rightarrow> ''makes it '' @ show_type t
      | Override_Drop \<Rightarrow> ''drops it''
      | As_Raw_Xml \<Rightarrow> ''keeps it as raw XML''
      | As_Map \<Rightarrow> ''makes it a map''
      | Override_List \<Rightarrow> ''makes it a list''
      | Override_Scalar \<Rightarrow> ''makes it a single value'')"

definition apply_override :: "engine \<Rightarrow> path_pattern \<times> field_override \<Rightarrow> plan \<Rightarrow> plan" where
  "apply_override g ov plan =
     (let (pat, action) = ov;
          plan = plan\<lparr>pl_reasons := pl_reasons plan @
            [''the override for '' @ engine_debug g (pp_raw pat) @ '' '' @ override_text (ev_show_type (eg_env g)) action]\<rparr>
      in case action of
           Override_Type t \<Rightarrow> plan\<lparr>pl_data_type := Some t\<rparr>
         | Override_Drop \<Rightarrow> plan\<lparr>pl_drop := True\<rparr>
         | As_Raw_Xml \<Rightarrow> plan\<lparr>pl_raw_xml := True\<rparr>
         | As_Map \<Rightarrow> plan\<lparr>pl_map := True\<rparr>
         | Override_List \<Rightarrow> plan\<lparr>pl_list := Some True\<rparr>
         | Override_Scalar \<Rightarrow> plan\<lparr>pl_list := Some False\<rparr>)"

definition plan_for :: "engine \<Rightarrow> path_step list \<Rightarrow> qname option \<Rightarrow> plan" where
  "plan_for g steps attribute =
     (let names = map (\<lambda>s. to_clark (sp_name s)) steps @
            (case attribute of Some a \<Rightarrow> [''@'' @ to_clark a] | None \<Rightarrow> []);
          matches = (\<lambda>pat. pattern_matches pat (eg_layer_clark g) names);
          structure = io_structure (eg_options g);
          plan = (if list_ex matches (so_force_list structure)
            then default_plan\<lparr>pl_list := Some True, pl_reasons := [''a list, as the force_list setting says'']\<rparr>
            else default_plan);
          plan = (if list_ex matches (so_force_scalar structure)
            then plan\<lparr>pl_list := Some False,
                   pl_reasons := pl_reasons plan @ [''a single value, as the force_scalar setting says'']\<rparr>
            else plan)
      in fold (apply_override g)
           (sort_key (\<lambda>(pat, _). specificity pat) (filter (\<lambda>(pat, _). matches pat) (io_overrides (eg_options g))))
           plan)"

subsection \<open>Scalar types\<close>

record scalar =
  sc_data_type :: data_type
  sc_metadata :: "(bytes \<times> bytes) list"
  sc_reasons :: "bytes list"

definition add_sc_reason :: "bytes \<Rightarrow> scalar \<Rightarrow> scalar" where
  "add_sc_reason r s = s\<lparr>sc_reasons := sc_reasons s @ [r]\<rparr>"

definition add_sc_meta :: "bytes \<Rightarrow> bytes \<Rightarrow> scalar \<Rightarrow> scalar" where
  "add_sc_meta k v s = s\<lparr>sc_metadata := sc_metadata s @ [(k, v)]\<rparr>"

definition int_fits :: "int \<Rightarrow> int \<Rightarrow> nat \<Rightarrow> bool" where
  "int_fits lo hi bits \<longleftrightarrow> - (2 ^ (bits - 1)) \<le> lo \<and> hi \<le> 2 ^ (bits - 1) - 1"

definition int_type :: "engine \<Rightarrow> value_stats \<Rightarrow> data_type" where
  "int_type g stats =
     (if to_integers (io_types (eg_options g)) = Width_Int64 \<or> eg_sampled g \<noteq> None then DT_Int64
      else
        (case (case vs_int_range stats of Some r \<Rightarrow> r | None \<Rightarrow> (- (2 ^ 63), 2 ^ 63 - 1)) of
           (lo, hi) \<Rightarrow>
             if int_fits lo hi 8 then DT_Int8 else if int_fits lo hi 16 then DT_Int16
             else if int_fits lo hi 32 then DT_Int32 else DT_Int64))"

definition stats_temporal :: "value_stats \<Rightarrow> temporal_shape" where
  "stats_temporal stats =
     (case vs_temporal stats of Some t \<Rightarrow> t | None \<Rightarrow> \<lparr>ts_tz = Tz_Absent, ts_max_fraction_digits = 0\<rparr>)"

definition more_decimals :: "bytes \<Rightarrow> time_unit \<Rightarrow> bytes" where
  "more_decimals what u =
     ''some '' @ what @ '' have more decimals of a second than the column's unit ('' @ unit_name u @ '') holds: text''"

definition zone_kept :: "bytes \<Rightarrow> int \<Rightarrow> scalar \<Rightarrow> scalar" where
  "zone_kept reason offset s =
     add_sc_meta META_TZ_OFFSET (format_offset offset)
       (add_sc_reason (''all in the time zone '' @ format_offset offset @ reason @ META_TZ_OFFSET @ '')'') s)"

definition some_have_zone :: bytes where
  "some_have_zone = ''some values have a time zone and some don't: text''"

text \<open>A date or a time of day: the type is \<open>t\<close>, unless a value would lose its time zone.\<close>

definition choose_zoned :: "bool \<Rightarrow> tz_shape \<Rightarrow> data_type \<Rightarrow> scalar \<Rightarrow> data_type option \<times> scalar" where
  "choose_zoned lossy tz t s =
     (case tz of
        Tz_Absent \<Rightarrow> (Some t, s)
      | Tz_Fixed offset \<Rightarrow> (Some t, zone_kept '', which the column's metadata keeps ('' offset s)
      | Tz_Mixed \<Rightarrow>
          (if lossy then (Some t, s)
           else (None, add_sc_reason
             ''the values are in different time zones, which one column of this type can't hold: text'' s))
      | Tz_Inconsistent \<Rightarrow> (if lossy then (Some t, s) else (None, add_sc_reason some_have_zone s)))"

definition choose_datetime :: "tz_shape \<Rightarrow> time_unit \<Rightarrow> scalar \<Rightarrow> data_type option \<times> scalar" where
  "choose_datetime tz u s =
     (case tz of
        Tz_Absent \<Rightarrow> (Some (DT_Timestamp u None), s)
      | Tz_Fixed offset \<Rightarrow> (Some (DT_Timestamp u (Some ''UTC'')),
          zone_kept '': stored as UTC, and the column's metadata keeps the offset ('' offset s)
      | Tz_Mixed \<Rightarrow> (Some (DT_Timestamp u (Some ''UTC'')),
          add_sc_reason ''the values are in different time zones: stored as UTC, without their offsets'' s)
      | Tz_Inconsistent \<Rightarrow> (None, add_sc_reason some_have_zone s))"

text \<open>One candidate type: the Arrow type, or \<open>None\<close> to go on with the next.\<close>

definition choose_type :: "engine \<Rightarrow> value_stats \<Rightarrow> type_set \<Rightarrow> scalar \<Rightarrow> data_type option \<times> scalar" where
  "choose_type g stats candidate s =
     (let types = io_types (eg_options g); u = to_unit types;
          lossy = (to_lossless types = L_Lossy); temporal = stats_temporal stats;
          fraction_fits = (ts_max_fraction_digits temporal \<le> unit_digits u)
      in if candidate = TS_BOOL then (Some DT_Boolean, s)
         else if candidate = TS_INT then (Some (int_type g stats), s)
         else if candidate = TS_FLOAT then
           (Some DT_Float64,
            case vs_float_shape stats of Some f \<Rightarrow> add_sc_meta META_MAX_SCALE (show_nat (fs_max_scale f)) s | None \<Rightarrow> s)
         else if candidate = TS_DATE then choose_zoned lossy (ts_tz temporal) DT_Date32 s
         else if candidate = TS_TIME then
           (if \<not> fraction_fits \<and> \<not> lossy then (None, add_sc_reason (more_decimals ''times'' u) s)
            else choose_zoned lossy (ts_tz temporal)
                   (if u = Second \<or> u = Millisecond then DT_Time32 u else DT_Time64 u) s)
         else if candidate = TS_DATETIME then
           (if \<not> fraction_fits \<and> \<not> lossy then (None, add_sc_reason (more_decimals ''values'' u) s)
            else choose_datetime (ts_tz temporal) u s)
         else (None, s))"

fun choose_first ::
  "engine \<Rightarrow> value_stats \<Rightarrow> type_set \<Rightarrow> type_set list \<Rightarrow> scalar \<Rightarrow> data_type option \<times> scalar" where
  "choose_first g stats ts [] s = (None, s)"
| "choose_first g stats ts (c # cs) s =
     (if \<not> has_type ts c then choose_first g stats ts cs s
      else
        (case choose_type g stats c s of
           (Some t, s) \<Rightarrow> (Some t, s) | (None, s) \<Rightarrow> choose_first g stats ts cs s))"

definition candidate_types :: "type_set list" where
  "candidate_types = [TS_BOOL, TS_INT, TS_FLOAT, TS_DATE, TS_DATETIME, TS_TIME]"

definition level_of :: "lossless \<Rightarrow> candidates \<Rightarrow> type_set" where
  "level_of l c = (case l of L_Text \<Rightarrow> cd_exact_text c | L_Value \<Rightarrow> cd_exact_value c | L_Lossy \<Rightarrow> cd_lossy c)"

definition looks_leading_zero :: "bytes \<Rightarrow> bool" where
  "looks_leading_zero v \<longleftrightarrow> 1 < length v \<and> starts_with ''0'' v \<and> \<not> starts_with ''0.'' v"

text \<open>Why a column is text although every value fits a type with a loss.\<close>

definition lossy_reason :: "engine \<Rightarrow> value_stats \<Rightarrow> bytes" where
  "lossy_reason g stats =
     (let wanted = stats_types L_Lossy stats AND NOT TS_STRING;
          exact = (\<lambda>v. level_of (to_lossless (io_types (eg_options g))) (classify v));
          how = (case find (\<lambda>v. exact v AND wanted = 0) (bo_values (vs_distinct stats)) of
              Some v \<Rightarrow> if looks_leading_zero v then '': '' @ engine_debug g v @ '' would lose its leading zero''
                else '', like '' @ engine_debug g v
            | None \<Rightarrow> [])
      in ''they look like '' @ kind_of wanted @ '', but some would change if stored as such'' @ how)"

definition with_data_type :: "data_type \<Rightarrow> scalar \<Rightarrow> scalar" where
  "with_data_type t s = s\<lparr>sc_data_type := t\<rparr>"

definition first_reason :: "bytes \<Rightarrow> scalar \<Rightarrow> scalar" where
  "first_reason r s = s\<lparr>sc_reasons := r # sc_reasons s\<rparr>"

definition scalar_types :: "engine \<Rightarrow> value_stats \<Rightarrow> type_set" where
  "scalar_types g stats =
     (let types = io_types (eg_options g) in
      (stats_types (to_lossless types) stats AND to_enabled types) OR TS_STRING)"

definition too_few :: "engine \<Rightarrow> value_stats \<Rightarrow> nat option" where
  "too_few g stats =
     (case eg_sampled g of
        Some sample \<Rightarrow>
          if vs_count stats < sa_min_typed_values sample \<and> scalar_types g stats \<noteq> TS_STRING
          then Some (sa_min_typed_values sample) else None
      | None \<Rightarrow> None)"

definition scalar_of :: "engine \<Rightarrow> value_stats option \<Rightarrow> scalar" where
  "scalar_of g stats =
     (let s = \<lparr>sc_data_type = engine_string g, sc_metadata = [], sc_reasons = []\<rparr> in
      case (case stats of Some st \<Rightarrow> if 0 < vs_count st then Some st else None | None \<Rightarrow> None) of
        None \<Rightarrow> add_sc_reason NEVER_A_VALUE (with_data_type (all_null_type g) s)
      | Some st \<Rightarrow>
          (let (ts, s) = (case too_few g st of
               Some least \<Rightarrow> (TS_STRING, add_sc_reason
                 (''only '' @ show_nat (vs_count st) @ '' values in the sample, fewer than the '' @ show_nat least @
                  '' it takes to pick a type: text'') s)
             | None \<Rightarrow> (scalar_types g st, s))
           in case choose_first g st ts candidate_types s of
                (Some t, s) \<Rightarrow> with_data_type t (first_reason (values_text (vs_count st) ts) s)
              | (None, s) \<Rightarrow>
                  (let s = first_reason (values_text (vs_count st) ts) s
                   in if ts = TS_STRING \<and> stats_types L_Lossy st \<noteq> TS_STRING
                      then add_sc_reason (lossy_reason g st) s else s)))"

end
