(* ===== verification/Rules.thy ===== *)
theory Rules
  imports Rules_Types
begin

text \<open>
  The rule engine, third part: geometry columns, attributes, the walk over the tree of a layer and
  the schema made of its columns (\<open>infer_schema\<close>). The columns that the walk pushes to its \<open>out\<close>
  are the result of each function here; the walk ends since the height of the tree falls, and
  merging the wrappers of an element does not add to it (\<open>height_merge_le\<close>).
\<close>

subsection \<open>Geometry columns\<close>

definition geometry_srs :: "engine \<Rightarrow> geometry_stats \<Rightarrow> bytes option" where
  "geometry_srs g stats =
     (let geometry = io_geometry (eg_options g) in
      case go_target_crs geometry of Some srs \<Rightarrow> Some srs
      | None \<Rightarrow> (case go_crs_override geometry of Some srs \<Rightarrow> Some srs | None \<Rightarrow> main_srs stats))"

definition crs_metadata_of :: "engine \<Rightarrow> geometry_stats \<Rightarrow> crs_metadata" where
  "crs_metadata_of g stats =
     (case geometry_srs g stats of
        None \<Rightarrow> No_Crs
      | Some srs \<Rightarrow>
          (case sr_crs (parse_srs (ev_data (eg_env g)) srs) of
             Some crs \<Rightarrow> (case ev_projjson (eg_env g) crs of
                 Some v \<Rightarrow> Crs_Projjson v | None \<Rightarrow> Crs_Authority_Code (authority_code crs))
           | None \<Rightarrow> Crs_Unknown srs))"

definition dimension_of :: "geometry_stats \<Rightarrow> dimension" where
  "dimension_of stats = (if \<exists>d \<in> gs_dims stats. 3 \<le> d then Dim_XYZ else Dim_XY)"

datatype family = Family_Point | Family_Line | Family_Area

definition kind_family :: "geom_kind \<Rightarrow> (family \<times> bool) option" where
  "kind_family k =
     (case k of
        GK_Point \<Rightarrow> Some (Family_Point, False)
      | GK_MultiPoint \<Rightarrow> Some (Family_Point, True)
      | GK_LineString \<Rightarrow> Some (Family_Line, False)
      | GK_LinearRing \<Rightarrow> Some (Family_Line, False)
      | GK_Curve \<Rightarrow> Some (Family_Line, False)
      | GK_OrientableCurve \<Rightarrow> Some (Family_Line, False)
      | GK_CompositeCurve \<Rightarrow> Some (Family_Line, False)
      | GK_Ring \<Rightarrow> Some (Family_Line, False)
      | GK_MultiLineString \<Rightarrow> Some (Family_Line, True)
      | GK_MultiCurve \<Rightarrow> Some (Family_Line, True)
      | GK_Polygon \<Rightarrow> Some (Family_Area, False)
      | GK_Patch \<Rightarrow> Some (Family_Area, False)
      | GK_Envelope \<Rightarrow> Some (Family_Area, False)
      | GK_Box \<Rightarrow> Some (Family_Area, False)
      | GK_Surface \<Rightarrow> Some (Family_Area, True)
      | GK_OrientableSurface \<Rightarrow> Some (Family_Area, True)
      | GK_CompositeSurface \<Rightarrow> Some (Family_Area, True)
      | GK_MultiPolygon \<Rightarrow> Some (Family_Area, True)
      | GK_MultiSurface \<Rightarrow> Some (Family_Area, True)
      | GK_MultiGeometry \<Rightarrow> None
      | GK_Unsupported \<Rightarrow> None)"

fun native_loop :: "geom_kind list \<Rightarrow> family option \<Rightarrow> bool \<Rightarrow> (family option \<times> bool) option" where
  "native_loop [] fam multi = Some (fam, multi)"
| "native_loop (k # ks) fam multi =
     (case kind_family k of
        None \<Rightarrow> None
      | Some (f, m) \<Rightarrow>
          if fam \<noteq> None \<and> fam \<noteq> Some f then None else native_loop ks (Some f) (multi \<or> m))"

fun native_of :: "family \<Rightarrow> bool \<Rightarrow> native_kind" where
  "native_of Family_Point multi = (if multi then Native_MultiPoint else Native_Point)"
| "native_of Family_Line multi = (if multi then Native_MultiLineString else Native_LineString)"
| "native_of Family_Area multi = (if multi then Native_MultiPolygon else Native_Polygon)"

definition native_kind_of :: "geom_kind list \<Rightarrow> native_kind option" where
  "native_kind_of kinds =
     (case native_loop kinds None False of
        Some (Some fam, multi) \<Rightarrow> Some (native_of fam multi) | _ \<Rightarrow> None)"

text \<open>The kinds with the names \<open>{:?}\<close> gives them, in the order of a \<open>BTreeSet\<close>.\<close>

definition kind_names :: "(geom_kind \<times> bytes) list" where
  "kind_names =
     [(GK_Point, ''Point''), (GK_LineString, ''LineString''), (GK_LinearRing, ''LinearRing''), (GK_Polygon, ''Polygon''),
      (GK_Curve, ''Curve''), (GK_OrientableCurve, ''OrientableCurve''), (GK_CompositeCurve, ''CompositeCurve''),
      (GK_Ring, ''Ring''), (GK_Surface, ''Surface''), (GK_OrientableSurface, ''OrientableSurface''),
      (GK_CompositeSurface, ''CompositeSurface''), (GK_Patch, ''Patch''), (GK_MultiPoint, ''MultiPoint''),
      (GK_MultiLineString, ''MultiLineString''), (GK_MultiCurve, ''MultiCurve''), (GK_MultiPolygon, ''MultiPolygon''),
      (GK_MultiSurface, ''MultiSurface''), (GK_MultiGeometry, ''MultiGeometry''), (GK_Envelope, ''Envelope''),
      (GK_Box, ''Box''), (GK_Unsupported, ''Unsupported'')]"

definition sorted_kinds :: "geom_kind set \<Rightarrow> (geom_kind \<times> bytes) list" where
  "sorted_kinds kinds = filter (\<lambda>(k, _). k \<in> kinds) kind_names"

fun native_name :: "native_kind \<Rightarrow> bytes" where
  "native_name Native_Point = ''point''"
| "native_name Native_LineString = ''linestring''"
| "native_name Native_Polygon = ''polygon''"
| "native_name Native_MultiPoint = ''multipoint''"
| "native_name Native_MultiLineString = ''multilinestring''"
| "native_name Native_MultiPolygon = ''multipolygon''"

definition choose_encoding :: "engine \<Rightarrow> geometry_stats \<Rightarrow> bool \<Rightarrow> native_kind option \<times> bytes" where
  "choose_encoding g stats list =
     (let opts = eg_options g;
          linearize = (case go_curves (io_geometry opts) of Linearize _ \<Rightarrow> True | Preserve \<Rightarrow> False)
      in if list then (None, ''inside a repeated element: a list of geometries, as WKB'')
         else if io_geometry_encoding opts = Encoding_Wkb then (None, ''stored as WKB, as the geometry_encoding setting says'')
         else if eg_sampled g \<noteq> None then
           (None, ''stored as WKB: the schema comes from a sample, and later features may have other kinds of geometry'')
         else if gs_has_curves stats \<and> \<not> linearize then
           (None, ''stored as WKB: it has curves, which GeoArrow's native types can't hold'')
         else if gs_has_unsupported stats then
           (None, ''stored as WKB: some of its kinds of geometry have no native GeoArrow type'')
         else if gs_kinds stats = {} then (None, ''stored as WKB: no geometry seen to pick a type from'')
         else
           (case native_kind_of (map fst (sorted_kinds (gs_kinds stats))) of
              Some kind \<Rightarrow> (Some kind, ''every geometry fits GeoArrow's native '' @ native_name kind @ '' type'')
            | None \<Rightarrow> (None, ''stored as WKB: no one native GeoArrow type holds all its kinds of geometry'')))"

definition axis_context_of :: "engine \<Rightarrow> nat \<Rightarrow> axis_context" where
  "axis_context_of g source =
     (let contexts = do_source_context (eg_observation g) in
      if source < length contexts then
        (let c = contexts ! source in
         \<lparr>ax_fme_produced = sc_fme_produced c, ax_producer = sc_producer c, ax_wfs_version = sc_wfs_version c,
          ax_requested_srs = map_option (parse_srs (ev_data (eg_env g))) (sc_requested_srs c),
          ax_requested_bbox = sc_requested_bbox c, ax_source = None\<rparr>)
      else
        \<lparr>ax_fme_produced = False, ax_producer = None, ax_wfs_version = None, ax_requested_srs = None,
         ax_requested_bbox = None, ax_source = None\<rparr>)"

definition evidence_order :: "axis_column_key \<Rightarrow> nat \<times> bytes option \<times> nat" where
  "evidence_order k = (ck_source k, ck_srs_name k, case ck_dialect k of Gml2 \<Rightarrow> 0 | Gml3 \<Rightarrow> 1)"

definition axis_reason :: "engine \<Rightarrow> axis_column_key \<times> axis_evidence \<Rightarrow> bool \<times> bytes" where
  "axis_reason g ke =
     (let (k, evidence) = ke;
          decision = decide (ev_unicode (eg_env g)) (ev_data (eg_env g))
            \<lparr>ak_source = ck_source k, ak_srs_name = ck_srs_name k, ak_dialect = ck_dialect k\<rparr> evidence
            (axis_context_of g (ck_source k)) (go_axis (io_geometry (eg_options g)));
          srs = (case ck_srs_name k of Some s \<Rightarrow> s | None \<Rightarrow> ''no srsName'')
      in (ad_swap decision,
          srs @ '': '' @ ad_reason decision @
          (if ad_conflicts decision \<noteq> [] then ''; against it: '' @ join_with ''; '' (ad_conflicts decision) else [])))"

definition column_axis :: "engine \<Rightarrow> geometry_stats \<Rightarrow> bytes \<times> bytes" where
  "column_axis g stats =
     (let decisions = map (axis_reason g) (sort_key (\<lambda>(k, _). evidence_order k) (gs_axis_evidence stats));
          swaps = map fst decisions
      in (if True \<in> set swaps then (if False \<in> set swaps then ''mixed'' else ''true'') else ''false'',
          if decisions = [] then ''no coordinates seen'' else join_with ''; '' (map snd decisions)))"

definition geometry_summary :: "geometry_stats \<Rightarrow> bytes" where
  "geometry_summary stats =
     plural (gs_count stats) ''geometry'' @ '' ('' @ join_with '', '' (map snd (sorted_kinds (gs_kinds stats))) @ ''), '' @
     join_with '' and '' (map (\<lambda>d. show_nat d @ ''D'') (sorted_list_of_set (gs_dims stats)))"

definition geometry_col :: "engine \<Rightarrow> geometry_stats \<Rightarrow> path_step list \<Rightarrow> nat option \<Rightarrow> col" where
  "geometry_col g stats steps anchor =
     (let (native, why) = choose_encoding g stats (anchor \<noteq> None);
          metadata = crs_metadata_of g stats;
          field = (case native of
              None \<Rightarrow> ev_wkb_field (eg_env g) metadata ''geometry''
            | Some kind \<Rightarrow> ev_native_field (eg_env g) kind (dimension_of stats) metadata ''geometry'');
          spellings = length (gs_srs stats);
          (meta, srs_reasons) = (case geometry_srs g stats of
              Some srs \<Rightarrow> ([(META_SRS_NAME, srs)],
                if 1 < spellings then
                  [show_nat spellings @ '' different srsNames'' @
                   (if go_target_crs (io_geometry (eg_options g)) \<noteq> None
                    then '', all converted to '' @ engine_debug g srs
                    else '': the column's CRS is '' @ engine_debug g srs @ [apos_char] @ ''s'')]
                else [])
            | None \<Rightarrow> ([], []));
          (swapped, decision) = column_axis g stats
      in (new_col steps anchor DT_Null)\<lparr>co_kind := Field_Col field,
            co_metadata := AList.update META_AXIS_DECISION decision (AList.update META_AXIS_SWAPPED swapped meta),
            co_reasons := [geometry_summary stats, why] @ srs_reasons @ [''axis order of '' @ decision]\<rparr>)"

subsection \<open>Attributes\<close>

definition shared_locals :: "qname list \<Rightarrow> bytes set" where
  "shared_locals names = {l \<in> set (map qlocal names). 1 < count_list (map qlocal names) l}"

definition is_href :: "qname \<Rightarrow> bool" where
  "is_href name \<longleftrightarrow> qns name = Some NS_XLINK \<and> qlocal name = ''href''"

definition attribute_listed :: "(bytes \<times> bytes) list \<Rightarrow> qname \<Rightarrow> bytes list \<Rightarrow> bool" where
  "attribute_listed prefixes name entries \<longleftrightarrow>
     list_ex (\<lambda>entry. let entry = (case strip_prefix ''@'' entry of Some e \<Rightarrow> e | None \<Rightarrow> entry)
       in entry = qlocal name \<or> entry = to_clark name \<or> entry = prefixed_name prefixes name) entries"

definition keep_attribute :: "engine \<Rightarrow> qname \<Rightarrow> bool" where
  "keep_attribute g name \<longleftrightarrow>
     (let gml = io_gml (eg_options g); l = qlocal name in
      if qns name = Some NS_XSI \<or> (qns name = None \<and> l = ''nilReason'') then False
      else if is_gml_id name then gm_gml_id gml = Id_Column
      else if qns name = Some NS_XLINK then
        (if l = ''href'' then gm_xlink gml \<noteq> Xlink_Drop
         else if l \<in> {''title'', ''role'', ''arcrole''} then gm_xlink gml = Xlink_Full
         else gm_xlink gml \<noteq> Xlink_Drop \<and> \<not> gm_drop_control_attributes gml)
      else if l \<in> {''owns'', ''remoteSchema'', ''aggregationType''} \<and> (qns name = None \<or> is_gml name)
              \<and> gm_drop_control_attributes gml then False
      else
        (case so_xml_attributes (io_structure (eg_options g)) of
           Attr_All \<Rightarrow> True
         | Attr_None \<Rightarrow> False
         | Attr_Only entries \<Rightarrow> attribute_listed (eg_prefixes g) name entries
         | Attr_Except entries \<Rightarrow> \<not> attribute_listed (eg_prefixes g) name entries))"

record attribute_cols =
  ac_cols :: "col list"
  ac_constants :: "(bytes \<times> bytes \<times> col) list"

definition push_reason :: "bytes \<Rightarrow> col \<Rightarrow> col" where
  "push_reason r c = c\<lparr>co_reasons := co_reasons c @ [r]\<rparr>"

definition front_reasons :: "bytes list \<Rightarrow> col \<Rightarrow> col" where
  "front_reasons rs c = c\<lparr>co_reasons := rs @ co_reasons c\<rparr>"

definition attribute_col ::
  "engine \<Rightarrow> element_node \<Rightarrow> path_step list \<Rightarrow> nat option \<Rightarrow> bool \<Rightarrow> plan \<Rightarrow> qname \<times> value_stats \<Rightarrow> col" where
  "attribute_col g node steps anchor prefixed plan a =
     (let (name, stats) = a;
          sc = scalar_of g (Some stats);
          by_reference = (is_href name \<and> node_shape node = ByReferenceOnly);
          feature_id = (steps = [] \<and> qns name = None \<and> qlocal name = ''fid'' \<and>
            \<not> list_ex (\<lambda>(n, _). is_gml_id n) (nf_attributes (en_facts node)));
          c = (new_col steps anchor (case pl_data_type plan of Some t \<Rightarrow> t | None \<Rightarrow> sc_data_type sc))
            \<lparr>co_attribute := Some (name, prefixed), co_by_reference := by_reference, co_feature_id := feature_id,
             co_metadata := insert_all (sc_metadata sc) [], co_reasons := pl_reasons plan @ sc_reasons sc\<rparr>;
          c = (if feature_id then front_reasons [''the feature's id, written as fid (GML 2's name for it)''] c else c)
      in if by_reference then
           front_reasons
             [''always a link to another object (xlink:href), never a value itself: the column holds the link'' @
              (if gm_strip_local_href_hash (io_gml (eg_options g))
               then '', without the leading '#' of links within the file'' else [])] c
         else c)"

definition constant_value :: "engine \<Rightarrow> element_node \<Rightarrow> plan \<Rightarrow> col \<Rightarrow> qname \<times> value_stats \<Rightarrow> bytes option" where
  "constant_value g node plan c a =
     (let (name, stats) = a in
      if so_constant_attrs (io_structure (eg_options g)) = To_Field_Metadata \<and> \<not> is_gml_id name \<and>
         \<not> co_feature_id c \<and> \<not> is_href name \<and> vs_count stats = nf_instances (en_facts node) \<and> pl_data_type plan = None
      then bounded_single (vs_distinct stats) else None)"

definition add_attribute ::
  "engine \<Rightarrow> element_node \<Rightarrow> path_step list \<Rightarrow> nat option \<Rightarrow> bytes set \<Rightarrow> qname \<times> value_stats
   \<Rightarrow> attribute_cols \<Rightarrow> attribute_cols" where
  "add_attribute g node steps anchor shared a out =
     (let name = fst a; plan = plan_for g steps (Some name) in
      if pl_drop plan then out
      else
        (let prefixed = (qlocal name \<in> shared);
             c = attribute_col g node steps anchor prefixed plan a
         in case constant_value g node plan c a of
              Some v \<Rightarrow> out\<lparr>ac_constants := ac_constants out @
                [(META_ATTR_PREFIX @ display_name (eg_prefixes g) name prefixed, v, c)]\<rparr>
            | None \<Rightarrow> out\<lparr>ac_cols := ac_cols out @ [c]\<rparr>))"

definition attribute_columns :: "engine \<Rightarrow> element_node \<Rightarrow> path_step list \<Rightarrow> nat option \<Rightarrow> attribute_cols" where
  "attribute_columns g node steps anchor =
     (let kept = filter (\<lambda>(name, _). keep_attribute g name) (nf_attributes (en_facts node));
          shared = shared_locals (map fst kept)
      in fold (add_attribute g node steps anchor shared) kept \<lparr>ac_cols = [], ac_constants = []\<rparr>)"

definition constant_cols :: "attribute_cols \<Rightarrow> col list" where
  "constant_cols a = map (\<lambda>(_, _, c). c) (ac_constants a)"

definition nil_reason_cols :: "engine \<Rightarrow> element_node \<Rightarrow> path_step list \<Rightarrow> nat option \<Rightarrow> col list" where
  "nil_reason_cols g node steps anchor =
     (let name = mk_qname None ''nilReason''; f = en_facts node;
          seen = (map_of (nf_attributes f) name \<noteq> None)
      in if \<not> gm_nil_reason (io_gml (eg_options g)) \<or> (ni_reasons (nf_nil f) = [] \<and> \<not> seen) then []
         else [push_reason (''the reason given (nilReason) for its '' @ plural (ni_count (nf_nil f)) ''missing value'')
                 ((new_col steps anchor (engine_string g))\<lparr>co_attribute := Some (name, False)\<rparr>)])"

subsection \<open>Elements\<close>

text \<open>The height of a tree, on which the recursion below rests: merging wrappers does not add to it.\<close>

function node_height :: "element_node \<Rightarrow> nat" where
  "node_height (Element_Node f children) = Suc (foldr max (map (\<lambda>(name, child). node_height child) children) 0)"
  by pat_completeness auto
termination
proof (relation "measure size", goal_cases)
  case 1
  then show ?case by simp
next
  case (2 f children kv name child)
  have "size child \<le> size_list (size_prod (\<lambda>x. 0) size) children"
    using 2 by (intro size_list_estimation') auto
  then show ?case by simp
qed

declare node_height.simps [simp del]

lemma foldr_max_le: "foldr max xs (0 :: nat) \<le> n \<longleftrightarrow> (\<forall>x \<in> set xs. x \<le> n)"
  by (induction xs) auto

lemma height_le: "node_height n \<le> Suc h \<longleftrightarrow> (\<forall>kv \<in> set (en_children n). node_height (snd kv) \<le> h)"
  by (cases n) (auto simp: node_height.simps foldr_max_le)

lemma height_child: "kv \<in> set (en_children n) \<Longrightarrow> node_height (snd kv) < node_height n"
  using height_le [of n "node_height n - 1"] by (cases n) (auto simp: node_height.simps)

lemma update_all: "P (k, v) \<Longrightarrow> \<forall>kv \<in> set m. P kv \<Longrightarrow> \<forall>kv \<in> set (AList.update k v m). P kv"
  by (induction m) auto

lemma fold_merge_all:
  assumes "\<And>x kv. kv \<in> set others \<Longrightarrow> Q x \<Longrightarrow> Q (f x (snd kv))"
    and "\<forall>kv \<in> set others. R (fst kv) \<and> Q (snd kv)" "\<forall>kv \<in> set (fst st). R (fst kv) \<and> Q (snd kv)"
  shows "\<forall>kv \<in> set (fst (fold (merge_entry f) others st)). R (fst kv) \<and> Q (snd kv)"
  using assms
proof (induction others arbitrary: st)
  case (Cons kv others)
  have kv: "R (fst kv)" "Q (snd kv)" using Cons.prems(2) by auto
  have "\<forall>kv' \<in> set (fst (merge_entry f kv st)). R (fst kv') \<and> Q (snd kv')"
  proof (cases "map_of (fst st) (fst kv)")
    case None
    then show ?thesis using Cons.prems(3) kv by (auto simp: merge_entry_def split_def)
  next
    case (Some x)
    have "Q x" using bspec [OF Cons.prems(3) map_of_SomeD [OF Some]] by simp
    then have "Q (f x (snd kv))" by (rule Cons.prems(1) [of kv, OF list.set_intros(1)])
    then have "\<forall>kv' \<in> set (AList.update (fst kv) (f x (snd kv)) (fst st)). R (fst kv') \<and> Q (snd kv')"
      using Cons.prems(3) kv by (intro update_all) auto
    then show ?thesis using Some by (simp add: merge_entry_def split_def)
  qed
  then have "\<forall>kv' \<in> set (fst (fold (merge_entry f) others (merge_entry f kv st))). R (fst kv') \<and> Q (snd kv')"
  proof (rule Cons.IH [rotated 2])
    show "Q (f x (snd kv'))" if "kv' \<in> set others" "Q x" for x kv'
      using that by (intro Cons.prems(1)) simp_all
    show "\<forall>kv \<in> set others. R (fst kv) \<and> Q (snd kv)" using Cons.prems(2) by simp
  qed
  then show ?case by simp
qed simp

lemma height_merge_le:
  "node_height a \<le> h \<Longrightarrow> node_height b \<le> h \<Longrightarrow> node_height (merge_node a b) \<le> h"
proof (induction a b arbitrary: h rule: merge_node.induct)
  case (1 f children g others)
  then obtain h' where h: "h = Suc h'" by (cases h) (auto simp: node_height.simps)
  have "\<forall>kv \<in> set (fst (index_merge merge_node children others)). True \<and> node_height (snd kv) \<le> h'"
    unfolding index_merge_def
    by (rule fold_merge_all) (use 1 in \<open>auto simp: h height_le\<close>)
  then show ?case
    by (auto simp: h height_le merge_node.simps split_def Let_def)
qed

definition merge_wrappers :: "(qname \<times> element_node) list \<Rightarrow> element_node" where
  "merge_wrappers wrappers = fold (\<lambda>(name, other) merged. merge_node merged other) (tl wrappers) (snd (hd wrappers))"

lemma merge_wrappers_height:
  assumes "en_children n \<noteq> []"
  shows "node_height (merge_wrappers (en_children n)) < node_height n"
proof -
  obtain h where h: "node_height n = Suc h" by (cases n) (auto simp: node_height.simps)
  have "\<forall>kv \<in> set (en_children n). node_height (snd kv) \<le> h" using height_le [of n h] h by simp
  moreover have "node_height m \<le> h \<Longrightarrow> \<forall>kv \<in> set ws. node_height (snd kv) \<le> h \<Longrightarrow>
      node_height (fold (\<lambda>(name, other) merged. merge_node merged other) ws m) \<le> h" for ws :: "(qname \<times> element_node) list" and m
    by (induction ws arbitrary: m) (auto simp: height_merge_le)
  ultimately have "node_height (merge_wrappers (en_children n)) \<le> h"
    using assms unfolding merge_wrappers_def by (cases "en_children n") auto
  then show ?thesis by (simp add: h)
qed

definition map_type :: "data_type \<Rightarrow> data_type" where
  "map_type string =
     DT_Map (new_field ''entries'' (DT_Struct [new_field ''key'' string False, new_field ''value'' string True]) False) False"

definition front_first :: "bytes list \<Rightarrow> col list \<Rightarrow> col list" where
  "front_first rs cols = (case cols of [] \<Rightarrow> [] | c # cs \<Rightarrow> front_reasons rs c # cs)"

definition bounded_by_cols :: "engine \<Rightarrow> element_node \<Rightarrow> path_step list \<Rightarrow> col list" where
  "bounded_by_cols g node steps =
     (case nf_geometry (en_facts node) of
        None \<Rightarrow> []
      | Some stats \<Rightarrow>
          (case gm_bounded_by (io_gml (eg_options g)) of
             Bounded_Drop \<Rightarrow> []
           | Bounded_Geometry \<Rightarrow> [geometry_col g stats steps None]
           | Bounded_BoxStruct \<Rightarrow>
               [push_reason ''the feature's gml:boundedBy, as a box (its corners' coordinates)''
                  ((new_col steps None DT_Null)\<lparr>co_kind := Field_Col
                     (ev_box_field (eg_env g) (dimension_of stats) (crs_metadata_of g stats) ''boundedBy'')\<rparr>)]))"

definition parent_text :: "path_step list \<Rightarrow> bytes" where
  "parent_text steps =
     (if length steps \<le> 1 then ''feature'' else qlocal (sp_name (steps ! (length steps - 2))) @ '' element'')"

definition missing_reason :: "element_node \<Rightarrow> path_step list \<Rightarrow> nat \<Rightarrow> bytes list" where
  "missing_reason node steps parent_instances =
     (let with_it = nf_parents_with (en_facts node); missing = parent_instances - with_it in
      if with_it < parent_instances then
        [thousands missing @ '' of '' @ thousands parent_instances @ '' '' @ parent_text steps @ ''s ('' @
         share missing parent_instances @ '') '' @ (if missing = 1 then ''is'' else ''are'') @ '' missing a value (null)'']
      else [])"

text \<open>Whether an element is the anchor of a list, and why.\<close>

definition element_anchor ::
  "engine \<Rightarrow> element_node \<Rightarrow> path_step list \<Rightarrow> nat option \<Rightarrow> plan \<Rightarrow> nat option \<times> bytes list" where
  "element_anchor g node steps anchor plan =
     (let f = en_facts node; repeated = (1 < nf_max_occurs f);
          times = ''occurs up to '' @ show_nat (nf_max_occurs f) @ '' times in one '' @ parent_text steps
      in if (case pl_list plan of Some l \<Rightarrow> l
             | None \<Rightarrow> repeated \<and> so_lists (io_structure (eg_options g)) = List_Infer)
         then
           (Some (length steps - 1),
            if repeated then
              [''a list, one item per '' @ qlocal (sp_name (last steps)) @ '': it '' @ times @
               (case nf_first_multi f of Some l \<Rightarrow> ''; the first repeat: '' @ show_location l | None \<Rightarrow> [])]
            else [])
         else
           (anchor, if repeated then [times @ '', but lists are off: a feature where it repeats is an error''] else []))"

text \<open>The element's own column, if it has one; \<open>alone\<close>: it has no attribute columns.\<close>

definition own_col :: "engine \<Rightarrow> element_node \<Rightarrow> path_step list \<Rightarrow> nat option \<Rightarrow> plan \<Rightarrow> bool \<Rightarrow> col option" where
  "own_col g node steps anchor plan alone =
     (let given = (\<lambda>t. case pl_data_type plan of Some t \<Rightarrow> t | None \<Rightarrow> t) in
      case node_shape node of
        TextOnly \<Rightarrow>
          (let sc = scalar_of g (nf_text (en_facts node)) in
           Some ((new_col steps anchor (given (sc_data_type sc)))\<lparr>co_metadata := insert_all (sc_metadata sc) [], co_reasons := sc_reasons sc\<rparr>))
      | TextAndAttributes \<Rightarrow>
          (let sc = scalar_of g (nf_text (en_facts node)) in
           Some ((new_col steps anchor (given (sc_data_type sc)))\<lparr>co_metadata := insert_all (sc_metadata sc) [], co_reasons := sc_reasons sc\<rparr>))
      | Mixed \<Rightarrow>
          (case so_mixed_content (io_structure (eg_options g)) of
             Raw_Xml \<Rightarrow> Some (push_reason ''text mixed with child elements: kept as raw XML'' (new_col steps anchor (engine_string g)))
           | Text_Only \<Rightarrow>
               Some (push_reason ''text mixed with child elements: only the text is kept''
                 ((new_col steps anchor (engine_string g))\<lparr>co_metadata := [(META_CONTENT, ''text'')]\<rparr>))
           | Drop_Mixed \<Rightarrow> None)
      | EmptyShape \<Rightarrow>
          (if alone then Some (push_reason NEVER_A_VALUE (new_col steps anchor (given (all_null_type g)))) else None)
      | _ \<Rightarrow> None)"

definition keep_constant :: "engine \<Rightarrow> bytes \<times> bytes \<times> col \<Rightarrow> col \<Rightarrow> col" where
  "keep_constant g kvc c =
     (let (k, v, _) = kvc; name = (case strip_prefix META_ATTR_PREFIX k of Some n \<Rightarrow> n | None \<Rightarrow> k) in
      (push_reason (''its '' @ name @ '' attribute is always '' @ engine_debug g v @
         '': kept once, in the column's metadata ('' @ k @ ''), not as a column'') c)
        \<lparr>co_metadata := AList.update k v (co_metadata c)\<rparr>)"

definition own_and_attributes :: "engine \<Rightarrow> attribute_cols \<Rightarrow> col option \<Rightarrow> col list" where
  "own_and_attributes g attributes own =
     (case own of
        Some c \<Rightarrow> fold (keep_constant g) (ac_constants attributes) c # ac_cols attributes
      | None \<Rightarrow> ac_cols attributes @ constant_cols attributes)"

definition wrapper_reason :: "(qname \<times> element_node) list \<Rightarrow> bytes" where
  "wrapper_reason wrappers =
     (case map (\<lambda>(name, _). qlocal name) wrappers of
        [one] \<Rightarrow> ''the value sits inside the element '' @ one @ '', which the column skips''
      | many \<Rightarrow> ''the value sits inside one of the elements '' @ join_with '', '' many @ '', which the column skips'')"

function
  children_cols :: "engine \<Rightarrow> element_node \<Rightarrow> path_step list \<Rightarrow> nat option \<Rightarrow> col list"
  and element_cols :: "engine \<Rightarrow> element_node \<Rightarrow> path_step list \<Rightarrow> nat option \<Rightarrow> nat \<Rightarrow> col list"
  and content_cols :: "engine \<Rightarrow> element_node \<Rightarrow> path_step list \<Rightarrow> nat option \<Rightarrow> plan \<Rightarrow> col list"
  and wrapper_cols :: "engine \<Rightarrow> element_node \<Rightarrow> path_step list \<Rightarrow> nat option \<Rightarrow> col list"
  and own_content_cols :: "engine \<Rightarrow> element_node \<Rightarrow> path_step list \<Rightarrow> nat option \<Rightarrow> plan \<Rightarrow> col list"
where
  "children_cols g node steps anchor =
     (let shared = shared_locals (map fst (en_children node)) in
      concat (map (\<lambda>kv.
        let name = fst kv; child = snd kv;
            child_steps = steps @ [\<lparr>sp_name = name, sp_wrapper = False, sp_prefixed = (qlocal name \<in> shared)\<rparr>]
        in if steps = [] \<and> is_gml_named name ''boundedBy'' then bounded_by_cols g child child_steps
           else element_cols g child child_steps anchor (nf_instances (en_facts node))) (en_children node)))"
| "element_cols g node steps anchor parent_instances =
     (let plan = plan_for g steps None in
      if pl_drop plan then []
      else
        (let (anchor, list_reasons) = element_anchor g node steps anchor plan in
         front_first (pl_reasons plan @ missing_reason node steps parent_instances @ list_reasons)
           (content_cols g node steps anchor plan)))"
| "content_cols g node steps anchor plan =
     (let string = engine_string g; f = en_facts node;
          leaf = (\<lambda>t reason. [push_reason reason (new_col steps anchor t)])
      in if pl_raw_xml plan then leaf string ''kept as raw XML''
         else if pl_map plan then leaf (map_type string) ''a map from each path below it to its text''
         else
           (case nf_geometry f of
              Some stats \<Rightarrow>
                (case pl_data_type plan of
                   Some t \<Rightarrow> leaf t ''a geometry, with the override's type''
                 | None \<Rightarrow> [geometry_col g stats steps anchor])
            | None \<Rightarrow>
                if nf_truncated f then
                  leaf (map_type string) ''nested too deeply, or too many different child elements, for columns: a map from each path below it to its text''
                else if is_gml_named (sp_name (last steps)) ''metaDataProperty'' then
                  leaf string ''gml:metaDataProperty, kept as raw XML''
                else if so_collapse_type_wrappers (io_structure (eg_options g)) \<and> is_type_wrapper node
                then wrapper_cols g node steps anchor
                else own_content_cols g node steps anchor plan))"
| "wrapper_cols g node steps anchor =
     (let attributes = attribute_columns g node steps anchor in
      ac_cols attributes @ constant_cols attributes @ nil_reason_cols g node steps anchor @
      (if en_children node = [] then []
       else
         front_first [wrapper_reason (en_children node)]
           (own_content_cols g (merge_wrappers (en_children node))
              (steps @ [\<lparr>sp_name = fst (hd (en_children node)), sp_wrapper = True, sp_prefixed = False\<rparr>])
              anchor default_plan)))"
| "own_content_cols g node steps anchor plan =
     (let attributes = attribute_columns g node steps anchor in
      own_and_attributes g attributes (own_col g node steps anchor plan (ac_cols attributes = [])) @
      nil_reason_cols g node steps anchor @ children_cols g node steps anchor)"
  by pat_completeness auto
termination
  by (relation "measures
      [\<lambda>x. case x of Inl (Inl (g, n, _)) \<Rightarrow> node_height n | Inl (Inr (g, n, _)) \<Rightarrow> node_height n
         | Inr (Inl (g, n, _)) \<Rightarrow> node_height n | Inr (Inr (Inl (g, n, _))) \<Rightarrow> node_height n
         | Inr (Inr (Inr (g, n, _))) \<Rightarrow> node_height n,
       \<lambda>x. case x of Inl (Inl _) \<Rightarrow> 0 | Inl (Inr _) \<Rightarrow> 3 | Inr (Inl _) \<Rightarrow> 2
         | Inr (Inr (Inl _)) \<Rightarrow> 1 | Inr (Inr (Inr _)) \<Rightarrow> (1 :: nat)]")
    (auto simp: height_child merge_wrappers_height)

declare children_cols.simps [simp del] element_cols.simps [simp del] content_cols.simps [simp del]
  wrapper_cols.simps [simp del] own_content_cols.simps [simp del]

subsection \<open>Schemas\<close>

definition version_name :: "gml_version \<Rightarrow> bytes" where
  "version_name v = (case v of V2 \<Rightarrow> ''2'' | V3_0 \<Rightarrow> ''3.0'' | V3_1 \<Rightarrow> ''3.1'' | V3_2 \<Rightarrow> ''3.2'' | V3_3 \<Rightarrow> ''3.3'')"

definition layer_engine ::
  "rule_env \<Rightarrow> dataset_observation \<Rightarrow> qname \<Rightarrow> layer_observation \<Rightarrow> inference_options \<Rightarrow> sample_options option \<Rightarrow> engine" where
  "layer_engine env observation layer lo opts sampled =
     \<lparr>eg_env = env, eg_observation = observation, eg_options = for_layer (to_clark layer) opts,
      eg_sampled = (case sampled of Some s \<Rightarrow> if sa_conservative s then Some s else None | None \<Rightarrow> None),
      eg_layer_clark = to_clark layer, eg_prefixes = prefixes_for_layer observation (lo_root lo)\<rparr>"

definition layer_cols :: "engine \<Rightarrow> element_node \<Rightarrow> col list" where
  "layer_cols g root =
     (let attributes = attribute_columns g root [] None
      in ac_cols attributes @ constant_cols attributes @ children_cols g root [] None)"

definition cols_fields :: "(bytes \<times> bytes) list \<Rightarrow> col list \<Rightarrow> (arrow_field \<times> bytes list) list" where
  "cols_fields prefixes cols =
     map2 (\<lambda>c name. into_field name (path_string prefixes c) c) cols (column_names prefixes cols)"

definition cols_namespaces :: "(bytes \<times> bytes) list \<Rightarrow> col list \<Rightarrow> (bytes \<times> bytes) list" where
  "cols_namespaces prefixes cols = fold (\<lambda>c. insert_all (prefixes_used prefixes c)) cols []"

definition cols_schema :: "engine \<Rightarrow> col list \<Rightarrow> arrow_schema" where
  "cols_schema g cols =
     (let versions = filter (\<lambda>v. v \<in> do_gml_versions (eg_observation g)) [V2, V3_0, V3_1, V3_2, V3_3];
          namespaces = cols_namespaces (eg_prefixes g) cols
      in \<lparr>as_fields = map fst (cols_fields (eg_prefixes g) cols),
          as_metadata =
            (if versions \<noteq> [] then [(META_VERSIONS, join_with '','' (map version_name versions))] else []) @
            (if namespaces \<noteq> [] then [(META_NS, js_write (ev_json (eg_env g)) namespaces)] else [])\<rparr>)"

definition infer_schema ::
  "rule_env \<Rightarrow> dataset_observation \<Rightarrow> qname \<Rightarrow> inference_options \<Rightarrow> sample_options option \<Rightarrow> schema_error + layer_schema" where
  "infer_schema env observation layer opts sampled =
     (case map_of (do_layers observation) layer of
        None \<Rightarrow> Inl (Layer_Not_Found layer)
      | Some lo \<Rightarrow>
          (let g = layer_engine env observation layer lo opts sampled;
               cols = layer_cols g (lo_root lo);
               names = column_names (eg_prefixes g) cols;
               decisions = map2 (\<lambda>name (_, reasons). \<lparr>fx_field = name, fx_reasons = reasons\<rparr>)
                 names (cols_fields (eg_prefixes g) cols)
           in map_sum id (\<lambda>bound. bound\<lparr>ls_decisions := decisions\<rparr>)
                (bind_schema (ev_json env) layer (cols_schema g cols))))"

end
