(* ===== verification/Rules_Laws.thy ===== *)
theory Rules_Laws
  imports Rules Value_Laws
begin

text \<open>
  Laws of the rule engine: the names of the columns, and the type of a scalar column against the
  values it was chosen from.
\<close>

subsection \<open>Column names\<close>

definition tag_name :: "bytes \<Rightarrow> nat \<Rightarrow> bytes" where
  "tag_name name n = (if n = 1 then name else name @ ''#'' @ show_nat n)"

lemma tag_name_inj:
  assumes "CHR ''#'' \<notin> set a" "CHR ''#'' \<notin> set b" "0 < m" "0 < n" "tag_name a m = tag_name b n"
  shows "a = b \<and> m = n"
proof -
  have hash: "takeWhile (\<lambda>c. c \<noteq> CHR ''#'') (tag_name x k) = x" if "CHR ''#'' \<notin> set x" for x k
  proof -
    have "takeWhile (\<lambda>c. c \<noteq> CHR ''#'') (x @ y) = x @ takeWhile (\<lambda>c. c \<noteq> CHR ''#'') y" for y
      using that by (intro takeWhile_append2) auto
    from this [of "[]"] this [of "''#'' @ show_nat k"] show ?thesis by (auto simp: tag_name_def)
  qed
  have ab: "a = b" using hash [OF assms(1), of m] hash [OF assms(2), of n] assms(5) by simp
  have "show_nat m = show_nat n \<Longrightarrow> m = n" using digits_val_show_nat by metis
  then show ?thesis using assms(5) ab by (auto simp: tag_name_def split: if_splits)
qed

lemma number_names_tag:
  "x \<in> set (number_names seen names) \<Longrightarrow> \<exists>name \<in> set names. \<exists>n. x = tag_name name n \<and> count_list seen name < n"
proof (induction names arbitrary: seen)
  case (Cons name names)
  show ?case
  proof (cases "x = tag_name name (count_list seen name + 1)")
    case False
    then have "x \<in> set (number_names (name # seen) names)"
      using Cons.prems by (auto simp: tag_name_def Let_def split: if_splits)
    from Cons.IH [OF this] show ?thesis by (force split: if_splits)
  qed force
qed simp

lemma number_names_nth:
  "i < length names \<Longrightarrow> number_names seen names ! i =
     tag_name (names ! i) (count_list seen (names ! i) + count_list (take i names) (names ! i) + 1)"
proof (induction names arbitrary: seen i)
  case (Cons name names)
  then show ?case by (cases i) (auto simp: tag_name_def Let_def)
qed simp

lemma length_number_names [simp]: "length (number_names seen names) = length names"
  by (induction names arbitrary: seen) (auto simp: Let_def)

lemma number_names_distinct:
  "\<forall>name \<in> set names. CHR ''#'' \<notin> set name \<Longrightarrow> distinct (number_names seen names)"
proof (induction names arbitrary: seen)
  case (Cons name names)
  have "tag_name name (count_list seen name + 1) \<notin> set (number_names (name # seen) names)"
  proof
    assume "tag_name name (count_list seen name + 1) \<in> set (number_names (name # seen) names)"
    then obtain other n where o: "other \<in> set names" "tag_name name (count_list seen name + 1) = tag_name other n"
      "count_list (name # seen) other < n" using number_names_tag by blast
    then have "name = other \<and> count_list seen name + 1 = n"
      using Cons.prems by (intro tag_name_inj) auto
    then show False using o(3) by auto
  qed
  then show ?case using Cons by (simp add: tag_name_def Let_def)
qed simp

lemma length_grow_names [simp]: "length steps = length taken \<Longrightarrow> length (grow_names steps taken) = length taken"
  by (simp add: grow_names_def Let_def)

lemma grow_names_nth:
  "length steps = length taken \<Longrightarrow> i < length taken \<Longrightarrow> grow_names steps taken ! i =
     (if 1 < count_list (map2 last_steps steps taken) (last_steps (steps ! i) (taken ! i)) \<and> taken ! i < length (steps ! i)
      then taken ! i + 1 else taken ! i)"
  by (simp add: grow_names_def Let_def)

definition taken_in_range :: "bytes list list \<Rightarrow> nat list \<Rightarrow> bool" where
  "taken_in_range steps taken \<longleftrightarrow> length taken = length steps \<and> (\<forall>i < length steps. 1 \<le> taken ! i \<and> taken ! i \<le> length (steps ! i))"

lemma name_loop_ok: "taken_in_range steps taken \<Longrightarrow> taken_in_range steps (name_loop steps taken)"
proof (induction steps taken rule: name_loop.induct)
  case (1 steps taken)
  let ?taken = "grow_names steps taken"
  have "taken_in_range steps ?taken" using 1(2) by (auto simp: taken_in_range_def grow_names_nth)
  then show ?case using 1 by (subst name_loop.simps) (auto simp: Let_def)
qed

lemma name_loop_fixed:
  "length taken = length steps \<Longrightarrow> grow_names steps (name_loop steps taken) = name_loop steps taken"
proof (induction steps taken rule: name_loop.induct)
  case (1 steps taken)
  then show ?case by (subst (1 2) name_loop.simps) (auto simp: Let_def)
qed

lemma join_with_set: "set (join_with sep ws) \<subseteq> set sep \<union> \<Union> (set ` set ws)"
  by (induction sep ws rule: join_with.induct) auto

lemma count_list_other:
  assumes "i < length xs"
  shows "1 < count_list xs (xs ! i) \<longleftrightarrow> (\<exists>i' < length xs. i' \<noteq> i \<and> xs ! i' = xs ! i)"
proof -
  let ?x = "xs ! i"
  have split: "xs = take i xs @ ?x # drop (Suc i) xs" by (rule id_take_nth_drop [OF assms])
  have "count_list xs ?x = count_list (take i xs) ?x + 1 + count_list (drop (Suc i) xs) ?x"
    by (subst split) (simp add: count_list_append)
  then have "1 < count_list xs ?x \<longleftrightarrow> ?x \<in> set (take i xs) \<or> ?x \<in> set (drop (Suc i) xs)"
    by (auto simp: count_list_0_iff) (metis count_list_0_iff neq0_conv)+
  also have "\<dots> \<longleftrightarrow> (\<exists>i' < length xs. i' \<noteq> i \<and> xs ! i' = ?x)"
  proof
    assume "?x \<in> set (take i xs) \<or> ?x \<in> set (drop (Suc i) xs)"
    then show "\<exists>i' < length xs. i' \<noteq> i \<and> xs ! i' = ?x"
    proof
      assume "?x \<in> set (take i xs)"
      then obtain k where "k < i" "xs ! k = ?x" by (auto simp: in_set_conv_nth)
      then show ?thesis using assms by (intro exI [of _ k]) simp
    next
      assume "?x \<in> set (drop (Suc i) xs)"
      then obtain k where "k < length xs - Suc i" "xs ! (Suc i + k) = ?x" by (auto simp: in_set_conv_nth)
      then show ?thesis by (intro exI [of _ "Suc i + k"]) auto
    qed
  next
    assume "\<exists>i' < length xs. i' \<noteq> i \<and> xs ! i' = ?x"
    then obtain k where k: "k < length xs" "k \<noteq> i" "xs ! k = ?x" by blast
    show "?x \<in> set (take i xs) \<or> ?x \<in> set (drop (Suc i) xs)"
    proof (cases "k < i")
      case True
      then have "take i xs ! k = ?x" "k < length (take i xs)" using k assms by simp_all
      then show ?thesis by (metis nth_mem)
    next
      case False
      then have "drop (Suc i) xs ! (k - Suc i) = ?x" "k - Suc i < length (drop (Suc i) xs)" using k by simp_all
      then show ?thesis by (metis nth_mem)
    qed
  qed
  finally show ?thesis .
qed

text \<open>One round: a column grows when another has its name now.\<close>

lemma grow_names_other:
  assumes "length taken = length steps" "i < length steps"
  shows "grow_names steps taken ! i =
     (if (\<exists>i' < length steps. i' \<noteq> i \<and> last_steps (steps ! i') (taken ! i') = last_steps (steps ! i) (taken ! i)) \<and>
         taken ! i < length (steps ! i)
      then taken ! i + 1 else taken ! i)"
  using grow_names_nth [of steps taken i] count_list_other [of i "map2 last_steps steps taken"] assms by (auto cong: conj_cong)

lemma name_loop_invariant:
  assumes "\<And>taken. taken_in_range steps taken \<Longrightarrow> P taken \<Longrightarrow> P (grow_names steps taken)"
    and "taken_in_range steps taken" "P taken"
  shows "P (name_loop steps taken)"
  using assms
proof (induction steps taken rule: name_loop.induct)
  case (1 steps taken)
  have "taken_in_range steps (grow_names steps taken)"
    using 1(3) by (auto simp: taken_in_range_def grow_names_nth)
  then show ?case using 1 by (subst name_loop.simps) (auto simp: Let_def)
qed

text \<open>
  The number of steps in each name. A column that shares its name has all its steps in it; every
  shorter name of a column is also one of another column, within the steps that column's name has;
  and columns that are alike in their last \<open>m\<close> steps both show what is before them.
\<close>

definition shortest_names :: "bytes list list \<Rightarrow> nat list \<Rightarrow> bool" where
  "shortest_names steps ks \<longleftrightarrow> taken_in_range steps ks \<and>
     (\<forall>i < length steps. \<forall>i' < length steps. i' \<noteq> i \<longrightarrow>
        (last_steps (steps ! i') (ks ! i') = last_steps (steps ! i) (ks ! i) \<longrightarrow> ks ! i = length (steps ! i)) \<and>
        (\<forall>m \<le> length (steps ! i').
           (\<forall>j. 1 \<le> j \<and> j \<le> m \<longrightarrow> last_steps (steps ! i') j = last_steps (steps ! i) j) \<longrightarrow>
           m < length (steps ! i) \<longrightarrow> m < ks ! i)) \<and>
     (\<forall>i < length steps. \<forall>j. 1 \<le> j \<and> j < ks ! i \<longrightarrow>
        (\<exists>i' < length steps. i' \<noteq> i \<and>
           (\<exists>j'. 1 \<le> j' \<and> j' \<le> ks ! i' \<and> last_steps (steps ! i') j' = last_steps (steps ! i) j)))"

lemma grow_names_earned:
  assumes "taken_in_range steps taken" "i < length steps" "1 \<le> j" "j < grow_names steps taken ! i"
    and old: "j < taken ! i \<longrightarrow> (\<exists>i' < length steps. i' \<noteq> i \<and>
      (\<exists>j'. 1 \<le> j' \<and> j' \<le> taken ! i' \<and> last_steps (steps ! i') j' = last_steps (steps ! i) j))"
  shows "\<exists>i' < length steps. i' \<noteq> i \<and>
      (\<exists>j'. 1 \<le> j' \<and> j' \<le> grow_names steps taken ! i' \<and> last_steps (steps ! i') j' = last_steps (steps ! i) j)"
proof -
  have l: "length taken = length steps" using assms(1) by (simp add: taken_in_range_def)
  have mono: "taken ! k \<le> grow_names steps taken ! k" if "k < length steps" for k
    using grow_names_other [OF l that] by auto
  show ?thesis
  proof (cases "j < taken ! i")
    case True
    then show ?thesis using old mono by (meson order_trans)
  next
    case False
    then obtain i' where i': "i' < length steps" "i' \<noteq> i" "last_steps (steps ! i') (taken ! i') = last_steps (steps ! i) (taken ! i)" "j = taken ! i"
      using assms(4) unfolding grow_names_other [OF l assms(2)] by (auto split: if_splits)
    moreover have "1 \<le> taken ! i'" using assms(1) i'(1) by (simp add: taken_in_range_def)
    ultimately show ?thesis using mono [OF i'(1)] by blast
  qed
qed

lemma grow_names_together:
  assumes "taken_in_range steps taken" "i < length steps" "i' < length steps" "i' \<noteq> i"
    and "m \<le> length (steps ! i')" "m < length (steps ! i)"
    and "\<forall>j. 1 \<le> j \<and> j \<le> m \<longrightarrow> last_steps (steps ! i') j = last_steps (steps ! i) j"
    and "taken ! i = taken ! i' \<or> m < taken ! i"
  shows "grow_names steps taken ! i = grow_names steps taken ! i' \<or> m < grow_names steps taken ! i"
    and "taken ! i \<le> m \<Longrightarrow> grow_names steps taken ! i \<noteq> taken ! i"
proof -
  have l: "length taken = length steps" and one: "1 \<le> taken ! i" using assms(1,2) by (auto simp: taken_in_range_def)
  have grown: "grow_names steps taken ! i = taken ! i + 1" if "taken ! i \<le> m"
  proof -
    have "last_steps (steps ! i') (taken ! i') = last_steps (steps ! i) (taken ! i)" using that assms(7,8) one by auto
    then show ?thesis using that assms(3,4,6) by (auto simp: grow_names_other [OF l assms(2)])
  qed
  then show "taken ! i \<le> m \<Longrightarrow> grow_names steps taken ! i \<noteq> taken ! i" by simp
  show "grow_names steps taken ! i = grow_names steps taken ! i' \<or> m < grow_names steps taken ! i"
  proof (cases "m \<le> taken ! i")
    case True
    show ?thesis
    proof (cases "taken ! i = m")
      case False
      then show ?thesis using True grow_names_other [OF l assms(2)] by auto
    qed (simp add: grown)
  next
    case False
    then have eq: "last_steps (steps ! i) (taken ! i) = last_steps (steps ! i') (taken ! i')" "taken ! i = taken ! i'"
      using assms(7,8) one by auto
    then have "grow_names steps taken ! i' = taken ! i' + 1"
      using False assms(2,4,5) by (auto simp: grow_names_other [OF l assms(3)])
    then show ?thesis using grown False eq(2) by simp
  qed
qed

lemma name_loop_shortest:
  assumes "\<forall>s \<in> set steps. s \<noteq> []"
  shows "shortest_names steps (name_loop steps (replicate (length steps) 1))" (is "shortest_names steps ?ks")
proof -
  let ?start = "replicate (length steps) 1"
  have start: "taken_in_range steps ?start" using assms by (auto simp: taken_in_range_def Suc_le_eq)
  note ok = name_loop_ok [OF start]
  have l: "length ?ks = length steps" using ok by (simp add: taken_in_range_def)
  have fixed: "grow_names steps ?ks = ?ks" by (rule name_loop_fixed) simp
  have a: "?ks ! i = length (steps ! i)"
    if "i < length steps" "i' < length steps" "i' \<noteq> i" "last_steps (steps ! i') (?ks ! i') = last_steps (steps ! i) (?ks ! i)" for i i'
  proof -
    have "?ks ! i \<le> length (steps ! i)" using ok that(1) by (simp add: taken_in_range_def)
    moreover have "\<not> ?ks ! i < length (steps ! i)"
    proof
      assume "?ks ! i < length (steps ! i)"
      then have "grow_names steps ?ks ! i = ?ks ! i + 1"
        unfolding grow_names_other [OF l that(1)] using that by auto
      then show False unfolding fixed by simp
    qed
    ultimately show ?thesis by simp
  qed
  let ?B = "\<lambda>ks. \<forall>i < length steps. \<forall>j. 1 \<le> j \<and> j < ks ! i \<longrightarrow> (\<exists>i' < length steps. i' \<noteq> i \<and>
      (\<exists>j'. 1 \<le> j' \<and> j' \<le> ks ! i' \<and> last_steps (steps ! i') j' = last_steps (steps ! i) j))"
  have b: "?B ?ks"
  proof (rule name_loop_invariant [where P = ?B, OF _ start])
    show "?B (grow_names steps taken)" if "taken_in_range steps taken" "?B taken" for taken
    proof (intro allI impI)
      fix i j assume "i < length steps" "1 \<le> j \<and> j < grow_names steps taken ! i"
      with that(2) show "\<exists>i' < length steps. i' \<noteq> i \<and>
          (\<exists>j'. 1 \<le> j' \<and> j' \<le> grow_names steps taken ! i' \<and> last_steps (steps ! i') j' = last_steps (steps ! i) j)"
        by (intro grow_names_earned [OF that(1)]) auto
    qed
  qed simp
  have c: "m < ?ks ! i"
    if "i < length steps" "i' < length steps" "i' \<noteq> i" "m \<le> length (steps ! i')" "m < length (steps ! i)"
      "\<forall>j. 1 \<le> j \<and> j \<le> m \<longrightarrow> last_steps (steps ! i') j = last_steps (steps ! i) j" for i i' m
  proof -
    have "?ks ! i = ?ks ! i' \<or> m < ?ks ! i"
      by (rule name_loop_invariant [where P = "\<lambda>ks. ks ! i = ks ! i' \<or> m < ks ! i", OF _ start])
        (use grow_names_together(1) [OF _ that] that(1,2) in simp_all)
    then show ?thesis using grow_names_together(2) [OF ok that] fixed by (cases "m < ?ks ! i") auto
  qed
  show ?thesis
    unfolding shortest_names_def
  proof (intro conjI allI impI)
    show "taken_in_range steps ?ks" by (rule ok)
  next
    fix i i' assume "i < length steps" "i' < length steps" "i' \<noteq> i"
      "last_steps (steps ! i') (?ks ! i') = last_steps (steps ! i) (?ks ! i)"
    then show "?ks ! i = length (steps ! i)" by (rule a)
  next
    fix i i' m assume "i < length steps" "i' < length steps" "i' \<noteq> i" "m \<le> length (steps ! i')"
      "\<forall>j. 1 \<le> j \<and> j \<le> m \<longrightarrow> last_steps (steps ! i') j = last_steps (steps ! i) j" "m < length (steps ! i)"
    then show "m < ?ks ! i" by (intro c)
  next
    fix i j assume "i < length steps" "1 \<le> j \<and> j < ?ks ! i"
    then show "\<exists>i' < length steps. i' \<noteq> i \<and>
        (\<exists>j'. 1 \<le> j' \<and> j' \<le> ?ks ! i' \<and> last_steps (steps ! i') j' = last_steps (steps ! i) j)"
      using b by simp
  qed
qed

text \<open>
  When no step has a dot, names are equal only for equal steps, and the number of steps is the least
  that no other column ends in, or all of them.
\<close>

definition last_n :: "nat \<Rightarrow> 'a list \<Rightarrow> 'a list" where
  "last_n k s = drop (length s - k) s"

definition tells_apart :: "bytes list list \<Rightarrow> nat \<Rightarrow> nat \<Rightarrow> bool" where
  "tells_apart steps i k \<longleftrightarrow>
     k = length (steps ! i) \<or> (\<forall>i' < length steps. i' \<noteq> i \<longrightarrow> last_n k (steps ! i') \<noteq> last_n k (steps ! i))"

lemma last_steps_inj:
  assumes "\<forall>w \<in> set s. CHR ''.'' \<notin> set w" "\<forall>w \<in> set t. CHR ''.'' \<notin> set w"
    and "1 \<le> j" "j \<le> length s" "1 \<le> k" "k \<le> length t" "last_steps s j = last_steps t k"
  shows "j = k \<and> last_n j s = last_n j t"
proof -
  have "split_on CHR ''.'' (last_steps u n) = last_n n u"
    if "\<forall>w \<in> set u. CHR ''.'' \<notin> set w" "1 \<le> n" "n \<le> length u" for u n
    using that unfolding last_steps_def last_n_def
    by (intro split_on_join) (auto simp: list_all_iff dest: in_set_dropD)
  then have e: "last_n j s = last_n k t" using assms by metis
  have "length (last_n j s) = j" "length (last_n k t) = k" using assms(4,6) by (simp_all add: last_n_def)
  then have "j = k" using e by simp
  then show ?thesis using e by simp
qed

lemma last_n_le: "last_n m s = last_n m t \<Longrightarrow> j \<le> m \<Longrightarrow> m \<le> length s \<Longrightarrow> m \<le> length t \<Longrightarrow> last_n j s = last_n j t"
proof -
  assume "last_n m s = last_n m t" and l: "j \<le> m" "m \<le> length s" "m \<le> length t"
  moreover have "last_n j u = drop (m - j) (last_n m u)" if "m \<le> length u" for u :: "'a list"
    using that l(1) by (simp add: last_n_def)
  ultimately show ?thesis by metis
qed

lemma shortest_names_exact:
  assumes "shortest_names steps ks" "\<forall>s \<in> set steps. \<forall>w \<in> set s. CHR ''.'' \<notin> set w" "i < length steps"
  shows "tells_apart steps i (ks ! i) \<and> (\<forall>k. 1 \<le> k \<and> k < ks ! i \<longrightarrow> \<not> tells_apart steps i k)"
proof
  have r: "1 \<le> ks ! k" "ks ! k \<le> length (steps ! k)" if "k < length steps" for k
    using assms(1) that by (simp_all add: shortest_names_def taken_in_range_def)
  show "tells_apart steps i (ks ! i)"
    unfolding tells_apart_def
  proof (rule disjCI, rule ccontr)
    let ?m = "ks ! i"
    assume "\<not> (\<forall>i' < length steps. i' \<noteq> i \<longrightarrow> last_n ?m (steps ! i') \<noteq> last_n ?m (steps ! i))" and m: "?m \<noteq> length (steps ! i)"
    then obtain i' where i': "i' < length steps" "i' \<noteq> i" "last_n ?m (steps ! i') = last_n ?m (steps ! i)" by blast
    have ml: "?m < length (steps ! i)" using r(2) [OF assms(3)] m by simp
    have ml': "?m \<le> length (steps ! i')"
      using arg_cong [OF i'(3), of length] ml by (simp add: last_n_def)
    have "last_steps (steps ! i') j = last_steps (steps ! i) j" if "j \<le> ?m" for j
      using last_n_le [OF i'(3) that ml'] ml by (simp add: last_steps_def last_n_def)
    then have "?m < ks ! i"
      using assms(1) [unfolded shortest_names_def] assms(3) i'(1,2) ml ml' by blast
    then show False by simp
  qed
  show "\<forall>k. 1 \<le> k \<and> k < ks ! i \<longrightarrow> \<not> tells_apart steps i k"
  proof (intro allI impI)
    fix k assume k: "1 \<le> k \<and> k < ks ! i"
    then obtain i' j where i': "i' < length steps" "i' \<noteq> i" "1 \<le> j" "j \<le> ks ! i'"
        "last_steps (steps ! i') j = last_steps (steps ! i) k"
      using assms(1,3) unfolding shortest_names_def by blast
    have "j = k \<and> last_n j (steps ! i') = last_n j (steps ! i)"
      using assms(2,3) i' k r(2) [OF assms(3)] r(2) [OF i'(1)] by (intro last_steps_inj) auto
    then show "\<not> tells_apart steps i k"
      using i'(1,2) k r(2) [OF assms(3)] by (auto simp: tells_apart_def)
  qed
qed

lemma count_list_map: "count_list (map f xs) y = length (filter (\<lambda>x. f x = y) xs)"
  by (induction xs) auto

text \<open>
  C9. Column names are the shortest that tell the columns apart. The names are pairwise different,
  as long as no step has a number sign (no XML name has one). A name is the last steps of its column,
  joined with dots, and their number is minimal: a shorter name is also one of another column, and
  when no step has a dot, it is the least number of last steps no other column ends in, or all of
  them. Columns that share even that name are numbered from the second on, in order.
\<close>

theorem column_names_unique:
  assumes "\<forall>s \<in> set steps. s \<noteq> [] \<and> (\<forall>w \<in> set s. CHR ''#'' \<notin> set w)"
  shows "distinct (column_names_of steps) \<and> length (column_names_of steps) = length steps \<and>
         (\<exists>ks. shortest_names steps ks \<and>
            ((\<forall>s \<in> set steps. \<forall>w \<in> set s. CHR ''.'' \<notin> set w) \<longrightarrow>
             (\<forall>i < length steps. tells_apart steps i (ks ! i) \<and>
                (\<forall>k. 1 \<le> k \<and> k < ks ! i \<longrightarrow> \<not> tells_apart steps i k))) \<and>
            (\<forall>i < length steps. column_names_of steps ! i =
               (let name = \<lambda>i. last_steps (steps ! i) (ks ! i) in
                tag_name (name i) (1 + length (filter (\<lambda>i'. name i' = name i) [0..<i])))))"
proof -
  define taken where "taken = name_loop steps (replicate (length steps) 1)"
  have short: "shortest_names steps taken" unfolding taken_def by (rule name_loop_shortest) (use assms in blast)
  then have len: "length taken = length steps" by (simp add: shortest_names_def taken_in_range_def)
  let ?names = "map2 last_steps steps taken"
  have names: "column_names_of steps = number_names [] ?names" by (simp add: column_names_of_def taken_def)
  have "\<forall>name \<in> set ?names. CHR ''#'' \<notin> set name"
  proof
    fix name assume "name \<in> set ?names"
    then obtain s k where "s \<in> set steps" and name: "name = last_steps s k" by (auto dest: set_zip_leftD)
    then have "\<forall>w \<in> set (drop (length s - k) s). CHR ''#'' \<notin> set w" using assms by (auto dest: in_set_dropD)
    then show "CHR ''#'' \<notin> set name"
      using join_with_set [of "''.''" "drop (length s - k) s"] by (auto simp: name last_steps_def)
  qed
  from number_names_distinct [OF this] have distinct: "distinct (column_names_of steps)" by (simp add: names)
  have length_names: "length (column_names_of steps) = length steps" using len by (simp add: names)
  have tagged: "column_names_of steps ! i =
      (let name = \<lambda>i. last_steps (steps ! i) (taken ! i) in
       tag_name (name i) (1 + length (filter (\<lambda>i'. name i' = name i) [0..<i])))" if i: "i < length steps" for i
  proof -
    have "take i ?names = map (\<lambda>i. last_steps (steps ! i) (taken ! i)) [0..<i]"
      using i len by (intro nth_equalityI) simp_all
    then have "count_list (take i ?names) (?names ! i) =
        length (filter (\<lambda>i'. last_steps (steps ! i') (taken ! i') = ?names ! i) [0..<i])"
      by (simp only: count_list_map)
    then show ?thesis using number_names_nth [of i ?names "[]"] i len by (simp add: names)
  qed
  show ?thesis
  proof (intro conjI exI [of _ taken])
    show "(\<forall>s \<in> set steps. \<forall>w \<in> set s. CHR ''.'' \<notin> set w) \<longrightarrow>
        (\<forall>i < length steps. tells_apart steps i (taken ! i) \<and> (\<forall>k. 1 \<le> k \<and> k < taken ! i \<longrightarrow> \<not> tells_apart steps i k))"
      using shortest_names_exact [OF short] by blast
  qed (use distinct length_names short tagged in blast)+
qed

theorem column_names_unique_witness:
  "column_names_of [[''p'', ''a'', ''code''], [''p'', ''b'', ''code''], [''code''], [''p'', ''x''], [''p'', ''x'']] =
     [''a.code'', ''b.code'', ''code'', ''p.x'', ''p.x#2''] \<and>
   distinct (column_names_of [[''p'', ''a'', ''code''], [''p'', ''b'', ''code''], [''code''], [''p'', ''x''], [''p'', ''x'']])"
proof -
  have two: "show_nat (Suc (Suc 0)) = ''2''" by code_simp
  have "column_names_of [[''p'', ''a'', ''code''], [''p'', ''b'', ''code''], [''code''], [''p'', ''x''], [''p'', ''x'']] =
      [''a.code'', ''b.code'', ''code'', ''p.x'', ''p.x#2'']"
    by (simp add: column_names_of_def numeral_eq_Suc name_loop.simps grow_names_def last_steps_def two)
  then show ?thesis
    using column_names_unique [of "[[''p'', ''a'', ''code''], [''p'', ''b'', ''code''], [''code''], [''p'', ''x''], [''p'', ''x'']]"]
    by auto
qed

subsection \<open>The type of a column holds its values\<close>

definition int_in :: "nat \<Rightarrow> bytes \<Rightarrow> bool" where
  "int_in bits v \<longleftrightarrow> (case an_int (analyze v) of Some i \<Rightarrow> - (2 ^ (bits - 1)) \<le> i \<and> i < 2 ^ (bits - 1) | None \<Rightarrow> False)"

definition temporal_in :: "lossless \<Rightarrow> nat option \<Rightarrow> (int option \<Rightarrow> bool) \<Rightarrow> bytes \<Rightarrow> bool" where
  "temporal_in l digits zone v \<longleftrightarrow>
     (case an_temporal (analyze v) of
        Some (tz, fraction) \<Rightarrow> zone tz \<and> (case digits of Some d \<Rightarrow> l = L_Lossy \<or> fraction \<le> d | None \<Rightarrow> True)
      | None \<Rightarrow> False)"

fun holds_value :: "lossless \<Rightarrow> data_type \<Rightarrow> bytes \<Rightarrow> bool" where
  "holds_value l DT_Boolean v = subtypes TS_BOOL (level_of l (classify v))"
| "holds_value l DT_Int8 v = (subtypes TS_INT (level_of l (classify v)) \<and> int_in 8 v)"
| "holds_value l DT_Int16 v = (subtypes TS_INT (level_of l (classify v)) \<and> int_in 16 v)"
| "holds_value l DT_Int32 v = (subtypes TS_INT (level_of l (classify v)) \<and> int_in 32 v)"
| "holds_value l DT_Int64 v = (subtypes TS_INT (level_of l (classify v)) \<and> int_in 64 v)"
| "holds_value l DT_Float64 v = subtypes TS_FLOAT (level_of l (classify v))"
| "holds_value l DT_Date32 v = (subtypes TS_DATE (level_of l (classify v)) \<and> temporal_in l None (\<lambda>_. True) v)"
| "holds_value l (DT_Time32 u) v =
     (subtypes TS_TIME (level_of l (classify v)) \<and> temporal_in l (Some (unit_digits u)) (\<lambda>_. True) v)"
| "holds_value l (DT_Time64 u) v =
     (subtypes TS_TIME (level_of l (classify v)) \<and> temporal_in l (Some (unit_digits u)) (\<lambda>_. True) v)"
| "holds_value l (DT_Timestamp u zone) v =
     (subtypes TS_DATETIME (level_of l (classify v)) \<and>
      temporal_in l (Some (unit_digits u)) (\<lambda>tz. tz = None \<longleftrightarrow> zone = None) v)"
| "holds_value l t v = True"

lemma has_type_iff: "has_type ts c \<longleftrightarrow> subtypes c ts"
  by (simp add: has_type_def subtypes_def and.commute)

text \<open>What the statistics of every value say of each of them.\<close>

definition zone_covers :: "tz_shape \<Rightarrow> int option \<Rightarrow> bool" where
  "zone_covers shape tz \<longleftrightarrow>
     (case shape of Tz_Absent \<Rightarrow> tz = None | Tz_Fixed off \<Rightarrow> tz = Some off | Tz_Mixed \<Rightarrow> tz \<noteq> None | Tz_Inconsistent \<Rightarrow> True)"

definition covers :: "value_stats \<Rightarrow> bytes \<Rightarrow> bool" where
  "covers s v \<longleftrightarrow>
     (\<forall>l. subtypes (stats_types l s) (level_of l (classify v))) \<and>
     (\<forall>i. an_int (analyze v) = Some i \<longrightarrow> (\<exists>lo hi. vs_int_range s = Some (lo, hi) \<and> lo \<le> i \<and> i \<le> hi)) \<and>
     (\<forall>tz fraction. an_temporal (analyze v) = Some (tz, fraction) \<longrightarrow>
        (\<exists>shape. vs_temporal s = Some shape \<and> zone_covers (ts_tz shape) tz \<and> fraction \<le> ts_max_fraction_digits shape))"

lemma zone_covers_merge: "zone_covers a tz \<or> zone_covers b tz \<Longrightarrow> zone_covers (merge_tz a b) tz"
  by (cases a; cases b) (auto simp: zone_covers_def merge_tz_def)

lemma covers_self: "covers (observe_all v s) v"
  by (auto simp: covers_def observe_all_def observe_analysis_def Let_def stats_types_def level_of_def classify_def
      observe_text_def merge_temporal_def Let_def
      split: lossless.splits option.splits prod.splits intro!: subtypes_and_left zone_covers_merge)
    (auto simp: zone_covers_def)

lemma covers_later: "covers s v \<Longrightarrow> covers (observe_all w s) v"
  by (fastforce simp: covers_def observe_all_def observe_analysis_def Let_def stats_types_def level_of_def
      observe_text_def merge_temporal_def split: lossless.splits option.splits prod.splits
      intro!: subtypes_and_left zone_covers_merge)

lemma covers_all: "v \<in> set vs \<Longrightarrow> covers (fold observe_all vs s) v"
proof (induction vs arbitrary: s)
  case (Cons w vs)
  have "covers s v \<Longrightarrow> covers (fold observe_all vs s) v" for s
    by (induction vs arbitrary: s) (simp_all add: covers_later)
  then show ?case using Cons covers_self [of w s] by auto
qed simp


text \<open>A type is a bit of the set.\<close>

lemma subtypes_bits:
  "subtypes TS_BOOL x \<longleftrightarrow> bit x 0" "subtypes TS_INT x \<longleftrightarrow> bit x 1" "subtypes TS_FLOAT x \<longleftrightarrow> bit x 2"
  "subtypes TS_DATE x \<longleftrightarrow> bit x 3" "subtypes TS_DATETIME x \<longleftrightarrow> bit x 4" "subtypes TS_TIME x \<longleftrightarrow> bit x 5"
proof -
  have single: "subtypes (push_bit n 1) x \<longleftrightarrow> bit x n" if "n < 16" for n and x :: type_set
    using that by (auto simp: subtypes_iff bit_simps)
  show "subtypes TS_BOOL x \<longleftrightarrow> bit x 0" "subtypes TS_INT x \<longleftrightarrow> bit x 1" "subtypes TS_FLOAT x \<longleftrightarrow> bit x 2"
    "subtypes TS_DATE x \<longleftrightarrow> bit x 3" "subtypes TS_DATETIME x \<longleftrightarrow> bit x 4" "subtypes TS_TIME x \<longleftrightarrow> bit x 5"
    using single [of 0 x] single [of 1 x] single [of 2 x] single [of 3 x] single [of 4 x] single [of 5 x]
    by (simp_all add: type_set_defs)
qed

lemma type_bits:
  "bit TS_BOOL n \<longleftrightarrow> n = 0" "bit TS_INT n \<longleftrightarrow> n = 1" "bit TS_FLOAT n \<longleftrightarrow> n = 2"
  "bit TS_DATE n \<longleftrightarrow> n = 3" "bit TS_DATETIME n \<longleftrightarrow> n = 4" "bit TS_TIME n \<longleftrightarrow> n = 5" "bit TS_STRING n \<longleftrightarrow> n = 6"
proof -
  have single: "bit (push_bit k 1 :: type_set) n \<longleftrightarrow> n = k" if "k < 16" for k
    using that by (auto simp: bit_simps)
  show "bit TS_BOOL n \<longleftrightarrow> n = 0" "bit TS_INT n \<longleftrightarrow> n = 1" "bit TS_FLOAT n \<longleftrightarrow> n = 2"
    "bit TS_DATE n \<longleftrightarrow> n = 3" "bit TS_DATETIME n \<longleftrightarrow> n = 4" "bit TS_TIME n \<longleftrightarrow> n = 5" "bit TS_STRING n \<longleftrightarrow> n = 6"
    using single [of 0] single [of 1] single [of 2] single [of 3] single [of 4] single [of 5] single [of 6]
    by (simp_all add: type_set_defs)
qed

lemma bool_bits:
  "bit (cd_lossy (analyze_bool v start_candidates)) n \<longleftrightarrow> n = 6 \<or> (n = 0 \<and> bit (cd_lossy (analyze_bool v start_candidates)) 0)"
  by (auto simp: analyze_bool_def start_candidates_def bit_or_iff type_bits)

lemma integer_bits:
  "bit (cd_lossy (an_candidates (analyze_integer v n a))) 1 \<Longrightarrow> \<not> bit (cd_lossy (an_candidates a)) 1 \<Longrightarrow>
   \<exists>i. an_int (analyze_integer v n a) = Some i \<and> - (2 ^ 63) \<le> i \<and> i < 2 ^ 63"
  by (auto simp: analyze_integer_def Let_def parse_signed_def bit_or_iff type_bits split: option.splits if_splits prod.splits)

lemma integer_bits_other:
  "k \<noteq> 1 \<Longrightarrow> bit (cd_lossy (an_candidates (analyze_integer v n a))) k = bit (cd_lossy (an_candidates a)) k"
  "an_temporal (analyze_integer v n a) = an_temporal a"
  by (auto simp: analyze_integer_def Let_def bit_or_iff type_bits split: option.splits)

lemma float_bits_other:
  "k \<noteq> 2 \<Longrightarrow> bit (cd_lossy (an_candidates (analyze_float v n a))) k = bit (cd_lossy (an_candidates a)) k"
  "an_int (analyze_float v n a) = an_int a" "an_temporal (analyze_float v n a) = an_temporal a"
  by (auto simp: analyze_float_def Let_def bit_or_iff type_bits split: option.splits)

lemma temporal_bits_other:
  "k \<notin> {3, 4, 5} \<Longrightarrow> bit (cd_lossy (an_candidates (analyze_temporal t a))) k = bit (cd_lossy (an_candidates a)) k"
  "an_temporal (analyze_temporal t a) = Some (te_tz t, te_fraction_digits t)"
  by (auto simp: analyze_temporal_def Let_def bit_or_iff type_bits split: temporal_kind.splits)

lemma classified_int:
  assumes "bit (cd_lossy (classify v)) 1"
  shows "\<exists>i. an_int (analyze v) = Some i \<and> - (2 ^ 63) \<le> i \<and> i < 2 ^ 63"
  using assms bool_bits [of v 1] unfolding classify_def analyze_def Let_def analyze_number_def
  by (auto simp: float_bits_other temporal_bits_other split: option.splits dest!: integer_bits [unfolded One_nat_def])

lemma classified_temporal:
  assumes "bit (cd_lossy (classify v)) 3 \<or> bit (cd_lossy (classify v)) 4 \<or> bit (cd_lossy (classify v)) 5"
  shows "an_temporal (analyze v) \<noteq> None"
  using assms bool_bits [of v 3] bool_bits [of v 4] bool_bits [of v 5] unfolding classify_def analyze_def Let_def analyze_number_def
  by (auto simp: float_bits_other integer_bits_other temporal_bits_other split: option.splits)

lemma level_lossy: "subtypes (level_of l (classify v)) (cd_lossy (classify v))"
  using cand_analyze [of v] by (cases l) (auto simp: cand_ok_def nested_def classify_def level_of_def intro: subtypes_trans)


subsection \<open>From the statistics to the type\<close>

lemma choose_first_some:
  "choose_first g st ts cs s = (Some t, s') \<Longrightarrow>
   \<exists>c \<in> set cs. has_type ts c \<and> (\<exists>s1. choose_type g st c s1 = (Some t, s'))"
  by (induction cs arbitrary: s) (auto split: if_splits prod.splits option.splits)

lemma choose_type_keeps: "choose_type g st c s = (t, s') \<Longrightarrow> sc_data_type s' = sc_data_type s"
  by (auto simp: choose_type_def Let_def choose_zoned_def choose_datetime_def zone_kept_def add_sc_reason_def
      add_sc_meta_def split: if_splits option.splits tz_shape.splits)

lemma choose_first_keeps: "choose_first g st ts cs s = (t, s') \<Longrightarrow> sc_data_type s' = sc_data_type s"
  by (induction cs arbitrary: s) (auto split: if_splits prod.splits option.splits dest: choose_type_keeps)

lemma chosen_holds:
  assumes cov: "covers st v" and types: "subtypes c (stats_types l st)" and l: "l = to_lossless (io_types (eg_options g))"
    and c: "c \<in> set candidate_types" and chosen: "choose_type g st c s = (Some t, s')"
  shows "holds_value l t v"
proof -
  have level: "subtypes c (level_of l (classify v))"
    using cov types by (auto simp: covers_def intro: subtypes_trans)
  then have lossy: "subtypes c (cd_lossy (classify v))" using level_lossy subtypes_trans by blast
  have int: "holds_value l (int_type g st) v" if "c = TS_INT"
  proof -
    obtain i where i: "an_int (analyze v) = Some i" "- (2 ^ 63) \<le> i" "i < 2 ^ 63"
      using classified_int lossy \<open>c = TS_INT\<close> by (auto simp: subtypes_bits)
    then obtain lo hi where r: "vs_int_range st = Some (lo, hi)" "lo \<le> i" "i \<le> hi" using cov by (auto simp: covers_def)
    show ?thesis using level i r \<open>c = TS_INT\<close> by (simp add: int_type_def int_fits_def int_in_def)
  qed
  have temporal: "\<exists>tz fraction. an_temporal (analyze v) = Some (tz, fraction) \<and>
      zone_covers (ts_tz (stats_temporal st)) tz \<and> fraction \<le> ts_max_fraction_digits (stats_temporal st)"
    if "c \<in> {TS_DATE, TS_DATETIME, TS_TIME}"
  proof -
    have "an_temporal (analyze v) \<noteq> None" using classified_temporal lossy that by (auto simp: subtypes_bits)
    then show ?thesis using cov by (auto simp: covers_def stats_temporal_def)
  qed
  have zoned: "choose_zoned lo tz u s1 = (Some t, s2) \<Longrightarrow> t = u" for lo tz u s1 s2
    by (auto simp: choose_zoned_def split: tz_shape.splits if_splits)
  have candidates: "c = TS_BOOL \<or> c = TS_INT \<or> c = TS_FLOAT \<or> c = TS_DATE \<or> c = TS_DATETIME \<or> c = TS_TIME"
    using c by (auto simp: candidate_types_def)
  show ?thesis
  proof (cases "c \<in> {TS_DATE, TS_DATETIME, TS_TIME}")
    case False
    then show ?thesis using candidates chosen level int
      by (auto simp: choose_type_def Let_def type_set_defs split: if_splits)
  next
    case True
    note tz = temporal [OF True]
    show ?thesis
    proof (cases "c = TS_DATETIME")
      case True
      then show ?thesis using chosen level tz l
        by (auto simp: choose_type_def Let_def choose_datetime_def temporal_in_def zone_covers_def type_set_defs
            split: if_splits tz_shape.splits option.splits)
    next
      case False
      then show ?thesis using True chosen level tz l
        by (auto simp: choose_type_def Let_def temporal_in_def type_set_defs split: if_splits option.splits dest!: zoned)
    qed
  qed
qed


lemma text_holds [simp]: "holds_value l (engine_string g) v" "holds_value l (all_null_type g) v"
  by (auto simp: engine_string_def string_type_def all_null_type_def split: all_null.splits)

lemma candidate_not_string:
  assumes "c \<in> set candidate_types"
  shows "\<not> subtypes c TS_STRING" "subtypes c (a OR TS_STRING) \<longleftrightarrow> subtypes c a"
  using assms by (auto simp: candidate_types_def subtypes_bits bit_or_iff type_bits)

lemma only_string_no_candidate:
  assumes "c \<in> set candidate_types" "subtypes c (stats_types l s)"
  shows "\<not> only_string s"
proof
  assume "only_string s"
  then have all: "vs_exact_text s OR vs_exact_value s OR vs_lossy s = TS_STRING" by (simp add: only_string_def)
  have "subtypes c (vs_exact_text s OR vs_exact_value s OR vs_lossy s)"
    using assms(2) by (cases l) (auto simp: stats_types_def intro: subtypes_or_right)
  then show False using candidate_not_string(1) [OF assms(1)] by (simp add: all)
qed

text \<open>
  C8. The type chosen for a column holds each of its values: whatever chunks the column was scanned
  in and whatever the settings and the sample, a boolean column has only booleans, an integer column
  only integers within its width, a date, time or timestamp column only values of that form, of the
  zone the type says and with no more decimals of a second than its unit (unless the lossy level is
  asked for).
\<close>

theorem column_type_fits:
  assumes "s = scan_chunks n vss" "v \<in> set (concat vss)"
  shows "holds_value (to_lossless (io_types (eg_options g))) (sc_data_type (scalar_of g (Some s))) v"
proof -
  let ?l = "to_lossless (io_types (eg_options g))"
  let ?all = "fold observe_all (concat vss) (with_capacity n)"
  have agree: "agree s ?all"
    using agree_trans [OF agree_scan agree_fold [OF stats_ok_empty agree_refl]] by (simp add: assms(1))
  have fits: "holds_value ?l t v"
    if chosen: "choose_first g s ts candidate_types s0 = (Some t, s1)" and ts: "ts = TS_STRING \<or> ts = scalar_types g s" for ts s0 t s1
  proof -
    obtain c s2 where c: "c \<in> set candidate_types" "has_type ts c" "choose_type g s c s2 = (Some t, s1)"
      using choose_first_some [OF chosen] by blast
    then have "subtypes c (stats_types ?l s AND to_enabled (io_types (eg_options g)))"
      using ts candidate_not_string [OF c(1)] by (auto simp: has_type_iff scalar_types_def Let_def)
    then have types: "subtypes c (stats_types ?l s)" by (auto simp: subtypes_iff bit_simps)
    then have "subtypes c (stats_types ?l ?all)" using agree by (cases ?l) (auto simp: agree_def stats_types_def)
    then have "s = ?all" using only_string_no_candidate [OF c(1)] agree by (auto simp: agree_def)
    then have "covers s v" using covers_all [OF assms(2)] by simp
    from chosen_holds [OF this types refl c(1,3)] show ?thesis .
  qed
  show ?thesis
  proof (cases "0 < vs_count s")
    case False
    then show ?thesis by (simp add: scalar_of_def Let_def with_data_type_def add_sc_reason_def)
  next
    case True
    define s0 where "s0 = \<lparr>sc_data_type = engine_string g, sc_metadata = [], sc_reasons = []\<rparr>"
    obtain ts s1 where ts: "(case too_few g s of
        Some least \<Rightarrow> (TS_STRING, add_sc_reason
          (''only '' @ show_nat (vs_count s) @ '' values in the sample, fewer than the '' @ show_nat least @
           '' it takes to pick a type: text'') s0)
      | None \<Rightarrow> (scalar_types g s, s0)) = (ts, s1)" by fastforce
    then have ts': "ts = TS_STRING \<or> ts = scalar_types g s" "sc_data_type s1 = engine_string g"
      by (auto simp: s0_def add_sc_reason_def split: option.splits)
    obtain r s2 where chosen: "choose_first g s ts candidate_types s1 = (r, s2)" by fastforce
    show ?thesis
    proof (cases r)
      case (Some t)
      then show ?thesis using True ts chosen fits [OF chosen [unfolded Some] ts'(1)]
        by (simp add: scalar_of_def s0_def [symmetric] with_data_type_def)
    next
      case None
      have "sc_data_type s2 = sc_data_type s1" using chosen
        by (rule choose_first_keeps)
      then show ?thesis using True ts chosen None ts'(2)
        by (simp add: scalar_of_def s0_def [symmetric] first_reason_def add_sc_reason_def Let_def)
    qed
  qed
qed


text \<open>Crates the engine calls, and an engine, to evaluate on.\<close>

definition sample_field :: "bytes \<Rightarrow> bytes \<Rightarrow> arrow_field" where
  "sample_field extension name = Arrow_Field name DT_Binary True [(EXTENSION_NAME, extension)]"

definition sample_env :: rule_env where
  "sample_env =
     \<lparr>ev_unicode = \<lparr>un_debug = id, un_lowercase = lowercase\<rparr>,
      ev_data = \<lparr>cd_records = [], cd_aliases = [], cd_name_key = lowercase\<rparr>,
      ev_projjson = (\<lambda>_. None), ev_show_type = (\<lambda>_. []),
      ev_json = \<lparr>js_write = (\<lambda>m. concat (map (\<lambda>(k, v). k @ ''='' @ v) m)),
        js_read = (\<lambda>s. case split_once CHR ''='' s of Some kv \<Rightarrow> Inr [kv] | None \<Rightarrow> Inr [])\<rparr>,
      ev_wkb_field = (\<lambda>m. sample_field ''geoarrow.wkb''),
      ev_native_field = (\<lambda>k d m. sample_field (''geoarrow.'' @ native_name k)),
      ev_box_field = (\<lambda>d m. sample_field ''geoarrow.box'')\<rparr>"

definition empty_observation :: dataset_observation where
  "empty_observation =
     \<lparr>do_gml_versions = {}, do_layers = [], do_sampled = False, do_source_context = [], do_prefixes = [],
      do_extent = None, do_skipped_sources = []\<rparr>"

definition sample_engine :: engine where
  "sample_engine =
     \<lparr>eg_env = sample_env, eg_observation = empty_observation,
      eg_options = default_inference\<lparr>io_types := default_types\<lparr>to_integers := Width_Smallest\<rparr>\<rparr>,
      eg_sampled = None, eg_layer_clark = ''a'', eg_prefixes = []\<rparr>"

theorem column_type_fits_witness:
  "holds_value L_Value (sc_data_type (scalar_of sample_engine (Some (scan_chunks 4 [[''7''], [''300'']])))) ''300''"
  using column_type_fits [of "scan_chunks 4 [[''7''], [''300'']]" 4 "[[''7''], [''300'']]" "''300''" sample_engine]
  by (simp add: sample_engine_def default_types_def)

end
