(* ===== verification/Rules_Bindable.thy ===== *)
theory Rules_Bindable
  imports Rules_Laws
begin

text \<open>
  The columns of the rule engine can be bound: whatever the tree and the options, each column the walk
  gives has a path of names of the tree, an anchor on its path, a type that a route can fill and only
  \<open>gml:\<close> keys in its metadata (\<open>layer_cols_ok\<close>, over the five functions of the walk at once).
\<close>

subsection \<open>The names of a tree\<close>

definition names_in :: "qname set \<Rightarrow> element_node \<Rightarrow> bool" where
  "names_in V n \<longleftrightarrow> set (node_names n) \<subseteq> V"

lemma names_in_iff:
  "names_in V n \<longleftrightarrow> (\<forall>a \<in> set (nf_attributes (en_facts n)). fst a \<in> V) \<and>
     (\<forall>kv \<in> set (en_children n). fst kv \<in> V \<and> names_in V (snd kv))"
proof (cases n)
  case (Element_Node f children)
  have "set (concat (map (\<lambda>(name, child). node_names child) children)) = (\<Union>kv \<in> set children. set (node_names (snd kv)))"
    by (auto simp: split_def)
  then show ?thesis unfolding names_in_def Element_Node node_names.simps by auto
qed

lemma names_in_merge: "names_in V a \<Longrightarrow> names_in V b \<Longrightarrow> names_in V (merge_node a b)"
proof (induction a b rule: merge_node.induct)
  case (1 f children g others)
  note names = 1(2,3) [unfolded names_in_iff [of V "Element_Node _ _"], simplified]
  have "\<forall>kv \<in> set (fst (index_merge merge_node children others)). fst kv \<in> V \<and> names_in V (snd kv)"
    unfolding index_merge_def
    by (rule fold_merge_all) (use 1(1) names in simp_all)
  moreover have "\<forall>kv \<in> set (fst (index_merge merge_stats (nf_attributes f) (nf_attributes g))). fst kv \<in> V \<and> True"
    unfolding index_merge_def
    by (rule fold_merge_all) (use names in simp_all)
  ultimately show ?case
    unfolding names_in_iff [of V "merge_node _ _"]
    by (simp add: merge_node.simps split_def Let_def merge_facts_def)
qed

lemma names_in_wrappers:
  assumes "names_in V n" "en_children n \<noteq> []"
  shows "names_in V (merge_wrappers (en_children n))"
proof -
  have "names_in V m \<Longrightarrow> \<forall>kv \<in> set ws. names_in V (snd kv) \<Longrightarrow>
      names_in V (fold (\<lambda>(name, other) merged. merge_node merged other) ws m)" for ws :: "(qname \<times> element_node) list" and m
    by (induction ws arbitrary: m) (auto simp: names_in_merge)
  then show ?thesis using assms unfolding merge_wrappers_def names_in_iff [of V n] by (cases "en_children n") auto
qed

subsection \<open>Columns that can be bound\<close>

definition gml_key :: "bytes \<Rightarrow> bool" where
  "gml_key k \<longleftrightarrow> starts_with ''gml:'' k"

definition gml_keys :: "(bytes \<times> bytes) list \<Rightarrow> bool" where
  "gml_keys m \<longleftrightarrow> (\<forall>kv \<in> set m. gml_key (fst kv))"

definition routed_type :: "data_type \<Rightarrow> bool" where
  "routed_type t \<longleftrightarrow> is_scalar t \<or> t = DT_Binary \<or> (\<exists>f sorted. t = DT_Map f sorted)"

text \<open>
  What geoarrow-schema documents of its fields: the extension name is that of the type, and the only
  metadata are the name and the metadata of the extension.
\<close>

definition geo_field :: "bytes \<Rightarrow> arrow_field \<Rightarrow> bool" where
  "geo_field extension f \<longleftrightarrow>
     extension_name f = Some (''geoarrow.'' @ extension) \<and> distinct (map fst (fd_metadata f)) \<and>
     (\<forall>kv \<in> set (fd_metadata f). fst kv = EXTENSION_NAME \<or> fst kv = ''ARROW:extension:metadata'')"

definition geo_fields_ok :: "rule_env \<Rightarrow> bool" where
  "geo_fields_ok env \<longleftrightarrow>
     (\<forall>m name. geo_field ''wkb'' (ev_wkb_field env m name)) \<and>
     (\<forall>k d m name. geo_field (native_name k) (ev_native_field env k d m name)) \<and>
     (\<forall>d m name. geo_field ''box'' (ev_box_field env d m name))"

definition kind_ok :: "bool \<Rightarrow> col_kind \<Rightarrow> bool" where
  "kind_ok list k \<longleftrightarrow>
     (case k of Scalar_Col t \<Rightarrow> routed_type t
      | Field_Col f \<Rightarrow> \<exists>extension. geo_field extension f \<and> (list \<longrightarrow> extension = ''wkb''))"

definition anchor_ok :: "path_step list \<Rightarrow> nat option \<Rightarrow> bool" where
  "anchor_ok steps anchor \<longleftrightarrow> (case anchor of Some k \<Rightarrow> k < length steps | None \<Rightarrow> True)"

definition steps_in :: "qname set \<Rightarrow> path_step list \<Rightarrow> bool" where
  "steps_in V steps \<longleftrightarrow> (\<forall>s \<in> set steps. sp_name s \<in> V)"

definition NIL_REASON :: qname where
  "NIL_REASON = mk_qname None ''nilReason''"

definition col_ok :: "qname set \<Rightarrow> col \<Rightarrow> bool" where
  "col_ok V c \<longleftrightarrow>
     steps_in V (co_steps c) \<and> anchor_ok (co_steps c) (co_anchor c) \<and>
     (case co_attribute c of Some (a, prefixed) \<Rightarrow> a \<in> V \<or> (a = NIL_REASON \<and> \<not> prefixed) | None \<Rightarrow> co_steps c \<noteq> []) \<and>
     kind_ok (co_anchor c \<noteq> None) (co_kind c) \<and> gml_keys (co_metadata c)"

lemmas col_ok_defs = col_ok_def new_col_def push_reason_def front_reasons_def kind_ok_def gml_keys_def

lemma scalar_types_routed:
  "routed_type DT_Boolean" "routed_type DT_Int8" "routed_type DT_Int16" "routed_type DT_Int32" "routed_type DT_Int64"
  "routed_type DT_Float64" "routed_type DT_Date32" "routed_type DT_Null" "routed_type DT_Utf8" "routed_type DT_Utf8View"
  "routed_type (DT_Timestamp u z)" "routed_type DT_Binary" "routed_type (DT_Map f b)"
  by (simp_all add: routed_type_def is_scalar_def)

lemma engine_types_routed [simp]:
  "routed_type (engine_string g)" "routed_type (all_null_type g)" "routed_type (map_type t)" "routed_type (int_type g st)"
  by (auto simp: engine_string_def string_type_def all_null_type_def map_type_def int_type_def scalar_types_routed
      split: all_null.splits option.splits)

lemma choose_type_routed: "choose_type g st c s = (Some t, s') \<Longrightarrow> routed_type t"
proof -
  have "routed_type (if u = Second \<or> u = Millisecond then DT_Time32 u else DT_Time64 u)" for u
    by (cases u) (auto simp: routed_type_def is_scalar_def)
  then show "choose_type g st c s = (Some t, s') \<Longrightarrow> routed_type t"
    by (auto simp: choose_type_def Let_def choose_zoned_def choose_datetime_def scalar_types_routed
        split: if_splits tz_shape.splits option.splits) (metis)+
qed

definition scalar_ok :: "scalar \<Rightarrow> bool" where
  "scalar_ok s \<longleftrightarrow> routed_type (sc_data_type s) \<and> gml_keys (sc_metadata s)"

lemma scalar_ok_add [simp]:
  "scalar_ok (add_sc_reason r s) = scalar_ok s" "scalar_ok (first_reason r s) = scalar_ok s"
  "scalar_ok s \<Longrightarrow> routed_type t \<Longrightarrow> scalar_ok (with_data_type t s)"
  "scalar_ok s \<Longrightarrow> gml_key k \<Longrightarrow> scalar_ok (add_sc_meta k v s)"
  by (auto simp: scalar_ok_def add_sc_reason_def first_reason_def with_data_type_def add_sc_meta_def gml_keys_def)

lemma meta_gml [simp]:
  "gml_key META_MAX_SCALE" "gml_key META_TZ_OFFSET" "gml_key META_SRS_NAME" "gml_key META_AXIS_SWAPPED"
  "gml_key META_AXIS_DECISION" "gml_key META_CONTENT" "gml_key (META_ATTR_PREFIX @ x)" "gml_key META_PATH"
  by (simp_all add: gml_key_def starts_with_def meta_defs)

lemma choose_type_ok: "choose_type g st c s = (t, s') \<Longrightarrow> scalar_ok s \<Longrightarrow> scalar_ok s'"
  by (auto simp: choose_type_def Let_def choose_zoned_def choose_datetime_def zone_kept_def
      split: if_splits tz_shape.splits option.splits)

lemma choose_first_ok: "choose_first g st ts cs s = (t, s') \<Longrightarrow> scalar_ok s \<Longrightarrow> scalar_ok s'"
  by (induction cs arbitrary: s) (auto split: if_splits prod.splits option.splits dest: choose_type_ok)

lemma scalar_of_ok: "scalar_ok (scalar_of g stats)"
proof -
  have start: "scalar_ok \<lparr>sc_data_type = engine_string g, sc_metadata = [], sc_reasons = r\<rparr>" for r
    by (simp add: scalar_ok_def gml_keys_def)
  have chosen: "scalar_ok s' \<and> (\<forall>t. r = Some t \<longrightarrow> routed_type t)"
    if "choose_first g st ts cs s = (r, s')" "scalar_ok s" for st ts cs s r s'
    using that choose_first_ok [OF that] by (auto dest!: choose_first_some choose_type_routed)
  show ?thesis
    unfolding scalar_of_def Let_def
    by (auto simp: start split: option.splits prod.splits if_splits dest!: chosen)
qed

subsection \<open>Every column can be bound\<close>

definition plan_ok :: "plan \<Rightarrow> bool" where
  "plan_ok plan \<longleftrightarrow> (case pl_data_type plan of Some t \<Rightarrow> routed_type t | None \<Rightarrow> True)"

definition overrides_ok :: "inference_options \<Rightarrow> bool" where
  "overrides_ok opts \<longleftrightarrow>
     list_all (\<lambda>(pat, action). case action of Override_Type t \<Rightarrow> routed_type t | _ \<Rightarrow> True) (io_overrides opts)"

definition engine_ok :: "engine \<Rightarrow> bool" where
  "engine_ok g \<longleftrightarrow> geo_fields_ok (eg_env g) \<and> overrides_ok (eg_options g)"

lemma default_plan_ok [simp]: "plan_ok default_plan"
  by (simp add: plan_ok_def default_plan_def)

lemma apply_override_ok:
  "plan_ok plan \<Longrightarrow> (case snd ov of Override_Type t \<Rightarrow> routed_type t | _ \<Rightarrow> True) \<Longrightarrow> plan_ok (apply_override g ov plan)"
  by (auto simp: apply_override_def plan_ok_def Let_def split: field_override.splits prod.splits)

lemma fold_override_ok:
  "plan_ok plan \<Longrightarrow> \<forall>ov \<in> set ovs. (case snd ov of Override_Type t \<Rightarrow> routed_type t | _ \<Rightarrow> True) \<Longrightarrow>
   plan_ok (fold (apply_override g) ovs plan)"
  by (induction ovs arbitrary: plan) (auto simp: apply_override_ok)

lemma plan_ok_other [simp]:
  "plan_ok (plan\<lparr>pl_list := x\<rparr>) = plan_ok plan" "plan_ok (plan\<lparr>pl_reasons := r\<rparr>) = plan_ok plan"
  by (simp_all add: plan_ok_def)

lemma plan_for_ok:
  assumes "engine_ok g"
  shows "plan_ok (plan_for g steps attribute)"
proof -
  have "\<forall>ov \<in> set (io_overrides (eg_options g)). (case snd ov of Override_Type t \<Rightarrow> routed_type t | _ \<Rightarrow> True)"
    using assms by (auto simp: engine_ok_def overrides_ok_def list_all_iff split_def)
  then show ?thesis unfolding plan_for_def Let_def
    by (intro fold_override_ok) auto
qed

definition cols_ok :: "qname set \<Rightarrow> col list \<Rightarrow> bool" where
  "cols_ok V cols \<longleftrightarrow> (\<forall>c \<in> set cols. col_ok V c)"

lemma cols_ok_simps [simp]:
  "cols_ok V []" "cols_ok V (c # cols) \<longleftrightarrow> col_ok V c \<and> cols_ok V cols"
  "cols_ok V (a @ b) \<longleftrightarrow> cols_ok V a \<and> cols_ok V b" "cols_ok V (concat cs) \<longleftrightarrow> (\<forall>c \<in> set cs. cols_ok V c)"
  by (auto simp: cols_ok_def)

lemma col_ok_reasons [simp]:
  "col_ok V (push_reason r c) = col_ok V c" "col_ok V (front_reasons rs c) = col_ok V c"
  by (simp_all add: col_ok_def push_reason_def front_reasons_def split: option.splits)

lemma field_kind_ok: "geo_field e f \<Longrightarrow> (list \<Longrightarrow> e = ''wkb'') \<Longrightarrow> kind_ok list (Field_Col f)"
  by (auto simp: kind_ok_def)

lemma env_fields [intro]:
  assumes "engine_ok g"
  shows "kind_ok list (Field_Col (ev_wkb_field (eg_env g) m n))"
    "kind_ok False (Field_Col (ev_native_field (eg_env g) k d m n))" "kind_ok False (Field_Col (ev_box_field (eg_env g) d m n))"
proof -
  note geo = assms [unfolded engine_ok_def geo_fields_ok_def]
  show "kind_ok list (Field_Col (ev_wkb_field (eg_env g) m n))"
    using geo by (intro field_kind_ok [of "''wkb''"]) simp_all
  show "kind_ok False (Field_Col (ev_native_field (eg_env g) k d m n))"
    using geo by (intro field_kind_ok [of "native_name k"]) simp_all
  show "kind_ok False (Field_Col (ev_box_field (eg_env g) d m n))"
    using geo by (intro field_kind_ok [of "''box''"]) simp_all
qed

lemma cols_ok_front [simp]: "cols_ok V (front_first rs cols) = cols_ok V cols"
  by (cases cols) (simp_all add: front_first_def)

lemma new_col_ok:
  "steps_in V steps \<Longrightarrow> anchor_ok steps anchor \<Longrightarrow> steps \<noteq> [] \<Longrightarrow> routed_type t \<Longrightarrow> col_ok V (new_col steps anchor t)"
  by (simp add: col_ok_defs)

lemma gml_keys_update [simp]: "gml_keys m \<Longrightarrow> gml_key k \<Longrightarrow> gml_keys (AList.update k v m)"
  unfolding gml_keys_def by (rule update_all) simp_all

lemma gml_keys_nil [simp]: "gml_keys []"
  by (simp add: gml_keys_def)

lemma gml_keys_insert_all: "gml_keys new \<Longrightarrow> gml_keys m \<Longrightarrow> gml_keys (insert_all new m)"
  unfolding insert_all_def
proof (induction new arbitrary: m)
  case (Cons kv new)
  have "gml_key (fst kv)" "gml_keys new" using Cons.prems(1) by (simp_all add: gml_keys_def)
  then show ?case using Cons.IH [of "AList.update (fst kv) (snd kv) m"] Cons.prems(2) by (simp add: split_def)
qed simp

lemma scalar_col_ok:
  assumes "steps_in V steps" "anchor_ok steps anchor" "steps \<noteq> []" "plan_ok plan"
  shows "col_ok V ((new_col steps anchor (case pl_data_type plan of Some t \<Rightarrow> t | None \<Rightarrow> sc_data_type (scalar_of g st)))
    \<lparr>co_metadata := insert_all (sc_metadata (scalar_of g st)) [], co_reasons := r\<rparr>)"
  using assms scalar_of_ok [of g st]
  by (auto simp: col_ok_def new_col_def kind_ok_def scalar_ok_def plan_ok_def gml_keys_insert_all split: option.splits)

lemma geometry_col_ok:
  assumes "engine_ok g" "steps_in V steps" "anchor_ok steps anchor" "steps \<noteq> []"
  shows "col_ok V (geometry_col g stats steps anchor)"
proof -
  obtain native why where native: "choose_encoding g stats (anchor \<noteq> None) = (native, why)" by fastforce
  then have list: "anchor \<noteq> None \<Longrightarrow> native = None" by (auto simp: choose_encoding_def Let_def)
  have fields: "kind_ok (anchor \<noteq> None) (Field_Col (case native of None \<Rightarrow> ev_wkb_field (eg_env g) m n
      | Some kind \<Rightarrow> ev_native_field (eg_env g) kind d m n))" for m n d
    using env_fields [OF assms(1)] list by (cases native; cases anchor) simp_all
  have cols: "col_ok V ((new_col steps anchor DT_Null)\<lparr>co_kind := Field_Col (case native of None \<Rightarrow> ev_wkb_field (eg_env g) m n
      | Some kind \<Rightarrow> ev_native_field (eg_env g) kind d m n), co_metadata := meta, co_reasons := r\<rparr>)" if "gml_keys meta" for m n d meta r
    using assms(2-4) fields that unfolding col_ok_def new_col_def by simp
  have meta: "gml_keys (AList.update META_AXIS_DECISION x (AList.update META_AXIS_SWAPPED y (fst (case srs of
      Some u \<Rightarrow> ([(META_SRS_NAME, u)], r u) | None \<Rightarrow> ([], r')))))" for x y srs r r'
    by (cases srs) (simp_all add: gml_keys_def)
  show ?thesis unfolding geometry_col_def native Let_def split_def fst_conv snd_conv
    by (intro cols meta)
qed

lemma box_col_ok:
  assumes "engine_ok g" "steps_in V steps" "steps \<noteq> []"
  shows "col_ok V ((new_col steps None DT_Null)\<lparr>co_kind := Field_Col (ev_box_field (eg_env g) d m n)\<rparr>)"
  using env_fields(3) [OF assms(1)] assms(2,3) by (simp add: col_ok_def new_col_def anchor_ok_def)

lemma attribute_col_ok:
  assumes "steps_in V steps" "anchor_ok steps anchor" "plan_ok plan" "fst a \<in> V"
  shows "col_ok V (attribute_col g node steps anchor prefixed plan a)"
proof -
  have col: "col_ok V ((new_col steps anchor (case pl_data_type plan of Some t \<Rightarrow> t | None \<Rightarrow> sc_data_type (scalar_of g st)))
      \<lparr>co_attribute := Some (fst a, prefixed), co_by_reference := b, co_feature_id := i,
       co_metadata := insert_all (sc_metadata (scalar_of g st)) [], co_reasons := r\<rparr>)" for b i r st
    using scalar_of_ok [of g st] assms
    by (simp add: col_ok_def new_col_def kind_ok_def scalar_ok_def plan_ok_def gml_keys_insert_all split: option.splits)
  have either: "col_ok V x \<Longrightarrow> col_ok V y \<Longrightarrow> col_ok V (if b then x else y)" for x y b by simp
  show ?thesis unfolding attribute_col_def Let_def split_def
    by (intro either col_ok_reasons(2) [THEN iffD2] col)
qed

definition attributes_ok :: "qname set \<Rightarrow> attribute_cols \<Rightarrow> bool" where
  "attributes_ok V out \<longleftrightarrow> cols_ok V (ac_cols out) \<and> cols_ok V (constant_cols out) \<and>
     (\<forall>kvc \<in> set (ac_constants out). gml_key (fst kvc))"

lemma add_attribute_ok:
  assumes "engine_ok g" "steps_in V steps" "anchor_ok steps anchor" "fst a \<in> V" "attributes_ok V out"
  shows "attributes_ok V (add_attribute g node steps anchor shared a out)"
proof -
  have c: "col_ok V (attribute_col g node steps anchor prefixed (plan_for g steps (Some name)) a)" for prefixed name
    using attribute_col_ok [OF assms(2,3) plan_for_ok [OF assms(1)] assms(4)] .
  have new: "attributes_ok V (out\<lparr>ac_cols := ac_cols out @ [c]\<rparr>)" if "col_ok V c" for c
    using assms(5) that by (simp add: attributes_ok_def constant_cols_def)
  have kept: "attributes_ok V (out\<lparr>ac_constants := ac_constants out @ [(META_ATTR_PREFIX @ n, v, c)]\<rparr>)" if "col_ok V c" for c n v
    using assms(5) that by (auto simp: attributes_ok_def constant_cols_def)
  have "attributes_ok V (if b then out else case x of
      Some v \<Rightarrow> out\<lparr>ac_constants := ac_constants out @ [(META_ATTR_PREFIX @ n, v, c)]\<rparr>
    | None \<Rightarrow> out\<lparr>ac_cols := ac_cols out @ [c]\<rparr>)" if "col_ok V c" for b n c and x :: "bytes option"
    by (cases x) (simp_all add: new kept that assms(5))
  from this [OF c] show ?thesis unfolding add_attribute_def Let_def .
qed

lemma attribute_columns_ok:
  assumes "engine_ok g" "steps_in V steps" "anchor_ok steps anchor" "names_in V node"
  shows "attributes_ok V (attribute_columns g node steps anchor)"
proof -
  have "attributes_ok V out \<Longrightarrow> \<forall>a \<in> set kept. fst a \<in> V \<Longrightarrow>
      attributes_ok V (fold (add_attribute g node steps anchor shared) kept out)" for kept shared out
    by (induction kept arbitrary: out) (simp_all add: add_attribute_ok assms(1-3))
  moreover have "\<forall>a \<in> set (filter P (nf_attributes (en_facts node))). fst a \<in> V" for P
    using assms(4) names_in_iff [of V node] by auto
  moreover have "attributes_ok V \<lparr>ac_cols = [], ac_constants = []\<rparr>" by (simp add: attributes_ok_def constant_cols_def)
  ultimately show ?thesis unfolding attribute_columns_def Let_def by blast
qed

lemma nil_reason_ok:
  "steps_in V steps \<Longrightarrow> anchor_ok steps anchor \<Longrightarrow> cols_ok V (nil_reason_cols g node steps anchor)"
  by (auto simp: nil_reason_cols_def Let_def col_ok_def new_col_def NIL_REASON_def kind_ok_def push_reason_def)

lemma own_and_attributes_ok:
  assumes "attributes_ok V attributes" "case own of Some c \<Rightarrow> col_ok V c | None \<Rightarrow> True"
  shows "cols_ok V (own_and_attributes g attributes own)"
proof -
  have one: "col_ok V c \<Longrightarrow> gml_key (fst kvc) \<Longrightarrow> col_ok V (keep_constant g kvc c)" for kvc c
    by (auto simp: keep_constant_def Let_def col_ok_def push_reason_def split: prod.splits option.splits)
  have "col_ok V c \<Longrightarrow> \<forall>kvc \<in> set ks. gml_key (fst kvc) \<Longrightarrow> col_ok V (fold (keep_constant g) ks c)" for ks c
    by (induction ks arbitrary: c) (simp_all add: one)
  then show ?thesis using assms by (auto simp: own_and_attributes_def attributes_ok_def split: option.splits)
qed

lemma own_col_ok:
  assumes "steps_in V steps" "anchor_ok steps anchor" "steps \<noteq> []" "plan_ok plan"
  shows "case own_col g node steps anchor plan alone of Some c \<Rightarrow> col_ok V c | None \<Rightarrow> True"
proof -
  have given: "routed_type (case pl_data_type plan of Some t \<Rightarrow> t | None \<Rightarrow> t')" if "routed_type t'" for t'
    using assms(4) that by (auto simp: plan_ok_def split: option.splits)
  show ?thesis
    using assms scalar_col_ok [OF assms] new_col_ok [OF assms(1-3)] given
    by (auto simp: own_col_def Let_def col_ok_def new_col_def kind_ok_def push_reason_def gml_keys_def
        split: shape.splits mixed_content.splits option.splits)
qed

lemma steps_in_append [simp]: "steps_in V (a @ b) \<longleftrightarrow> steps_in V a \<and> steps_in V b"
  by (auto simp: steps_in_def)

lemma steps_in_single [simp]: "steps_in V [s] \<longleftrightarrow> sp_name s \<in> V"
  by (simp add: steps_in_def)

lemma anchor_ok_append [intro]: "anchor_ok steps anchor \<Longrightarrow> anchor_ok (steps @ ss) anchor"
  by (auto simp: anchor_ok_def split: option.splits)

lemma element_anchor_ok:
  assumes "anchor_ok steps anchor" "steps \<noteq> []"
  shows "anchor_ok steps (fst (element_anchor g node steps anchor plan))"
  using assms by (simp add: element_anchor_def Let_def anchor_ok_def split: option.splits)

lemma bounded_by_ok:
  "engine_ok g \<Longrightarrow> steps_in V steps \<Longrightarrow> steps \<noteq> [] \<Longrightarrow> cols_ok V (bounded_by_cols g node steps)"
  using geometry_col_ok [of g V steps None] box_col_ok [of g V steps]
  by (auto simp: bounded_by_cols_def anchor_ok_def split: option.splits bounded_by.splits)

definition place_ok :: "engine \<Rightarrow> qname set \<Rightarrow> element_node \<Rightarrow> path_step list \<Rightarrow> nat option \<Rightarrow> bool" where
  "place_ok g V node steps anchor \<longleftrightarrow> engine_ok g \<and> names_in V node \<and> steps_in V steps \<and> anchor_ok steps anchor"

lemma place_ok_anchor:
  "place_ok g V node steps anchor \<Longrightarrow> steps \<noteq> [] \<Longrightarrow> place_ok g V node steps (fst (element_anchor g node steps anchor plan))"
  by (simp add: place_ok_def element_anchor_ok)

lemma place_ok_child:
  "place_ok g V node steps anchor \<Longrightarrow> kv \<in> set (en_children node) \<Longrightarrow> sp_name s = fst kv \<Longrightarrow>
   place_ok g V (snd kv) (steps @ [s]) anchor"
  using names_in_iff [of V node] by (auto simp: place_ok_def)

lemma place_ok_wrapper:
  "place_ok g V node steps anchor \<Longrightarrow> en_children node \<noteq> [] \<Longrightarrow> sp_name s = fst (hd (en_children node)) \<Longrightarrow>
   place_ok g V (merge_wrappers (en_children node)) (steps @ [s]) anchor"
  using names_in_iff [of V node] by (auto simp: place_ok_def names_in_wrappers)

lemma place_attributes:
  "place_ok g V node steps anchor \<Longrightarrow> attributes_ok V (attribute_columns g node steps anchor)"
  by (simp add: place_ok_def attribute_columns_ok)

lemma place_nil_reason:
  "place_ok g V node steps anchor \<Longrightarrow> cols_ok V (nil_reason_cols g node steps anchor)"
  by (simp add: place_ok_def nil_reason_ok)

lemma content_leaf_ok:
  "place_ok g V node steps anchor \<Longrightarrow> steps \<noteq> [] \<Longrightarrow> routed_type t \<Longrightarrow> cols_ok V [push_reason r (new_col steps anchor t)]"
  by (simp add: place_ok_def new_col_ok)

lemma cols_ok_map: "(\<And>x. x \<in> set xs \<Longrightarrow> cols_ok V (f x)) \<Longrightarrow> cols_ok V (concat (map f xs))"
  by simp

lemma walk_cols_ok:
  "place_ok g V node steps anchor \<Longrightarrow> cols_ok V (children_cols g node steps anchor)"
  "place_ok g V node steps anchor \<Longrightarrow> steps \<noteq> [] \<Longrightarrow> cols_ok V (element_cols g node steps anchor n)"
  "place_ok g V node steps anchor \<Longrightarrow> steps \<noteq> [] \<Longrightarrow> plan_ok plan \<Longrightarrow> cols_ok V (content_cols g node steps anchor plan)"
  "place_ok g V node steps anchor \<Longrightarrow> steps \<noteq> [] \<Longrightarrow> cols_ok V (wrapper_cols g node steps anchor)"
  "place_ok g V node steps anchor \<Longrightarrow> steps \<noteq> [] \<Longrightarrow> plan_ok plan \<Longrightarrow> cols_ok V (own_content_cols g node steps anchor plan)"
proof (induction g node steps anchor and g node steps anchor n and g node steps anchor plan and g node steps anchor
    and g node steps anchor plan rule: children_cols_element_cols_content_cols_wrapper_cols_own_content_cols.induct)
  case (1 g node steps anchor)
  have "cols_ok V (if steps = [] \<and> is_gml_named (fst kv) ''boundedBy'' then bounded_by_cols g (snd kv) (steps @ [s])
      else element_cols g (snd kv) (steps @ [s]) anchor (nf_instances (en_facts node)))"
    if "kv \<in> set (en_children node)" "s = \<lparr>sp_name = fst kv, sp_wrapper = False, sp_prefixed = p\<rparr>"
      "p = (qlocal (fst kv) \<in> shared_locals (map fst (en_children node)))" for kv s p
  proof -
    have place: "place_ok g V (snd kv) (steps @ [s]) anchor"
      by (rule place_ok_child [OF 1(2) that(1)]) (simp add: that)
    then have "cols_ok V (bounded_by_cols g (snd kv) (steps @ [s]))"
      by (intro bounded_by_ok) (simp_all add: place_ok_def)
    moreover have "\<not> (steps = [] \<and> is_gml_named (fst kv) ''boundedBy'') \<Longrightarrow>
        cols_ok V (element_cols g (snd kv) (steps @ [s]) anchor (nf_instances (en_facts node)))"
      using 1(1) [OF refl that(1) refl refl refl] place that(2,3) by simp
    ultimately show ?thesis by (cases "steps = []") simp_all
  qed
  then show ?case by (subst children_cols.simps) (simp only: Let_def cols_ok_map refl)
next
  case (2 g node steps anchor n)
  obtain a r where a: "element_anchor g node steps anchor (plan_for g steps None) = (a, r)" by fastforce
  have place: "place_ok g V node steps a"
    using place_ok_anchor [OF 2(2,3), of "plan_for g steps None"] a by simp
  have "plan_ok (plan_for g steps None)" using 2(2) by (simp add: place_ok_def plan_for_ok)
  then have "\<not> pl_drop (plan_for g steps None) \<Longrightarrow> cols_ok V (content_cols g node steps a (plan_for g steps None))"
    using 2(1) [OF refl _ a [symmetric] refl place 2(3)] by simp
  then show ?case by (subst element_cols.simps) (simp add: Let_def a)
next
  case (3 g node steps anchor plan)
  note leaf = content_leaf_ok [OF 3(3,4)]
  have geometry: "cols_ok V [geometry_col g stats steps anchor]" for stats
    using 3(3,4) by (simp add: place_ok_def geometry_col_ok)
  have override: "pl_data_type plan = Some t \<Longrightarrow> routed_type t" for t using 3(5) by (simp add: plan_ok_def)
  have collapsed: "cols_ok V (if b then wrapper_cols g node steps anchor else own_content_cols g node steps anchor plan)"
    if "cols_ok V (wrapper_cols g node steps anchor)" "cols_ok V (own_content_cols g node steps anchor plan)" for b
    using that by simp
  show ?case
    using 3(1,2) 3(3-5) leaf geometry override
    by (subst content_cols.simps) (auto simp: Let_def split: option.splits)
next
  case (4 g node steps anchor)
  show ?case
  proof (cases "en_children node = []")
    case True
    then show ?thesis using place_attributes [OF 4(2)] place_nil_reason [OF 4(2)]
      by (subst wrapper_cols.simps) (simp add: Let_def attributes_ok_def)
  next
    case False
    have "cols_ok V (own_content_cols g (merge_wrappers (en_children node))
        (steps @ [\<lparr>sp_name = fst (hd (en_children node)), sp_wrapper = True, sp_prefixed = False\<rparr>]) anchor default_plan)"
      by (rule 4(1) [OF refl False place_ok_wrapper [OF 4(2) False]]) simp_all
    then show ?thesis using place_attributes [OF 4(2)] place_nil_reason [OF 4(2)]
      by (subst wrapper_cols.simps) (simp add: Let_def attributes_ok_def)
  qed
next
  case (5 g node steps anchor plan)
  have own: "case own_col g node steps anchor plan alone of Some c \<Rightarrow> col_ok V c | None \<Rightarrow> True" for alone
    using 5(2-4) by (intro own_col_ok) (simp_all add: place_ok_def)
  show ?case
    using own_and_attributes_ok [OF place_attributes [OF 5(2)] own] place_nil_reason [OF 5(2)] 5(1) [OF refl 5(2)]
    by (subst own_content_cols.simps) (simp add: Let_def)
qed

lemma layer_cols_ok:
  assumes "engine_ok g" "names_in V root"
  shows "cols_ok V (layer_cols g root)"
proof -
  have "place_ok g V root [] None" using assms by (simp add: place_ok_def steps_in_def anchor_ok_def)
  then show ?thesis using walk_cols_ok(1) place_attributes unfolding layer_cols_def Let_def
    by (fastforce simp: attributes_ok_def)
qed

end
