(* ===== verification/Rules_Binding.thy ===== *)
theory Rules_Binding
  imports Rules_Bindable
begin

text \<open>
  The rule engine against the binding: the prefixes of a layer are pairwise different and are declared
  in the schema (\<open>namespaces_declared\<close>), the path written for a column is read back as its path
  (\<open>parse_path_string\<close>), its field is one that binding takes (\<open>into_field_ok\<close>), and so an inferred
  schema is bound to the paths of its columns (\<open>infer_binds\<close>).
\<close>

subsection \<open>Prefixes\<close>

text \<open>What XML says of a name without its prefix, as far as paths go: it has none of their signs.\<close>

definition ncname :: "bytes \<Rightarrow> bool" where
  "ncname s \<longleftrightarrow> s \<noteq> [] \<and> set s \<inter> set ''/:@[]*{'' = {}"

lemma next_number_free: "number_prefix (next_number generated taken) \<notin> set taken"
proof -
  let ?ns = "[generated + 1..<generated + 2 + length taken]"
  have inj: "inj number_prefix"
    using digits_val_show_nat by (intro injI) (metis append_same_eq number_prefix_def same_append_eq)
  have "\<not> set (map number_prefix ?ns) \<subseteq> set taken"
  proof
    assume "set (map number_prefix ?ns) \<subseteq> set taken"
    from card_mono [OF finite_set this] have "card (set (map number_prefix ?ns)) \<le> length taken"
      using card_length [of taken] by simp
    moreover have "card (number_prefix ` set ?ns) = card (set ?ns)"
      by (rule card_image) (rule inj_on_subset [OF inj subset_UNIV])
    moreover have "card (set ?ns) = length taken + 1" by (simp only: set_upt card_atLeastLessThan)
    ultimately show False unfolding set_map by linarith
  qed
  then have free: "\<exists>n \<in> set ?ns. number_prefix n \<notin> set taken" by auto
  have found: "P (case find P ns of Some n \<Rightarrow> n | None \<Rightarrow> 0)" if "\<exists>n \<in> set ns. P n" for P and ns :: "nat list"
    using that by (induction ns) auto
  show ?thesis unfolding next_number_def by (rule found [OF free])
qed

lemma digits_ncname:
  assumes "list_all is_ascii_digit s" "s \<noteq> []"
  shows "ncname (''ns'' @ s)"
proof -
  have "c \<notin> set ''/:@[]*{''" if "is_ascii_digit c" for c
    using that by (auto simp: is_ascii_digit_def byte_val_def)
  then show ?thesis using assms by (auto simp: ncname_def list_all_iff)
qed

definition prefixes_ok :: "(bytes \<times> bytes) list \<Rightarrow> bytes set \<Rightarrow> bool" where
  "prefixes_ok m uris \<longleftrightarrow> fst ` set m = uris \<and> distinct (map fst m) \<and> distinct (map snd m) \<and> (\<forall>up \<in> set m. ncname (snd up))"

lemma choose_prefix_ok:
  assumes "prefixes_ok (fst st) uris" "uri \<notin> uris" "\<forall>up \<in> set noted. ncname (snd up)"
  shows "prefixes_ok (fst (choose_prefix noted uri st)) (insert uri uris)"
proof -
  obtain m generated where st: "st = (m, generated)" by fastforce
  have add: "prefixes_ok (m @ [(uri, p)]) (insert uri uris)" if "p \<notin> set (map snd m)" "ncname p" for p
    using assms(1,2) that unfolding st by (auto simp: prefixes_ok_def)
  have known: "known_prefix u = Some p \<Longrightarrow> ncname p" for u p
    by (auto simp: known_prefix_def ncname_def split: if_splits)
  have noted: "map_of noted u = Some p \<Longrightarrow> ncname p" for u p
    using assms(3) map_of_SomeD by fastforce
  have new: "ncname (number_prefix n)" for n
    unfolding number_prefix_def by (rule digits_ncname) (rule show_nat_digits)+
  show ?thesis
    using add known noted add [OF next_number_free new] unfolding st choose_prefix_def
    by (auto simp: Let_def split: option.splits)
qed

lemma set_fold_add_new: "set (fold add_new xs ys) = set xs \<union> set ys"
  by (induction xs arbitrary: ys) (auto simp: add_new_def)

lemma distinct_fold_add_new: "distinct ys \<Longrightarrow> distinct (fold add_new xs ys)"
  by (induction xs arbitrary: ys) (auto simp: add_new_def)

lemma set_collect: "set (collect_namespaces root) = {uri. \<exists>q \<in> set (node_names root). qns q = Some uri}"
  by (auto simp: collect_namespaces_def set_fold_add_new List.map_filter_def image_iff) force

lemma layer_prefixes_ok:
  assumes "\<forall>up \<in> set (do_prefixes observation). ncname (snd up)"
  shows "prefixes_ok (prefixes_for_layer observation root) (set (collect_namespaces root))"
proof -
  have "prefixes_ok (fst (fold (choose_prefix (do_prefixes observation)) us st)) (set us \<union> uris)"
    if "prefixes_ok (fst st) uris" "distinct us" "set us \<inter> uris = {}" for us st uris
    using that
  proof (induction us arbitrary: st uris)
    case (Cons u us)
    from Cons.IH [OF choose_prefix_ok [OF Cons.prems(1) _ assms]] Cons.prems(2,3) show ?case by simp
  qed simp
  from this [of "([], 0)" "{}" "collect_namespaces root"] show ?thesis
    by (simp add: prefixes_for_layer_def prefixes_ok_def collect_namespaces_def distinct_fold_add_new)
qed

lemma prefix_of_known:
  assumes "prefixes_ok m uris" "uri \<in> uris"
  shows "(uri, prefix_of m uri) \<in> set m"
proof -
  have "map_of m uri \<noteq> None" using assms by (simp add: prefixes_ok_def map_of_eq_None_iff)
  then show ?thesis by (auto simp: prefix_of_def dest: map_of_SomeD split: option.splits)
qed

lemma prefix_of_inj:
  assumes "prefixes_ok m uris" "a \<in> uris" "b \<in> uris" "prefix_of m a = prefix_of m b"
  shows "a = b"
proof -
  have "inj_on snd (set m)" using assms(1) by (simp add: prefixes_ok_def distinct_map)
  from inj_onD [OF this _ prefix_of_known [OF assms(1,2)] prefix_of_known [OF assms(1,3)]] assms(4)
  show ?thesis by simp
qed

lemma map_of_insert_all_keeps: "map_of m k \<noteq> None \<Longrightarrow> map_of (insert_all new m) k \<noteq> None"
  unfolding insert_all_def by (induction new arbitrary: m) (auto simp: update_conv')

lemma map_of_insert_all_new: "k \<in> fst ` set new \<Longrightarrow> map_of (insert_all new m) k \<noteq> None"
proof (induction new arbitrary: m)
  case (Cons kv new)
  have step: "insert_all (kv # new) m = insert_all new (AList.update (fst kv) (snd kv) m)"
    by (simp add: insert_all_def split_def)
  show ?case
  proof (cases "k = fst kv")
    case True
    then show ?thesis unfolding step by (intro map_of_insert_all_keeps) (simp add: update_conv')
  next
    case False
    then show ?thesis using Cons unfolding step by simp
  qed
qed simp

lemma insert_all_all: "\<forall>kv \<in> set new. P kv \<Longrightarrow> \<forall>kv \<in> set m. P kv \<Longrightarrow> \<forall>kv \<in> set (insert_all new m). P kv"
  unfolding insert_all_def
proof (induction new arbitrary: m)
  case (Cons kv new)
  have "\<forall>kv' \<in> set (AList.update (fst kv) (snd kv) m). P kv'" using Cons.prems by (intro update_all) simp_all
  then show ?case using Cons.IH Cons.prems by (simp add: split_def)
qed simp

lemma distinct_insert_all: "distinct (map fst m) \<Longrightarrow> distinct (map fst (insert_all new m))"
  unfolding insert_all_def by (induction new arbitrary: m) (auto simp: distinct_update)

lemma fold_insert_keeps:
  "map_of m k \<noteq> None \<Longrightarrow> map_of (fold (\<lambda>c. insert_all (f c)) cols m) k \<noteq> None"
  by (induction cols arbitrary: m) (simp_all del: not_None_eq add: map_of_insert_all_keeps)

text \<open>The prefixes a schema declares: each prefix that a path of it uses, for its namespace.\<close>

lemma namespaces_declared:
  assumes ok: "prefixes_ok prefixes uris"
    and names: "\<forall>c \<in> set cols. \<forall>kv \<in> set (prefixes_used prefixes c). \<exists>uri \<in> uris. kv = (prefix_of prefixes uri, uri)"
    and used: "c \<in> set cols" "(prefix_of prefixes uri, uri) \<in> set (prefixes_used prefixes c)" "uri \<in> uris"
  shows "map_of (cols_namespaces prefixes cols) (prefix_of prefixes uri) = Some uri"
proof -
  let ?m = "fold (\<lambda>c. insert_all (prefixes_used prefixes c)) cols []"
  have all: "\<forall>kv \<in> set (fold (\<lambda>c. insert_all (prefixes_used prefixes c)) cs m). \<exists>uri \<in> uris. kv = (prefix_of prefixes uri, uri)"
    if "\<forall>kv \<in> set m. \<exists>uri \<in> uris. kv = (prefix_of prefixes uri, uri)" "set cs \<subseteq> set cols" for cs m
    using that
  proof (induction cs arbitrary: m)
    case (Cons c cs)
    have "\<forall>kv \<in> set (insert_all (prefixes_used prefixes c) m). \<exists>uri \<in> uris. kv = (prefix_of prefixes uri, uri)"
      using Cons.prems names by (intro insert_all_all) auto
    then show ?case using Cons.IH Cons.prems(2) by simp
  qed simp
  have "map_of (fold (\<lambda>c. insert_all (prefixes_used prefixes c)) cs m) (prefix_of prefixes uri) \<noteq> None"
    if "c \<in> set cs" for cs m
    using that
  proof (induction cs arbitrary: m)
    case (Cons d cs)
    show ?case
    proof (cases "d = c")
      case True
      have "map_of (insert_all (prefixes_used prefixes c) m) (prefix_of prefixes uri) \<noteq> None"
        using used(2) by (intro map_of_insert_all_new) force
      from fold_insert_keeps [OF this] show ?thesis using True by simp
    next
      case False
      then show ?thesis using Cons by simp
    qed
  qed simp
  then obtain v where v: "map_of ?m (prefix_of prefixes uri) = Some v" using used(1) by blast
  have "\<forall>kv \<in> set ?m. \<exists>uri \<in> uris. kv = (prefix_of prefixes uri, uri)" by (rule all) simp_all
  from bspec [OF this map_of_SomeD [OF v]]
  obtain u where u: "u \<in> uris" "prefix_of prefixes uri = prefix_of prefixes u" "v = u" by auto
  then have "v = uri" using prefix_of_inj [OF ok used(3) u(1,2)] by simp
  then show ?thesis using v by (simp add: cols_namespaces_def)
qed

lemma distinct_namespaces: "distinct (map fst (cols_namespaces prefixes cols))"
proof -
  have "distinct (map fst m) \<Longrightarrow> distinct (map fst (fold (\<lambda>c. insert_all (prefixes_used prefixes c)) cs m))" for cs m
    by (induction cs arbitrary: m) (simp_all add: distinct_insert_all)
  then show ?thesis by (simp add: cols_namespaces_def)
qed

subsection \<open>Paths\<close>

definition written_name :: "bool \<Rightarrow> qname \<Rightarrow> qname" where
  "written_name prefixed q = mk_qname (if prefixed then qns q else None) (qlocal q)"

definition route_step :: "path_step \<Rightarrow> qname" where
  "route_step s = (if sp_wrapper s then ANY_STEP else written_name (sp_prefixed s) (sp_name s))"

lemma strip_suffix_append [simp]: "strip_suffix p (a @ p) = Some a"
proof -
  have "strip_prefix xs (xs @ ys) = Some ys" for xs ys :: "'a list" by (induction xs) simp_all
  then show ?thesis by (simp add: strip_suffix_def)
qed

lemma strip_suffix_other: "last p \<notin> set s \<Longrightarrow> p \<noteq> [] \<Longrightarrow> strip_suffix p s = None"
  by (cases p rule: rev_cases; cases s rule: rev_cases) (simp_all add: strip_suffix_def)

definition declared :: "(bytes \<times> bytes) list \<Rightarrow> (bytes \<times> bytes) list \<Rightarrow> bool \<Rightarrow> qname \<Rightarrow> bool" where
  "declared prefixes namespaces prefixed q \<longleftrightarrow> ncname (qlocal q) \<and>
     (case qns q of Some uri \<Rightarrow> prefixed \<longrightarrow> ncname (prefix_of prefixes uri) \<and> map_of namespaces (prefix_of prefixes uri) = Some uri
      | None \<Rightarrow> True)"

lemma display_signs:
  assumes "declared prefixes namespaces prefixed q"
  shows "display_name prefixes q prefixed \<noteq> []" "set (display_name prefixes q prefixed) \<inter> set ''/@[]*{'' = {}"
  using assms by (auto simp: declared_def display_name_def prefixed_name_def ncname_def split: option.splits)

lemma step_name_display:
  assumes "declared prefixes namespaces prefixed q"
  shows "step_name namespaces (display_name prefixes q prefixed) = Inr (written_name prefixed q)"
proof -
  let ?s = "display_name prefixes q prefixed"
  have "hd ?s \<noteq> CHR ''{''" using display_signs [OF assms] by (cases ?s) auto
  then have brace: "strip_prefix ''{'' ?s = None" by (cases ?s) auto
  have signs: "\<not> (?s = [] \<or> set ''[]@*'' \<inter> set ?s \<noteq> {})" using display_signs [OF assms] by auto
  show ?thesis
  proof (cases "prefixed \<and> qns q \<noteq> None")
    case True
    then obtain uri where uri: "qns q = Some uri" by auto
    then have s: "?s = prefix_of prefixes uri @ CHR '':'' # qlocal q" using True by (simp add: display_name_def prefixed_name_def)
    have "split_once CHR '':'' ?s = Some (prefix_of prefixes uri, qlocal q)"
      unfolding s split_once_Some_iff using assms uri True by (auto simp: declared_def ncname_def)
    then show ?thesis using brace signs assms uri True
      by (simp add: step_name_def declared_def written_name_def)
  next
    case False
    then have s: "?s = qlocal q" by (auto simp: display_name_def prefixed_name_def split: option.splits)
    have "split_once CHR '':'' ?s = None"
      unfolding s split_once_None_iff using assms by (auto simp: declared_def ncname_def)
    then show ?thesis using brace signs False by (auto simp: step_name_def written_name_def s)
  qed
qed

definition step_declared :: "(bytes \<times> bytes) list \<Rightarrow> (bytes \<times> bytes) list \<Rightarrow> path_step \<Rightarrow> bool" where
  "step_declared prefixes namespaces s \<longleftrightarrow> sp_wrapper s \<or> declared prefixes namespaces (sp_prefixed s) (sp_name s)"

lemma part_signs:
  assumes "step_declared prefixes namespaces s"
  shows "path_part prefixes s \<noteq> []" "CHR ''/'' \<notin> set (path_part prefixes s)" "CHR '']'' \<notin> set (path_part prefixes s)"
    "hd (path_part prefixes s) \<noteq> CHR ''@''"
proof -
  have "path_part prefixes s \<noteq> [] \<and> CHR ''/'' \<notin> set (path_part prefixes s) \<and> CHR '']'' \<notin> set (path_part prefixes s) \<and>
      hd (path_part prefixes s) \<noteq> CHR ''@''"
  proof (cases "sp_wrapper s")
    case False
    then have d: "declared prefixes namespaces (sp_prefixed s) (sp_name s)" using assms by (simp add: step_declared_def)
    then show ?thesis using display_signs [OF d] False
      by (cases "display_name prefixes (sp_name s) (sp_prefixed s)") (auto simp: path_part_def)
  qed (simp add: path_part_def)
  then show "path_part prefixes s \<noteq> []" "CHR ''/'' \<notin> set (path_part prefixes s)" "CHR '']'' \<notin> set (path_part prefixes s)"
    "hd (path_part prefixes s) \<noteq> CHR ''@''" by simp_all
qed

lemma part_name:
  assumes "step_declared prefixes namespaces s"
  shows "(if path_part prefixes s = ''*'' then Inr ANY_STEP else step_name namespaces (path_part prefixes s)) = Inr (route_step s)"
proof (cases "sp_wrapper s")
  case False
  then have d: "declared prefixes namespaces (sp_prefixed s) (sp_name s)" using assms by (simp add: step_declared_def)
  then have "path_part prefixes s \<noteq> ''*''" using display_signs(2) [OF d] False by (auto simp: path_part_def)
  then show ?thesis using step_name_display [OF d] False by (simp add: path_part_def route_step_def)
qed (simp add: path_part_def route_step_def)

definition step_parts :: "(bytes \<times> bytes) list \<Rightarrow> nat option \<Rightarrow> nat \<Rightarrow> path_step list \<Rightarrow> bytes list" where
  "step_parts prefixes anchor k ss =
     map (\<lambda>(index, s). path_part prefixes s @ (if anchor = Some index then ''[]'' else [])) (enumerate k ss)"

lemma parse_step_part:
  assumes "step_declared prefixes namespaces s" "length (cp_steps parsed) = k" "anchor = Some k \<longrightarrow> cp_anchor parsed = None"
  shows "parse_parts namespaces path ((path_part prefixes s @ (if anchor = Some k then ''[]'' else [])) # rest) parsed =
     parse_parts namespaces path rest
       (parsed\<lparr>cp_steps := cp_steps parsed @ [route_step s], cp_anchor := if anchor = Some k then Some k else cp_anchor parsed\<rparr>)"
proof -
  note signs = part_signs [OF assms(1)]
  let ?part = "path_part prefixes s @ (if anchor = Some k then ''[]'' else [])"
  have at: "strip_prefix ''@'' ?part = None" using signs(1,4) by (cases "path_part prefixes s") auto
  have suffix: "strip_suffix ''[]'' ?part = (if anchor = Some k then Some (path_part prefixes s) else None)"
    using signs(3) strip_suffix_append [of "''[]''" "path_part prefixes s"] by (simp add: strip_suffix_other)
  have same: "parsed\<lparr>cp_steps := x, cp_anchor := cp_anchor parsed\<rparr> = parsed\<lparr>cp_steps := x\<rparr>"
    "parsed\<lparr>cp_anchor := y, cp_steps := x\<rparr> = parsed\<lparr>cp_steps := x, cp_anchor := y\<rparr>" for x y by simp_all
  have "?part \<noteq> []" using signs(1) by simp
  then show ?thesis using part_name [OF assms(1)] assms(2,3)
    by (subst parse_parts.simps(2)) (auto simp: at suffix Let_def same)
qed

lemma parse_step_parts:
  assumes "\<forall>s \<in> set ss. step_declared prefixes namespaces s" "length (cp_steps parsed) = k"
    "cp_anchor parsed = (case anchor of Some a \<Rightarrow> if a < k then Some a else None | None \<Rightarrow> None)"
  shows "parse_parts namespaces path (step_parts prefixes anchor k ss @ rest) parsed =
     parse_parts namespaces path rest
       (parsed\<lparr>cp_steps := cp_steps parsed @ map route_step ss,
          cp_anchor := (case anchor of Some a \<Rightarrow> if a < k + length ss then Some a else None | None \<Rightarrow> None)\<rparr>)"
  using assms
proof (induction ss arbitrary: k parsed)
  case Nil
  have keep: "parsed\<lparr>cp_anchor := x\<rparr> = parsed" if "cp_anchor parsed = x" for x using that by auto
  have "parsed\<lparr>cp_anchor := (case anchor of Some a \<Rightarrow> if a < k then Some a else None | None \<Rightarrow> None)\<rparr> = parsed"
    by (rule keep) (rule Nil(3))
  then show ?case by (simp add: step_parts_def cong: option.case_cong)
next
  case (Cons s ss)
  let ?parsed = "parsed\<lparr>cp_steps := cp_steps parsed @ [route_step s], cp_anchor := if anchor = Some k then Some k else cp_anchor parsed\<rparr>"
  have "parse_parts namespaces path (step_parts prefixes anchor k (s # ss) @ rest) parsed =
      parse_parts namespaces path (step_parts prefixes anchor (Suc k) ss @ rest) ?parsed"
    using parse_step_part [of prefixes namespaces s parsed k anchor path "step_parts prefixes anchor (Suc k) ss @ rest"] Cons.prems
    by (auto simp: step_parts_def)
  also have "\<dots> = parse_parts namespaces path rest (?parsed\<lparr>cp_steps := cp_steps ?parsed @ map route_step ss,
      cp_anchor := (case anchor of Some a \<Rightarrow> if a < Suc k + length ss then Some a else None | None \<Rightarrow> None)\<rparr>)"
    using Cons.prems by (intro Cons.IH) (auto split: option.splits)
  finally show ?case by (cases anchor) simp_all
qed

definition col_declared :: "(bytes \<times> bytes) list \<Rightarrow> (bytes \<times> bytes) list \<Rightarrow> col \<Rightarrow> bool" where
  "col_declared prefixes namespaces c \<longleftrightarrow>
     (\<forall>s \<in> set (co_steps c). step_declared prefixes namespaces s) \<and> anchor_ok (co_steps c) (co_anchor c) \<and>
     (case co_attribute c of Some (a, prefixed) \<Rightarrow> declared prefixes namespaces prefixed a | None \<Rightarrow> co_steps c \<noteq> [])"

definition column_route :: "col \<Rightarrow> column_path" where
  "column_route c =
     \<lparr>cp_steps = map route_step (co_steps c),
      cp_attribute = map_option (\<lambda>(a, prefixed). written_name prefixed a) (co_attribute c), cp_anchor = co_anchor c\<rparr>"

text \<open>The path that the engine writes for a column is read back as the path of the column.\<close>

lemma parse_path_string:
  assumes "col_declared prefixes namespaces c"
  shows "parse_path (path_string prefixes c) namespaces = Inr (column_route c)"
proof -
  let ?steps = "step_parts prefixes (co_anchor c) 0 (co_steps c)"
  let ?attribute = "case co_attribute c of Some (a, prefixed) \<Rightarrow> [''@'' @ display_name prefixes a prefixed] | None \<Rightarrow> []"
  have path: "path_string prefixes c = join_with ''/'' (?steps @ ?attribute)"
    by (simp add: path_string_def step_parts_def)
  have steps: "\<forall>s \<in> set (co_steps c). step_declared prefixes namespaces s" using assms by (simp add: col_declared_def)
  have attribute: "co_attribute c = Some (a, prefixed) \<Longrightarrow> declared prefixes namespaces prefixed a" for a prefixed
    using assms by (simp add: col_declared_def)
  have part: "w \<noteq> [] \<and> CHR ''/'' \<notin> set w" if "w \<in> set (?steps @ ?attribute)" for w
  proof -
    have "w \<in> set ?steps \<Longrightarrow> \<exists>s \<in> set (co_steps c). \<exists>e. w = path_part prefixes s @ e \<and> CHR ''/'' \<notin> set e"
      by (fastforce simp: step_parts_def in_set_enumerate_eq)
    then show ?thesis
      using that steps part_signs(1,2) display_signs [OF attribute]
      by (fastforce split: option.splits)
  qed
  have parts: "?steps @ ?attribute \<noteq> []"
    using assms by (auto simp: col_declared_def step_parts_def enumerate_eq_zip split: option.splits)
  have "join_with ''/'' ws \<noteq> []" if "ws \<noteq> []" "hd ws \<noteq> []" for ws
    using that by (cases ws; cases "tl ws") auto
  then have "path_string prefixes c \<noteq> []"
    unfolding path using parts part [OF hd_in_set [OF parts]] by blast
  moreover have "split_on CHR ''/'' (path_string prefixes c) = ?steps @ ?attribute"
    unfolding path using part by (intro split_on_join [OF parts]) (auto simp: list_all_iff)
  ultimately have "parse_path (path_string prefixes c) namespaces =
      parse_parts namespaces (path_string prefixes c) (?steps @ ?attribute) \<lparr>cp_steps = [], cp_attribute = None, cp_anchor = None\<rparr>"
    by (simp add: parse_path_def)
  also have "\<dots> = parse_parts namespaces (path_string prefixes c) ?attribute
      \<lparr>cp_steps = map route_step (co_steps c), cp_attribute = None, cp_anchor = co_anchor c\<rparr>"
    using assms by (subst parse_step_parts [OF steps]) (cases "co_anchor c"; simp add: col_declared_def anchor_ok_def)+
  also have "\<dots> = Inr (column_route c)"
    using step_name_display [OF attribute]
    by (cases "co_attribute c") (auto simp: column_route_def)
  finally show ?thesis .
qed

subsection \<open>Fields\<close>

definition bindable :: "nat option \<Rightarrow> col_kind \<Rightarrow> (bytes \<times> bytes) list \<Rightarrow> bool" where
  "bindable anchor k m \<longleftrightarrow> kind_ok (anchor \<noteq> None) k \<and> gml_keys m"

lemma gml_keys_none: "gml_keys m \<Longrightarrow> \<not> gml_key k \<Longrightarrow> map_of m k = None"
  by (auto simp: gml_keys_def map_of_eq_None_iff)

lemma not_gml_keys [simp]: "\<not> gml_key EXTENSION_NAME" "\<not> gml_key ''ARROW:extension:metadata''"
  by (simp_all add: gml_key_def starts_with_def meta_defs)

lemma map_of_insert_all:
  "distinct (map fst new) \<Longrightarrow> map_of (insert_all new m) k = (case map_of new k of Some v \<Rightarrow> Some v | None \<Rightarrow> map_of m k)"
proof (induction new arbitrary: m)
  case (Cons kv new)
  have "map_of (insert_all (kv # new) m) k = map_of (insert_all new (AList.update (fst kv) (snd kv) m)) k"
    by (simp add: insert_all_def split_def)
  moreover have "map_of new (fst kv) = None" using Cons.prems by (auto simp: map_of_eq_None_iff)
  ultimately show ?case using Cons.IH Cons.prems by (cases "k = fst kv") (simp_all add: update_conv' split: option.split)
qed (simp add: insert_all_def)

lemma geo_field_path: "geo_field e f \<Longrightarrow> map_of (fd_metadata f) META_PATH = None"
  by (auto simp: geo_field_def map_of_eq_None_iff meta_defs)

lemma geo_with_name [simp]: "geo_field e (with_name name f) = geo_field e f"
  by (simp add: geo_field_def with_name_def extension_name_def)

lemma geo_is_geoarrow: "extension_name f = Some (''geoarrow.'' @ e) \<Longrightarrow> is_geoarrow f"
  by (simp add: is_geoarrow_def starts_with_def)

lemma routed_not_list:
  "routed_type t \<Longrightarrow> (case t of DT_List _ \<Rightarrow> False | DT_LargeList _ \<Rightarrow> False | DT_Struct _ \<Rightarrow> False | DT_Decimal _ _ _ \<Rightarrow> False | _ \<Rightarrow> True)"
  by (auto simp: routed_type_def is_scalar_def split: data_type.splits)

text \<open>The value of a route for an item of a routed type, or of a geometry.\<close>

lemma route_value_routed:
  assumes "extension_name item = None" "routed_type (fd_type item)"
  shows "\<exists>v. route_value f item list = Inr v"
proof -
  have "\<not> is_geoarrow item" using assms(1) by (simp add: is_geoarrow_def)
  then show ?thesis using assms(2)
    by (cases "fd_type item") (auto simp: route_value_def routed_type_def is_scalar_def)
qed

lemma route_value_geo:
  assumes "extension_name item = Some (''geoarrow.'' @ e)" "list \<Longrightarrow> e = ''wkb''"
  shows "\<exists>v. route_value f item list = Inr v"
  using assms geo_is_geoarrow [OF assms(1)] by (auto simp: route_value_def)

lemma into_field_ok:
  assumes "bindable (co_anchor c) (co_kind c) (co_metadata c)" and f: "f = fst (into_field name path c)"
  shows "fd_name f = name" "map_of (fd_metadata f) META_PATH = Some path"
    "fst (list_item f) = (co_anchor c \<noteq> None)" "\<exists>v. route_value f (snd (list_item f)) (co_anchor c \<noteq> None) = Inr v"
proof -
  let ?m = "AList.update META_PATH path (co_metadata c)"
  have kind: "kind_ok (co_anchor c \<noteq> None) (co_kind c)" and gml: "gml_keys ?m"
    using assms(1) by (auto simp: bindable_def)
  have plain: "map_of ?m EXTENSION_NAME = None" by (rule gml_keys_none [OF gml not_gml_keys(1)])
  have path: "map_of ?m META_PATH = Some path" by (simp add: update_conv')
  have "fd_name f = name \<and> map_of (fd_metadata f) META_PATH = Some path \<and> fst (list_item f) = (co_anchor c \<noteq> None) \<and>
      (\<exists>v. route_value f (snd (list_item f)) (co_anchor c \<noteq> None) = Inr v)"
  proof (cases "co_anchor c \<noteq> None")
    case True
    define item where "item = (case co_kind c of Scalar_Col t \<Rightarrow> new_field name t True | Field_Col f \<Rightarrow> with_name name f)"
    have f': "f = with_metadata ?m (new_field name (DT_List (with_name ''item'' item)) True)"
      using True by (simp add: f into_field_def item_def [symmetric])
    have "\<not> is_geoarrow f" using plain by (simp add: f' is_geoarrow_def extension_name_def with_metadata_def)
    then have li: "list_item f = (True, with_name ''item'' item)" by (simp add: f' list_item_def with_metadata_def new_field_def)
    have "\<exists>v. route_value f (with_name ''item'' item) True = Inr v"
    proof (cases "co_kind c")
      case (Scalar_Col t)
      then show ?thesis using kind
        by (intro route_value_routed) (simp_all add: item_def with_name_def new_field_def extension_name_def kind_ok_def)
    next
      case (Field_Col g)
      then obtain e where "geo_field e g" "e = ''wkb''" using kind True by (auto simp: kind_ok_def)
      then show ?thesis using Field_Col
        by (intro route_value_geo [of _ e]) (simp_all add: item_def geo_field_def with_name_def extension_name_def)
    qed
    then show ?thesis using path True by (simp add: li) (simp add: f' with_metadata_def new_field_def)
  next
    case False
    show ?thesis
    proof (cases "co_kind c")
      case (Scalar_Col t)
      have f': "f = with_metadata ?m (new_field name t True)"
        using False Scalar_Col by (simp add: f into_field_def new_field_def insert_all_def)
      have t: "routed_type t" using kind Scalar_Col by (simp add: kind_ok_def)
      have li: "list_item f = (False, f)"
        using routed_not_list [OF t] by (cases t) (simp_all add: f' list_item_def with_metadata_def new_field_def)
      have "\<exists>v. route_value f f False = Inr v"
        using t plain by (intro route_value_routed) (simp_all add: f' with_metadata_def new_field_def extension_name_def)
      then show ?thesis using path False by (simp add: li) (simp add: f' with_metadata_def new_field_def)
    next
      case (Field_Col g)
      then obtain e where e: "geo_field e g" using kind by (auto simp: kind_ok_def)
      have f': "f = with_metadata (insert_all (fd_metadata g) ?m) (with_name name g)"
        using False Field_Col by (simp add: f into_field_def with_name_def)
      have d: "distinct (map fst (fd_metadata g))" using e by (simp add: geo_field_def)
      have ext: "extension_name f = Some (''geoarrow.'' @ e)"
        using e by (simp add: f' extension_name_def with_metadata_def map_of_insert_all [OF d]) (simp add: geo_field_def extension_name_def)
      have li: "list_item f = (False, f)"
        using geo_is_geoarrow [OF ext] by (simp add: list_item_def split: data_type.splits)
      have "map_of (fd_metadata f) META_PATH = Some path"
        using path by (simp add: f' with_metadata_def map_of_insert_all [OF d] geo_field_path [OF e])
      moreover have "\<exists>v. route_value f f False = Inr v" by (rule route_value_geo [OF ext]) simp
      moreover have "fd_name f = name" by (simp add: f' with_metadata_def with_name_def)
      ultimately show ?thesis using False by (simp add: li)
    qed
  qed
  then show "fd_name f = name" "map_of (fd_metadata f) META_PATH = Some path"
    "fst (list_item f) = (co_anchor c \<noteq> None)" "\<exists>v. route_value f (snd (list_item f)) (co_anchor c \<noteq> None) = Inr v"
    by simp_all
qed

definition route_path :: "field_route \<Rightarrow> column_path" where
  "route_path r = \<lparr>cp_steps = fr_source_path r, cp_attribute = fr_attribute r, cp_anchor = fr_anchor r\<rparr>"

lemma bind_field_ok:
  assumes "bindable (co_anchor c) (co_kind c) (co_metadata c)" "col_declared prefixes namespaces c"
  shows "\<exists>r. bind_field namespaces index (fst (into_field name (path_string prefixes c) c)) = Inr r \<and>
     route_path r = column_route c \<and> fr_field_path r = [index]"
proof -
  define f where "f = fst (into_field name (path_string prefixes c) c)"
  note field = into_field_ok [OF assms(1) f_def]
  have li: "list_item f = (co_anchor c \<noteq> None, snd (list_item f))" by (rule prod_eqI) (simp_all only: fst_conv snd_conv field(3))
  obtain v where v: "route_value f (snd (list_item f)) (co_anchor c \<noteq> None) = Inr v" by (rule exE [OF field(4)])
  have steps: "co_anchor c \<noteq> None \<Longrightarrow> co_steps c \<noteq> []" using assms(2) by (auto simp: col_declared_def anchor_ok_def)
  have "bind_field namespaces index f = Inr \<lparr>fr_source_path = cp_steps (column_route c), fr_attribute = cp_attribute (column_route c),
      fr_value = v, fr_field_path = [index], fr_anchor = co_anchor c\<rparr>"
    unfolding bind_field_def field(2) option.case Let_def
    by (subst li, cases "co_anchor c") (use steps v in \<open>simp_all add: parse_path_string [OF assms(2)] column_route_def\<close>)
  then show ?thesis unfolding f_def [symmetric]
    by (simp add: route_path_def) (simp add: column_route_def)
qed

definition col_field :: "(bytes \<times> bytes) list \<Rightarrow> col \<Rightarrow> bytes \<Rightarrow> arrow_field" where
  "col_field prefixes c name = fst (into_field name (path_string prefixes c) c)"

lemma fst_cols_fields: "map fst (cols_fields prefixes cols) = map2 (col_field prefixes) cols (column_names prefixes cols)"
  by (simp add: cols_fields_def col_field_def split_def)

lemma bind_fields_ok:
  assumes "\<forall>c \<in> set cols. bindable (co_anchor c) (co_kind c) (co_metadata c) \<and> col_declared prefixes namespaces c"
    "length names = length cols"
  shows "\<exists>routes. bind_fields layer namespaces index (map2 (col_field prefixes) cols names) = Inr routes \<and>
     map route_path routes = map column_route cols \<and>
     map fr_field_path routes = map (\<lambda>i. [i]) [index..<index + length cols]"
  using assms
proof (induction cols arbitrary: names index)
  case (Cons c cols)
  then obtain name names' where names: "names = name # names'" "length names' = length cols" by (cases names) auto
  have c: "bindable (co_anchor c) (co_kind c) (co_metadata c)" "col_declared prefixes namespaces c"
    and cols: "\<forall>c \<in> set cols. bindable (co_anchor c) (co_kind c) (co_metadata c) \<and> col_declared prefixes namespaces c"
    using Cons.prems(1) by simp_all
  from bind_field_ok [OF c, of index name, folded col_field_def]
  obtain r where r: "bind_field namespaces index (col_field prefixes c name) = Inr r"
      "route_path r = column_route c" "fr_field_path r = [index]" by (elim exE conjE) (rule that)
  from Cons.IH [OF cols names(2), of "Suc index"]
  obtain routes where rs: "bind_fields layer namespaces (Suc index) (map2 (col_field prefixes) cols names') = Inr routes"
    "map route_path routes = map column_route cols" "map fr_field_path routes = map (\<lambda>i. [i]) [Suc index..<Suc index + length cols]"
    by (elim exE conjE) (rule that)
  have "[index..<index + length (c # cols)] = index # [Suc index..<Suc index + length cols]"
    by (simp add: upt_conv_Cons del: upt_Suc)
  then show ?case using rs r by (intro exI [of _ "r # routes"]) (simp add: names del: upt_Suc)
qed simp

subsection \<open>An inferred schema is bound to the paths of its columns\<close>

lemma length_name_loop: "length taken = length steps \<Longrightarrow> length (name_loop steps taken) = length steps"
proof (induction steps taken rule: name_loop.induct)
  case (1 steps taken)
  then show ?case by (subst name_loop.simps) (simp add: Let_def)
qed

lemma length_column_names [simp]: "length (column_names prefixes cols) = length cols"
  by (simp add: column_names_def column_names_of_def length_name_loop)

text \<open>serde_json reads back a map of strings.\<close>

definition json_ok :: "json_map \<Rightarrow> bool" where
  "json_ok json \<longleftrightarrow>
     (\<forall>m. distinct (map fst m) \<longrightarrow> (\<exists>m'. js_read json (js_write json m) = Inr m' \<and> map_of m' = map_of m))"

lemma schema_namespaces_ok:
  assumes "json_ok (ev_json (eg_env g))"
  shows "\<exists>m. schema_namespaces (ev_json (eg_env g)) (cols_schema g cols) = Inr m \<and>
     map_of m = map_of (cols_namespaces (eg_prefixes g) cols)"
proof (cases "cols_namespaces (eg_prefixes g) cols = []")
  case True
  have "map_of (as_metadata (cols_schema g cols)) META_NS = None"
    by (simp add: cols_schema_def Let_def True meta_defs)
  then show ?thesis using True by (simp add: schema_namespaces_def)
next
  case False
  have "map_of (as_metadata (cols_schema g cols)) META_NS = Some (js_write (ev_json (eg_env g)) (cols_namespaces (eg_prefixes g) cols))"
    using False by (simp add: cols_schema_def Let_def meta_defs map_add_def)
  moreover obtain m where "js_read (ev_json (eg_env g)) (js_write (ev_json (eg_env g)) (cols_namespaces (eg_prefixes g) cols)) = Inr m"
    "map_of m = map_of (cols_namespaces (eg_prefixes g) cols)"
    using assms distinct_namespaces unfolding json_ok_def by blast
  ultimately show ?thesis by (simp add: schema_namespaces_def)
qed

lemma prefixes_used_iff:
  "kv \<in> set (prefixes_used prefixes c) \<longleftrightarrow>
   (\<exists>q uri. qns q = Some uri \<and> kv = (prefix_of prefixes uri, uri) \<and>
      ((\<exists>s \<in> set (co_steps c). sp_prefixed s \<and> \<not> sp_wrapper s \<and> sp_name s = q) \<or> co_attribute c = Some (q, True)))"
proof -
  have filtered: "x \<in> set (List.map_filter f xs) \<longleftrightarrow> (\<exists>y \<in> set xs. f y = Some x)" for x xs and f :: "qname \<Rightarrow> (bytes \<times> bytes) option"
    by (force simp: List.map_filter_def)
  have names: "q \<in> set (map sp_name (filter (\<lambda>s. sp_prefixed s \<and> \<not> sp_wrapper s) (co_steps c)) @
        (case co_attribute c of Some (a, prefixed) \<Rightarrow> if prefixed then [a] else [] | None \<Rightarrow> [])) \<longleftrightarrow>
      (\<exists>s \<in> set (co_steps c). sp_prefixed s \<and> \<not> sp_wrapper s \<and> sp_name s = q) \<or> co_attribute c = Some (q, True)" for q
    by (cases "co_attribute c") (auto split: if_splits)
  show ?thesis unfolding prefixes_used_def filtered Bex_def names by (simp add: map_option_eq_Some) blast
qed

lemma cols_declared:
  assumes prefixes: "prefixes_ok prefixes uris" and cols: "cols_ok V cols" "c \<in> set cols"
    and names: "\<forall>q \<in> V. ncname (qlocal q) \<and> (\<forall>uri. qns q = Some uri \<longrightarrow> uri \<in> uris)"
    and m: "map_of m = map_of (cols_namespaces prefixes cols)"
  shows "col_declared prefixes m c"
proof -
  have ok: "col_ok V d" if "d \<in> set cols" for d using cols(1) that by (simp add: cols_ok_def)
  have known: "\<exists>uri \<in> uris. kv = (prefix_of prefixes uri, uri)"
    if d: "d \<in> set cols" and kv: "kv \<in> set (prefixes_used prefixes d)" for d kv
  proof -
    obtain q uri where q: "qns q = Some uri" "kv = (prefix_of prefixes uri, uri)" and
        place: "(\<exists>s \<in> set (co_steps d). sp_prefixed s \<and> \<not> sp_wrapper s \<and> sp_name s = q) \<or> co_attribute d = Some (q, True)"
      using kv unfolding prefixes_used_iff by blast
    from place have "q \<in> V"
    proof
      assume "\<exists>s \<in> set (co_steps d). sp_prefixed s \<and> \<not> sp_wrapper s \<and> sp_name s = q"
      then show ?thesis using ok [OF d] by (auto simp: col_ok_def steps_in_def)
    next
      assume "co_attribute d = Some (q, True)"
      then show ?thesis using ok [OF d] by (simp add: col_ok_def)
    qed
    then show ?thesis using names q by blast
  qed
  have declared: "declared prefixes m p q"
    if q: "q \<in> V" and used: "\<And>uri. p \<Longrightarrow> qns q = Some uri \<Longrightarrow> (prefix_of prefixes uri, uri) \<in> set (prefixes_used prefixes c)" for p q
  proof -
    have "ncname (prefix_of prefixes uri) \<and> map_of m (prefix_of prefixes uri) = Some uri" if "p" "qns q = Some uri" for uri
    proof -
      have uri: "uri \<in> uris" using names q that(2) by simp
      have "ncname (prefix_of prefixes uri)"
        using prefix_of_known [OF prefixes uri] prefixes by (auto simp: prefixes_ok_def)
      moreover have "map_of m (prefix_of prefixes uri) = Some uri" unfolding m
        by (rule namespaces_declared [OF prefixes _ cols(2) used [OF that] uri]) (use known in blast)
      ultimately show ?thesis by simp
    qed
    then show ?thesis using names q by (simp add: declared_def split: option.split)
  qed
  have nil: "declared prefixes m False NIL_REASON"
    by (simp add: declared_def NIL_REASON_def mk_qname_def ncname_def)
  have "step_declared prefixes m s" if s: "s \<in> set (co_steps c)" for s
  proof -
    have "declared prefixes m (sp_prefixed s) (sp_name s)" if "\<not> sp_wrapper s"
    proof (rule declared)
      show "sp_name s \<in> V" using ok [OF cols(2)] s by (simp add: col_ok_def steps_in_def)
      show "(prefix_of prefixes uri, uri) \<in> set (prefixes_used prefixes c)"
        if "sp_prefixed s" "qns (sp_name s) = Some uri" for uri
        unfolding prefixes_used_iff using s that \<open>\<not> sp_wrapper s\<close> by blast
    qed
    then show ?thesis by (auto simp: step_declared_def)
  qed
  moreover have "declared prefixes m p a" if "co_attribute c = Some (a, p)" for a p
  proof (cases "a \<in> V")
    case True
    show ?thesis
    proof (rule declared [OF True])
      show "(prefix_of prefixes uri, uri) \<in> set (prefixes_used prefixes c)" if "p" "qns a = Some uri" for uri
        unfolding prefixes_used_iff using \<open>co_attribute c = Some (a, p)\<close> that by auto
    qed
  next
    case False
    then have "a = NIL_REASON \<and> \<not> p" using ok [OF cols(2)] that by (simp add: col_ok_def)
    then show ?thesis using nil by simp
  qed
  ultimately show ?thesis
    using ok [OF cols(2)] by (cases "co_attribute c") (auto simp: col_declared_def col_ok_def)
qed

text \<open>
  C7. A schema inferred from a file can be read with: for names that are XML names, every column
  of the schema is bound, in its order, to the path, the attribute and the list anchor for which the
  engine made it (a prefix in a path is read as the namespace it was written for), and no column is
  refused.
\<close>

theorem infer_binds:
  assumes "map_of (do_layers observation) layer = Some lo"
    and "\<forall>q \<in> set (node_names (lo_root lo)). ncname (qlocal q)"
    and "\<forall>up \<in> set (do_prefixes observation). ncname (snd up)"
    and "geo_fields_ok env" and "json_ok (ev_json env)" and "overrides_ok (for_layer (to_clark layer) opts)"
  shows "\<exists>bound. infer_schema env observation layer opts sampled = Inr bound \<and> ls_layer bound = layer \<and>
     map route_path (ls_routes bound) =
       map column_route (layer_cols (layer_engine env observation layer lo opts sampled) (lo_root lo)) \<and>
     map fr_field_path (ls_routes bound) = map (\<lambda>i. [i]) [0..<length (as_fields (ls_schema bound))]"
proof -
  define g where "g = layer_engine env observation layer lo opts sampled"
  let ?cols = "layer_cols g (lo_root lo)"
  let ?V = "set (node_names (lo_root lo))"
  let ?uris = "set (collect_namespaces (lo_root lo))"
  have g: "eg_env g = env" "eg_prefixes g = prefixes_for_layer observation (lo_root lo)"
    "eg_options g = for_layer (to_clark layer) opts" by (simp_all add: g_def layer_engine_def)
  have cols: "cols_ok ?V ?cols"
    by (rule layer_cols_ok) (simp_all add: engine_ok_def g assms(4,6) names_in_def)
  have prefixes: "prefixes_ok (eg_prefixes g) ?uris"
    unfolding g(2) by (rule layer_prefixes_ok) (rule assms(3))
  obtain m where m: "schema_namespaces (ev_json (eg_env g)) (cols_schema g ?cols) = Inr m"
    "map_of m = map_of (cols_namespaces (eg_prefixes g) ?cols)"
    using schema_namespaces_ok [of g ?cols] assms(5) g(1) by auto
  have names: "\<forall>q \<in> ?V. ncname (qlocal q) \<and> (\<forall>uri. qns q = Some uri \<longrightarrow> uri \<in> ?uris)"
    using assms(2) by (auto simp: set_collect)
  have "\<forall>c \<in> set ?cols. bindable (co_anchor c) (co_kind c) (co_metadata c) \<and> col_declared (eg_prefixes g) m c"
  proof
    fix c assume c: "c \<in> set ?cols"
    then have "bindable (co_anchor c) (co_kind c) (co_metadata c)"
      using cols by (simp add: cols_ok_def col_ok_def bindable_def)
    then show "bindable (co_anchor c) (co_kind c) (co_metadata c) \<and> col_declared (eg_prefixes g) m c"
      using cols_declared [OF prefixes cols c names m(2)] by simp
  qed
  from bind_fields_ok [OF this, of "column_names (eg_prefixes g) ?cols" layer 0]
  obtain routes where routes: "bind_fields layer m 0 (map2 (col_field (eg_prefixes g)) ?cols (column_names (eg_prefixes g) ?cols)) = Inr routes"
    "map route_path routes = map column_route ?cols" "map fr_field_path routes = map (\<lambda>i. [i]) [0..<length ?cols]"
    by auto
  have fields: "as_fields (cols_schema g ?cols) = map2 (col_field (eg_prefixes g)) ?cols (column_names (eg_prefixes g) ?cols)"
    by (simp add: cols_schema_def Let_def fst_cols_fields)
  have bound: "bind_schema (ev_json env) layer (cols_schema g ?cols) =
      Inr \<lparr>ls_layer = layer, ls_schema = cols_schema g ?cols, ls_routes = routes, ls_decisions = []\<rparr>"
    using m(1) routes(1) by (simp add: bind_schema_def fields g(1))
  have "infer_schema env observation layer opts sampled = map_sum id (\<lambda>bound. bound\<lparr>ls_decisions :=
      map2 (\<lambda>name (_, reasons). \<lparr>fx_field = name, fx_reasons = reasons\<rparr>) (column_names (eg_prefixes g) ?cols)
        (cols_fields (eg_prefixes g) ?cols)\<rparr>) (bind_schema (ev_json env) layer (cols_schema g ?cols))"
    by (simp add: infer_schema_def assms(1) g_def Let_def)
  then show ?thesis unfolding g_def [symmetric]
    using routes(2,3) by (simp add: bound fields)
qed

text \<open>A way to write maps of strings that is read back, for a witness.\<close>

definition enc_bytes :: "bytes \<Rightarrow> bytes" where
  "enc_bytes s = concat (map (\<lambda>c. [CHR ''+'', c]) s) @ ''.''"

fun dec_bytes :: "bytes \<Rightarrow> bytes \<times> bytes" where
  "dec_bytes [] = ([], [])"
| "dec_bytes (x # r) =
     (if x = CHR ''.'' then ([], r) else (case r of [] \<Rightarrow> ([], []) | c # r \<Rightarrow> (let (s, r) = dec_bytes r in (c # s, r))))"

fun dec_map :: "nat \<Rightarrow> bytes \<Rightarrow> (bytes \<times> bytes) list" where
  "dec_map 0 r = []"
| "dec_map (Suc n) r =
     (if r = [] then [] else (let (k, r) = dec_bytes r; (v, r) = dec_bytes r in (k, v) # dec_map n r))"

definition enc_map :: "(bytes \<times> bytes) list \<Rightarrow> bytes" where
  "enc_map m = concat (map (\<lambda>(k, v). enc_bytes k @ enc_bytes v) m)"

definition sample_json :: json_map where
  "sample_json = \<lparr>js_write = enc_map, js_read = (\<lambda>r. Inr (dec_map (length r) r))\<rparr>"

lemma dec_enc_bytes: "dec_bytes (enc_bytes s @ r) = (s, r)"
  by (induction s) (simp_all add: enc_bytes_def)

lemma dec_enc_map: "length m \<le> n \<Longrightarrow> dec_map n (enc_map m) = m"
proof (induction m arbitrary: n)
  case Nil
  then show ?case by (cases n) (simp_all add: enc_map_def)
next
  case (Cons kv m)
  then obtain n' where n: "n = Suc n'" "length m \<le> n'" by (cases n) auto
  have "enc_map (kv # m) = enc_bytes (fst kv) @ enc_bytes (snd kv) @ enc_map m" by (simp add: enc_map_def split_def)
  moreover have "enc_map (kv # m) \<noteq> []" by (simp add: enc_map_def enc_bytes_def split_def)
  ultimately show ?case using Cons.IH [OF n(2)] by (simp add: n dec_enc_bytes)
qed

lemma sample_json_ok: "json_ok sample_json"
proof -
  have "length m \<le> length (enc_map m)" for m
    by (induction m) (auto simp: enc_map_def enc_bytes_def)
  then show ?thesis by (simp add: json_ok_def sample_json_def dec_enc_map)
qed

text \<open>A layer with two elements of one local name, and an attribute in a namespace.\<close>

definition sample_root :: element_node where
  "sample_root =
     Element_Node (default_facts\<lparr>nf_instances := 3\<rparr>)
       [(mk_qname (Some ''urn:a'') ''code'', Element_Node (default_facts\<lparr>nf_instances := 5, nf_max_occurs := 2\<rparr>) []),
        (mk_qname (Some ''urn:b'') ''code'', Element_Node (default_facts\<lparr>nf_instances := 3\<rparr>) []),
        (mk_qname (Some ''urn:b'') ''note'', Element_Node (default_facts\<lparr>nf_instances := 3\<rparr>) [])]"

definition sample_observation :: dataset_observation where
  "sample_observation = empty_observation\<lparr>
     do_layers := [(mk_qname None ''road'', \<lparr>lo_feature_count = 3, lo_root = sample_root, lo_extent = None\<rparr>)],
     do_prefixes := [(''urn:a'', ''a'')]\<rparr>"

lemma sample_geo_fields: "geo_fields_ok (sample_env\<lparr>ev_json := sample_json\<rparr>)"
  by (simp add: geo_fields_ok_def sample_env_def sample_field_def geo_field_def extension_name_def EXTENSION_NAME_def)

lemma sample_routes:
  "map column_route (layer_cols (layer_engine (sample_env\<lparr>ev_json := sample_json\<rparr>) sample_observation (mk_qname None ''road'')
       \<lparr>lo_feature_count = 3, lo_root = sample_root, lo_extent = None\<rparr> default_inference None) sample_root) =
   [\<lparr>cp_steps = [mk_qname (Some ''urn:a'') ''code''], cp_attribute = None, cp_anchor = Some 0\<rparr>,
    \<lparr>cp_steps = [mk_qname (Some ''urn:b'') ''code''], cp_attribute = None, cp_anchor = None\<rparr>,
    \<lparr>cp_steps = [mk_qname None ''note''], cp_attribute = None, cp_anchor = None\<rparr>]"
  by (simp add: layer_cols_def Let_def attribute_columns_def constant_cols_def sample_root_def children_cols.simps
      element_cols.simps content_cols.simps own_content_cols.simps default_facts_def plan_for_def layer_engine_def for_layer_def default_inference_def
      default_structure_def default_plan_def element_anchor_def is_gml_named_def mk_qname_def
      own_and_attributes_def own_col_def node_shape_def nil_reason_cols_def front_first_def front_reasons_def push_reason_def new_col_def
      column_route_def route_step_def written_name_def shared_locals_def is_type_wrapper_def list_ex_iff text_count_def data_attributes_def)

theorem infer_binds_witness:
  "\<exists>bound. infer_schema (sample_env\<lparr>ev_json := sample_json\<rparr>) sample_observation (mk_qname None ''road'') default_inference None = Inr bound \<and>
     map route_path (ls_routes bound) =
       [\<lparr>cp_steps = [mk_qname (Some ''urn:a'') ''code''], cp_attribute = None, cp_anchor = Some 0\<rparr>,
        \<lparr>cp_steps = [mk_qname (Some ''urn:b'') ''code''], cp_attribute = None, cp_anchor = None\<rparr>,
        \<lparr>cp_steps = [mk_qname None ''note''], cp_attribute = None, cp_anchor = None\<rparr>]"
proof -
  have layer: "map_of (do_layers sample_observation) (mk_qname None ''road'') =
      Some \<lparr>lo_feature_count = 3, lo_root = sample_root, lo_extent = None\<rparr>"
    by (simp add: sample_observation_def)
  have names: "\<forall>q \<in> set (node_names sample_root). ncname (qlocal q)"
    by (simp add: sample_root_def node_names.simps default_facts_def mk_qname_def ncname_def)
  have prefixes: "\<forall>up \<in> set (do_prefixes sample_observation). ncname (snd up)"
    by (simp add: sample_observation_def ncname_def)
  have overrides: "overrides_ok (for_layer (to_clark (mk_qname None ''road'')) default_inference)"
    by (simp add: for_layer_def default_inference_def overrides_ok_def)
  show ?thesis
    using infer_binds [OF layer _ prefixes sample_geo_fields _ overrides, of None] names sample_json_ok
    by (auto simp: sample_routes)
qed

end
