(* ===== verification/Xml_Reader.thy ===== *)
theory Xml_Reader
  imports Splitter
begin

text \<open>
  The XML reader of a chunk (\<open>crates/xeibe-core/src/reader.rs\<close>): text is merged over references and
  CDATA sections, names are resolved, a DTD is an error, and an element can be skipped. The tokens are
  quick-xml's: a reader holds those still to come (\<open>raw_event\<close>), with names already resolved and
  attributes already unescaped. \<open>reads_content\<close> says that a reader delivers the content of an element as
  a list of trees; \<open>skip_element_content\<close> that skipping an element ends where reading it does.
\<close>

subsection \<open>What quick-xml gives\<close>

datatype ns_resolution = Ns_Unbound | Ns_Bound bytes | Ns_Unknown bytes

text \<open>
  An attribute of a tag: a namespace declaration with its prefix, its value and whether the value is
  a slice of the input (\<open>Cow::Borrowed\<close>), or an attribute with its resolved name, its value as
  written, and the value unescaped unless that fails. A malformed attribute is not an item.
\<close>

datatype raw_attribute =
  Raw_Xmlns "bytes option" bytes bool
| Raw_Attribute ns_resolution bytes bytes "bytes option"

record raw_tag =
  rt_namespace :: ns_resolution
  rt_local :: bytes
  rt_name :: bytes
  rt_attributes :: "raw_attribute list"

text \<open>
  An event of \<open>NsReader::read_event\<close> with empty elements expanded and end tags checked; the name of a
  reference comes with its character (\<open>resolve_char_ref\<close>), \<open>Raw_Other\<close> is a comment or a processing
  instruction, \<open>Raw_Decl\<close> the XML declaration, and \<open>Raw_Failed\<close> an error of the library at a position.
\<close>

datatype raw_event =
  Raw_Start raw_tag
| Raw_End raw_tag
| Raw_Text bytes
| Raw_CData bytes
| Raw_Ref bytes "nat + bytes option"
| Raw_DocType
| Raw_Other
| Raw_Decl
| Raw_Failed nat nat
| Raw_Eof

datatype read_message =
  Library_Error nat
| Undeclared_Prefix_In bytes bytes
| Undefined_Entity bytes
| Unexpected_End_In_Element
| Unexpected_End_In_Geometry
| Unexpected_End_Of_Chunk

datatype read_error = Read_Xml location read_message | Read_Dtd location

subsection \<open>The reader\<close>

text \<open>
  A \<open>GmlReader\<close>: the events still to come, each with the position after it; the position now; the
  event read ahead, with its start. The interned names (\<open>names\<close>) only budget_share memory, and the tag of the
  last start, which \<open>current_start\<close> hands out, is passed to those who ask for it.
\<close>

record gml_reader =
  gr_events :: "(raw_event \<times> nat) list"
  gr_position :: nat
  gr_pending :: "(raw_event \<times> nat) option"
  gr_open :: "qname list"
  gr_base_offset :: nat
  gr_feature_offsets :: "feature_offset list"
  gr_source :: nat

definition new_reader :: "(raw_event \<times> nat) list \<Rightarrow> nat \<Rightarrow> gml_reader" where
  "new_reader events base_offset =
     \<lparr>gr_events = events, gr_position = 0, gr_pending = None, gr_open = [], gr_base_offset = base_offset,
      gr_feature_offsets = [], gr_source = 0\<rparr>"

definition with_source :: "nat \<Rightarrow> gml_reader \<Rightarrow> gml_reader" where
  "with_source source r = r\<lparr>gr_source := source\<rparr>"

text \<open>\<open>quick_xml\<close> reads the events from the bytes of the chunk.\<close>

definition for_chunk :: "(feature_chunk \<Rightarrow> (raw_event \<times> nat) list) \<Rightarrow> feature_chunk \<Rightarrow> gml_reader" where
  "for_chunk events chunk =
     (with_source (fc_source chunk) (new_reader (events chunk) (fc_byte_offset chunk)))
       \<lparr>gr_feature_offsets := fc_feature_offsets chunk\<rparr>"

definition reader_stream_offset :: "gml_reader \<Rightarrow> nat \<Rightarrow> nat" where
  "reader_stream_offset r position = stream_offset (gr_feature_offsets r) (gr_base_offset r) position"

definition reader_location_at :: "gml_reader \<Rightarrow> nat \<Rightarrow> location" where
  "reader_location_at r position =
     \<lparr>loc_source = gr_source r, loc_byte_offset = reader_stream_offset r position, loc_feature_seq = None, loc_gml_id = None\<rparr>"

definition reader_location :: "gml_reader \<Rightarrow> location" where
  "reader_location r = reader_location_at r (gr_position r)"

definition reader_error :: "gml_reader \<Rightarrow> nat \<Rightarrow> read_message \<Rightarrow> read_error" where
  "reader_error r position m = Read_Xml (reader_location_at r position) m"

definition read_raw :: "gml_reader \<Rightarrow> read_error + (raw_event \<times> nat) \<times> gml_reader" where
  "read_raw r =
     (case gr_pending r of
        Some p \<Rightarrow> Inr (p, r\<lparr>gr_pending := None\<rparr>)
      | None \<Rightarrow>
          (case gr_events r of
             [] \<Rightarrow> Inr ((Raw_Eof, gr_position r), r)
           | (event, after) # events \<Rightarrow>
               (let r' = r\<lparr>gr_events := events, gr_position := after\<rparr>
                in case event of
                     Raw_Failed e at \<Rightarrow> Inl (reader_error r' at (Library_Error e))
                   | _ \<Rightarrow> Inr ((event, gr_position r), r'))))"

definition reader_left :: "gml_reader \<Rightarrow> nat" where
  "reader_left r = length (gr_events r) + (case gr_pending r of Some (event, _) \<Rightarrow> if event = Raw_Eof then 0 else 1 | None \<Rightarrow> 0)"

lemma read_raw_left:
  "read_raw r = Inr ((event, start), r') \<Longrightarrow> event \<noteq> Raw_Eof \<Longrightarrow> reader_left r' < reader_left r"
  "read_raw r = Inr ((event, start), r') \<Longrightarrow> reader_left r' \<le> reader_left r"
  by (auto simp: read_raw_def reader_left_def Let_def split: option.splits list.splits prod.splits raw_event.splits)

definition resolve_tag :: "gml_reader \<Rightarrow> raw_tag \<Rightarrow> read_error + qname" where
  "resolve_tag r tag =
     (case rt_namespace tag of
        Ns_Unbound \<Rightarrow> Inr (mk_qname None (rt_local tag))
      | Ns_Bound uri \<Rightarrow> Inr (mk_qname (Some uri) (rt_local tag))
      | Ns_Unknown prefix \<Rightarrow> Inl (reader_error r (gr_position r) (Undeclared_Prefix_In prefix (rt_name tag))))"

definition expand_reference :: "gml_reader \<Rightarrow> bytes \<Rightarrow> nat + bytes option \<Rightarrow> nat \<Rightarrow> read_error + bytes" where
  "expand_reference r name char_ref start =
     (case char_ref of
        Inr (Some c) \<Rightarrow> Inr c
      | Inl e \<Rightarrow> Inl (reader_error r start (Library_Error e))
      | Inr None \<Rightarrow>
          (if name = ''amp'' then Inr ''&'' else if name = ''lt'' then Inr ''<'' else if name = ''gt'' then Inr ''>''
           else if name = ''quot'' then Inr [quote_char] else if name = ''apos'' then Inr [apos_char]
           else Inl (reader_error r start (Undefined_Entity name))))"

text \<open>\<open>merge_text\<close>: append the text, CDATA and references that follow.\<close>

function merge_text :: "bytes \<Rightarrow> gml_reader \<Rightarrow> read_error + bytes \<times> gml_reader" where
  "merge_text s r =
     (case read_raw r of
        Inl e \<Rightarrow> Inl e
      | Inr ((event, start), r') \<Rightarrow>
          (case event of
             Raw_Text txt \<Rightarrow> merge_text (s @ txt) r'
           | Raw_CData txt \<Rightarrow> merge_text (s @ txt) r'
           | Raw_Ref name char_ref \<Rightarrow>
               (case expand_reference r' name char_ref start of
                  Inl e \<Rightarrow> Inl e | Inr expanded \<Rightarrow> merge_text (s @ expanded) r')
           | Raw_Other \<Rightarrow> merge_text s r'
           | _ \<Rightarrow> Inr (s, r'\<lparr>gr_pending := Some (event, start)\<rparr>)))"
  by pat_completeness auto
termination
  by (relation "measure (\<lambda>(s, r). reader_left r)") (auto dest: read_raw_left)

declare merge_text.simps [simp del]

datatype xml_event = Ev_Start qname "raw_attribute list" | Ev_End qname | Ev_Text bytes | Ev_Eof

function next_event :: "gml_reader \<Rightarrow> read_error + xml_event \<times> gml_reader" where
  "next_event r =
     (case read_raw r of
        Inl e \<Rightarrow> Inl e
      | Inr ((event, start), r') \<Rightarrow>
          (case event of
             Raw_Start tag \<Rightarrow>
               (case resolve_tag r' tag of
                  Inl e \<Rightarrow> Inl e
                | Inr name \<Rightarrow> Inr (Ev_Start name (rt_attributes tag), r'\<lparr>gr_open := name # gr_open r'\<rparr>))
           | Raw_End tag \<Rightarrow>
               (case gr_open r' of
                  name # opened \<Rightarrow> Inr (Ev_End name, r'\<lparr>gr_open := opened\<rparr>)
                | [] \<Rightarrow> (case resolve_tag r' tag of Inl e \<Rightarrow> Inl e | Inr name \<Rightarrow> Inr (Ev_End name, r')))
           | Raw_Text first \<Rightarrow> map_sum id (\<lambda>(s, r). (Ev_Text s, r)) (merge_text first r')
           | Raw_CData first \<Rightarrow> map_sum id (\<lambda>(s, r). (Ev_Text s, r)) (merge_text first r')
           | Raw_Ref name char_ref \<Rightarrow>
               (case expand_reference r' name char_ref start of
                  Inl e \<Rightarrow> Inl e
                | Inr first \<Rightarrow> map_sum id (\<lambda>(s, r). (Ev_Text s, r)) (merge_text first r'))
           | Raw_DocType \<Rightarrow> Inl (Read_Dtd (reader_location_at r' start))
           | Raw_Other \<Rightarrow> next_event r'
           | Raw_Decl \<Rightarrow> next_event r'
           | Raw_Failed e at \<Rightarrow> Inl (reader_error r' at (Library_Error e))
           | Raw_Eof \<Rightarrow> Inr (Ev_Eof, r')))"
  by pat_completeness auto
termination
  by (relation "measure reader_left") (auto dest: read_raw_left)

declare next_event.simps [simp del]

function skip_from :: "nat \<Rightarrow> gml_reader \<Rightarrow> read_error + gml_reader" where
  "skip_from depth r =
     (case read_raw r of
        Inl e \<Rightarrow> Inl e
      | Inr ((event, start), r') \<Rightarrow>
          (case event of
             Raw_Start tag \<Rightarrow> skip_from (depth + 1) r'
           | Raw_End tag \<Rightarrow> if depth = 0 then Inr (r'\<lparr>gr_open := tl (gr_open r')\<rparr>) else skip_from (depth - 1) r'
           | Raw_DocType \<Rightarrow> Inl (Read_Dtd (reader_location_at r' start))
           | Raw_Eof \<Rightarrow> Inl (reader_error r' start Unexpected_End_In_Element)
           | Raw_Text txt \<Rightarrow> skip_from depth r'
           | Raw_CData txt \<Rightarrow> skip_from depth r'
           | Raw_Ref name char_ref \<Rightarrow> skip_from depth r'
           | Raw_Other \<Rightarrow> skip_from depth r'
           | Raw_Decl \<Rightarrow> skip_from depth r'
           | Raw_Failed e at \<Rightarrow> skip_from depth r'))"
  by pat_completeness auto
termination
  by (relation "measure (\<lambda>(depth, r). reader_left r)") (auto dest: read_raw_left)

declare skip_from.simps [simp del]

definition skip_element :: "gml_reader \<Rightarrow> read_error + gml_reader" where
  "skip_element r = skip_from 0 r"

subsection \<open>Attributes\<close>

definition raw_attribute_value :: "raw_attribute \<Rightarrow> (bytes option \<times> bytes \<times> bytes) option" where
  "raw_attribute_value a =
     (case a of
        Raw_Xmlns _ _ _ \<Rightarrow> None
      | Raw_Attribute resolved l raw unescaped \<Rightarrow>
          (let v = (case unescaped of Some u \<Rightarrow> u | None \<Rightarrow> raw) in
           case resolved of
             Ns_Unbound \<Rightarrow> Some (None, l, v) | Ns_Bound uri \<Rightarrow> Some (Some uri, l, v) | Ns_Unknown _ \<Rightarrow> None))"

definition iter_raw :: "raw_attribute list \<Rightarrow> (bytes option \<times> bytes \<times> bytes) list" where
  "iter_raw attrs = List.map_filter raw_attribute_value attrs"

definition iter_attributes :: "raw_attribute list \<Rightarrow> (qname \<times> bytes) list" where
  "iter_attributes attrs = map (\<lambda>(n, l, v). (mk_qname n l, v)) (iter_raw attrs)"

definition get_attribute :: "raw_attribute list \<Rightarrow> qname \<Rightarrow> bytes option" where
  "get_attribute attrs name =
     map_option (\<lambda>(n, l, v). v) (find (\<lambda>(n, l, v). l = qlocal name \<and> n = qns name) (iter_raw attrs))"

definition namespace_declarations :: "raw_attribute list \<Rightarrow> (bytes option \<times> bytes) list" where
  "namespace_declarations attrs =
     List.map_filter (\<lambda>a. case a of Raw_Xmlns prefix uri True \<Rightarrow> Some (prefix, uri) | _ \<Rightarrow> None) attrs"

subsection \<open>Laws of the reader\<close>

lemma merge_text_left: "merge_text s r = Inr (t, r') \<Longrightarrow> reader_left r' \<le> reader_left r"
proof (induction s r rule: merge_text.induct)
  case (1 s r)
  obtain event start r1 where raw: "read_raw r = Inr ((event, start), r1)"
    using 1(5) by (subst (asm) merge_text.simps) (auto split: sum.splits prod.splits)
  have pending: "gr_pending r1 = None" using raw by (auto simp: read_raw_def Let_def split: option.splits list.splits prod.splits raw_event.splits)
  have put: "reader_left (r1\<lparr>gr_pending := Some (event, start)\<rparr>) \<le> reader_left r"
    using read_raw_left [OF raw] pending by (cases "event = Raw_Eof") (simp_all add: reader_left_def)
  show ?case
    using 1(5) read_raw_left(2) [OF raw] put 1(1-4) [OF raw refl refl]
    by (subst (asm) merge_text.simps) (fastforce simp: raw split: raw_event.splits sum.splits)
qed

lemma next_event_left:
  "next_event r = Inr (event, r') \<Longrightarrow> reader_left r' \<le> reader_left r \<and> (event \<noteq> Ev_Eof \<longrightarrow> reader_left r' < reader_left r)"
proof (induction r rule: next_event.induct)
  case (1 r)
  obtain raw start r1 where raw: "read_raw r = Inr ((raw, start), r1)"
    using 1(3) by (subst (asm) next_event.simps) (auto split: sum.splits prod.splits)
  have opened: "reader_left (r1\<lparr>gr_open := q\<rparr>) = reader_left r1" for q by (simp add: reader_left_def)
  note left = read_raw_left [OF raw]
  show ?case
    using 1(3) left opened 1(1,2) [OF raw refl refl]
    by (subst (asm) next_event.simps)
      (fastforce simp: raw map_sum_def split: raw_event.splits sum.splits list.splits prod.splits dest: merge_text_left)
qed

lemma read_raw_open: "read_raw (r\<lparr>gr_open := os\<rparr>) = map_sum id (\<lambda>(e, r'). (e, r'\<lparr>gr_open := os\<rparr>)) (read_raw r)"
  by (auto simp: read_raw_def Let_def reader_error_def reader_location_at_def reader_stream_offset_def
      split: option.splits list.splits prod.splits raw_event.splits)

lemma read_raw_keeps: "read_raw r = Inr (e, r') \<Longrightarrow> gr_open r' = gr_open r"
  by (auto simp: read_raw_def Let_def split: option.splits list.splits prod.splits raw_event.splits)

lemma skip_from_open:
  "skip_from d (r\<lparr>gr_open := os\<rparr>) = map_sum id (\<lambda>r'. r'\<lparr>gr_open := tl os\<rparr>) (skip_from d r)"
proof (induction d r rule: skip_from.induct)
  case (1 d r)
  show ?case
  proof (cases "read_raw r")
    case (Inl e)
    then show ?thesis by (subst (1 2) skip_from.simps) (simp add: read_raw_open)
  next
    case (Inr p)
    obtain event start r1 where raw: "read_raw r = Inr ((event, start), r1)" using Inr by (cases p) auto
    have at: "reader_location_at (r1\<lparr>gr_open := os\<rparr>) = reader_location_at r1" by (auto simp: reader_location_at_def reader_stream_offset_def)
    show ?thesis using 1 [OF raw refl refl]
      by (subst (1 2) skip_from.simps) (auto simp: raw read_raw_open at reader_error_def id_def split: raw_event.splits)
  qed
qed

lemma merge_text_skip: "merge_text s r = Inr (t, r') \<Longrightarrow> skip_from d r' = skip_from d r \<and> gr_open r' = gr_open r"
proof (induction s r rule: merge_text.induct)
  case (1 s r)
  obtain event start r1 where raw: "read_raw r = Inr ((event, start), r1)"
    using 1(5) by (subst (asm) merge_text.simps) (auto split: sum.splits prod.splits)
  have pending: "gr_pending r1 = None" using raw by (auto simp: read_raw_def Let_def split: option.splits list.splits prod.splits raw_event.splits)
  then have "read_raw (r1\<lparr>gr_pending := Some (event, start)\<rparr>) = Inr ((event, start), r1)"
    by (simp add: read_raw_def)
  then have put: "skip_from d (r1\<lparr>gr_pending := Some (event, start)\<rparr>) = skip_from d r"
    by (subst (1 2) skip_from.simps) (simp add: raw)
  have skip: "skip_from d r = skip_from d r1" if "event \<in> {Raw_Other} \<or> (\<exists>u. event = Raw_Text u \<or> event = Raw_CData u) \<or> (\<exists>n c. event = Raw_Ref n c)"
    using that by (subst skip_from.simps) (auto simp: raw)
  show ?case
    using 1(5) read_raw_keeps [OF raw] put skip 1(1-4) [OF raw refl refl]
    by (subst (asm) merge_text.simps) (auto simp: raw split: raw_event.splits sum.splits)
qed

lemma next_event_skip:
  "next_event r = Inr (Ev_Text t, r') \<Longrightarrow> skip_from d r = skip_from d r' \<and> gr_open r' = gr_open r"
  "next_event r = Inr (Ev_Start q a, r') \<Longrightarrow> skip_from d r = skip_from (Suc d) (r'\<lparr>gr_open := gr_open r\<rparr>) \<and> gr_open r' = q # gr_open r"
  "next_event r = Inr (Ev_End q, r') \<Longrightarrow> gr_open r = q' # os \<Longrightarrow>
   skip_from 0 r = Inr r' \<and> skip_from (Suc d) r = skip_from d (r'\<lparr>gr_open := gr_open r\<rparr>) \<and> gr_open r' = os"
proof -
  show "next_event r = Inr (Ev_Text t, r') \<Longrightarrow> skip_from d r = skip_from d r' \<and> gr_open r' = gr_open r"
  proof (induction r rule: next_event.induct)
    case (1 r)
    obtain raw start r1 where raw: "read_raw r = Inr ((raw, start), r1)"
      using 1(3) by (subst (asm) next_event.simps) (auto split: sum.splits prod.splits)
    have skip: "skip_from d r = skip_from d r1" if "raw \<in> {Raw_Other, Raw_Decl} \<or> (\<exists>u. raw = Raw_Text u \<or> raw = Raw_CData u) \<or> (\<exists>n c. raw = Raw_Ref n c)"
      using that by (subst skip_from.simps) (auto simp: raw)
    show ?case
      using 1(3) read_raw_keeps [OF raw] skip 1(1,2) [OF raw refl refl]
      by (subst (asm) next_event.simps)
        (auto simp: raw map_sum_def split: raw_event.splits sum.splits list.splits prod.splits dest: merge_text_skip [of _ _ _ _ d])
  qed
  show "next_event r = Inr (Ev_Start q a, r') \<Longrightarrow> skip_from d r = skip_from (Suc d) (r'\<lparr>gr_open := gr_open r\<rparr>) \<and> gr_open r' = q # gr_open r"
  proof (induction r rule: next_event.induct)
    case (1 r)
    obtain raw start r1 where raw: "read_raw r = Inr ((raw, start), r1)"
      using 1(3) by (subst (asm) next_event.simps) (auto split: sum.splits prod.splits)
    have skip: "skip_from d r = skip_from d r1" if "raw \<in> {Raw_Other, Raw_Decl}"
      using that by (subst skip_from.simps) (auto simp: raw)
    have start: "skip_from d r = skip_from (Suc d) r1" if "raw = Raw_Start tag" for tag
      using that by (subst skip_from.simps) (simp add: raw)
    have same: "r1\<lparr>gr_open := gr_open r\<rparr> = r1" using read_raw_keeps [OF raw] by simp
    show ?case
      using 1(3) read_raw_keeps [OF raw] skip start 1(1,2) [OF raw refl refl]
      by (subst (asm) next_event.simps)
        (auto simp: raw same map_sum_def split: raw_event.splits sum.splits list.splits prod.splits)
  qed
  show "next_event r = Inr (Ev_End q, r') \<Longrightarrow> gr_open r = q' # os \<Longrightarrow>
     skip_from 0 r = Inr r' \<and> skip_from (Suc d) r = skip_from d (r'\<lparr>gr_open := gr_open r\<rparr>) \<and> gr_open r' = os"
  proof (induction r rule: next_event.induct)
    case (1 r)
    obtain raw start r1 where raw: "read_raw r = Inr ((raw, start), r1)"
      using 1(3) by (subst (asm) next_event.simps) (auto split: sum.splits prod.splits)
    have skip: "skip_from k r = skip_from k r1" if "raw \<in> {Raw_Other, Raw_Decl}" for k
      using that by (subst skip_from.simps) (auto simp: raw)
    have ends: "skip_from 0 r = Inr (r1\<lparr>gr_open := tl (gr_open r1)\<rparr>)" "skip_from (Suc d) r = skip_from d r1" if "raw = Raw_End tag" for tag
      using that by (subst skip_from.simps, simp add: raw)+
    have same: "r1\<lparr>gr_open := x\<rparr> = r1" if "gr_open r1 = x" for x using that by auto
    show ?case
      using 1(3,4) read_raw_keeps [OF raw] skip ends 1(1,2) [OF raw refl refl]
      by (subst (asm) next_event.simps)
        (auto simp: raw same map_sum_def split: raw_event.splits sum.splits list.splits prod.splits)
  qed
qed

subsection \<open>Well-formed content\<close>

text \<open>
  The content of an element as the reader sees it; a child carries the offset in the stream after its
  start tag. \<open>reads_content\<close>: the reader delivers this content and then the end tag of the element.
\<close>

datatype xml = X_Text bytes | X_Elem qname "raw_attribute list" nat "xml list"

inductive reads_content :: "gml_reader \<Rightarrow> xml list \<Rightarrow> gml_reader \<Rightarrow> bool" where
  end_tag: "next_event r = Inr (Ev_End q, r') \<Longrightarrow> reads_content r [] r'"
| text_event: "next_event r = Inr (Ev_Text t, r1) \<Longrightarrow> reads_content r1 cs r' \<Longrightarrow> reads_content r (X_Text t # cs) r'"
| element: "next_event r = Inr (Ev_Start q a, r1) \<Longrightarrow> reads_content r1 inner r2 \<Longrightarrow> reads_content r2 cs r' \<Longrightarrow>
    reads_content r (X_Elem q a (loc_byte_offset (reader_location r1)) inner # cs) r'"

lemma reads_content_left: "reads_content r cs r' \<Longrightarrow> reader_left r' < reader_left r"
  by (induction rule: reads_content.induct) (fastforce dest: next_event_left)+

lemma reads_content_skips:
  "reads_content r cs r' \<Longrightarrow> gr_open r = q # os \<Longrightarrow>
   gr_open r' = os \<and> skip_from 0 r = Inr r' \<and> (\<forall>d. skip_from (Suc d) r = skip_from d (r'\<lparr>gr_open := gr_open r\<rparr>))"
proof (induction arbitrary: q os rule: reads_content.induct)
  case (end_tag r q' r')
  then show ?case using next_event_skip(3) [OF end_tag(1,2)] by blast
next
  case (text_event r t r1 cs r')
  have "skip_from d r = skip_from d r1" "gr_open r1 = gr_open r" for d
    using next_event_skip(1) [OF text_event(1)] by auto
  then show ?case using text_event.IH [of q os] text_event.prems by simp
next
  case (element r q' a r1 inner r2 cs r')
  have start: "skip_from d r = skip_from (Suc d) (r1\<lparr>gr_open := gr_open r\<rparr>)" "gr_open r1 = q' # gr_open r" for d
    using next_event_skip(2) [OF element(1)] by auto
  note inner = element.IH(1) [OF start(2)]
  have r2: "r2\<lparr>gr_open := q # os\<rparr> = r2" using inner element.prems by simp
  have same: "skip_from d r = skip_from d r2" for d
  proof -
    have "skip_from d r = map_sum id (\<lambda>r'. r'\<lparr>gr_open := os\<rparr>) (skip_from (Suc d) r1)"
      using start(1) [of d] element.prems by (simp add: skip_from_open)
    also have "skip_from (Suc d) r1 = map_sum id (\<lambda>r'. r'\<lparr>gr_open := gr_open r\<rparr>) (skip_from d r2)"
      using inner start(2) by (simp add: skip_from_open)
    also have "map_sum id (\<lambda>r'. r'\<lparr>gr_open := os\<rparr>) \<dots> = map_sum id (\<lambda>r'. r'\<lparr>gr_open := os\<rparr>) (skip_from d r2)"
      by (cases "skip_from d r2") simp_all
    also have "\<dots> = skip_from d (r2\<lparr>gr_open := q # os\<rparr>)" by (simp add: skip_from_open)
    finally show ?thesis by (simp only: r2)
  qed
  have "gr_open r2 = gr_open r" using inner by simp
  then show ?case using same element.IH(2) [of q os] element.prems by simp
qed

text \<open>Skipping an element is the same as reading its content and dropping it.\<close>

lemma skip_element_content: "reads_content r cs r' \<Longrightarrow> gr_open r \<noteq> [] \<Longrightarrow> skip_element r = Inr r'"
  unfolding skip_element_def by (cases "gr_open r") (auto dest: reads_content_skips)

end
