(* ===== verification/Sniff.thy ===== *)
theory Sniff
  imports Xml_Reader Versions Crs Node_Stats
begin

text \<open>
  Looking at a geometry without building it (\<open>crates/xeibe-geom/src/sniff.rs\<close>), with what it uses:
  the dialect of its elements (\<open>dialect.rs\<close>), the geometry elements and their attributes
  (\<open>parse/mod.rs\<close>), the dimension of positions (\<open>parse/assemble.rs\<close>), and coordinates
  (\<open>parse/coords.rs\<close>). Numbers (fast-float2) and the CRS tables are the fields of \<open>scan_env\<close>. Every loop
  ends because each event it reads leaves less to read (\<open>reader_left\<close>).
\<close>

subsection \<open>The dialect of a geometry\<close>

definition GML2_CARRIERS :: "bytes list" where
  "GML2_CARRIERS = [''coordinates'', ''coord'']"

definition GML2_STRUCTURE :: "bytes list" where
  "GML2_STRUCTURE = [''outerBoundaryIs'', ''innerBoundaryIs'', ''Box'']"

definition GML3_DIALECT :: "bytes list" where
  "GML3_DIALECT =
     [''pos'', ''posList'', ''pointProperty'', ''pointRep'', ''exterior'', ''interior'', ''Curve'', ''OrientableCurve'',
      ''CompositeCurve'', ''Ring'', ''Surface'', ''OrientableSurface'', ''CompositeSurface'', ''PolygonPatch'', ''Triangle'',
      ''Rectangle'', ''segments'', ''patches'', ''Envelope'', ''lowerCorner'', ''upperCorner'', ''MultiCurve'', ''MultiSurface'',
      ''curveMember'', ''curveMembers'', ''surfaceMember'', ''surfaceMembers'', ''pointMembers'', ''geometryMembers'']"

definition classify_element :: "qname \<Rightarrow> dialect option" where
  "classify_element name =
     (if is_gml_33 name then Some Gml3
      else if qns name = Some NS_GML_32 then Some Gml3
      else if qns name = Some NS_GML then
        (if qlocal name \<in> set GML2_CARRIERS \<or> qlocal name \<in> set GML2_STRUCTURE then Some Gml2
         else if qlocal name \<in> set GML3_DIALECT then Some Gml3
         else None)
      else None)"

record dialect_tracker =
  dt_structure :: "dialect option"
  dt_saw_gml2_carrier :: bool

definition new_tracker :: dialect_tracker where
  "new_tracker = \<lparr>dt_structure = None, dt_saw_gml2_carrier = False\<rparr>"

definition track_element :: "qname \<Rightarrow> dialect_tracker \<Rightarrow> dialect_tracker" where
  "track_element name t =
     (case classify_element name of
        None \<Rightarrow> t
      | Some d \<Rightarrow>
          if d = Gml2 \<and> qlocal name \<in> set GML2_CARRIERS then t\<lparr>dt_saw_gml2_carrier := True\<rparr>
          else if dt_structure t = None then t\<lparr>dt_structure := Some d\<rparr>
          else t)"

definition tracked_dialect :: "dialect_tracker \<Rightarrow> dialect" where
  "tracked_dialect t =
     (case dt_structure t of Some d \<Rightarrow> d | None \<Rightarrow> if dt_saw_gml2_carrier t then Gml2 else Gml3)"

subsection \<open>Geometry elements\<close>

definition NS_GML_33_CE :: bytes where "NS_GML_33_CE = ''http://www.opengis.net/gml/3.3/ce''"
definition NS_GML_33_TIN :: bytes where "NS_GML_33_TIN = ''http://www.opengis.net/gml/3.3/tin''"
definition NS_GML_33_RGRID :: bytes where "NS_GML_33_RGRID = ''http://www.opengis.net/gml/3.3/rgrid''"

definition COMPACT_SURFACES :: "bytes list" where
  "COMPACT_SURFACES = [''SimplePolygon'', ''SimpleRectangle'', ''SimpleTriangle'']"

definition COMPACT_CURVES :: "(bytes \<times> bytes) list" where
  "COMPACT_CURVES =
     [(''SimpleArcString'', ''ArcString''), (''SimpleArc'', ''Arc''), (''SimpleCircle'', ''Circle''),
      (''SimpleArcByCenterPoint'', ''ArcByCenterPoint''), (''SimpleCircleByCenterPoint'', ''CircleByCenterPoint''),
      (''SimpleArcStringByBulge'', ''ArcStringByBulge''), (''SimpleArcByBulge'', ''ArcByBulge'')]"

definition UNSUPPORTED_33 :: "(bytes \<times> bytes) list" where
  "UNSUPPORTED_33 =
     [(NS_GML_33_TIN, ''TriangulatedSurface''), (NS_GML_33_TIN, ''TIN''), (NS_GML_33_RGRID, ''ReferenceableGridByArray''),
      (NS_GML_33_RGRID, ''ReferenceableGridByVectors''), (NS_GML_33_RGRID, ''ReferenceableGridByTransformation'')]"

definition ARC_SEGMENTS :: "bytes list" where
  "ARC_SEGMENTS =
     [''Arc'', ''ArcString'', ''Circle'', ''ArcByCenterPoint'', ''CircleByCenterPoint'', ''ArcByBulge'', ''ArcStringByBulge'']"

definition UNSUPPORTED :: "bytes list" where
  "UNSUPPORTED =
     [''Solid'', ''Shell'', ''CompositeSolid'', ''MultiSolid'', ''PolyhedralSurface'', ''TriangulatedSurface'', ''Tin'', ''Cone'',
      ''Cylinder'', ''Sphere'', ''Grid'', ''RectifiedGrid'', ''GeometricComplex'', ''GeodesicString'', ''Geodesic'', ''CubicSpline'',
      ''BSpline'', ''Bezier'', ''Clothoid'', ''OffsetCurve'', ''LineStringSegment3D'']"

definition is_ce :: "qname \<Rightarrow> bytes \<Rightarrow> bool" where
  "is_ce name l \<longleftrightarrow> qns name = Some NS_GML_33_CE \<and> qlocal name = l"

definition is_compact_surface :: "qname \<Rightarrow> bool" where
  "is_compact_surface name \<longleftrightarrow> list_ex (is_ce name) COMPACT_SURFACES"

definition compact_curve :: "qname \<Rightarrow> (bytes \<times> bytes) option" where
  "compact_curve name = find (\<lambda>(l, _). is_ce name l) COMPACT_CURVES"

definition GEOM_KINDS :: "(bytes \<times> geom_kind) list" where
  "GEOM_KINDS =
     [(''Point'', GK_Point), (''LineString'', GK_LineString), (''LinearRing'', GK_LinearRing), (''Polygon'', GK_Polygon),
      (''Curve'', GK_Curve), (''OrientableCurve'', GK_OrientableCurve), (''CompositeCurve'', GK_CompositeCurve),
      (''Ring'', GK_Ring), (''Surface'', GK_Surface), (''OrientableSurface'', GK_OrientableSurface),
      (''CompositeSurface'', GK_CompositeSurface), (''PolygonPatch'', GK_Patch), (''Triangle'', GK_Patch),
      (''Rectangle'', GK_Patch), (''MultiPoint'', GK_MultiPoint), (''MultiLineString'', GK_MultiLineString),
      (''MultiCurve'', GK_MultiCurve), (''MultiPolygon'', GK_MultiPolygon), (''MultiSurface'', GK_MultiSurface),
      (''MultiGeometry'', GK_MultiGeometry), (''Envelope'', GK_Envelope), (''EnvelopeWithTimePeriod'', GK_Envelope),
      (''Box'', GK_Box)]"

definition geom_kind_of :: "qname \<Rightarrow> geom_kind" where
  "geom_kind_of name =
     (if is_compact_surface name then GK_Polygon
      else if compact_curve name \<noteq> None then GK_Curve
      else if is_ce name ''SimpleMultiPoint'' then GK_MultiPoint
      else if \<not> is_gml name then GK_Unsupported
      else (case map_of GEOM_KINDS (qlocal name) of Some k \<Rightarrow> k | None \<Rightarrow> GK_Unsupported))"

definition is_array_property :: "qname \<Rightarrow> bool" where
  "is_array_property name \<longleftrightarrow>
     list_ex (is_gml_named name) [''pointArrayProperty'', ''curveArrayProperty'', ''surfaceArrayProperty'', ''solidArrayProperty'']"

definition is_unsupported_33 :: "qname \<Rightarrow> bool" where
  "is_unsupported_33 name \<longleftrightarrow> list_ex (\<lambda>(n, l). qns name = Some n \<and> qlocal name = l) UNSUPPORTED_33"

definition is_gml_33_geometry :: "qname \<Rightarrow> bool" where
  "is_gml_33_geometry name \<longleftrightarrow> geom_kind_of name \<noteq> GK_Unsupported \<or> is_unsupported_33 name"

text \<open>The attributes the geometry elements use.\<close>

record geom_attrs =
  ga_srs_name :: "bytes option"
  ga_srs_dimension :: "nat option"
  ga_dimension :: "nat option"
  ga_count :: "nat option"
  ga_num_arc :: "nat option"
  ga_reversed :: bool
  ga_href :: bool
  ga_interpolation :: "bytes option"
  ga_uom :: "bytes option"
  ga_axis_labels :: "bytes option"
  ga_decimal :: "bytes option"
  ga_cs :: "bytes option"
  ga_ts :: "bytes option"

definition no_attrs :: geom_attrs where
  "no_attrs =
     \<lparr>ga_srs_name = None, ga_srs_dimension = None, ga_dimension = None, ga_count = None, ga_num_arc = None,
      ga_reversed = False, ga_href = False, ga_interpolation = None, ga_uom = None, ga_axis_labels = None,
      ga_decimal = None, ga_cs = None, ga_ts = None\<rparr>"

definition read_attr :: "bytes option \<times> bytes \<times> bytes \<Rightarrow> geom_attrs \<Rightarrow> geom_attrs" where
  "read_attr a out =
     (let (n, l, v) = a in
      if n = Some NS_XLINK \<and> l = ''href'' then out\<lparr>ga_href := True\<rparr>
      else if n \<noteq> None then out
      else if l = ''srsName'' then out\<lparr>ga_srs_name := Some (trim v)\<rparr>
      else if l = ''srsDimension'' then out\<lparr>ga_srs_dimension := parse_unsigned 8 (trim v)\<rparr>
      else if l = ''dimension'' then out\<lparr>ga_dimension := parse_unsigned 8 (trim v)\<rparr>
      else if l = ''count'' then out\<lparr>ga_count := parse_unsigned 64 (trim v)\<rparr>
      else if l = ''numArc'' then out\<lparr>ga_num_arc := parse_unsigned 64 (trim v)\<rparr>
      else if l = ''orientation'' then out\<lparr>ga_reversed := (trim v = ''-'')\<rparr>
      else if l = ''interpolation'' then out\<lparr>ga_interpolation := Some v\<rparr>
      else if l = ''uom'' then out\<lparr>ga_uom := Some v\<rparr>
      else if l = ''axisLabels'' then out\<lparr>ga_axis_labels := Some v\<rparr>
      else if l = ''decimal'' then out\<lparr>ga_decimal := Some v\<rparr>
      else if l = ''cs'' then out\<lparr>ga_cs := Some v\<rparr>
      else if l = ''ts'' then out\<lparr>ga_ts := Some v\<rparr>
      else out)"

definition read_attrs :: "raw_attribute list \<Rightarrow> geom_attrs" where
  "read_attrs attrs = fold read_attr (iter_raw attrs) no_attrs"

subsection \<open>The dimension of positions\<close>

record dimension_inputs =
  di_own :: "nat option"
  di_inherited :: "nat option"
  di_crs :: "nat option"
  di_count :: "nat option"
  di_single_position :: bool

definition or_else :: "'a option \<Rightarrow> 'a option \<Rightarrow> 'a option" where
  "or_else a b = (case a of Some x \<Rightarrow> Some x | None \<Rightarrow> b)"

text \<open>The dimension, and whether it warns that the values look like 3D read as 2D.\<close>

definition effective_dimension :: "dimension_inputs \<Rightarrow> nat \<Rightarrow> nat \<times> bool" where
  "effective_dimension inputs n =
     (case or_else (di_own inputs) (or_else (di_inherited inputs) (di_crs inputs)) of
        Some d \<Rightarrow> (d, False)
      | None \<Rightarrow>
          if di_single_position inputs \<and> (n = 2 \<or> n = 3) then (n, False)
          else
            (case di_count inputs of
               Some c \<Rightarrow> if 0 < c \<and> c dvd n then (n div c, False) else (2, \<not> 2 dvd n \<and> 3 dvd n)
             | None \<Rightarrow> (2, \<not> 2 dvd n \<and> 3 dvd n)))"

text \<open>Sums of a \<open>u8\<close> wrap.\<close>

fun crs_dim :: "crs_table \<Rightarrow> crs_ref \<Rightarrow> nat option"
  and crs_dims :: "crs_table \<Rightarrow> bool \<Rightarrow> crs_ref list \<Rightarrow> nat option" where
  "crs_dim table (Crs_Code authority code) =
     (if authority = ''OGC'' then Some (if eq_ignore_ascii_case code ''CRS84h'' then 3 else 2)
      else map_option ci_dimension (table_get table authority code))"
| "crs_dim table (Crs_Compound parts) = crs_dims table True parts"
| "crs_dim table (Crs_Unresolved s) = None"
| "crs_dims table first [] = Some 0"
| "crs_dims table first (p # ps) =
     (case (if \<not> first \<and> is_unresolved p then Some 1 else crs_dim table p) of
        None \<Rightarrow> None
      | Some a \<Rightarrow> map_option (\<lambda>b. (a + b) mod 256) (crs_dims table False ps))"

definition crs_dimension :: "crs_data \<Rightarrow> bytes \<Rightarrow> nat option" where
  "crs_dimension d srs = Option.bind (sr_crs (parse_srs d srs)) (crs_dim (builtin_table d))"

subsection \<open>Coordinates\<close>

text \<open>
  What the crates called give: the events of the bytes of a chunk or of a kept element in the scope of
  their namespaces (quick-xml), a number (fast-float2), the tables of xeibe-crs, and the corners that
  \<open>GeometryParser::parse_bounded_by\<close> reads from an envelope, \<open>None\<close> when they can't be read.
\<close>

type_synonym corners = "f64 list \<times> f64 list"

record scan_env =
  se_events :: "feature_chunk \<Rightarrow> (raw_event \<times> nat) list"
  se_raw_events :: "raw_element \<Rightarrow> (raw_event \<times> nat) list"
  se_corners :: "qname \<Rightarrow> raw_attribute list \<Rightarrow> gml_reader \<Rightarrow> read_error + corners option"
  se_number :: "bytes \<Rightarrow> f64 option"
  se_data :: crs_data
  se_case :: letter_case

text \<open>Errors of coordinates, without their texts.\<close>

datatype coord_error =
  Bad_Separator bytes | Not_A_Number bytes | Unsupported_Dimension nat | Not_Whole_Positions nat | Wrong_Count nat nat
| Tuple_Ordinates bytes nat | Corrupt_Ordinates nat

text \<open>\<open>s.split(c)\<close> and \<open>s.replace(c, by)\<close> for a character given by its bytes.\<close>

fun split_str :: "nat \<Rightarrow> bytes \<Rightarrow> bytes \<Rightarrow> bytes \<Rightarrow> bytes list" where
  "split_str k sep w [] = [rev w]"
| "split_str 0 sep w (c # s) =
     (if starts_with sep (c # s) then rev w # split_str (length sep - 1) sep [] s else split_str 0 sep (c # w) s)"
| "split_str (Suc k) sep w (c # s) = split_str k sep w s"

definition split_char :: "bytes \<Rightarrow> bytes \<Rightarrow> bytes list" where
  "split_char c s = split_str 0 c [] s"

definition replace_char :: "bytes \<Rightarrow> bytes \<Rightarrow> bytes \<Rightarrow> bytes" where
  "replace_char c new s = join_with new (split_char c s)"

text \<open>\<open>s.split_whitespace()\<close>: the words between white space of Unicode.\<close>

fun unicode_words :: "nat \<Rightarrow> bytes \<Rightarrow> bytes \<Rightarrow> bytes list" where
  "unicode_words k w [] = (if w = [] then [] else [rev w])"
| "unicode_words 0 w (c # s) =
     (case find (\<lambda>x. x \<noteq> [] \<and> starts_with x (c # s)) whitespace_chars of
        Some x \<Rightarrow> (if w = [] then [] else [rev w]) @ unicode_words (length x - 1) [] s
      | None \<Rightarrow> unicode_words 0 (c # w) s)"
| "unicode_words (Suc k) w (c # s) = unicode_words k w s"

definition split_whitespace :: "bytes \<Rightarrow> bytes list" where
  "split_whitespace s = unicode_words 0 [] s"

definition leading_char :: "bytes \<Rightarrow> bytes" where
  "leading_char s = take 1 s @ takeWhile is_continuation (drop 1 s)"

text \<open>One character: one byte that is not a continuation.\<close>

definition is_one_char :: "bytes \<Rightarrow> bool" where
  "is_one_char s \<longleftrightarrow> length (filter (\<lambda>c. \<not> is_continuation c) s) = 1"

definition single_char :: "bytes \<Rightarrow> coord_error + bytes" where
  "single_char v =
     (if is_one_char v \<and> \<not> (v \<noteq> [] \<and> is_ascii_digit (hd v)) then Inr v else Inl (Bad_Separator v))"

record coordinates_format =
  cf_decimal :: bytes
  cf_cs :: bytes
  cf_ts :: bytes

definition default_format :: coordinates_format where
  "default_format = \<lparr>cf_decimal = ''.'', cf_cs = '','', cf_ts = '' ''\<rparr>"

definition validate_format :: "coordinates_format \<Rightarrow> coord_error + bytes \<times> bytes \<times> bytes" where
  "validate_format f =
     (case single_char (cf_decimal f) of Inl e \<Rightarrow> Inl e | Inr decimal \<Rightarrow>
        (case single_char (cf_cs f) of Inl e \<Rightarrow> Inl e | Inr cs \<Rightarrow>
           (case single_char (cf_ts f) of Inl e \<Rightarrow> Inl e | Inr ts \<Rightarrow> Inr (decimal, cs, ts))))"

definition is_whitespace_char :: "bytes \<Rightarrow> bool" where
  "is_whitespace_char c \<longleftrightarrow> c \<in> set whitespace_chars"

definition parse_ordinate :: "scan_env \<Rightarrow> bytes \<Rightarrow> coord_error + f64" where
  "parse_ordinate env token = (case se_number env token of Some x \<Rightarrow> Inr x | None \<Rightarrow> Inl (Not_A_Number token))"

fun parse_number_list :: "scan_env \<Rightarrow> bytes list \<Rightarrow> coord_error + f64 list" where
  "parse_number_list env [] = Inr []"
| "parse_number_list env (token # tokens) =
     (case parse_ordinate env token of Inl e \<Rightarrow> Inl e
      | Inr x \<Rightarrow> map_sum id (\<lambda>xs. x # xs) (parse_number_list env tokens))"

definition parse_numbers :: "scan_env \<Rightarrow> bytes \<Rightarrow> coord_error + f64 list" where
  "parse_numbers env s = parse_number_list env (split_ascii_whitespace s)"

definition parse_pos_list :: "scan_env \<Rightarrow> bytes \<Rightarrow> nat \<Rightarrow> nat option \<Rightarrow> coord_error + coords" where
  "parse_pos_list env s dimension count =
     (case dim_from_size dimension of
        None \<Rightarrow> Inl (Unsupported_Dimension dimension)
      | Some d \<Rightarrow>
          (case parse_numbers env s of
             Inl e \<Rightarrow> Inl e
           | Inr xs \<Rightarrow>
               if \<not> dimension dvd length xs then Inl (Not_Whole_Positions (length xs))
               else
                 (case count of
                    Some c \<Rightarrow> if c \<noteq> length xs div dimension then Inl (Wrong_Count c (length xs div dimension))
                              else Inr \<lparr>co_dim = Some d, co_values = xs\<rparr>
                  | None \<Rightarrow> Inr \<lparr>co_dim = Some d, co_values = xs\<rparr>)))"

definition parse_values :: "f64 list \<Rightarrow> nat \<Rightarrow> coord_error + coords" where
  "parse_values xs dimension =
     (if length xs < 2 \<or> \<not> dimension dvd length xs then Inl (Corrupt_Ordinates (length xs))
      else Inr \<lparr>co_dim = dim_from_size dimension, co_values = xs\<rparr>)"

text \<open>The row of at most three ordinates, and how many there are; only the first three are read.\<close>

fun read_ordinates :: "scan_env \<Rightarrow> bytes \<Rightarrow> bytes list \<Rightarrow> f64 list \<Rightarrow> nat \<Rightarrow> coord_error + f64 list \<times> nat" where
  "read_ordinates env decimal [] row n = Inr (row, n)"
| "read_ordinates env decimal (o1 # os) row n =
     (if n < 3 then
        (case parse_ordinate env (if decimal = ''.'' then o1 else replace_char decimal ''.'' o1) of
           Inl e \<Rightarrow> Inl e
         | Inr x \<Rightarrow> read_ordinates env decimal os (row @ [x]) (n + 1))
      else read_ordinates env decimal os row (n + 1))"

fun pad_positions :: "f64 list \<Rightarrow> f64 list" where
  "pad_positions (x # y # xs) = x # y # 0 # pad_positions xs"
| "pad_positions _ = []"

definition push_tuple :: "scan_env \<Rightarrow> coords \<Rightarrow> bytes \<Rightarrow> bytes \<Rightarrow> bytes \<Rightarrow> coord_error + coords" where
  "push_tuple env coords tuple cs decimal =
     (case read_ordinates env decimal
             (if is_whitespace_char cs then split_whitespace tuple else map trim (split_char cs tuple)) [] 0 of
        Inl e \<Rightarrow> Inl e
      | Inr (row, n) \<Rightarrow>
          if n < 2 \<or> 3 < n then Inl (Tuple_Ordinates tuple n)
          else
            (let coords = (if n = 3 \<and> co_dim coords = Some Xy
                   then \<lparr>co_dim = Some Xyz, co_values = pad_positions (co_values coords)\<rparr> else coords);
                 coords = coords\<lparr>co_values := co_values coords @ row\<rparr>
             in Inr (if n < co_size coords then coords\<lparr>co_values := co_values coords @ [0]\<rparr> else coords)))"

fun push_tuples :: "scan_env \<Rightarrow> bytes \<Rightarrow> bytes \<Rightarrow> bytes list \<Rightarrow> coords \<Rightarrow> coord_error + coords" where
  "push_tuples env cs decimal [] coords = Inr coords"
| "push_tuples env cs decimal (t # ts) coords =
     (case push_tuple env coords t cs decimal of Inl e \<Rightarrow> Inl e | Inr coords \<Rightarrow> push_tuples env cs decimal ts coords)"

definition parse_coordinates :: "scan_env \<Rightarrow> bytes \<Rightarrow> coordinates_format \<Rightarrow> coord_error + coords" where
  "parse_coordinates env s format =
     (case validate_format format of
        Inl e \<Rightarrow> Inl e
      | Inr (decimal, cs, ts) \<Rightarrow>
          (let s = trim s in
           if s = [] then Inr default_coords
           else if cs = '','' \<and> is_whitespace_char ts \<and> decimal = ''.'' \<and> CHR '','' \<notin> set s then
             (case parse_numbers env s of
                Inl e \<Rightarrow> Inl e | Inr xs \<Rightarrow> parse_values xs (if length xs = 3 then 3 else 2))
           else
             push_tuples env cs decimal
               (if is_whitespace_char ts then split_whitespace s
                else filter (\<lambda>t. t \<noteq> []) (map trim (split_char ts s)))
               (new_coords Xy)))"

text \<open>\<open>values.chunks_exact_mut(size)\<close>: an incomplete position at the end is left alone.\<close>

definition swap_xy :: "coords \<Rightarrow> coords" where
  "swap_xy c = c\<lparr>co_values := fold (\<lambda>i. swap (i * co_size c) (i * co_size c + 1)) [0..<co_len c] (co_values c)\<rparr>"

subsection \<open>Sniffing a geometry\<close>

definition is_carrier :: "qname \<Rightarrow> bool" where
  "is_carrier name \<longleftrightarrow> qlocal name \<in> {''pos'', ''posList'', ''coordinates'', ''coord'', ''lowerCorner''}"

lemma skip_from_left: "skip_from d r = Inr r' \<Longrightarrow> reader_left r' < reader_left r"
proof (induction d r rule: skip_from.induct)
  case (1 d r)
  obtain event start r1 where raw: "read_raw r = Inr ((event, start), r1)"
    using 1(9) by (subst (asm) skip_from.simps) (auto split: sum.splits prod.splits)
  have opened: "reader_left (r1\<lparr>gr_open := q\<rparr>) = reader_left r1" for q by (simp add: reader_left_def)
  note left = read_raw_left [OF raw]
  show ?case
    using 1(9) left opened 1(1-8) [OF raw refl refl]
    by (subst (asm) skip_from.simps) (fastforce simp: raw split: raw_event.splits if_splits)
qed

lemma skip_element_left: "skip_element r = Inr r' \<Longrightarrow> reader_left r' < reader_left r"
  unfolding skip_element_def by (rule skip_from_left)

text \<open>The text of the current element, up to its end tag.\<close>

function element_text :: "bytes \<Rightarrow> gml_reader \<Rightarrow> read_error + bytes \<times> gml_reader" where
  "element_text s r =
     (case next_event r of
        Inl e \<Rightarrow> Inl e
      | Inr (Ev_Text t, r') \<Rightarrow> element_text (s @ t) r'
      | Inr (Ev_Start name attrs, r') \<Rightarrow>
          (case skip_element r' of Inl e \<Rightarrow> Inl e | Inr r'' \<Rightarrow> element_text s r'')
      | Inr (Ev_End name, r') \<Rightarrow> Inr (s, r')
      | Inr (Ev_Eof, r') \<Rightarrow> Inr (s, r'))"
  by pat_completeness auto
termination
  by (relation "measure (\<lambda>(s, r). reader_left r)") (auto dest!: next_event_left skip_element_left)

declare element_text.simps [simp del]

lemma element_text_left: "element_text s r = Inr (t, r') \<Longrightarrow> reader_left r' \<le> reader_left r"
proof (induction s r rule: element_text.induct)
  case (1 s r)
  show ?case
    using 1(3) 1(1,2)
    by (subst (asm) element_text.simps)
      (fastforce split: sum.splits prod.splits xml_event.splits dest: next_event_left skip_element_left)
qed

text \<open>GML 2 \<open>coord\<close>: \<open>X\<close>, \<open>Y\<close>, optional \<open>Z\<close>.\<close>

definition axis_of :: "bytes \<Rightarrow> nat option" where
  "axis_of l = (if l = ''X'' then Some 0 else if l = ''Y'' then Some 1 else if l = ''Z'' then Some 2 else None)"

function coord_position ::
  "scan_env \<Rightarrow> f64 option list \<Rightarrow> gml_reader \<Rightarrow> read_error + f64 list option \<times> gml_reader" where
  "coord_position env xyz r =
     (let position = (case xyz of
            [Some x, Some y, z] \<Rightarrow> Some ([x, y] @ (case z of Some z \<Rightarrow> [z] | None \<Rightarrow> [])) | _ \<Rightarrow> None)
      in case next_event r of
           Inl e \<Rightarrow> Inl e
         | Inr (Ev_Start name attrs, r') \<Rightarrow>
             (case axis_of (qlocal name) of
                Some axis \<Rightarrow>
                  (case element_text [] r' of
                     Inl e \<Rightarrow> Inl e | Inr (t, r'') \<Rightarrow> coord_position env (xyz[axis := se_number env (trim t)]) r'')
              | None \<Rightarrow>
                  (case skip_element r' of Inl e \<Rightarrow> Inl e | Inr r'' \<Rightarrow> coord_position env xyz r''))
         | Inr (Ev_End name, r') \<Rightarrow> Inr (position, r')
         | Inr (Ev_Eof, r') \<Rightarrow> Inr (position, r')
         | Inr (Ev_Text t, r') \<Rightarrow> coord_position env xyz r')"
  by pat_completeness auto
termination
  by (relation "measure (\<lambda>(env, xyz, r). reader_left r)")
    (auto dest!: next_event_left skip_element_left element_text_left)

declare coord_position.simps [simp del]

text \<open>The first position in the text of a carrier that is not \<open>coord\<close>.\<close>

definition position_of_text ::
  "scan_env \<Rightarrow> qname \<Rightarrow> geom_attrs \<Rightarrow> nat option \<times> nat option \<Rightarrow> bytes \<Rightarrow> f64 list option" where
  "position_of_text env name attrs scope t =
     (if qlocal name = ''coordinates'' then
        (let format = \<lparr>cf_decimal = (case ga_decimal attrs of Some d \<Rightarrow> d | None \<Rightarrow> ''.''),
               cf_cs = (case ga_cs attrs of Some c \<Rightarrow> c | None \<Rightarrow> '',''), cf_ts = (case ga_ts attrs of Some s \<Rightarrow> s | None \<Rightarrow> '' '')\<rparr>;
             first = (if cf_ts format \<noteq> [] \<and> \<not> is_whitespace_char (leading_char (cf_ts format))
                then hd (split_char (leading_char (cf_ts format)) (trim t))
                else if CHR '','' \<in> set t then (case split_whitespace t of w # _ \<Rightarrow> w | [] \<Rightarrow> [])
                else t)
         in case parse_coordinates env first format of
              Inr c \<Rightarrow> if co_values c = [] then None else Some (take (co_size c) (co_values c))
            | Inl _ \<Rightarrow> None)
      else
        (let single = (qlocal name \<noteq> ''posList'');
             tokens = split_ascii_whitespace t;
             inputs = \<lparr>di_own = or_else (ga_srs_dimension attrs) (ga_dimension attrs), di_inherited = fst scope,
               di_crs = snd scope, di_count = ga_count attrs, di_single_position = single\<rparr>;
             n = (if or_else (di_own inputs) (or_else (di_inherited inputs) (di_crs inputs)) = None \<and>
                     (single \<or> di_count inputs \<noteq> None) then length tokens else 0);
             dimension = fst (effective_dimension inputs n)
         in case those (map (se_number env) (take dimension tokens)) of
              Some position \<Rightarrow> if length position = dimension then Some position else None
            | None \<Rightarrow> None))"

definition read_first_position ::
  "scan_env \<Rightarrow> qname \<Rightarrow> geom_attrs \<Rightarrow> nat option \<times> nat option \<Rightarrow> gml_reader \<Rightarrow> read_error + f64 list option \<times> gml_reader" where
  "read_first_position env name attrs scope r =
     (if qlocal name = ''coord'' then coord_position env [None, None, None] r
      else map_sum id (\<lambda>(t, r). (position_of_text env name attrs scope t, r)) (element_text [] r))"

lemma coord_position_left: "coord_position env xyz r = Inr (p, r') \<Longrightarrow> reader_left r' \<le> reader_left r"
proof (induction env xyz r rule: coord_position.induct)
  case (1 env xyz r)
  show ?case
    using 1(4) 1(1-3)
    by (subst (asm) coord_position.simps)
      (fastforce simp: Let_def split: sum.splits prod.splits xml_event.splits option.splits
        dest: next_event_left skip_element_left element_text_left)
qed

lemma read_first_position_left:
  "read_first_position env name attrs scope r = Inr (p, r') \<Longrightarrow> reader_left r' \<le> reader_left r"
  by (auto simp: read_first_position_def map_sum_def split: if_splits sum.splits
      dest: coord_position_left element_text_left)

text \<open>What \<open>sniff_geometry_in\<close> collects.\<close>

record sniff_state =
  ss_sniff :: geometry_sniff
  ss_tracker :: dialect_tracker
  ss_first_srs :: "bytes option"

type_synonym dimension_scope = "nat option \<times> nat option"

text \<open>\<open>observe\<close>: record the attributes of an element; the scope of its content.\<close>

definition observe_attrs ::
  "scan_env \<Rightarrow> geom_attrs \<Rightarrow> dimension_scope \<Rightarrow> sniff_state \<Rightarrow> sniff_state \<times> dimension_scope" where
  "observe_attrs env attrs parent st =
     (let (srs_dimension, crs) = parent;
          crs = (case ga_srs_name attrs of Some srs \<Rightarrow> crs_dimension (se_data env) srs | None \<Rightarrow> crs);
          sniff = ss_sniff st;
          sniff = (case ga_srs_dimension attrs of
              Some d \<Rightarrow> sniff\<lparr>sn_srs_dimension := or_else (sn_srs_dimension sniff) (Some d)\<rparr> | None \<Rightarrow> sniff);
          srs_dimension = or_else (ga_srs_dimension attrs) srs_dimension;
          sniff = (if sn_axis_labels sniff = None then sniff\<lparr>sn_axis_labels := ga_axis_labels attrs\<rparr> else sniff);
          sniff = sniff\<lparr>sn_by_reference := sn_by_reference sniff \<or> ga_href attrs\<rparr>
      in (st\<lparr>ss_sniff := sniff, ss_first_srs := or_else (ss_first_srs st) (ga_srs_name attrs)\<rparr>, (srs_dimension, crs)))"

text \<open>What the name of an element inside the geometry tells.\<close>

definition observe_name :: "qname \<Rightarrow> sniff_state \<Rightarrow> sniff_state" where
  "observe_name name st =
     (let sniff = ss_sniff st in
      if is_gml_33 name then
        st\<lparr>ss_sniff := sniff\<lparr>sn_gml_33 := True,
             sn_has_curves := sn_has_curves sniff \<or> compact_curve name \<noteq> None,
             sn_has_unsupported := sn_has_unsupported sniff \<or> is_unsupported_33 name\<rparr>\<rparr>
      else if is_gml name then
        (if qlocal name \<in> set ARC_SEGMENTS then st\<lparr>ss_sniff := sniff\<lparr>sn_has_curves := True\<rparr>\<rparr>
         else if qlocal name \<in> set UNSUPPORTED then st\<lparr>ss_sniff := sniff\<lparr>sn_has_unsupported := True\<rparr>\<rparr>
         else st)
      else st)"

definition sniff_element ::
  "scan_env \<Rightarrow> qname \<Rightarrow> geom_attrs \<Rightarrow> dimension_scope \<Rightarrow> sniff_state \<Rightarrow> sniff_state \<times> dimension_scope" where
  "sniff_element env name attrs parent st =
     (let (st, scope) = observe_attrs env attrs parent (st\<lparr>ss_tracker := track_element name (ss_tracker st)\<rparr>)
      in (observe_name name st, scope))"

definition wants_position :: "qname \<Rightarrow> sniff_state \<Rightarrow> bool" where
  "wants_position name st \<longleftrightarrow>
     \<not> is_gml_33 name \<and> is_gml name \<and> sn_first_position (ss_sniff st) = None \<and> is_carrier name"

definition set_position :: "f64 list option \<Rightarrow> sniff_state \<Rightarrow> sniff_state" where
  "set_position p st = st\<lparr>ss_sniff := (ss_sniff st)\<lparr>sn_first_position := p\<rparr>\<rparr>"

text \<open>The scopes of the open elements, the innermost first.\<close>

function sniff_loop ::
  "scan_env \<Rightarrow> dimension_scope list \<Rightarrow> sniff_state \<Rightarrow> gml_reader \<Rightarrow> read_error + sniff_state \<times> gml_reader" where
  "sniff_loop env [] st r = Inr (st, r)"
| "sniff_loop env (parent # scopes) st r =
     (case next_event r of
        Inl e \<Rightarrow> Inl e
      | Inr (Ev_Start name raw, r') \<Rightarrow>
          (let attrs = read_attrs raw; (st, scope) = sniff_element env name attrs parent st
           in if wants_position name st then
                (case read_first_position env name attrs scope r' of
                   Inl e \<Rightarrow> Inl e
                 | Inr (p, r'') \<Rightarrow> sniff_loop env (parent # scopes) (set_position p st) r'')
              else sniff_loop env (scope # parent # scopes) st r')
      | Inr (Ev_End name, r') \<Rightarrow> sniff_loop env scopes st r'
      | Inr (Ev_Text t, r') \<Rightarrow> sniff_loop env (parent # scopes) st r'
      | Inr (Ev_Eof, r') \<Rightarrow> Inl (reader_error r' (gr_position r') Unexpected_End_In_Geometry))"
  by pat_completeness auto
termination
  by (relation "measure (\<lambda>(env, scopes, st, r). reader_left r)")
    (auto dest!: next_event_left read_first_position_left)

declare sniff_loop.simps(2) [simp del]

definition empty_sniff :: geometry_sniff where
  "empty_sniff =
     \<lparr>sn_kinds = [], sn_has_curves = False, sn_has_unsupported = False, sn_srs_name = None, sn_srs_dimension = None,
      sn_axis_labels = None, sn_dialect = None, sn_first_position = None, sn_by_reference = False, sn_empty = False,
      sn_gml_33 = False\<rparr>"

definition root_sniff :: "qname \<Rightarrow> geometry_sniff" where
  "root_sniff name =
     (let kind = geom_kind_of name in
      empty_sniff\<lparr>sn_kinds := [kind], sn_has_unsupported := (kind = GK_Unsupported),
        sn_has_curves := (compact_curve name \<noteq> None), sn_gml_33 := is_gml_33 name\<rparr>)"

definition root_state :: "scan_env \<Rightarrow> qname \<Rightarrow> geom_attrs \<Rightarrow> bytes option \<Rightarrow> nat option \<Rightarrow> sniff_state \<times> dimension_scope" where
  "root_state env name attrs inherited_srs inherited_dimension =
     observe_attrs env attrs (inherited_dimension, Option.bind inherited_srs (crs_dimension (se_data env)))
       \<lparr>ss_sniff = root_sniff name, ss_tracker = track_element name new_tracker, ss_first_srs = None\<rparr>"

definition finish_sniff :: "bytes option \<Rightarrow> bytes option \<Rightarrow> sniff_state \<Rightarrow> geometry_sniff" where
  "finish_sniff root_srs inherited_srs st =
     (ss_sniff st)\<lparr>sn_srs_name := or_else root_srs (or_else inherited_srs (ss_first_srs st)),
       sn_dialect := Some (tracked_dialect (ss_tracker st)),
       sn_empty := (sn_first_position (ss_sniff st) = None)\<rparr>"

text \<open>
  \<open>sniff_geometry_in\<close>, called right after the start element of the geometry; \<open>current_element\<close> gives
  its name and its attributes.
\<close>

definition sniff_geometry_in ::
  "scan_env \<Rightarrow> qname \<Rightarrow> raw_attribute list \<Rightarrow> bytes option \<Rightarrow> nat option \<Rightarrow> gml_reader \<Rightarrow>
   read_error + geometry_sniff \<times> gml_reader" where
  "sniff_geometry_in env name raw inherited_srs inherited_dimension r =
     (let attrs = read_attrs raw; (st, scope) = root_state env name attrs inherited_srs inherited_dimension
      in case sniff_loop env [scope] st r of
           Inl e \<Rightarrow> Inl e
         | Inr (st, r') \<Rightarrow> Inr (finish_sniff (ga_srs_name attrs) inherited_srs st, r'))"

lemma sniff_loop_left: "sniff_loop env scopes st r = Inr (st', r') \<Longrightarrow> reader_left r' \<le> reader_left r"
proof (induction env scopes st r rule: sniff_loop.induct)
  case (2 env parent scopes st r)
  show ?case
    using 2(5) 2(1-4)
    by (subst (asm) sniff_loop.simps)
      (fastforce simp: Let_def split: sum.splits prod.splits xml_event.splits if_splits
        dest: next_event_left read_first_position_left)
qed simp

end
