(* ===== verification/Scan.thy ===== *)
theory Scan
  imports Sniff Options
begin

text \<open>
  The scan of a chunk (\<open>crates/xeibe-schema/src/scan.rs\<close>): the features are walked element by element,
  and what is seen is counted in the tree of the layer (\<open>Node_Stats\<close>). The mutable references into the
  tree are the child taken out of its parent and put back; a worker's parse stack is the recursion of
  \<open>walk_content\<close>, which takes fuel and has enough of it with one unit per event left.
\<close>

subsection \<open>Version evidence from elements\<close>

record element_hints =
  eh_saw_gml :: bool
  eh_saw_gml32 :: bool
  eh_saw_gml33 :: bool
  eh_saw_gml2_elements :: bool
  eh_saw_gml3_elements :: bool

definition no_hints :: element_hints where
  "no_hints =
     \<lparr>eh_saw_gml = False, eh_saw_gml32 = False, eh_saw_gml33 = False, eh_saw_gml2_elements = False,
      eh_saw_gml3_elements = False\<rparr>"

definition GML2_ELEMENTS :: "bytes list" where
  "GML2_ELEMENTS = [''coordinates'', ''coord'', ''outerBoundaryIs'', ''innerBoundaryIs'']"

definition GML3_ELEMENTS :: "bytes list" where
  "GML3_ELEMENTS =
     [''pos'', ''posList'', ''exterior'', ''interior'', ''Curve'', ''Surface'', ''MultiCurve'', ''MultiSurface'', ''Envelope'']"

definition hint_name :: "qname \<Rightarrow> element_hints \<Rightarrow> element_hints" where
  "hint_name name h =
     (let h = (if is_gml_33 name then h\<lparr>eh_saw_gml33 := True\<rparr> else h) in
      if qns name = Some NS_GML_32 then h\<lparr>eh_saw_gml32 := True\<rparr>
      else if qns name = Some NS_GML then
        (let h = h\<lparr>eh_saw_gml := True\<rparr> in
         if qlocal name \<in> set GML2_ELEMENTS then h\<lparr>eh_saw_gml2_elements := True\<rparr>
         else if qlocal name \<in> set GML3_ELEMENTS then h\<lparr>eh_saw_gml3_elements := True\<rparr>
         else h)
      else h)"

definition merge_hints :: "element_hints \<Rightarrow> element_hints \<Rightarrow> element_hints" where
  "merge_hints a b =
     \<lparr>eh_saw_gml = (eh_saw_gml a \<or> eh_saw_gml b),
      eh_saw_gml32 = (eh_saw_gml32 a \<or> eh_saw_gml32 b),
      eh_saw_gml33 = (eh_saw_gml33 a \<or> eh_saw_gml33 b),
      eh_saw_gml2_elements = (eh_saw_gml2_elements a \<or> eh_saw_gml2_elements b),
      eh_saw_gml3_elements = (eh_saw_gml3_elements a \<or> eh_saw_gml3_elements b)\<rparr>"

definition apply_hints :: "element_hints \<Rightarrow> version_hints \<Rightarrow> version_hints" where
  "apply_hints h v =
     (let v = (if eh_saw_gml32 h then v\<lparr>gml_namespace := Some NS_GML_32\<rparr>
               else if eh_saw_gml h \<and> gml_namespace v = None then v\<lparr>gml_namespace := Some NS_GML\<rparr>
               else v)
      in v\<lparr>gml_33 := gml_33 v \<or> eh_saw_gml33 h,
           saw_gml2_elements := saw_gml2_elements v \<or> eh_saw_gml2_elements h,
           saw_gml3_elements := saw_gml3_elements v \<or> eh_saw_gml3_elements h\<rparr>)"

definition declares_gml_33 :: "namespace_context \<Rightarrow> bool" where
  "declares_gml_33 c \<longleftrightarrow> list_ex (declares_uri c) NS_GML_33"

definition namespace_hint :: "namespace_context \<Rightarrow> bytes option" where
  "namespace_hint c =
     (if declares_uri c NS_GML_32 then Some NS_GML_32 else if declares_uri c NS_GML then Some NS_GML else None)"

definition note_context_prefix :: "bytes option \<times> bytes \<Rightarrow> (bytes \<times> bytes) list \<Rightarrow> (bytes \<times> bytes) list" where
  "note_context_prefix b prefixes = (case fst b of Some p \<Rightarrow> note_prefix (snd b) p prefixes | None \<Rightarrow> prefixes)"

definition note_prefixes :: "namespace_context \<Rightarrow> dataset_observation \<Rightarrow> dataset_observation" where
  "note_prefixes c d = d\<lparr>do_prefixes := fold note_context_prefix (ctx_bindings c) (do_prefixes d)\<rparr>"

subsection \<open>The header of a source\<close>

definition producer_fingerprint :: "document_header \<Rightarrow> bytes option" where
  "producer_fingerprint h =
     (let parts = (if hd_fme_produced h then [''FME''] else []) @ map snd (ctx_bindings (hd_namespaces h))
             @ (case hd_schema_location h of Some l \<Rightarrow> [l] | None \<Rightarrow> [])
      in if parts = [] then None else Some (join_with '' '' parts))"

definition url_wfs_version :: "bytes \<Rightarrow> bytes option" where
  "url_wfs_version url =
     Option.bind (after_sub ''/wfs/'' url) (\<lambda>rest.
       map_option (\<lambda>v. if v = ''2.0'' then ''2.0.0'' else v)
         (find (\<lambda>v. starts_with v rest) [''1.0.0'', ''1.1.0'', ''2.0.0'', ''2.0'']))"

fun first_url_version :: "bytes list \<Rightarrow> bytes option" where
  "first_url_version [] = None"
| "first_url_version (url # urls) = (case url_wfs_version url of Some v \<Rightarrow> Some v | None \<Rightarrow> first_url_version urls)"

definition header_wfs_version :: "document_header \<Rightarrow> bytes option" where
  "header_wfs_version h =
     or_else (Option.bind (hd_schema_location h) (\<lambda>l. first_url_version (split_ascii_whitespace l)))
       (if qns (hd_root h) = Some NS_WFS_20 then Some ''2.0.0'' else None)"

definition context_of_header :: "document_header \<Rightarrow> source_context" where
  "context_of_header h =
     \<lparr>sc_fme_produced = hd_fme_produced h, sc_producer = producer_fingerprint h,
      sc_wfs_version = header_wfs_version h, sc_requested_srs = None, sc_requested_bbox = None\<rparr>"

definition no_version_hints :: version_hints where
  "no_version_hints =
     \<lparr>gml_namespace = None, schema_location = None, wfs_version = None, output_format = None, gml_33 = False,
      saw_gml2_elements = False, saw_gml3_elements = False, saw_poslist_dimension = False\<rparr>"

definition context_hints :: "namespace_context \<Rightarrow> version_hints" where
  "context_hints c = no_version_hints\<lparr>gml_namespace := namespace_hint c, gml_33 := declares_gml_33 c\<rparr>"

definition header_hints :: "document_header \<Rightarrow> version_hints" where
  "header_hints h =
     (context_hints (hd_namespaces h))
       \<lparr>schema_location := hd_schema_location h, wfs_version := header_wfs_version h\<rparr>"

subsection \<open>Geometries of a feature\<close>

definition GEOMETRY_ELEMENTS :: "bytes list" where
  "GEOMETRY_ELEMENTS =
     [''Point'', ''LineString'', ''LinearRing'', ''Polygon'', ''Curve'', ''OrientableCurve'', ''CompositeCurve'', ''Ring'',
      ''Surface'', ''OrientableSurface'', ''CompositeSurface'', ''PolygonPatch'', ''Triangle'', ''Rectangle'',
      ''PolyhedralSurface'', ''TriangulatedSurface'', ''Tin'', ''MultiPoint'', ''MultiLineString'', ''MultiCurve'',
      ''MultiPolygon'', ''MultiSurface'', ''MultiGeometry'', ''MultiSolid'', ''Solid'', ''CompositeSolid'',
      ''GeometricComplex'', ''Envelope'', ''Box'', ''Grid'', ''RectifiedGrid'']"

definition is_geometry_element :: "qname \<Rightarrow> bool" where
  "is_geometry_element name \<longleftrightarrow>
     (is_gml name \<and> qlocal name \<in> set GEOMETRY_ELEMENTS) \<or> is_gml_33_geometry name"

definition envelope_bbox :: "corners option \<Rightarrow> bbox option" where
  "envelope_bbox envelope =
     (case envelope of
        Some (lower, upper) \<Rightarrow>
          if 2 \<le> length lower \<and> 2 \<le> length upper
          then union_bbox (Some (lower ! 0, lower ! 1, lower ! 0, lower ! 1)) (Some (upper ! 0, upper ! 1, upper ! 0, upper ! 1))
          else None
      | None \<Rightarrow> None)"

definition is_envelope_name :: "qname \<Rightarrow> bool" where
  "is_envelope_name name \<longleftrightarrow>
     is_gml_named name ''Envelope'' \<or> is_gml_named name ''EnvelopeWithTimePeriod'' \<or> is_gml_named name ''Box''"

text \<open>
  \<open>read_collection_bounds\<close>: the first element inside the \<open>boundedBy\<close>, and what an envelope hands down (a
  srsName and a srsDimension).
\<close>

function bounds_from ::
  "scan_env \<Rightarrow> nat \<Rightarrow> gml_reader \<Rightarrow> read_error + corners option \<times> bytes option \<times> nat option" where
  "bounds_from env depth r =
     (case next_event r of
        Inl e \<Rightarrow> Inl e
      | Inr (Ev_Start name raw, r') \<Rightarrow>
          if depth + 1 = 2 then
            (if \<not> is_envelope_name name then Inr (None, None, None)
             else
               (let attrs = read_attrs raw
                in map_sum id (\<lambda>c. (c, ga_srs_name attrs, ga_srs_dimension attrs)) (se_corners env name raw r')))
          else bounds_from env (depth + 1) r'
      | Inr (Ev_End name, r') \<Rightarrow> Inr (None, None, None)
      | Inr (Ev_Eof, r') \<Rightarrow> Inr (None, None, None)
      | Inr (Ev_Text t, r') \<Rightarrow> bounds_from env depth r')"
  by pat_completeness auto
termination
  by (relation "measure (\<lambda>(env, depth, r). reader_left r)") (auto dest!: next_event_left)

declare bounds_from.simps [simp del]

definition read_collection_bounds ::
  "scan_env \<Rightarrow> raw_element \<Rightarrow> read_error + corners option \<times> bytes option \<times> nat option" where
  "read_collection_bounds env raw =
     bounds_from env 0 (with_source (re_source raw) (new_reader (se_raw_events env raw) (re_byte_offset raw)))"

subsection \<open>The walk\<close>

record feature_state =
  fe_seq :: nat
  fe_gml_id :: "bytes option"
  fe_srs_name :: "bytes option"
  fe_srs_dimension :: "nat option"
  fe_bounded :: bool
  fe_extent :: "bbox option"

record walk_state =
  ws_limits :: limits
  ws_source :: nat
  ws_hints :: element_hints
  ws_feature :: feature_state
  ws_prefixes :: "(bytes \<times> bytes) list"

text \<open>One open element: for each child its index, how many there are and where the second one is.\<close>

record walk_frame =
  wf_child_counts :: "(nat \<times> nat \<times> location option) list"
  wf_had_text :: bool
  wf_had_children :: bool
  wf_text :: bytes
  wf_geometries :: "geometry_sniff list"

record instance_info =
  ii_href :: bool
  ii_gml_id :: "bytes option"
  ii_array :: bool
  ii_bounded_by :: bool

definition new_frame :: walk_frame where
  "new_frame =
     \<lparr>wf_child_counts = [], wf_had_text = False, wf_had_children = False, wf_text = [], wf_geometries = []\<rparr>"

definition new_instance :: instance_info where
  "new_instance = \<lparr>ii_href = False, ii_gml_id = None, ii_array = False, ii_bounded_by = False\<rparr>"

definition observe_attribute :: "limits \<Rightarrow> qname \<Rightarrow> bytes \<Rightarrow> node_facts \<Rightarrow> node_facts" where
  "observe_attribute li name value f =
     (case map_of (nf_attributes f) name of
        Some s \<Rightarrow> f\<lparr>nf_attributes := AList.update name (observe (trim value) s) (nf_attributes f)\<rparr>
      | None \<Rightarrow>
          if length (nf_attributes f) < li_max_children li
          then f\<lparr>nf_attributes := nf_attributes f @ [(name, observe (trim value) (with_capacity (li_distinct_values li)))]\<rparr>
          else f\<lparr>nf_truncated := True\<rparr>)"

definition note_declaration :: "bytes option \<times> bytes \<Rightarrow> (bytes \<times> bytes) list \<Rightarrow> (bytes \<times> bytes) list" where
  "note_declaration b prefixes =
     (case fst b of
        None \<Rightarrow> prefixes
      | Some p \<Rightarrow>
          if length prefixes < MAX_PREFIXES \<and> snd b \<notin> fst ` set prefixes then prefixes @ [(snd b, p)] else prefixes)"

record start_state =
  ts_hints :: element_hints
  ts_facts :: node_facts
  ts_instance :: instance_info
  ts_nil :: bool
  ts_nil_reason :: "bytes option"

definition start_attribute :: "limits \<Rightarrow> qname \<times> bytes \<Rightarrow> start_state \<Rightarrow> start_state" where
  "start_attribute li a st =
     (let (name, value) = a;
          st = st\<lparr>ts_hints := hint_name name (ts_hints st)\<rparr>;
          take = (\<lambda>st. st\<lparr>ts_facts := observe_attribute li name value (ts_facts st)\<rparr>)
      in if qns name = Some NS_XSI then
           (if qlocal name = ''nil'' then st\<lparr>ts_nil := (trim value = ''true'' \<or> trim value = ''1'')\<rparr> else st)
         else if qns name = Some NS_XLINK \<and> qlocal name = ''href'' then
           take (st\<lparr>ts_instance := (ts_instance st)\<lparr>ii_href := True\<rparr>\<rparr>)
         else if is_gml_id name then
           take (st\<lparr>ts_facts := (ts_facts st)\<lparr>nf_has_gml_id := nf_has_gml_id (ts_facts st) + 1\<rparr>,
                    ts_instance := (ts_instance st)\<lparr>ii_gml_id := Some value\<rparr>\<rparr>)
         else if qns name = None \<and> qlocal name = ''nilReason'' then st\<lparr>ts_nil_reason := Some value\<rparr>
         else take st)"

definition finish_nil :: "limits \<Rightarrow> bool \<Rightarrow> bytes option \<Rightarrow> node_facts \<Rightarrow> node_facts" where
  "finish_nil li nil reason f =
     (if nil then
        (let s = (nf_nil f)\<lparr>ni_count := ni_count (nf_nil f) + 1\<rparr>
         in f\<lparr>nf_nil := (case reason of Some t \<Rightarrow> add_reason (trim t) s | None \<Rightarrow> s)\<rparr>)
      else (case reason of Some t \<Rightarrow> observe_attribute li (mk_qname None ''nilReason'') t f | None \<Rightarrow> f))"

definition walk_start ::
  "raw_attribute list \<Rightarrow> walk_state \<Rightarrow> node_facts \<Rightarrow> instance_info \<times> walk_state \<times> node_facts" where
  "walk_start raw ws f =
     (let prefixes = fold note_declaration (namespace_declarations raw) (ws_prefixes ws);
          st = fold (start_attribute (ws_limits ws)) (iter_attributes raw)
                 \<lparr>ts_hints = ws_hints ws, ts_facts = f, ts_instance = new_instance, ts_nil = False, ts_nil_reason = None\<rparr>
      in (ts_instance st, ws\<lparr>ws_hints := ts_hints st, ws_prefixes := prefixes\<rparr>,
          finish_nil (ws_limits ws) (ts_nil st) (ts_nil_reason st) (ts_facts st)))"

definition evidence_at :: "walk_state \<Rightarrow> location \<Rightarrow> location" where
  "evidence_at ws l = l\<lparr>loc_feature_seq := Some (fe_seq (ws_feature ws)), loc_gml_id := fe_gml_id (ws_feature ws)\<rparr>"

text \<open>\<open>geometry\<close>: what the sniff of a geometry tells about the version and the feature.\<close>

definition note_geometry :: "bool \<Rightarrow> geometry_sniff \<Rightarrow> walk_state \<Rightarrow> walk_state" where
  "note_geometry feature_bounds sniff ws =
     (let h = ws_hints ws;
          h = h\<lparr>eh_saw_gml33 := eh_saw_gml33 h \<or> sn_gml_33 sniff\<rparr>;
          h = (case sn_dialect sniff of
               Some Gml2 \<Rightarrow> h\<lparr>eh_saw_gml2_elements := True\<rparr>
             | Some Gml3 \<Rightarrow> (if eh_saw_gml h \<and> \<not> eh_saw_gml32 h then h\<lparr>eh_saw_gml3_elements := True\<rparr> else h)
             | None \<Rightarrow> h);
          f = ws_feature ws;
          f = (if is_envelope sniff then
                 (if feature_bounds \<and> \<not> fe_bounded f
                  then f\<lparr>fe_bounded := True, fe_srs_name := sn_srs_name sniff,
                         fe_srs_dimension := or_else (sn_srs_dimension sniff) (fe_srs_dimension f)\<rparr>
                  else f)
               else (case first_position sniff of
                   Some p \<Rightarrow> f\<lparr>fe_extent := union_bbox (fe_extent f) (Some (p ! 0, p ! 1, p ! 0, p ! 1))\<rparr>
                 | None \<Rightarrow> f))
      in ws\<lparr>ws_hints := h, ws_feature := f\<rparr>)"

definition walk_geometry ::
  "scan_env \<Rightarrow> qname \<Rightarrow> raw_attribute list \<Rightarrow> bool \<Rightarrow> walk_state \<Rightarrow> gml_reader \<Rightarrow>
   read_error + geometry_sniff \<times> walk_state \<times> gml_reader" where
  "walk_geometry env name raw feature_bounds ws r =
     map_sum id (\<lambda>(sniff, r'). (sniff, note_geometry feature_bounds sniff ws, r'))
       (sniff_geometry_in env name raw (fe_srs_name (ws_feature ws)) (fe_srs_dimension (ws_feature ws)) r)"

definition no_geometries :: geometry_stats where
  "no_geometries =
     \<lparr>gs_count = 0, gs_kinds = {}, gs_has_curves = False, gs_has_unsupported = False, gs_dims = {}, gs_srs = [],
      gs_axis_evidence = [], gs_by_reference = 0, gs_empty = 0\<rparr>"

definition truncate_node :: "element_node \<Rightarrow> element_node" where
  "truncate_node n = Element_Node ((en_facts n)\<lparr>nf_truncated := True\<rparr>) (en_children n)"

text \<open>\<open>get_index_of\<close>, or the index of the child that is inserted.\<close>

definition child_index :: "qname \<Rightarrow> (qname \<times> element_node) list \<Rightarrow> nat" where
  "child_index name children = length (takeWhile (\<lambda>c. fst c \<noteq> name) children)"

definition insert_child :: "letter_case \<Rightarrow> qname \<Rightarrow> element_node \<Rightarrow> element_node" where
  "insert_child u name n =
     (if map_of (en_children n) name = None
      then Element_Node (en_facts n) (en_children n @ [(name, new_node u (qlocal name) None)]) else n)"

definition put_child :: "nat \<Rightarrow> qname \<times> element_node \<Rightarrow> element_node \<Rightarrow> element_node" where
  "put_child i c n = Element_Node (en_facts n) ((en_children n)[i := c])"

fun count_child :: "nat \<Rightarrow> location \<Rightarrow> (nat \<times> nat \<times> location option) list \<Rightarrow> (nat \<times> nat \<times> location option) list" where
  "count_child i second [] = [(i, 1, None)]"
| "count_child i second ((j, count, l) # counts) =
     (if j = i then (j, count + 1, or_else l (Some second)) # counts else (j, count, l) # count_child i second counts)"

text \<open>The start of a child that is not a geometry: its node, its place in the counters, and its facts.\<close>

definition see_first :: "nat \<Rightarrow> nat \<Rightarrow> node_facts \<Rightarrow> node_facts" where
  "see_first source offset f = f\<lparr>nf_first_seen := or_else (nf_first_seen f) (Some (source, offset))\<rparr>"

definition enter_child ::
  "qname \<Rightarrow> raw_attribute list \<Rightarrow> location \<Rightarrow> walk_state \<Rightarrow> element_node \<Rightarrow> instance_info \<times> walk_state \<times> element_node" where
  "enter_child name raw loc ws child =
     (let f = (en_facts child)\<lparr>nf_instances := nf_instances (en_facts child) + 1\<rparr>;
          (ii, ws, f) = walk_start raw ws f
      in (ii\<lparr>ii_array := is_array_property name, ii_bounded_by := is_gml_named name ''boundedBy''\<rparr>, ws,
          Element_Node (see_first (ws_source ws) (loc_byte_offset loc) f) (en_children child)))"

definition note_text :: "bytes \<Rightarrow> walk_frame \<Rightarrow> walk_frame" where
  "note_text t fr =
     (if trim t = [] then fr
      else fr\<lparr>wf_had_text := True, wf_text := (if wf_had_children fr then wf_text fr else wf_text fr @ t)\<rparr>)"

definition close_geometries :: "walk_state \<Rightarrow> instance_info \<Rightarrow> walk_frame \<Rightarrow> node_facts \<Rightarrow> node_facts" where
  "close_geometries ws ii fr f =
     (if wf_geometries fr = [] then f
      else
        (let s = (case nf_geometry f of Some s \<Rightarrow> s | None \<Rightarrow> no_geometries)
         in f\<lparr>nf_geometry := Some (if ii_array ii then observe_parts (ws_source ws) (wf_geometries fr) s
               else fold (observe_geometry (ws_source ws)) (wf_geometries fr) s)\<rparr>))"

definition close_child :: "nat \<times> nat \<times> location option \<Rightarrow> (qname \<times> element_node) list \<Rightarrow> (qname \<times> element_node) list" where
  "close_child c children =
     (let (i, count, second) = c; (name, child) = children ! i; f = en_facts child
      in children[i := (name, Element_Node
           (f\<lparr>nf_parents_with := nf_parents_with f + 1, nf_max_occurs := max (nf_max_occurs f) count,
              nf_first_multi := (if 1 < count \<and> nf_first_multi f = None then second else nf_first_multi f)\<rparr>)
           (en_children child))])"

definition close_facts :: "walk_state \<Rightarrow> instance_info \<Rightarrow> walk_frame \<Rightarrow> node_facts \<Rightarrow> node_facts" where
  "close_facts ws ii fr f =
     (let f = close_geometries ws ii fr f;
          f = (if \<not> wf_had_text fr \<and> (case wf_child_counts fr of [(_, count, _)] \<Rightarrow> count = 1 | _ \<Rightarrow> False)
               then f\<lparr>nf_single_child := nf_single_child f + 1\<rparr> else f);
          has_content = (wf_had_text fr \<or> wf_had_children fr);
          f = (if wf_had_text fr \<and> wf_had_children fr then f\<lparr>nf_mixed := True\<rparr>
               else if wf_had_text fr then
                 f\<lparr>nf_text := Some (observe (trim (wf_text fr))
                     (case nf_text f of Some s \<Rightarrow> s | None \<Rightarrow> with_capacity (li_distinct_values (ws_limits ws))))\<rparr>
               else f)
      in if ii_href ii \<and> has_content then f\<lparr>nf_href_and_content := nf_href_and_content f + 1\<rparr>
         else if ii_href ii then f\<lparr>nf_by_reference := nf_by_reference f + 1\<rparr>
         else if \<not> has_content then f\<lparr>nf_empty := nf_empty f + 1\<rparr>
         else f)"

definition close_node :: "walk_state \<Rightarrow> instance_info \<Rightarrow> walk_frame \<Rightarrow> element_node \<Rightarrow> element_node" where
  "close_node ws ii fr n =
     Element_Node (close_facts ws ii fr (en_facts n)) (fold close_child (wf_child_counts fr) (en_children n))"

definition cut_off :: "limits \<Rightarrow> nat \<Rightarrow> qname \<Rightarrow> element_node \<Rightarrow> bool" where
  "cut_off li depth name n \<longleftrightarrow>
     li_max_depth li \<le> depth \<or> (map_of (en_children n) name = None \<and> li_max_children li \<le> length (en_children n))"

text \<open>
  \<open>content\<close>: walk the content of an element up to and including its end tag. \<open>None\<close>: not enough fuel;
  one unit more than \<open>reader_left\<close> is enough (\<open>walk_content_fuel\<close>).
\<close>

type_synonym walked = "(read_error + walk_state \<times> element_node \<times> gml_reader) option"

fun walk_content ::
  "scan_env \<Rightarrow> nat \<Rightarrow> nat \<Rightarrow> instance_info \<Rightarrow> walk_frame \<Rightarrow> walk_state \<Rightarrow> element_node \<Rightarrow> gml_reader \<Rightarrow> walked" where
  "walk_content env 0 depth ii fr ws n r = None"
| "walk_content env (Suc fuel) depth ii fr ws n r =
     (case next_event r of
        Inl e \<Rightarrow> Some (Inl e)
      | Inr (Ev_Start name raw, r') \<Rightarrow>
          (let fr = fr\<lparr>wf_had_children := True\<rparr>; ws = ws\<lparr>ws_hints := hint_name name (ws_hints ws)\<rparr>
           in if 1 \<le> depth \<and> is_geometry_element name then
                (case walk_geometry env name raw (depth = 1 \<and> ii_bounded_by ii) ws r' of
                   Inl e \<Rightarrow> Some (Inl e)
                 | Inr (sniff, ws, r'') \<Rightarrow>
                     walk_content env fuel depth ii (fr\<lparr>wf_geometries := wf_geometries fr @ [sniff]\<rparr>) ws n r'')
              else if cut_off (ws_limits ws) depth name n then
                (case skip_element r' of
                   Inl e \<Rightarrow> Some (Inl e)
                 | Inr r'' \<Rightarrow> walk_content env fuel depth ii fr ws (truncate_node n) r'')
              else
                (let n = insert_child (se_case env) name n;
                     i = child_index name (en_children n);
                     (ci, ws, child) = enter_child name raw (reader_location r') ws (snd (en_children n ! i));
                     fr = fr\<lparr>wf_child_counts := count_child i (evidence_at ws (reader_location r')) (wf_child_counts fr)\<rparr>
                 in case walk_content env fuel (depth + 1) ci new_frame ws child r' of
                      None \<Rightarrow> None
                    | Some (Inl e) \<Rightarrow> Some (Inl e)
                    | Some (Inr (ws, child, r'')) \<Rightarrow>
                        walk_content env fuel depth ii fr ws (put_child i (name, child) n) r''))
      | Inr (Ev_Text t, r') \<Rightarrow> walk_content env fuel depth ii (note_text t fr) ws n r'
      | Inr (Ev_End name, r') \<Rightarrow> Some (Inr (ws, close_node ws ii fr n, r'))
      | Inr (Ev_Eof, r') \<Rightarrow> Some (Inl (reader_error r' (gr_position r') Unexpected_End_Of_Chunk)))"

declare walk_content.simps(2) [simp del]

subsection \<open>The features of a chunk\<close>

record tree_builder =
  tb_observation :: dataset_observation
  tb_state :: walk_state
  tb_layers :: "qname list option"

definition default_dataset :: dataset_observation where
  "default_dataset =
     \<lparr>do_gml_versions = {}, do_layers = [], do_sampled = False, do_source_context = [], do_prefixes = [],
      do_extent = None, do_skipped_sources = []\<rparr>"

definition no_feature :: feature_state where
  "no_feature =
     \<lparr>fe_seq = 0, fe_gml_id = None, fe_srs_name = None, fe_srs_dimension = None, fe_bounded = False, fe_extent = None\<rparr>"

definition new_builder :: "limits \<Rightarrow> qname list option \<Rightarrow> nat \<Rightarrow> tree_builder" where
  "new_builder li wanted source =
     \<lparr>tb_observation = default_dataset,
      tb_state = \<lparr>ws_limits = li, ws_source = source, ws_hints = no_hints, ws_feature = no_feature, ws_prefixes = []\<rparr>,
      tb_layers = wanted\<rparr>"

definition finish_builder :: "tree_builder \<Rightarrow> dataset_observation" where
  "finish_builder b =
     (tb_observation b)\<lparr>do_prefixes :=
        fold (\<lambda>(uri, prefix). note_prefix uri prefix) (ws_prefixes (tb_state b)) (do_prefixes (tb_observation b))\<rparr>"

definition layer_entry :: "letter_case \<Rightarrow> qname \<Rightarrow> dataset_observation \<Rightarrow> layer_observation" where
  "layer_entry u name d =
     (case map_of (do_layers d) name of
        Some l \<Rightarrow> l
      | None \<Rightarrow> \<lparr>lo_feature_count = 0, lo_root = new_node u (qlocal name) None, lo_extent = None\<rparr>)"

definition enter_root ::
  "raw_attribute list \<Rightarrow> nat \<Rightarrow> walk_state \<Rightarrow> element_node \<Rightarrow> instance_info \<times> walk_state \<times> element_node" where
  "enter_root raw offset ws root =
     (let f = en_facts root;
          (ii, ws, f) = walk_start raw ws (f\<lparr>nf_instances := nf_instances f + 1, nf_parents_with := nf_parents_with f + 1\<rparr>)
      in (ii, ws, Element_Node (see_first (ws_source ws) offset f) (en_children root)))"

text \<open>One feature; \<open>seq\<close> is its sequence number and \<open>inherited\<close> what the collection hands down.\<close>

definition scan_feature ::
  "scan_env \<Rightarrow> nat \<Rightarrow> nat \<Rightarrow> bytes option \<times> nat option \<Rightarrow> qname \<Rightarrow> raw_attribute list \<Rightarrow> gml_reader \<Rightarrow> tree_builder \<Rightarrow>
   (read_error + tree_builder \<times> gml_reader) option" where
  "scan_feature env fuel seq inherited name raw r b =
     (let layer = layer_entry (se_case env) name (tb_observation b);
          ws = (tb_state b)\<lparr>ws_hints := hint_name name (ws_hints (tb_state b))\<rparr>;
          (ii, ws, root) = enter_root raw (loc_byte_offset (reader_location r)) ws (lo_root layer);
          ws = ws\<lparr>ws_feature := \<lparr>fe_seq = seq, fe_gml_id = ii_gml_id ii, fe_srs_name = fst inherited,
                 fe_srs_dimension = snd inherited, fe_bounded = False, fe_extent = None\<rparr>\<rparr>
      in case walk_content env fuel 0 ii new_frame ws root r of
           None \<Rightarrow> None
         | Some (Inl e) \<Rightarrow> Some (Inl e)
         | Some (Inr (ws, root, r')) \<Rightarrow>
             (let layer = \<lparr>lo_feature_count = lo_feature_count layer + 1, lo_root = root,
                    lo_extent = union_bbox (lo_extent layer) (fe_extent (ws_feature ws))\<rparr>;
                  d = tb_observation b
              in Some (Inr (b\<lparr>tb_observation := d\<lparr>do_layers := AList.update name layer (do_layers d)\<rparr>,
                      tb_state := ws\<lparr>ws_feature := (ws_feature ws)\<lparr>fe_extent := None\<rparr>\<rparr>\<rparr>, r'))))"

text \<open>
  The loop of \<open>TreeBuilder::scan\<close>: the budget left, and whether it ran out before the chunk did.
\<close>

fun scan_features ::
  "scan_env \<Rightarrow> nat \<Rightarrow> nat \<Rightarrow> bytes option \<times> nat option \<Rightarrow> nat option \<Rightarrow> tree_builder \<Rightarrow> gml_reader \<Rightarrow>
   (read_error + tree_builder \<times> nat option \<times> bool) option" where
  "scan_features env 0 seq inherited budget b r = None"
| "scan_features env (Suc fuel) seq inherited budget b r =
     (case next_event r of
        Inl e \<Rightarrow> Some (Inl e)
      | Inr (Ev_Start name raw, r') \<Rightarrow>
          if (case tb_layers b of Some wanted \<Rightarrow> name \<notin> set wanted | None \<Rightarrow> False) then
            (case skip_element r' of
               Inl e \<Rightarrow> Some (Inl e) | Inr r'' \<Rightarrow> scan_features env fuel seq inherited budget b r'')
          else if budget = Some 0 then Some (Inr (b, budget, True))
          else
            (case scan_feature env fuel seq inherited name raw r' b of
               None \<Rightarrow> None
             | Some (Inl e) \<Rightarrow> Some (Inl e)
             | Some (Inr (b, r'')) \<Rightarrow>
                 scan_features env fuel (seq + 1) inherited (map_option (\<lambda>k. k - 1) budget) b r'')
      | Inr (Ev_Text t, r') \<Rightarrow> scan_features env fuel seq inherited budget b r'
      | Inr (Ev_End name, r') \<Rightarrow> scan_features env fuel seq inherited budget b r'
      | Inr (Ev_Eof, r') \<Rightarrow> Some (Inr (b, budget, False)))"

declare scan_features.simps(2) [simp del]

definition builder_scan ::
  "scan_env \<Rightarrow> feature_chunk \<Rightarrow> nat option \<Rightarrow> tree_builder \<Rightarrow> (read_error + tree_builder \<times> nat option \<times> bool) option" where
  "builder_scan env chunk budget b =
     (let r = for_chunk (se_events env) chunk;
          go = scan_features env (Suc (reader_left r)) (fc_first_feature_seq chunk)
      in case fc_collection_bounded_by chunk of
           None \<Rightarrow> go (None, None) budget b r
         | Some raw \<Rightarrow>
             (case read_collection_bounds env (arc_val raw) of
                Inl e \<Rightarrow> Some (Inl e)
              | Inr (corners, inherited) \<Rightarrow>
                  go inherited budget (b\<lparr>tb_observation := (tb_observation b)\<lparr>do_extent := envelope_bbox corners\<rparr>\<rparr>) r))"

record scan_options =
  so_limits :: limits
  so_layers :: "qname list option"

record chunk_scan =
  ch_observation :: dataset_observation
  ch_hints :: element_hints
  ch_stopped :: bool

definition scan_chunk_inner ::
  "scan_env \<Rightarrow> scan_options \<Rightarrow> feature_chunk \<Rightarrow> nat option \<Rightarrow> (read_error + chunk_scan \<times> nat option) option" where
  "scan_chunk_inner env options chunk budget =
     (let b = new_builder (so_limits options) (so_layers options) (fc_source chunk);
          b = b\<lparr>tb_observation := note_prefixes (arc_val (fc_namespaces chunk)) (tb_observation b)\<rparr>
      in map_option (map_sum id (\<lambda>(b, budget, stopped).
             (\<lparr>ch_observation = finish_builder b, ch_hints = ws_hints (tb_state b), ch_stopped = stopped\<rparr>, budget)))
           (builder_scan env chunk budget b))"

definition add_version :: "gml_version option \<Rightarrow> dataset_observation \<Rightarrow> dataset_observation" where
  "add_version v d = (case v of Some v \<Rightarrow> d\<lparr>do_gml_versions := insert v (do_gml_versions d)\<rparr> | None \<Rightarrow> d)"

definition guess_version :: "feature_chunk \<Rightarrow> chunk_scan \<Rightarrow> dataset_observation" where
  "guess_version chunk s =
     add_version (detect (apply_hints (ch_hints s) (context_hints (arc_val (fc_namespaces chunk))))) (ch_observation s)"

definition scan_chunk :: "scan_env \<Rightarrow> scan_options \<Rightarrow> feature_chunk \<Rightarrow> (read_error + dataset_observation) option" where
  "scan_chunk env options chunk =
     map_option (map_sum id (\<lambda>(s, _). guess_version chunk s)) (scan_chunk_inner env options chunk None)"

text \<open>With the budget left, and whether features were left unscanned.\<close>

definition scan_chunk_limited ::
  "scan_env \<Rightarrow> scan_options \<Rightarrow> feature_chunk \<Rightarrow> nat \<Rightarrow> (read_error + (dataset_observation \<times> bool) \<times> nat) option" where
  "scan_chunk_limited env options chunk budget =
     map_option (map_sum id (\<lambda>(s, left). ((guess_version chunk s, ch_stopped s), case left of Some k \<Rightarrow> k | None \<Rightarrow> 0)))
       (scan_chunk_inner env options chunk (Some budget))"

end
