(* ===== verification/Scan_Run.thy ===== *)
theory Scan_Run
  imports Scan Splitter_Run
begin

text \<open>
  The run of a scan over its sources (\<open>Scanner::run\<close>, \<open>ScanSources\<close> and \<open>SourceScan\<close> of
  \<open>crates/xeibe-schema/src/scan.rs\<close>): each source is opened and split (\<open>Splitter_Run\<close>), its chunks get
  their shares of the budget, and the observations of the chunks are merged with what the headers say.
  The run is that of the calling thread; how the workers of a pool share the items is the subject of
  \<open>Parallel_Pool\<close>. The chunks of all sources are listed before they are scanned; a scan that fails
  returns nothing but its first error, so the order does not show.
\<close>

subsection \<open>The budget of a sampled scan\<close>

record budget =
  bu_left :: "nat option"
  bu_used_up :: bool

definition new_budget :: "nat option \<Rightarrow> budget" where
  "new_budget left = \<lparr>bu_left = left, bu_used_up = False\<rparr>"

text \<open>
  The share of a chunk with that many features: \<open>None\<close> when the budget is used up. The flag tells that
  the scan is sampled (it stopped before the end of a source).
\<close>

definition budget_share :: "nat \<Rightarrow> budget \<Rightarrow> nat option option \<times> budget \<times> bool" where
  "budget_share features b =
     (case bu_left b of
        None \<Rightarrow> (Some None, b, False)
      | Some left \<Rightarrow>
          if left = 0 then (None, b\<lparr>bu_used_up := True\<rparr>, True)
          else
            (let take = min features left;
                 b = b\<lparr>bu_left := Some (left - take)\<rparr>
             in if take < features then (Some (Some take), b\<lparr>bu_used_up := True\<rparr>, True)
                else (Some (Some take), b, False)))"

subsection \<open>Sources\<close>

datatype scan_error = Split_Failed error | Read_Failed read_error | No_Features_In "bytes list"

record source_header =
  sh_namespaces :: namespace_context
  sh_context :: source_context
  sh_hints :: version_hints

datatype source_status = Status_Pending | Status_Read source_header | Status_Skipped

text \<open>A source is its name and what opening it gives: an error, or a reader.\<close>

record scan_source =
  sx_name :: bytes
  sx_open :: "error + read_result list"

datatype source_state = Unopened scan_source nat | Splitting splitter nat | Failed_Source scan_error | Source_Done

text \<open>
  What the streams of a scan share; the mutexes and the decoding ahead are not in the model. The budget
  of the input is shared by its streams, and a sample of each source gives every stream its own.
\<close>

record scan_shared =
  sd_splitter_options :: splitter_options
  sd_opened :: "(bytes \<times> source_status) list"
  sd_budget :: budget
  sd_per_source :: "nat option"
  sd_sampled :: bool

record source_scan =
  sr_budget :: "budget option"
  sr_state :: source_state

definition set_status :: "nat \<Rightarrow> source_status \<Rightarrow> scan_shared \<Rightarrow> scan_shared" where
  "set_status i status sd = sd\<lparr>sd_opened := (sd_opened sd)[i := (fst (sd_opened sd ! i), status)]\<rparr>"

definition header_of_source :: "document_header \<Rightarrow> source_header" where
  "header_of_source h =
     \<lparr>sh_namespaces = hd_namespaces h, sh_context = context_of_header h, sh_hints = header_hints h\<rparr>"

text \<open>\<open>open\<close>: the state after it, unless it fails.\<close>

definition open_source :: "byte_ext \<Rightarrow> scan_source \<Rightarrow> nat \<Rightarrow> scan_shared \<Rightarrow> scan_error + source_state \<times> scan_shared" where
  "open_source x source i sd =
     (case sx_open source of
        Inl e \<Rightarrow> Inl (Split_Failed e)
      | Inr reader \<Rightarrow>
          (case read_to_header x (new_splitter reader i (sd_splitter_options sd)) of
             (Inr h, sp) \<Rightarrow> Inr (Splitting sp i, set_status i (Status_Read (header_of_source h)) sd)
           | (Inl (No_Features _), sp) \<Rightarrow> Inr (Source_Done, set_status i Status_Skipped sd)
           | (Inl e, sp) \<Rightarrow> Inl (Split_Failed e)))"

definition scan_budget :: "source_scan \<Rightarrow> scan_shared \<Rightarrow> budget" where
  "scan_budget s sd = (case sr_budget s of Some b \<Rightarrow> b | None \<Rightarrow> sd_budget sd)"

definition take_share :: "nat \<Rightarrow> source_scan \<Rightarrow> scan_shared \<Rightarrow> nat option option \<times> source_scan \<times> scan_shared" where
  "take_share features s sd =
     (let (taken, b, sampled) = budget_share features (scan_budget s sd);
          sd = sd\<lparr>sd_sampled := sd_sampled sd \<or> sampled\<rparr>
      in case sr_budget s of
           Some _ \<Rightarrow> (taken, s\<lparr>sr_budget := Some b\<rparr>, sd)
         | None \<Rightarrow> (taken, s, sd\<lparr>sd_budget := b\<rparr>))"

type_synonym chunk_item = "scan_error + feature_chunk \<times> nat option"

text \<open>The next chunk of an open source.\<close>

definition split_next ::
  "byte_ext \<Rightarrow> splitter \<Rightarrow> nat \<Rightarrow> source_scan \<Rightarrow> scan_shared \<Rightarrow> chunk_item option \<times> source_scan \<times> scan_shared" where
  "split_next x sp i s sd =
     (let s = s\<lparr>sr_state := Source_Done\<rparr> in
      if bu_used_up (scan_budget s sd) then (None, s, sd)
      else
        (case next_chunk x sp of
           (Inr (Some chunk), sp) \<Rightarrow>
             (case take_share (fc_features chunk) s sd of
                (None, s, sd) \<Rightarrow> (None, s, sd)
              | (Some taken, s, sd) \<Rightarrow> (Some (Inr (chunk, taken)), s\<lparr>sr_state := Splitting sp i\<rparr>, sd))
         | (Inl (No_Features _), sp) \<Rightarrow> (None, s, set_status i Status_Skipped sd)
         | (Inl e, sp) \<Rightarrow> (Some (Inl (Split_Failed e)), s, sd)
         | (Inr None, sp) \<Rightarrow> (None, s, sd)))"

text \<open>\<open>SourceScan::next\<close>: its loop runs a second time only after \<open>open\<close>.\<close>

definition source_next ::
  "byte_ext \<Rightarrow> source_scan \<Rightarrow> scan_shared \<Rightarrow> chunk_item option \<times> source_scan \<times> scan_shared" where
  "source_next x s sd =
     (case sr_state s of
        Unopened source i \<Rightarrow>
          (case open_source x source i sd of
             Inl e \<Rightarrow> (Some (Inl e), s\<lparr>sr_state := Source_Done\<rparr>, sd)
           | Inr (Splitting sp j, sd) \<Rightarrow> split_next x sp j s sd
           | Inr (_, sd) \<Rightarrow> (None, s\<lparr>sr_state := Source_Done\<rparr>, sd))
      | Splitting sp i \<Rightarrow> split_next x sp i s sd
      | Failed_Source e \<Rightarrow> (Some (Inl e), s\<lparr>sr_state := Source_Done\<rparr>, sd)
      | Source_Done \<Rightarrow> (None, s, sd))"

text \<open>\<open>ScanSources::next_stream\<close>, with the sources that remain.\<close>

definition next_stream ::
  "(scan_error + scan_source) list \<Rightarrow> scan_shared \<Rightarrow> source_scan option \<times> (scan_error + scan_source) list \<times> scan_shared" where
  "next_stream sources sd =
     (let own = map_option (\<lambda>n. new_budget (Some n)) (sd_per_source sd) in
      if bu_used_up (sd_budget sd) then (None, sources, sd)
      else
        (case sources of
           [] \<Rightarrow> (None, [], sd)
         | Inr source # rest \<Rightarrow>
             (Some \<lparr>sr_budget = own, sr_state = Unopened source (min (length (sd_opened sd)) (2 ^ 32 - 1))\<rparr>, rest,
              sd\<lparr>sd_opened := sd_opened sd @ [(sx_name source, Status_Pending)]\<rparr>)
         | Inl e # rest \<Rightarrow> (Some \<lparr>sr_budget = own, sr_state = Failed_Source e\<rparr>, rest, sd)))"

definition ends_input :: "chunk_item \<Rightarrow> bool" where
  "ends_input item \<longleftrightarrow> isl item"

lemma split_next_left:
  assumes "split_next x sp i s sd = (Some (Inr item), s', sd')"
  obtains sp' where "sr_state s' = Splitting sp' i"
    "steps_left sp' < steps_left sp \<or> steps_left sp' = steps_left sp \<and> length (sp_ready sp') < length (sp_ready sp)"
  using assms next_chunk_left
  by (fastforce simp: split_next_def Let_def split: if_splits prod.splits sum.splits option.splits error.splits)

definition state_left :: "source_state \<Rightarrow> nat \<times> nat \<times> nat" where
  "state_left st = (case st of Unopened _ _ \<Rightarrow> (1, 0, 0) | Splitting sp _ \<Rightarrow> (0, steps_left sp, length (sp_ready sp)) | _ \<Rightarrow> (0, 0, 0))"

lemma source_next_left:
  assumes "source_next x s sd = (Some (Inr item), s', sd')"
  shows "(state_left (sr_state s'), state_left (sr_state s)) \<in> less_than <*lex*> less_than <*lex*> less_than"
proof -
  consider (unopened) source i where "sr_state s = Unopened source i" | (splitting) sp i where "sr_state s = Splitting sp i"
    using assms by (cases "sr_state s") (simp_all add: source_next_def)
  then show ?thesis
  proof cases
    case unopened
    then obtain sp j sd1 where "split_next x sp j s sd1 = (Some (Inr item), s', sd')"
      using assms by (auto simp: source_next_def split: sum.splits prod.splits source_state.splits)
    then show ?thesis by (rule split_next_left) (simp add: unopened state_left_def)
  next
    case splitting
    then have "split_next x sp i s sd = (Some (Inr item), s', sd')" using assms by (simp add: source_next_def)
    then show ?thesis by (rule split_next_left) (auto simp: splitting state_left_def)
  qed
qed

text \<open>What a stream delivers until it ends or fails.\<close>

function source_items ::
  "byte_ext \<Rightarrow> source_scan \<Rightarrow> scan_shared \<Rightarrow> chunk_item list \<times> scan_shared" where
  "source_items x s sd =
     (case source_next x s sd of
        (None, s, sd) \<Rightarrow> ([], sd)
      | (Some (Inl e), s, sd) \<Rightarrow> ([Inl e], sd)
      | (Some (Inr item), s, sd) \<Rightarrow> (case source_items x s sd of (items, sd) \<Rightarrow> (Inr item # items, sd)))"
  by pat_completeness auto
termination
  by (relation "inv_image (less_than <*lex*> less_than <*lex*> less_than) (\<lambda>(x, s, sd). state_left (sr_state s))")
    (auto dest: source_next_left [OF sym] simp del: in_lex_prod)

declare source_items.simps [simp del]

text \<open>The streams of all sources, one after another, until an item ends the input.\<close>

fun all_items ::
  "byte_ext \<Rightarrow> nat \<Rightarrow> (scan_error + scan_source) list \<Rightarrow> scan_shared \<Rightarrow> chunk_item list \<times> scan_shared" where
  "all_items x 0 sources sd = ([], sd)"
| "all_items x (Suc k) sources sd =
     (case next_stream sources sd of
        (None, rest, sd) \<Rightarrow> ([], sd)
      | (Some s, rest, sd) \<Rightarrow>
          (case source_items x s sd of
             (items, sd) \<Rightarrow>
               if list_ex ends_input items then (items, sd)
               else (case all_items x k rest sd of (rest_items, sd) \<Rightarrow> (items @ rest_items, sd))))"

subsection \<open>Partial observations\<close>

record partial =
  pa_observation :: dataset_observation
  pa_hints :: "(nat \<times> element_hints) list"
  pa_error :: "scan_error option"

definition default_partial :: partial where
  "default_partial = \<lparr>pa_observation = default_dataset, pa_hints = [], pa_error = None\<rparr>"

definition partial_hints :: "nat \<Rightarrow> element_hints \<Rightarrow> (nat \<times> element_hints) list \<Rightarrow> (nat \<times> element_hints) list" where
  "partial_hints source h hs =
     AList.update source (merge_hints (case map_of hs source of Some g \<Rightarrow> g | None \<Rightarrow> no_hints) h) hs"

text \<open>\<open>scan_item\<close>: the flag tells whether the worker goes on.\<close>

definition scan_item :: "scan_env \<Rightarrow> scan_options \<Rightarrow> partial \<Rightarrow> chunk_item \<Rightarrow> (partial \<times> bool) option" where
  "scan_item env options p item =
     (case item of
        Inl e \<Rightarrow> Some (p\<lparr>pa_error := Some e\<rparr>, False)
      | Inr (chunk, budget) \<Rightarrow>
          (case scan_chunk_inner env options chunk budget of
             None \<Rightarrow> None
           | Some (Inl e) \<Rightarrow> Some (p\<lparr>pa_error := Some (Read_Failed e)\<rparr>, False)
           | Some (Inr (s, _)) \<Rightarrow>
               Some (p\<lparr>pa_observation := merge_dataset (pa_observation p) (ch_observation s),
                       pa_hints := partial_hints (fc_source chunk) (ch_hints s) (pa_hints p)\<rparr>, True)))"

fun scan_items :: "scan_env \<Rightarrow> scan_options \<Rightarrow> partial \<Rightarrow> chunk_item list \<Rightarrow> partial option" where
  "scan_items env options p [] = Some p"
| "scan_items env options p (item # items) =
     (case scan_item env options p item of
        None \<Rightarrow> None
      | Some (p, going) \<Rightarrow> if going then scan_items env options p items else Some p)"

subsection \<open>The observation of all sources\<close>

definition no_source_context :: source_context where
  "no_source_context =
     \<lparr>sc_fme_produced = False, sc_producer = None, sc_wfs_version = None, sc_requested_srs = None, sc_requested_bbox = None\<rparr>"

definition add_opened :: "bytes \<times> source_status \<Rightarrow> dataset_observation \<Rightarrow> dataset_observation" where
  "add_opened source d =
     (case snd source of
        Status_Read h \<Rightarrow>
          (let d = note_prefixes (sh_namespaces h) d
           in d\<lparr>do_source_context := do_source_context d @ [sh_context h]\<rparr>)
      | Status_Skipped \<Rightarrow>
          d\<lparr>do_source_context := do_source_context d @ [no_source_context],
            do_skipped_sources := do_skipped_sources d @ [fst source]\<rparr>
      | Status_Pending \<Rightarrow> d\<lparr>do_source_context := do_source_context d @ [no_source_context]\<rparr>)"

definition is_read :: "source_status \<Rightarrow> bool" where
  "is_read s \<longleftrightarrow> (case s of Status_Read _ \<Rightarrow> True | _ \<Rightarrow> False)"

definition merge_source_hints :: "nat \<times> element_hints \<Rightarrow> element_hints list \<Rightarrow> element_hints list" where
  "merge_source_hints h hs = (if fst h < length hs then hs[fst h := merge_hints (hs ! fst h) (snd h)] else hs)"

definition source_version :: "(bytes \<times> source_status) \<times> element_hints \<Rightarrow> dataset_observation \<Rightarrow> dataset_observation" where
  "source_version s d =
     (case snd (fst s) of
        Status_Read h \<Rightarrow> add_version (detect (apply_hints (snd s) (sh_hints h))) d
      | _ \<Rightarrow> d)"

fun first_error :: "partial list \<Rightarrow> scan_error option" where
  "first_error [] = None"
| "first_error (p # ps) = (case pa_error p of Some e \<Rightarrow> Some e | None \<Rightarrow> first_error ps)"

definition scan_total :: "scan_shared \<Rightarrow> partial list \<Rightarrow> scan_error + dataset_observation" where
  "scan_total sd partials =
     (let opened = sd_opened sd;
          total = fold add_opened opened default_dataset;
          scanned = length (filter (\<lambda>s. is_read (snd s)) opened);
          hints = fold merge_source_hints (concat (map pa_hints partials)) (replicate (length opened) no_hints);
          total = fold (\<lambda>p d. merge_dataset d (pa_observation p)) partials total
      in case first_error partials of
           Some e \<Rightarrow> Inl e
         | None \<Rightarrow>
             if scanned = 0 \<and> do_skipped_sources total \<noteq> [] then Inl (No_Features_In (do_skipped_sources total))
             else Inr ((fold source_version (zip opened hints) total)\<lparr>do_sampled := sd_sampled sd\<rparr>))"

datatype scan_extent = Extent_Full | Extent_Sample nat | Extent_Per_Source nat

definition new_shared :: "scan_extent \<Rightarrow> scan_options \<Rightarrow> splitter_options \<Rightarrow> scan_shared" where
  "new_shared extent options so =
     \<lparr>sd_splitter_options = (if so_layers options \<noteq> None then so\<lparr>layers := so_layers options\<rparr> else so),
      sd_opened = [], sd_budget = new_budget (case extent of Extent_Sample n \<Rightarrow> Some n | _ \<Rightarrow> None),
      sd_per_source = (case extent of Extent_Per_Source n \<Rightarrow> Some n | _ \<Rightarrow> None), sd_sampled = False\<rparr>"

text \<open>\<open>Scanner::run\<close> on the calling thread (\<open>threads <= 1\<close>): one partial observation.\<close>

definition scan_run ::
  "byte_ext \<Rightarrow> scan_env \<Rightarrow> scan_extent \<Rightarrow> scan_options \<Rightarrow> splitter_options \<Rightarrow> (scan_error + scan_source) list \<Rightarrow>
   (scan_error + dataset_observation) option" where
  "scan_run x env extent options so sources =
     (let (items, sd) = all_items x (Suc (length sources)) sources (new_shared extent options so)
      in map_option (\<lambda>p. scan_total sd [p]) (scan_items env options default_partial items))"

end
