(* ===== verification/Scan_Laws.thy ===== *)
theory Scan_Laws
  imports Scan_Run Node_Laws
begin

text \<open>
  Laws of the walk: it ends, it reads the whole content of an element however it uses it, and what it
  counts in the tree of a layer is the elements there are.
\<close>

subsection \<open>The walk ends\<close>

lemma walk_geometry_left:
  "walk_geometry env name raw b ws r = Inr (sniff, ws', r') \<Longrightarrow> reader_left r' \<le> reader_left r"
  by (auto simp: walk_geometry_def sniff_geometry_in_def Let_def map_sum_def dest: sniff_loop_left
      split: sum.splits prod.splits)

lemma next_event_start_left: "next_event r = Inr (Ev_Start q a, r') \<Longrightarrow> reader_left r' < reader_left r"
  using next_event_left by auto

text \<open>The walk by cases of the next event and, for a start, of what is done with the child.\<close>

definition walk_hint :: "qname \<Rightarrow> walk_state \<Rightarrow> walk_state" where
  "walk_hint name ws = ws\<lparr>ws_hints := hint_name name (ws_hints ws)\<rparr>"

definition entered ::
  "scan_env \<Rightarrow> qname \<Rightarrow> raw_attribute list \<Rightarrow> gml_reader \<Rightarrow> walk_state \<Rightarrow> element_node \<Rightarrow> instance_info \<times> walk_state \<times> element_node" where
  "entered env name raw r ws n =
     (let n = insert_child (se_case env) name n
      in enter_child name raw (reader_location r) (walk_hint name ws) (snd (en_children n ! child_index name (en_children n))))"

lemma walk_content_cases:
  "next_event r = Inl e \<Longrightarrow> walk_content env (Suc fuel) depth ii fr ws n r = Some (Inl e)"
  "next_event r = Inr (Ev_Text t, r1) \<Longrightarrow>
   walk_content env (Suc fuel) depth ii fr ws n r = walk_content env fuel depth ii (note_text t fr) ws n r1"
  "next_event r = Inr (Ev_End q, r1) \<Longrightarrow>
   walk_content env (Suc fuel) depth ii fr ws n r = Some (Inr (ws, close_node ws ii fr n, r1))"
  "next_event r = Inr (Ev_Eof, r1) \<Longrightarrow>
   walk_content env (Suc fuel) depth ii fr ws n r = Some (Inl (reader_error r1 (gr_position r1) Unexpected_End_Of_Chunk))"
  by (simp_all add: walk_content.simps(2))

lemma walk_geometry_case:
  "next_event r = Inr (Ev_Start name raw, r1) \<Longrightarrow> 1 \<le> depth \<Longrightarrow> is_geometry_element name \<Longrightarrow>
   walk_content env (Suc fuel) depth ii fr ws n r =
     (case walk_geometry env name raw (depth = 1 \<and> ii_bounded_by ii) (walk_hint name ws) r1 of
        Inl e \<Rightarrow> Some (Inl e)
      | Inr (sniff, ws, r2) \<Rightarrow>
          walk_content env fuel depth ii (fr\<lparr>wf_had_children := True, wf_geometries := wf_geometries fr @ [sniff]\<rparr>) ws n r2)"
  by (auto simp: walk_content.simps(2) walk_hint_def Let_def split: sum.split)

lemma walk_cut_case:
  "next_event r = Inr (Ev_Start name raw, r1) \<Longrightarrow> \<not> (1 \<le> depth \<and> is_geometry_element name) \<Longrightarrow>
   cut_off (ws_limits ws) depth name n \<Longrightarrow>
   walk_content env (Suc fuel) depth ii fr ws n r =
     (case skip_element r1 of
        Inl e \<Rightarrow> Some (Inl e)
      | Inr r2 \<Rightarrow> walk_content env fuel depth ii (fr\<lparr>wf_had_children := True\<rparr>) (walk_hint name ws) (truncate_node n) r2)"
  by (auto simp: walk_content.simps(2) walk_hint_def Let_def split: sum.split)

lemma walk_child_case:
  assumes "next_event r = Inr (Ev_Start name raw, r1)" "\<not> (1 \<le> depth \<and> is_geometry_element name)"
    "\<not> cut_off (ws_limits ws) depth name n" "entered env name raw r1 ws n = (ci, ws1, child)"
    "n1 = insert_child (se_case env) name n" "i = child_index name (en_children n1)"
    "fr1 = fr\<lparr>wf_had_children := True,
       wf_child_counts := count_child i (evidence_at ws1 (reader_location r1)) (wf_child_counts fr)\<rparr>"
  shows "walk_content env (Suc fuel) depth ii fr ws n r =
     (case walk_content env fuel (Suc depth) ci new_frame ws1 child r1 of
        None \<Rightarrow> None
      | Some (Inl e) \<Rightarrow> Some (Inl e)
      | Some (Inr (ws, child, r2)) \<Rightarrow> walk_content env fuel depth ii fr1 ws (put_child i (name, child) n1) r2)"
  using assms(1-4) unfolding assms(5-7)
  by (auto simp: walk_content.simps(2) entered_def walk_hint_def Let_def split: option.split sum.split)

lemma walk_content_fuel:
  "reader_left r < fuel \<Longrightarrow>
   walk_content env fuel depth ii fr ws n r \<noteq> None \<and>
   (\<forall>ws' n' r'. walk_content env fuel depth ii fr ws n r = Some (Inr (ws', n', r')) \<longrightarrow> reader_left r' < reader_left r)"
proof (induction fuel arbitrary: depth ii fr ws n r)
  case (Suc fuel)
  show ?case
  proof (cases "next_event r")
    case (Inl e)
    then show ?thesis by (simp add: walk_content_cases)
  next
    case (Inr p)
    obtain event r1 where event: "next_event r = Inr (event, r1)" using Inr by (cases p) auto
    note left = next_event_left [OF event]
    have IH: "walk_content env fuel depth ii fr ws n r2 \<noteq> None \<and>
        (\<forall>ws' n' r'. walk_content env fuel depth ii fr ws n r2 = Some (Inr (ws', n', r')) \<longrightarrow> reader_left r' < reader_left r)"
      if "reader_left r2 < reader_left r" for depth ii fr ws n r2
      using Suc.IH [of r2 depth ii fr ws n] Suc.prems that by fastforce
    have IH1: "\<exists>y. walk_content env fuel depth ii fr ws n r2 = Some y"
      if "reader_left r2 < reader_left r" for depth ii fr ws n r2
      using IH [OF that] by blast
    have IH2: "reader_left r' < reader_left r"
      if "walk_content env fuel depth ii fr ws n r2 = Some (Inr (ws', n', r'))" "reader_left r2 < reader_left r"
      for depth ii fr ws n r2 ws' n' r'
      using IH [OF that(2)] that(1) by blast
    show ?thesis
    proof (cases event)
      case (Ev_Start name raw)
      note start = event [unfolded Ev_Start] and l1 = next_event_start_left [OF event [unfolded Ev_Start]]
      consider (geometry) "1 \<le> depth" "is_geometry_element name"
        | (cut) "\<not> (1 \<le> depth \<and> is_geometry_element name)" "cut_off (ws_limits ws) depth name n"
        | (child) "\<not> (1 \<le> depth \<and> is_geometry_element name)" "\<not> cut_off (ws_limits ws) depth name n" by blast
      then show ?thesis
      proof cases
        case geometry
        show ?thesis unfolding walk_geometry_case [OF start geometry]
          using l1 by (auto split: sum.split intro!: IH1 elim!: IH2 dest!: walk_geometry_left)
      next
        case cut
        show ?thesis unfolding walk_cut_case [OF start cut]
          using l1 by (auto split: sum.split intro!: IH1 elim!: IH2 dest!: skip_element_left)
      next
        case child
        obtain ci ws1 c where e: "entered env name raw r1 ws n = (ci, ws1, c)" by (metis prod_cases3)
        let ?w = "walk_content env fuel (Suc depth) ci new_frame ws1 c r1"
        have w: "?w \<noteq> None" "\<And>ws' n' r'. ?w = Some (Inr (ws', n', r')) \<Longrightarrow> reader_left r' < reader_left r"
          using IH [OF l1] by auto
        show ?thesis unfolding walk_child_case [OF start child e refl refl refl]
          using w l1 by (auto split: option.split sum.split intro!: IH1 elim!: IH2)
      qed
    next
      case (Ev_End q)
      then show ?thesis using left event by (simp add: walk_content_cases)
    next
      case (Ev_Text t)
      then show ?thesis using IH [of r1] left event by (simp add: walk_content_cases)
    next
      case Ev_Eof
      then show ?thesis using event by (simp add: walk_content_cases)
    qed
  qed
qed simp

lemma scan_feature_fuel:
  assumes "reader_left r < fuel"
  shows "scan_feature env fuel seq inherited name raw r b \<noteq> None"
    and "scan_feature env fuel seq inherited name raw r b = Some (Inr (b', r')) \<Longrightarrow> reader_left r' < reader_left r"
  using walk_content_fuel [OF assms, THEN conjunct2]
  by (auto simp: scan_feature_def Let_def walk_content_fuel [OF assms, THEN conjunct1]
      split: option.splits sum.splits prod.splits)

lemma scan_features_fuel:
  "reader_left r < fuel \<Longrightarrow> scan_features env fuel seq inherited budget b r \<noteq> None"
proof (induction fuel arbitrary: seq budget b r)
  case (Suc fuel)
  have IH: "\<exists>y. scan_features env fuel seq inherited budget b r2 = Some y"
    if "reader_left r2 < reader_left r" for r2 seq budget b using Suc.IH [of r2] that Suc.prems by simp
  show ?case
  proof (cases "next_event r")
    case (Inr p)
    obtain event r1 where event: "next_event r = Inr (event, r1)" using Inr by (cases p) auto
    note left = next_event_left [OF event]
    show ?thesis
    proof (cases event)
      case (Ev_Start name raw)
      have l1: "reader_left r1 < reader_left r" using left by (simp add: Ev_Start)
      have f: "reader_left r1 < fuel" using l1 Suc.prems by simp
      note feature = scan_feature_fuel [OF f]
      show ?thesis using l1
        by (auto simp: scan_features.simps(2) event Ev_Start feature(1) split: sum.split option.split
            intro!: IH dest!: skip_element_left feature(2))
    qed (use left IH in \<open>auto simp: scan_features.simps(2) event\<close>)
  qed (simp add: scan_features.simps(2))
qed simp

lemmas scan_features_returns = scan_features_fuel [OF lessI, simplified]

lemma builder_scan_returns: "builder_scan env chunk budget b \<noteq> None"
  unfolding builder_scan_def Let_def
  by (auto simp: scan_features_returns split: option.split sum.split)

lemma scan_chunk_inner_returns: "scan_chunk_inner env options chunk budget \<noteq> None"
  using builder_scan_returns by (simp add: scan_chunk_inner_def Let_def)

lemma scan_items_returns: "scan_items env options p items \<noteq> None"
proof (induction items arbitrary: p)
  case (Cons item items)
  have "scan_item env options p item \<noteq> None"
    by (auto simp: scan_item_def scan_chunk_inner_returns split: sum.split option.split)
  then show ?case using Cons.IH by (auto split: option.split)
qed simp

subsection \<open>The content of an element is read as a whole\<close>

lemma reads_content_open: "reads_content r cs r' \<Longrightarrow> gr_open r \<noteq> [] \<Longrightarrow> gr_open r' = tl (gr_open r)"
  by (cases "gr_open r") (auto dest: reads_content_skips)

lemma event_open:
  "next_event r = Inr (Ev_Text t, r1) \<Longrightarrow> gr_open r1 = gr_open r"
  "next_event r = Inr (Ev_Start q a, r1) \<Longrightarrow> gr_open r1 = q # gr_open r"
  using next_event_skip(1,2) by blast+

lemma child_open:
  "next_event r = Inr (Ev_Start q a, r1) \<Longrightarrow> reads_content r1 inner r2 \<Longrightarrow>
   skip_element r1 = Inr r2 \<and> gr_open r2 = gr_open r"
  using event_open(2) reads_content_open skip_element_content by fastforce

lemma element_text_content:
  "reads_content r cs r' \<Longrightarrow> gr_open r \<noteq> [] \<Longrightarrow> \<exists>t. element_text s r = Inr (t, r')"
proof (induction arbitrary: s rule: reads_content.induct)
  case (end_tag r q r')
  then show ?case by (subst element_text.simps) simp
next
  case (text_event r t r1 cs r')
  then show ?case by (subst element_text.simps) (simp add: event_open)
next
  case (element r q a r1 inner r2 cs r')
  then show ?case using child_open [OF element(1,2)] by (subst element_text.simps) simp
qed

lemma coord_position_content:
  "reads_content r cs r' \<Longrightarrow> gr_open r \<noteq> [] \<Longrightarrow> \<exists>p. coord_position env xyz r = Inr (p, r')"
proof (induction arbitrary: xyz rule: reads_content.induct)
  case (end_tag r q r')
  then show ?case by (subst coord_position.simps) (simp add: Let_def)
next
  case (text_event r t r1 cs r')
  then show ?case by (subst coord_position.simps) (simp add: event_open Let_def)
next
  case (element r q a r1 inner r2 cs r')
  obtain t where t: "element_text [] r1 = Inr (t, r2)"
    using element_text_content [OF element(2)] event_open(2) [OF element(1)] by auto
  show ?case using child_open [OF element(1,2)] element t
    by (subst coord_position.simps) (simp add: Let_def split: option.split)
qed

lemma read_first_position_content:
  "reads_content r cs r' \<Longrightarrow> gr_open r \<noteq> [] \<Longrightarrow> \<exists>p. read_first_position env name attrs scope r = Inr (p, r')"
  using coord_position_content [of r cs r' env "[None, None, None]"] element_text_content [of r cs r' "[]"]
  by (auto simp: read_first_position_def)

lemma sniff_loop_content:
  "reads_content r cs r' \<Longrightarrow> gr_open r \<noteq> [] \<Longrightarrow>
   \<exists>st'. sniff_loop env (parent # scopes) st r = sniff_loop env scopes st' r'"
proof (induction arbitrary: parent scopes st rule: reads_content.induct)
  case (end_tag r q r')
  then show ?case by (auto simp: sniff_loop.simps(2))
next
  case (text_event r t r1 cs r')
  then show ?case by (simp add: sniff_loop.simps(2) event_open)
next
  case (element r q a r1 inner r2 cs r')
  note open2 = child_open [OF element(1,2), THEN conjunct2]
  have open1: "gr_open r1 \<noteq> []" using event_open(2) [OF element(1)] by simp
  let ?attrs = "read_attrs a"
  obtain st1 scope where s: "sniff_element env q ?attrs parent st = (st1, scope)" by (rule prod.exhaust)
  have rest: "\<exists>st'. sniff_loop env (parent # scopes) st2 r2 = sniff_loop env scopes st' r'" for st2
    using element.IH(2) element.prems open2 by simp
  show ?case
  proof (cases "wants_position q st1")
    case True
    obtain p where "read_first_position env q ?attrs scope r1 = Inr (p, r2)"
      using read_first_position_content [OF element(2) open1] by blast
    then show ?thesis using rest by (simp add: sniff_loop.simps(2) element(1) s True Let_def)
  next
    case False
    obtain st2 where "sniff_loop env (scope # parent # scopes) st1 r1 = sniff_loop env (parent # scopes) st2 r2"
      using element.IH(1) [OF open1] by blast
    then show ?thesis using rest [of st2] by (simp add: sniff_loop.simps(2) element(1) s False Let_def)
  qed
qed

text \<open>Sniffing a geometry reads the whole element, as skipping it does, and never fails on content that can be read.\<close>

lemma sniff_geometry_content:
  assumes "reads_content r cs r'" "gr_open r \<noteq> []"
  shows "\<exists>sniff. sniff_geometry_in env name raw srs dimension r = Inr (sniff, r')"
proof -
  obtain st scope where "root_state env name (read_attrs raw) srs dimension = (st, scope)" by (rule prod.exhaust)
  then show ?thesis
    using sniff_loop_content [OF assms, of env scope "[]" st] by (auto simp: sniff_geometry_in_def Let_def)
qed

lemma walk_geometry_content:
  assumes "reads_content r cs r'" "gr_open r \<noteq> []"
  shows "\<exists>sniff ws'. walk_geometry env name raw b ws r = Inr (sniff, ws', r')"
proof -
  obtain sniff where "sniff_geometry_in env name raw (fe_srs_name (ws_feature ws)) (fe_srs_dimension (ws_feature ws)) r = Inr (sniff, r')"
    using sniff_geometry_content [OF assms] by blast
  then show ?thesis by (simp add: walk_geometry_def)
qed

subsection \<open>What the walk keeps of the tree\<close>

text \<open>The children differ in nothing but what closing a parent updates.\<close>

definition same_child :: "qname \<times> element_node \<Rightarrow> qname \<times> element_node \<Rightarrow> bool" where
  "same_child c d \<longleftrightarrow>
     fst c = fst d \<and> en_children (snd c) = en_children (snd d) \<and>
     nf_instances (en_facts (snd c)) = nf_instances (en_facts (snd d)) \<and>
     nf_truncated (en_facts (snd c)) = nf_truncated (en_facts (snd d)) \<and>
     facts_ok (en_facts (snd c)) = facts_ok (en_facts (snd d))"

lemma same_child_refl: "same_child c c" by (simp add: same_child_def)

lemma same_children_trans:
  "list_all2 same_child as bs \<Longrightarrow> list_all2 same_child bs cs \<Longrightarrow> list_all2 same_child as cs"
  by (erule (1) list_all2_trans [rotated]) (simp add: same_child_def)

lemma close_child_same: "list_all2 same_child cs (close_child c cs)"
proof -
  obtain i count second where c: "c = (i, count, second)" by (cases c)
  obtain q n where q: "cs ! i = (q, n)" by fastforce
  have "same_child (cs ! j) (close_child c cs ! j)" if "j < length cs" for j
    using that q by (cases "j = i") (auto simp: close_child_def c Let_def same_child_def facts_ok_def)
  then show ?thesis by (auto simp: list_all2_conv_all_nth close_child_def c Let_def split: prod.split)
qed

lemma close_children_same: "list_all2 same_child cs (fold close_child counts cs)"
proof (induction counts arbitrary: cs)
  case Nil
  show ?case by (simp add: list_all2_same same_child_refl)
next
  case (Cons c counts)
  show ?case using same_children_trans [OF close_child_same [of cs c] Cons.IH] by simp
qed

lemma same_children_map_of:
  "list_all2 same_child cs ds \<Longrightarrow>
   rel_option (\<lambda>m n. same_child (q, m) (q, n)) (map_of cs q) (map_of ds q) \<and> map fst cs = map fst ds"
  by (induction rule: list_all2_induct) (auto simp: same_child_def)

fun untruncated :: "element_node \<Rightarrow> bool" where
  "untruncated (Element_Node f children) \<longleftrightarrow> \<not> nf_truncated f \<and> list_all (\<lambda>c. untruncated (snd c)) children"

lemma untruncated_eq:
  "untruncated n \<longleftrightarrow> \<not> nf_truncated (en_facts n) \<and> (\<forall>c \<in> set (en_children n). untruncated (snd c))"
  by (cases n) (simp add: list_all_iff)

lemma node_ok_eq:
  "node_ok n \<longleftrightarrow> facts_ok (en_facts n) \<and> distinct (map fst (en_children n)) \<and> (\<forall>c \<in> set (en_children n). node_ok (snd c))"
  by (cases n) (simp add: list_all_iff)

lemma same_child_keeps:
  "same_child c d \<Longrightarrow> node_ok (snd c) = node_ok (snd d) \<and> untruncated (snd c) = untruncated (snd d)"
  unfolding node_ok_eq [of "snd c"] node_ok_eq [of "snd d"] untruncated_eq [of "snd c"] untruncated_eq [of "snd d"]
  by (simp add: same_child_def)

lemma same_children_keep:
  "list_all2 same_child cs ds \<Longrightarrow>
   (\<forall>c \<in> set cs. node_ok (snd c)) = (\<forall>c \<in> set ds. node_ok (snd c)) \<and>
   (\<forall>c \<in> set cs. untruncated (snd c)) = (\<forall>c \<in> set ds. untruncated (snd c))"
  by (induction rule: list_all2_induct) (use same_child_keeps in auto)

abbreviation instances_at :: "qname list \<Rightarrow> element_node \<Rightarrow> nat" where
  "instances_at p n \<equiv> total_at nf_instances p n"

lemma instances_at_Nil: "instances_at [] n = nf_instances (en_facts n)"
  by (simp add: total_at_def facts_at_def)

lemma instances_at_Cons:
  "instances_at (q # p) n = (case map_of (en_children n) q of None \<Rightarrow> 0 | Some c \<Rightarrow> instances_at p c)"
  by (simp add: total_at_def facts_at_def split: option.split)

lemma same_child_instances: "same_child (q, m) (q, n) \<Longrightarrow> instances_at p m = instances_at p n"
  by (cases p) (simp_all add: instances_at_Nil instances_at_Cons same_child_def)

lemma same_children_instances:
  "list_all2 same_child (en_children m) (en_children n) \<Longrightarrow> instances_at (q # p) m = instances_at (q # p) n"
  by (drule same_children_map_of [of _ _ q]) (auto simp: instances_at_Cons rel_option_iff same_child_instances split: option.splits)

subsection \<open>Facts that grow\<close>

text \<open>What every update of a node's facts in the walk keeps.\<close>

definition carries :: "node_facts \<Rightarrow> node_facts \<Rightarrow> bool" where
  "carries f g \<longleftrightarrow>
     nf_instances g = nf_instances f \<and> (facts_ok f \<longrightarrow> facts_ok g) \<and> (nf_truncated f \<longrightarrow> nf_truncated g)"

lemma carries_refl: "carries f f" by (simp add: carries_def)

lemma carries_trans: "carries f g \<Longrightarrow> carries g h \<Longrightarrow> carries f h" by (simp add: carries_def)

lemma carries_fold: "(\<And>x s. carries (get s) (get (h x s))) \<Longrightarrow> carries (get s) (get (fold h xs s))"
  by (induction xs arbitrary: s) (auto intro: carries_refl carries_trans)

lemma carries_update:
  "carries f (f\<lparr>nf_has_gml_id := k\<rparr>)" "carries f (f\<lparr>nf_geometry := g\<rparr>)" "carries f (f\<lparr>nf_single_child := k\<rparr>)"
  "carries f (f\<lparr>nf_mixed := m\<rparr>)" "carries f (f\<lparr>nf_text := t\<rparr>)" "carries f (f\<lparr>nf_href_and_content := k\<rparr>)"
  "carries f (f\<lparr>nf_by_reference := k\<rparr>)" "carries f (f\<lparr>nf_empty := k\<rparr>)" "carries f (f\<lparr>nf_first_seen := s\<rparr>)"
  by (simp_all add: carries_def facts_ok_def)

lemma carries_nil: "(nil_ok (nf_nil f) \<Longrightarrow> nil_ok s) \<Longrightarrow> carries f (f\<lparr>nf_nil := s\<rparr>)"
  by (simp add: carries_def facts_ok_def)

lemma carries_observe: "carries f (observe_attribute li name value f)"
  by (auto simp: carries_def facts_ok_def observe_attribute_def distinct_update map_of_eq_None_iff split: option.split)

lemma carries_start_attribute: "carries (ts_facts st) (ts_facts (start_attribute li a st))"
  by (auto simp: start_attribute_def Let_def carries_refl carries_observe split: prod.split
      intro: carries_trans [OF carries_update(1) carries_observe])

lemma carries_finish_nil: "carries f (finish_nil li nil reason f)"
  by (auto simp: finish_nil_def Let_def carries_refl carries_observe nil_ok_def add_reason_def split: option.split intro!: carries_nil)

lemma carries_walk_start:
  assumes "walk_start raw ws f = (ii, ws', g)"
  shows "carries f g"
proof -
  let ?st = "\<lparr>ts_hints = ws_hints ws, ts_facts = f, ts_instance = new_instance, ts_nil = False, ts_nil_reason = None\<rparr>"
  have "carries (ts_facts ?st) (ts_facts (fold (start_attribute (ws_limits ws)) (iter_attributes raw) ?st))"
    by (rule carries_fold) (rule carries_start_attribute)
  then show ?thesis
    using assms by (auto simp: walk_start_def Let_def intro: carries_trans [OF _ carries_finish_nil])
qed

lemma carries_close_facts: "carries f (close_facts ws ii fr f)"
proof -
  have "carries f (close_geometries ws ii fr f)"
    by (simp add: close_geometries_def Let_def carries_refl carries_update)
  then show ?thesis unfolding close_facts_def Let_def
    by (simp add: carries_def facts_ok_def)
qed

subsection \<open>The place of a child\<close>

lemma child_index_map_of:
  "map_of cs q = Some c \<Longrightarrow> child_index q cs < length cs \<and> cs ! child_index q cs = (q, c)"
  by (induction cs) (auto simp: child_index_def)

lemma put_is_update: "q \<in> fst ` set cs \<Longrightarrow> cs[child_index q cs := (q, c)] = AList.update q c cs"
  by (induction cs) (auto simp: child_index_def)

lemma insert_child_keeps:
  "en_facts (insert_child u q n) = en_facts n"
  "map_of (en_children (insert_child u q n)) q' =
     (if q' = q \<and> map_of (en_children n) q = None then Some (new_node u (qlocal q) None) else map_of (en_children n) q')"
  "node_ok n \<Longrightarrow> node_ok (insert_child u q n)"
  "untruncated (insert_child u q n) = untruncated n"
  "instances_at (q' # p) (insert_child u q n) = instances_at (q' # p) n"
proof -
  have new: "node_ok (new_node u (qlocal q) None)" "untruncated (new_node u (qlocal q) None)"
    "instances_at p (new_node u (qlocal q) None) = 0"
    by (cases p; simp add: new_node_def default_facts_def facts_ok_def nil_ok_def instances_at_Nil instances_at_Cons)+
  show "en_facts (insert_child u q n) = en_facts n" by (simp add: insert_child_def)
  show m: "map_of (en_children (insert_child u q n)) q' =
     (if q' = q \<and> map_of (en_children n) q = None then Some (new_node u (qlocal q) None) else map_of (en_children n) q')" for q'
    by (auto simp: insert_child_def map_add_def split: option.split)
  show "node_ok n \<Longrightarrow> node_ok (insert_child u q n)"
    using new by (cases n) (auto simp: insert_child_def map_of_eq_None_iff)
  show "untruncated (insert_child u q n) = untruncated n"
    using new by (cases n) (auto simp: insert_child_def)
  show "instances_at (q' # p) (insert_child u q n) = instances_at (q' # p) n"
    using new by (auto simp: instances_at_Cons m split: option.split)
qed

subsection \<open>The walk counts the elements\<close>

text \<open>
  The number of elements at a path below an element with this content at this depth. Inside a property
  (depth 1 and more) a geometry element is a leaf of its own, and not counted.
\<close>

fun elements_at :: "nat \<Rightarrow> qname list \<Rightarrow> xml list \<Rightarrow> nat" where
  "elements_at d [] cs = 1"
| "elements_at d (q # p) [] = 0"
| "elements_at d (q # p) (X_Text t # cs) = elements_at d (q # p) cs"
| "elements_at d (q # p) (X_Elem name a offset inner # cs) =
     (if name = q \<and> \<not> (1 \<le> d \<and> is_geometry_element name) then elements_at (Suc d) p inner else 0)
     + elements_at d (q # p) cs"

text \<open>From \<open>n\<close> to \<open>n'\<close> exactly these elements were counted, unless something was left out.\<close>

definition counted :: "nat \<Rightarrow> xml list \<Rightarrow> element_node \<Rightarrow> element_node \<Rightarrow> bool" where
  "counted d cs n n' \<longleftrightarrow>
     nf_instances (en_facts n') = nf_instances (en_facts n) \<and> (node_ok n \<longrightarrow> node_ok n') \<and>
     (untruncated n' \<longrightarrow> untruncated n \<and>
        (\<forall>q p. instances_at (q # p) n' = instances_at (q # p) n + elements_at d (q # p) cs))"

lemma counted_trans: "counted d [x] n n1 \<Longrightarrow> counted d cs n1 n2 \<Longrightarrow> counted d (x # cs) n n2"
  by (cases x) (auto simp: counted_def)

lemma counted_text: "counted d [X_Text t] n n" by (simp add: counted_def)

lemma counted_geometry: "1 \<le> d \<Longrightarrow> is_geometry_element q \<Longrightarrow> counted d [X_Elem q a offset inner] n n"
  by (simp add: counted_def)

lemma counted_truncate: "counted d cs n (truncate_node n)"
  by (cases n) (simp add: counted_def truncate_node_def facts_ok_def)

lemma counted_close: "counted d [] n (close_node ws ii fr n)"
proof -
  define m where "m = close_node ws ii fr n"
  have facts: "carries (en_facts n) (en_facts m)" by (simp add: m_def close_node_def carries_close_facts)
  have same: "list_all2 same_child (en_children n) (en_children m)" by (simp add: m_def close_node_def close_children_same)
  note keep = same_children_keep [OF same] same_children_map_of [OF same, THEN conjunct2] same_children_instances [OF same]
  show ?thesis
    using facts keep
    unfolding m_def [symmetric] counted_def carries_def node_ok_eq [of n] node_ok_eq [of m] untruncated_eq [of n] untruncated_eq [of m]
    by auto
qed

lemma counted_child:
  assumes start: "\<not> (1 \<le> d \<and> is_geometry_element name)"
    and entered: "entered env name raw r ws n = (ci, ws1, child)"
    and inner: "counted (Suc d) inner child child'"
    and n1: "n1 = insert_child (se_case env) name n" "i = child_index name (en_children n1)"
  shows "counted d [X_Elem name raw offset inner] n (put_child i (name, child') n1)"
proof -
  obtain c where c: "map_of (en_children n1) name = Some c"
    using insert_child_keeps(2) [of "se_case env" name n name] unfolding n1 by (auto split: if_splits)
  have at: "i < length (en_children n1)" "en_children n1 ! i = (name, c)"
    using child_index_map_of [OF c] by (simp_all add: n1)
  define f where "f = (en_facts c)\<lparr>nf_instances := nf_instances (en_facts c) + 1\<rparr>"
  obtain g where g: "carries f g" "en_facts child = g" "en_children child = en_children c"
    using entered at(2) carries_walk_start carries_trans [OF _ carries_update(9)]
    by (fastforce simp: entered_def enter_child_def n1 Let_def f_def see_first_def split: prod.splits)
  have f: "nf_instances f = nf_instances (en_facts c) + 1" "facts_ok f = facts_ok (en_facts c)"
    "nf_truncated f = nf_truncated (en_facts c)" by (simp_all add: f_def facts_ok_def)
  have child: "node_ok c \<Longrightarrow> node_ok child" "untruncated child \<Longrightarrow> untruncated c"
    using g f by (auto simp: carries_def node_ok_eq [of c] node_ok_eq [of child] untruncated_eq [of c] untruncated_eq [of child])
  have counts: "instances_at p child' = instances_at p c + elements_at (Suc d) p inner" if "untruncated child'" for p
    using that inner g f
    by (cases p) (auto simp: counted_def instances_at_Nil instances_at_Cons [of _ _ c] instances_at_Cons [of _ _ child] carries_def)
  have known: "name \<in> fst ` set (en_children n1)" using map_of_SomeD [OF c] by force
  define m where "m = put_child i (name, child') n1"
  have m: "en_children m = (en_children n1)[i := (name, child')]" "en_facts m = en_facts n"
    by (simp_all add: m_def put_child_def n1 insert_child_keeps)
  then have put: "en_children m = AList.update name child' (en_children n1)"
    using put_is_update [OF known] by (simp add: n1(2))
  have sub: "set (en_children m) \<subseteq> insert (name, child') (set (en_children n1))"
    unfolding m by (rule set_update_subset_insert)
  have ok: "node_ok m" if "node_ok n"
  proof -
    have n: "node_ok n1" using that by (simp add: n1 insert_child_keeps)
    then have "node_ok child'" using child(1) node_ok_child [OF n c] inner by (simp add: counted_def)
    moreover have "distinct (map fst (en_children m))" using n put by (simp add: node_ok_eq [of n1] distinct_update)
    ultimately show ?thesis using n that sub m(2) by (auto simp: node_ok_eq [of m] node_ok_eq [of n] node_ok_eq [of n1])
  qed
  have cut: "untruncated n \<and> (\<forall>q p. instances_at (q # p) m = instances_at (q # p) n + elements_at d (q # p) [X_Elem name raw offset inner])"
    if u: "untruncated m"
  proof -
    have "(name, child') \<in> set (en_children m)" unfolding m by (rule set_update_memI [OF at(1)])
    then have u': "untruncated child'" using u untruncated_eq [of m] by fastforce
    then have uc: "untruncated c" using child(2) inner by (simp add: counted_def)
    have "untruncated (snd x)" if x: "x \<in> set (en_children n1)" for x
    proof -
      obtain j where j: "j < length (en_children n1)" "x = en_children n1 ! j" using x by (auto simp: in_set_conv_nth)
      show ?thesis
      proof (cases "j = i")
        case False
        then have "x \<in> set (en_children m)" using j by (auto simp: m in_set_conv_nth intro: exI [of _ j])
        then show ?thesis using u untruncated_eq [of m] by blast
      qed (use j at uc in simp)
    qed
    moreover have "\<not> nf_truncated (en_facts n1)"
      using u untruncated_eq [of m] m(2) by (simp add: n1 insert_child_keeps)
    ultimately have "untruncated n1" using untruncated_eq [of n1] by blast
    then have un: "untruncated n" by (simp add: n1 insert_child_keeps)
    have "instances_at (q # p) m = instances_at (q # p) n1 + elements_at d (q # p) [X_Elem name raw offset inner]" for q p
      using start counts [OF u'] c by (auto simp: instances_at_Cons put update_conv')
    then show ?thesis using un by (simp add: n1 insert_child_keeps)
  qed
  show ?thesis unfolding m_def [symmetric] using ok cut m(2) by (simp add: counted_def)
qed

text \<open>The walk of content that can be read ends after its end tag, and counts its elements.\<close>

lemma walk_content_counts:
  "reads_content r cs r' \<Longrightarrow> gr_open r \<noteq> [] \<Longrightarrow> reader_left r < fuel \<Longrightarrow>
   \<exists>ws' n'. walk_content env fuel d ii fr ws n r = Some (Inr (ws', n', r')) \<and> counted d cs n n'"
proof (induction arbitrary: fuel d ii fr ws n rule: reads_content.induct)
  case (end_tag r q r')
  obtain k where k: "fuel = Suc k" using end_tag(3) by (cases fuel) auto
  show ?case using counted_close by (simp add: k walk_content_cases(3) [OF end_tag(1)])
next
  case (text_event r t r1 cs r')
  obtain k where k: "fuel = Suc k" using text_event.prems by (cases fuel) auto
  have "reader_left r1 < k" using next_event_left [OF text_event(1)] text_event.prems k by auto
  then show ?case
    using text_event.IH [of k d ii "note_text t fr" ws n] text_event.prems event_open(1) [OF text_event(1)] counted_trans [OF counted_text]
    by (auto simp: k walk_content_cases(2) [OF text_event(1)])
next
  case (element r q a r1 inner r2 cs r')
  obtain k where k: "fuel = Suc k" using element.prems by (cases fuel) auto
  have l1: "reader_left r1 < k" using next_event_start_left [OF element(1)] element.prems k by auto
  have l2: "reader_left r2 < k" using l1 reads_content_left [OF element(2)] by simp
  note open2 = child_open [OF element(1,2)]
  have open1: "gr_open r1 \<noteq> []" using event_open(2) [OF element(1)] by simp
  let ?x = "X_Elem q a (loc_byte_offset (reader_location r1)) inner"
  have rest: "\<exists>ws' n'. walk_content env k d ii fr ws2 n2 r2 = Some (Inr (ws', n', r')) \<and> counted d (?x # cs) n n'"
    if "counted d [?x] n n2" for fr ws2 n2
  proof -
    obtain ws' n' where "walk_content env k d ii fr ws2 n2 r2 = Some (Inr (ws', n', r'))" "counted d cs n2 n'"
      using element.IH(2) [of k d ii fr ws2 n2] element.prems open2 l2 by auto
    then show ?thesis using counted_trans [OF that] by blast
  qed
  consider (geometry) "1 \<le> d" "is_geometry_element q"
    | (cut) "\<not> (1 \<le> d \<and> is_geometry_element q)" "cut_off (ws_limits ws) d q n"
    | (child) "\<not> (1 \<le> d \<and> is_geometry_element q)" "\<not> cut_off (ws_limits ws) d q n" by blast
  then show ?case
  proof cases
    case geometry
    obtain sniff ws1 where g: "walk_geometry env q a (d = 1 \<and> ii_bounded_by ii) (walk_hint q ws) r1 = Inr (sniff, ws1, r2)"
      using walk_geometry_content [OF element(2) open1] by blast
    show ?thesis unfolding k walk_geometry_case [OF element(1) geometry] using rest [OF counted_geometry [OF geometry]] by (simp add: g [unfolded One_nat_def])
  next
    case cut
    show ?thesis unfolding k walk_cut_case [OF element(1) cut] using rest [OF counted_truncate] open2 by simp
  next
    case child
    obtain ci ws1 c where e: "entered env q a r1 ws n = (ci, ws1, c)" by (metis prod_cases3)
    obtain ws2 c' where w: "walk_content env k (Suc d) ci new_frame ws1 c r1 = Some (Inr (ws2, c', r2))" "counted (Suc d) inner c c'"
      using element.IH(1) [OF open1 l1] by blast
    show ?thesis unfolding k walk_child_case [OF element(1) child e refl refl refl]
      using rest [OF counted_child [OF child(1) e w(2) refl refl]] by (simp add: w(1))
  qed
qed

end
