(* ===== verification/Scan_Counts.thy ===== *)
theory Scan_Counts
  imports Scan_Laws
begin

text \<open>
  Laws of a scan: what the scan of chunks counts, what a budget takes of them, that it ends, and that
  coordinates are whole positions.
\<close>

subsection \<open>Features\<close>

text \<open>The features a chunk holds, as the reader delivers them up to the end of the input.\<close>

inductive reads_features :: "gml_reader \<Rightarrow> xml list \<Rightarrow> bool" where
  input_end: "next_event r = Inr (Ev_Eof, r') \<Longrightarrow> reads_features r []"
| between: "next_event r = Inr (Ev_Text t, r1) \<Longrightarrow> reads_features r1 fs \<Longrightarrow> reads_features r fs"
| feature: "next_event r = Inr (Ev_Start q a, r1) \<Longrightarrow> reads_content r1 inner r2 \<Longrightarrow> reads_features r2 fs \<Longrightarrow>
    reads_features r (X_Elem q a (loc_byte_offset (reader_location r1)) inner # fs)"

fun elem_name :: "xml \<Rightarrow> qname option" where
  "elem_name (X_Elem q a offset inner) = Some q"
| "elem_name (X_Text t) = None"

definition is_wanted :: "qname list option \<Rightarrow> xml \<Rightarrow> bool" where
  "is_wanted wanted f \<longleftrightarrow>
     (case wanted of None \<Rightarrow> True | Some ls \<Rightarrow> (case elem_name f of Some q \<Rightarrow> q \<in> set ls | None \<Rightarrow> False))"

definition taken_features :: "qname list option \<Rightarrow> nat option \<Rightarrow> xml list \<Rightarrow> xml list" where
  "taken_features wanted budget fs =
     (let fs = filter (is_wanted wanted) fs in case budget of None \<Rightarrow> fs | Some k \<Rightarrow> take k fs)"

text \<open>Elements of the layer \<open>q\<close> at the path \<open>p\<close> in these features; the empty path counts the features.\<close>

fun feature_elements :: "qname \<Rightarrow> qname list \<Rightarrow> xml list \<Rightarrow> nat" where
  "feature_elements q p [] = 0"
| "feature_elements q p (X_Text t # fs) = feature_elements q p fs"
| "feature_elements q p (X_Elem name a offset inner # fs) =
     (if name = q then elements_at 0 p inner else 0) + feature_elements q p fs"

lemma feature_elements_append: "feature_elements q p (fs @ gs) = feature_elements q p fs + feature_elements q p gs"
  by (induction fs rule: feature_elements.induct) simp_all

definition layers_ok :: "dataset_observation \<Rightarrow> bool" where
  "layers_ok d \<longleftrightarrow> distinct (map fst (do_layers d)) \<and> (\<forall>l \<in> set (do_layers d). node_ok (lo_root (snd l)))"

definition layer_count :: "qname \<Rightarrow> dataset_observation \<Rightarrow> nat" where
  "layer_count q d = (case map_of (do_layers d) q of None \<Rightarrow> 0 | Some l \<Rightarrow> lo_feature_count l)"

definition layer_instances :: "qname \<Rightarrow> qname list \<Rightarrow> dataset_observation \<Rightarrow> nat" where
  "layer_instances q p d = (case map_of (do_layers d) q of None \<Rightarrow> 0 | Some l \<Rightarrow> instances_at p (lo_root l))"

definition layer_whole :: "qname \<Rightarrow> dataset_observation \<Rightarrow> bool" where
  "layer_whole q d = (case map_of (do_layers d) q of None \<Rightarrow> True | Some l \<Rightarrow> untruncated (lo_root l))"

text \<open>From \<open>d\<close> to \<open>d'\<close> exactly these features were counted.\<close>

definition tallied :: "xml list \<Rightarrow> dataset_observation \<Rightarrow> dataset_observation \<Rightarrow> bool" where
  "tallied fs d d' \<longleftrightarrow>
     (layers_ok d \<longrightarrow> layers_ok d') \<and>
     (\<forall>q. layer_count q d' = layer_count q d + feature_elements q [] fs \<and>
        (layer_whole q d' \<longrightarrow> layer_whole q d \<and>
           (\<forall>p. layer_instances q p d' = layer_instances q p d + feature_elements q p fs)))"

lemma tallied_refl: "tallied [] d d" by (simp add: tallied_def)

lemma tallied_trans: "tallied fs d d1 \<Longrightarrow> tallied gs d1 d2 \<Longrightarrow> tallied (fs @ gs) d d2"
  by (simp add: tallied_def feature_elements_append)

lemma new_node_keeps:
  "node_ok (new_node u l None)" "untruncated (new_node u l None)" "instances_at p (new_node u l None) = 0"
  by (cases p; simp add: new_node_def default_facts_def facts_ok_def nil_ok_def instances_at_Nil instances_at_Cons)+

lemma layer_entry_keeps:
  "layers_ok d \<Longrightarrow> node_ok (lo_root (layer_entry u q d))"
  "untruncated (lo_root (layer_entry u q d)) = layer_whole q d"
  "instances_at p (lo_root (layer_entry u q d)) = layer_instances q p d"
  "lo_feature_count (layer_entry u q d) = layer_count q d"
  by (auto simp: layer_entry_def layer_whole_def layer_instances_def layer_count_def layers_ok_def new_node_keeps
      split: option.split dest: map_of_SomeD)

lemma enter_root_keeps:
  assumes "enter_root raw offset ws root = (ii, ws', root')"
  shows "node_ok root \<longrightarrow> node_ok root'" "untruncated root' \<longrightarrow> untruncated root"
    "instances_at p root' = instances_at p root + (if p = [] then 1 else 0)"
proof -
  define f where "f = (en_facts root)\<lparr>nf_instances := nf_instances (en_facts root) + 1, nf_parents_with := nf_parents_with (en_facts root) + 1\<rparr>"
  obtain g where g: "carries f g" "en_facts root' = g" "en_children root' = en_children root"
  proof -
    obtain ii1 ws1 g1 where s: "walk_start raw ws f = (ii1, ws1, g1)" by (metis prod_cases3)
    have "carries f (see_first (ws_source ws1) offset g1)"
      using carries_trans [OF carries_walk_start [OF s] carries_update(9)] by (simp add: see_first_def)
    then show ?thesis using assms s [unfolded f_def] by (intro that) (auto simp: enter_root_def Let_def)
  qed
  have f: "nf_instances f = nf_instances (en_facts root) + 1" "facts_ok f = facts_ok (en_facts root)"
    "nf_truncated f = nf_truncated (en_facts root)" by (simp_all add: f_def facts_ok_def)
  show "node_ok root \<longrightarrow> node_ok root'" using g f by (auto simp: node_ok_eq [of root] node_ok_eq [of root'] carries_def)
  show "untruncated root' \<longrightarrow> untruncated root"
    using g f by (auto simp: untruncated_eq [of root] untruncated_eq [of root'] carries_def)
  show "instances_at p root' = instances_at p root + (if p = [] then 1 else 0)"
    using g f by (cases p) (auto simp: instances_at_Nil instances_at_Cons carries_def)
qed

lemma update_layer:
  assumes "map_of (do_layers d') = (map_of (do_layers d))(q \<mapsto> l)"
  shows "layer_count q' d' = (if q' = q then lo_feature_count l else layer_count q' d)"
    "layer_whole q' d' = (if q' = q then untruncated (lo_root l) else layer_whole q' d)"
    "layer_instances q' p d' = (if q' = q then instances_at p (lo_root l) else layer_instances q' p d)"
  by (simp_all add: layer_count_def layer_whole_def layer_instances_def assms)

lemma set_update_insert: "set (AList.update k v m) \<subseteq> insert (k, v) (set m)"
  by (induction m) auto

lemma scan_feature_tallies:
  assumes "reads_content r inner r'" "gr_open r \<noteq> []" "reader_left r < fuel"
  shows "\<exists>b'. scan_feature env fuel seq inherited q a r b = Some (Inr (b', r')) \<and> tb_layers b' = tb_layers b \<and>
    tallied [X_Elem q a offset inner] (tb_observation b) (tb_observation b')"
proof -
  let ?d = "tb_observation b"
  let ?layer = "layer_entry (se_case env) q ?d"
  let ?ws = "(tb_state b)\<lparr>ws_hints := hint_name q (ws_hints (tb_state b))\<rparr>"
  obtain ii ws1 root where enter: "enter_root a (loc_byte_offset (reader_location r)) ?ws (lo_root ?layer) = (ii, ws1, root)"
    by (metis prod_cases3)
  let ?ws1 = "ws1\<lparr>ws_feature := \<lparr>fe_seq = seq, fe_gml_id = ii_gml_id ii, fe_srs_name = fst inherited,
       fe_srs_dimension = snd inherited, fe_bounded = False, fe_extent = None\<rparr>\<rparr>"
  obtain ws2 root' where walk: "walk_content env fuel 0 ii new_frame ?ws1 root r = Some (Inr (ws2, root', r'))"
    and counted: "counted 0 inner root root'"
    using walk_content_counts [OF assms] by blast
  define layer where "layer = \<lparr>lo_feature_count = lo_feature_count ?layer + 1, lo_root = root',
    lo_extent = union_bbox (lo_extent ?layer) (fe_extent (ws_feature ws2))\<rparr>"
  define d' where "d' = ?d\<lparr>do_layers := AList.update q layer (do_layers ?d)\<rparr>"
  define b' where "b' = b\<lparr>tb_observation := d', tb_state := ws2\<lparr>ws_feature := (ws_feature ws2)\<lparr>fe_extent := None\<rparr>\<rparr>\<rparr>"
  have result: "scan_feature env fuel seq inherited q a r b = Some (Inr (b', r'))"
    by (simp add: scan_feature_def Let_def enter walk b'_def d'_def layer_def)
  have "map_of (do_layers d') = (map_of (do_layers ?d))(q \<mapsto> layer)" by (simp add: d'_def update_conv')
  note upd = update_layer [OF this]
  note keep = enter_root_keeps [OF enter]
  have inst: "instances_at p root' = layer_instances q p ?d + elements_at 0 p inner" if "untruncated root'" for p
    using that counted keep(3) [of p]
    by (cases p) (auto simp: counted_def instances_at_Nil layer_entry_keeps)
  have ok: "layers_ok d'" if "layers_ok ?d"
  proof -
    have "node_ok root'" using keep(1) layer_entry_keeps(1) [OF that] counted by (simp add: counted_def)
    moreover have "set (do_layers d') \<subseteq> insert (q, layer) (set (do_layers ?d))"
      using set_update_insert [of q layer] by (simp add: d'_def)
    ultimately show ?thesis using that by (auto simp: layers_ok_def d'_def layer_def distinct_update)
  qed
  have "tallied [X_Elem q a offset inner] ?d d'"
    using ok inst keep(2) counted unfolding tallied_def
    by (auto simp: upd layer_def layer_entry_keeps counted_def)
  then show ?thesis using result by (auto simp: b'_def)
qed


lemma feature_open: "next_event r = Inr (Ev_Start q a, r1) \<Longrightarrow> gr_open r1 \<noteq> []"
  using event_open(2) by simp

text \<open>The features a chunk's scan takes are counted, and it stops exactly when the budget leaves some out.\<close>

definition budget_left :: "nat option \<Rightarrow> nat \<Rightarrow> nat option" where
  "budget_left budget n = map_option (\<lambda>k. k - n) budget"

definition runs_out :: "nat option \<Rightarrow> nat \<Rightarrow> bool" where
  "runs_out budget n \<longleftrightarrow> (case budget of None \<Rightarrow> False | Some k \<Rightarrow> k < n)"

lemma scan_features_tally:
  "reads_features r fs \<Longrightarrow> reader_left r < fuel \<Longrightarrow>
   \<exists>b'. scan_features env fuel seq inherited budget b r
     = Some (Inr (b', budget_left budget (length (filter (is_wanted (tb_layers b)) fs)),
         runs_out budget (length (filter (is_wanted (tb_layers b)) fs)))) \<and>
     tallied (taken_features (tb_layers b) budget fs) (tb_observation b) (tb_observation b')"
proof (induction arbitrary: fuel seq budget b rule: reads_features.induct)
  case (input_end r r')
  then show ?case
    by (cases fuel) (auto simp: scan_features.simps(2) budget_left_def runs_out_def taken_features_def tallied_refl
        option.map_ident split: option.split)
next
  case (between r t r1 fs)
  obtain k where k: "fuel = Suc k" using between.prems by (cases fuel) auto
  have "reader_left r1 < k" using next_event_left [OF between(1)] between.prems k by auto
  then show ?case using between.IH by (simp add: k scan_features.simps(2) between(1))
next
  case (feature r q a r1 inner r2 fs)
  obtain k where k: "fuel = Suc k" using feature.prems by (cases fuel) auto
  have l1: "reader_left r1 < k" using next_event_start_left [OF feature(1)] feature.prems k by auto
  have l2: "reader_left r2 < k" using l1 reads_content_left [OF feature(2)] by simp
  let ?x = "X_Elem q a (loc_byte_offset (reader_location r1)) inner"
  let ?w = "is_wanted (tb_layers b)"
  have wanted: "?w ?x \<longleftrightarrow> \<not> (case tb_layers b of Some wanted \<Rightarrow> q \<notin> set wanted | None \<Rightarrow> False)"
    by (simp add: is_wanted_def split: option.split)
  show ?case
  proof (cases "?w ?x")
    case False
    then show ?thesis
      using feature.IH [OF l2] child_open [OF feature(1,2)] wanted
      by (simp add: k scan_features.simps(2) feature(1) taken_features_def)
  next
    case True
    show ?thesis
    proof (cases "budget = Some 0")
      case zero: True
      then show ?thesis using True wanted
        by (simp add: k scan_features.simps(2) feature(1) taken_features_def budget_left_def runs_out_def tallied_refl)
    next
      case False
      obtain b1 where b1: "scan_feature env k seq inherited q a r1 b = Some (Inr (b1, r2))" "tb_layers b1 = tb_layers b"
        "tallied [?x] (tb_observation b) (tb_observation b1)"
        using scan_feature_tallies [OF feature(2) feature_open [OF feature(1)] l1] by blast
      obtain b' where b': "scan_features env k (seq + 1) inherited (map_option (\<lambda>k. k - 1) budget) b1 r2
          = Some (Inr (b', budget_left (map_option (\<lambda>k. k - 1) budget) (length (filter ?w fs)),
              runs_out (map_option (\<lambda>k. k - 1) budget) (length (filter ?w fs))))"
        "tallied (taken_features (tb_layers b) (map_option (\<lambda>k. k - 1) budget) fs) (tb_observation b1) (tb_observation b')"
        using feature.IH [OF l2, of "seq + 1" "map_option (\<lambda>k. k - 1) budget" b1] b1(2) by auto
      have taken: "taken_features (tb_layers b) budget (?x # fs) = [?x] @ taken_features (tb_layers b) (map_option (\<lambda>k. k - 1) budget) fs"
        using True False by (auto simp: taken_features_def Let_def take_Cons' split: option.split)
      have left: "budget_left (map_option (\<lambda>k. k - 1) budget) n = budget_left budget (Suc n)"
        "runs_out (map_option (\<lambda>k. k - 1) budget) n = runs_out budget (Suc n)" for n
        using False by (cases budget; auto simp: budget_left_def runs_out_def)+
      show ?thesis
        using True False wanted b1(1) b'(1) tallied_trans [OF b1(3) b'(2)]
        by (simp add: k scan_features.simps(2) feature(1) taken left [unfolded One_nat_def])
    qed
  qed
qed

lemma tallied_same_layers: "do_layers d1 = do_layers d \<Longrightarrow> do_layers d2 = do_layers d' \<Longrightarrow> tallied fs d1 d2 = tallied fs d d'"
  by (simp add: tallied_def layers_ok_def layer_count_def layer_instances_def layer_whole_def)

definition bounds_readable :: "scan_env \<Rightarrow> feature_chunk \<Rightarrow> bool" where
  "bounds_readable env chunk \<longleftrightarrow>
     (case fc_collection_bounded_by chunk of None \<Rightarrow> True | Some raw \<Rightarrow> \<not> isl (read_collection_bounds env (arc_val raw)))"

lemma chunk_tally:
  assumes "reads_features (for_chunk (se_events env) chunk) fs" "bounds_readable env chunk"
  shows "\<exists>s. scan_chunk_inner env options chunk budget
      = Some (Inr (s, budget_left budget (length (filter (is_wanted (so_layers options)) fs)))) \<and>
    ch_stopped s = runs_out budget (length (filter (is_wanted (so_layers options)) fs)) \<and>
    tallied (taken_features (so_layers options) budget fs) default_dataset (ch_observation s)"
proof -
  define b0 where "b0 = (let b = new_builder (so_limits options) (so_layers options) (fc_source chunk)
     in b\<lparr>tb_observation := note_prefixes (arc_val (fc_namespaces chunk)) (tb_observation b)\<rparr>)"
  have b0: "tb_layers b0 = so_layers options" "do_layers (tb_observation b0) = do_layers default_dataset"
    by (simp_all add: b0_def new_builder_def note_prefixes_def Let_def)
  obtain inherited b where go: "builder_scan env chunk budget b0 =
      scan_features env (Suc (reader_left (for_chunk (se_events env) chunk))) (fc_first_feature_seq chunk) inherited budget b
        (for_chunk (se_events env) chunk)"
    and b: "tb_layers b = so_layers options" "do_layers (tb_observation b) = do_layers default_dataset"
  proof (cases "fc_collection_bounded_by chunk")
    case None
    then show ?thesis using b0 by (intro that [of "(None, None)" b0]) (simp_all add: builder_scan_def Let_def)
  next
    case (Some raw)
    obtain corners inherited where c: "read_collection_bounds env (arc_val raw) = Inr (corners, inherited)"
      using assms(2) by (cases "read_collection_bounds env (arc_val raw)") (auto simp: bounds_readable_def Some)
    show ?thesis using b0
      by (intro that [of inherited "b0\<lparr>tb_observation := (tb_observation b0)\<lparr>do_extent := envelope_bbox corners\<rparr>\<rparr>"])
        (simp_all add: builder_scan_def Let_def Some c)
  qed
  obtain b' where b': "builder_scan env chunk budget b0
      = Some (Inr (b', budget_left budget (length (filter (is_wanted (so_layers options)) fs)),
          runs_out budget (length (filter (is_wanted (so_layers options)) fs))))"
    "tallied (taken_features (so_layers options) budget fs) (tb_observation b) (tb_observation b')"
    using scan_features_tally [OF assms(1) lessI] unfolding go b(1) [symmetric] by blast
  have "tallied (taken_features (so_layers options) budget fs) default_dataset (finish_builder b')"
    using b'(2) by (subst tallied_same_layers [of _ "tb_observation b" _ "tb_observation b'"]) (simp_all add: b(2) finish_builder_def)
  then show ?thesis
    using b'(1) unfolding b0_def by (simp add: scan_chunk_inner_def Let_def)
qed

subsection \<open>The observations of chunks add up\<close>

lemma untruncated_facts:
  "node_ok n \<Longrightarrow> untruncated n \<longleftrightarrow> (\<forall>p f. facts_at p n = Some f \<longrightarrow> \<not> nf_truncated f)"
proof (induction n rule: untruncated.induct)
  case (1 f cs)
  have c: "untruncated c \<longleftrightarrow> (\<forall>p g. facts_at p c = Some g \<longrightarrow> \<not> nf_truncated g)" if "(q, c) \<in> set cs" for q c
    using 1 that by (force simp: list_all_iff)
  have d: "map_of cs q = Some c \<longleftrightarrow> (q, c) \<in> set cs" for q c using 1(2) by simp
  have "(\<forall>p g. facts_at p (Element_Node f cs) = Some g \<longrightarrow> \<not> nf_truncated g)
    \<longleftrightarrow> \<not> nf_truncated f \<and> (\<forall>q c. map_of cs q = Some c \<longrightarrow> (\<forall>p g. facts_at p c = Some g \<longrightarrow> \<not> nf_truncated g))"
    (is "?l \<longleftrightarrow> ?r")
  proof
    assume l: ?l
    have "\<not> nf_truncated f" using l [rule_format, of "[]" f] by (simp add: facts_at_def)
    moreover have "\<not> nf_truncated g" if "map_of cs q = Some c" "facts_at p c = Some g" for q c p g
      using l [rule_format, of "q # p" g] that by (simp add: facts_at_def)
    ultimately show ?r by blast
  next
    assume r: ?r
    show ?l
    proof (intro allI impI)
      fix p g assume "facts_at p (Element_Node f cs) = Some g"
      then show "\<not> nf_truncated g" using r by (cases p) (simp_all add: facts_at_def bind_eq_Some_conv, blast)
    qed
  qed
  then show ?case using c d by (auto simp: list_all_iff)
qed

lemma untruncated_merge:
  assumes "node_ok a" "node_ok b" "untruncated (merge_node a b)"
  shows "untruncated a \<and> untruncated b"
proof -
  have "\<not> nf_truncated f" if found: "facts_at p a = Some f \<or> facts_at p b = Some f" for p f
  proof -
    obtain g where "facts_at p (merge_node a b) = Some g" "nf_truncated f \<longrightarrow> nf_truncated g"
      using found facts_at_merge [OF assms(1,2), of p]
      by (cases "facts_at p a"; cases "facts_at p b") (auto simp: merge_facts_def)
    then show ?thesis using assms(3) untruncated_facts [OF node_ok_merge [OF assms(1,2)]] by blast
  qed
  then show ?thesis using untruncated_facts assms(1,2) by blast
qed

lemma merge_dataset_layers:
  assumes "layers_ok a" "layers_ok b"
  shows "map_of (do_layers (merge_dataset a b)) q = merge_option merge_layer (map_of (do_layers a) q) (map_of (do_layers b) q)"
    and "layers_ok (merge_dataset a b)"
proof -
  obtain m r where m: "index_merge merge_layer (do_layers a) (do_layers b) = (m, r)" by fastforce
  have d: "distinct (map fst (do_layers a))" "distinct (map fst (do_layers b))" using assms by (simp_all add: layers_ok_def)
  have dm: "distinct (map fst m)" using distinct_index_merge [OF d(1), of merge_layer "do_layers b"] by (simp add: m)
  have mm: "map_of m q = merge_option merge_layer (map_of (do_layers a) q) (map_of (do_layers b) q)" for q
    using map_of_index_merge [OF d(2), of merge_layer "do_layers a" q] by (simp add: m)
  have layers: "do_layers (merge_dataset a b) = (if r then sort_key layer_key m else m)"
    by (simp add: merge_dataset_def m)
  have set: "set (do_layers (merge_dataset a b)) = set m" "distinct (map fst (do_layers (merge_dataset a b)))"
    using dm by (simp_all add: layers distinct_sort_key)
  show of: "map_of (do_layers (merge_dataset a b)) q = merge_option merge_layer (map_of (do_layers a) q) (map_of (do_layers b) q)" for q
    using mm dm by (simp add: layers map_of_sort_key)
  have roots: "node_ok (lo_root l)" if "map_of (do_layers a) q = Some l \<or> map_of (do_layers b) q = Some l" for q l
    using that assms by (auto simp: layers_ok_def dest: map_of_SomeD)
  have "node_ok (lo_root l)" if "map_of m q = Some l" for q l
    using that roots [of q] by (auto simp: mm merge_option_def merge_layer_def node_ok_merge split: option.splits)
  then show "layers_ok (merge_dataset a b)" using set dm by (fastforce simp: layers_ok_def)
qed

lemma tallied_merge:
  assumes "tallied fs default_dataset a" "layers_ok d" "layers_ok a"
  shows "tallied fs d (merge_dataset d a)"
proof -
  note of = merge_dataset_layers(1) [OF assms(2,3)]
  have a: "layer_count q a = feature_elements q [] fs"
    "layer_whole q a \<Longrightarrow> layer_instances q p a = feature_elements q p fs" for q p
    using assms(1) by (auto simp: tallied_def layer_count_def layer_instances_def default_dataset_def)
  have roots: "node_ok (lo_root l)" if "map_of (do_layers d) q = Some l \<or> map_of (do_layers a) q = Some l" for q l
    using that assms(2,3) by (auto simp: layers_ok_def dest: map_of_SomeD)
  have count: "layer_count q (merge_dataset d a) = layer_count q d + layer_count q a" for q
    by (auto simp: layer_count_def of merge_layer_def merge_option_def split: option.split)
  have whole: "layer_whole q (merge_dataset d a) \<Longrightarrow> layer_whole q d \<and> layer_whole q a" for q
    using roots [of q] untruncated_merge
    by (cases "map_of (do_layers d) q"; cases "map_of (do_layers a) q")
      (simp_all add: layer_whole_def of merge_layer_def del: untruncated.simps, blast)
  have inst: "layer_instances q p (merge_dataset d a) = layer_instances q p d + layer_instances q p a" for q p
    using roots [of q] 
    by (cases "map_of (do_layers d) q"; cases "map_of (do_layers a) q")
      (simp_all add: layer_instances_def of merge_layer_def instances.total_merge)
  show ?thesis unfolding tallied_def using merge_dataset_layers(2) [OF assms(2,3)] count whole inst a by auto
qed

subsection \<open>The shares of a sample\<close>

lemma split_all_cases:
  assumes "split_all x sp = ((cs, None), t)"
  shows "(cs = [] \<and> (\<exists>t'. next_chunk x sp = (Inr None, t'))) \<or>
     (\<exists>c cs' sp' t'. cs = c # cs' \<and> next_chunk x sp = (Inr (Some c), sp') \<and> split_all x sp' = ((cs', None), t'))"
  using assms by (subst (asm) split_all.simps) (auto split: prod.splits sum.splits option.splits)

text \<open>What the chunks of a source get of a budget of that many features.\<close>

fun shares :: "nat \<Rightarrow> feature_chunk list \<Rightarrow> (feature_chunk \<times> nat) list" where
  "shares k [] = []"
| "shares k (c # cs) =
     (if k = 0 then [] else (c, min (fc_features c) k) # (if k < fc_features c then [] else shares (k - fc_features c) cs))"

fun left_out :: "nat \<Rightarrow> feature_chunk list \<Rightarrow> bool" where
  "left_out k [] = False"
| "left_out k (c # cs) = (k = 0 \<or> k < fc_features c \<or> left_out (k - fc_features c) cs)"

abbreviation chunk_total :: "feature_chunk list \<Rightarrow> nat" where
  "chunk_total cs \<equiv> sum_list (map fc_features cs)"

lemma shares_sum: "sum_list (map snd (shares k cs)) = min k (chunk_total cs)"
  by (induction k cs rule: shares.induct) auto

lemma shares_prefix: "map fst (shares k cs) = take (length (shares k cs)) cs"
  by (induction k cs rule: shares.induct) auto

lemma left_out_total: "list_all (\<lambda>c. 0 < fc_features c) cs \<Longrightarrow> left_out k cs \<longleftrightarrow> k < chunk_total cs"
  by (induction k cs rule: left_out.induct) auto

lemma source_items_shares:
  "split_all x sp = ((cs, None), t) \<Longrightarrow> sr_state s = Splitting sp i \<Longrightarrow>
   scan_budget s sd = \<lparr>bu_left = Some k, bu_used_up = False\<rparr> \<Longrightarrow>
   fst (source_items x s sd) = map (\<lambda>(c, n). Inr (c, Some n)) (shares k cs) \<and>
   (sd_sampled (snd (source_items x s sd)) \<longleftrightarrow> sd_sampled sd \<or> left_out k cs)"
proof (induction cs arbitrary: sp t s sd k)
  case Nil
  obtain t' where "next_chunk x sp = (Inr None, t')" using split_all_cases [OF Nil(1)] by auto
  then show ?case using Nil(2,3)
    by (subst (1 2) source_items.simps) (simp add: source_next_def split_next_def scan_budget_def)
next
  case (Cons c cs)
  obtain sp' t' where n: "next_chunk x sp = (Inr (Some c), sp')" "split_all x sp' = ((cs, None), t')"
    using split_all_cases [OF Cons.prems(1)] by auto
  show ?case
  proof (cases "k = 0 \<or> k < fc_features c")
    case True
    have ended: "source_items x s2 sd2 = ([], sd2)" if "sr_state s2 = Splitting sp' i" "bu_used_up (scan_budget s2 sd2)" for s2 sd2
      using that by (subst source_items.simps) (simp add: source_next_def split_next_def scan_budget_def)
    show ?thesis
      using True Cons.prems(2,3) n(1)
      by (cases "sr_budget s"; subst (1 2) source_items.simps)
        (auto simp: source_next_def split_next_def scan_budget_def take_share_def budget_share_def Let_def ended min_def
          split: prod.splits)
  next
    case False
    define s2 where "s2 = s\<lparr>sr_state := Splitting sp' i,
      sr_budget := map_option (\<lambda>_. \<lparr>bu_left = Some (k - fc_features c), bu_used_up = False\<rparr>) (sr_budget s)\<rparr>"
    define sd2 where "sd2 = (case sr_budget s of None \<Rightarrow> sd\<lparr>sd_budget := \<lparr>bu_left = Some (k - fc_features c), bu_used_up = False\<rparr>\<rparr> | Some _ \<Rightarrow> sd)"
    have next1: "source_next x s sd = (Some (Inr (c, Some (fc_features c))), s2, sd2)"
      using False Cons.prems(2,3) n(1)
      by (cases "sr_budget s")
        (simp_all add: source_next_def split_next_def scan_budget_def take_share_def budget_share_def Let_def s2_def sd2_def min_def)
    have "scan_budget s2 sd2 = \<lparr>bu_left = Some (k - fc_features c), bu_used_up = False\<rparr>" "sr_state s2 = Splitting sp' i"
      "sd_sampled sd2 = sd_sampled sd"
      by (simp_all add: scan_budget_def s2_def sd2_def split: option.split)
    note IH = Cons.IH [OF n(2) this(2,1)] and this(3)
    obtain its sd3 where its: "source_items x s2 sd2 = (its, sd3)" by fastforce
    show ?thesis using IH False \<open>sd_sampled sd2 = sd_sampled sd\<close> its
      by (subst (1 2) source_items.simps) (simp add: next1 min_def)
  qed
qed

definition item_share :: "chunk_item \<Rightarrow> nat" where
  "item_share item = (case item of Inr (c, Some n) \<Rightarrow> n | _ \<Rightarrow> 0)"

definition item_chunk :: "chunk_item \<Rightarrow> feature_chunk option" where
  "item_chunk item = (case item of Inr (c, _) \<Rightarrow> Some c | Inl _ \<Rightarrow> None)"

text \<open>
  C11. A sample of N features takes the first N features of a source, whatever its chunks: the chunks
  scanned are its first ones, their shares add up to N or to all the features there are, and the scan
  is marked as sampled exactly when features were left out.
\<close>

theorem sample_takes_first:
  assumes "split_all x sp = ((cs, None), t)" "sr_state s = Splitting sp i"
    "scan_budget s sd = new_budget (Some k)" "list_all (\<lambda>c. 0 < fc_features c) cs"
    "source_items x s sd = (items, sd')"
  shows "map item_chunk items = map Some (take (length items) cs) \<and>
    sum_list (map item_share items) = min k (chunk_total cs) \<and>
    (sd_sampled sd' \<longleftrightarrow> sd_sampled sd \<or> k < chunk_total cs)"
proof -
  have b: "scan_budget s sd = \<lparr>bu_left = Some k, bu_used_up = False\<rparr>" using assms(3) by (simp add: new_budget_def)
  have items: "items = map (\<lambda>(c, n). Inr (c, Some n)) (shares k cs)" "sd_sampled sd' \<longleftrightarrow> sd_sampled sd \<or> left_out k cs"
    using source_items_shares [OF assms(1,2) b] assms(5) by auto
  have "map item_chunk items = map Some (map fst (shares k cs))" "map item_share items = map snd (shares k cs)"
    "length items = length (shares k cs)"
    by (auto simp: items(1) item_chunk_def item_share_def)
  then show ?thesis using shares_prefix [of k cs] shares_sum [of k cs] left_out_total [OF assms(4)] items(2) by simp
qed

text \<open>
  C12. A scan ends, with an observation or an error, for every input: every chunk has fuel for each of
  its events, and the sources are split once each.
\<close>

theorem scan_ends: "scan_run x env extent options so sources \<noteq> None"
  using scan_items_returns by (simp add: scan_run_def split: prod.split)

subsection \<open>What a scan counts\<close>

definition item_features :: "qname list option \<Rightarrow> (feature_chunk \<times> nat option) list \<Rightarrow> xml list list \<Rightarrow> xml list" where
  "item_features wanted items fss = concat (map2 (\<lambda>item fs. taken_features wanted (snd item) fs) items fss)"

definition readable_item :: "scan_env \<Rightarrow> feature_chunk \<times> nat option \<Rightarrow> xml list \<Rightarrow> bool" where
  "readable_item env item fs \<longleftrightarrow>
     reads_features (for_chunk (se_events env) (fst item)) fs \<and> bounds_readable env (fst item)"

lemma scan_items_tally:
  "list_all2 (readable_item env) items fss \<Longrightarrow> pa_error p = None \<Longrightarrow> layers_ok (pa_observation p) \<Longrightarrow>
   \<exists>p'. scan_items env options p (map Inr items) = Some p' \<and> pa_error p' = None \<and>
     tallied (item_features (so_layers options) items fss) (pa_observation p) (pa_observation p')"
proof (induction arbitrary: p rule: list_all2_induct)
  case Nil
  then show ?case by (simp add: item_features_def tallied_refl)
next
  case (Cons item items fs fss)
  obtain s left where s: "scan_chunk_inner env options (fst item) (snd item) = Some (Inr (s, left))"
    "tallied (taken_features (so_layers options) (snd item) fs) default_dataset (ch_observation s)"
    using chunk_tally Cons(1) unfolding readable_item_def by blast
  define p1 where "p1 = p\<lparr>pa_observation := merge_dataset (pa_observation p) (ch_observation s),
     pa_hints := partial_hints (fc_source (fst item)) (ch_hints s) (pa_hints p)\<rparr>"
  have p1: "scan_item env options p (Inr item) = Some (p1, True)" by (cases item) (use s(1) in \<open>simp add: scan_item_def p1_def\<close>)
  have "layers_ok default_dataset" by (simp add: layers_ok_def default_dataset_def)
  then have ok: "layers_ok (ch_observation s)" using s(2) by (simp add: tallied_def)
  have t: "tallied (taken_features (so_layers options) (snd item) fs) (pa_observation p) (pa_observation p1)"
    using tallied_merge [OF s(2) Cons.prems(2) ok] by (simp add: p1_def)
  have "layers_ok (pa_observation p1)" using merge_dataset_layers(2) [OF Cons.prems(2) ok] by (simp add: p1_def)
  moreover have "pa_error p1 = None" using Cons.prems(1) by (simp add: p1_def)
  ultimately obtain p' where "scan_items env options p1 (map Inr items) = Some p'" "pa_error p' = None"
    "tallied (item_features (so_layers options) items fss) (pa_observation p1) (pa_observation p')"
    using Cons.IH by blast
  then show ?case using p1 tallied_trans [OF t] by (auto simp: item_features_def)
qed

text \<open>
  C10. What a scan of chunks observes is what they hold: every layer has as many features as the chunks
  do (of the layers asked for, up to the budgets), and, unless its tree says that something was left
  out, at every path exactly as many instances as there are elements.
\<close>

theorem scan_counts_elements:
  assumes "list_all2 (readable_item env) items fss"
  shows "\<exists>p. scan_items env options default_partial (map Inr items) = Some p \<and> pa_error p = None \<and>
    layers_ok (pa_observation p) \<and>
    layer_count q (pa_observation p) = feature_elements q [] (item_features (so_layers options) items fss) \<and>
    (layer_whole q (pa_observation p) \<longrightarrow>
       layer_instances q path (pa_observation p) = feature_elements q path (item_features (so_layers options) items fss))"
proof -
  have empty: "pa_error default_partial = None" "layers_ok (pa_observation default_partial)"
    "layer_count q (pa_observation default_partial) = 0" "layer_instances q path (pa_observation default_partial) = 0"
    by (simp_all add: default_partial_def default_dataset_def layers_ok_def layer_count_def layer_instances_def)
  show ?thesis using scan_items_tally [OF assms empty(1,2)] empty(2-4) unfolding tallied_def by fastforce
qed

text \<open>
  C25. A chunk that is scanned with a budget has its first features scanned, as many as the budget
  allows; the rest of the budget is returned, and whether features were left unscanned.
\<close>

theorem scan_chunk_budget:
  assumes "reads_features (for_chunk (se_events env) chunk) fs" "bounds_readable env chunk"
    "n = length (filter (is_wanted (so_layers options)) fs)"
  shows "\<exists>d. scan_chunk_limited env options chunk k = Some (Inr ((d, k < n), k - n)) \<and>
    layer_count q d = feature_elements q [] (take k (filter (is_wanted (so_layers options)) fs))"
proof -
  obtain s where s: "scan_chunk_inner env options chunk (Some k) = Some (Inr (s, budget_left (Some k) n))"
    "ch_stopped s = runs_out (Some k) n"
    "tallied (taken_features (so_layers options) (Some k) fs) default_dataset (ch_observation s)"
    using chunk_tally [OF assms(1,2)] unfolding assms(3) by blast
  have "layer_count q (guess_version chunk s) = layer_count q (ch_observation s)"
    by (simp add: guess_version_def add_version_def layer_count_def split: option.split)
  moreover have "layer_count q (ch_observation s) = feature_elements q [] (take k (filter (is_wanted (so_layers options)) fs))"
    using s(3) by (simp add: tallied_def taken_features_def layer_count_def default_dataset_def)
  ultimately show ?thesis using s(1,2) by (simp add: scan_chunk_limited_def budget_left_def runs_out_def)
qed

subsection \<open>A small chunk\<close>

text \<open>\<open><f><a/></f>\<close>, as the feature of a chunk.\<close>

definition sample_tag :: "bytes \<Rightarrow> raw_tag" where
  "sample_tag l = \<lparr>rt_namespace = Ns_Unbound, rt_local = l, rt_name = l, rt_attributes = []\<rparr>"

definition sample_events :: "(raw_event \<times> nat) list" where
  "sample_events =
     [(Raw_Start (sample_tag ''f''), 3), (Raw_Start (sample_tag ''a''), 7), (Raw_End (sample_tag ''a''), 7),
      (Raw_End (sample_tag ''f''), 11)]"

definition chunk_env :: scan_env where
  "chunk_env =
     \<lparr>se_events = \<lambda>_. sample_events, se_raw_events = \<lambda>_. [], se_corners = \<lambda>_ _ _. Inr None, se_number = \<lambda>_. None,
      se_data = \<lparr>cd_records = [], cd_aliases = [], cd_name_key = id\<rparr>,
      se_case = \<lparr>lc_upper = \<lambda>_. False, lc_lower = \<lambda>_. False\<rparr>\<rparr>"

definition sample_chunk :: feature_chunk where
  "sample_chunk =
     \<lparr>fc_source = 0, fc_seq = 0, fc_byte_offset = 0, fc_bytes = [], fc_namespaces = Arc 0 \<lparr>ctx_bindings = []\<rparr>,
      fc_first_feature_seq = 0, fc_features = 1, fc_feature_offsets = [], fc_collection_bounded_by = None\<rparr>"

definition chunk_options :: scan_options where
  "chunk_options = \<lparr>so_limits = default_limits, so_layers = None\<rparr>"

definition sample_name :: "bytes \<Rightarrow> qname" where
  "sample_name l = mk_qname None l"

text \<open>The reader after so many of its events, with these elements open.\<close>

definition sample_reader :: "nat \<Rightarrow> nat \<Rightarrow> qname list \<Rightarrow> gml_reader" where
  "sample_reader k position opened =
     \<lparr>gr_events = drop k sample_events, gr_position = position, gr_pending = None, gr_open = opened, gr_base_offset = 0,
      gr_feature_offsets = [], gr_source = 0\<rparr>"

lemma sample_steps:
  "for_chunk (se_events chunk_env) sample_chunk = sample_reader 0 0 []"
  "next_event (sample_reader 0 0 []) = Inr (Ev_Start (sample_name ''f'') [], sample_reader 1 3 [sample_name ''f''])"
  "next_event (sample_reader 1 3 os) = Inr (Ev_Start (sample_name ''a'') [], sample_reader 2 7 (sample_name ''a'' # os))"
  "next_event (sample_reader 2 7 (q # os)) = Inr (Ev_End q, sample_reader 3 7 os)"
  "next_event (sample_reader 3 7 (q # os)) = Inr (Ev_End q, sample_reader 4 11 os)"
  "next_event (sample_reader 4 11 os) = Inr (Ev_Eof, sample_reader 4 11 os)"
  by (simp_all add: sample_reader_def sample_events_def sample_tag_def sample_name_def next_event.simps read_raw_def
      resolve_tag_def for_chunk_def new_reader_def with_source_def chunk_env_def sample_chunk_def Let_def)

lemma sample_offsets:
  "loc_byte_offset (reader_location (sample_reader k position os)) = position"
  by (simp add: reader_location_def reader_location_at_def reader_stream_offset_def sample_reader_def stream_offset_def)

definition sample_features :: "xml list" where
  "sample_features = [X_Elem (sample_name ''f'') [] 3 [X_Elem (sample_name ''a'') [] 7 []]]"

lemma sample_content:
  "reads_content (sample_reader 2 7 (q # os)) [] (sample_reader 3 7 os)"
  "reads_content (sample_reader 1 3 (q # os)) [X_Elem (sample_name ''a'') [] 7 []] (sample_reader 4 11 os)"
proof -
  show inner: "reads_content (sample_reader 2 7 (q # os)) [] (sample_reader 3 7 os)" for q os
    by (rule reads_content.end_tag [OF sample_steps(4)])
  show "reads_content (sample_reader 1 3 (q # os)) [X_Elem (sample_name ''a'') [] 7 []] (sample_reader 4 11 os)"
    using reads_content.element [OF sample_steps(3) inner reads_content.end_tag [OF sample_steps(5)]]
    by (simp add: sample_offsets)
qed

lemma sample_readable: "readable_item chunk_env (sample_chunk, budget) sample_features"
  using reads_features.feature [OF sample_steps(2) sample_content(2) reads_features.input_end [OF sample_steps(6)]]
  by (simp add: readable_item_def sample_steps(1) sample_offsets sample_features_def bounds_readable_def)
    (simp add: sample_chunk_def)

theorem scan_counts_elements_witness:
  "\<exists>p. scan_items chunk_env chunk_options default_partial (map Inr [(sample_chunk, None), (sample_chunk, Some 5)]) = Some p \<and>
     layer_count (sample_name ''f'') (pa_observation p) = 2 \<and>
     (layer_whole (sample_name ''f'') (pa_observation p) \<longrightarrow>
        layer_instances (sample_name ''f'') [sample_name ''a''] (pa_observation p) = 2)"
proof -
  have "list_all2 (readable_item chunk_env) [(sample_chunk, None), (sample_chunk, Some 5)] [sample_features, sample_features]"
    by (simp add: sample_readable)
  from scan_counts_elements [OF this, of chunk_options "sample_name ''f''" "[sample_name ''a'']"]
  show ?thesis
    by (auto simp: item_features_def taken_features_def is_wanted_def chunk_options_def sample_features_def sample_name_def
        mk_qname_def numeral_2_eq_2)
qed

theorem scan_chunk_budget_witness:
  "\<exists>d. scan_chunk_limited chunk_env chunk_options sample_chunk 0 = Some (Inr ((d, True), 0)) \<and>
     layer_count (sample_name ''f'') d = 0"
  using scan_chunk_budget [of chunk_env sample_chunk sample_features 1 chunk_options 0 "sample_name ''f''"]
    sample_readable [of None]
  by (simp add: readable_item_def chunk_options_def is_wanted_def sample_features_def)

text \<open>Two chunks of three features that a splitter has ready.\<close>

definition sample_splitter :: splitter where
  "sample_splitter = (new_splitter [] 0 default_options)
     \<lparr>sp_ready := [sample_chunk\<lparr>fc_features := 3\<rparr>, sample_chunk\<lparr>fc_features := 3\<rparr>], sp_finished := True\<rparr>"

definition sample_scan :: source_scan where
  "sample_scan = \<lparr>sr_budget = Some (new_budget (Some 4)), sr_state = Splitting sample_splitter 0\<rparr>"

lemma sample_split_all:
  "split_all std_ext sample_splitter
   = (([sample_chunk\<lparr>fc_features := 3\<rparr>, sample_chunk\<lparr>fc_features := 3\<rparr>], None), sample_splitter\<lparr>sp_ready := []\<rparr>)"
  by (simp add: split_all.simps next_chunk.simps sample_splitter_def)

theorem sample_takes_first_witness:
  "\<exists>items sd. source_items std_ext sample_scan (new_shared Extent_Full chunk_options default_options) = (items, sd) \<and>
     sum_list (map item_share items) = 4 \<and> sd_sampled sd"
proof -
  obtain items sd where i: "source_items std_ext sample_scan (new_shared Extent_Full chunk_options default_options) = (items, sd)"
    by fastforce
  show ?thesis
    using i sample_takes_first [OF sample_split_all _ _ _ i, of 0 4]
    by (simp add: sample_scan_def scan_budget_def new_shared_def sample_chunk_def)
qed

subsection \<open>Coordinates are whole positions\<close>

definition whole_positions :: "coords \<Rightarrow> bool" where
  "whole_positions c \<longleftrightarrow> co_size c dvd length (co_values c)"

lemma read_ordinates_length:
  "read_ordinates env decimal os row n = Inr (row', n') \<Longrightarrow> length row = min n 3 \<Longrightarrow>
   n' = n + length os \<and> length row' = min n' 3"
  by (induction env decimal os row n rule: read_ordinates.induct) (auto split: if_splits sum.splits)

lemma length_pad_positions: "length (pad_positions xs) = 3 * (length xs div 2)"
  by (induction xs rule: pad_positions.induct) auto

lemma push_tuple_whole:
  assumes "push_tuple env c t cs decimal = Inr c'" "co_dim c \<noteq> None" "whole_positions c"
  shows "co_dim c' \<noteq> None \<and> whole_positions c' \<and> co_len c' = co_len c + 1"
proof -
  obtain row n where row: "read_ordinates env decimal
      (if is_whitespace_char cs then split_whitespace t else map trim (split_char cs t)) [] 0 = Inr (row, n)"
    "2 \<le> n" "n \<le> 3"
    using assms(1) by (auto simp: push_tuple_def split: sum.splits if_splits)
  have two: "n = 2 \<or> n = 3" using row(2,3) by auto
  have len: "length row = n" using read_ordinates_length [OF row(1)] row(2,3) by simp
  obtain d where d: "co_dim c = Some d" using assms(2) by blast
  obtain k where k: "length (co_values c) = dim_size d * k" using assms(3) d by (auto simp: whole_positions_def co_size_def)
  note defs = push_tuple_def d Let_def co_size_def co_len_def dim_size_def whole_positions_def length_pad_positions
  from two show ?thesis
  proof
    assume "n = 2"
    then show ?thesis using assms(1) row(1) len k by (cases d) (auto simp: defs)
  next
    assume "n = 3"
    then show ?thesis using assms(1) row(1) len k by (cases d) (auto simp: defs)
  qed
qed

lemma push_tuples_whole:
  "push_tuples env cs decimal ts c = Inr c' \<Longrightarrow> co_dim c \<noteq> None \<Longrightarrow> whole_positions c \<Longrightarrow>
   whole_positions c' \<and> co_len c' = co_len c + length ts"
  by (induction env cs decimal ts c rule: push_tuples.induct) (auto split: sum.splits dest: push_tuple_whole)

text \<open>
  C26. What the text of a \<open>coordinates\<close> element gives is a sequence of whole positions, 2D or 3D
  throughout: tuples of different dimensions are padded, and anything else is an error.
\<close>

theorem coordinates_are_whole:
  assumes "parse_coordinates env s format = Inr c"
  shows "co_size c dvd length (co_values c)"
  using assms push_tuples_whole [of env _ _ _ "new_coords Xy" c]
  by (auto simp: parse_coordinates_def Let_def parse_values_def whole_positions_def new_coords_def default_coords_def
      co_size_def dim_size_def dim_from_size_def split: sum.splits prod.splits if_splits)

definition number_env :: scan_env where
  "number_env = chunk_env\<lparr>se_number := \<lambda>s. if s = ''1'' then Some 1 else if s = ''2'' then Some 2 else None\<rparr>"

text \<open>\<open>1,2 1,2,1\<close>: the first position gets the ordinate 0.\<close>

lemma sample_coordinates:
  "parse_coordinates number_env ''1,2 1,2,1'' default_format = Inr \<lparr>co_dim = Some Xyz, co_values = [1, 2, 0, 1, 2, 1]\<rparr>"
  by code_simp

theorem coordinates_are_whole_witness: 
  "co_size \<lparr>co_dim = Some Xyz, co_values = [1, 2, 0, 1, 2, 1]\<rparr>
   dvd length (co_values \<lparr>co_dim = Some Xyz, co_values = [1, 2, 0, 1, 2, 1 :: f64]\<rparr>)"
  by (rule coordinates_are_whole [OF sample_coordinates])

subsection \<open>Reading, skipping, sniffing\<close>

text \<open>
  C13. An element whose content can be read is read as a whole, however it is used: skipping it, taking
  its text and sniffing it as a geometry all end right after its end tag, and none of them fails.
\<close>

theorem element_is_consumed:
  assumes "reads_content r cs r'" "gr_open r \<noteq> []"
  shows "skip_element r = Inr r' \<and> (\<exists>t. element_text [] r = Inr (t, r')) \<and>
    (\<exists>sniff. sniff_geometry_in env name raw srs dimension r = Inr (sniff, r'))"
  using skip_element_content [OF assms] element_text_content [OF assms] sniff_geometry_content [OF assms] by blast

theorem element_is_consumed_witness:
  "skip_element (sample_reader 1 3 [sample_name ''f'']) = Inr (sample_reader 4 11 [])"
proof -
  have "gr_open (sample_reader 1 3 [sample_name ''f'']) \<noteq> []" by (simp add: sample_reader_def)
  from element_is_consumed [OF sample_content(2) this] show ?thesis by blast
qed

end
