(* ===== verification/Spec2Isabelle.thy ===== *)
theory Spec2Isabelle
  imports Versions Splitter_Scope Splitter_Chunks Wkb_Roundtrip Value_Types Pattern Crs_Laws Axis_Laws Node_Laws
    Parallel_Pool Options_Laws Rules_Binding Scan_Counts
begin

text \<open>
  A verification library for xeibe, a streaming reader of GML (an XML format for geographic data)
  written in Rust. Paths of the form \<open>crates/..\<close> are below \<open>src/\<close>.

  How the program works. A document is cut into chunks of whole features as its bytes arrive
  (\<open>FeatureSplitter\<close>); chunks are worked on by a pool of threads (\<open>parallel\<close>). A scan walks the chunks'
  elements and counts what it sees in one tree per layer, and the trees of chunks, workers and files are
  merged. From the merged tree a rule engine infers a schema of columns (an Arrow schema whose metadata
  says which path each column comes from), and a reader binds such a schema to the XML again. Geometries
  are parsed into a model, written as WKB, and their axis order is decided from the evidence of the scan.

  Theories, in the order of the data.

  \<^item> \<open>Xeibe_Prelude\<close>: bytes and strings, white space, numbers in decimal, UTF-8, and the generic lemmas.
    A string is its list of bytes (\<open>bytes\<close>); \<open>Float64\<close>: the numbers \<open>f64\<close> as their 64 bits.
  \<^item> \<open>Names\<close> (\<open>xeibe-core/src/qname.rs\<close>, \<open>namespace.rs\<close>), \<open>Versions\<close> (\<open>version.rs\<close>).
  \<^item> \<open>Splitter\<close> is the model of \<open>splitter.rs\<close>, \<open>chunk.rs\<close> and \<open>location.rs\<close>: the record \<open>splitter\<close> is the
    struct, and each function of the \<open>impl\<close> is a function on it. \<open>Splitter_Scan\<close>, \<open>Splitter_Markup\<close> and
    \<open>Splitter_Machine\<close> show of the scanner, the markup and the state machine that it does not matter how
    the input is cut into reads (a refinement of the machine that has the whole document);
    \<open>Splitter_Run\<close> has the iterator and concludes it for all chunks. \<open>Splitter_Elements\<close> says what an
    element of the document is, from its bytes alone, and that the splitter knows in every state what is
    open; \<open>Splitter_Chunks\<close> shows what the chunks are (runs of whole elements of the document, each up to
    the end tag that closes it, numbered without a gap), \<open>Splitter_Scope\<close> that names are resolved as in
    the scope of the element and that no cache shows.
  \<^item> \<open>Parallel\<close> (\<open>parallel.rs\<close>): workers and consumer as steps that interleave; \<open>Parallel_Laws\<close> and
    \<open>Parallel_Pool\<close>: the invariant over all interleavings, the order and the bound of the results, that
    nothing gets stuck and that every run ends.
  \<^item> \<open>Xml_Reader\<close> (\<open>reader.rs\<close>): the reader of a chunk over the tokens of quick-xml. \<open>Sniff\<close>
    (\<open>xeibe-geom/src/sniff.rs\<close>, \<open>dialect.rs\<close>, \<open>parse/coords.rs\<close>, names and attributes of
    \<open>parse/mod.rs\<close>, dimensions of \<open>parse/assemble.rs\<close>): what is read of a geometry without building it.
  \<^item> \<open>Value_Stats\<close> (\<open>xeibe-schema/src/value.rs\<close>), \<open>Node_Stats\<close> (\<open>node.rs\<close>, \<open>geometry_stats.rs\<close>,
    \<open>observation.rs\<close>): what a scan observes, and the merges. \<open>Value_Laws\<close>, \<open>Value_Types\<close> and \<open>Node_Laws\<close>
    show that a column may be cut into chunks anywhere, that a merge is a merge path by path, and when
    the order of the children is that of their first appearance.
  \<^item> \<open>Scan\<close> and \<open>Scan_Run\<close> (\<open>scan.rs\<close>): the walk of a chunk, the shares of a sampled budget, the sources
    and the total. \<open>Scan_Laws\<close> and \<open>Scan_Counts\<close>: the walk reads whole elements, ends, and counts at
    every path exactly the elements there are; a sample of N features takes the first N.
  \<^item> \<open>Pattern\<close> (\<open>pattern.rs\<close>), \<open>Options\<close> and \<open>Options_Laws\<close> (\<open>options.rs\<close>, \<open>presets.rs\<close>): path patterns
    against globs over bytes and over characters, the settings, and which layers a selector means.
  \<^item> \<open>Rules_Columns\<close>, \<open>Rules_Types\<close> and \<open>Rules\<close> (\<open>rules.rs\<close>): the rule engine with the reasons it gives;
    \<open>Bind\<close> (\<open>bind.rs\<close>): column paths and what a column takes from its element. \<open>Rules_Laws\<close>: names of
    columns (unique, and the shortest that are) and their scalar types; \<open>Rules_Bindable\<close> and \<open>Rules_Binding\<close>: an inferred schema is bound, column
    by column, to the paths it was inferred for.
  \<^item> \<open>Geometry\<close>, \<open>Geometry_Laws\<close> (\<open>xeibe-geom/src/model.rs\<close>), \<open>Wkb\<close>, \<open>Wkb_Laws\<close> and \<open>Wkb_Roundtrip\<close>
    (\<open>wkb.rs\<close>): the geometry model, the writer and the reader of WKB, their round trip, sizes and errors.
  \<^item> \<open>Crs\<close>, \<open>Crs_Laws\<close> (\<open>crs.rs\<close>, \<open>epsg.rs\<close> and the lookups of \<open>xeibe-crs\<close>), \<open>Axis\<close> and \<open>Axis_Laws\<close>
    (\<open>axis.rs\<close>, \<open>quirks.rs\<close>): reference systems and the decision of the axis order.

  Interfaces. The locales \<open>namespace_scope\<close> (declare and look up), \<open>reversible\<close>, \<open>statistics\<close>, \<open>counter\<close>
  and the others are stated with the components that use them and interpreted on the definitions of the
  model; the properties are stated over these definitions.

  State, errors, loops. A struct is a record, \<open>&mut self\<close> is the record passed and returned; a mutable
  reference into a tree is the part taken out and put back. \<open>Result\<close> is a sum with the error on the
  left; the text of a message is a constructor that holds what the message shows. Machine integers are
  words or numbers with their bound written out where the code can reach it; counters of the elements
  of the input are natural numbers. Loops are recursive functions with a measure. Fuel occurs in three
  places: \<open>read_geometry\<close> of \<open>Wkb\<close> is given one unit per byte (\<open>read_wkb_terminates\<close>: it never runs out),
  \<open>walk_content\<close> and \<open>scan_features\<close> of \<open>Scan\<close> one unit per event left and one more (\<open>walk_content_fuel\<close>),
  and \<open>all_items\<close> of \<open>Scan_Run\<close> one unit per source and one more, each step taking a source.

  What is a parameter, because its code is not part of the repository: the byte searches of memchr and
  unescaping of quick-xml (\<open>byte_ext\<close>, with the documented behaviour in \<open>ext_ok\<close>), the tokens of a
  chunk (\<open>se_events\<close>), the parser of floating point numbers fast-float2, \<open>hypot\<close>, the tables of Unicode
  above ASCII (\<open>letter_case\<close>, \<open>unicode\<close>), serde_json, the fields geoarrow-schema makes and the
  \<open>Display\<close> of an Arrow type (\<open>rule_env\<close>). The generated tables of \<open>xeibe-crs\<close> are data (\<open>crs_data\<close>).

  Not modelled.

  \<^item> The parser that builds geometries (\<open>xeibe-geom/src/parse/\<close> but for the parts named above), arcs and
    their linearization: numerical code over the functions of the platform's mathematical library, for
    which there is no model in the libraries used. The corners it reads from the envelope of a collection are
    a parameter of the scan.
  \<^item> The reprojection (\<open>xeibe-reproject\<close>): map projections, datum grids, the selection of operations and
    the readers and writers of WKT and PROJ strings; numerical for the most part.
  \<^item> The generated tables of \<open>xeibe-crs\<close> and \<open>xeibe-esri\<close>: data without operations of their own.
  \<^item> The Arrow builders and the pipeline of reads (\<open>xeibe-arrow\<close>), the sinks (\<open>xeibe-datafusion\<close>,
    \<open>xeibe-export\<close>) and their settings: the buffers and types are those of the arrow crates.
  \<^item> Sources, archives and decoding ahead (\<open>source.rs\<close>, \<open>archive.rs\<close>, \<open>decode.rs\<close>, \<open>xeibe-io\<close>) and the
    WFS client (\<open>xeibe-wfs\<close>): input and output through other crates.
  \<^item> The command line, Python and browser bindings, the test kit, the reports of \<open>explain.rs\<close>.
\<close>

end
